(* ===== verification/Prelude.thy ===== *)
theory Prelude
  imports
    Main
    "HOL-Library.Char_ord"
    "HOL-Library.List_Lexorder"
    "HOL-Library.Product_Lexorder"
    "HOL-Library.Multiset"
begin

text \<open>
  Shared vocabulary of the development: the result type for Go's \<open>(value, error)\<close> returns, the
  functions of Go's \<open>strings\<close> package the sources use (on byte strings, ASCII case folding and
  ASCII white space), 64-bit \<open>int\<close> arithmetic, the contract of Go's \<open>sort\<close> functions as a
  locale, and generic lemmas on lists, options and maps.
\<close>

named_theorems result_simps \<open>equations for chaining fallible steps\<close>
named_theorems str_simps \<open>equations for the string functions\<close>
named_theorems frame_simps \<open>fields an operation leaves alone\<close>

section \<open>Fallible results\<close>

text \<open>\<open>if err != nil { return err }; ...\<close>: the error is passed on, the value is used.\<close>

definition bind_result :: "'e + 'a \<Rightarrow> ('a \<Rightarrow> 'e + 'b) \<Rightarrow> 'e + 'b" where
  "bind_result r f = (case r of Inl e \<Rightarrow> Inl e | Inr a \<Rightarrow> f a)"

lemma bind_result_Inl [simp, result_simps]: "bind_result (Inl e) f = Inl e"
  by (simp add: bind_result_def)

lemma bind_result_Inr [simp, result_simps]: "bind_result (Inr a) f = f a"
  by (simp add: bind_result_def)

lemma bind_result_eq_Inr [result_simps]:
  "bind_result r f = Inr b \<longleftrightarrow> (\<exists>a. r = Inr a \<and> f a = Inr b)"
  by (cases r) auto

lemma bind_result_eq_Inl [result_simps]:
  "bind_result r f = Inl e \<longleftrightarrow> r = Inl e \<or> (\<exists>a. r = Inr a \<and> f a = Inl e)"
  by (cases r) auto

definition require :: "bool \<Rightarrow> 'e \<Rightarrow> 'e + unit" where
  "require b e = (if b then Inr () else Inl e)"

lemma require_eq_Inr [simp, result_simps]: "require b e = Inr u \<longleftrightarrow> b"
  by (simp add: require_def)

lemma require_eq_Inl [simp, result_simps]: "require b e = Inl e' \<longleftrightarrow> \<not> b \<and> e' = e"
  by (auto simp: require_def)

text \<open>A loop whose body may return early with an error.\<close>

fun check_all :: "('a \<Rightarrow> 'e + unit) \<Rightarrow> 'a list \<Rightarrow> 'e + unit" where
  "check_all f [] = Inr ()"
| "check_all f (x # xs) = bind_result (f x) (\<lambda>_. check_all f xs)"

lemma check_all_eq_Inr [result_simps]:
  "check_all f xs = Inr u \<longleftrightarrow> (\<forall>x\<in>set xs. f x = Inr ())"
  by (induction xs) (auto simp: result_simps)

fun map_result :: "('a \<Rightarrow> 'e + 'b) \<Rightarrow> 'a list \<Rightarrow> 'e + 'b list" where
  "map_result f [] = Inr []"
| "map_result f (x # xs) =
     bind_result (f x) (\<lambda>y. bind_result (map_result f xs) (\<lambda>ys. Inr (y # ys)))"

lemma map_result_total:
  "(\<And>x. x \<in> set xs \<Longrightarrow> f x = Inr (g x)) \<Longrightarrow> map_result f xs = Inr (map g xs)"
  by (induction xs) auto

lemma map_result_eq_Inr:
  "map_result f xs = Inr ys \<longleftrightarrow> list_all2 (\<lambda>x y. f x = Inr y) xs ys"
proof (induction xs arbitrary: ys)
  case Nil
  then show ?case by auto
next
  case (Cons x xs)
  then show ?case by (cases ys) (auto simp: result_simps)
qed

section \<open>64-bit integers\<close>

text \<open>Go's \<open>int\<close> and \<open>int64\<close> on the supported platforms wrap at 64 bits.\<close>

definition wrap64 :: "int \<Rightarrow> int" where
  "wrap64 x = (x + 2 ^ 63) mod 2 ^ 64 - 2 ^ 63"

definition max_int64 :: int where
  "max_int64 = 2 ^ 63 - 1"

lemma wrap64_id: "- (2 ^ 63) \<le> x \<Longrightarrow> x < 2 ^ 63 \<Longrightarrow> wrap64 x = x"
  by (simp add: wrap64_def)

lemma wrap64_range: "- (2 ^ 63) \<le> wrap64 x \<and> wrap64 x < 2 ^ 63"
proof -
  have "0 \<le> (x + 2 ^ 63) mod 2 ^ 64" and "(x + 2 ^ 63) mod 2 ^ 64 < 2 ^ 64"
    by simp_all
  then show ?thesis by (simp add: wrap64_def)
qed

section \<open>Strings\<close>

text \<open>\<open>strings.Split\<close> and \<open>strings.Join\<close> with a one-byte separator.\<close>

fun split_on :: "'a \<Rightarrow> 'a list \<Rightarrow> 'a list list" where
  "split_on c [] = [[]]"
| "split_on c (x # xs) =
     (if x = c then [] # split_on c xs
      else (case split_on c xs of [] \<Rightarrow> [[x]] | p # ps \<Rightarrow> (x # p) # ps))"

fun join_with :: "'a \<Rightarrow> 'a list list \<Rightarrow> 'a list" where
  "join_with c [] = []"
| "join_with c [p] = p"
| "join_with c (p # q # ps) = p @ c # join_with c (q # ps)"

lemma split_on_not_Nil [simp]: "split_on c xs \<noteq> []"
  by (induction xs) (auto split: list.splits)

lemma split_on_no_sep [str_simps]: "c \<notin> set xs \<Longrightarrow> split_on c xs = [xs]"
  by (induction xs) auto

lemma split_on_append_sep [str_simps]:
  "c \<notin> set p \<Longrightarrow> split_on c (p @ c # xs) = p # split_on c xs"
  by (induction p) auto

lemma join_split: "join_with c (split_on c xs) = xs"
proof (induction xs)
  case Nil
  show ?case by simp
next
  case (Cons x xs)
  obtain p ps where p: "split_on c xs = p # ps"
    by (cases "split_on c xs") auto
  with Cons show ?case by (cases ps) auto
qed

lemma split_join:
  "ps \<noteq> [] \<Longrightarrow> (\<forall>p\<in>set ps. c \<notin> set p) \<Longrightarrow> split_on c (join_with c ps) = ps"
proof (induction ps rule: join_with.induct)
  case (3 c p q ps)
  then show ?case by (simp add: split_on_append_sep)
qed (auto simp: split_on_no_sep)

lemma split_on_parts: "p \<in> set (split_on c xs) \<Longrightarrow> c \<notin> set p"
proof (induction xs arbitrary: p)
  case (Cons x xs)
  then show ?case by (fastforce split: if_splits list.splits)
qed simp

text \<open>\<open>strings.Cut\<close> with a one-byte separator: before, after, found.\<close>

definition cut :: "'a \<Rightarrow> 'a list \<Rightarrow> 'a list \<times> 'a list \<times> bool" where
  "cut c s = (case dropWhile (\<lambda>x. x \<noteq> c) s of
     [] \<Rightarrow> (s, [], False)
   | _ # after \<Rightarrow> (takeWhile (\<lambda>x. x \<noteq> c) s, after, True))"

lemma takeWhile_sep: "c \<notin> set a \<Longrightarrow> takeWhile (\<lambda>x. x \<noteq> c) (a @ c # b) = a"
  by (induction a) auto

lemma dropWhile_sep: "c \<notin> set a \<Longrightarrow> dropWhile (\<lambda>x. x \<noteq> c) (a @ c # b) = c # b"
  by (induction a) auto

lemma cut_append: "c \<notin> set a \<Longrightarrow> cut c (a @ c # b) = (a, b, True)"
  by (simp add: cut_def takeWhile_sep dropWhile_sep)

lemma cut_none: "c \<notin> set s \<Longrightarrow> cut c s = (s, [], False)"
proof -
  assume "c \<notin> set s"
  then have "dropWhile (\<lambda>x. x \<noteq> c) s = []"
    by (induction s) auto
  then show ?thesis unfolding cut_def by (simp only: list.case)
qed

lemma cut_found: "cut c s = (a, b, True) \<Longrightarrow> s = a @ c # b \<and> c \<notin> set a"
proof (cases "dropWhile (\<lambda>x. x \<noteq> c) s")
  case Nil
  then show "cut c s = (a, b, True) \<Longrightarrow> ?thesis" by (simp add: cut_def)
next
  case (Cons y ys)
  assume "cut c s = (a, b, True)"
  with Cons have a: "a = takeWhile (\<lambda>x. x \<noteq> c) s" and b: "ys = b"
    by (simp_all add: cut_def)
  have "y = c" using Cons by (metis (mono_tags) dropWhile_eq_Cons_conv)
  then have "s = a @ c # b"
    using Cons a b takeWhile_dropWhile_id [of "\<lambda>x. x \<noteq> c" s] by simp
  moreover have "c \<notin> set a" using a by (auto dest: set_takeWhileD)
  ultimately show ?thesis by blast
qed

definition has_prefix :: "'a list \<Rightarrow> 'a list \<Rightarrow> bool" where
  "has_prefix s p \<longleftrightarrow> take (length p) s = p"

definition trim_prefix :: "'a list \<Rightarrow> 'a list \<Rightarrow> 'a list" where
  "trim_prefix s p = (if has_prefix s p then drop (length p) s else s)"

definition has_suffix :: "'a list \<Rightarrow> 'a list \<Rightarrow> bool" where
  "has_suffix s p \<longleftrightarrow> has_prefix (rev s) (rev p)"

definition trim_suffix :: "'a list \<Rightarrow> 'a list \<Rightarrow> 'a list" where
  "trim_suffix s p = (if has_suffix s p then take (length s - length p) s else s)"

lemma has_prefix_append [simp, str_simps]: "has_prefix (p @ s) p"
  by (simp add: has_prefix_def)

lemma has_prefixE:
  assumes "has_prefix s p" obtains t where "s = p @ t"
  using assms unfolding has_prefix_def by (metis append_take_drop_id)

lemma trim_prefix_append [simp, str_simps]: "trim_prefix (p @ s) p = s"
  by (simp add: trim_prefix_def)

text \<open>Byte ranges and ASCII case folding.\<close>

definition byte :: "char \<Rightarrow> nat" where
  "byte c = of_char c"

definition byte_in :: "char \<Rightarrow> char \<Rightarrow> char \<Rightarrow> bool" where
  "byte_in lo hi c \<longleftrightarrow> byte lo \<le> byte c \<and> byte c \<le> byte hi"

definition lower_byte :: "char \<Rightarrow> char" where
  "lower_byte c = (if byte_in (CHR ''A'') (CHR ''Z'') c then char_of (byte c + 32) else c)"

definition to_lower :: "string \<Rightarrow> string" where
  "to_lower = map lower_byte"

text \<open>The white space \<open>strings.TrimSpace\<close> removes: tab, newline, vertical tab, form feed, carriage
  return and blank.\<close>

definition is_space :: "char \<Rightarrow> bool" where
  "is_space c \<longleftrightarrow> byte c \<in> {9, 10, 11, 12, 13, 32}"

definition trim_left :: "('a \<Rightarrow> bool) \<Rightarrow> 'a list \<Rightarrow> 'a list" where
  "trim_left P = dropWhile P"

definition trim_right :: "('a \<Rightarrow> bool) \<Rightarrow> 'a list \<Rightarrow> 'a list" where
  "trim_right P s = rev (dropWhile P (rev s))"

definition trim_space :: "string \<Rightarrow> string" where
  "trim_space s = trim_right is_space (trim_left is_space s)"

section \<open>Go's sort functions\<close>

text \<open>
  \<open>slices.SortFunc\<close> and \<open>sort.Slice\<close> promise a sorted permutation of their input and nothing about
  the order of elements that compare equal. Whatever is proved in this locale holds for every
  sort with that promise; \<open>srt_unique\<close> says when the promise determines the result.
\<close>

locale key_sort =
  fixes key :: "'a \<Rightarrow> 'k :: linorder"
    and srt :: "'a list \<Rightarrow> 'a list"
  assumes srt_mset: "mset (srt xs) = mset xs"
    and srt_sorted: "sorted (map key (srt xs))"
begin

lemma srt_set [simp]: "set (srt xs) = set xs"
  using srt_mset by (metis set_mset_mset)

lemma srt_length [simp]: "length (srt xs) = length xs"
  using srt_mset by (metis size_mset)

lemma srt_distinct [simp]: "distinct (srt xs) = distinct xs"
  using srt_mset by (metis mset_eq_imp_distinct_iff)

lemma srt_Nil_iff [simp]: "srt xs = [] \<longleftrightarrow> xs = []"
  by (metis length_0_conv srt_length)

lemma srt_keys: "map key (srt xs) = sort (map key xs)"
proof -
  have "mset (map key (srt xs)) = mset (map key xs)"
    by (simp add: srt_mset)
  then show ?thesis
    using srt_sorted by (metis properties_for_sort)
qed

lemma srt_unique:
  assumes inj: "inj_on key (set xs)" and perm: "mset ys = mset xs"
    and sorted: "sorted (map key ys)"
  shows "ys = srt xs"
proof -
  have keys: "map key ys = map key (srt xs)"
    using perm sorted by (metis mset_map properties_for_sort srt_keys)
  have sets: "set ys = set xs" using perm by (metis set_mset_mset)
  then have "set ys \<union> set (srt xs) = set xs" by simp
  then show ?thesis
    using keys inj by (metis inj_on_map_eq_map)
qed

lemma srt_perm_invariant:
  "inj_on key (set xs) \<Longrightarrow> mset ys = mset xs \<Longrightarrow> srt ys = srt xs"
  by (rule srt_unique) (simp_all add: srt_mset srt_sorted)

end

section \<open>Lists and maps\<close>

lemma sorted_keys_nth:
  "sorted (map f xs) \<Longrightarrow> i < j \<Longrightarrow> j < length xs \<Longrightarrow> f (xs ! i) \<le> f (xs ! j)"
  using sorted_nth_mono [of "map f xs" i j] by simp

lemma find_Some_mem: "find P xs = Some x \<Longrightarrow> x \<in> set xs \<and> P x"
  by (auto simp: find_Some_iff)

text \<open>The map a Go loop builds by storing each pair in order: the last pair of a key wins.\<close>

definition map_of_last :: "('k \<times> 'v) list \<Rightarrow> 'k \<rightharpoonup> 'v" where
  "map_of_last kvs = map_of (rev kvs)"

lemma map_of_last_Nil [simp]: "map_of_last [] = Map.empty"
  by (simp add: map_of_last_def)

lemma map_of_last_snoc [simp]: "map_of_last (kvs @ [(k, v)]) = (map_of_last kvs)(k \<mapsto> v)"
  by (simp add: map_of_last_def)

lemma dom_map_of_last: "dom (map_of_last kvs) = fst ` set kvs"
  by (simp add: map_of_last_def dom_map_of_conv_image_fst)

lemma map_of_last_mem: "map_of_last kvs k = Some v \<Longrightarrow> (k, v) \<in> set kvs"
  unfolding map_of_last_def by (metis map_of_SomeD set_rev)

lemma map_of_last_distinct:
  "distinct (map fst kvs) \<Longrightarrow> (k, v) \<in> set kvs \<Longrightarrow> map_of_last kvs k = Some v"
  by (simp add: map_of_last_def rev_map [symmetric])

end
