(* ===== verification/Decimal.thy ===== *)
theory Decimal
  imports Prelude
begin

text \<open>
  Decimal rendering and reading of integers, as \<open>fmt\<close>'s \<open>%d\<close> and \<open>%02d\<close>, \<open>strconv.Itoa\<close> and
  \<open>strconv.Atoi\<close> do it. Shard names and shard labels are built from these.
\<close>

definition digit_char :: "nat \<Rightarrow> char" where
  "digit_char d = char_of (48 + d)"

definition is_digit :: "char \<Rightarrow> bool" where
  "is_digit c \<longleftrightarrow> 48 \<le> byte c \<and> byte c \<le> 57"

definition digit_val :: "char \<Rightarrow> nat" where
  "digit_val c = byte c - 48"

fun dec_nat :: "nat \<Rightarrow> string" where
  "dec_nat n = (if n < 10 then [digit_char n] else dec_nat (n div 10) @ [digit_char (n mod 10)])"

declare dec_nat.simps [simp del]

definition itoa :: "int \<Rightarrow> string" where
  "itoa i = (if i < 0 then CHR ''-'' # dec_nat (nat (- i)) else dec_nat (nat i))"

text \<open>\<open>%02d\<close>: padded with zeros to two characters, the sign included.\<close>

definition pad2 :: "int \<Rightarrow> string" where
  "pad2 i = (if 0 \<le> i \<and> i < 10 then CHR ''0'' # itoa i else itoa i)"

fun num_of :: "nat \<Rightarrow> string \<Rightarrow> nat option" where
  "num_of acc [] = Some acc"
| "num_of acc (c # cs) =
     (if is_digit c then num_of (10 * acc + digit_val c) cs else None)"

definition in_int64 :: "int \<Rightarrow> bool" where
  "in_int64 i \<longleftrightarrow> - (2 ^ 63) \<le> i \<and> i < 2 ^ 63"

text \<open>\<open>strconv.Atoi\<close>: an optional sign, then at least one digit; out of range is an error.\<close>

definition unsigned_of :: "string \<Rightarrow> nat option" where
  "unsigned_of s = (if s = [] then None else num_of 0 s)"

definition atoi :: "string \<Rightarrow> int option" where
  "atoi s =
     (let signed = (case s of
          [] \<Rightarrow> None
        | c # cs \<Rightarrow>
            if c = CHR ''-'' then map_option (\<lambda>n. - int n) (unsigned_of cs)
            else if c = CHR ''+'' then map_option int (unsigned_of cs)
            else map_option int (unsigned_of s))
      in case signed of None \<Rightarrow> None | Some i \<Rightarrow> if in_int64 i then Some i else None)"

section \<open>Digits\<close>

lemma byte_digit_char: "d < 10 \<Longrightarrow> byte (digit_char d) = 48 + d"
  by (simp add: byte_def digit_char_def of_char_mod_256)

lemma is_digit_digit_char [simp]: "d < 10 \<Longrightarrow> is_digit (digit_char d)"
  by (simp add: is_digit_def byte_digit_char)

lemma digit_val_digit_char [simp]: "d < 10 \<Longrightarrow> digit_val (digit_char d) = d"
  by (simp add: digit_val_def byte_digit_char)

lemma is_digit_not_sep:
  "\<not> is_digit (CHR ''/'')" "\<not> is_digit (CHR ''-'')" "\<not> is_digit (CHR ''+'')"
  by (simp_all add: is_digit_def byte_def)

lemma dec_nat_digits: "c \<in> set (dec_nat n) \<Longrightarrow> is_digit c"
proof (induction n rule: dec_nat.induct)
  case (1 n)
  then show ?case
    by (cases "n < 10") (auto simp: dec_nat.simps [of n])
qed

lemma dec_nat_not_Nil [simp]: "dec_nat n \<noteq> []"
  by (subst dec_nat.simps) simp

lemma dec_nat_no_slash: "CHR ''/'' \<notin> set (dec_nat n)"
  using dec_nat_digits is_digit_not_sep by blast

lemma num_of_append:
  "num_of acc (xs @ ys) = (case num_of acc xs of None \<Rightarrow> None | Some a \<Rightarrow> num_of a ys)"
  by (induction xs arbitrary: acc) auto

lemma num_of_dec_nat: "num_of 0 (dec_nat n) = Some n"
proof (induction n rule: dec_nat.induct)
  case (1 n)
  show ?case
  proof (cases "n < 10")
    case True
    then show ?thesis by (simp add: dec_nat.simps [of n])
  next
    case False
    then have "num_of 0 (dec_nat n) = num_of (n div 10) [digit_char (n mod 10)]"
      using 1 by (simp add: dec_nat.simps [of n] num_of_append)
    then show ?thesis by simp
  qed
qed

lemma dec_nat_inj: "dec_nat m = dec_nat n \<Longrightarrow> m = n"
  by (metis num_of_dec_nat option.inject)

lemma itoa_inj:
  assumes "itoa i = itoa j" shows "i = j"
proof -
  have neg: "\<And>n. CHR ''-'' \<notin> set (dec_nat n)"
    using dec_nat_digits is_digit_not_sep by blast
  show ?thesis
  proof (cases "i < 0"; cases "j < 0")
    assume "i < 0" "j < 0"
    with assms have "nat (- i) = nat (- j)" by (auto simp: itoa_def dest: dec_nat_inj)
    with \<open>i < 0\<close> \<open>j < 0\<close> show ?thesis by simp
  next
    assume "i < 0" "\<not> j < 0"
    with assms have "dec_nat (nat j) = CHR ''-'' # dec_nat (nat (- i))" by (simp add: itoa_def)
    then have "CHR ''-'' \<in> set (dec_nat (nat j))" by simp
    then show ?thesis using neg by blast
  next
    assume "\<not> i < 0" "j < 0"
    with assms have "dec_nat (nat i) = CHR ''-'' # dec_nat (nat (- j))" by (simp add: itoa_def)
    then have "CHR ''-'' \<in> set (dec_nat (nat i))" by simp
    then show ?thesis using neg by blast
  next
    assume "\<not> i < 0" "\<not> j < 0"
    with assms have "nat i = nat j" by (auto simp: itoa_def dest: dec_nat_inj)
    with \<open>\<not> i < 0\<close> \<open>\<not> j < 0\<close> show ?thesis by simp
  qed
qed

lemma atoi_itoa: "in_int64 i \<Longrightarrow> atoi (itoa i) = Some i"
proof (cases "i < 0")
  case True
  moreover assume "in_int64 i"
  ultimately show ?thesis
    by (simp add: atoi_def itoa_def unsigned_of_def num_of_dec_nat)
next
  case False
  assume r: "in_int64 i"
  obtain c cs where d: "dec_nat (nat i) = c # cs"
    by (cases "dec_nat (nat i)") auto
  then have "is_digit c" using dec_nat_digits [of c "nat i"] by simp
  then have "c \<noteq> CHR ''-''" "c \<noteq> CHR ''+''" using is_digit_not_sep by auto
  moreover have "unsigned_of (c # cs) = Some (nat i)"
    using num_of_dec_nat [of "nat i"] d by (simp add: unsigned_of_def)
  ultimately show ?thesis
    using False r d by (simp add: atoi_def itoa_def)
qed

end
