(* ===== verification/Inventory.thy ===== *)
theory Inventory
  imports Decimal
begin

text \<open>
  \<open>internal/inventory\<close>: object identifiers (\<open>ref.go\<close>), deterministic packing of a stage's objects
  into shards and shard names (\<open>shard.go\<close>), and the prune plan with ownership transfer between
  stages and reverse-order teardown (\<open>plan.go\<close>). SHA-256 is a parameter (\<open>sha256_hex\<close>): nothing
  below relies on what it computes.
\<close>

section \<open>Object identifiers\<close>

record ObjectRef =
  ref_Group :: string
  ref_Kind :: string
  ref_Namespace :: string
  ref_Name :: string
  ref_Version :: string

definition idSeparator :: char where
  "idSeparator = CHR ''_''"

definition ID :: "ObjectRef \<Rightarrow> string" where
  "ID r = join_with idSeparator [ref_Namespace r, ref_Name r, ref_Group r, ref_Kind r]"

datatype id_error = MalformedParts string nat | EmptyName string | EmptyKind string

definition ParseID :: "string \<Rightarrow> string \<Rightarrow> id_error + ObjectRef" where
  "ParseID s version =
     (case split_on idSeparator s of
        [ns, n, g, k] \<Rightarrow>
          let ref = \<lparr>ref_Group = g, ref_Kind = k, ref_Namespace = ns, ref_Name = n,
                     ref_Version = version\<rparr> in
          if ref_Name ref = [] then Inl (EmptyName s)
          else if ref_Kind ref = [] then Inl (EmptyKind s)
          else Inr ref
      | parts \<Rightarrow> Inl (MalformedParts s (length parts)))"

definition ClusterScoped :: "ObjectRef \<Rightarrow> bool" where
  "ClusterScoped r \<longleftrightarrow> ref_Namespace r = []"

text \<open>Kubernetes names, namespaces, groups and kinds never hold an underscore; name and kind are
  not empty.\<close>

definition wf_ref :: "ObjectRef \<Rightarrow> bool" where
  "wf_ref r \<longleftrightarrow>
     idSeparator \<notin> set (ref_Namespace r) \<and> idSeparator \<notin> set (ref_Name r) \<and>
     idSeparator \<notin> set (ref_Group r) \<and> idSeparator \<notin> set (ref_Kind r) \<and>
     ref_Name r \<noteq> [] \<and> ref_Kind r \<noteq> []"

lemma split_ID:
  "wf_ref r \<Longrightarrow>
   split_on idSeparator (ID r) = [ref_Namespace r, ref_Name r, ref_Group r, ref_Kind r]"
  unfolding ID_def by (rule split_join) (simp_all add: wf_ref_def)

lemma ParseID_ID: "wf_ref r \<Longrightarrow> ParseID (ID r) v = Inr (r\<lparr>ref_Version := v\<rparr>)"
  by (simp add: ParseID_def split_ID) (simp add: wf_ref_def)

lemma ParseID_sound: "ParseID s v = Inr r \<Longrightarrow> ID r = s \<and> ref_Version r = v \<and> wf_ref r"
proof -
  assume h: "ParseID s v = Inr r"
  then obtain ns n g k where parts: "split_on idSeparator s = [ns, n, g, k]"
    by (auto simp: ParseID_def split: list.splits)
  with h have r: "r = \<lparr>ref_Group = g, ref_Kind = k, ref_Namespace = ns, ref_Name = n,
      ref_Version = v\<rparr>" and ne: "n \<noteq> []" "k \<noteq> []"
    by (auto simp: ParseID_def Let_def split: if_splits)
  have "ID r = join_with idSeparator (split_on idSeparator s)"
    by (simp add: ID_def r parts)
  then have "ID r = s" by (simp add: join_split)
  moreover have "\<forall>p\<in>set [ns, n, g, k]. idSeparator \<notin> set p"
    using split_on_parts [of _ idSeparator s] by (simp add: parts)
  ultimately show ?thesis using ne by (simp add: r wf_ref_def)
qed

text \<open>Identity leaves the version out: two references have the same ID when they differ in it only.\<close>

lemma ID_eq_iff:
  "wf_ref a \<Longrightarrow> wf_ref b \<Longrightarrow> ID a = ID b \<longleftrightarrow> a\<lparr>ref_Version := ref_Version b\<rparr> = b"
proof -
  assume a: "wf_ref a" and b: "wf_ref b"
  have "ID (a\<lparr>ref_Version := ref_Version b\<rparr>) = ID a" by (simp add: ID_def)
  moreover have "ID a = ID b \<Longrightarrow> a\<lparr>ref_Version := ref_Version b\<rparr> = b\<lparr>ref_Version := ref_Version b\<rparr>"
    using ParseID_ID [OF a, of "ref_Version b"] ParseID_ID [OF b, of "ref_Version b"] by simp
  ultimately show ?thesis by auto
qed

section \<open>Sorting by identifier\<close>

definition sort_refs :: "ObjectRef list \<Rightarrow> ObjectRef list" where
  "sort_refs refs = sort_key ID refs"

interpretation refs: key_sort ID sort_refs
  by unfold_locales (simp_all add: sort_refs_def)

definition entry_ids :: "ObjectRef list \<Rightarrow> string set" where
  "entry_ids refs = set (map ID refs)"

lemma entry_ids_sort [simp]: "entry_ids (sort_refs refs) = entry_ids refs"
  by (simp add: entry_ids_def)

lemma in_entry_ids [intro]: "r \<in> set refs \<Longrightarrow> ID r \<in> entry_ids refs"
  by (simp add: entry_ids_def)

definition filterRefs :: "ObjectRef list \<Rightarrow> (string \<Rightarrow> bool) \<Rightarrow> ObjectRef list" where
  "filterRefs refs keep = sort_refs (filter (\<lambda>r. keep (ID r)) refs)"

lemma set_filterRefs [simp]: "set (filterRefs refs keep) = {r \<in> set refs. keep (ID r)}"
  by (auto simp: filterRefs_def)

lemma sorted_filterRefs: "sorted (map ID (filterRefs refs keep))"
  by (simp add: filterRefs_def refs.srt_sorted)

section \<open>Shards\<close>

definition DefaultShardCap :: int where
  "DefaultShardCap = 5000"

definition maxNameLength :: nat where
  "maxNameLength = 253"

datatype shard_error = CapacityNotPositive int | MakeSliceCapOutOfRange

text \<open>Go's integer division truncates; the sums wrap at 64 bits.\<close>

definition quot_int :: "int \<Rightarrow> int \<Rightarrow> int" where
  "quot_int a b = sgn a * sgn b * (\<bar>a\<bar> div \<bar>b\<bar>)"

definition shard_slots :: "nat \<Rightarrow> int \<Rightarrow> int" where
  "shard_slots n capacity = quot_int (wrap64 (wrap64 (int n + capacity) - 1)) capacity"

function shard_loop :: "'a list \<Rightarrow> nat \<Rightarrow> nat \<Rightarrow> 'a list list" where
  "shard_loop xs capacity start =
     (if start < length xs \<and> 0 < capacity
      then take (min (start + capacity) (length xs) - start) (drop start xs)
             # shard_loop xs capacity (start + capacity)
      else [])"
  by pat_completeness auto
termination
  by (relation "measure (\<lambda>(xs, c, start). length xs - start)") auto

declare shard_loop.simps [simp del]

text \<open>\<open>make([][]ObjectRef, 0, slots)\<close> panics on a negative capacity.\<close>

definition PlanShards :: "ObjectRef list \<Rightarrow> int \<Rightarrow> shard_error + ObjectRef list list" where
  "PlanShards entries capacity =
     (if capacity < 1 then Inl (CapacityNotPositive capacity)
      else let sorted = sort_refs entries in
        if sorted = [] then Inr [[]]
        else if shard_slots (length sorted) capacity < 0 then Inl MakeSliceCapOutOfRange
        else Inr (shard_loop sorted (nat capacity) 0))"

definition shard_digest_input :: "string \<Rightarrow> string \<Rightarrow> int \<Rightarrow> string" where
  "shard_digest_input stageSet stage shard =
     dec_nat (length stageSet) @ ''/'' @ stageSet @ ''/'' @
     dec_nat (length stage) @ ''/'' @ stage @ ''/'' @ itoa shard"

definition ShardName :: "(string \<Rightarrow> string) \<Rightarrow> string \<Rightarrow> string \<Rightarrow> int \<Rightarrow> string" where
  "ShardName sha256_hex stageSet stage shard =
     (let suffix = take 10 (sha256_hex (shard_digest_input stageSet stage shard));
          base = stageSet @ ''-'' @ stage @ ''-'' @ pad2 shard
      in if length base + 1 + length suffix \<le> maxNameLength then base @ ''-'' @ suffix
         else trim_right (\<lambda>c. c = CHR ''-'') (take (maxNameLength - length suffix - 1) base)
                @ ''-'' @ suffix)"

lemma concat_shard_loop: "0 < c \<Longrightarrow> concat (shard_loop xs c k) = drop k xs"
proof (induction xs c k rule: shard_loop.induct)
  case (1 xs c k)
  show ?case
  proof (cases "k < length xs")
    case True
    have "take (min (k + c) (length xs) - k) (drop k xs) @ drop (k + c) xs = drop k xs"
    proof (cases "k + c \<le> length xs")
      case True
      then show ?thesis
        by (simp add: min_absorb1) (metis add.commute append_take_drop_id drop_drop)
    qed (simp add: min_absorb2)
    with True 1 show ?thesis by (subst shard_loop.simps) simp
  qed (simp add: shard_loop.simps)
qed

lemma length_shard_loop_mem: "s \<in> set (shard_loop xs c k) \<Longrightarrow> s \<noteq> [] \<and> length s \<le> c"
proof (induction xs c k rule: shard_loop.induct)
  case (1 xs c k)
  show ?case
  proof (cases "k < length xs \<and> 0 < c")
    case True
    with "1.prems" consider "s = take (min (k + c) (length xs) - k) (drop k xs)"
      | "s \<in> set (shard_loop xs c (k + c))"
      by (auto simp: shard_loop.simps [of xs c k])
    then show ?thesis
    proof cases
      case 1
      with True show ?thesis by auto
    next
      case 2
      with True "1.IH" show ?thesis by simp
    qed
  next
    case False
    with "1.prems" show ?thesis by (auto simp: shard_loop.simps [of xs c k])
  qed
qed

lemma shard_loop_eq_Nil: "0 < c \<Longrightarrow> shard_loop xs c k = [] \<longleftrightarrow> length xs \<le> k"
  by (subst shard_loop.simps) auto

text \<open>Every shard but the last is full.\<close>

lemma shard_loop_full:
  "0 < c \<Longrightarrow> Suc i < length (shard_loop xs c k) \<Longrightarrow> length (shard_loop xs c k ! i) = c"
proof (induction xs c k arbitrary: i rule: shard_loop.induct)
  case (1 xs c k)
  show ?case
  proof (cases "k < length xs")
    case False
    with "1.prems" show ?thesis by (simp add: shard_loop.simps [of xs c k])
  next
    case True
    then have unfold: "shard_loop xs c k =
        take (min (k + c) (length xs) - k) (drop k xs) # shard_loop xs c (k + c)"
      using "1.prems" by (simp add: shard_loop.simps [of xs c k])
    show ?thesis
    proof (cases i)
      case 0
      with "1.prems" unfold have "shard_loop xs c (k + c) \<noteq> []" by auto
      then have "k + c < length xs"
        using "1.prems" by (simp add: shard_loop_eq_Nil)
      with 0 unfold show ?thesis by simp
    next
      case (Suc j)
      with "1.prems" unfold True "1.IH" show ?thesis by simp
    qed
  qed
qed

lemma shard_slots_nonneg:
  assumes "1 \<le> c" and "int n + c \<le> 2 ^ 63" and "0 < n"
  shows "0 \<le> shard_slots n c"
proof -
  have nonneg: "0 \<le> wrap64 (wrap64 (int n + c) - 1)"
  proof (cases "int n + c = 2 ^ 63")
    case True
    then show ?thesis by (simp add: wrap64_def)
  next
    case False
    with assms have "wrap64 (int n + c) = int n + c" by (simp add: wrap64_id)
    moreover have "wrap64 (int n + c - 1) = int n + c - 1"
      using assms False by (simp add: wrap64_id)
    ultimately show ?thesis using assms by simp
  qed
  with assms(1) show ?thesis
    by (auto simp: shard_slots_def quot_int_def sgn_if pos_imp_zdiv_nonneg_iff)
qed

lemma PlanShards_Inr_cases:
  "PlanShards entries c = Inr shards \<Longrightarrow>
   1 \<le> c \<and> shards = (if entries = [] then [[]] else shard_loop (sort_refs entries) (nat c) 0)"
  by (auto simp: PlanShards_def Let_def split: if_splits)

lemma PlanShards_total:
  "1 \<le> c \<Longrightarrow> int (length entries) + c \<le> 2 ^ 63 \<Longrightarrow>
   PlanShards entries c =
     Inr (if entries = [] then [[]] else shard_loop (sort_refs entries) (nat c) 0)"
proof -
  assume c: "1 \<le> c" and b: "int (length entries) + c \<le> 2 ^ 63"
  show ?thesis
  proof (cases "entries = []")
    case True
    with c show ?thesis by (simp add: PlanShards_def)
  next
    case False
    then have "0 \<le> shard_slots (length entries) c"
      using shard_slots_nonneg [OF c b] by simp
    with c False show ?thesis by (simp add: PlanShards_def Let_def)
  qed
qed

lemma PlanShards_concat: "PlanShards entries c = Inr shards \<Longrightarrow> concat shards = sort_refs entries"
  by (auto dest!: PlanShards_Inr_cases simp: concat_shard_loop sort_refs_def split: if_splits)

lemma PlanShards_set: "PlanShards entries c = Inr shards \<Longrightarrow> set (concat shards) = set entries"
  by (simp add: PlanShards_concat)

lemma PlanShards_not_Nil: "PlanShards entries c = Inr shards \<Longrightarrow> shards \<noteq> []"
  by (auto dest!: PlanShards_Inr_cases simp: shard_loop_eq_Nil split: if_splits)

lemma PlanShards_bound:
  "PlanShards entries c = Inr shards \<Longrightarrow> s \<in> set shards \<Longrightarrow> int (length s) \<le> c"
  by (fastforce dest!: PlanShards_Inr_cases dest: length_shard_loop_mem split: if_splits)

subsection \<open>Shard names\<close>

lemma cut_length_prefix:
  assumes "dec_nat (length a) @ ''/'' @ a @ x = dec_nat (length b) @ ''/'' @ b @ y"
  shows "a = b \<and> x = y"
proof -
  have "cut (CHR ''/'') (dec_nat (length a) @ CHR ''/'' # a @ x) =
        cut (CHR ''/'') (dec_nat (length b) @ CHR ''/'' # b @ y)"
    using assms by simp
  then have "dec_nat (length a) = dec_nat (length b)" and rest: "a @ x = b @ y"
    by (simp_all add: cut_append dec_nat_no_slash)
  then have "length a = length b" by (auto dest: dec_nat_inj)
  with rest show ?thesis by simp
qed

text \<open>The length-delimited encoding tells every (stageSet, stage, shard) triple apart.\<close>

lemma shard_digest_input_inj:
  assumes "shard_digest_input s t n = shard_digest_input s' t' n'"
  shows "s = s' \<and> t = t' \<and> n = n'"
proof -
  have s: "s = s'" and rest: "''/'' @ dec_nat (length t) @ ''/'' @ t @ ''/'' @ itoa n =
      ''/'' @ dec_nat (length t') @ ''/'' @ t' @ ''/'' @ itoa n'"
    using cut_length_prefix [of s _ s'] assms unfolding shard_digest_input_def by blast+
  then have "t = t'" and "''/'' @ itoa n = ''/'' @ itoa n'"
    using cut_length_prefix [of t "''/'' @ itoa n" t' "''/'' @ itoa n'"] by simp_all
  then show ?thesis using s by (auto dest: itoa_inj)
qed

lemma ShardName_suffix:
  "\<exists>prefix. ShardName h s t n = prefix @ take 10 (h (shard_digest_input s t n))"
proof -
  let ?suffix = "take 10 (h (shard_digest_input s t n))"
  have "\<exists>prefix. (if P then a @ ''-'' @ ?suffix else b @ ''-'' @ ?suffix) = prefix @ ?suffix"
    for P a b
    by (cases P) (metis append_assoc)+
  then show ?thesis unfolding ShardName_def Let_def .
qed

lemma ShardName_collision:
  assumes "\<And>x. 10 \<le> length (h x)" and "ShardName h s t n = ShardName h s' t' n'"
  shows "take 10 (h (shard_digest_input s t n)) = take 10 (h (shard_digest_input s' t' n'))"
proof -
  obtain p p' where "p @ take 10 (h (shard_digest_input s t n)) =
      p' @ take 10 (h (shard_digest_input s' t' n'))"
    using ShardName_suffix assms(2) by metis
  moreover have "length (take 10 (h x)) = 10" for x
    using assms(1) [of x] by simp
  ultimately show ?thesis using append_eq_append_conv by metis
qed

lemma length_trim_right: "length (trim_right P xs) \<le> length xs"
  using length_dropWhile_le [of P "rev xs"] by (simp add: trim_right_def)

lemma ShardName_length: "length (ShardName h s t n) \<le> maxNameLength"
proof -
  define suffix where "suffix = take 10 (h (shard_digest_input s t n))"
  define base where "base = s @ ''-'' @ t @ ''-'' @ pad2 n"
  define cutb where
    "cutb = trim_right (\<lambda>c. c = CHR ''-'') (take (maxNameLength - length suffix - 1) base)"
  have name: "ShardName h s t n =
      (if length base + 1 + length suffix \<le> maxNameLength then base @ ''-'' @ suffix
       else cutb @ ''-'' @ suffix)"
    by (simp only: ShardName_def Let_def suffix_def base_def cutb_def)
  have "length suffix \<le> 10" by (simp add: suffix_def)
  moreover have "length cutb \<le> maxNameLength - length suffix - 1"
    unfolding cutb_def by (rule order_trans [OF length_trim_right]) simp
  ultimately show ?thesis unfolding name by (auto simp: maxNameLength_def)
qed

section \<open>Prune plans\<close>

record StageRecord =
  rec_Name :: string
  rec_Position :: int
  rec_Entries :: "ObjectRef list"

record Plan =
  PrunePerStage :: "string \<rightharpoonup> ObjectRef list"
  RemovedStages :: "StageRecord list"

definition claimed_ids :: "StageRecord list \<Rightarrow> string set" where
  "claimed_ids desired = set (concat (map (\<lambda>s. map ID (rec_Entries s)) desired))"

definition desired_by_name :: "StageRecord list \<Rightarrow> (string \<rightharpoonup> string set)" where
  "desired_by_name desired =
     map_of_last (map (\<lambda>s. (rec_Name s, entry_ids (rec_Entries s))) desired)"

text \<open>One previously recorded stage: prune what fell out of a surviving stage, tear a removed stage
  down, in both cases without the objects some desired stage claims.\<close>

definition plan_step ::
  "(string \<rightharpoonup> string set) \<Rightarrow> string set \<Rightarrow> StageRecord \<Rightarrow> Plan \<Rightarrow> Plan" where
  "plan_step desiredByName claimed prev plan =
     (case desiredByName (rec_Name prev) of
        Some desiredIDs \<Rightarrow>
          let prune = filterRefs (rec_Entries prev) (\<lambda>i. i \<notin> desiredIDs \<and> i \<notin> claimed) in
          if 0 < length prune
          then plan\<lparr>PrunePerStage := (PrunePerStage plan)(rec_Name prev \<mapsto> prune)\<rparr>
          else plan
      | None \<Rightarrow>
          let teardown = filterRefs (rec_Entries prev) (\<lambda>i. i \<notin> claimed) in
          plan\<lparr>RemovedStages := RemovedStages plan @
            [\<lparr>rec_Name = rec_Name prev, rec_Position = rec_Position prev,
              rec_Entries = teardown\<rparr>]\<rparr>)"

definition sort_removed :: "StageRecord list \<Rightarrow> StageRecord list" where
  "sort_removed = sort_key (\<lambda>s. (- rec_Position s, rec_Name s))"

interpretation removed: key_sort "\<lambda>s. (- rec_Position s, rec_Name s)" sort_removed
  by unfold_locales (simp_all add: sort_removed_def)

definition ComputePlan :: "StageRecord list \<Rightarrow> StageRecord list \<Rightarrow> Plan" where
  "ComputePlan previous desired =
     (let claimed = claimed_ids desired;
          plan = fold (plan_step (desired_by_name desired) claimed) previous
                   \<lparr>PrunePerStage = Map.empty, RemovedStages = []\<rparr>
      in plan\<lparr>RemovedStages := sort_removed (RemovedStages plan)\<rparr>)"

lemma claimed_ids_iff:
  "i \<in> claimed_ids desired \<longleftrightarrow> (\<exists>s\<in>set desired. i \<in> entry_ids (rec_Entries s))"
  by (auto simp: claimed_ids_def entry_ids_def)

lemma desired_by_name_claimed:
  "\<forall>n ids. desired_by_name desired n = Some ids \<longrightarrow> ids \<subseteq> claimed_ids desired"
  unfolding desired_by_name_def
  by (auto dest!: map_of_last_mem simp: claimed_ids_iff)

lemma desired_by_name_None:
  "desired_by_name desired n = None \<longleftrightarrow> n \<notin> rec_Name ` set desired"
proof -
  have "dom (desired_by_name desired) = rec_Name ` set desired"
    by (force simp: desired_by_name_def dom_map_of_last)
  then show ?thesis by (metis domIff)
qed

text \<open>The references a plan lets the controller delete.\<close>

definition plan_deletions :: "Plan \<Rightarrow> ObjectRef set" where
  "plan_deletions plan =
     {r. \<exists>n refs. PrunePerStage plan n = Some refs \<and> r \<in> set refs} \<union>
     {r. \<exists>s\<in>set (RemovedStages plan). r \<in> set (rec_Entries s)}"

lemma plan_step_removed:
  "RemovedStages (plan_step d claimed p plan) =
     RemovedStages plan @
       (if d (rec_Name p) = None
        then [\<lparr>rec_Name = rec_Name p, rec_Position = rec_Position p,
               rec_Entries = filterRefs (rec_Entries p) (\<lambda>i. i \<notin> claimed)\<rparr>] else [])"
  by (auto simp: plan_step_def Let_def split: option.split)

lemma plan_step_prune:
  assumes "\<forall>n ids. d n = Some ids \<longrightarrow> ids \<subseteq> claimed"
  shows "PrunePerStage (plan_step d claimed p plan) =
     (let refs = filterRefs (rec_Entries p) (\<lambda>i. i \<notin> claimed) in
      if d (rec_Name p) \<noteq> None \<and> refs \<noteq> []
      then (PrunePerStage plan)(rec_Name p \<mapsto> refs) else PrunePerStage plan)"
proof -
  have "(\<lambda>i. i \<notin> ids \<and> i \<notin> claimed) = (\<lambda>i. i \<notin> claimed)" if "d (rec_Name p) = Some ids" for ids
    using assms that by blast
  then show ?thesis by (auto simp: plan_step_def Let_def split: option.split)
qed

lemma fold_plan_removed:
  "RemovedStages (fold (plan_step d claimed) ps plan) =
     RemovedStages plan @
       map (\<lambda>p. \<lparr>rec_Name = rec_Name p, rec_Position = rec_Position p,
                  rec_Entries = filterRefs (rec_Entries p) (\<lambda>i. i \<notin> claimed)\<rparr>)
         (filter (\<lambda>p. d (rec_Name p) = None) ps)"
  by (induction ps arbitrary: plan) (simp_all add: plan_step_removed)

lemma fold_plan_prune:
  assumes "\<forall>n ids. d n = Some ids \<longrightarrow> ids \<subseteq> claimed" and "distinct (map rec_Name ps)"
  shows "PrunePerStage (fold (plan_step d claimed) ps plan) n =
     (case find (\<lambda>p. rec_Name p = n) ps of
        None \<Rightarrow> PrunePerStage plan n
      | Some p \<Rightarrow>
          (let refs = filterRefs (rec_Entries p) (\<lambda>i. i \<notin> claimed) in
           if d n \<noteq> None \<and> refs \<noteq> [] then Some refs else PrunePerStage plan n))"
  using assms(2)
proof (induction ps arbitrary: plan)
  case Nil
  show ?case by simp
next
  case (Cons p ps)
  have notin: "find (\<lambda>q. rec_Name q = rec_Name p) ps = None"
    using Cons.prems by (simp add: find_None_iff image_iff) metis
  show ?case
    using Cons notin by (auto simp: plan_step_prune [OF assms(1)] Let_def split: option.split)
qed

text \<open>What the plan holds for every stage name, as one equation each.\<close>

lemma ComputePlan_prune:
  assumes "distinct (map rec_Name previous)"
  shows "PrunePerStage (ComputePlan previous desired) n =
     (case find (\<lambda>p. rec_Name p = n) previous of
        None \<Rightarrow> None
      | Some p \<Rightarrow>
          (let refs = filterRefs (rec_Entries p) (\<lambda>i. i \<notin> claimed_ids desired) in
           if n \<in> rec_Name ` set desired \<and> refs \<noteq> [] then Some refs else None))"
proof -
  note step = fold_plan_prune [where d = "desired_by_name desired" and
      claimed = "claimed_ids desired", OF desired_by_name_claimed assms]
  have eq: "PrunePerStage (ComputePlan previous desired) n =
      PrunePerStage (fold (plan_step (desired_by_name desired) (claimed_ids desired)) previous
         \<lparr>PrunePerStage = Map.empty, RemovedStages = []\<rparr>) n"
    by (simp add: ComputePlan_def Let_def)
  show ?thesis
    unfolding eq step using desired_by_name_None [of desired n]
    by (auto simp: Let_def split: option.split)
qed

lemma ComputePlan_removed:
  "RemovedStages (ComputePlan previous desired) =
     sort_removed (map (\<lambda>p. \<lparr>rec_Name = rec_Name p, rec_Position = rec_Position p,
        rec_Entries = filterRefs (rec_Entries p) (\<lambda>i. i \<notin> claimed_ids desired)\<rparr>)
       (filter (\<lambda>p. rec_Name p \<notin> rec_Name ` set desired) previous))"
  by (simp add: ComputePlan_def Let_def fold_plan_removed desired_by_name_None)

lemma ComputePlan_prune_mem:
  assumes "PrunePerStage (ComputePlan previous desired) n = Some refs"
    and "distinct (map rec_Name previous)"
  obtains p where "p \<in> set previous" "rec_Name p = n" "n \<in> rec_Name ` set desired"
    "refs = filterRefs (rec_Entries p) (\<lambda>i. i \<notin> claimed_ids desired)" "refs \<noteq> []"
  using assms
  by (auto simp: ComputePlan_prune Let_def split: option.splits if_splits dest!: find_Some_mem)

lemma plan_deletions_ComputePlan:
  assumes "distinct (map rec_Name previous)"
  shows "plan_deletions (ComputePlan previous desired) =
     {r. (\<exists>p\<in>set previous. r \<in> set (rec_Entries p)) \<and> ID r \<notin> claimed_ids desired}"
    (is "?L = ?R")
proof
  show "?L \<subseteq> ?R"
    by (auto simp: plan_deletions_def ComputePlan_removed elim!: ComputePlan_prune_mem [OF _ assms])
next
  show "?R \<subseteq> ?L"
  proof
    fix r assume "r \<in> ?R"
    then obtain p where p: "p \<in> set previous" "r \<in> set (rec_Entries p)"
      and nc: "ID r \<notin> claimed_ids desired" by auto
    let ?refs = "filterRefs (rec_Entries p) (\<lambda>i. i \<notin> claimed_ids desired)"
    have r: "r \<in> set ?refs" using p nc by simp
    then have ne: "?refs \<noteq> []" by (metis empty_iff list.set(1))
    show "r \<in> ?L"
    proof (cases "rec_Name p \<in> rec_Name ` set desired")
      case True
      obtain q where q: "find (\<lambda>q. rec_Name q = rec_Name p) previous = Some q"
        using p by (metis (mono_tags) find_None_iff option.exhaust)
      then have "q = p"
        using assms p find_Some_mem [OF q] by (metis distinct_map inj_onD)
      with q True ne have "PrunePerStage (ComputePlan previous desired) (rec_Name p) = Some ?refs"
        by (auto simp: ComputePlan_prune [OF assms] Let_def)
      with r show ?thesis unfolding plan_deletions_def by blast
    next
      case False
      with p have "\<lparr>rec_Name = rec_Name p, rec_Position = rec_Position p, rec_Entries = ?refs\<rparr>
          \<in> set (RemovedStages (ComputePlan previous desired))"
        by (auto simp: ComputePlan_removed)
      with r show ?thesis unfolding plan_deletions_def by force
    qed
  qed
qed

text \<open>The claims hold without the names being distinct: nothing claimed is ever deleted.\<close>

lemma fold_plan_unclaimed:
  assumes "\<forall>n ids. d n = Some ids \<longrightarrow> ids \<subseteq> claimed"
    and "\<And>n refs r. PrunePerStage plan n = Some refs \<Longrightarrow> r \<in> set refs \<Longrightarrow> ID r \<notin> claimed"
  shows "PrunePerStage (fold (plan_step d claimed) ps plan) n = Some refs \<Longrightarrow> r \<in> set refs \<Longrightarrow>
     ID r \<notin> claimed"
  using assms(2)
proof (induction ps arbitrary: plan)
  case Nil
  then show ?case by simp
next
  case (Cons p ps)
  have "ID x \<notin> claimed"
    if "PrunePerStage (plan_step d claimed p plan) m = Some xs" "x \<in> set xs" for m xs x
    using that Cons.prems(3) by (auto simp: plan_step_prune [OF assms(1)] Let_def split: if_splits)
  with Cons.prems show ?case by (intro Cons.IH [of "plan_step d claimed p plan"]) simp_all
qed

lemma ComputePlan_unclaimed:
  "r \<in> plan_deletions (ComputePlan previous desired) \<Longrightarrow> ID r \<notin> claimed_ids desired"
  using fold_plan_unclaimed [where d = "desired_by_name desired" and
      claimed = "claimed_ids desired" and ps = previous and
      plan = "\<lparr>PrunePerStage = Map.empty, RemovedStages = []\<rparr>", OF desired_by_name_claimed]
  by (auto simp: plan_deletions_def ComputePlan_removed) (auto simp: ComputePlan_def Let_def)

section \<open>Duplicate claims\<close>

text \<open>The inner loop: append the stage to the owners of every identifier it holds, once.\<close>

fun add_claims ::
  "string \<Rightarrow> ObjectRef list \<Rightarrow> string set \<Rightarrow> (string \<rightharpoonup> string list) \<Rightarrow> (string \<rightharpoonup> string list)" where
  "add_claims stage [] seen owners = owners"
| "add_claims stage (r # rs) seen owners =
     (if ID r \<in> seen then add_claims stage rs seen owners
      else add_claims stage rs (insert (ID r) seen)
        (owners(ID r \<mapsto> (case owners (ID r) of None \<Rightarrow> [] | Some ns \<Rightarrow> ns) @ [stage])))"

fun claim_owners :: "StageRecord list \<Rightarrow> (string \<rightharpoonup> string list) \<Rightarrow> (string \<rightharpoonup> string list)" where
  "claim_owners [] owners = owners"
| "claim_owners (s # ss) owners =
     claim_owners ss (add_claims (rec_Name s) (rec_Entries s) {} owners)"

definition DuplicateClaims :: "StageRecord list \<Rightarrow> (string \<rightharpoonup> string list)" where
  "DuplicateClaims stages =
     (let owners = claim_owners stages Map.empty in
      (\<lambda>i. case owners i of None \<Rightarrow> None
          | Some names \<Rightarrow> if 1 < length names then Some (sort names) else None))"

text \<open>The stages that hold an identifier, in order.\<close>

definition owner_names :: "StageRecord list \<Rightarrow> string \<Rightarrow> string list" where
  "owner_names stages i =
     map rec_Name (filter (\<lambda>s. i \<in> entry_ids (rec_Entries s)) stages)"

abbreviation owned :: "(string \<rightharpoonup> string list) \<Rightarrow> string \<Rightarrow> string list" where
  "owned owners i \<equiv> (case owners i of None \<Rightarrow> [] | Some ns \<Rightarrow> ns)"

lemma owned_add_claims:
  "owned (add_claims n rs seen owners) i =
     owned owners i @ (if i \<in> entry_ids rs - seen then [n] else [])"
proof (induction n rs seen owners rule: add_claims.induct)
  case (1 stage seen owners)
  then show ?case by (simp add: entry_ids_def)
next
  case (2 stage r rs seen owners)
  then show ?case by (cases "ID r \<in> seen"; cases "i = ID r") (auto simp: entry_ids_def fun_upd_def)
qed

lemma owned_claim_owners:
  "owned (claim_owners stages owners) i = owned owners i @ owner_names stages i"
  by (induction stages owners rule: claim_owners.induct)
    (simp_all add: owned_add_claims owner_names_def)

lemma DuplicateClaims_eq:
  "DuplicateClaims stages i =
     (let names = owner_names stages i in if 1 < length names then Some (sort names) else None)"
  using owned_claim_owners [of stages Map.empty i]
  by (auto simp: DuplicateClaims_def Let_def split: option.split)

lemma owner_names_length:
  "1 < length (owner_names stages i) \<longleftrightarrow>
   (\<exists>a b. a < b \<and> b < length stages \<and> i \<in> entry_ids (rec_Entries (stages ! a)) \<and>
      i \<in> entry_ids (rec_Entries (stages ! b)))"
proof -
  let ?J = "{k. k < length stages \<and> i \<in> entry_ids (rec_Entries (stages ! k))}"
  have card: "length (owner_names stages i) = card ?J"
    by (simp add: owner_names_def length_filter_conv_card)
  have fin: "finite ?J" by simp
  show ?thesis
  proof
    assume "1 < length (owner_names stages i)"
    then have "\<not> card ?J \<le> Suc 0" by (simp add: card)
    then obtain a b where "a \<in> ?J" "b \<in> ?J" "a \<noteq> b"
      using card_le_Suc0_iff_eq [OF fin] by blast
    then show "\<exists>a b. a < b \<and> b < length stages \<and> i \<in> entry_ids (rec_Entries (stages ! a)) \<and>
        i \<in> entry_ids (rec_Entries (stages ! b))"
      by (metis (mono_tags, lifting) linorder_neqE_nat mem_Collect_eq)
  next
    assume "\<exists>a b. a < b \<and> b < length stages \<and> i \<in> entry_ids (rec_Entries (stages ! a)) \<and>
        i \<in> entry_ids (rec_Entries (stages ! b))"
    then obtain a b where ab: "a < b" "a \<in> ?J" "b \<in> ?J" by auto
    then have "card {a, b} \<le> card ?J" by (intro card_mono fin) auto
    with ab show "1 < length (owner_names stages i)" by (simp add: card)
  qed
qed

section \<open>Properties\<close>

text \<open>An object's identifier and its version determine it, and every identifier the parser
  accepts is the identifier of the reference it returns: \<open>ParseID\<close> is the inverse of \<open>ID\<close> on
  references whose parts hold no underscore, and accepts nothing else.\<close>

theorem ParseID_inverse:
  "(wf_ref r \<longrightarrow> ParseID (ID r) (ref_Version r) = Inr r) \<and>
   (ParseID s v = Inr r' \<longleftrightarrow> wf_ref r' \<and> ID r' = s \<and> ref_Version r' = v)"
proof (intro conjI impI iffI)
  show "wf_ref r \<Longrightarrow> ParseID (ID r) (ref_Version r) = Inr r"
    by (simp add: ParseID_ID)
  show "ParseID s v = Inr r' \<Longrightarrow> wf_ref r'" "ParseID s v = Inr r' \<Longrightarrow> ID r' = s"
    "ParseID s v = Inr r' \<Longrightarrow> ref_Version r' = v"
    by (simp_all add: ParseID_sound)
  show "wf_ref r' \<and> ID r' = s \<and> ref_Version r' = v \<Longrightarrow> ParseID s v = Inr r'"
    using ParseID_ID [of r' v] by auto
qed

theorem ParseID_inverse_witness:
  "ParseID (ID \<lparr>ref_Group = ''apps'', ref_Kind = ''Deployment'', ref_Namespace = ''prod'',
       ref_Name = ''web'', ref_Version = ''v1''\<rparr>) ''v1'' =
     Inr \<lparr>ref_Group = ''apps'', ref_Kind = ''Deployment'', ref_Namespace = ''prod'',
       ref_Name = ''web'', ref_Version = ''v1''\<rparr> \<and>
   ParseID ''prod_web_apps'' ''v1'' = Inl (MalformedParts ''prod_web_apps'' 3)"
  using ParseID_inverse [of "\<lparr>ref_Group = ''apps'', ref_Kind = ''Deployment'',
      ref_Namespace = ''prod'', ref_Name = ''web'', ref_Version = ''v1''\<rparr>"]
  by (simp add: wf_ref_def idSeparator_def ParseID_def)

text \<open>Packing loses nothing and respects the capacity. For a positive capacity the plan
  exists (the slot computation only overflows beyond \<open>2^63\<close>), its shards put together are the
  entries sorted by identifier, there is at least one shard, no shard is larger than the capacity,
  and every shard but the last is full.\<close>

theorem PlanShards_partition:
  assumes "1 \<le> capacity" and "int (length entries) + capacity \<le> 2 ^ 63"
  shows "\<exists>shards. PlanShards entries capacity = Inr shards \<and> concat shards = sort_refs entries \<and>
    shards \<noteq> [] \<and> (\<forall>s\<in>set shards. int (length s) \<le> capacity) \<and>
    (\<forall>i. Suc i < length shards \<longrightarrow> int (length (shards ! i)) = capacity)"
proof -
  obtain shards where ok: "PlanShards entries capacity = Inr shards"
    using PlanShards_total [OF assms] by blast
  then have "shards = (if entries = [] then [[]] else shard_loop (sort_refs entries) (nat capacity) 0)"
    by (simp add: PlanShards_Inr_cases)
  then have "int (length (shards ! i)) = capacity" if "Suc i < length shards" for i
    using that assms(1) shard_loop_full [of "nat capacity" i "sort_refs entries" 0]
    by (auto split: if_splits)
  with ok show ?thesis
    using PlanShards_concat PlanShards_not_Nil PlanShards_bound by blast
qed

definition demo_ref :: "string \<Rightarrow> string \<Rightarrow> ObjectRef" where
  "demo_ref n v = \<lparr>ref_Group = [], ref_Kind = ''Pod'', ref_Namespace = ''ns'', ref_Name = n,
     ref_Version = v\<rparr>"

lemma ID_demo_ref: "ID (demo_ref n v) = ''ns_'' @ n @ ''__Pod''"
  by (simp add: ID_def demo_ref_def idSeparator_def)

theorem PlanShards_partition_witness:
  "\<exists>shards. PlanShards [demo_ref ''b'' ''v1'', demo_ref ''a'' ''v1'', demo_ref ''c'' ''v1''] 2 =
     Inr shards \<and> concat shards = sort_refs [demo_ref ''b'' ''v1'', demo_ref ''a'' ''v1'', demo_ref ''c'' ''v1'']"
  using PlanShards_partition [of 2 "[demo_ref ''b'' ''v1'', demo_ref ''a'' ''v1'', demo_ref ''c'' ''v1'']"]
  by auto

text \<open>Packing does not depend on the order the entries arrive in. When no two entries share an
  identifier, every permutation of them gives the same shards; two entries that differ only in
  their API version are the case the code does not settle.\<close>

theorem PlanShards_order_independent:
  assumes "distinct (map ID entries)" and "mset entries' = mset entries"
  shows "PlanShards entries' capacity = PlanShards entries capacity"
proof -
  have "inj_on ID (set entries)" using assms(1) by (simp add: distinct_map)
  then have "sort_refs entries' = sort_refs entries"
    using assms(2) by (rule refs.srt_perm_invariant)
  then show ?thesis by (simp add: PlanShards_def Let_def)
qed

theorem PlanShards_order_independent_witness:
  "PlanShards [demo_ref ''b'' ''v1'', demo_ref ''a'' ''v1''] 1 =
   PlanShards [demo_ref ''a'' ''v1'', demo_ref ''b'' ''v1''] 1"
  by (rule PlanShards_order_independent)
    (simp_all add: ID_demo_ref add_mset_commute)

text \<open>Shard names. They never exceed the DNS-1123 limit, and two different
  (stageSet, stage, shard) triples share a name only when the 10-digit prefixes of the hashes of
  two different encodings agree: the hyphen join is never the cause of a collision.\<close>

theorem ShardName_safe:
  assumes "\<And>x. 10 \<le> length (sha256_hex x)"
  shows "length (ShardName sha256_hex s t n) \<le> maxNameLength \<and>
    (ShardName sha256_hex s t n = ShardName sha256_hex s' t' n' \<and> (s, t, n) \<noteq> (s', t', n') \<longrightarrow>
       (\<exists>x y. x \<noteq> y \<and> take 10 (sha256_hex x) = take 10 (sha256_hex y)))"
proof -
  have "\<exists>x y. x \<noteq> y \<and> take 10 (sha256_hex x) = take 10 (sha256_hex y)"
    if "ShardName sha256_hex s t n = ShardName sha256_hex s' t' n'" "(s, t, n) \<noteq> (s', t', n')"
    using ShardName_collision [OF assms that(1)] that(2)
      shard_digest_input_inj [of s t n s' t' n'] by blast
  then show ?thesis using ShardName_length by blast
qed

theorem ShardName_safe_witness:
  "length (ShardName (\<lambda>x. x @ replicate 64 (CHR ''0'')) ''a-b'' ''c'' 0) \<le> maxNameLength \<and>
   ShardName (\<lambda>x. x @ replicate 64 (CHR ''0'')) ''a-b'' ''c'' 0 \<noteq>
   ShardName (\<lambda>x. x @ replicate 64 (CHR ''0'')) ''a'' ''b-c'' 0"
proof
  show "length (ShardName (\<lambda>x. x @ replicate 64 (CHR ''0'')) ''a-b'' ''c'' 0) \<le> maxNameLength"
    using ShardName_safe [of "\<lambda>x. x @ replicate 64 (CHR ''0'')"] by simp
next
  show "ShardName (\<lambda>x. x @ replicate 64 (CHR ''0'')) ''a-b'' ''c'' 0 \<noteq>
    ShardName (\<lambda>x. x @ replicate 64 (CHR ''0'')) ''a'' ''b-c'' 0"
    by code_simp
qed

text \<open>Ownership transfer. No object a desired stage claims is ever deleted, whatever the
  recorded inventories hold; and when stage names are distinct the plan deletes exactly the
  recorded objects that no desired stage claims, nothing more and nothing less.\<close>

theorem ComputePlan_deletes_unclaimed:
  "(\<forall>r\<in>plan_deletions (ComputePlan previous desired). ID r \<notin> claimed_ids desired) \<and>
   (distinct (map rec_Name previous) \<longrightarrow>
      plan_deletions (ComputePlan previous desired) =
        {r. (\<exists>p\<in>set previous. r \<in> set (rec_Entries p)) \<and> ID r \<notin> claimed_ids desired})"
  using ComputePlan_unclaimed plan_deletions_ComputePlan by blast

definition demo_previous :: "StageRecord list" where
  "demo_previous =
     [\<lparr>rec_Name = ''one'', rec_Position = 0, rec_Entries = [demo_ref ''a'' ''v1'', demo_ref ''b'' ''v1'']\<rparr>,
      \<lparr>rec_Name = ''two'', rec_Position = 1, rec_Entries = [demo_ref ''c'' ''v1'']\<rparr>]"

definition demo_desired :: "StageRecord list" where
  "demo_desired =
     [\<lparr>rec_Name = ''one'', rec_Position = 0, rec_Entries = [demo_ref ''c'' ''v1'']\<rparr>]"

theorem ComputePlan_deletes_unclaimed_witness:
  "distinct (map rec_Name demo_previous) \<and>
   demo_ref ''a'' ''v1'' \<in> plan_deletions (ComputePlan demo_previous demo_desired) \<and>
   demo_ref ''c'' ''v1'' \<notin> plan_deletions (ComputePlan demo_previous demo_desired)"
proof -
  have d: "distinct (map rec_Name demo_previous)"
    by (simp add: demo_previous_def)
  have c: "claimed_ids demo_desired = {''ns_c__Pod''}"
    by (simp add: claimed_ids_def demo_desired_def ID_demo_ref)
  have "plan_deletions (ComputePlan demo_previous demo_desired) =
      {r. (\<exists>p\<in>set demo_previous. r \<in> set (rec_Entries p)) \<and> ID r \<notin> {''ns_c__Pod''}}"
    using ComputePlan_deletes_unclaimed [of demo_previous demo_desired] d unfolding c by blast
  moreover have "demo_ref ''a'' ''v1'' \<in>
      {r. (\<exists>p\<in>set demo_previous. r \<in> set (rec_Entries p)) \<and> ID r \<notin> {''ns_c__Pod''}}"
    by (simp add: ID_demo_ref demo_previous_def)
  moreover have "demo_ref ''c'' ''v1'' \<notin>
      {r. (\<exists>p\<in>set demo_previous. r \<in> set (rec_Entries p)) \<and> ID r \<notin> {''ns_c__Pod''}}"
    by (simp add: ID_demo_ref)
  ultimately show ?thesis using d by blast
qed

text \<open>Teardown order. The removed stages come out with the latest recorded position first and
  names in ascending order among equals, so a stage is torn down before the stages it was rolled
  out after; exactly the recorded stages missing from the spec are listed.\<close>

theorem ComputePlan_teardown_order:
  assumes "i < j" and "j < length (RemovedStages (ComputePlan previous desired))"
  shows "rec_Position (RemovedStages (ComputePlan previous desired) ! j) \<le>
           rec_Position (RemovedStages (ComputePlan previous desired) ! i) \<and>
         (rec_Position (RemovedStages (ComputePlan previous desired) ! i) =
            rec_Position (RemovedStages (ComputePlan previous desired) ! j) \<longrightarrow>
          rec_Name (RemovedStages (ComputePlan previous desired) ! i) \<le>
            rec_Name (RemovedStages (ComputePlan previous desired) ! j)) \<and>
         rec_Name ` set (RemovedStages (ComputePlan previous desired)) =
           rec_Name ` set previous - rec_Name ` set desired"
proof -
  let ?rs = "RemovedStages (ComputePlan previous desired)"
  let ?k = "\<lambda>s. (- rec_Position s, rec_Name s)"
  have "sorted (map ?k ?rs)"
    unfolding ComputePlan_removed by (rule removed.srt_sorted)
  then have "?k (?rs ! i) \<le> ?k (?rs ! j)" using assms by (rule sorted_keys_nth)
  then have order: "rec_Position (?rs ! j) \<le> rec_Position (?rs ! i)"
    "rec_Position (?rs ! i) = rec_Position (?rs ! j) \<Longrightarrow> rec_Name (?rs ! i) \<le> rec_Name (?rs ! j)"
    by (auto simp: less_eq_prod_def)
  have "rec_Name ` set ?rs = rec_Name ` set previous - rec_Name ` set desired"
    by (simp add: ComputePlan_removed image_image) auto
  with order show ?thesis by blast
qed

theorem ComputePlan_teardown_order_witness:
  "rec_Position (RemovedStages (ComputePlan demo_previous []) ! 1) \<le>
   rec_Position (RemovedStages (ComputePlan demo_previous []) ! 0)"
  using ComputePlan_teardown_order [of 0 1 demo_previous "[]"]
  by (simp add: ComputePlan_removed demo_previous_def)

text \<open>Ambiguous specs. \<open>DuplicateClaims\<close> lists an identifier exactly when two different stages
  hold it, and its value is the sorted list of all stages that hold it; it is empty exactly when
  no object has two owners.\<close>

theorem DuplicateClaims_exact:
  "(\<forall>i. i \<in> dom (DuplicateClaims stages) \<longleftrightarrow>
      (\<exists>a b. a < b \<and> b < length stages \<and> i \<in> entry_ids (rec_Entries (stages ! a)) \<and>
         i \<in> entry_ids (rec_Entries (stages ! b)))) \<and>
   (\<forall>i names. DuplicateClaims stages i = Some names \<longrightarrow>
      sorted names \<and> mset names = mset (owner_names stages i))"
proof -
  have "i \<in> dom (DuplicateClaims stages) \<longleftrightarrow> 1 < length (owner_names stages i)" for i
    by (simp add: DuplicateClaims_eq dom_def Let_def)
  moreover have "sorted names \<and> mset names = mset (owner_names stages i)"
    if "DuplicateClaims stages i = Some names" for i names
    using that by (auto simp: DuplicateClaims_eq Let_def split: if_splits)
  ultimately show ?thesis by (simp only: owner_names_length simp_thms) blast
qed

theorem DuplicateClaims_exact_witness:
  "DuplicateClaims (demo_previous @ demo_desired) ''ns_c__Pod'' = Some [''one'', ''two''] \<and>
   sorted [''one'', ''two'']"
proof -
  have "DuplicateClaims (demo_previous @ demo_desired) ''ns_c__Pod'' = Some [''one'', ''two'']"
    by code_simp
  then show ?thesis using DuplicateClaims_exact [of "demo_previous @ demo_desired"] by blast
qed

end
