(* ===== verification/StageInv.thy ===== *)
theory StageInv
  imports Inventory
begin

text \<open>
  \<open>internal/stageinv/stageinv.go\<close>: a stage's inventory kept as a set of StageInventory objects, one
  per shard. The API server is a list of objects whose (namespace, name) keys are distinct, and an
  oracle \<open>api\<close> that says which call fails and how, so every error return is a branch. The order of
  the list stands for the (unspecified) order of a list call; no statement depends on it.
\<close>

section \<open>Objects and the API\<close>

record InventoryEntry =
  ie_ID :: string
  ie_V :: string

record StageInventory =
  si_Namespace :: string
  si_Name :: string
  si_Labels :: "string \<rightharpoonup> string"
  si_Controller :: "string option"
  si_StagePosition :: int
  si_Entries :: "InventoryEntry list"

text \<open>What the operations use of the StageSet: its name, its namespace and its UID.\<close>

record Owner =
  own_Name :: string
  own_Namespace :: string
  own_UID :: string

definition StageSetLabel :: string where
  "StageSetLabel = ''stages.metio.wtf/stage-set''"

definition StageLabel :: string where
  "StageLabel = ''stages.metio.wtf/stage''"

definition ShardLabel :: string where
  "ShardLabel = ''stages.metio.wtf/shard''"

lemma labels_distinct [simp]:
  "StageSetLabel \<noteq> StageLabel" "StageLabel \<noteq> StageSetLabel" "StageSetLabel \<noteq> ShardLabel"
  "ShardLabel \<noteq> StageSetLabel" "StageLabel \<noteq> ShardLabel" "ShardLabel \<noteq> StageLabel"
  by (simp_all add: StageSetLabel_def StageLabel_def ShardLabel_def)

datatype api_call =
    ListShards string "(string \<times> string) list"
  | PutShard string string
  | DeleteShard string string

datatype api_error = NotFound | ApiFailure string

type_synonym api = "api_call \<Rightarrow> api_error option"
type_synonym shard_store = "StageInventory list"

datatype inv_error =
    ListFailed api_error
  | PlanFailed shard_error
  | WriteFailed string api_error
  | AlreadyOwned string
  | DeleteFailed string api_error

definition si_key :: "StageInventory \<Rightarrow> string \<times> string" where
  "si_key si = (si_Namespace si, si_Name si)"

text \<open>A Go map read: an absent key reads as the empty string.\<close>

definition label_of :: "StageInventory \<Rightarrow> string \<Rightarrow> string" where
  "label_of si k = (case si_Labels si k of Some v \<Rightarrow> v | None \<Rightarrow> [])"

definition matches :: "string \<Rightarrow> (string \<times> string) list \<Rightarrow> StageInventory \<Rightarrow> bool" where
  "matches ns labels si \<longleftrightarrow>
     si_Namespace si = ns \<and> list_all (\<lambda>(k, v). si_Labels si k = Some v) labels"

definition stage_selector :: "string \<Rightarrow> string \<Rightarrow> (string \<times> string) list" where
  "stage_selector ssName stage = [(StageSetLabel, ssName), (StageLabel, stage)]"

definition list_shards ::
  "api \<Rightarrow> shard_store \<Rightarrow> string \<Rightarrow> (string \<times> string) list \<Rightarrow> inv_error + StageInventory list" where
  "list_shards api store ns labels =
     (case api (ListShards ns labels) of
        Some e \<Rightarrow> Inl (ListFailed e)
      | None \<Rightarrow> Inr (filter (matches ns labels) store))"

fun put_shard :: "StageInventory \<Rightarrow> shard_store \<Rightarrow> shard_store" where
  "put_shard si [] = [si]"
| "put_shard si (x # xs) = (if si_key x = si_key si then si # xs else x # put_shard si xs)"

definition remove_shard :: "string \<times> string \<Rightarrow> shard_store \<Rightarrow> shard_store" where
  "remove_shard k = filter (\<lambda>x. si_key x \<noteq> k)"

section \<open>Reading\<close>

definition DefaultOr :: "int \<Rightarrow> int" where
  "DefaultOr shardCap = (if shardCap > 0 then shardCap else DefaultShardCap)"

definition parse_entry :: "InventoryEntry \<Rightarrow> ObjectRef option" where
  "parse_entry e = (case ParseID (ie_ID e) (ie_V e) of Inl _ \<Rightarrow> None | Inr ref \<Rightarrow> Some ref)"

text \<open>The references of a shard, and the number of malformed entries the loop counted and skipped.\<close>

definition entry_refs :: "InventoryEntry list \<Rightarrow> ObjectRef list" where
  "entry_refs es = List.map_filter parse_entry es"

definition skipped :: "InventoryEntry list \<Rightarrow> nat" where
  "skipped es = length (filter (\<lambda>e. parse_entry e = None) es)"

definition Stored ::
  "api \<Rightarrow> shard_store \<Rightarrow> string \<Rightarrow> string \<Rightarrow> string \<Rightarrow> inv_error + ObjectRef list \<times> nat" where
  "Stored api store ssName namespace stage =
     bind_result (list_shards api store namespace (stage_selector ssName stage)) (\<lambda>items.
       Inr (concat (map (\<lambda>si. entry_refs (si_Entries si)) items),
            sum_list (map (\<lambda>si. skipped (si_Entries si)) items)))"

record StoredRecord =
  sr_Position :: int
  sr_Refs :: "ObjectRef list"

definition record_step ::
  "(string \<rightharpoonup> StoredRecord) \<Rightarrow> StageInventory \<Rightarrow> (string \<rightharpoonup> StoredRecord)" where
  "record_step records item =
     (let stage = label_of item StageLabel;
          r = (case records stage of Some r \<Rightarrow> r | None \<Rightarrow> \<lparr>sr_Position = 0, sr_Refs = []\<rparr>)
      in records(stage \<mapsto> \<lparr>sr_Position = si_StagePosition item,
                         sr_Refs = sr_Refs r @ entry_refs (si_Entries item)\<rparr>))"

definition StageRecords ::
  "api \<Rightarrow> shard_store \<Rightarrow> string \<Rightarrow> string \<Rightarrow> inv_error + (string \<rightharpoonup> StoredRecord)" where
  "StageRecords api store ssName namespace =
     bind_result (list_shards api store namespace [(StageSetLabel, ssName)]) (\<lambda>items.
       Inr (foldl record_step Map.empty items))"

section \<open>Writing\<close>

definition entriesOf :: "ObjectRef list \<Rightarrow> InventoryEntry list" where
  "entriesOf shard = map (\<lambda>ref. \<lparr>ie_ID = ID ref, ie_V = ref_Version ref\<rparr>) shard"

text \<open>Go's conversion to \<open>int32\<close> wraps.\<close>

definition to_int32 :: "int \<Rightarrow> int" where
  "to_int32 x = (x + 2 ^ 31) mod 2 ^ 32 - 2 ^ 31"

definition shard_labels :: "string \<Rightarrow> string \<Rightarrow> nat \<Rightarrow> (string \<rightharpoonup> string)" where
  "shard_labels ssName stage shardIndex =
     [StageSetLabel \<mapsto> ssName, StageLabel \<mapsto> stage, ShardLabel \<mapsto> itoa (int shardIndex)]"

text \<open>
  One round of the loop: \<open>CreateOrUpdate\<close> reads the object (or starts from an empty one), sets its
  labels, position and entries, and refuses when another controller owns it.
\<close>

definition write_shard ::
  "(string \<Rightarrow> string) \<Rightarrow> api \<Rightarrow> Owner \<Rightarrow> string \<Rightarrow> int \<Rightarrow> nat \<Rightarrow> ObjectRef list \<Rightarrow> shard_store
   \<Rightarrow> inv_error + shard_store" where
  "write_shard sha256_hex api ss stage position i shard store =
     (let name = ShardName sha256_hex (own_Name ss) stage (int i);
          ns = own_Namespace ss;
          existing = (case find (\<lambda>x. si_key x = (ns, name)) store of
              Some x \<Rightarrow> x
            | None \<Rightarrow> \<lparr>si_Namespace = ns, si_Name = name, si_Labels = Map.empty,
                       si_Controller = None, si_StagePosition = 0, si_Entries = []\<rparr>);
          si = existing\<lparr>si_Labels := shard_labels (own_Name ss) stage i,
                 si_StagePosition := to_int32 position, si_Entries := entriesOf shard\<rparr>
      in case si_Controller si of
           Some uid \<Rightarrow>
             if uid \<noteq> own_UID ss then Inl (AlreadyOwned name)
             else (case api (PutShard ns name) of
                 Some e \<Rightarrow> Inl (WriteFailed name e)
               | None \<Rightarrow> Inr (put_shard si store))
         | None \<Rightarrow>
             (case api (PutShard ns name) of
                 Some e \<Rightarrow> Inl (WriteFailed name e)
               | None \<Rightarrow> Inr (put_shard (si\<lparr>si_Controller := Some (own_UID ss)\<rparr>) store)))"

fun write_shards ::
  "(string \<Rightarrow> string) \<Rightarrow> api \<Rightarrow> Owner \<Rightarrow> string \<Rightarrow> int \<Rightarrow> nat \<Rightarrow> ObjectRef list list \<Rightarrow> shard_store
   \<Rightarrow> shard_store \<times> inv_error option" where
  "write_shards h api ss stage position i [] store = (store, None)"
| "write_shards h api ss stage position i (shard # shards) store =
     (case write_shard h api ss stage position i shard store of
        Inl e \<Rightarrow> (store, Some e)
      | Inr store' \<Rightarrow> write_shards h api ss stage position (Suc i) shards store')"

text \<open>A shard is kept when its index label parses, is below \<open>keep\<close>, and names it.\<close>

definition keep_shard :: "(string \<Rightarrow> string) \<Rightarrow> string \<Rightarrow> string \<Rightarrow> nat \<Rightarrow> StageInventory \<Rightarrow> bool" where
  "keep_shard sha256_hex ssName stage keep si =
     (case atoi (label_of si ShardLabel) of
        Some idx \<Rightarrow> idx < int keep \<and> si_Name si = ShardName sha256_hex ssName stage idx
      | None \<Rightarrow> False)"

fun delete_unless ::
  "api \<Rightarrow> (StageInventory \<Rightarrow> bool) \<Rightarrow> StageInventory list \<Rightarrow> shard_store
   \<Rightarrow> shard_store \<times> inv_error option" where
  "delete_unless api kept [] store = (store, None)"
| "delete_unless api kept (si # items) store =
     (if kept si then delete_unless api kept items store
      else (case api (DeleteShard (si_Namespace si) (si_Name si)) of
          Some (ApiFailure m) \<Rightarrow> (store, Some (DeleteFailed (si_Name si) (ApiFailure m)))
        | _ \<Rightarrow> delete_unless api kept items (remove_shard (si_key si) store)))"

definition deleteObsoleteShards ::
  "(string \<Rightarrow> string) \<Rightarrow> api \<Rightarrow> string \<Rightarrow> string \<Rightarrow> string \<Rightarrow> nat \<Rightarrow> shard_store
   \<Rightarrow> shard_store \<times> inv_error option" where
  "deleteObsoleteShards sha256_hex api namespace ssName stage keep store =
     (case list_shards api store namespace (stage_selector ssName stage) of
        Inl e \<Rightarrow> (store, Some e)
      | Inr items \<Rightarrow> delete_unless api (keep_shard sha256_hex ssName stage keep) items store)"

definition Write ::
  "(string \<Rightarrow> string) \<Rightarrow> api \<Rightarrow> int \<Rightarrow> Owner \<Rightarrow> string \<Rightarrow> int \<Rightarrow> ObjectRef list \<Rightarrow> shard_store
   \<Rightarrow> shard_store \<times> inv_error option" where
  "Write sha256_hex api shardCap ss stage position refs store =
     (case PlanShards refs (DefaultOr shardCap) of
        Inl e \<Rightarrow> (store, Some (PlanFailed e))
      | Inr shards \<Rightarrow>
          (case write_shards sha256_hex api ss stage position 0 shards store of
             (store', Some e) \<Rightarrow> (store', Some e)
           | (store', None) \<Rightarrow>
               deleteObsoleteShards sha256_hex api (own_Namespace ss) (own_Name ss) stage
                 (length shards) store'))"

definition DeleteStageShards ::
  "api \<Rightarrow> string \<Rightarrow> string \<Rightarrow> string \<Rightarrow> shard_store \<Rightarrow> shard_store \<times> inv_error option" where
  "DeleteStageShards api namespace ssName stage store =
     (case list_shards api store namespace (stage_selector ssName stage) of
        Inl e \<Rightarrow> (store, Some e)
      | Inr items \<Rightarrow> delete_unless api (\<lambda>_. False) items store)"

section \<open>Pure helpers\<close>

definition Diff :: "ObjectRef list \<Rightarrow> ObjectRef list \<Rightarrow> ObjectRef list" where
  "Diff stored current = filter (\<lambda>ref. ID ref \<notin> set (map ID current)) stored"

text \<open>An object of the cluster, as far as identity goes, and its owner labels.\<close>

record LiveObject =
  lo_Group :: string
  lo_Version :: string
  lo_Kind :: string
  lo_Namespace :: string
  lo_Name :: string
  lo_Labels :: "string \<rightharpoonup> string"

definition RefOf :: "LiveObject \<Rightarrow> ObjectRef" where
  "RefOf ob = \<lparr>ref_Group = lo_Group ob, ref_Kind = lo_Kind ob, ref_Namespace = lo_Namespace ob,
     ref_Name = lo_Name ob, ref_Version = lo_Version ob\<rparr>"

definition Objects :: "ObjectRef list \<Rightarrow> LiveObject list" where
  "Objects refs = map (\<lambda>ref. \<lparr>lo_Group = ref_Group ref, lo_Version = ref_Version ref,
     lo_Kind = ref_Kind ref, lo_Namespace = ref_Namespace ref, lo_Name = ref_Name ref,
     lo_Labels = Map.empty\<rparr>) refs"

lemma RefOf_Objects: "map RefOf (Objects refs) = refs"
  by (auto simp: Objects_def RefOf_def o_def intro!: map_idI)

section \<open>Facts about the store\<close>

lemma si_key_put_shard:
  "map si_key (put_shard si xs) =
   (if si_key si \<in> set (map si_key xs) then map si_key xs else map si_key xs @ [si_key si])"
  by (induction xs) auto

lemma distinct_put_shard:
  "distinct (map si_key xs) \<Longrightarrow> distinct (map si_key (put_shard si xs))"
  by (simp only: si_key_put_shard) simp

lemma set_put_shard:
  "distinct (map si_key xs) \<Longrightarrow>
   set (put_shard si xs) = insert si {x \<in> set xs. si_key x \<noteq> si_key si}"
proof (induction xs)
  case (Cons x xs)
  then have "{y \<in> set xs. si_key y \<noteq> si_key x} = set xs"
    by (auto simp: image_iff)
  with Cons show ?case by (cases "si_key x = si_key si") auto
qed simp

lemma filter_put_shard:
  "(\<And>x. x \<in> set xs \<Longrightarrow> si_key x = si_key si \<Longrightarrow> \<not> P x) \<Longrightarrow> \<not> P si \<Longrightarrow>
   filter P (put_shard si xs) = filter P xs"
  by (induction xs) auto

lemma distinct_remove_shard:
  "distinct (map si_key xs) \<Longrightarrow> distinct (map si_key (remove_shard k xs))"
  by (simp add: remove_shard_def distinct_map_filter)

lemma find_key:
  "distinct (map si_key xs) \<Longrightarrow> x \<in> set xs \<Longrightarrow> find (\<lambda>y. si_key y = si_key x) xs = Some x"
proof (induction xs)
  case (Cons y xs)
  then show ?case by auto
qed simp

definition shard_object ::
  "(string \<Rightarrow> string) \<Rightarrow> Owner \<Rightarrow> string \<Rightarrow> int \<Rightarrow> nat \<Rightarrow> ObjectRef list \<Rightarrow> StageInventory" where
  "shard_object h ss stage position i shard =
     \<lparr>si_Namespace = own_Namespace ss, si_Name = ShardName h (own_Name ss) stage (int i),
      si_Labels = shard_labels (own_Name ss) stage i, si_Controller = Some (own_UID ss),
      si_StagePosition = to_int32 position, si_Entries = entriesOf shard\<rparr>"

definition shard_key :: "(string \<Rightarrow> string) \<Rightarrow> Owner \<Rightarrow> string \<Rightarrow> nat \<Rightarrow> string \<times> string" where
  "shard_key h ss stage i = (own_Namespace ss, ShardName h (own_Name ss) stage (int i))"

lemma si_key_shard_object [simp]: "si_key (shard_object h ss stage p i s) = shard_key h ss stage i"
  by (simp add: si_key_def shard_object_def shard_key_def)

text \<open>Who may be overwritten: an object without a controller or with this one.\<close>

definition owned_by :: "Owner \<Rightarrow> StageInventory \<Rightarrow> bool" where
  "owned_by ss si \<longleftrightarrow> si_Controller si = None \<or> si_Controller si = Some (own_UID ss)"

lemma write_shard_cases:
  "write_shard h api ss stage p i shard store =
     (if \<exists>x. find (\<lambda>x. si_key x = shard_key h ss stage i) store = Some x \<and> \<not> owned_by ss x
      then Inl (AlreadyOwned (ShardName h (own_Name ss) stage (int i)))
      else (case api (PutShard (own_Namespace ss) (ShardName h (own_Name ss) stage (int i))) of
          Some e \<Rightarrow> Inl (WriteFailed (ShardName h (own_Name ss) stage (int i)) e)
        | None \<Rightarrow> Inr (put_shard (shard_object h ss stage p i shard) store)))"
proof -
  define f where "f = find (\<lambda>x. si_key x = shard_key h ss stage i) store"
  have def: "write_shard h api ss stage p i shard store =
     (let name = ShardName h (own_Name ss) stage (int i);
          si = (case f of Some x \<Rightarrow> x
            | None \<Rightarrow> \<lparr>si_Namespace = own_Namespace ss, si_Name = name, si_Labels = Map.empty,
                 si_Controller = None, si_StagePosition = 0, si_Entries = []\<rparr>)
             \<lparr>si_Labels := shard_labels (own_Name ss) stage i,
              si_StagePosition := to_int32 p, si_Entries := entriesOf shard\<rparr>
      in case si_Controller si of
           Some uid \<Rightarrow>
             if uid \<noteq> own_UID ss then Inl (AlreadyOwned name)
             else (case api (PutShard (own_Namespace ss) name) of
                 Some e \<Rightarrow> Inl (WriteFailed name e)
               | None \<Rightarrow> Inr (put_shard si store))
         | None \<Rightarrow>
             (case api (PutShard (own_Namespace ss) name) of
                 Some e \<Rightarrow> Inl (WriteFailed name e)
               | None \<Rightarrow> Inr (put_shard (si\<lparr>si_Controller := Some (own_UID ss)\<rparr>) store)))"
    unfolding f_def write_shard_def shard_key_def Let_def ..
  show ?thesis
  proof (cases f)
    case None
    then show ?thesis unfolding f_def [symmetric] def
      by (simp add: Let_def shard_object_def split: option.split)
  next
    case (Some x)
    then have "si_key x = shard_key h ss stage i" by (auto simp: f_def find_Some_iff)
    then obtain l c q es where x: "x = \<lparr>si_Namespace = own_Namespace ss,
        si_Name = ShardName h (own_Name ss) stage (int i), si_Labels = l,
        si_Controller = c, si_StagePosition = q, si_Entries = es\<rparr>"
      by (cases x) (simp add: si_key_def shard_key_def)
    show ?thesis unfolding f_def [symmetric] def Some
      by (cases c) (simp_all add: Let_def shard_object_def x owned_by_def split: option.split)
  qed
qed

section \<open>Writing shards\<close>

definition shard_objects ::
  "(string \<Rightarrow> string) \<Rightarrow> Owner \<Rightarrow> string \<Rightarrow> int \<Rightarrow> nat \<Rightarrow> ObjectRef list list \<Rightarrow> StageInventory list" where
  "shard_objects h ss stage position i shards =
     map (\<lambda>(j, s). shard_object h ss stage position j s) (enumerate i shards)"

definition shard_keys :: "(string \<Rightarrow> string) \<Rightarrow> Owner \<Rightarrow> string \<Rightarrow> nat \<Rightarrow> nat \<Rightarrow> (string \<times> string) list" where
  "shard_keys h ss stage i n = map (shard_key h ss stage) [i..<i + n]"

lemma si_key_shard_objects:
  "map si_key (shard_objects h ss stage p i shards) = shard_keys h ss stage i (length shards)"
  by (simp add: shard_objects_def shard_keys_def case_prod_beta o_def
      map_fst_enumerate [symmetric, of i shards] del: map_fst_enumerate)

lemma shard_keys_Suc:
  "shard_keys h ss stage i (Suc n) = shard_key h ss stage i # shard_keys h ss stage (Suc i) n"
  by (simp add: shard_keys_def upt_rec)

lemma shard_objects_Cons:
  "shard_objects h ss stage p i (s # shards) =
   shard_object h ss stage p i s # shard_objects h ss stage p (Suc i) shards"
  by (simp add: shard_objects_def)

definition api_up :: "api \<Rightarrow> bool" where
  "api_up api \<longleftrightarrow> (\<forall>c. api c = None)"

lemma write_shard_ok:
  "api_up api \<Longrightarrow> distinct (map si_key store) \<Longrightarrow>
   (\<forall>x\<in>set store. si_key x = shard_key h ss stage i \<longrightarrow> owned_by ss x) \<Longrightarrow>
   write_shard h api ss stage p i shard store =
     Inr (put_shard (shard_object h ss stage p i shard) store)"
  unfolding write_shard_cases by (auto simp: api_up_def dest: find_Some_mem)

lemma write_shards_ok:
  assumes up: "api_up api"
  shows "distinct (map si_key store) \<Longrightarrow> distinct (shard_keys h ss stage i (length shards)) \<Longrightarrow>
    (\<forall>x\<in>set store. si_key x \<in> set (shard_keys h ss stage i (length shards)) \<longrightarrow> owned_by ss x) \<Longrightarrow>
    \<exists>store'. write_shards h api ss stage p i shards store = (store', None) \<and>
      distinct (map si_key store') \<and>
      set store' = set (shard_objects h ss stage p i shards) \<union>
        {x \<in> set store. si_key x \<notin> set (shard_keys h ss stage i (length shards))} \<and>
      (\<forall>P. (\<forall>x\<in>set store. si_key x \<in> set (shard_keys h ss stage i (length shards)) \<longrightarrow> \<not> P x) \<longrightarrow>
        (\<forall>x\<in>set (shard_objects h ss stage p i shards). \<not> P x) \<longrightarrow> filter P store' = filter P store)"
proof (induction shards arbitrary: i store)
  case Nil
  then show ?case by (simp add: shard_objects_def shard_keys_def)
next
  case (Cons s shards)
  let ?o = "shard_object h ss stage p i s"
  let ?K = "set (shard_keys h ss stage (Suc i) (length shards))"
  define store1 where "store1 = put_shard ?o store"
  have step: "write_shard h api ss stage p i s store = Inr store1"
    unfolding store1_def using up Cons.prems
    by (intro write_shard_ok) (auto simp: shard_keys_Suc)
  have notin: "shard_key h ss stage i \<notin> ?K" and dK: "distinct (shard_keys h ss stage (Suc i) (length shards))"
    using Cons.prems(2) by (simp_all add: shard_keys_Suc)
  have d1: "distinct (map si_key store1)"
    unfolding store1_def using Cons.prems(1) by (rule distinct_put_shard)
  have set1: "set store1 = insert ?o {x \<in> set store. si_key x \<noteq> shard_key h ss stage i}"
    unfolding store1_def using Cons.prems(1) by (simp add: set_put_shard)
  have own1: "\<forall>x\<in>set store1. si_key x \<in> ?K \<longrightarrow> owned_by ss x"
    using Cons.prems(3) notin by (auto simp: set1 shard_keys_Suc)
  obtain store' where w: "write_shards h api ss stage p (Suc i) shards store1 = (store', None)"
    and d: "distinct (map si_key store')"
    and st: "set store' = set (shard_objects h ss stage p (Suc i) shards) \<union>
        {x \<in> set store1. si_key x \<notin> ?K}"
    and fr: "\<And>P. (\<forall>x\<in>set store1. si_key x \<in> ?K \<longrightarrow> \<not> P x) \<Longrightarrow>
        (\<forall>x\<in>set (shard_objects h ss stage p (Suc i) shards). \<not> P x) \<Longrightarrow>
        filter P store' = filter P store1"
    using Cons.IH [OF d1 dK own1] by blast
  have frame: "filter P store' = filter P store"
    if "\<forall>x\<in>set store. si_key x \<in> set (shard_keys h ss stage i (length (s # shards))) \<longrightarrow> \<not> P x"
      and "\<forall>x\<in>set (shard_objects h ss stage p i (s # shards)). \<not> P x" for P
  proof -
    have "filter P store1 = filter P store"
      unfolding store1_def by (rule filter_put_shard)
        (use that in \<open>auto simp: shard_keys_Suc shard_objects_Cons\<close>)
    moreover have "filter P store' = filter P store1"
      by (rule fr) (use that in \<open>auto simp: shard_keys_Suc shard_objects_Cons set1\<close>)
    ultimately show ?thesis by simp
  qed
  have sets: "set store' = set (shard_objects h ss stage p i (s # shards)) \<union>
      {x \<in> set store. si_key x \<notin> set (shard_keys h ss stage i (length (s # shards)))}"
    using notin by (auto simp: st set1 shard_keys_Suc shard_objects_Cons)
  show ?case
    using step w d sets frame by (intro exI [of _ store']) (simp only: write_shards.simps sum.case, blast)
qed

lemma delete_unless_ok:
  assumes up: "api_up api"
  shows "\<exists>store'. delete_unless api kept items store = (store', None) \<and>
    store' = filter (\<lambda>x. si_key x \<notin> si_key ` {y \<in> set items. \<not> kept y}) store"
  using up
proof (induction items arbitrary: store)
  case (Cons y items)
  show ?case
  proof (cases "kept y")
    case True
    with Cons show ?thesis by (auto intro!: filter_cong)
  next
    case False
    then have eq: "{z \<in> set (y # items). \<not> kept z} = insert y {z \<in> set items. \<not> kept z}"
      by auto
    have "api (DeleteShard (si_Namespace y) (si_Name y)) = None"
      using up by (simp add: api_up_def)
    with False Cons.IH [OF up, of "remove_shard (si_key y) store"] show ?thesis
      unfolding eq by (simp add: remove_shard_def)
  qed
qed simp

section \<open>Writing a stage\<close>

text \<open>
  The situation a write relies on: object keys are distinct, the names of the shards to write are
  distinct and taken by no object of another stage or owner, and no shard of the stage carries a
  negative index (the loop counter never is).
\<close>

definition writable :: "(string \<Rightarrow> string) \<Rightarrow> Owner \<Rightarrow> string \<Rightarrow> nat \<Rightarrow> shard_store \<Rightarrow> bool" where
  "writable h ss stage n store \<longleftrightarrow>
     distinct (map si_key store) \<and> distinct (shard_keys h ss stage 0 n) \<and>
     (\<forall>x\<in>set store. si_key x \<in> set (shard_keys h ss stage 0 n) \<longrightarrow>
        owned_by ss x \<and> matches (own_Namespace ss) (stage_selector (own_Name ss) stage) x) \<and>
     (\<forall>x\<in>set store. matches (own_Namespace ss) (stage_selector (own_Name ss) stage) x \<longrightarrow>
        (case atoi (label_of x ShardLabel) of Some i \<Rightarrow> 0 \<le> i | None \<Rightarrow> True))"

abbreviation of_stage :: "Owner \<Rightarrow> string \<Rightarrow> StageInventory \<Rightarrow> bool" where
  "of_stage ss stage \<equiv> matches (own_Namespace ss) (stage_selector (own_Name ss) stage)"

lemma shard_object_of_stage: "of_stage ss stage (shard_object h ss stage p i s)"
  by (simp add: matches_def stage_selector_def shard_object_def shard_labels_def)

lemma shard_object_kept:
  "int i < 2 ^ 63 \<Longrightarrow> i < keep \<Longrightarrow>
   keep_shard h (own_Name ss) stage keep (shard_object h ss stage p i s)"
  by (simp add: keep_shard_def label_of_def shard_object_def shard_labels_def atoi_itoa in_int64_def)

lemma length_shard_objects [simp]: "length (shard_objects h ss stage p i shards) = length shards"
  by (simp add: shard_objects_def)

lemma shard_objects_mem:
  "x \<in> set (shard_objects h ss stage p 0 shards) \<Longrightarrow>
   \<exists>j<length shards. x = shard_object h ss stage p j (shards ! j)"
  by (auto simp: shard_objects_def in_set_enumerate_eq)

text \<open>What a successful write leaves: the canonical shards are the only objects of the stage, and
  every other object is where it was.\<close>

lemma Write_result:
  assumes up: "api_up api" and plan: "PlanShards refs (DefaultOr cap) = Inr shards"
    and small: "int (length shards) < 2 ^ 63"
    and ok: "writable h ss stage (length shards) store"
  obtains store' where "Write h api cap ss stage p refs store = (store', None)"
    and "distinct (map si_key store')"
    and "set (filter (of_stage ss stage) store') = set (shard_objects h ss stage p 0 shards)"
    and "filter (\<lambda>x. \<not> of_stage ss stage x) store' = filter (\<lambda>x. \<not> of_stage ss stage x) store"
proof -
  let ?K = "set (shard_keys h ss stage 0 (length shards))"
  let ?C = "set (shard_objects h ss stage p 0 shards)"
  let ?kept = "keep_shard h (own_Name ss) stage (length shards)"
  have d: "distinct (map si_key store)" "distinct (shard_keys h ss stage 0 (length shards))"
    and own: "\<forall>x\<in>set store. si_key x \<in> ?K \<longrightarrow> owned_by ss x"
    and mine: "\<And>x. x \<in> set store \<Longrightarrow> si_key x \<in> ?K \<Longrightarrow> of_stage ss stage x"
    and idx: "\<And>x. x \<in> set store \<Longrightarrow> of_stage ss stage x \<Longrightarrow>
        (case atoi (label_of x ShardLabel) of Some i \<Rightarrow> 0 \<le> i | None \<Rightarrow> True)"
    using ok by (auto simp: writable_def)
  obtain store1 where w: "write_shards h api ss stage p 0 shards store = (store1, None)"
    and d1: "distinct (map si_key store1)"
    and set1: "set store1 = ?C \<union> {x \<in> set store. si_key x \<notin> ?K}"
    and frame1: "\<And>P. (\<forall>x\<in>set store. si_key x \<in> ?K \<longrightarrow> \<not> P x) \<Longrightarrow> (\<forall>x\<in>?C. \<not> P x) \<Longrightarrow>
        filter P store1 = filter P store"
    using write_shards_ok [OF up d own] by blast
  have C: "of_stage ss stage x \<and> ?kept x" if "x \<in> ?C" for x
    using shard_objects_mem [OF that] small
    by (auto intro!: shard_object_kept shard_object_of_stage)
  have junk: "\<not> ?kept x" if "x \<in> set store" "si_key x \<notin> ?K" "of_stage ss stage x" for x
  proof
    assume "?kept x"
    then obtain i where "atoi (label_of x ShardLabel) = Some i" "i < int (length shards)"
      "si_Name x = ShardName h (own_Name ss) stage i"
      by (auto simp: keep_shard_def split: option.splits)
    with idx [OF that(1,3)] have "si_key x = shard_key h ss stage (nat i)" "nat i < length shards"
      using that(3) by (auto simp: shard_key_def si_key_def matches_def)
    with that(2) show False by (auto simp: shard_keys_def)
  qed
  define items where "items = filter (of_stage ss stage) store1"
  define store' where
    "store' = filter (\<lambda>x. si_key x \<notin> si_key ` {y \<in> set items. \<not> ?kept y}) store1"
  have "Write h api cap ss stage p refs store = (store', None)"
    using up delete_unless_ok [OF up, of ?kept items store1]
    by (simp add: Write_def plan w deleteObsoleteShards_def list_shards_def items_def store'_def
        api_up_def)
  moreover have d': "distinct (map si_key store')"
    unfolding store'_def using d1 by (rule distinct_map_filter)
  have doomed: "{y \<in> set items. \<not> ?kept y} = {y \<in> set store1. of_stage ss stage y \<and> y \<notin> ?C}"
    using C junk by (auto simp: items_def set1)
  have key: "si_key x \<in> si_key ` {y \<in> set items. \<not> ?kept y} \<longleftrightarrow>
      of_stage ss stage x \<and> x \<notin> ?C" if "x \<in> set store1" for x
    using that d1 unfolding doomed by (auto simp: distinct_map inj_on_def)
  have stC: "set (filter (of_stage ss stage) store') = ?C"
  proof -
    have "set (filter (of_stage ss stage) store') =
        {x \<in> set store1. of_stage ss stage x \<and> \<not> si_key x \<in> si_key ` {y \<in> set items. \<not> ?kept y}}"
      by (auto simp: store'_def)
    also have "\<dots> = {x \<in> set store1. of_stage ss stage x \<and> x \<in> ?C}"
      by (intro Collect_cong conj_cong refl) (simp only: key simp_thms not_not)
    also have "\<dots> = ?C" using C by (auto simp: set1)
    finally show ?thesis .
  qed
  moreover have "filter (\<lambda>x. \<not> of_stage ss stage x) store' =
      filter (\<lambda>x. \<not> of_stage ss stage x) store1"
    unfolding store'_def filter_filter by (rule filter_cong [OF refl]) (simp only: key, blast)
  moreover have "filter (\<lambda>x. \<not> of_stage ss stage x) store1 =
      filter (\<lambda>x. \<not> of_stage ss stage x) store"
    by (rule frame1) (use mine C in auto)
  ultimately show thesis using that d' stC by simp
qed

lemma parse_entriesOf: "(\<forall>r\<in>set refs. wf_ref r) \<Longrightarrow> entry_refs (entriesOf refs) = refs"
  by (induction refs)
    (simp_all add: entry_refs_def entriesOf_def parse_entry_def ParseID_ID List.map_filter_simps)

lemma skipped_entriesOf: "(\<forall>r\<in>set refs. wf_ref r) \<Longrightarrow> skipped (entriesOf refs) = 0"
  by (induction refs) (simp_all add: skipped_def entriesOf_def parse_entry_def ParseID_ID)

abbreviation stored_refs :: "StageInventory list \<Rightarrow> ObjectRef list" where
  "stored_refs items \<equiv> concat (map (\<lambda>si. entry_refs (si_Entries si)) items)"

lemma stored_refs_shard_objects:
  "(\<forall>r\<in>set (concat shards). wf_ref r) \<Longrightarrow>
   stored_refs (shard_objects h ss stage p i shards) = concat shards"
proof (induction shards arbitrary: i)
  case (Cons s shards)
  then show ?case
    by (simp add: shard_objects_Cons) (simp add: shard_object_def parse_entriesOf)
qed (simp add: shard_objects_def)

lemma Stored_eq:
  "api_up api \<Longrightarrow> Stored api store ss ns stage =
     Inr (stored_refs (filter (matches ns (stage_selector ss stage)) store),
          sum_list (map (\<lambda>si. skipped (si_Entries si)) (filter (matches ns (stage_selector ss stage)) store)))"
  by (simp add: Stored_def list_shards_def api_up_def)

lemma distinct_key_filter: "distinct (map si_key store) \<Longrightarrow> distinct (filter P store)"
  by (simp add: distinct_map)

lemma mset_concat_map: "mset xs = mset ys \<Longrightarrow> mset (concat (map f xs)) = mset (concat (map f ys))"
  by (simp add: mset_concat) (metis mset_map sum_mset_sum_list)

lemma Write_Stored:
  assumes "api_up api" "PlanShards refs (DefaultOr cap) = Inr shards" "int (length shards) < 2 ^ 63"
    and "writable h ss stage (length shards) store" and wf: "\<forall>r\<in>set refs. wf_ref r"
  obtains store' rs where "Write h api cap ss stage p refs store = (store', None)"
    and "distinct (map si_key store')"
    and "Stored api store' (own_Name ss) (own_Namespace ss) stage = Inr (rs, 0)"
    and "mset rs = mset refs"
    and "filter (\<lambda>x. \<not> of_stage ss stage x) store' = filter (\<lambda>x. \<not> of_stage ss stage x) store"
proof -
  obtain store' where w: "Write h api cap ss stage p refs store = (store', None)"
    and d: "distinct (map si_key store')"
    and st: "set (filter (of_stage ss stage) store') = set (shard_objects h ss stage p 0 shards)"
    and fr: "filter (\<lambda>x. \<not> of_stage ss stage x) store' = filter (\<lambda>x. \<not> of_stage ss stage x) store"
    using Write_result [OF assms(1-4)] by blast
  have "distinct (map si_key (shard_objects h ss stage p 0 shards))"
    using assms(4) by (simp add: si_key_shard_objects writable_def)
  then have "distinct (shard_objects h ss stage p 0 shards)" by (simp add: distinct_map)
  then have ms: "mset (filter (of_stage ss stage) store') = mset (shard_objects h ss stage p 0 shards)"
    using distinct_key_filter [OF d] st by (simp only: set_eq_iff_mset_eq_distinct [symmetric])
  have cc: "concat shards = sort_refs refs" using assms(2) by (rule PlanShards_concat)
  then have wfs: "\<forall>r\<in>set (concat shards). wf_ref r" using wf by (simp add: sort_refs_def)
  have "mset (stored_refs (filter (of_stage ss stage) store')) =
      mset (stored_refs (shard_objects h ss stage p 0 shards))"
    using ms by (rule mset_concat_map)
  also have "\<dots> = mset refs"
    unfolding stored_refs_shard_objects [OF wfs] cc by (rule refs.srt_mset)
  finally have m: "mset (stored_refs (filter (of_stage ss stage) store')) = mset refs" .
  have "skipped (si_Entries x) = 0" if x: "x \<in> set (filter (of_stage ss stage) store')" for x
  proof -
    obtain j where "j < length shards" "x = shard_object h ss stage p j (shards ! j)"
      using x unfolding st by (auto dest: shard_objects_mem)
    then show ?thesis using wfs by (auto simp: shard_object_def intro!: skipped_entriesOf)
  qed
  then have "sum_list (map (\<lambda>si. skipped (si_Entries si)) (filter (of_stage ss stage) store')) = 0"
    by (simp add: sum_list_eq_0_iff)
  then show thesis using that [OF w d _ m fr] Stored_eq [OF assms(1)] by simp
qed

section \<open>Failures\<close>

text \<open>Whatever fails and whenever, a write touches nothing but the stage's own objects and the
  names it is about to write.\<close>

lemma filter_remove_shard:
  "(\<forall>x\<in>set store. si_key x = k \<longrightarrow> \<not> P x) \<Longrightarrow> filter P (remove_shard k store) = filter P store"
  unfolding remove_shard_def filter_filter by (rule filter_cong) auto

lemma delete_unless_frame:
  "(\<forall>x\<in>set store. si_key x \<in> si_key ` set items \<longrightarrow> \<not> P x) \<Longrightarrow>
   filter P (fst (delete_unless api kept items store)) = filter P store"
proof (induction items arbitrary: store)
  case (Cons y items)
  have rem: "\<forall>x\<in>set (remove_shard (si_key y) store). si_key x \<in> si_key ` set items \<longrightarrow> \<not> P x"
    using Cons.prems by (simp add: remove_shard_def)
  have gone: "filter P (remove_shard (si_key y) store) = filter P store"
    using Cons.prems by (intro filter_remove_shard) simp
  have keep: "filter P (fst (delete_unless api kept items store)) = filter P store"
    using Cons.prems by (intro Cons.IH) simp
  have del: "filter P (fst (delete_unless api kept items (remove_shard (si_key y) store))) = filter P store"
    using Cons.IH [OF rem] gone by simp
  show ?case using keep del by (simp split: option.split api_error.split)
qed simp

lemma write_shards_frame:
  "(\<forall>x. si_key x \<in> set (shard_keys h ss stage i (length shards)) \<longrightarrow> \<not> P x) \<Longrightarrow>
   filter P (fst (write_shards h api ss stage p i shards store)) = filter P store"
proof (induction shards arbitrary: i store)
  case (Cons s shards)
  show ?case
  proof (cases "write_shard h api ss stage p i s store")
    case (Inr store1)
    then have "store1 = put_shard (shard_object h ss stage p i s) store"
      by (auto simp: write_shard_cases split: if_splits option.splits)
    moreover have "\<not> P (shard_object h ss stage p i s)"
      using Cons.prems by (simp add: shard_keys_Suc)
    ultimately have "filter P store1 = filter P store"
      using Cons.prems by (simp add: filter_put_shard shard_keys_Suc)
    moreover have "filter P (fst (write_shards h api ss stage p (Suc i) shards store1)) = filter P store1"
      using Cons.prems by (intro Cons.IH) (simp add: shard_keys_Suc)
    ultimately show ?thesis using Inr by simp
  qed simp
qed simp

lemma distinct_write_shards:
  "distinct (map si_key store) \<Longrightarrow>
   distinct (map si_key (fst (write_shards h api ss stage p i shards store)))"
proof (induction shards arbitrary: i store)
  case (Cons s shards)
  then show ?case
    by (auto simp: write_shard_cases distinct_put_shard split: sum.split option.split)
qed simp

lemma Write_frame_lemma:
  assumes d: "distinct (map si_key store)" and plan: "PlanShards refs (DefaultOr cap) = Inr shards"
    and P: "\<forall>x. P x \<longrightarrow> \<not> of_stage ss stage x \<and>
      si_key x \<notin> set (shard_keys h ss stage 0 (length shards))"
  shows "filter P (fst (Write h api cap ss stage p refs store)) = filter P store"
proof -
  obtain store1 e where w: "write_shards h api ss stage p 0 shards store = (store1, e)"
    by (cases "write_shards h api ss stage p 0 shards store")
  have fr1: "filter P store1 = filter P store"
    using write_shards_frame [of h ss stage 0 shards P api p store] P w by auto
  have d1: "distinct (map si_key store1)"
    using distinct_write_shards [OF d, of h api ss stage p 0 shards] w by simp
  have "filter P (fst (deleteObsoleteShards h api (own_Namespace ss) (own_Name ss) stage
      (length shards) store1)) = filter P store1"
  proof (cases "list_shards api store1 (own_Namespace ss) (stage_selector (own_Name ss) stage)")
    case (Inr items)
    then have items: "items = filter (of_stage ss stage) store1"
      by (auto simp: list_shards_def split: option.splits)
    have "\<not> P x" if x: "x \<in> set store1" "si_key x \<in> si_key ` set items" for x
    proof -
      obtain y where "y \<in> set store1" "of_stage ss stage y" "si_key x = si_key y"
        using x(2) by (auto simp: items)
      then have "x = y" using d1 x(1) by (auto simp: distinct_map inj_on_def)
      then show ?thesis using P \<open>of_stage ss stage y\<close> by blast
    qed
    then show ?thesis using Inr by (simp add: deleteObsoleteShards_def delete_unless_frame)
  qed (simp add: deleteObsoleteShards_def)
  then show ?thesis using fr1 by (cases e) (simp_all add: Write_def plan w)
qed

section \<open>The two readers agree\<close>

abbreviation labelled :: "string \<Rightarrow> StageInventory \<Rightarrow> bool" where
  "labelled stage si \<equiv> label_of si StageLabel = stage"

lemma record_steps:
  "foldl record_step m items t =
     (if filter (labelled t) items = [] then m t
      else Some \<lparr>sr_Position = si_StagePosition (last (filter (labelled t) items)),
        sr_Refs = (case m t of Some r \<Rightarrow> sr_Refs r | None \<Rightarrow> []) @
          stored_refs (filter (labelled t) items)\<rparr>)"
proof (induction items rule: rev_induct)
  case (snoc x items)
  show ?case
  proof (cases "labelled t x")
    case True
    with snoc show ?thesis
      by (simp add: record_step_def Let_def split: option.split)
  next
    case False
    with snoc show ?thesis
      by (simp add: record_step_def Let_def)
  qed
qed simp

lemma filter_stage_selector:
  "stage \<noteq> [] \<Longrightarrow>
   filter (labelled stage) (filter (matches ns [(StageSetLabel, ss)]) store) =
   filter (matches ns (stage_selector ss stage)) store"
  by (auto simp: matches_def stage_selector_def label_of_def filter_filter
      intro!: filter_cong split: option.splits)

section \<open>Rebuilding a lost inventory\<close>

text \<open>
  \<open>ReconstructFromCluster\<close>: one list call per rendered (group, version, kind), answered by
  \<open>listing\<close>; a failed one is recorded and the loop goes on. Go iterates over the kinds and returns
  the collected references in no particular order: the argument \<open>gvks\<close> is that order and the
  result is the map the loop fills, whose range the slice holds.
\<close>

type_synonym gvk = "string \<times> string \<times> string"

definition gvk_of :: "LiveObject \<Rightarrow> gvk" where
  "gvk_of ob = (lo_Group ob, lo_Version ob, lo_Kind ob)"

definition GroupVersionGroup :: string where
  "GroupVersionGroup = ''stages.metio.wtf''"

definition reconstruct_selector :: "string \<Rightarrow> string \<Rightarrow> string \<Rightarrow> (string \<times> string) list" where
  "reconstruct_selector ssName ssNamespace stage =
     [(GroupVersionGroup @ ''/name'', ssName), (GroupVersionGroup @ ''/namespace'', ssNamespace),
      (StageLabel, stage)]"

definition has_labels :: "(string \<times> string) list \<Rightarrow> LiveObject \<Rightarrow> bool" where
  "has_labels labels ob \<longleftrightarrow> list_all (\<lambda>(k, v). lo_Labels ob k = Some v) labels"

definition seen_add :: "(string \<rightharpoonup> ObjectRef) \<Rightarrow> LiveObject \<Rightarrow> (string \<rightharpoonup> ObjectRef)" where
  "seen_add seen ob = (let ref = RefOf ob in seen(ID ref \<mapsto> ref))"

definition reconstruct_step ::
  "(gvk \<Rightarrow> 'e + LiveObject list) \<Rightarrow> (string \<times> string) list \<Rightarrow> gvk
   \<Rightarrow> (string \<rightharpoonup> ObjectRef) \<times> 'e list \<Rightarrow> (string \<rightharpoonup> ObjectRef) \<times> 'e list" where
  "reconstruct_step listing sel g acc =
     (case listing g of
        Inl e \<Rightarrow> (fst acc, snd acc @ [e])
      | Inr items \<Rightarrow>
          (foldl seen_add (fst acc)
             (filter (has_labels sel) items), snd acc))"

definition ReconstructFromCluster ::
  "(gvk \<Rightarrow> 'e + LiveObject list) \<Rightarrow> gvk list \<Rightarrow> string \<Rightarrow> string \<Rightarrow> string
   \<Rightarrow> (string \<rightharpoonup> ObjectRef) \<times> 'e list" where
  "ReconstructFromCluster listing gvks ssName ssNamespace stage =
     fold (reconstruct_step listing (reconstruct_selector ssName ssNamespace stage)) gvks
       (Map.empty, [])"

lemma dom_seen_add [simp]: "dom (seen_add seen ob) = insert (ID (RefOf ob)) (dom seen)"
  unfolding seen_add_def Let_def by simp

lemma seen_fold_ran:
  "foldl seen_add m items i = Some r \<Longrightarrow>
   m i = Some r \<or> (\<exists>ob\<in>set items. r = RefOf ob \<and> i = ID r)"
  by (induction items rule: rev_induct) (auto simp: seen_add_def Let_def split: if_splits)

lemma seen_fold_dom:
  "dom (foldl seen_add m items) =
   dom m \<union> (\<lambda>ob. ID (RefOf ob)) ` set items"
  by (induction items rule: rev_induct) simp_all

lemma reconstruct_sound:
  "fst (fold (reconstruct_step listing sel) gvks acc) i = Some r \<Longrightarrow>
   fst acc i = Some r \<or>
   (\<exists>g\<in>set gvks. \<exists>items. listing g = Inr items \<and>
      (\<exists>ob\<in>set items. has_labels sel ob \<and> r = RefOf ob \<and> i = ID r))"
proof (induction gvks arbitrary: acc)
  case (Cons g gvks)
  from Cons.IH [of "reconstruct_step listing sel g acc"] Cons.prems
  consider "fst (reconstruct_step listing sel g acc) i = Some r"
    | "\<exists>g\<in>set gvks. \<exists>items. listing g = Inr items \<and>
        (\<exists>ob\<in>set items. has_labels sel ob \<and> r = RefOf ob \<and> i = ID r)"
    by auto
  then show ?case
  proof cases
    case 1
    then show ?thesis
      by (auto simp: reconstruct_step_def dest!: seen_fold_ran split: sum.splits)
  qed auto
qed simp

lemma reconstruct_dom:
  "dom (fst (fold (reconstruct_step listing sel) gvks acc)) =
   dom (fst acc) \<union> {ID (RefOf ob) | ob g items.
     g \<in> set gvks \<and> listing g = Inr items \<and> ob \<in> set items \<and> has_labels sel ob}"
proof (induction gvks arbitrary: acc)
  case (Cons g gvks)
  have "dom (fst (reconstruct_step listing sel g acc)) =
      dom (fst acc) \<union> {ID (RefOf ob) | ob items.
        listing g = Inr items \<and> ob \<in> set items \<and> has_labels sel ob}"
    by (cases "listing g") (auto simp: reconstruct_step_def seen_fold_dom)
  moreover have "{ID (RefOf ob) | ob g' items.
        g' \<in> set (g # gvks) \<and> listing g' = Inr items \<and> ob \<in> set items \<and> has_labels sel ob} =
      {ID (RefOf ob) | ob items. listing g = Inr items \<and> ob \<in> set items \<and> has_labels sel ob} \<union>
      {ID (RefOf ob) | ob g' items.
        g' \<in> set gvks \<and> listing g' = Inr items \<and> ob \<in> set items \<and> has_labels sel ob}"
    unfolding set_simps insert_iff by blast
  ultimately show ?case by (simp only: fold_simps Cons.IH Un_assoc)
qed simp

lemma reconstruct_errors:
  "snd (fold (reconstruct_step listing sel) gvks acc) =
   snd acc @ List.map_filter (\<lambda>g. case listing g of Inl e \<Rightarrow> Some e | Inr _ \<Rightarrow> None) gvks"
  by (induction gvks arbitrary: acc)
    (auto simp: reconstruct_step_def List.map_filter_simps split: sum.split)

section \<open>The inventory as an interface\<close>

text \<open>
  What the reconciler relies on: recording a stage makes its inventory hold exactly the recorded
  references and leaves the inventories of the other stages alone. \<open>ready\<close> is the situation in which
  the provider promises it.
\<close>

locale inventory_store =
  fixes ready :: "'s \<Rightarrow> 'stage \<Rightarrow> ObjectRef list \<Rightarrow> bool"
    and stored :: "'s \<Rightarrow> 'stage \<Rightarrow> ObjectRef list"
    and record_refs :: "'s \<Rightarrow> 'stage \<Rightarrow> ObjectRef list \<Rightarrow> 's"
  assumes stored_same: "ready s t refs \<Longrightarrow> mset (stored (record_refs s t refs) t) = mset refs"
    and stored_other: "ready s t refs \<Longrightarrow> t' \<noteq> t \<Longrightarrow> stored (record_refs s t refs) t' = stored s t'"
begin

lemma stored_set: "ready s t refs \<Longrightarrow> set (stored (record_refs s t refs) t) = set refs"
  by (metis stored_same set_mset_mset)

text \<open>Right after recording, nothing is a prune candidate.\<close>

lemma no_candidates: "ready s t refs \<Longrightarrow> Diff (stored (record_refs s t refs) t) refs = []"
  by (auto simp: Diff_def stored_set filter_empty_conv)

lemma last_write_wins:
  "ready s t refs \<Longrightarrow> ready (record_refs s t refs) t refs' \<Longrightarrow>
   mset (stored (record_refs (record_refs s t refs) t refs') t) = mset refs'"
  by (simp add: stored_same)

text \<open>Two stages can be recorded in either order.\<close>

lemma writes_commute:
  assumes "t \<noteq> t'" "ready s t refs" "ready (record_refs s t refs) t' refs'"
    "ready s t' refs'" "ready (record_refs s t' refs') t refs"
  shows "mset (stored (record_refs (record_refs s t refs) t' refs') u) =
    mset (stored (record_refs (record_refs s t' refs') t refs) u)"
  using assms stored_same stored_other by (cases "u = t"; cases "u = t'") (metis, metis, metis, metis)

end

text \<open>The recorder provides it, on an API server that answers.\<close>

definition api_ok :: api where
  "api_ok c = None"

lemma api_up_ok [simp]: "api_up api_ok"
  by (simp add: api_up_def api_ok_def)

definition write_ready ::
  "(string \<Rightarrow> string) \<Rightarrow> int \<Rightarrow> Owner \<Rightarrow> shard_store \<Rightarrow> string \<Rightarrow> ObjectRef list \<Rightarrow> bool" where
  "write_ready h cap ss store stage refs \<longleftrightarrow>
     (case PlanShards refs (DefaultOr cap) of
        Inl _ \<Rightarrow> False
      | Inr shards \<Rightarrow> int (length shards) < 2 ^ 63 \<and> writable h ss stage (length shards) store) \<and>
     (\<forall>r\<in>set refs. wf_ref r)"

definition stored_of :: "Owner \<Rightarrow> shard_store \<Rightarrow> string \<Rightarrow> ObjectRef list" where
  "stored_of ss store stage =
     (case Stored api_ok store (own_Name ss) (own_Namespace ss) stage of
        Inr (refs, _) \<Rightarrow> refs | Inl _ \<Rightarrow> [])"

definition record_stage ::
  "(string \<Rightarrow> string) \<Rightarrow> int \<Rightarrow> Owner \<Rightarrow> int \<Rightarrow> shard_store \<Rightarrow> string \<Rightarrow> ObjectRef list \<Rightarrow> shard_store" where
  "record_stage h cap ss position store stage refs =
     fst (Write h api_ok cap ss stage position refs store)"

lemma Write_ready:
  assumes "write_ready h cap ss store stage refs"
  obtains store' rs where "Write h api_ok cap ss stage p refs store = (store', None)"
    and "distinct (map si_key store')"
    and "Stored api_ok store' (own_Name ss) (own_Namespace ss) stage = Inr (rs, 0)"
    and "mset rs = mset refs"
    and "filter (\<lambda>x. \<not> of_stage ss stage x) store' = filter (\<lambda>x. \<not> of_stage ss stage x) store"
proof -
  from assms obtain shards where "PlanShards refs (DefaultOr cap) = Inr shards"
    "int (length shards) < 2 ^ 63" "writable h ss stage (length shards) store"
    "\<forall>r\<in>set refs. wf_ref r"
    by (auto simp: write_ready_def split: sum.splits)
  then show thesis using Write_Stored [OF api_up_ok, of refs cap shards h ss stage store p] that by blast
qed

text \<open>Two stages' selectors never match one object.\<close>

lemma other_selector:
  "(ns, ssName, stage') \<noteq> (own_Namespace ss, own_Name ss, stage) \<Longrightarrow>
   matches ns (stage_selector ssName stage') x \<Longrightarrow> \<not> of_stage ss stage x"
  by (auto simp: matches_def stage_selector_def)

lemma filter_other_selector:
  assumes "(ns, ssName, stage') \<noteq> (own_Namespace ss, own_Name ss, stage)"
    and "filter (\<lambda>x. \<not> of_stage ss stage x) store' = filter (\<lambda>x. \<not> of_stage ss stage x) store"
  shows "filter (matches ns (stage_selector ssName stage')) store' =
    filter (matches ns (stage_selector ssName stage')) store"
proof -
  let ?P = "matches ns (stage_selector ssName stage')"
  have "filter ?P s = filter ?P (filter (\<lambda>x. \<not> of_stage ss stage x) s)" for s
    unfolding filter_filter using other_selector [OF assms(1)] by (intro filter_cong) auto
  then show ?thesis using assms(2) by metis
qed

interpretation shards: inventory_store
  "write_ready h cap ss" "stored_of ss" "record_stage h cap ss p" for h cap ss p
proof
  fix store stage refs
  assume "write_ready h cap ss store stage refs"
  then show "mset (stored_of ss (record_stage h cap ss p store stage refs) stage) = mset refs"
    by (rule Write_ready [where p = p]) (simp add: record_stage_def stored_of_def)
next
  fix store stage refs stage'
  assume r: "write_ready h cap ss store stage refs" and n: "stage' \<noteq> stage"
  from r obtain store' where "record_stage h cap ss p store stage refs = store'"
    "filter (\<lambda>x. \<not> of_stage ss stage x) store' = filter (\<lambda>x. \<not> of_stage ss stage x) store"
    by (rule Write_ready [where p = p]) (simp add: record_stage_def)
  then show "stored_of ss (record_stage h cap ss p store stage refs) stage' = stored_of ss store stage'"
    using n filter_other_selector [of "own_Namespace ss" "own_Name ss" stage' ss stage store' store]
    by (simp add: stored_of_def Stored_eq)
qed

section \<open>Properties\<close>

definition demo_owner :: Owner where
  "demo_owner = \<lparr>own_Name = ''web'', own_Namespace = ''prod'', own_UID = ''u1''\<rparr>"

text \<open>A stand-in for the hash that keeps enough of its input apart.\<close>

definition demo_hash :: "string \<Rightarrow> string" where
  "demo_hash s = rev s @ replicate 10 (CHR ''0'')"

definition demo_store :: shard_store where
  "demo_store = fst (Write demo_hash api_ok 1 demo_owner ''db'' 0 [demo_ref ''x'' ''v1'']
     (fst (Write demo_hash api_ok 1 demo_owner ''app'' 1
        [demo_ref ''a'' ''v1'', demo_ref ''b'' ''v1'', demo_ref ''c'' ''v1''] [])))"

text \<open>C34: recording then reading. On an API server that answers, in a store the write may use,
  \<open>Write\<close> succeeds; reading the stage back gives exactly the recorded references and skips nothing,
  however many shards there were before; and what every other stage of every StageSet reads is
  unchanged.\<close>

theorem Stored_after_Write:
  assumes "write_ready h cap ss store stage refs"
  shows "\<exists>store' rs. Write h api_ok cap ss stage p refs store = (store', None) \<and>
    Stored api_ok store' (own_Name ss) (own_Namespace ss) stage = Inr (rs, 0) \<and> mset rs = mset refs \<and>
    (\<forall>ns ssName stage'. (ns, ssName, stage') \<noteq> (own_Namespace ss, own_Name ss, stage) \<longrightarrow>
       Stored api_ok store' ssName ns stage' = Stored api_ok store ssName ns stage')"
proof -
  obtain store' rs where w: "Write h api_ok cap ss stage p refs store = (store', None)"
    "Stored api_ok store' (own_Name ss) (own_Namespace ss) stage = Inr (rs, 0)" "mset rs = mset refs"
    and fr: "filter (\<lambda>x. \<not> of_stage ss stage x) store' = filter (\<lambda>x. \<not> of_stage ss stage x) store"
    using Write_ready [OF assms] by metis
  have "Stored api_ok store' ssName ns stage' = Stored api_ok store ssName ns stage'"
    if "(ns, ssName, stage') \<noteq> (own_Namespace ss, own_Name ss, stage)" for ns ssName stage'
    unfolding Stored_eq [OF api_up_ok] filter_other_selector [OF that fr] ..
  with w show ?thesis by blast
qed

theorem Stored_after_Write_witness:
  "write_ready demo_hash 1 demo_owner demo_store ''app'' [demo_ref ''b'' ''v1''] \<and>
   (\<exists>store' rs. Write demo_hash api_ok 1 demo_owner ''app'' 1 [demo_ref ''b'' ''v1''] demo_store = (store', None) \<and>
      Stored api_ok store' ''web'' ''prod'' ''app'' = Inr (rs, 0) \<and> mset rs = {#demo_ref ''b'' ''v1''#})"
proof -
  have r: "write_ready demo_hash 1 demo_owner demo_store ''app'' [demo_ref ''b'' ''v1'']"
    by code_simp
  have o: "own_Name demo_owner = ''web''" "own_Namespace demo_owner = ''prod''"
    by (simp_all add: demo_owner_def)
  show ?thesis
    using r Stored_after_Write [OF r, of 1] unfolding o by (metis mset_single_iff_right)
qed

text \<open>A failing write stays inside its stage. Whichever calls fail, and however far the write
  got, every object that is neither labelled with the stage nor holds the name of a shard to be
  written is exactly as before.\<close>

theorem Write_frame:
  assumes "distinct (map si_key store)" and "PlanShards refs (DefaultOr cap) = Inr shards"
    and "x \<in> set store" and "\<not> of_stage ss stage x"
    and "si_key x \<notin> set (shard_keys h ss stage 0 (length shards))"
  shows "x \<in> set (fst (Write h api cap ss stage p refs store))"
proof -
  let ?P = "\<lambda>x. \<not> of_stage ss stage x \<and> si_key x \<notin> set (shard_keys h ss stage 0 (length shards))"
  have eq: "filter ?P (fst (Write h api cap ss stage p refs store)) = filter ?P store"
    using Write_frame_lemma [OF assms(1,2), of ?P] by blast
  have "x \<in> set (filter ?P store)" using assms(3-5) by simp
  then have "x \<in> set (filter ?P (fst (Write h api cap ss stage p refs store)))" unfolding eq .
  then show ?thesis by (rule filter_is_subset [THEN subsetD])
qed

definition failing_put :: api where
  "failing_put c = (case c of PutShard ns n \<Rightarrow> Some (ApiFailure ''timeout'') | _ \<Rightarrow> None)"

lemma demo_store_last:
  "length demo_store = 4 \<and> distinct (map si_key demo_store) \<and> \<not> of_stage demo_owner ''app'' (demo_store ! 3) \<and>
   PlanShards [demo_ref ''b'' ''v1''] (DefaultOr 1) = Inr [[demo_ref ''b'' ''v1'']] \<and>
   si_key (demo_store ! 3) \<notin> set (shard_keys demo_hash demo_owner ''app'' 0 1)"
  by code_simp

theorem Write_frame_witness:
  "demo_store ! 3 \<in>
     set (fst (Write demo_hash failing_put 1 demo_owner ''app'' 1 [demo_ref ''b'' ''v1''] demo_store))"
proof (rule Write_frame)
  show "demo_store ! 3 \<in> set demo_store" using demo_store_last by (simp add: nth_mem)
  show "PlanShards [demo_ref ''b'' ''v1''] (DefaultOr 1) = Inr [[demo_ref ''b'' ''v1'']]"
    using demo_store_last by blast
qed (use demo_store_last in simp_all)

text \<open>The two readers agree. For every stage, what \<open>StageRecords\<close> collects under its name is
  what \<open>Stored\<close> returns for it, in the same order; a stage without shards has no record.\<close>

theorem StageRecords_Stored:
  assumes "stage \<noteq> []" and "StageRecords api_ok store ssName ns = Inr records"
    and "Stored api_ok store ssName ns stage = Inr (refs, n)"
  shows "(case records stage of Some r \<Rightarrow> sr_Refs r = refs | None \<Rightarrow> refs = [])"
proof -
  let ?items = "filter (matches ns (stage_selector ssName stage)) store"
  have "records stage = (if ?items = [] then None
      else Some \<lparr>sr_Position = si_StagePosition (last ?items), sr_Refs = stored_refs ?items\<rparr>)"
    using assms(2) filter_stage_selector [OF assms(1), of ns ssName store]
    by (auto simp: StageRecords_def list_shards_def api_ok_def record_steps)
  moreover have "refs = stored_refs ?items"
    using assms(3) by (simp add: Stored_eq)
  ultimately show ?thesis by auto
qed

theorem StageRecords_Stored_witness:
  "\<exists>records refs n. StageRecords api_ok demo_store ''web'' ''prod'' = Inr records \<and>
     Stored api_ok demo_store ''web'' ''prod'' ''app'' = Inr (refs, n) \<and>
     (case records ''app'' of Some r \<Rightarrow> sr_Refs r = refs | None \<Rightarrow> refs = [])"
proof -
  obtain records where r: "StageRecords api_ok demo_store ''web'' ''prod'' = Inr records"
    by (simp add: StageRecords_def list_shards_def api_ok_def)
  obtain refs n where s: "Stored api_ok demo_store ''web'' ''prod'' ''app'' = Inr (refs, n)"
    by (simp add: Stored_eq)
  have "(case records ''app'' of Some r \<Rightarrow> sr_Refs r = refs | None \<Rightarrow> refs = [])"
    by (rule StageRecords_Stored [OF _ r s]) simp
  with r s show ?thesis by blast
qed

text \<open>Rebuilding a lost inventory. Every reference it recovers belongs to a listed live object
  that carries the StageSet's and the stage's labels; every such object of a kind that could be
  listed is recovered; and an error is reported exactly when some kind could not be listed.\<close>

theorem ReconstructFromCluster_exact:
  "(\<forall>i r. fst (ReconstructFromCluster listing gvks ssName ssNamespace stage) i = Some r \<longrightarrow>
      i = ID r \<and> (\<exists>g\<in>set gvks. \<exists>items. listing g = Inr items \<and> (\<exists>ob\<in>set items.
        has_labels (reconstruct_selector ssName ssNamespace stage) ob \<and> r = RefOf ob))) \<and>
   (\<forall>g\<in>set gvks. \<forall>items. listing g = Inr items \<longrightarrow> (\<forall>ob\<in>set items.
      has_labels (reconstruct_selector ssName ssNamespace stage) ob \<longrightarrow>
      ID (RefOf ob) \<in> dom (fst (ReconstructFromCluster listing gvks ssName ssNamespace stage)))) \<and>
   (snd (ReconstructFromCluster listing gvks ssName ssNamespace stage) = [] \<longleftrightarrow>
      (\<forall>g\<in>set gvks. \<exists>items. listing g = Inr items))"
proof (intro conjI)
  let ?sel = "reconstruct_selector ssName ssNamespace stage"
  show "\<forall>i r. fst (ReconstructFromCluster listing gvks ssName ssNamespace stage) i = Some r \<longrightarrow>
      i = ID r \<and> (\<exists>g\<in>set gvks. \<exists>items. listing g = Inr items \<and> (\<exists>ob\<in>set items.
        has_labels ?sel ob \<and> r = RefOf ob))"
    using reconstruct_sound [of listing ?sel gvks "(Map.empty, [])"]
    by (fastforce simp: ReconstructFromCluster_def)
  show "\<forall>g\<in>set gvks. \<forall>items. listing g = Inr items \<longrightarrow> (\<forall>ob\<in>set items. has_labels ?sel ob \<longrightarrow>
      ID (RefOf ob) \<in> dom (fst (ReconstructFromCluster listing gvks ssName ssNamespace stage)))"
    unfolding ReconstructFromCluster_def reconstruct_dom by blast
  have "((case listing g of Inl e \<Rightarrow> Some e | Inr _ \<Rightarrow> None) = None) = (\<exists>items. listing g = Inr items)" for g
    by (cases "listing g") auto
  moreover have "snd (ReconstructFromCluster listing gvks ssName ssNamespace stage) = [] \<longleftrightarrow>
      (\<forall>g\<in>set gvks. (case listing g of Inl e \<Rightarrow> Some e | Inr _ \<Rightarrow> None) = None)"
    unfolding ReconstructFromCluster_def reconstruct_errors
    by (induction gvks) (auto simp: List.map_filter_simps split: sum.split option.split)
  ultimately show "snd (ReconstructFromCluster listing gvks ssName ssNamespace stage) = [] \<longleftrightarrow>
      (\<forall>g\<in>set gvks. \<exists>items. listing g = Inr items)"
    by simp
qed

theorem ReconstructFromCluster_exact_witness:
  "snd (ReconstructFromCluster (\<lambda>g. Inl ''forbidden'') [([], ''v1'', ''Pod'')] ''web'' ''prod'' ''app'') \<noteq> []"
  using ReconstructFromCluster_exact [of "\<lambda>g. Inl ''forbidden''" "[([], ''v1'', ''Pod'')]"
      "''web''" "''prod''" "''app''"] by simp

end
