(* ===== verification/Types.thy ===== *)
theory Types
  imports Prelude
begin

text \<open>
  The API types of \<open>api/v1\<close>: one record per struct, in the source's order and with the source's field
  names (a short prefix keeps them apart), one \<open>datatype\<close> per enumeration, and the methods the types
  carry. A pointer is an \<open>option\<close>, a slice a list, a map a partial function. Times and durations are
  nanoseconds (\<open>int\<close>). Values whose content the controller hands to a library untouched (label
  selectors, kustomize patches, kubeconfig references) are opaque strings.
\<close>

section \<open>Shared field types\<close>

type_synonym instant = int
type_synonym duration = int
type_synonym label_selector = string
type_synonym kustomize_patch = string

definition Second :: duration where
  "Second = 1000000000"

definition Minute :: duration where
  "Minute = 60 * Second"

definition Hour :: duration where
  "Hour = 60 * Minute"

record ObjectKindReference =
  okr_APIVersion :: string
  okr_Kind :: string
  okr_Name :: string
  okr_Namespace :: string

record SecretKeyReference =
  skr_Name :: string
  skr_Key :: string

record SourceReference =
  src_APIVersion :: string
  src_Kind :: string
  src_Name :: string
  src_Namespace :: string

section \<open>Metric sources (metricsource_types.go)\<close>

record WebhookSource =
  whs_URL :: string
  whs_JSONPath :: string
  whs_SecretRef :: "string option"

record PrometheusSource =
  prs_Address :: string
  prs_Query :: string
  prs_SecretRef :: "string option"

record MetricSource =
  ms_Prometheus :: "PrometheusSource option"
  ms_Webhook :: "WebhookSource option"

record Threshold =
  thr_Min :: "string option"
  thr_Max :: "string option"

section \<open>Actions (stageset_types.go)\<close>

datatype ActionScope = ScopeUnset | ScopeRevision | ScopeVersion | ScopeLifetime

record PatchTarget =
  pt_APIVersion :: string
  pt_Kind :: string
  pt_Namespace :: string
  pt_Name :: string
  pt_Selector :: "label_selector option"

record PatchAction =
  pa_Target :: PatchTarget
  pa_Type :: string
  pa_Patch :: string

record HTTPAction =
  ha_URL :: string
  ha_Method :: string
  ha_Body :: string
  ha_BodyFrom :: "SecretKeyReference option"
  ha_HeadersFrom :: "SecretKeyReference list"
  ha_ExpectedStatus :: "int list"

record WaitAction =
  wa_Duration :: "duration option"
  wa_Target :: "ObjectKindReference option"
  wa_Expr :: string
  wa_Timeout :: "duration option"

record JobAction =
  ja_SourceRef :: SourceReference
  ja_Path :: string

record DeleteAction =
  da_Target :: ObjectKindReference
  da_Cascade :: string

record ApplyAction =
  aa_SourceRef :: SourceReference
  aa_Path :: string
  aa_Wait :: bool

record CompletionAnchor =
  ca_APIVersion :: string
  ca_Kind :: string
  ca_Name :: string

record Action =
  act_Name :: string
  act_Scope :: ActionScope
  act_Timeout :: "duration option"
  act_Retries :: "int option"
  act_Patch :: "PatchAction option"
  act_HTTP :: "HTTPAction option"
  act_Wait :: "WaitAction option"
  act_Job :: "JobAction option"
  act_Delete :: "DeleteAction option"
  act_Apply :: "ApplyAction option"
  act_CompletionAnchor :: "CompletionAnchor option"

definition EffectiveScope :: "Action \<Rightarrow> ActionScope" where
  "EffectiveScope a = (if act_Scope a = ScopeUnset then ScopeRevision else act_Scope a)"

definition Verb :: "Action \<Rightarrow> string" where
  "Verb a =
     (if act_Patch a \<noteq> None then ''patch''
      else if act_HTTP a \<noteq> None then ''http''
      else if act_Wait a \<noteq> None then ''wait''
      else if act_Job a \<noteq> None then ''job''
      else if act_Delete a \<noteq> None then ''delete''
      else if act_Apply a \<noteq> None then ''apply''
      else ''action'')"

definition VerbCount :: "Action \<Rightarrow> nat" where
  "VerbCount a =
     length (filter (\<lambda>set. set)
       [act_Patch a \<noteq> None, act_HTTP a \<noteq> None, act_Wait a \<noteq> None, act_Job a \<noteq> None,
        act_Delete a \<noteq> None, act_Apply a \<noteq> None])"

record StageActions =
  sact_Pre :: "Action list"
  sact_Post :: "Action list"
  sact_OnFailure :: "Action list"

section \<open>Promotion\<close>

record RestartCheck =
  rc_Name :: string
  rc_Selector :: label_selector
  rc_MaxRestarts :: int
  rc_OnFailure :: string

record RestartGate =
  rg_OnFailure :: string
  rg_Checks :: "RestartCheck list"

record EventCheck =
  ec_Name :: string
  ec_Selector :: label_selector
  ec_Reasons :: "string list"
  ec_MaxEvents :: int
  ec_OnFailure :: string

record EventGate =
  eg_OnFailure :: string
  eg_Checks :: "EventCheck list"

record FastTrack =
  ft_Source :: MetricSource
  ft_Max :: string
  ft_After :: "duration option"

record AnalysisCheck =
  ac_Name :: string
  ac_Source :: MetricSource
  ac_Threshold :: Threshold

record PromotionAnalysis =
  an_Checks :: "AnalysisCheck list"
  an_Interval :: "duration option"
  an_FailureLimit :: "int option"
  an_OnFailure :: string
  an_OnSourceError :: string
  an_DryRun :: bool

record StagePromotion =
  prm_Soak :: "duration option"
  prm_RequireManualPromotion :: bool
  prm_Analysis :: "PromotionAnalysis option"
  prm_FastTrack :: "FastTrack option"
  prm_RestartGate :: "RestartGate option"
  prm_EventGate :: "EventGate option"

record ErrorBudget =
  eb_Source :: MetricSource
  eb_FreezeThreshold :: string
  eb_ResumeThreshold :: string
  eb_OnSourceError :: string
  eb_Interval :: "duration option"
  eb_DryRun :: bool

section \<open>Stages\<close>

record ConflictTarget =
  ct_APIVersion :: string
  ct_Kind :: string
  ct_Name :: string
  ct_Namespace :: string

record ConflictRule =
  cr_Target :: ConflictTarget
  cr_Action :: string
  cr_AllowDataLoss :: bool

record ConflictPolicy =
  cp_Default :: string
  cp_Rules :: "ConflictRule list"

record CustomHealthCheck =
  chc_APIVersion :: string
  chc_Kind :: string
  chc_Current :: string
  chc_InProgress :: string
  chc_Failed :: string

record ReadyChecks =
  rdy_Timeout :: "duration option"
  rdy_DisableWait :: bool
  rdy_Checks :: "ObjectKindReference list"
  rdy_Exprs :: "CustomHealthCheck list"

record SubstituteReference =
  sub_Kind :: string
  sub_Name :: string
  sub_Optional :: bool

text \<open>Inline values are kept as the list of their pairs, since they are enumerated.\<close>

record PostBuild =
  pb_Substitute :: "(string \<times> string) list"
  pb_SubstituteFrom :: "SubstituteReference list"

record Stage =
  stg_Name :: string
  stg_MigrationAnchor :: string
  stg_SourceRef :: SourceReference
  stg_Path :: string
  stg_ServiceAccountName :: string
  stg_Prune :: "bool option"
  stg_Timeout :: "duration option"
  stg_OnTimeout :: string
  stg_Force :: bool
  stg_ConflictPolicy :: "ConflictPolicy option"
  stg_ApplyHelmHookResources :: "bool option"
  stg_Patches :: "kustomize_patch list"
  stg_PostBuild :: "PostBuild option"
  stg_Actions :: "StageActions option"
  stg_ReadyChecks :: "ReadyChecks option"
  stg_Promotion :: "StagePromotion option"
  stg_ErrorBudget :: "ErrorBudget option"

section \<open>Versions, migrations and windows\<close>

record ObjectVersionRef =
  ovr_Stage :: string
  ovr_Kind :: string
  ovr_Name :: string
  ovr_APIVersion :: string
  ovr_FieldPath :: string

record ArtifactVersionRef =
  avr_Stage :: string
  avr_Path :: string

datatype ApprovalMode = ApprovalUnset | ApprovalNever | ApprovalOnMigrations | ApprovalAlways

record VersionSource =
  vs_FromArtifact :: "ArtifactVersionRef option"
  vs_FromObject :: "ObjectVersionRef option"
  vs_Value :: string
  vs_RequireMigrationCoverage :: bool
  vs_ApprovalMode :: ApprovalMode
  vs_AllowDowngrade :: bool

record Migration =
  mig_Name :: string
  mig_To :: string
  mig_From :: string
  mig_Stage :: string
  mig_Actions :: "Action list"
  mig_Down :: "Action list"

record MigrationsSource =
  msrc_SourceRef :: SourceReference
  msrc_Path :: string

record PendingMigration =
  pm_Name :: string
  pm_To :: string
  pm_From :: string
  pm_Stage :: string
  pm_Actions :: "string list"
  pm_Digest :: string

record UpdateWindow =
  uw_Type :: string
  uw_Schedule :: string
  uw_Duration :: "duration option"
  uw_TimeZone :: string
  uw_From :: "instant option"
  uw_To :: "instant option"

record Dependency =
  dep_Name :: string
  dep_Namespace :: string
  dep_MinVersion :: string

text \<open>A Flux kubeconfig reference: the name and key of a Secret, or the name of a ConfigMap.\<close>

record KubeConfigReference =
  kc_SecretRef :: "(string \<times> string) option"
  kc_ConfigMapRef :: "string option"

record Decryption =
  dec_Provider :: string
  dec_SecretRef :: "string option"

record StageSetSpec =
  spec_Interval :: duration
  spec_RetryInterval :: "duration option"
  spec_DriftDetectionInterval :: "duration option"
  spec_Timeout :: "duration option"
  spec_OnTimeout :: string
  spec_Suspend :: bool
  spec_DependsOn :: "Dependency list"
  spec_ServiceAccountName :: string
  spec_KubeConfig :: "KubeConfigReference option"
  spec_Decryption :: "Decryption option"
  spec_Version :: "VersionSource option"
  spec_Migrations :: "Migration list"
  spec_MigrationsSourceRef :: "MigrationsSource option"
  spec_RollbackOnFailure :: bool
  spec_OnRollback :: "Action list"
  spec_UpdateWindows :: "UpdateWindow list"
  spec_WindowScope :: string
  spec_ErrorBudget :: "ErrorBudget option"
  spec_Stages :: "Stage list"

section \<open>Status\<close>

record BudgetFreeze =
  bf_Remaining :: string
  bf_FreezeThreshold :: string
  bf_ResumeThreshold :: string
  bf_Since :: "instant option"
  bf_DryRun :: bool

record PendingUpdate =
  pu_Revisions :: "string \<rightharpoonup> string"
  pu_NextWindowOpens :: "instant option"

record StageArtifactRef =
  sar_Stage :: string
  sar_URL :: string
  sar_Digest :: string
  sar_Revision :: string
  sar_SubstitutionDigest :: string

record AnalysisCheckResult =
  acr_Name :: string
  acr_Value :: string
  acr_OK :: bool
  acr_Error :: string

record AnalysisResult =
  ar_Time :: "instant option"
  ar_Passed :: bool
  ar_Checks :: "AnalysisCheckResult list"

record RestartCheckBaseline =
  rcb_Name :: string
  rcb_Restarts :: int

datatype PromotionPhase = PromotionSoaking | PromotionAnalyzing | PromotionBlocked | PromotionAwaitingManual | PromotionPromoted

record PromotionState =
  ps_Phase :: PromotionPhase
  ps_Since :: "instant option"
  ps_SoakUntil :: "instant option"
  ps_AnalysisFailures :: int
  ps_RestartCheck :: string
  ps_ObservedRestarts :: int
  ps_RestartBaseline :: "RestartCheckBaseline list"
  ps_EventCheck :: string
  ps_ObservedEvents :: int
  ps_AbortedRevision :: string
  ps_LastAnalysis :: "AnalysisResult option"

datatype StagePhase = StagePending | StageApplying | StagePruning | StageVerifying | StageReady | StageFailed

record StageStatus =
  ss_Name :: string
  ss_Phase :: StagePhase
  ss_AppliedRevision :: string
  ss_EntriesCount :: int
  ss_Shards :: int
  ss_Message :: string
  ss_ExecutedActions :: "string list"
  ss_LedgerRevision :: string
  ss_ExecutedVersionActions :: "string list"
  ss_LedgerVersion :: string
  ss_LastHandledReconcileAt :: string
  ss_PromotionState :: "PromotionState option"
  ss_LastHandledPromotion :: string
  ss_BudgetFreeze :: "BudgetFreeze option"

section \<open>Stage ledger (stageledger_types.go)\<close>

datatype LedgerOrigin = OriginExecuted | OriginBaselined

record LedgerRef =
  lr_Stage :: string
  lr_Action :: string

record AnchorWitness =
  aw_APIVersion :: string
  aw_Kind :: string
  aw_Name :: string
  aw_UID :: string

record LedgerCompletion =
  lc_Stage :: string
  lc_Action :: string
  lc_Origin :: LedgerOrigin
  lc_Digest :: string
  lc_Anchor :: "AnchorWitness option"
  lc_CompletedAt :: instant

definition IsCompleted :: "LedgerCompletion list \<Rightarrow> string \<Rightarrow> string \<Rightarrow> bool" where
  "IsCompleted completed stage action =
     list_ex (\<lambda>c. lc_Stage c = stage \<and> lc_Action c = action) completed"

lemma IsCompleted_iff:
  "IsCompleted cs stage action \<longleftrightarrow> (stage, action) \<in> (\<lambda>c. (lc_Stage c, lc_Action c)) ` set cs"
  by (auto simp: IsCompleted_def list_ex_iff)

lemma VerbCount_le: "VerbCount a \<le> 6"
  by (simp add: VerbCount_def)

text \<open>Exactly one verb is set when the count is one; the verb \<open>Verb\<close> names is then that one.\<close>

lemma VerbCount_zero: "VerbCount a = 0 \<longleftrightarrow> Verb a = ''action''"
  by (simp add: VerbCount_def Verb_def)

end
