(* ===== verification/PruneCycle.thy ===== *)
theory PruneCycle
  imports StageInv Types
begin

text \<open>
  The inventory side of one reconcile (\<open>internal/controller/stageset_controller.go\<close>): the inventories
  recorded so far are read, each stage is applied and its inventory rewritten (\<open>RECORD\<close>, before the
  stage is verified), and only a pass that got through every stage goes on to the cross-stage prune.

  The world is the cluster's objects, by identifier, and the recorded inventories as \<open>StageRecords\<close>
  groups them, in the order Go's map iteration happens to give. How each stage of a pass ends is an
  input (\<open>outcome\<close>), and so is which deletion calls fail.
\<close>

section \<open>State\<close>

record LiveInfo =
  li_Owned :: bool
  li_PruneDisabled :: bool

record world =
  live :: "string \<rightharpoonup> LiveInfo"
  recs :: "StageRecord list"

text \<open>
  Where a stage of the pass ends: held or failed before the apply, failed during it after some
  objects, failed while writing the inventory (which then holds some entries), stopped after it (a
  readiness failure, a failed post action, a promotion or gate hold), or passed.
\<close>

datatype outcome =
    StopsBeforeApply
  | ApplyFails nat
  | WriteFails "ObjectRef list"
  | StopsAfterWrite
  | Advances

record StageRun =
  run_Stage :: string
  run_Prune :: "bool option"
  run_Objects :: "(ObjectRef \<times> bool) list"
  run_PriorApplied :: bool
  run_Recovered :: "ObjectRef list"
  run_Outcome :: outcome

datatype pass_result = Completed | Stopped | AmbiguousSpec | PruneFailed | PruneDeferred

section \<open>Operations\<close>

definition stagePrune :: "bool option \<Rightarrow> bool" where
  "stagePrune p = (case p of None \<Rightarrow> True | Some b \<Rightarrow> b)"

definition stagePruneByName :: "StageRun list \<Rightarrow> (string \<rightharpoonup> bool)" where
  "stagePruneByName runs = map_of_last (map (\<lambda>r. (run_Stage r, stagePrune (run_Prune r))) runs)"

definition union_add :: "ObjectRef \<Rightarrow> string list \<times> ObjectRef list \<Rightarrow> string list \<times> ObjectRef list" where
  "union_add ref acc =
     (if ID ref \<in> set (fst acc) then acc else (fst acc @ [ID ref], snd acc @ [ref]))"

definition unionRefs :: "ObjectRef list \<Rightarrow> ObjectRef list \<Rightarrow> ObjectRef list" where
  "unionRefs a b = snd (fold union_add b (fold union_add a ([], [])))"

text \<open>\<open>Applier.Apply\<close>: the objects exist with the owner labels; the flag is the prune opt-out
  annotation of the rendered object.\<close>

definition apply_objects ::
  "(ObjectRef \<times> bool) list \<Rightarrow> (string \<rightharpoonup> LiveInfo) \<Rightarrow> (string \<rightharpoonup> LiveInfo)" where
  "apply_objects objs l =
     fold (\<lambda>(ref, dis) m. m(ID ref \<mapsto> \<lparr>li_Owned = True, li_PruneDisabled = dis\<rparr>)) objs l"

text \<open>\<open>Applier.Delete\<close>: only objects that still carry the owner labels and are not opted out.\<close>

definition delete_refs ::
  "ObjectRef list \<Rightarrow> (string \<rightharpoonup> LiveInfo) \<Rightarrow> (string \<rightharpoonup> LiveInfo)" where
  "delete_refs refs l i =
     (case l i of
        None \<Rightarrow> None
      | Some ob \<Rightarrow> if i \<in> entry_ids refs \<and> li_Owned ob \<and> \<not> li_PruneDisabled ob then None else Some ob)"

definition record_refs :: "string \<Rightarrow> int \<Rightarrow> ObjectRef list \<Rightarrow> StageRecord list \<Rightarrow> StageRecord list" where
  "record_refs name position refs rs =
     (let new = \<lparr>rec_Name = name, rec_Position = position, rec_Entries = refs\<rparr> in
      if name \<in> rec_Name ` set rs then map (\<lambda>r. if rec_Name r = name then new else r) rs
      else rs @ [new])"

definition needs_reconstruct :: "StageRecord list \<Rightarrow> StageRun \<Rightarrow> bool" where
  "needs_reconstruct previous r \<longleftrightarrow> run_Stage r \<notin> rec_Name ` set previous \<and> run_PriorApplied r"

definition write_refs :: "StageRecord list \<Rightarrow> StageRun \<Rightarrow> ObjectRef list" where
  "write_refs previous r =
     (let newRefs = map fst (run_Objects r) in
      if needs_reconstruct previous r then unionRefs newRefs (run_Recovered r) else newRefs)"

text \<open>APPLY and RECORD of one stage.\<close>

definition apply_and_record :: "StageRecord list \<Rightarrow> nat \<Rightarrow> StageRun \<Rightarrow> world \<Rightarrow> world" where
  "apply_and_record previous i r w =
     w\<lparr>live := apply_objects (run_Objects r) (live w),
       recs := record_refs (run_Stage r) (int i) (write_refs previous r) (recs w)\<rparr>"

fun stage_loop ::
  "StageRecord list \<Rightarrow> nat \<Rightarrow> StageRun list \<Rightarrow> world \<Rightarrow> StageRecord list \<Rightarrow> bool
   \<Rightarrow> world \<times> StageRecord list \<times> bool \<times> bool" where
  "stage_loop previous i [] w desired reconstructed = (w, desired, reconstructed, False)"
| "stage_loop previous i (r # runs) w desired reconstructed =
     (case run_Outcome r of
        StopsBeforeApply \<Rightarrow> (w, desired, reconstructed, True)
      | ApplyFails n \<Rightarrow>
          (w\<lparr>live := apply_objects (take n (run_Objects r)) (live w)\<rparr>, desired, reconstructed, True)
      | WriteFails left \<Rightarrow>
          (w\<lparr>live := apply_objects (run_Objects r) (live w),
             recs := record_refs (run_Stage r) (int i) left (recs w)\<rparr>, desired, reconstructed, True)
      | StopsAfterWrite \<Rightarrow> (apply_and_record previous i r w, desired, reconstructed, True)
      | Advances \<Rightarrow>
          stage_loop previous (Suc i) runs (apply_and_record previous i r w)
            (desired @ [\<lparr>rec_Name = run_Stage r, rec_Position = int i,
                         rec_Entries = map fst (run_Objects r)\<rparr>])
            (reconstructed \<or> needs_reconstruct previous r))"

fun prune_stages ::
  "(string \<Rightarrow> bool) \<Rightarrow> (string \<rightharpoonup> bool) \<Rightarrow> (string \<times> ObjectRef list) list \<Rightarrow> world \<Rightarrow> world \<times> bool" where
  "prune_stages fails prunes [] w = (w, True)"
| "prune_stages fails prunes ((name, refs) # rest) w =
     (if prunes name = Some False then prune_stages fails prunes rest w
      else if refs = [] then prune_stages fails prunes rest w
      else if fails name then (w, False)
      else prune_stages fails prunes rest (w\<lparr>live := delete_refs refs (live w)\<rparr>))"

fun teardown_removed ::
  "(string \<Rightarrow> bool) \<Rightarrow> (string \<Rightarrow> bool) \<Rightarrow> StageRecord list \<Rightarrow> world \<Rightarrow> world \<times> bool" where
  "teardown_removed fails drop_fails [] w = (w, True)"
| "teardown_removed fails drop_fails (r # rest) w =
     (if rec_Entries r \<noteq> [] \<and> fails (rec_Name r) then (w, False)
      else let w1 = (if rec_Entries r \<noteq> [] then w\<lparr>live := delete_refs (rec_Entries r) (live w)\<rparr> else w)
      in if drop_fails (rec_Name r) then (w1, False)
      else teardown_removed fails drop_fails rest
             (w1\<lparr>recs := filter (\<lambda>s. rec_Name s \<noteq> rec_Name r) (recs w1)\<rparr>))"

text \<open>The prune sets of a plan, in the order the previous records come in.\<close>

definition prune_sets :: "StageRecord list \<Rightarrow> Plan \<Rightarrow> (string \<times> ObjectRef list) list" where
  "prune_sets previous plan =
     List.map_filter (\<lambda>p. map_option (Pair (rec_Name p)) (PrunePerStage plan (rec_Name p))) previous"

definition reconcile_pass ::
  "(string \<Rightarrow> bool) \<Rightarrow> (string \<Rightarrow> bool) \<Rightarrow> StageRun list \<Rightarrow> world \<Rightarrow> world \<times> pass_result" where
  "reconcile_pass fails drop_fails runs w =
     (let previous = recs w;
          (w1, desired, reconstructed, stopped) = stage_loop previous 0 runs w [] False
      in if stopped then (w1, Stopped)
      else if \<exists>i\<in>claimed_ids desired. DuplicateClaims desired i \<noteq> None then (w1, AmbiguousSpec)
      else let plan = ComputePlan previous desired in
        if reconstructed then (w1, PruneDeferred)
        else let (w2, ok) = prune_stages fails (stagePruneByName runs) (prune_sets previous plan) w1 in
          if \<not> ok then (w2, PruneFailed)
          else let (w3, ok') = teardown_removed fails drop_fails (RemovedStages plan) w2 in
            if \<not> ok' then (w3, PruneFailed) else (w3, Completed))"

section \<open>What is tracked\<close>

definition tracked :: "world \<Rightarrow> string set" where
  "tracked w = claimed_ids (recs w)"

definition prunable :: "world \<Rightarrow> string \<Rightarrow> bool" where
  "prunable w i \<longleftrightarrow> (case live w i of Some ob \<Rightarrow> li_Owned ob \<and> \<not> li_PruneDisabled ob | None \<Rightarrow> False)"

definition no_orphans :: "world \<Rightarrow> bool" where
  "no_orphans w \<longleftrightarrow> (\<forall>i. prunable w i \<longrightarrow> i \<in> tracked w)"

definition rendered_ids :: "StageRun \<Rightarrow> string set" where
  "rendered_ids r = entry_ids (map fst (run_Objects r))"

text \<open>Identifiers a run can put into an inventory.\<close>

definition mentioned_ids :: "StageRun \<Rightarrow> string set" where
  "mentioned_ids r = rendered_ids r \<union> entry_ids (run_Recovered r) \<union>
     (case run_Outcome r of WriteFails left \<Rightarrow> entry_ids left | _ \<Rightarrow> {})"

section \<open>Facts about the operations\<close>

lemma entry_ids_append [simp]: "entry_ids (a @ b) = entry_ids a \<union> entry_ids b"
  by (auto simp: entry_ids_def)

lemma entry_ids_Cons [simp]: "entry_ids (r # rs) = insert (ID r) (entry_ids rs)"
  by (simp add: entry_ids_def)

lemma entry_ids_Nil [simp]: "entry_ids [] = {}"
  by (simp add: entry_ids_def)

lemma fold_union_add:
  "set (fst acc) = entry_ids (snd acc) \<Longrightarrow>
   set (fst (fold union_add rs acc)) = entry_ids (snd (fold union_add rs acc)) \<and>
   entry_ids (snd (fold union_add rs acc)) = entry_ids (snd acc) \<union> entry_ids rs"
proof (induction rs arbitrary: acc)
  case (Cons r rs)
  have "set (fst (union_add r acc)) = entry_ids (snd (union_add r acc))"
    "entry_ids (snd (union_add r acc)) = insert (ID r) (entry_ids (snd acc))"
    using Cons.prems by (auto simp: union_add_def)
  with Cons.IH [of "union_add r acc"] show ?case by simp
qed simp

lemma entry_ids_unionRefs [simp]: "entry_ids (unionRefs a b) = entry_ids a \<union> entry_ids b"
  using fold_union_add [of "([], [])" a] fold_union_add [of "fold union_add a ([], [])" b]
  by (simp add: unionRefs_def)

lemma apply_objects_other [frame_simps]:
  "i \<notin> entry_ids (map fst objs) \<Longrightarrow> apply_objects objs l i = l i"
  unfolding apply_objects_def by (induction objs arbitrary: l) auto

lemma apply_objects_same:
  "i \<in> entry_ids (map fst objs) \<Longrightarrow>
   \<exists>dis. apply_objects objs l i = Some \<lparr>li_Owned = True, li_PruneDisabled = dis\<rparr>"
proof (induction objs arbitrary: l rule: rev_induct)
  case (snoc x objs)
  then show ?case by (cases x) (auto simp: apply_objects_def)
qed simp

lemma delete_refs_cases:
  "delete_refs refs l i = l i \<or>
   (delete_refs refs l i = None \<and> i \<in> entry_ids refs \<and>
     (\<exists>ob. l i = Some ob \<and> li_Owned ob \<and> \<not> li_PruneDisabled ob))"
  by (auto simp: delete_refs_def split: option.split)

definition entries_of :: "StageRecord list \<Rightarrow> string \<Rightarrow> string set" where
  "entries_of rs n = claimed_ids (filter (\<lambda>s. rec_Name s = n) rs)"

lemma claimed_ids_entries_of: "i \<in> claimed_ids rs \<longleftrightarrow> (\<exists>n. i \<in> entries_of rs n)"
  by (auto simp: entries_of_def claimed_ids_iff)

lemma entries_of_iff:
  "i \<in> entries_of rs m \<longleftrightarrow> (\<exists>s\<in>set rs. rec_Name s = m \<and> i \<in> entry_ids (rec_Entries s))"
  by (auto simp: entries_of_def claimed_ids_iff)

lemma set_record_refs:
  "set (record_refs n p refs rs) =
     insert \<lparr>rec_Name = n, rec_Position = p, rec_Entries = refs\<rparr> {s \<in> set rs. rec_Name s \<noteq> n}"
  by (auto simp: record_refs_def Let_def image_iff)

lemma entries_of_record_refs [simp]:
  "entries_of (record_refs n p refs rs) m = (if m = n then entry_ids refs else entries_of rs m)"
  by (rule set_eqI) (simp add: entries_of_iff set_record_refs, blast)

lemma entry_ids_write_refs:
  "entry_ids (write_refs prev r) =
     rendered_ids r \<union> (if needs_reconstruct prev r then entry_ids (run_Recovered r) else {})"
  by (simp add: write_refs_def rendered_ids_def Let_def)

lemma apply_and_record_frame [frame_simps]:
  "i \<notin> rendered_ids r \<Longrightarrow> live (apply_and_record prev k r w) i = live w i"
  by (simp add: apply_and_record_def rendered_ids_def apply_objects_other)

lemma entries_of_apply_and_record [simp]:
  "entries_of (recs (apply_and_record prev k r w)) m =
     (if m = run_Stage r then entry_ids (write_refs prev r) else entries_of (recs w) m)"
  by (simp add: apply_and_record_def)

section \<open>The stage loop\<close>

lemma entry_ids_take: "entry_ids (map fst (take n objs)) \<subseteq> entry_ids (map fst objs)"
  by (auto simp: entry_ids_def dest: in_set_takeD)

text \<open>An object no stage renders is left alone by the loop.\<close>

lemma stage_loop_live:
  "(\<forall>r\<in>set runs. i \<notin> rendered_ids r) \<Longrightarrow>
   live (fst (stage_loop prev k runs w d rc)) i = live w i"
proof (induction prev k runs w d rc rule: stage_loop.induct)
  case (2 prev k r runs w d rc)
  have take: "i \<notin> entry_ids (map fst (take n (run_Objects r)))" for n
    using 2(2) entry_ids_take by (fastforce simp: rendered_ids_def)
  show ?case
  proof (cases "run_Outcome r")
    case Advances
    with 2 show ?thesis by (simp add: apply_and_record_frame)
  qed (use 2(2) take in \<open>auto simp: apply_and_record_frame apply_objects_other rendered_ids_def\<close>)
qed simp

lemma stage_loop_entries:
  "i \<in> entries_of (recs (fst (stage_loop prev k runs w d rc))) m \<Longrightarrow>
   i \<in> entries_of (recs w) m \<or> (\<exists>r\<in>set runs. i \<in> mentioned_ids r)"
proof (induction prev k runs w d rc rule: stage_loop.induct)
  case (2 prev k r runs w d rc)
  show ?case
  proof (cases "run_Outcome r")
    case Advances
    with 2 show ?thesis
      by (fastforce simp: entry_ids_write_refs mentioned_ids_def split: if_splits)
  qed (use 2(2) in \<open>auto simp: entry_ids_write_refs mentioned_ids_def split: if_splits\<close>)
qed simp

lemma stage_loop_done:
  "\<not> snd (snd (snd (stage_loop prev k runs w d rc))) \<Longrightarrow> distinct (map run_Stage runs) \<Longrightarrow>
   (\<forall>r\<in>set runs. entries_of (recs (fst (stage_loop prev k runs w d rc))) (run_Stage r) =
      entry_ids (write_refs prev r)) \<and>
   (\<forall>m. m \<notin> run_Stage ` set runs \<longrightarrow>
      entries_of (recs (fst (stage_loop prev k runs w d rc))) m = entries_of (recs w) m)"
proof (induction prev k runs w d rc rule: stage_loop.induct)
  case (2 prev k r runs w d rc)
  then have adv: "run_Outcome r = Advances" by (cases "run_Outcome r") auto
  with 2 show ?case by (auto simp: image_iff)
qed simp

lemma stage_loop_desired:
  "\<not> snd (snd (snd (stage_loop prev k runs w d rc))) \<Longrightarrow>
   rec_Name ` set (fst (snd (stage_loop prev k runs w d rc))) = rec_Name ` set d \<union> run_Stage ` set runs \<and>
   claimed_ids (fst (snd (stage_loop prev k runs w d rc))) = claimed_ids d \<union> (\<Union>r\<in>set runs. rendered_ids r)"
proof (induction prev k runs w d rc rule: stage_loop.induct)
  case (2 prev k r runs w d rc)
  then have adv: "run_Outcome r = Advances" by (cases "run_Outcome r") auto
  with 2 show ?case by (auto simp: claimed_ids_iff rendered_ids_def)
qed simp

lemma stage_loop_applied:
  "\<not> snd (snd (snd (stage_loop prev k runs w d rc))) \<Longrightarrow>
   prunable (fst (stage_loop prev k runs w d rc)) i \<Longrightarrow>
   prunable w i \<or> (\<exists>r\<in>set runs. i \<in> rendered_ids r)"
  using stage_loop_live [of runs i prev k w d rc] by (auto simp: prunable_def)

section \<open>The prune\<close>

lemma prunable_live_update [simp]: "prunable (w\<lparr>recs := x\<rparr>) i = prunable w i"
  by (simp add: prunable_def)

lemma delete_prunable:
  "prunable (w\<lparr>live := delete_refs refs (live w)\<rparr>) i \<longleftrightarrow> prunable w i \<and> i \<notin> entry_ids refs"
  by (auto simp: prunable_def delete_refs_def split: option.split)

lemma prune_stages_recs [frame_simps]: "recs (fst (prune_stages fails prunes sets w)) = recs w"
  by (induction fails prunes sets w rule: prune_stages.induct) auto

lemma prune_stages_live:
  "live (fst (prune_stages fails prunes sets w)) i = live w i \<or>
   (prunable w i \<and> (\<exists>(n, refs)\<in>set sets. i \<in> entry_ids refs))"
proof (induction fails prunes sets w rule: prune_stages.induct)
  case (2 fails prunes name refs rest w)
  then show ?case
    using delete_refs_cases [of refs "live w" i]
    by (auto simp: delete_prunable prunable_def)
qed simp

lemma prune_stages_prunable:
  "prunable (fst (prune_stages fails prunes sets w)) i \<Longrightarrow> prunable w i"
  by (induction fails prunes sets w rule: prune_stages.induct)
    (auto simp: delete_prunable split: if_splits)

lemma prune_stages_done:
  "snd (prune_stages fails prunes sets w) \<Longrightarrow> (n, refs) \<in> set sets \<Longrightarrow> prunes n \<noteq> Some False \<Longrightarrow>
   prunable (fst (prune_stages fails prunes sets w)) i \<Longrightarrow> i \<notin> entry_ids refs"
proof (induction fails prunes sets w rule: prune_stages.induct)
  case (2 fails prunes name refs' rest w)
  show ?case
  proof (cases "(n, refs) = (name, refs')")
    case True
    with 2 show ?thesis
      using prune_stages_prunable [of fails prunes rest "w\<lparr>live := delete_refs refs (live w)\<rparr>" i]
      by (auto simp: delete_prunable split: if_splits)
  next
    case False
    with 2 show ?thesis by (auto split: if_splits)
  qed
qed simp

lemma teardown_live:
  "live (fst (teardown_removed fails dfails rs w)) i = live w i \<or>
   (prunable w i \<and> (\<exists>r\<in>set rs. i \<in> entry_ids (rec_Entries r)))"
proof (induction fails dfails rs w rule: teardown_removed.induct)
  case (2 fails dfails r rest w)
  show ?case
  proof (cases "rec_Entries r \<noteq> [] \<and> fails (rec_Name r)")
    case False
    define w1 where
      "w1 = (if rec_Entries r \<noteq> [] then w\<lparr>live := delete_refs (rec_Entries r) (live w)\<rparr> else w)"
    have "live w1 i = live w i \<or> (prunable w i \<and> i \<in> entry_ids (rec_Entries r))"
      using delete_refs_cases [of "rec_Entries r" "live w" i]
      by (cases "rec_Entries r = []") (auto simp: w1_def prunable_def)
    moreover have "prunable w1 i \<Longrightarrow> prunable w i"
      by (cases "rec_Entries r = []") (simp_all add: w1_def delete_prunable)
    ultimately have w1: "live w1 i = live w i \<or> (prunable w i \<and> i \<in> entry_ids (rec_Entries r))"
      "prunable w1 i \<Longrightarrow> prunable w i" by blast+
    show ?thesis
    proof (cases "dfails (rec_Name r)")
      case True
      with w1 False show ?thesis by (auto simp: w1_def Let_def)
    next
      case nd: False
      then have "fst (teardown_removed fails dfails (r # rest) w) =
          fst (teardown_removed fails dfails rest
            (w1\<lparr>recs := filter (\<lambda>s. rec_Name s \<noteq> rec_Name r) (recs w1)\<rparr>))"
        using False by (auto simp: w1_def Let_def)
      with 2 [OF False w1_def nd] w1 show ?thesis by auto
    qed
  qed auto
qed simp

lemma teardown_prunable:
  "prunable (fst (teardown_removed fails dfails rs w)) i \<Longrightarrow> prunable w i"
  by (induction fails dfails rs w rule: teardown_removed.induct)
    (auto simp: Let_def delete_prunable split: if_splits)

lemma teardown_done:
  "snd (teardown_removed fails dfails rs w) \<Longrightarrow>
   (\<forall>r\<in>set rs. prunable (fst (teardown_removed fails dfails rs w)) i \<longrightarrow> i \<notin> entry_ids (rec_Entries r)) \<and>
   entries_of (recs (fst (teardown_removed fails dfails rs w))) m =
     (if m \<in> rec_Name ` set rs then {} else entries_of (recs w) m)"
proof (induction fails dfails rs w rule: teardown_removed.induct)
  case (2 fails dfails r rest w)
  define w1 where
    "w1 = (if rec_Entries r \<noteq> [] then w\<lparr>live := delete_refs (rec_Entries r) (live w)\<rparr> else w)"
  define w2 where "w2 = w1\<lparr>recs := filter (\<lambda>s. rec_Name s \<noteq> rec_Name r) (recs w1)\<rparr>"
  have nf: "\<not> (rec_Entries r \<noteq> [] \<and> fails (rec_Name r))" "\<not> dfails (rec_Name r)"
    using 2(2) by (auto simp: Let_def split: if_splits)
  then have step: "teardown_removed fails dfails (r # rest) w = teardown_removed fails dfails rest w2"
    by (auto simp: w1_def w2_def Let_def)
  have gone: "prunable w2 i \<Longrightarrow> i \<notin> entry_ids (rec_Entries r)"
    by (cases "rec_Entries r = []") (simp_all add: w2_def w1_def delete_prunable)
  have ents: "entries_of (recs w2) m = (if m = rec_Name r then {} else entries_of (recs w) m)"
    by (auto simp: w2_def w1_def entries_of_iff)
  have "snd (teardown_removed fails dfails rest w2)" using 2(2) step by simp
  with 2(1) [OF nf(1) w1_def nf(2)] show ?case
    unfolding w2_def [symmetric] step using gone teardown_prunable [of fails dfails rest w2 i] ents
    by auto
qed simp

lemma teardown_entries:
  "i \<in> entries_of (recs (fst (teardown_removed fails dfails rs w))) m \<Longrightarrow> i \<in> entries_of (recs w) m"
proof (induction fails dfails rs w rule: teardown_removed.induct)
  case (2 fails dfails r rest w)
  then show ?case by (auto simp: Let_def entries_of_iff split: if_splits)
qed simp

lemma prune_sets_mem:
  "(n, refs) \<in> set (prune_sets previous plan) \<Longrightarrow>
   (\<exists>p\<in>set previous. rec_Name p = n) \<and> PrunePerStage plan n = Some refs"
  by (auto simp: prune_sets_def List.map_filter_def)

lemma prune_sets_complete:
  "p \<in> set previous \<Longrightarrow> PrunePerStage plan (rec_Name p) = Some refs \<Longrightarrow>
   (rec_Name p, refs) \<in> set (prune_sets previous plan)"
  by (force simp: prune_sets_def List.map_filter_def)

section \<open>A whole pass\<close>

lemma pass_cases:
  obtains (stopped) w1 d rc where "stage_loop (recs w) 0 runs w [] False = (w1, d, rc, True)"
      "reconcile_pass fails dfails runs w = (w1, Stopped)"
    | (kept) w1 d rc res where "stage_loop (recs w) 0 runs w [] False = (w1, d, rc, False)"
      "reconcile_pass fails dfails runs w = (w1, res)" "res = AmbiguousSpec \<or> res = PruneDeferred"
    | (pruned) w1 d w2 ok where "stage_loop (recs w) 0 runs w [] False = (w1, d, False, False)"
      "prune_stages fails (stagePruneByName runs) (prune_sets (recs w) (ComputePlan (recs w) d)) w1 = (w2, ok)"
      "reconcile_pass fails dfails runs w =
        (if \<not> ok then (w2, PruneFailed)
         else (let (w3, ok') = teardown_removed fails dfails (RemovedStages (ComputePlan (recs w) d)) w2
               in if \<not> ok' then (w3, PruneFailed) else (w3, Completed)))"
proof -
  obtain w1 d rc st where l: "stage_loop (recs w) 0 runs w [] False = (w1, d, rc, st)"
    by (metis prod_cases4)
  obtain w2 ok where p:
    "prune_stages fails (stagePruneByName runs) (prune_sets (recs w) (ComputePlan (recs w) d)) w1 = (w2, ok)"
    by fastforce
  consider "st" | "\<not> st" "(\<exists>i\<in>claimed_ids d. DuplicateClaims d i \<noteq> None) \<or> rc"
    | "\<not> st" "\<not> (\<exists>i\<in>claimed_ids d. DuplicateClaims d i \<noteq> None)" "\<not> rc" by blast
  then show thesis
  proof cases
    case 1
    with l show ?thesis by (intro stopped) (simp_all add: reconcile_pass_def Let_def)
  next
    case 2
    show ?thesis
    proof (cases "\<exists>i\<in>claimed_ids d. DuplicateClaims d i \<noteq> None")
      case True
      with 2 l show ?thesis
        by (intro kept [of w1 d rc AmbiguousSpec]) (auto simp: reconcile_pass_def Let_def)
    next
      case False
      with 2 l show ?thesis
        by (intro kept [of w1 d rc PruneDeferred]) (auto simp: reconcile_pass_def Let_def)
    qed
  next
    case 3
    with l p show ?thesis
      by (intro pruned) (auto simp: reconcile_pass_def Let_def)
  qed
qed

text \<open>Whatever happens in a pass, it deletes only what an inventory recorded when it began.\<close>

lemma plan_ids:
  assumes "distinct (map rec_Name previous)" and "r \<in> plan_deletions (ComputePlan previous d)"
  shows "ID r \<in> claimed_ids previous \<and> ID r \<notin> claimed_ids d"
  using assms by (auto simp: plan_deletions_ComputePlan claimed_ids_iff)

lemma plan_prune_ids:
  assumes "distinct (map rec_Name prev)"
    and "(n, refs) \<in> set (prune_sets prev (ComputePlan prev d))" and "i \<in> entry_ids refs"
  shows "i \<in> claimed_ids prev \<and> i \<notin> claimed_ids d"
proof -
  obtain r where "r \<in> plan_deletions (ComputePlan prev d)" "ID r = i"
    using assms(2,3) by (fastforce simp: plan_deletions_def entry_ids_def dest: prune_sets_mem)
  then show ?thesis using plan_ids [OF assms(1)] by blast
qed

lemma plan_removed_ids:
  assumes "distinct (map rec_Name prev)"
    and "s \<in> set (RemovedStages (ComputePlan prev d))" and "i \<in> entry_ids (rec_Entries s)"
  shows "i \<in> claimed_ids prev \<and> i \<notin> claimed_ids d"
proof -
  obtain r where "r \<in> plan_deletions (ComputePlan prev d)" "ID r = i"
    using assms(2,3) by (fastforce simp: plan_deletions_def entry_ids_def)
  then show ?thesis using plan_ids [OF assms(1)] by blast
qed

lemma pass_live:
  assumes d: "distinct (map rec_Name (recs w))" and nr: "\<forall>r\<in>set runs. i \<notin> rendered_ids r"
  shows "live (fst (reconcile_pass fails dfails runs w)) i = live w i \<or>
    (prunable w i \<and> i \<in> tracked w)"
proof (cases rule: pass_cases [of w runs fails dfails])
  case (stopped w1 ds rc)
  then show ?thesis using stage_loop_live [OF nr, of "recs w" 0 w "[]" False] by simp
next
  case (kept w1 ds rc res)
  then show ?thesis using stage_loop_live [OF nr, of "recs w" 0 w "[]" False] by simp
next
  case (pruned w1 ds w2 ok)
  have l1: "live w1 i = live w i"
    using stage_loop_live [OF nr, of "recs w" 0 w "[]" False] pruned(1) by simp
  then have p1: "prunable w1 i = prunable w i" by (simp add: prunable_def)
  have l2: "live w2 i = live w1 i \<or> prunable w i \<and> i \<in> tracked w"
    using prune_stages_live [of fails "stagePruneByName runs" "prune_sets (recs w) (ComputePlan (recs w) ds)" w1 i]
      pruned(2) p1 plan_prune_ids [OF d, of _ _ ds i]
    by (auto simp: tracked_def)
  have p2: "prunable w2 i \<Longrightarrow> prunable w i"
    using prune_stages_prunable [of fails "stagePruneByName runs" "prune_sets (recs w) (ComputePlan (recs w) ds)" w1 i]
      pruned(2) p1 by simp
  have l3: "live (fst (teardown_removed fails dfails (RemovedStages (ComputePlan (recs w) ds)) w2)) i = live w2 i
      \<or> prunable w i \<and> i \<in> tracked w"
    using teardown_live [of fails dfails "RemovedStages (ComputePlan (recs w) ds)" w2 i] p2
      plan_removed_ids [OF d, of _ ds i]
    by (auto simp: tracked_def)
  show ?thesis using l1 l2 l3 pruned(3) by (auto simp: Let_def split: if_splits prod.splits)
qed

text \<open>Nothing enters an inventory but what the pass mentions.\<close>

lemma pass_tracked:
  "i \<in> tracked (fst (reconcile_pass fails dfails runs w)) \<Longrightarrow>
   i \<in> tracked w \<or> (\<exists>r\<in>set runs. i \<in> mentioned_ids r)"
proof -
  assume h: "i \<in> tracked (fst (reconcile_pass fails dfails runs w))"
  have loop: "i \<in> entries_of (recs (fst (stage_loop (recs w) 0 runs w [] False))) m \<Longrightarrow>
      i \<in> tracked w \<or> (\<exists>r\<in>set runs. i \<in> mentioned_ids r)" for m
    using stage_loop_entries [of i "recs w" 0 runs w "[]" False m]
    by (auto simp: tracked_def claimed_ids_entries_of)
  show ?thesis
  proof (cases rule: pass_cases [of w runs fails dfails])
    case (stopped w1 ds rc)
    then show ?thesis using h loop by (auto simp: tracked_def claimed_ids_entries_of)
  next
    case (kept w1 ds rc res)
    then show ?thesis using h loop by (auto simp: tracked_def claimed_ids_entries_of)
  next
    case (pruned w1 ds w2 ok)
    have r2: "recs w2 = recs w1"
      using prune_stages_recs [of fails "stagePruneByName runs" "prune_sets (recs w) (ComputePlan (recs w) ds)" w1]
        pruned(2) by simp
    obtain m where "i \<in> entries_of (recs w1) m"
      using h pruned(3) r2
        teardown_entries [of i fails dfails "RemovedStages (ComputePlan (recs w) ds)" w2]
      by (auto simp: tracked_def claimed_ids_entries_of Let_def split: if_splits prod.splits)
    then show ?thesis using loop pruned(1) by simp
  qed
qed

lemma distinct_record_refs:
  "distinct (map rec_Name rs) \<Longrightarrow> distinct (map rec_Name (record_refs n p refs rs))"
proof -
  assume d: "distinct (map rec_Name rs)"
  let ?f = "\<lambda>r. if rec_Name r = n
      then \<lparr>rec_Name = n, rec_Position = p, rec_Entries = refs\<rparr> else r"
  have "map rec_Name (map ?f rs) = map rec_Name rs" by simp
  then have "distinct (map rec_Name (map ?f rs))" using d by metis
  then show ?thesis using d by (simp add: record_refs_def Let_def del: map_map)
qed

lemma distinct_stage_loop:
  "distinct (map rec_Name (recs w)) \<Longrightarrow>
   distinct (map rec_Name (recs (fst (stage_loop prev k runs w d rc))))"
proof (induction prev k runs w d rc rule: stage_loop.induct)
  case (2 prev k r runs w d rc)
  then have "distinct (map rec_Name (recs (apply_and_record prev k r w)))"
    by (simp add: apply_and_record_def distinct_record_refs)
  with 2 show ?case
    by (cases "run_Outcome r") (simp_all add: distinct_record_refs)
qed simp

lemma distinct_teardown:
  "distinct (map rec_Name (recs w)) \<Longrightarrow>
   distinct (map rec_Name (recs (fst (teardown_removed fails dfails rs w))))"
  by (induction fails dfails rs w rule: teardown_removed.induct)
    (auto simp: Let_def distinct_map_filter split: if_splits)

lemma pass_distinct:
  assumes "distinct (map rec_Name (recs w))"
  shows "distinct (map rec_Name (recs (fst (reconcile_pass fails dfails runs w))))"
proof -
  note loop = distinct_stage_loop [OF assms, of "recs w" 0 runs "[]" False]
  show ?thesis
  proof (cases rule: pass_cases [of w runs fails dfails])
    case (stopped w1 ds rc)
    then show ?thesis using loop by simp
  next
    case (kept w1 ds rc res)
    then show ?thesis using loop by simp
  next
    case (pruned w1 ds w2 ok)
    then have "recs w2 = recs w1"
      using prune_stages_recs [of fails "stagePruneByName runs" "prune_sets (recs w) (ComputePlan (recs w) ds)" w1]
      by simp
    then have "distinct (map rec_Name (recs w2))" using loop pruned(1) by simp
    then show ?thesis
      using pruned(3) distinct_teardown [of w2 fails dfails "RemovedStages (ComputePlan (recs w) ds)"]
      by (auto simp: Let_def split: if_splits prod.splits)
  qed
qed

text \<open>A pass that ends in \<open>Completed\<close> went through all its steps.\<close>

lemma pass_completed:
  assumes "snd (reconcile_pass fails dfails runs w) = Completed"
  obtains w1 d w2 w3 where "stage_loop (recs w) 0 runs w [] False = (w1, d, False, False)"
    and "prune_stages fails (stagePruneByName runs) (prune_sets (recs w) (ComputePlan (recs w) d)) w1 = (w2, True)"
    and "teardown_removed fails dfails (RemovedStages (ComputePlan (recs w) d)) w2 = (w3, True)"
    and "fst (reconcile_pass fails dfails runs w) = w3"
proof (cases rule: pass_cases [of w runs fails dfails])
  case (pruned w1 d w2 ok)
  moreover obtain w3 ok' where
    t: "teardown_removed fails dfails (RemovedStages (ComputePlan (recs w) d)) w2 = (w3, ok')"
    by fastforce
  ultimately have "ok \<and> ok'" using assms by (auto split: if_splits)
  with pruned t that show thesis by simp
qed (use assms in auto)

lemma stagePruneByName_on:
  "(\<forall>r\<in>set runs. run_Prune r \<noteq> Some False) \<Longrightarrow> stagePruneByName runs n \<noteq> Some False"
  unfolding stagePruneByName_def
  by (auto dest!: map_of_last_mem simp: stagePrune_def split: option.splits)

lemma completed_removes:
  assumes d: "distinct (map rec_Name (recs w))" and fin: "snd (reconcile_pass fails dfails runs w) = Completed"
    and on: "\<forall>r\<in>set runs. run_Prune r \<noteq> Some False"
    and nr: "\<forall>r\<in>set runs. i \<notin> rendered_ids r" and tr: "i \<in> tracked w"
  shows "\<not> prunable (fst (reconcile_pass fails dfails runs w)) i"
proof
  assume pr: "prunable (fst (reconcile_pass fails dfails runs w)) i"
  obtain w1 ds w2 w3 where l: "stage_loop (recs w) 0 runs w [] False = (w1, ds, False, False)"
    and p: "prune_stages fails (stagePruneByName runs) (prune_sets (recs w) (ComputePlan (recs w) ds)) w1 = (w2, True)"
    and t: "teardown_removed fails dfails (RemovedStages (ComputePlan (recs w) ds)) w2 = (w3, True)"
    and f: "fst (reconcile_pass fails dfails runs w) = w3"
    using pass_completed [OF fin] by metis
  have "i \<notin> claimed_ids ds"
    using stage_loop_desired [of "recs w" 0 runs w "[]" False] l nr by (auto simp: claimed_ids_def)
  then obtain r where r: "r \<in> plan_deletions (ComputePlan (recs w) ds)" "ID r = i"
    using tr by (auto simp: plan_deletions_ComputePlan [OF d] tracked_def claimed_ids_iff entry_ids_def)
  have p2: "prunable w2 i" using pr f teardown_prunable [of fails dfails _ w2 i] t by (metis fst_conv)
  consider n refs where "PrunePerStage (ComputePlan (recs w) ds) n = Some refs" "r \<in> set refs"
    | s where "s \<in> set (RemovedStages (ComputePlan (recs w) ds))" "r \<in> set (rec_Entries s)"
    using r(1) by (auto simp: plan_deletions_def)
  then show False
  proof cases
    case 1
    then obtain q where "q \<in> set (recs w)" "rec_Name q = n"
      by (elim ComputePlan_prune_mem [OF _ d]) simp
    then have "(n, refs) \<in> set (prune_sets (recs w) (ComputePlan (recs w) ds))"
      using 1 prune_sets_complete by metis
    then have "i \<notin> entry_ids refs"
      using prune_stages_done [of fails "stagePruneByName runs" _ w1 n refs i] p p2
        stagePruneByName_on [OF on] by (metis fst_conv snd_conv)
    then show False using 1(2) r(2) by auto
  next
    case 2
    then have "i \<notin> entry_ids (rec_Entries s)"
      using teardown_done [of fails dfails "RemovedStages (ComputePlan (recs w) ds)" w2 i] t pr f
      by (metis fst_conv snd_conv)
    then show False using 2(2) r(2) by auto
  qed
qed

lemma completed_tracks:
  assumes fin: "snd (reconcile_pass fails dfails runs w) = Completed"
    and dr: "distinct (map run_Stage runs)" and r: "r \<in> set runs" "i \<in> rendered_ids r"
  shows "i \<in> tracked (fst (reconcile_pass fails dfails runs w))"
proof -
  obtain w1 ds w2 w3 where l: "stage_loop (recs w) 0 runs w [] False = (w1, ds, False, False)"
    and p: "prune_stages fails (stagePruneByName runs) (prune_sets (recs w) (ComputePlan (recs w) ds)) w1 = (w2, True)"
    and t: "teardown_removed fails dfails (RemovedStages (ComputePlan (recs w) ds)) w2 = (w3, True)"
    and f: "fst (reconcile_pass fails dfails runs w) = w3"
    using pass_completed [OF fin] by metis
  have i1: "i \<in> entries_of (recs w1) (run_Stage r)"
    using stage_loop_done [of "recs w" 0 runs w "[]" False] l dr r by (auto simp: entry_ids_write_refs)
  have "rec_Name ` set ds = run_Stage ` set runs"
    using stage_loop_desired [of "recs w" 0 runs w "[]" False] l by simp
  moreover have "run_Stage r \<in> run_Stage ` set runs" using r by simp
  ultimately have "run_Stage r \<notin> rec_Name ` set (RemovedStages (ComputePlan (recs w) ds))"
    by (auto simp: ComputePlan_removed)
  moreover have "recs w2 = recs w1" using p prune_stages_recs by (metis fst_conv)
  ultimately have "i \<in> entries_of (recs w3) (run_Stage r)"
    using teardown_done [of fails dfails "RemovedStages (ComputePlan (recs w) ds)" w2 i "run_Stage r"] t i1
    by simp
  then show ?thesis using f by (auto simp: tracked_def claimed_ids_entries_of)
qed

lemma stage_loop_stop:
  "(\<forall>r\<in>set pre. run_Outcome r = Advances) \<Longrightarrow> run_Outcome s = StopsAfterWrite \<Longrightarrow>
   entries_of (recs (fst (stage_loop prev k (pre @ s # post) w d rc))) (run_Stage s) =
     entry_ids (write_refs prev s) \<and>
   snd (snd (snd (stage_loop prev k (pre @ s # post) w d rc)))"
  by (induction pre arbitrary: k w d rc) simp_all

section \<open>Properties\<close>

lemma untracked_survives:
  assumes "distinct (map rec_Name (recs w))" "prunable w i" "i \<notin> tracked w"
    and "\<forall>r\<in>set runs. i \<notin> mentioned_ids r"
  shows "prunable (fst (reconcile_pass fails dfails runs w)) i \<and>
    i \<notin> tracked (fst (reconcile_pass fails dfails runs w))"
proof -
  have "\<forall>r\<in>set runs. i \<notin> rendered_ids r" using assms(4) by (auto simp: mentioned_ids_def)
  then have "live (fst (reconcile_pass fails dfails runs w)) i = live w i"
    using pass_live [OF assms(1)] assms(3) by blast
  then show ?thesis using pass_tracked [of i fails dfails runs w] assms by (auto simp: prunable_def)
qed

text \<open>A history of passes, each with its own failures and stage runs.\<close>

type_synonym pass_input = "(string \<Rightarrow> bool) \<times> (string \<Rightarrow> bool) \<times> StageRun list"

definition run_passes :: "pass_input list \<Rightarrow> world \<Rightarrow> world" where
  "run_passes ps w = foldl (\<lambda>v (fails, dfails, runs). fst (reconcile_pass fails dfails runs v)) w ps"

lemma orphan_forever:
  "distinct (map rec_Name (recs w)) \<Longrightarrow> prunable w i \<Longrightarrow> i \<notin> tracked w \<Longrightarrow>
   (\<forall>(fails, dfails, runs)\<in>set ps. \<forall>r\<in>set runs. i \<notin> mentioned_ids r) \<Longrightarrow>
   prunable (run_passes ps w) i \<and> i \<notin> tracked (run_passes ps w)"
proof (induction ps arbitrary: w)
  case (Cons p ps)
  obtain fails dfails runs where p: "p = (fails, dfails, runs)" by (cases p)
  let ?w = "fst (reconcile_pass fails dfails runs w)"
  have "prunable ?w i \<and> i \<notin> tracked ?w"
    using Cons.prems p by (intro untracked_survives) auto
  then show ?case
    using Cons.IH [of ?w] Cons.prems p pass_distinct [OF Cons.prems(1)] by (simp add: run_passes_def)
qed (simp add: run_passes_def)



text \<open>A pass that stops after recording a stage loses track of what that stage dropped. If the
  object was recorded for that stage alone and no stage renders it any more, it is still live and owned
  after the pass but in no inventory, and no later sequence of passes, completed ones included,
  removes it unless some stage renders it again or an inventory is rebuilt from the cluster.\<close>

theorem stopped_pass_orphans:
  assumes "distinct (map rec_Name (recs w))" and "prunable w i"
    and "\<forall>m. i \<in> entries_of (recs w) m \<longrightarrow> m = run_Stage s"
    and "\<forall>r\<in>set pre. run_Outcome r = Advances" and "run_Outcome s = StopsAfterWrite"
    and "\<forall>r\<in>set (pre @ s # post). i \<notin> mentioned_ids r"
    and "\<forall>(fails, dfails, runs)\<in>set later. \<forall>r\<in>set runs. i \<notin> mentioned_ids r"
  shows "prunable (run_passes ((fails, dfails, pre @ s # post) # later) w) i \<and>
    i \<notin> tracked (run_passes ((fails, dfails, pre @ s # post) # later) w)"
proof -
  let ?runs = "pre @ s # post"
  let ?w = "fst (reconcile_pass fails dfails ?runs w)"
  obtain w1 d rc where l: "stage_loop (recs w) 0 ?runs w [] False = (w1, d, rc, True)"
    using stage_loop_stop [OF assms(4,5), of "recs w" 0 post w "[]" False] by (metis prod.exhaust_sel)
  then have w: "?w = w1" by (simp add: reconcile_pass_def Let_def)
  have nr: "\<forall>r\<in>set ?runs. i \<notin> rendered_ids r" using assms(6) unfolding mentioned_ids_def by blast
  then have live: "live w1 i = live w i"
    using stage_loop_live [OF nr, of "recs w" 0 w "[]" False] l by simp
  have "i \<notin> entry_ids (write_refs (recs w) s)"
    using assms(6) by (auto simp: entry_ids_write_refs mentioned_ids_def)
  then have "i \<notin> entries_of (recs w1) (run_Stage s)"
    using stage_loop_stop [OF assms(4,5), of "recs w" 0 post w "[]" False] l by simp
  moreover have "i \<notin> entries_of (recs w1) m" if "m \<noteq> run_Stage s" for m
    using stage_loop_entries [of i "recs w" 0 ?runs w "[]" False m] l assms(3,6) that by auto
  ultimately have "i \<notin> tracked w1" unfolding tracked_def claimed_ids_entries_of by metis
  moreover have "prunable w1 i" using live assms(2) by (simp add: prunable_def)
  ultimately show ?thesis
    using orphan_forever [of w1 i later] pass_distinct [OF assms(1), of fails dfails ?runs] w assms(7)
    by (simp add: run_passes_def)
qed

subsection \<open>A two-revision example\<close>

text \<open>Stage \<open>app\<close> rendered \<open>a\<close> and \<open>b\<close>; its next revision renders only \<open>a\<close>.\<close>

definition owned_live :: LiveInfo where
  "owned_live = \<lparr>li_Owned = True, li_PruneDisabled = False\<rparr>"

definition demo_world :: world where
  "demo_world = \<lparr>live = [ID (demo_ref ''a'' ''v1'') \<mapsto> owned_live, ID (demo_ref ''b'' ''v1'') \<mapsto> owned_live],
     recs = [\<lparr>rec_Name = ''app'', rec_Position = 0,
              rec_Entries = [demo_ref ''a'' ''v1'', demo_ref ''b'' ''v1'']\<rparr>]\<rparr>"

definition demo_run :: "outcome \<Rightarrow> StageRun" where
  "demo_run oc = \<lparr>run_Stage = ''app'', run_Prune = None, run_Objects = [(demo_ref ''a'' ''v1'', False)],
     run_PriorApplied = True, run_Recovered = [], run_Outcome = oc\<rparr>"

definition never :: "string \<Rightarrow> bool" where
  "never n = False"

lemma demo_world_facts:
  "distinct (map rec_Name (recs demo_world))" "prunable demo_world (ID (demo_ref ''b'' ''v1''))"
  "snd (reconcile_pass never never [demo_run Advances] demo_world) = Completed"
  "live (fst (reconcile_pass never never [demo_run Advances] demo_world)) (ID (demo_ref ''b'' ''v1'')) = None"
  by code_simp+

lemma demo_world_no_orphans: "no_orphans demo_world"
  by (auto simp: no_orphans_def prunable_def tracked_def claimed_ids_def demo_world_def ID_demo_ref
      split: if_splits)

lemma demo_not_mentioned: "oc = Advances \<or> oc = StopsAfterWrite \<Longrightarrow>
   ID (demo_ref ''b'' ''v1'') \<notin> mentioned_ids (demo_run oc)"
  by (auto simp: mentioned_ids_def rendered_ids_def demo_run_def ID_demo_ref)



theorem stopped_pass_orphans_witness:
  "ID (demo_ref ''b'' ''v1'') \<notin> tracked (run_passes
     [(never, never, [demo_run StopsAfterWrite]), (never, never, [demo_run Advances])] demo_world)"
proof -
  have only: "\<forall>m. ID (demo_ref ''b'' ''v1'') \<in> entries_of (recs demo_world) m \<longrightarrow>
      m = run_Stage (demo_run StopsAfterWrite)"
    by (auto simp: entries_of_iff demo_world_def demo_run_def)
  have stop: "run_Outcome (demo_run StopsAfterWrite) = StopsAfterWrite" by (simp add: demo_run_def)
  show ?thesis
    using stopped_pass_orphans [OF demo_world_facts(1,2) only, of "[]" "[]"
        "[(never, never, [demo_run Advances])]" never never] stop demo_not_mentioned
    by simp
qed

end
