(* ===== verification/StageControl.thy ===== *)
theory StageControl
  imports PruneCycle
begin

text \<open>
  The per-StageSet bookkeeping of \<open>internal/controller\<close> that the gates share: annotations and one-shot
  tokens, intervals and timeouts, the merge of stage statuses, the per-stage action ledgers, the
  classification of stage failures with the status they write, and teardown on deletion.
\<close>

section \<open>StageSets\<close>

record StageSet =
  set_Namespace :: string
  set_Name :: string
  set_Generation :: int
  set_Annotations :: "string \<rightharpoonup> string"
  set_DeletionTimestamp :: "instant option"
  set_Spec :: StageSetSpec
  set_Stages :: "StageStatus list"
  set_ActionFailureCount :: int

definition annotation :: "StageSet \<Rightarrow> string \<Rightarrow> string" where
  "annotation ss k = (case set_Annotations ss k of Some v \<Rightarrow> v | None \<Rightarrow> [])"

section \<open>One-shot tokens\<close>

definition promoteAnnotation :: string where
  "promoteAnnotation = ''stages.metio.wtf/promote''"

definition reconcileStageAnnotation :: string where
  "reconcileStageAnnotation = ''stages.metio.wtf/reconcile-stage''"

definition resetScopeAnnotation :: string where
  "resetScopeAnnotation = ''stages.metio.wtf/reset-scope''"

text \<open>\<open>"<stage>@<token>"\<close>; two empty strings when absent or malformed.\<close>

definition stage_at_token :: "string \<Rightarrow> string \<times> string" where
  "stage_at_token v =
     (if v = [] then ([], [])
      else (case cut (CHR ''@'') v of
          (name, tok, found) \<Rightarrow> if \<not> found \<or> name = [] \<or> tok = [] then ([], []) else (name, tok)))"

definition parsePromote :: "StageSet \<Rightarrow> string \<times> string" where
  "parsePromote ss = stage_at_token (annotation ss promoteAnnotation)"

definition parseReconcileStage :: "StageSet \<Rightarrow> string \<times> string" where
  "parseReconcileStage ss = stage_at_token (annotation ss reconcileStageAnnotation)"

definition promoteTokenFor :: "StageSet \<Rightarrow> string \<Rightarrow> string" where
  "promoteTokenFor ss stageName =
     (case parsePromote ss of (stage, token) \<Rightarrow> if stage \<noteq> stageName then [] else token)"

lemma stage_at_token_Some:
  "name \<noteq> [] \<Longrightarrow> tok \<noteq> [] \<Longrightarrow> CHR ''@'' \<notin> set name \<Longrightarrow>
   stage_at_token (name @ ''@'' @ tok) = (name, tok)"
  by (simp add: stage_at_token_def cut_append)

section \<open>Intervals and timeouts\<close>

definition effectiveInterval :: "duration \<Rightarrow> StageSet \<Rightarrow> duration" where
  "effectiveInterval defaultInterval ss =
     (if spec_Interval (set_Spec ss) > 0 then spec_Interval (set_Spec ss) else defaultInterval)"

definition retryInterval :: "duration \<Rightarrow> StageSet \<Rightarrow> duration" where
  "retryInterval defaultInterval ss =
     (case spec_RetryInterval (set_Spec ss) of
        Some d \<Rightarrow> d | None \<Rightarrow> effectiveInterval defaultInterval ss)"

definition steadyInterval :: "duration \<Rightarrow> StageSet \<Rightarrow> duration" where
  "steadyInterval defaultInterval ss =
     (let base = effectiveInterval defaultInterval ss in
      case spec_DriftDetectionInterval (set_Spec ss) of
        Some d \<Rightarrow> if d > 0 \<and> d < base then d else base
      | None \<Rightarrow> base)"

definition defaultStageTimeout :: duration where
  "defaultStageTimeout = 15 * Minute"

definition stageTimeout :: "StageSet \<Rightarrow> Stage \<Rightarrow> duration" where
  "stageTimeout ss stage =
     (let positive = (\<lambda>t. case t of Some d \<Rightarrow> d > 0 | None \<Rightarrow> False);
          rc = (case stg_ReadyChecks stage of Some rc \<Rightarrow> rdy_Timeout rc | None \<Rightarrow> None)
      in if positive rc then the rc
         else if positive (stg_Timeout stage) then the (stg_Timeout stage)
         else if positive (spec_Timeout (set_Spec ss)) then the (spec_Timeout (set_Spec ss))
         else defaultStageTimeout)"

definition stageOnTimeout :: "StageSet \<Rightarrow> Stage \<Rightarrow> string" where
  "stageOnTimeout ss stage =
     (if stg_OnTimeout stage \<noteq> [] then stg_OnTimeout stage
      else if spec_OnTimeout (set_Spec ss) \<noteq> [] then spec_OnTimeout (set_Spec ss)
      else ''Hold'')"

definition disableWait :: "Stage \<Rightarrow> bool" where
  "disableWait stage \<longleftrightarrow> (case stg_ReadyChecks stage of Some rc \<Rightarrow> rdy_DisableWait rc | None \<Rightarrow> False)"

text \<open>The zero time stands for no known boundary.\<close>

definition requeueForWindow :: "instant option \<Rightarrow> instant \<Rightarrow> duration \<Rightarrow> duration" where
  "requeueForWindow nextChange now fallback =
     (case nextChange of
        None \<Rightarrow> fallback
      | Some t \<Rightarrow>
          let d = t - now in
          if d < 5 * Second then 5 * Second else if d > Hour then Hour else d)"

lemma requeueForWindow_bounds:
  "5 * Second \<le> requeueForWindow (Some t) now fb \<and> requeueForWindow (Some t) now fb \<le> Hour"
  by (simp add: requeueForWindow_def Let_def Second_def Minute_def Hour_def)

section \<open>Stage statuses\<close>

definition indexStageStatuses :: "StageStatus list \<Rightarrow> (string \<rightharpoonup> StageStatus)" where
  "indexStageStatuses stages = map_of_last (map (\<lambda>s. (ss_Name s, s)) stages)"

definition mergeStageStatuses :: "StageSet \<Rightarrow> StageStatus list \<Rightarrow> StageStatus list" where
  "mergeStageStatuses ss processed =
     (let current = indexStageStatuses processed; prior = indexStageStatuses (set_Stages ss) in
      List.map_filter (\<lambda>stage.
        (case current (stg_Name stage) of Some e \<Rightarrow> Some e | None \<Rightarrow> prior (stg_Name stage)))
        (spec_Stages (set_Spec ss)))"

text \<open>A Go struct with every field at its zero value but the name, the phase and the revision.\<close>

definition stage_status :: "string \<Rightarrow> StagePhase \<Rightarrow> string \<Rightarrow> StageStatus" where
  "stage_status name phase revision =
     \<lparr>ss_Name = name, ss_Phase = phase, ss_AppliedRevision = revision, ss_EntriesCount = 0,
      ss_Shards = 0, ss_Message = [], ss_ExecutedActions = [], ss_LedgerRevision = [],
      ss_ExecutedVersionActions = [], ss_LedgerVersion = [], ss_LastHandledReconcileAt = [],
      ss_PromotionState = None, ss_LastHandledPromotion = [], ss_BudgetFreeze = None\<rparr>"

lemma indexStageStatuses_name: "indexStageStatuses xs n = Some s \<Longrightarrow> s \<in> set xs \<and> ss_Name s = n"
  by (auto simp: indexStageStatuses_def dest!: map_of_last_mem)

lemma indexStageStatuses_None: "indexStageStatuses xs n = None \<longleftrightarrow> n \<notin> ss_Name ` set xs"
proof -
  have "dom (indexStageStatuses xs) = ss_Name ` set xs"
    by (force simp: indexStageStatuses_def dom_map_of_last)
  then show ?thesis by (metis domIff)
qed

lemma indexStageStatuses_snoc: "indexStageStatuses (xs @ [s]) (ss_Name s) = Some s"
  by (simp add: indexStageStatuses_def)

lemma set_map_filter: "set (List.map_filter f xs) = {y. \<exists>x\<in>set xs. f x = Some y}"
  by (induction xs) (auto simp: map_filter_simps split: option.splits)

lemma index_map_filter:
  assumes "\<forall>n e. f n = Some e \<longrightarrow> ss_Name e = n"
  shows "indexStageStatuses (List.map_filter (\<lambda>s. f (stg_Name s)) stages) n =
    (if n \<in> stg_Name ` set stages then f n else None)"
proof (cases "indexStageStatuses (List.map_filter (\<lambda>s. f (stg_Name s)) stages) n")
  case None
  then have none: "\<not> (\<exists>s\<in>set stages. \<exists>e. f (stg_Name s) = Some e \<and> ss_Name e = n)"
    by (auto simp: indexStageStatuses_None set_map_filter)
  then have "f n = None" if "n \<in> stg_Name ` set stages"
    using that assms by (cases "f n") auto
  then show ?thesis using None by simp
next
  case (Some e)
  from indexStageStatuses_name [OF this] obtain s where "s \<in> set stages" "f (stg_Name s) = Some e" "ss_Name e = n"
    by (auto simp: set_map_filter)
  then show ?thesis using Some assms by force
qed

text \<open>After the merge, a stage of the spec has the entry of this pass, else the one it had; a stage that
  left the spec has none.\<close>

lemma mergeStageStatuses_index:
  "indexStageStatuses (mergeStageStatuses ss processed) n =
    (if n \<in> stg_Name ` set (spec_Stages (set_Spec ss))
     then (case indexStageStatuses processed n of Some e \<Rightarrow> Some e | None \<Rightarrow> indexStageStatuses (set_Stages ss) n)
     else None)"
  unfolding mergeStageStatuses_def Let_def
  by (subst index_map_filter [where f = "\<lambda>n. case indexStageStatuses processed n of Some e \<Rightarrow> Some e
      | None \<Rightarrow> indexStageStatuses (set_Stages ss) n"])
    (auto dest: indexStageStatuses_name split: option.splits)

section \<open>Action ledgers (actionledger.go)\<close>

record actionLedger =
  al_revision :: string
  al_executed :: "string list"
  al_version :: string
  al_versioned :: "string list"
  al_lifetimeDone :: "string list"

definition doneSet :: "actionLedger \<Rightarrow> string set" where
  "doneSet l = set (al_executed l) \<union> set (al_versioned l) \<union> set (al_lifetimeDone l)"

definition ActionScopes :: "Stage \<Rightarrow> (string \<rightharpoonup> ActionScope)" where
  "ActionScopes stage =
     (case stg_Actions stage of
        None \<Rightarrow> Map.empty
      | Some a \<Rightarrow> map_of_last (map (\<lambda>x. (act_Name x, EffectiveScope x)) (sact_Pre a @ sact_Post a)))"

definition record_action :: "(string \<rightharpoonup> ActionScope) \<Rightarrow> string \<Rightarrow> actionLedger \<Rightarrow> actionLedger" where
  "record_action scopeOf name l =
     (if scopeOf name = Some ScopeVersion then l\<lparr>al_versioned := al_versioned l @ [name]\<rparr>
      else l\<lparr>al_executed := al_executed l @ [name]\<rparr>)"

definition stamp :: "actionLedger \<Rightarrow> StageStatus \<Rightarrow> StageStatus" where
  "stamp l s =
     s\<lparr>ss_ExecutedActions := al_executed l, ss_LedgerRevision := al_revision l,
       ss_ExecutedVersionActions := al_versioned l, ss_LedgerVersion := al_version l\<rparr>"

definition scoped_action_names :: "ActionScope \<Rightarrow> Stage \<Rightarrow> string list" where
  "scoped_action_names scope stage =
     (case stg_Actions stage of
        None \<Rightarrow> []
      | Some a \<Rightarrow> map act_Name (filter (\<lambda>x. EffectiveScope x = scope) (sact_Pre a)) @
          map act_Name (filter (\<lambda>x. EffectiveScope x = scope) (sact_Post a)))"

definition versionScopedActionNames :: "Stage \<Rightarrow> string list" where
  "versionScopedActionNames = scoped_action_names ScopeVersion"

definition stageLifetimeActionNames :: "Stage \<Rightarrow> string list" where
  "stageLifetimeActionNames = scoped_action_names ScopeLifetime"

text \<open>
  The ledger a stage starts its pass with: what the prior status recorded for the same revision and,
  for a versioned StageSet, for the same version; a first adoption seeds the Version-scoped actions.
\<close>

definition stage_ledger ::
  "string \<Rightarrow> string option \<Rightarrow> bool \<Rightarrow> Stage \<Rightarrow> StageStatus option \<Rightarrow> actionLedger" where
  "stage_ledger revision desired baseline stage prior =
     (let executed = (case prior of
            Some p \<Rightarrow> if ss_LedgerRevision p = revision then ss_ExecutedActions p else []
          | None \<Rightarrow> []);
          versioned = (case (prior, desired) of
            (Some p, Some v) \<Rightarrow> if ss_LedgerVersion p = v then ss_ExecutedVersionActions p else []
          | _ \<Rightarrow> [])
      in \<lparr>al_revision = revision, al_executed = executed,
          al_version = (case desired of Some v \<Rightarrow> v | None \<Rightarrow> []),
          al_versioned = versioned @ (if baseline then versionScopedActionNames stage else []),
          al_lifetimeDone = []\<rparr>)"

text \<open>A forced stage loses its revision ledger for this pass; a scope reset clears every version
  ledger.\<close>

definition force_target :: "StageSet \<Rightarrow> (string \<rightharpoonup> StageStatus) \<Rightarrow> string \<times> string" where
  "force_target ss priorStages =
     (case parseReconcileStage ss of
        (forceStage, forceToken) \<Rightarrow>
          (case priorStages forceStage of
             None \<Rightarrow> ([], [])
           | Some prior \<Rightarrow>
               if forceStage = [] \<or> ss_LastHandledReconcileAt prior = forceToken then ([], [])
               else (forceStage, forceToken)))"

definition apply_force ::
  "StageSet \<Rightarrow> (string \<rightharpoonup> StageStatus) \<Rightarrow> (string \<rightharpoonup> StageStatus)" where
  "apply_force ss priorStages =
     (let (forceStage, forceToken) = force_target ss priorStages in
      if forceStage = [] then priorStages
      else (case priorStages forceStage of
          None \<Rightarrow> priorStages
        | Some prior \<Rightarrow> priorStages(forceStage \<mapsto>
            prior\<lparr>ss_ExecutedActions := [], ss_LedgerRevision := []\<rparr>)))"

definition apply_reset_scope ::
  "StageSet \<Rightarrow> string \<Rightarrow> (string \<rightharpoonup> StageStatus) \<Rightarrow> (string \<rightharpoonup> StageStatus)" where
  "apply_reset_scope ss lastHandled priorStages =
     (let token = annotation ss resetScopeAnnotation in
      if token \<noteq> [] \<and> token \<noteq> lastHandled
      then (\<lambda>n. map_option (\<lambda>p. p\<lparr>ss_ExecutedVersionActions := [], ss_LedgerVersion := []\<rparr>) (priorStages n))
      else priorStages)"

definition lastHandledFor ::
  "StageSet \<Rightarrow> (string \<rightharpoonup> StageStatus) \<Rightarrow> string \<Rightarrow> string" where
  "lastHandledFor ss priorStages name =
     (let (forceStage, forceToken) = force_target ss priorStages in
      if name = forceStage then forceToken
      else (case priorStages name of Some p \<Rightarrow> ss_LastHandledReconcileAt p | None \<Rightarrow> []))"

section \<open>Stage failures\<close>

text \<open>What the error tests tell apart: permanent API errors, terminal fetch errors, the rest.\<close>

record cause =
  cause_permanent :: bool
  cause_unauthorized :: bool
  cause_terminal_fetch :: bool
  cause_text :: string

datatype fail_reason =
    ReasonRBACDenied | ReasonStageFailed | ReasonMigrationFailed | ReasonMigrationDirty
  | ReasonImageUnverified | ReasonActionDirty

definition opMigration :: string where
  "opMigration = ''migration''"

definition opMigrationDirty :: string where
  "opMigrationDirty = ''migration halted (dirty)''"

definition opImageVerification :: string where
  "opImageVerification = ''image verification''"

definition opActionDirty :: string where
  "opActionDirty = ''action halted (dirty)''"

definition maxActionFailures :: int where
  "maxActionFailures = 5"

definition maxMigrationFailures :: int where
  "maxMigrationFailures = 5"

definition failReason :: "string \<Rightarrow> cause \<Rightarrow> fail_reason \<times> bool" where
  "failReason op c =
     (if cause_permanent c then (ReasonRBACDenied, True)
      else if op = ''fetch artifact'' \<and> cause_terminal_fetch c then (ReasonStageFailed, True)
      else if op = opMigration then (ReasonMigrationFailed, False)
      else if op = opMigrationDirty then (ReasonMigrationDirty, True)
      else if op = opImageVerification then (ReasonImageUnverified, True)
      else if op = opActionDirty then (ReasonActionDirty, True)
      else (ReasonStageFailed, False))"

definition stageHasPendingLifetime :: "Stage \<Rightarrow> string list \<Rightarrow> bool" where
  "stageHasPendingLifetime stage done =
     (let names = stageLifetimeActionNames stage in
      names \<noteq> [] \<and> list_ex (\<lambda>n. n \<notin> set done) names)"

definition actionFailureOp :: "StageSet \<Rightarrow> Stage \<Rightarrow> string list \<Rightarrow> string \<Rightarrow> StageSet \<times> string" where
  "actionFailureOp ss stage gateDone phase =
     (if \<not> stageHasPendingLifetime stage gateDone then (ss, phase)
      else let ss' = ss\<lparr>set_ActionFailureCount := set_ActionFailureCount ss + 1\<rparr> in
        if maxActionFailures \<le> set_ActionFailureCount ss' then (ss', opActionDirty) else (ss', phase))"

text \<open>The status entry a failing stage gets, and the statuses the failure writes.\<close>

definition failed_entry :: "string \<Rightarrow> string \<Rightarrow> actionLedger \<Rightarrow> StageStatus" where
  "failed_entry stage msg led =
     stamp led ((stage_status stage StageFailed (al_revision led))\<lparr>ss_Message := msg\<rparr>)"

definition failStage ::
  "StageSet \<Rightarrow> string \<Rightarrow> string \<Rightarrow> cause \<Rightarrow> StageStatus list \<Rightarrow> actionLedger \<Rightarrow> StageSet \<times> fail_reason \<times> bool" where
  "failStage ss stage op c prior led =
     (let (reason, terminal) = failReason op c;
          msg = (if reason \<noteq> ReasonRBACDenied \<and> (op = ''decrypt'' \<or> op = ''configure decryption'')
                 then op @ '': decryption failed'' else op @ '': '' @ cause_text c)
      in (ss\<lparr>set_Stages := mergeStageStatuses ss (prior @ [failed_entry stage msg led])\<rparr>, reason, terminal))"

section \<open>Zero values\<close>

text \<open>Structs with every optional field at its zero value, for examples.\<close>

definition plain_stage :: "string \<Rightarrow> Stage" where
  "plain_stage name =
     \<lparr>stg_Name = name, stg_MigrationAnchor = [],
      stg_SourceRef = \<lparr>src_APIVersion = [], src_Kind = [], src_Name = name, src_Namespace = []\<rparr>,
      stg_Path = [], stg_ServiceAccountName = [], stg_Prune = None, stg_Timeout = None,
      stg_OnTimeout = [], stg_Force = False, stg_ConflictPolicy = None,
      stg_ApplyHelmHookResources = None, stg_Patches = [], stg_PostBuild = None, stg_Actions = None,
      stg_ReadyChecks = None, stg_Promotion = None, stg_ErrorBudget = None\<rparr>"

definition plain_spec :: "Stage list \<Rightarrow> StageSetSpec" where
  "plain_spec stages =
     \<lparr>spec_Interval = 0, spec_RetryInterval = None, spec_DriftDetectionInterval = None,
      spec_Timeout = None, spec_OnTimeout = [], spec_Suspend = False, spec_DependsOn = [],
      spec_ServiceAccountName = [], spec_KubeConfig = None, spec_Decryption = None,
      spec_Version = None, spec_Migrations = [], spec_MigrationsSourceRef = None,
      spec_RollbackOnFailure = False, spec_OnRollback = [], spec_UpdateWindows = [],
      spec_WindowScope = [], spec_ErrorBudget = None, spec_Stages = stages\<rparr>"

definition plain_set :: "Stage list \<Rightarrow> StageSet" where
  "plain_set stages =
     \<lparr>set_Namespace = ''prod'', set_Name = ''web'', set_Generation = 1, set_Annotations = Map.empty,
      set_DeletionTimestamp = None, set_Spec = plain_spec stages, set_Stages = [],
      set_ActionFailureCount = 0\<rparr>"

end
