(* ===== verification/Teardown.thy ===== *)
theory Teardown
  imports StageControl "HOL-Library.Sublist"
begin

text \<open>
  Teardown when a StageSet is deleted (\<open>reconcileDelete\<close>, \<open>teardownFailure\<close>,
  \<open>teardownDropDecision\<close>, \<open>teardownTimedOut\<close>, \<open>stagesByPositionDesc\<close>): the applied objects go in
  reverse stage order, a failure keeps the finalizer unless waiting cannot help or went on too long.
\<close>

section \<open>Definitions\<close>

definition stagesByPositionDesc :: "StageRecord list \<Rightarrow> StageRecord list" where
  "stagesByPositionDesc = sort_key (\<lambda>r. (- rec_Position r, rec_Name r))"

interpretation by_position: key_sort "\<lambda>r. (- rec_Position r, rec_Name r)" stagesByPositionDesc
  by unfold_locales (simp_all add: stagesByPositionDesc_def)

definition defaultMaxTeardownWait :: duration where
  "defaultMaxTeardownWait = Hour"

datatype drop_reason = DropTimedOut | DropPermanent | DropUnauthorized

definition teardownTimedOut :: "duration \<Rightarrow> instant \<Rightarrow> StageSet \<Rightarrow> bool \<times> duration" where
  "teardownTimedOut maxWait now ss =
     (case set_DeletionTimestamp ss of
        None \<Rightarrow> (False, 0)
      | Some t \<Rightarrow>
          let wait = (if maxWait \<le> 0 then defaultMaxTeardownWait else maxWait);
              elapsed = now - t
          in (wait \<le> elapsed, elapsed))"

definition teardownDropDecision ::
  "duration \<Rightarrow> instant \<Rightarrow> StageSet \<Rightarrow> cause \<Rightarrow> (drop_reason \<times> duration) option" where
  "teardownDropDecision maxWait now ss c =
     (let (timedOut, waited) = teardownTimedOut maxWait now ss;
          elapsed = (case set_DeletionTimestamp ss of None \<Rightarrow> 0 | Some t \<Rightarrow> now - t)
      in if timedOut then Some (DropTimedOut, waited)
         else if cause_permanent c then Some (DropPermanent, elapsed)
         else if cause_unauthorized c then Some (DropUnauthorized, elapsed)
         else None)"

text \<open>The finalizer, and how the reconcile ended.\<close>

datatype teardown_result =
    NothingToDo
  | TornDown
  | ForceDropped drop_reason
  | RetryLater cause
  | UpdateFailed

text \<open>The second component says whether the finalizer is still on.\<close>

definition teardownFailure ::
  "duration \<Rightarrow> instant \<Rightarrow> bool \<Rightarrow> StageSet \<Rightarrow> cause \<Rightarrow> teardown_result \<times> bool" where
  "teardownFailure maxWait now update_fails ss c =
     (case teardownDropDecision maxWait now ss c of
        None \<Rightarrow> (RetryLater c, True)
      | Some (reason, elapsed) \<Rightarrow>
          if update_fails then (UpdateFailed, True) else (ForceDropped reason, False))"

text \<open>The loop over the recorded stages; \<open>log\<close> collects the stages whose objects were deleted.\<close>

fun teardown_stages ::
  "(string \<rightharpoonup> bool) \<Rightarrow> (string \<Rightarrow> bool) \<Rightarrow> (string \<Rightarrow> cause option) \<Rightarrow> (string \<Rightarrow> cause option)
   \<Rightarrow> StageRecord list \<Rightarrow> world \<Rightarrow> StageRecord list \<Rightarrow> world \<times> StageRecord list \<times> cause option" where
  "teardown_stages prune in_spec connect del [] w log = (w, log, None)"
| "teardown_stages prune in_spec connect del (r # rest) w log =
     (if prune (rec_Name r) = Some False then teardown_stages prune in_spec connect del rest w log
      else if rec_Entries r = [] then teardown_stages prune in_spec connect del rest w log
      else (case (if in_spec (rec_Name r) then connect (rec_Name r) else None) of
          Some c \<Rightarrow> (w, log, Some c)
        | None \<Rightarrow>
            (case del (rec_Name r) of
               Some c \<Rightarrow> (w, log, Some c)
             | None \<Rightarrow> teardown_stages prune in_spec connect del rest
                 (w\<lparr>live := delete_refs (rec_Entries r) (live w)\<rparr>) (log @ [r]))))"

definition stage_prunes :: "StageSet \<Rightarrow> (string \<rightharpoonup> bool)" where
  "stage_prunes ss =
     map_of_last (map (\<lambda>s. (stg_Name s, stagePrune (stg_Prune s))) (spec_Stages (set_Spec ss)))"

record teardown_env =
  te_now :: instant
  te_maxWait :: duration
  te_connect_default :: "cause option"
  te_read_records :: "cause option"
  te_connect :: "string \<Rightarrow> cause option"
  te_delete :: "string \<Rightarrow> cause option"
  te_update_fails :: bool

definition reconcileDelete ::
  "teardown_env \<Rightarrow> bool \<Rightarrow> StageSet \<Rightarrow> world \<Rightarrow> world \<times> StageRecord list \<times> teardown_result \<times> bool" where
  "reconcileDelete env finalizer ss w =
     (let fail = teardownFailure (te_maxWait env) (te_now env) (te_update_fails env) ss in
      if \<not> finalizer then (w, [], NothingToDo, False)
      else case te_connect_default env of
        Some c \<Rightarrow> (w, [], fail c)
      | None \<Rightarrow> (case te_read_records env of
          Some c \<Rightarrow> (w, [], fail c)
        | None \<Rightarrow>
            (case teardown_stages (stage_prunes ss)
               (\<lambda>n. n \<in> stg_Name ` set (spec_Stages (set_Spec ss))) (te_connect env) (te_delete env)
               (stagesByPositionDesc (recs w)) w [] of
               (w', log, Some c) \<Rightarrow> (w', log, fail c)
             | (w', log, None) \<Rightarrow>
                 if te_update_fails env then (w', log, UpdateFailed, True)
                 else (w', log, TornDown, False))))"

section \<open>Facts\<close>

lemma teardown_stages_prunable:
  "prunable (fst (teardown_stages prune in_spec connect del rs w log)) i \<Longrightarrow> prunable w i"
  by (induction prune in_spec connect del rs w log rule: teardown_stages.induct)
    (auto simp: delete_prunable split: if_splits option.splits)

lemma teardown_stages_done:
  "snd (snd (teardown_stages prune in_spec connect del rs w log)) = None \<Longrightarrow> r \<in> set rs \<Longrightarrow>
   prune (rec_Name r) \<noteq> Some False \<Longrightarrow> i \<in> entry_ids (rec_Entries r) \<Longrightarrow>
   \<not> prunable (fst (teardown_stages prune in_spec connect del rs w log)) i"
proof (induction prune in_spec connect del rs w log rule: teardown_stages.induct)
  case (2 prune in_spec connect del r' rest w log)
  show ?case
  proof (cases "r = r'")
    case True
    let ?w = "w\<lparr>live := delete_refs (rec_Entries r) (live w)\<rparr>"
    have ne: "rec_Entries r \<noteq> []" using "2.prems"(4) by auto
    then have eq: "teardown_stages prune in_spec connect del (r' # rest) w log =
        teardown_stages prune in_spec connect del rest ?w (log @ [r])"
      using "2.prems" True by (auto split: if_splits option.splits)
    have "\<not> prunable ?w i" using "2.prems"(4) by (simp add: delete_prunable)
    then show ?thesis unfolding eq using teardown_stages_prunable by blast
  next
    case False
    with 2 show ?thesis by (auto split: if_splits option.splits)
  qed
qed simp

lemma teardown_stages_step:
  obtains (skip) "teardown_stages prune in_spec connect del (r # rest) w log =
      teardown_stages prune in_spec connect del rest w log"
    | (stop) c where "teardown_stages prune in_spec connect del (r # rest) w log = (w, log, Some c)"
    | (del) "prune (rec_Name r) \<noteq> Some False"
      "teardown_stages prune in_spec connect del (r # rest) w log =
       teardown_stages prune in_spec connect del rest
         (w\<lparr>live := delete_refs (rec_Entries r) (live w)\<rparr>) (log @ [r])"
  by (cases "prune (rec_Name r) = Some False \<or> rec_Entries r = []";
      cases "if in_spec (rec_Name r) then connect (rec_Name r) else None";
      cases "del (rec_Name r)") auto

lemma teardown_stages_live:
  "live (fst (teardown_stages prune in_spec connect del rs w log)) i = live w i \<or>
   (prunable w i \<and> (\<exists>r\<in>set rs. prune (rec_Name r) \<noteq> Some False \<and> i \<in> entry_ids (rec_Entries r)))"
proof (induction rs arbitrary: w log)
  case (Cons r rest)
  show ?case
  proof (cases rule: teardown_stages_step [of prune in_spec connect del r rest w log])
    case skip
    with Cons.IH [of w log] show ?thesis by auto
  next
    case (stop c)
    then show ?thesis by simp
  next
    case del
    let ?w = "w\<lparr>live := delete_refs (rec_Entries r) (live w)\<rparr>"
    have "live ?w i = live w i \<or> (prunable w i \<and> i \<in> entry_ids (rec_Entries r))"
      using delete_refs_cases [of "rec_Entries r" "live w" i] by (auto simp: prunable_def)
    moreover have "prunable ?w i \<Longrightarrow> prunable w i" by (simp add: delete_prunable)
    ultimately show ?thesis using Cons.IH [of ?w "log @ [r]"] del by auto
  qed
qed simp

text \<open>The deletions happen in the order of the records.\<close>

lemma teardown_stages_log:
  "\<exists>d. fst (snd (teardown_stages prune in_spec connect del rs w log)) = log @ d \<and> subseq d rs"
proof (induction rs arbitrary: w log)
  case (Cons r rest)
  show ?case
  proof (cases rule: teardown_stages_step [of prune in_spec connect del r rest w log])
    case skip
    with Cons.IH [of w log] show ?thesis by auto
  next
    case (stop c)
    then show ?thesis by (intro exI [of _ "[]"]) simp
  next
    case del
    then obtain d where "fst (snd (teardown_stages prune in_spec connect del (r # rest) w log)) =
        (log @ [r]) @ d" "subseq d rest"
      using Cons.IH by metis
    then show ?thesis by (intro exI [of _ "r # d"]) simp
  qed
qed simp

lemma subseq_sorted:
  "subseq xs ys \<Longrightarrow> sorted (map f ys) \<Longrightarrow> sorted (map f xs)"
proof (induction xs ys rule: list_emb.induct)
  case (list_emb_Cons2 x y xs ys)
  then have "set xs \<subseteq> set ys" by (auto elim: list_emb_set)
  with list_emb_Cons2 show ?case by auto
qed auto

section \<open>Properties\<close>

text \<open>Reverse order. Whatever the inventory holds and whichever call fails, the stages whose
  objects were deleted were taken in descending order of their recorded position, ties by name.\<close>

theorem teardown_reverse_order:
  assumes "reconcileDelete env finalizer ss w = (w', log, res, fin)" and "i < j" and "j < length log"
  shows "rec_Position (log ! j) \<le> rec_Position (log ! i) \<and>
    (rec_Position (log ! i) = rec_Position (log ! j) \<longrightarrow> rec_Name (log ! i) \<le> rec_Name (log ! j))"
proof -
  let ?k = "\<lambda>r. (- rec_Position r, rec_Name r)"
  have "subseq log (stagesByPositionDesc (recs w))"
    using assms(1) teardown_stages_log [of "stage_prunes ss" "\<lambda>n. n \<in> stg_Name ` set (spec_Stages (set_Spec ss))"
        "te_connect env" "te_delete env" "stagesByPositionDesc (recs w)" w "[]"]
    by (auto simp: reconcileDelete_def Let_def split: if_splits option.splits prod.splits)
  then have "sorted (map ?k log)"
    using subseq_sorted by_position.srt_sorted by metis
  then have "?k (log ! i) \<le> ?k (log ! j)" using assms(2,3) by (rule sorted_keys_nth)
  then show ?thesis by (auto simp: less_eq_prod_def)
qed

text \<open>The error a step of the teardown met.\<close>

definition met_error :: "teardown_env \<Rightarrow> cause \<Rightarrow> bool" where
  "met_error env c \<longleftrightarrow> te_connect_default env = Some c \<or> te_read_records env = Some c \<or>
     (\<exists>n. te_connect env n = Some c \<or> te_delete env n = Some c)"

lemma teardown_stages_error:
  "teardown_stages prune in_spec connect del rs w log = (w', log', Some c) \<Longrightarrow>
   \<exists>n. connect n = Some c \<or> del n = Some c"
  by (induction prune in_spec connect del rs w log rule: teardown_stages.induct)
    (auto split: if_splits option.splits)

lemma teardownFailure_drop:
  "teardownFailure (te_maxWait env) now uf ss c = (r, False) \<Longrightarrow>
   \<exists>reason. r = ForceDropped reason \<and>
      (case reason of
         DropTimedOut \<Rightarrow> (\<exists>t. set_DeletionTimestamp ss = Some t \<and>
           (if te_maxWait env \<le> 0 then defaultMaxTeardownWait else te_maxWait env) \<le> now - t)
       | DropPermanent \<Rightarrow> cause_permanent c
       | DropUnauthorized \<Rightarrow> cause_unauthorized c)"
  by (auto simp: teardownFailure_def teardownDropDecision_def teardownTimedOut_def Let_def
      split: option.splits if_splits)


text \<open>Opted-out stages are left alone. Teardown touches only objects that a recorded stage without
  \<open>prune: false\<close> holds, that carry the owner labels and are not opted out of pruning.\<close>

theorem teardown_frame:
  assumes "reconcileDelete env finalizer ss w = (w', log, res, fin)" and "live w' i \<noteq> live w i"
  shows "prunable w i \<and>
    (\<exists>r\<in>set (recs w). stage_prunes ss (rec_Name r) \<noteq> Some False \<and> i \<in> entry_ids (rec_Entries r))"
proof -
  have "w' = fst (teardown_stages (stage_prunes ss)
      (\<lambda>n. n \<in> stg_Name ` set (spec_Stages (set_Spec ss))) (te_connect env) (te_delete env)
      (stagesByPositionDesc (recs w)) w [])"
    using assms by (auto simp: reconcileDelete_def Let_def split: if_splits option.splits prod.splits)
  then show ?thesis
    using assms(2) teardown_stages_live [of "stage_prunes ss"
        "\<lambda>n. n \<in> stg_Name ` set (spec_Stages (set_Spec ss))" "te_connect env" "te_delete env"
        "stagesByPositionDesc (recs w)" w "[]" i] by auto
qed

subsection \<open>Witnesses\<close>

definition quiet_env :: teardown_env where
  "quiet_env = \<lparr>te_now = 10, te_maxWait = 5, te_connect_default = None, te_read_records = None,
     te_connect = (\<lambda>_. None), te_delete = (\<lambda>_. None), te_update_fails = False\<rparr>"

definition two_stage_world :: world where
  "two_stage_world = \<lparr>live = [ID (demo_ref ''a'' ''v1'') \<mapsto> owned_live, ID (demo_ref ''c'' ''v1'') \<mapsto> owned_live],
     recs = [\<lparr>rec_Name = ''one'', rec_Position = 0, rec_Entries = [demo_ref ''a'' ''v1'']\<rparr>,
             \<lparr>rec_Name = ''two'', rec_Position = 1, rec_Entries = [demo_ref ''c'' ''v1'']\<rparr>]\<rparr>"

abbreviation demo_teardown :: "world \<times> StageRecord list \<times> teardown_result \<times> bool" where
  "demo_teardown \<equiv> reconcileDelete quiet_env True (plain_set [plain_stage ''one'']) two_stage_world"

lemma demo_teardown_facts:
  "length (fst (snd demo_teardown)) = 2" "fst (snd (snd demo_teardown)) = TornDown"
  "snd (snd (snd demo_teardown)) = False"
  "live (fst demo_teardown) (ID (demo_ref ''a'' ''v1'')) = None"
  "live two_stage_world (ID (demo_ref ''a'' ''v1'')) = Some owned_live"
  by code_simp+

lemma demo_two_stages:
  "\<lparr>rec_Name = ''two'', rec_Position = 1, rec_Entries = [demo_ref ''c'' ''v1'']\<rparr> \<in> set (recs two_stage_world)"
  "stage_prunes (plain_set [plain_stage ''one'']) (rec_Name \<lparr>rec_Name = ''two'', rec_Position = 1,
     rec_Entries = [demo_ref ''c'' ''v1'']\<rparr>) \<noteq> Some False"
  "ID (demo_ref ''c'' ''v1'') \<in> entry_ids (rec_Entries \<lparr>rec_Name = ''two'', rec_Position = 1,
     rec_Entries = [demo_ref ''c'' ''v1'']\<rparr>)"
  by (simp add: two_stage_world_def, code_simp, simp add: entry_ids_Cons)

lemma demo_teardown_eq:
  "demo_teardown = (fst demo_teardown, fst (snd demo_teardown), TornDown, False)"
  using demo_teardown_facts(2,3) by (metis prod.collapse)

theorem teardown_reverse_order_witness:
  "rec_Position (fst (snd demo_teardown) ! 1) \<le> rec_Position (fst (snd demo_teardown) ! 0)"
  using teardown_reverse_order [OF demo_teardown_eq, of 0 1] demo_teardown_facts(1) by simp


theorem teardown_frame_witness:
  "prunable two_stage_world (ID (demo_ref ''a'' ''v1''))"
  using teardown_frame [OF demo_teardown_eq, of "ID (demo_ref ''a'' ''v1'')"] demo_teardown_facts(4,5)
  by simp

end
