(* ===== verification/Dependencies.thy ===== *)
theory Dependencies
  imports Types
begin

text \<open>
  The dependsOn graph (\<open>internal/controller/stageset_controller.go\<close>): the breadth-first search for a
  cycle, the readiness verdict over the dependencies with version floors, and the mapping that wakes
  dependents. The cluster is a finite list of StageSets, with an oracle for reads that fail. The
  semver library is a parameter: a parser into a linearly ordered type.
\<close>

section \<open>StageSets as the graph sees them\<close>

record StageSetObj =
  so_Namespace :: string
  so_Name :: string
  so_DependsOn :: "Dependency list"
  so_Generation :: int
  so_ObservedGeneration :: int
  so_Ready :: "string option"
  so_PendingUpdate :: "PendingUpdate option"
  so_Version :: string

datatype get_error = GetNotFound | GetFailed string

definition so_key :: "StageSetObj \<Rightarrow> string" where
  "so_key d = so_Namespace d @ ''/'' @ so_Name d"

text \<open>One read through \<open>graphReader\<close>.\<close>

definition graph_get ::
  "StageSetObj list \<Rightarrow> (string \<Rightarrow> string \<Rightarrow> string option) \<Rightarrow> string \<Rightarrow> string \<Rightarrow> get_error + StageSetObj" where
  "graph_get cluster fault ns name =
     (case fault ns name of
        Some e \<Rightarrow> Inl (GetFailed e)
      | None \<Rightarrow> (case find (\<lambda>d. so_Namespace d = ns \<and> so_Name d = name) cluster of
          None \<Rightarrow> Inl GetNotFound
        | Some d \<Rightarrow> Inr d))"

definition dep_namespace :: "string \<Rightarrow> Dependency \<Rightarrow> string" where
  "dep_namespace own dep = (if dep_Namespace dep = [] then own else dep_Namespace dep)"

definition dependsOnKeys :: "StageSetObj \<Rightarrow> string list" where
  "dependsOnKeys ss =
     map (\<lambda>dep. dep_namespace (so_Namespace ss) dep @ ''/'' @ dep_Name dep) (so_DependsOn ss)"

definition splitKey :: "string \<Rightarrow> (string \<times> string) option" where
  "splitKey k = (case cut (CHR ''/'') k of (before, after, ok) \<Rightarrow> if ok then Some (before, after) else None)"

lemma splitKey_Some: "splitKey k = Some (ns, name) \<Longrightarrow> k = ns @ ''/'' @ name"
  by (auto simp: splitKey_def split: prod.splits if_splits dest!: cut_found)

lemma graph_get_Inr:
  "graph_get cluster fault ns name = Inr d \<Longrightarrow>
   d \<in> set cluster \<and> so_Namespace d = ns \<and> so_Name d = name"
  by (auto simp: graph_get_def split: option.splits dest!: find_Some_mem)

section \<open>Cycles\<close>

definition unseen :: "StageSetObj list \<Rightarrow> string list \<Rightarrow> string set" where
  "unseen cluster seen = {k \<in> so_key ` set cluster. k \<notin> set seen}"

lemma finite_unseen [simp]: "finite (unseen cluster seen)"
  by (simp add: unseen_def)

lemma card_unseen_le: "card (unseen cluster (k # seen)) \<le> card (unseen cluster seen)"
  by (intro card_mono) (auto simp: unseen_def)

lemma card_unseen_less:
  "splitKey k = Some (ns, name) \<Longrightarrow> graph_get cluster fault ns name = Inr d \<Longrightarrow> k \<notin> set seen \<Longrightarrow>
   card (unseen cluster (k # seen)) < card (unseen cluster seen)"
proof (intro psubset_card_mono finite_unseen)
  assume s: "splitKey k = Some (ns, name)" and g: "graph_get cluster fault ns name = Inr d"
    and n: "k \<notin> set seen"
  have "k \<in> so_key ` set cluster"
    using graph_get_Inr [OF g] splitKey_Some [OF s] by (auto simp: so_key_def)
  then have "k \<in> unseen cluster seen" using n by (simp add: unseen_def)
  moreover have "k \<notin> unseen cluster (k # seen)" by (simp add: unseen_def)
  moreover have "unseen cluster (k # seen) \<subseteq> unseen cluster seen" by (auto simp: unseen_def)
  ultimately show "unseen cluster (k # seen) \<subset> unseen cluster seen" by blast
qed

text \<open>Every round either shortens the queue or marks an existing StageSet as seen.\<close>

function (sequential) cycle_bfs ::
  "StageSetObj list \<Rightarrow> (string \<Rightarrow> string \<Rightarrow> string option) \<Rightarrow> string \<Rightarrow> string list \<Rightarrow> string list
   \<Rightarrow> string + bool" where
  "cycle_bfs cluster fault start seen [] = Inr False"
| "cycle_bfs cluster fault start seen (k # queue) =
     (if k = start then Inr True
      else if k \<in> set seen then cycle_bfs cluster fault start seen queue
      else (case splitKey k of
          None \<Rightarrow> cycle_bfs cluster fault start (k # seen) queue
        | Some (ns, name) \<Rightarrow>
            (case graph_get cluster fault ns name of
               Inl GetNotFound \<Rightarrow> cycle_bfs cluster fault start (k # seen) queue
             | Inl (GetFailed e) \<Rightarrow> Inl e
             | Inr d \<Rightarrow> cycle_bfs cluster fault start (k # seen) (queue @ dependsOnKeys d))))"
  by pat_completeness auto

termination
proof (relation "measures [\<lambda>(cluster, fault, start, seen, queue). card (unseen cluster seen),
    \<lambda>(cluster, fault, start, seen, queue). length queue]", goal_cases)
  case (3 cluster fault start seen k queue)
  then show ?case using card_unseen_le [of cluster k seen] by auto
next
  case (4 cluster fault start seen k queue p ns name g)
  then show ?case using card_unseen_le [of cluster k seen] by auto
next
  case (5 cluster fault start seen k queue p ns name d)
  then show ?case using card_unseen_less by auto
qed auto

definition hasDependencyCycle ::
  "StageSetObj list \<Rightarrow> (string \<Rightarrow> string \<Rightarrow> string option) \<Rightarrow> StageSetObj \<Rightarrow> string + bool" where
  "hasDependencyCycle cluster fault ss =
     cycle_bfs cluster fault (so_Namespace ss @ ''/'' @ so_Name ss) [] (dependsOnKeys ss)"

definition no_fault :: "string \<Rightarrow> string \<Rightarrow> string option" where
  "no_fault ns name = None"

text \<open>The graph itself: an edge leads from an existing StageSet to each key it depends on.\<close>

definition successors :: "StageSetObj list \<Rightarrow> string \<Rightarrow> string list" where
  "successors cluster k =
     (case splitKey k of
        None \<Rightarrow> []
      | Some (ns, name) \<Rightarrow>
          (case graph_get cluster no_fault ns name of Inl _ \<Rightarrow> [] | Inr d \<Rightarrow> dependsOnKeys d))"

definition depends_on :: "StageSetObj list \<Rightarrow> string \<Rightarrow> string \<Rightarrow> bool" where
  "depends_on cluster k k' \<longleftrightarrow> k' \<in> set (successors cluster k)"

lemma graph_get_no_fault: "graph_get cluster no_fault ns name \<noteq> Inl (GetFailed e)"
  by (auto simp: graph_get_def no_fault_def split: option.split)

lemma bfs_step:
  "cycle_bfs cluster no_fault start seen (k # queue) =
     (if k = start then Inr True
      else if k \<in> set seen then cycle_bfs cluster no_fault start seen queue
      else cycle_bfs cluster no_fault start (k # seen) (queue @ successors cluster k))"
  using graph_get_no_fault
  by (auto simp: successors_def split: option.split sum.split get_error.split)

declare cycle_bfs.simps(2) [simp del]

lemma bfs_induct:
  assumes nil: "\<And>seen. P seen []"
    and step: "\<And>seen k queue. (k \<noteq> start \<Longrightarrow> k \<in> set seen \<Longrightarrow> P seen queue) \<Longrightarrow>
      (k \<noteq> start \<Longrightarrow> k \<notin> set seen \<Longrightarrow> P (k # seen) (queue @ successors cluster k)) \<Longrightarrow>
      P seen (k # queue)"
  shows "P seen queue"
proof -
  have "fault = no_fault \<longrightarrow> cl = cluster \<longrightarrow> st = start \<longrightarrow> P seen queue" for cl fault st
  proof (induction cl fault st seen queue rule: cycle_bfs.induct)
    case (1 cl fault st seen)
    show ?case by (simp add: nil)
  next
    case (2 cl fault st seen k queue)
    show ?case
    proof (intro impI)
      assume eq: "fault = no_fault" "cl = cluster" "st = start"
      show "P seen (k # queue)"
      proof (rule step)
        assume n: "k \<noteq> start" "k \<notin> set seen"
        show "P (k # seen) (queue @ successors cluster k)"
        proof (cases "splitKey k")
          case None
          with n 2 eq show ?thesis by (simp add: successors_def)
        next
          case (Some p)
          obtain ns name where p: "p = (ns, name)" by (cases p)
          show ?thesis
          proof (cases "graph_get cluster no_fault ns name")
            case (Inl e)
            with n 2 Some p eq graph_get_no_fault show ?thesis
              by (cases e) (simp_all add: successors_def)
          next
            case (Inr d)
            with n 2 Some p eq show ?thesis by (simp add: successors_def)
          qed
        qed
      qed (use 2 eq in simp)
    qed
  qed
  then show ?thesis by blast
qed

lemma bfs_sound:
  "cycle_bfs cluster no_fault start seen queue = Inr True \<Longrightarrow>
   \<exists>q\<in>set queue. (depends_on cluster)\<^sup>*\<^sup>* q start"
proof (induction seen queue rule: bfs_induct [where start = start and cluster = cluster])
  case (2 seen k queue)
  show ?case
  proof (cases "k = start \<or> k \<in> set seen")
    case True
    with 2 show ?thesis by (auto simp: bfs_step split: if_splits)
  next
    case False
    with 2 obtain q where q: "q \<in> set (queue @ successors cluster k)"
      "(depends_on cluster)\<^sup>*\<^sup>* q start"
      by (auto simp: bfs_step)
    show ?thesis
    proof (cases "q \<in> set queue")
      case True
      with q show ?thesis by auto
    next
      case False
      then have "depends_on cluster k q" using q by (simp add: depends_on_def)
      then have "(depends_on cluster)\<^sup>*\<^sup>* k start"
        using q(2) by (rule converse_rtranclp_into_rtranclp)
      then show ?thesis by auto
    qed
  qed
qed simp

lemma closed_unreachable:
  assumes "\<forall>k\<in>S. \<forall>k'. E k k' \<longrightarrow> k' \<in> S" and "k \<in> S" and "E\<^sup>*\<^sup>* k x"
  shows "x \<in> S"
  using assms(3,2) by (induction rule: rtranclp_induct) (use assms(1) in auto)

lemma bfs_complete:
  "cycle_bfs cluster no_fault start seen queue = Inr False \<Longrightarrow> start \<notin> set seen \<Longrightarrow>
   (\<forall>k\<in>set seen. set (successors cluster k) \<subseteq> set seen \<union> set queue) \<Longrightarrow>
   \<exists>S. set seen \<union> set queue \<subseteq> S \<and> start \<notin> S \<and> (\<forall>k\<in>S. set (successors cluster k) \<subseteq> S)"
proof (induction seen queue rule: bfs_induct [where start = start and cluster = cluster])
  case (1 seen)
  then show ?case by (intro exI [of _ "set seen"]) auto
next
  case (2 seen k queue)
  from "2.prems"(1) have ns: "k \<noteq> start" by (auto simp: bfs_step)
  show ?case
  proof (cases "k \<in> set seen")
    case True
    then have "set seen \<union> set (k # queue) = set seen \<union> set queue" by auto
    with 2 ns True show ?thesis by (simp add: bfs_step insert_absorb)
  next
    case False
    have "cycle_bfs cluster no_fault start (k # seen) (queue @ successors cluster k) = Inr False"
      using "2.prems"(1) ns False by (simp add: bfs_step)
    moreover have "\<forall>j\<in>set (k # seen). set (successors cluster j)
        \<subseteq> set (k # seen) \<union> set (queue @ successors cluster k)"
      using "2.prems"(3) by auto
    moreover have "start \<notin> set (k # seen)" using "2.prems"(2) ns by auto
    ultimately obtain S where "set (k # seen) \<union> set (queue @ successors cluster k) \<subseteq> S"
      "start \<notin> S" "\<forall>k\<in>S. set (successors cluster k) \<subseteq> S"
      using "2.IH"(2) [OF ns False] by blast
    then show ?thesis by (intro exI [of _ S]) auto
  qed
qed

lemma bfs_no_error: "\<exists>b. cycle_bfs cluster no_fault start seen queue = Inr b"
  by (induction seen queue rule: bfs_induct [where start = start and cluster = cluster])
    (auto simp: bfs_step intro: exI [of _ False])

section \<open>Readiness\<close>

definition isReady :: "StageSetObj \<Rightarrow> bool" where
  "isReady d \<longleftrightarrow> so_Ready d = Some ''True''"

text \<open>\<open>parse\<close> is \<open>semver.NewVersion\<close>; the error of the outer option is an invalid floor.\<close>

definition versionAtLeast :: "(string \<Rightarrow> 'v :: linorder option) \<Rightarrow> string \<Rightarrow> string \<Rightarrow> bool option" where
  "versionAtLeast parse deployed least =
     (case parse least of
        None \<Rightarrow> None
      | Some minV \<Rightarrow> (case parse deployed of None \<Rightarrow> Some False | Some haveV \<Rightarrow> Some (\<not> haveV < minV)))"

datatype dep_why =
    DependencyCycle
  | CrossNamespaceRejected string string
  | DependencyNotFound string string
  | DependencyNotReady string string
  | HeldByUpdateWindow string string
  | InvalidMinVersion string string
  | BelowMinVersion string string

definition update_held :: "StageSetObj \<Rightarrow> bool" where
  "update_held d \<longleftrightarrow> (case so_PendingUpdate d of None \<Rightarrow> False | Some p \<Rightarrow> pu_Revisions p \<noteq> Map.empty)"

definition check_dependency ::
  "(string \<Rightarrow> 'v :: linorder option) \<Rightarrow> bool \<Rightarrow> string \<Rightarrow> string \<Rightarrow> Dependency \<Rightarrow> StageSetObj \<Rightarrow> dep_why option" where
  "check_dependency parse noCross own ns dep d =
     (if \<not> isReady d \<or> so_ObservedGeneration d \<noteq> so_Generation d
      then Some (DependencyNotReady ns (dep_Name dep))
      else if update_held d then Some (HeldByUpdateWindow ns (dep_Name dep))
      else if dep_MinVersion dep \<noteq> [] then
        (case versionAtLeast parse (so_Version d) (dep_MinVersion dep) of
           None \<Rightarrow> Some (InvalidMinVersion ns (dep_Name dep))
         | Some ok \<Rightarrow> if \<not> ok then Some (BelowMinVersion ns (dep_Name dep)) else None)
      else None)"

fun check_dependencies ::
  "StageSetObj list \<Rightarrow> (string \<Rightarrow> string \<Rightarrow> string option) \<Rightarrow> (string \<Rightarrow> 'v :: linorder option) \<Rightarrow> bool
   \<Rightarrow> string \<Rightarrow> Dependency list \<Rightarrow> string + dep_why option" where
  "check_dependencies cluster fault parse noCross own [] = Inr None"
| "check_dependencies cluster fault parse noCross own (dep # deps) =
     (let ns = dep_namespace own dep in
      if ns \<noteq> own \<and> noCross then Inr (Some (CrossNamespaceRejected ns (dep_Name dep)))
      else (case graph_get cluster fault ns (dep_Name dep) of
          Inl GetNotFound \<Rightarrow> Inr (Some (DependencyNotFound ns (dep_Name dep)))
        | Inl (GetFailed e) \<Rightarrow> Inl e
        | Inr d \<Rightarrow>
            (case check_dependency parse noCross own ns dep d of
               Some why \<Rightarrow> Inr (Some why)
             | None \<Rightarrow> check_dependencies cluster fault parse noCross own deps)))"

definition dependenciesReady ::
  "StageSetObj list \<Rightarrow> (string \<Rightarrow> string \<Rightarrow> string option) \<Rightarrow> (string \<Rightarrow> 'v :: linorder option) \<Rightarrow> bool
   \<Rightarrow> StageSetObj \<Rightarrow> string + dep_why option" where
  "dependenciesReady cluster fault parse noCross ss =
     (if so_DependsOn ss = [] then Inr None
      else bind_result (hasDependencyCycle cluster fault ss) (\<lambda>cyclic.
        if cyclic then Inr (Some DependencyCycle)
        else check_dependencies cluster fault parse noCross (so_Namespace ss) (so_DependsOn ss)))"

section \<open>Waking dependents\<close>

definition mapStageSetDependents :: "StageSetObj list \<Rightarrow> StageSetObj \<Rightarrow> (string \<times> string) list" where
  "mapStageSetDependents cluster dep =
     map (\<lambda>ss. (so_Namespace ss, so_Name ss))
       (filter (\<lambda>ss. list_ex (\<lambda>d. dep_Name d = so_Name dep \<and>
            dep_namespace (so_Namespace ss) d = so_Namespace dep) (so_DependsOn ss))
         (filter (\<lambda>ss. so_Namespace ss = so_Namespace dep) cluster))"

definition mapSameName :: "string \<Rightarrow> string \<Rightarrow> (string \<times> string) list" where
  "mapSameName namespace name = [(namespace, name)]"

section \<open>Properties\<close>

text \<open>C38: cycle detection. On a cluster whose reads succeed the search always ends, and reports a cycle
  exactly when following dependsOn edges from the StageSet leads back to it, cycles elsewhere in the
  graph notwithstanding.\<close>

theorem hasDependencyCycle_exact:
  "\<exists>b. hasDependencyCycle cluster no_fault ss = Inr b \<and>
     (b \<longleftrightarrow> (\<exists>q\<in>set (dependsOnKeys ss). (depends_on cluster)\<^sup>*\<^sup>* q (so_key ss)))"
proof -
  have def: "hasDependencyCycle cluster no_fault ss =
      cycle_bfs cluster no_fault (so_key ss) [] (dependsOnKeys ss)"
    by (simp add: hasDependencyCycle_def so_key_def)
  obtain b where b: "cycle_bfs cluster no_fault (so_key ss) [] (dependsOnKeys ss) = Inr b"
    using bfs_no_error by blast
  have "b \<longleftrightarrow> (\<exists>q\<in>set (dependsOnKeys ss). (depends_on cluster)\<^sup>*\<^sup>* q (so_key ss))"
  proof (cases b)
    case True
    with b have "cycle_bfs cluster no_fault (so_key ss) [] (dependsOnKeys ss) = Inr True" by simp
    from bfs_sound [OF this] True show ?thesis by simp
  next
    case False
    then obtain S where S: "set (dependsOnKeys ss) \<subseteq> S" "so_key ss \<notin> S"
      "\<forall>k\<in>S. set (successors cluster k) \<subseteq> S"
      using bfs_complete [of cluster "so_key ss" "[]" "dependsOnKeys ss"] b by auto
    have "\<not> (depends_on cluster)\<^sup>*\<^sup>* q (so_key ss)" if "q \<in> set (dependsOnKeys ss)" for q
      using closed_unreachable [of S "depends_on cluster" q "so_key ss"] S that
      by (auto simp: depends_on_def)
    then show ?thesis using False by simp
  qed
  then show ?thesis unfolding def b by (intro exI [of _ b]) simp
qed

text \<open>What it takes for one dependency to be met.\<close>

definition dependency_met ::
  "StageSetObj list \<Rightarrow> (string \<Rightarrow> 'v :: linorder option) \<Rightarrow> bool \<Rightarrow> string \<Rightarrow> Dependency \<Rightarrow> bool" where
  "dependency_met cluster parse noCross own dep \<longleftrightarrow>
     (let ns = dep_namespace own dep in
      (ns = own \<or> \<not> noCross) \<and>
      (case graph_get cluster no_fault ns (dep_Name dep) of
         Inl _ \<Rightarrow> False
       | Inr d \<Rightarrow> so_Ready d = Some ''True'' \<and> so_ObservedGeneration d = so_Generation d \<and>
           \<not> update_held d \<and>
           (dep_MinVersion dep = [] \<or>
             (case (parse (dep_MinVersion dep), parse (so_Version d)) of
                (Some floor_version, Some deployed) \<Rightarrow> floor_version \<le> deployed
              | _ \<Rightarrow> False))))"

lemma check_dependency_met:
  "check_dependency parse noCross own ns dep d = None \<longleftrightarrow>
   so_Ready d = Some ''True'' \<and> so_ObservedGeneration d = so_Generation d \<and> \<not> update_held d \<and>
   (dep_MinVersion dep = [] \<or>
     (case (parse (dep_MinVersion dep), parse (so_Version d)) of
        (Some floor_version, Some deployed) \<Rightarrow> floor_version \<le> deployed | _ \<Rightarrow> False))"
  by (auto simp: check_dependency_def isReady_def versionAtLeast_def not_less split: option.splits)

lemma check_dependencies_met:
  "check_dependencies cluster no_fault parse noCross own deps = Inr None \<longleftrightarrow>
   list_all (dependency_met cluster parse noCross own) deps"
proof (induction deps)
  case (Cons dep deps)
  show ?case
  proof (cases "graph_get cluster no_fault (dep_namespace own dep) (dep_Name dep)")
    case (Inl e)
    then show ?thesis by (cases e) (auto simp: dependency_met_def Let_def)
  next
    case (Inr d)
    then have "dependency_met cluster parse noCross own dep \<longleftrightarrow>
        (dep_namespace own dep = own \<or> \<not> noCross) \<and>
        check_dependency parse noCross own (dep_namespace own dep) dep d = None"
      unfolding check_dependency_met dependency_met_def Let_def by simp
    with Inr Cons show ?thesis
      by (cases "check_dependency parse noCross own (dep_namespace own dep) dep d")
        (auto simp: Let_def)
  qed
qed simp

text \<open>The readiness verdict. With reads that succeed a StageSet may roll out exactly when it is on no
  cycle and every dependency is visible to it, exists, is Ready at its current generation, holds no
  new revision behind an update window and is deployed at or above the version floor.\<close>

theorem dependenciesReady_exact:
  "dependenciesReady cluster no_fault parse noCross ss = Inr None \<longleftrightarrow>
   so_DependsOn ss = [] \<or>
   (hasDependencyCycle cluster no_fault ss = Inr False \<and>
    list_all (dependency_met cluster parse noCross (so_Namespace ss)) (so_DependsOn ss))"
proof -
  obtain b where "hasDependencyCycle cluster no_fault ss = Inr b"
    using hasDependencyCycle_def bfs_no_error by metis
  then show ?thesis
    by (cases b) (auto simp: dependenciesReady_def check_dependencies_met)
qed

text \<open>Who is woken. A change of a StageSet enqueues exactly the StageSets of its own namespace that
  depend on it; a dependent in another namespace, which \<open>dependenciesReady\<close> accepts when
  cross-namespace references are allowed, is not among them.\<close>

theorem mapStageSetDependents_exact:
  "(ns, name) \<in> set (mapStageSetDependents cluster dep) \<longleftrightarrow>
   ns = so_Namespace dep \<and>
   (\<exists>ss\<in>set cluster. so_Namespace ss = ns \<and> so_Name ss = name \<and>
      (\<exists>d\<in>set (so_DependsOn ss). dep_Name d = so_Name dep \<and> dep_namespace ns d = so_Namespace dep))"
proof -
  have "(ns, name) \<in> set (mapStageSetDependents cluster dep) \<longleftrightarrow>
      (\<exists>ss\<in>set cluster. so_Namespace ss = so_Namespace dep \<and>
        (\<exists>d\<in>set (so_DependsOn ss). dep_Name d = so_Name dep \<and>
           dep_namespace (so_Namespace ss) d = so_Namespace dep) \<and>
        ns = so_Namespace ss \<and> name = so_Name ss)"
    unfolding mapStageSetDependents_def set_map set_filter list_ex_iff by blast
  then show ?thesis by metis
qed

end
