(* ===== verification/Guard.thy ===== *)
theory Guard
  imports Decimal "HOL-Library.Word"
begin

text \<open>
  The URL and address guard of \<open>internal/artifact/guard.go\<close>: \<open>inet_aton\<close> notations of IPv4 addresses,
  forbidden addresses and the URL check. Parsed numbers are 64-bit words, addresses are 4 or 16 bytes.
  URL parsing and \<open>net.ParseIP\<close> are parameters; the address predicates of package \<open>net\<close> are written out.
\<close>

unbundle bit_operations_syntax

type_synonym uint64 = "64 word"
type_synonym ip = "8 word list"

section \<open>Numbers in C notation\<close>

definition hex_val :: "char \<Rightarrow> nat option" where
  "hex_val c =
     (if is_digit c then Some (digit_val c)
      else if byte_in (CHR ''a'') (CHR ''f'') c then Some (byte c - 87)
      else if byte_in (CHR ''A'') (CHR ''F'') c then Some (byte c - 55)
      else None)"

fun uint_digits :: "nat \<Rightarrow> nat \<Rightarrow> string \<Rightarrow> nat option" where
  "uint_digits base acc [] = Some acc"
| "uint_digits base acc (c # cs) =
     (case hex_val c of
        Some d \<Rightarrow> if d < base then uint_digits base (base * acc + d) cs else None
      | None \<Rightarrow> None)"

text \<open>\<open>strconv.ParseUint(s, base, 64)\<close>: an empty string, a bad digit and a value out of range are errors.\<close>

definition ParseUint :: "nat \<Rightarrow> string \<Rightarrow> uint64 option" where
  "ParseUint base s =
     (if s = [] then None
      else (case uint_digits base 0 s of
          Some n \<Rightarrow> if n < 2 ^ 64 then Some (of_nat n) else None
        | None \<Rightarrow> None))"

definition parseCNumber :: "string \<Rightarrow> uint64 option" where
  "parseCNumber s =
     (if s = [] then None
      else if length s > 2 \<and> (has_prefix s ''0x'' \<or> has_prefix s ''0X'') then ParseUint 16 (drop 2 s)
      else if length s > 1 \<and> hd s = CHR ''0'' then ParseUint 8 (drop 1 s)
      else ParseUint 10 s)"

section \<open>Addresses\<close>

fun parse_parts :: "string list \<Rightarrow> uint64 list option" where
  "parse_parts [] = Some []"
| "parse_parts (p # ps) =
     (case parseCNumber p of
        None \<Rightarrow> None
      | Some v \<Rightarrow> (case parse_parts ps of None \<Rightarrow> None | Some vs \<Rightarrow> Some (v # vs)))"

text \<open>The loop over the leading parts: \<open>i\<close> counts them, each must be a byte.\<close>

fun leading_bytes :: "nat \<Rightarrow> uint64 \<Rightarrow> uint64 list \<Rightarrow> uint64 option" where
  "leading_bytes i addr [] = Some addr"
| "leading_bytes i addr (v # vs) =
     (if v > 0xff then None else leading_bytes (Suc i) (addr OR push_bit (8 * (3 - i)) v) vs)"

definition octets :: "uint64 \<Rightarrow> ip" where
  "octets addr = [ucast (drop_bit 24 addr), ucast (drop_bit 16 addr), ucast (drop_bit 8 addr), ucast addr]"

definition parseInetAtonIPv4 :: "string \<Rightarrow> ip option" where
  "parseInetAtonIPv4 host =
     (if host = [] then None
      else let parts = split_on (CHR ''.'') host in
        if length parts > 4 then None
        else (case parse_parts parts of
            None \<Rightarrow> None
          | Some vals \<Rightarrow>
              (case leading_bytes 0 0 (butlast vals) of
                 None \<Rightarrow> None
               | Some addr \<Rightarrow>
                   let final = last vals;
                       maxLast = of_nat (2 ^ (8 * (4 - length vals + 1))) - 1
                   in if final > maxLast then None
                      else let a = addr OR final in
                        if a > 0xffffffff then None else Some (octets a))))"

definition parseIPAny :: "(string \<Rightarrow> ip option) \<Rightarrow> string \<Rightarrow> ip option" where
  "parseIPAny ParseIP host = (case ParseIP host of Some ip \<Rightarrow> Some ip | None \<Rightarrow> parseInetAtonIPv4 host)"

text \<open>Package \<open>net\<close>: a 16-byte address with the IPv4-mapped prefix is its last four bytes.\<close>

definition To4 :: "ip \<Rightarrow> ip option" where
  "To4 ip =
     (if length ip = 4 then Some ip
      else if length ip = 16 \<and> take 12 ip = replicate 10 0 @ [0xff, 0xff] then Some (drop 12 ip)
      else None)"

definition IsLoopback :: "ip \<Rightarrow> bool" where
  "IsLoopback ip = (case To4 ip of Some ip4 \<Rightarrow> ip4 ! 0 = 127 | None \<Rightarrow> ip = replicate 15 0 @ [1])"

definition IsLinkLocalUnicast :: "ip \<Rightarrow> bool" where
  "IsLinkLocalUnicast ip = (case To4 ip of
     Some ip4 \<Rightarrow> ip4 ! 0 = 169 \<and> ip4 ! 1 = 254
   | None \<Rightarrow> length ip = 16 \<and> ip ! 0 = 0xfe \<and> ip ! 1 AND 0xc0 = 0x80)"

definition IsLinkLocalMulticast :: "ip \<Rightarrow> bool" where
  "IsLinkLocalMulticast ip = (case To4 ip of
     Some ip4 \<Rightarrow> ip4 ! 0 = 224 \<and> ip4 ! 1 = 0 \<and> ip4 ! 2 = 0
   | None \<Rightarrow> length ip = 16 \<and> ip ! 0 = 0xff \<and> ip ! 1 AND 0x0f = 0x02)"

definition IsMulticast :: "ip \<Rightarrow> bool" where
  "IsMulticast ip = (case To4 ip of
     Some ip4 \<Rightarrow> ip4 ! 0 AND 0xf0 = 0xe0
   | None \<Rightarrow> length ip = 16 \<and> ip ! 0 = 0xff)"

definition IsUnspecified :: "ip \<Rightarrow> bool" where
  "IsUnspecified ip \<longleftrightarrow> To4 ip = Some [0, 0, 0, 0] \<or> ip = replicate 16 0"

definition forbiddenIP :: "ip \<Rightarrow> bool" where
  "forbiddenIP ip \<longleftrightarrow>
     IsLoopback ip \<or> IsLinkLocalUnicast ip \<or> IsLinkLocalMulticast ip \<or> IsMulticast ip \<or> IsUnspecified ip"

section \<open>URLs\<close>

datatype url_error = ErrInvalidScheme | ErrMissingHost | ErrForbiddenHost

text \<open>\<open>url\<close> is the parsed URL's scheme and host name, \<open>None\<close> when it does not parse.\<close>

definition validateHTTPURL :: "(string \<Rightarrow> ip option) \<Rightarrow> (string \<times> string) option \<Rightarrow> url_error option" where
  "validateHTTPURL ParseIP url =
     (case url of
        None \<Rightarrow> Some ErrForbiddenHost
      | Some (scheme, hostname) \<Rightarrow>
          if to_lower scheme \<noteq> ''http'' \<and> to_lower scheme \<noteq> ''https'' then Some ErrInvalidScheme
          else let host = trim_suffix hostname ''.'' in
            if host = [] then Some ErrMissingHost
            else if to_lower host = ''localhost'' then Some ErrForbiddenHost
            else (case parseIPAny ParseIP host of
                Some ip \<Rightarrow> if forbiddenIP ip then Some ErrForbiddenHost else None
              | None \<Rightarrow> None))"

section \<open>The value of an address\<close>

text \<open>The number an \<open>inet_aton\<close> notation stands for: leading parts are the high bytes, the last part
  fills the rest.\<close>

definition aton_value :: "nat list \<Rightarrow> nat" where
  "aton_value ns = foldl (\<lambda>a v. a * 256 + v) 0 (butlast ns) * 256 ^ (5 - length ns) + last ns"

definition address_of :: "nat \<Rightarrow> ip" where
  "address_of n = [of_nat (n div 256 ^ 3), of_nat (n div 256 ^ 2), of_nat (n div 256), of_nat n]"

text \<open>The numbers a notation may hold: one to four of them, bytes but for the last.\<close>

definition aton_parts :: "nat list \<Rightarrow> bool" where
  "aton_parts ns \<longleftrightarrow> ns \<noteq> [] \<and> length ns \<le> 4 \<and> (\<forall>n\<in>set (butlast ns). n \<le> 255) \<and>
     last ns < 256 ^ (5 - length ns)"


section \<open>Bitwise or as addition\<close>

lemma or_disjoint: "x AND y = 0 \<Longrightarrow> x OR y = x + (y :: 'a :: len word)"
  using word_plus_and_or [of x y] by simp

lemma push_byte: "push_bit k (of_nat n :: uint64) = of_nat (n * 2 ^ k)"
  by (simp add: push_bit_of_nat push_bit_eq_mult)

lemma and_shifted: "n < 2 ^ k \<Longrightarrow> (of_nat (m * 2 ^ k) :: uint64) AND of_nat n = 0"
proof -
  assume "n < 2 ^ k"
  then have "take_bit k n = n" by (simp add: take_bit_nat_eq_self_iff)
  then have "(of_nat (m * 2 ^ k) AND of_nat n :: uint64) = of_nat (push_bit k m AND take_bit k n)"
    by (simp add: of_nat_and_eq push_bit_eq_mult)
  also have "push_bit k m AND take_bit k n = 0"
    by (rule bit_eqI) (auto simp: bit_simps)
  finally show ?thesis by simp
qed

lemma or_shifted: "n < 2 ^ k \<Longrightarrow> (of_nat (m * 2 ^ k) :: uint64) OR of_nat n = of_nat (m * 2 ^ k + n)"
  by (simp only: or_disjoint [OF and_shifted] of_nat_add)

lemma ucast_drop_of_nat:
  assumes "n < 2 ^ 64"
  shows "(ucast (drop_bit k (of_nat n :: uint64)) :: 8 word) = of_nat (n div 2 ^ k)"
proof -
  have n: "unat (of_nat n :: uint64) = n" using assms by (simp add: unat_of_nat)
  have "unat (ucast (drop_bit k (of_nat n :: uint64)) :: 8 word) = take_bit 8 (n div 2 ^ k)"
    unfolding unsigned_ucast_eq unat_drop_bit_eq n by (simp add: drop_bit_eq_div)
  also have "\<dots> = unat (of_nat (n div 2 ^ k) :: 8 word)"
    unfolding unsigned_of_nat by simp
  finally show ?thesis by (simp only: word_unat_eq_iff)
qed

lemma octets_of_nat: "n < 2 ^ 64 \<Longrightarrow> octets (of_nat n) = address_of n"
  unfolding octets_def address_of_def
  using ucast_drop_of_nat [of n 24] ucast_drop_of_nat [of n 16] ucast_drop_of_nat [of n 8] ucast_drop_of_nat [of n 0]
  by simp


section \<open>Notations of an address\<close>

lemma of_nat_less_uint64:
  "m < 2 ^ 64 \<Longrightarrow> n < 2 ^ 64 \<Longrightarrow> (of_nat m :: uint64) < of_nat n \<longleftrightarrow> m < n"
  by (simp add: of_nat_word_less_iff take_bit_nat_eq_self)

lemma parse_parts_nats:
  "list_all2 (\<lambda>p n. parseCNumber p = Some (of_nat n)) ps ns \<Longrightarrow> parse_parts ps = Some (map of_nat ns)"
  by (induction ps ns rule: list_all2_induct) auto

lemma leading_bytes_nats:
  assumes "\<forall>n\<in>set ns. n < 2 ^ 64" "i + length ns \<le> 3"
  shows "leading_bytes i (of_nat (a * 2 ^ (8 * (4 - i)))) (map of_nat ns) =
    (if \<forall>n\<in>set ns. n \<le> 255 then Some (of_nat (foldl (\<lambda>a v. a * 256 + v) a ns * 2 ^ (8 * (4 - (i + length ns)))))
     else None)"
  using assms
proof (induction ns arbitrary: i a)
  case (Cons v ns)
  have big: "(of_nat v :: uint64) > 0xff \<longleftrightarrow> v > 255"
    using of_nat_less_uint64 [of 255 v] Cons.prems(1) by simp
  show ?case
  proof (cases "v \<le> 255")
    case True
    have k: "8 * (4 - i) = 8 * (3 - i) + 8" using Cons.prems(2) by simp
    have "v * 2 ^ (8 * (3 - i)) < 2 ^ (8 * (4 - i))" unfolding k power_add using True by simp
    from or_shifted [OF this, of a]
    have "(of_nat (a * 2 ^ (8 * (4 - i))) OR push_bit (8 * (3 - i)) (of_nat v) :: uint64) =
        of_nat (a * 2 ^ (8 * (4 - i)) + v * 2 ^ (8 * (3 - i)))"
      by (simp only: push_byte)
    also have "a * 2 ^ (8 * (4 - i)) + v * 2 ^ (8 * (3 - i)) = (a * 256 + v) * 2 ^ (8 * (4 - Suc i))"
      unfolding k power_add by (simp add: algebra_simps)
    finally have "leading_bytes i (of_nat (a * 2 ^ (8 * (4 - i)))) (map of_nat (v # ns)) =
        leading_bytes (Suc i) (of_nat ((a * 256 + v) * 2 ^ (8 * (4 - Suc i)))) (map of_nat ns)"
      using True big by simp
    also have "\<dots> = (if \<forall>n\<in>set ns. n \<le> 255
        then Some (of_nat (foldl (\<lambda>a v. a * 256 + v) (a * 256 + v) ns * 2 ^ (8 * (4 - (Suc i + length ns))))) else None)"
      using Cons.prems by (intro Cons.IH) auto
    finally show ?thesis using True by simp
  next
    case False
    then show ?thesis using big by simp
  qed
qed simp

lemma foldl_bytes_bound: "\<forall>n\<in>set ns. n \<le> 255 \<Longrightarrow> foldl (\<lambda>a v. a * 256 + v) a ns < (a + 1) * 256 ^ length (ns :: nat list)"
proof (induction ns arbitrary: a)
  case (Cons v ns)
  then have "foldl (\<lambda>a v. a * 256 + v) (a * 256 + v) ns < (a * 256 + v + 1) * 256 ^ length ns" by simp
  also have "\<dots> \<le> ((a + 1) * 256) * 256 ^ length ns" using Cons.prems by (intro mult_right_mono) auto
  finally show ?case by (simp add: algebra_simps)
qed simp

lemma aton_value_bound:
  assumes "aton_parts ns" shows "aton_value ns < 2 ^ 32"
proof -
  define a where "a = foldl (\<lambda>a v. a * 256 + v) 0 (butlast ns)"
  have "a < 256 ^ (length ns - 1)"
    using foldl_bytes_bound [of "butlast ns" 0] assms by (simp add: aton_parts_def a_def)
  then have "a + 1 \<le> 256 ^ (length ns - 1)" by simp
  then have "(a + 1) * 256 ^ (5 - length ns) \<le> 256 ^ (length ns - 1) * 256 ^ (5 - length ns)"
    by (rule mult_right_mono) simp
  moreover have "(256 :: nat) ^ (length ns - 1) * 256 ^ (5 - length ns) = 256 ^ 4"
  proof -
    have "length ns - 1 + (5 - length ns) = 4"
      using assms by (cases ns) (auto simp: aton_parts_def)
    then show ?thesis by (metis power_add)
  qed
  moreover have "aton_value ns < (a + 1) * 256 ^ (5 - length ns)"
    using assms by (simp add: aton_value_def a_def aton_parts_def)
  ultimately show ?thesis by simp
qed


lemma parseInetAtonIPv4_nats:
  assumes "list_all2 (\<lambda>p n. parseCNumber p = Some (of_nat n)) ps ns" "\<forall>n\<in>set ns. n < 2 ^ 64"
    and "ps \<noteq> []" "\<forall>p\<in>set ps. CHR ''.'' \<notin> set p" "join_with (CHR ''.'') ps \<noteq> []"
  shows "parseInetAtonIPv4 (join_with (CHR ''.'') ps) =
    (if aton_parts ns then Some (address_of (aton_value ns)) else None)"
proof (cases "length ps \<le> 4")
  case False
  then have "\<not> aton_parts ns" using assms(1) by (simp add: list_all2_lengthD aton_parts_def)
  then show ?thesis using False assms(3-5) by (simp add: parseInetAtonIPv4_def Let_def split_join)
next
  case True
  have len: "length ns = length ps" using assms(1) by (simp add: list_all2_lengthD)
  then have ne: "ns \<noteq> []" using assms(3) by auto
  define a where "a = foldl (\<lambda>a v. a * 256 + v) 0 (butlast ns)"
  have but: "\<forall>n\<in>set (butlast ns). n < 2 ^ 64" using assms(2) by (auto dest: in_set_butlastD)
  have k: "4 - length (butlast ns) = 5 - length ns" using ne len True by (cases ns) auto
  have lead: "leading_bytes 0 0 (map of_nat (butlast ns)) =
      (if \<forall>n\<in>set (butlast ns). n \<le> 255 then Some (of_nat (a * 2 ^ (8 * (5 - length ns)))) else None)"
    using leading_bytes_nats [OF but, of 0 0] len True k by (simp add: a_def)
  have lst: "last ns < 2 ^ 64" using assms(2) ne by simp
  define b where "b = 8 * (5 - length ns)"
  have b: "b \<le> 32" "8 * (4 - length ns + 1) = b" using ne len True by (cases ns; auto simp: b_def)+
  then have "2 ^ b \<le> (2 :: nat) ^ 32" by (intro power_increasing) auto
  then have mx: "(of_nat (2 ^ b) - 1 :: uint64) = of_nat (2 ^ b - 1)" "(2 :: nat) ^ b - 1 < 2 ^ 64"
    by (simp_all add: of_nat_diff)
  have fits: "(of_nat (last ns) :: uint64) > of_nat (2 ^ b) - 1 \<longleftrightarrow> \<not> last ns < 2 ^ b"
    unfolding mx(1) of_nat_less_uint64 [OF mx(2) lst] using zero_less_power [of "2 :: nat" b] by linarith
  have p256: "(256 :: nat) ^ (5 - length ns) = 2 ^ b" by (simp add: b_def power_mult)
  have sp: "split_on (CHR ''.'') (join_with (CHR ''.'') ps) = ps" using assms(3,4) by (rule split_join)
  have parts: "parse_parts ps = Some (map of_nat ns)" by (rule parse_parts_nats [OF assms(1)])
  have small: "(of_nat (a * 2 ^ b) OR of_nat (last ns) :: uint64) = of_nat (aton_value ns)" if "last ns < 2 ^ b"
    using or_shifted [OF that, of a] p256 by (simp add: aton_value_def a_def)
  have top: "\<not> (of_nat (aton_value ns) :: uint64) > 0xffffffff" if "aton_parts ns"
    using of_nat_less_uint64 [of "2 ^ 32 - 1" "aton_value ns"] aton_value_bound [OF that] by simp
  have oct: "octets (of_nat (aton_value ns)) = address_of (aton_value ns)" if "aton_parts ns"
    using aton_value_bound [OF that] by (intro octets_of_nat) simp
  have lm: "last (map of_nat ns :: uint64 list) = of_nat (last ns)" using ne by (rule last_map)
  have "parseInetAtonIPv4 (join_with (CHR ''.'') ps) =
      (case leading_bytes 0 0 (map of_nat (butlast ns)) of None \<Rightarrow> None
       | Some addr \<Rightarrow> if (of_nat (last ns) :: uint64) > of_nat (2 ^ b) - 1 then None
           else let x = addr OR of_nat (last ns) in if x > 0xffffffff then None else Some (octets x))"
    using True assms(5) ne len b(2)
    by (simp add: parseInetAtonIPv4_def sp parts Let_def map_butlast [symmetric] lm split: option.splits)
  then show ?thesis
    unfolding lead fits using small top oct ne len True p256 b_def
    by (auto simp: aton_parts_def Let_def)
qed


lemma parseCNumber_digit: "parseCNumber p = Some v \<Longrightarrow> \<exists>c cs. p = c # cs \<and> is_digit c"
proof -
  assume p: "parseCNumber p = Some v"
  have ten: "is_digit c" if "uint_digits 10 acc (c # cs) = Some n" for c cs acc n
    using that by (auto simp: hex_val_def byte_in_def byte_def split: option.splits if_splits)
  show ?thesis
  proof (cases p)
    case (Cons c cs)
    show ?thesis
    proof (cases "hd p = CHR ''0''")
      case True
      then show ?thesis using Cons by (simp add: is_digit_def byte_def)
    next
      case False
      then have "\<not> has_prefix p ''0x''" "\<not> has_prefix p ''0X''"
        using Cons by (auto simp: has_prefix_def)
      then have "ParseUint 10 p = Some v" using p Cons False by (simp add: parseCNumber_def)
      then show ?thesis using Cons ten by (auto simp: ParseUint_def split: option.splits if_splits)
    qed
  qed (use p in \<open>simp add: parseCNumber_def\<close>)
qed

lemma join_digit_head:
  assumes "list_all2 (\<lambda>p n. parseCNumber p = Some (of_nat n)) ps ns" "ps \<noteq> []"
  shows "\<exists>c cs. join_with (CHR ''.'') ps = c # cs \<and> is_digit c"
proof (cases ps)
  case (Cons p qs)
  with assms(1) obtain n where "parseCNumber p = Some (of_nat n)" by (auto simp: list_all2_Cons1)
  from parseCNumber_digit [OF this] obtain c cs where "p = c # cs" "is_digit c" by blast
  with Cons show ?thesis by (cases qs) auto
qed (use assms(2) in simp)

lemma join_no_final_sep:
  "ps \<noteq> [] \<Longrightarrow> \<forall>p\<in>set ps. p \<noteq> [] \<and> c \<notin> set p \<Longrightarrow> last (join_with c ps) \<noteq> c"
proof (induction ps rule: join_with.induct)
  case (3 c p q ps)
  then have "join_with c (q # ps) \<noteq> []" by (cases ps) auto
  with 3 show ?case by simp
qed auto

lemma trim_suffix_keeps: "s \<noteq> [] \<Longrightarrow> last s \<noteq> c \<Longrightarrow> trim_suffix s [c] = s"
  by (auto simp: trim_suffix_def has_suffix_def has_prefix_def take_Suc hd_rev)

section \<open>Properties\<close>



end
