(* ===== verification/Ledger.thy ===== *)
theory Ledger
  imports StageControl
begin

text \<open>
  The once-per-lifetime ledger: \<open>internal/actionplan\<close> (anchor classification, the lifetime gate, the
  verdicts the CLI previews) and \<open>internal/controller/lifetimeledger.go\<close>, \<open>anchor.go\<close> (baseline
  promotion, recording, invalidation). Reading an anchor object is an oracle that answers with its UID
  or an error.
\<close>

section \<open>Anchors\<close>

datatype AnchorState = AnchorOK | AnchorGone | AnchorUnreadable

datatype read_error = ReadNotFound | ReadFailed string

type_synonym anchor_reader = "string \<Rightarrow> string \<Rightarrow> string \<Rightarrow> read_error + string"

definition ClassifyAnchor :: "LedgerCompletion \<Rightarrow> read_error + string \<Rightarrow> AnchorState" where
  "ClassifyAnchor c read =
     (case lc_Anchor c of
        None \<Rightarrow> AnchorOK
      | Some w \<Rightarrow>
          (case read of
             Inl ReadNotFound \<Rightarrow> AnchorGone
           | Inl (ReadFailed e) \<Rightarrow> AnchorUnreadable
           | Inr uid \<Rightarrow> if uid \<noteq> aw_UID w then AnchorGone else AnchorOK))"

record LifetimeGate =
  lg_Done :: "string list"
  lg_Invalidated :: "string list"
  lg_Unreadable :: "string list"

definition gate_step :: "anchor_reader \<Rightarrow> string \<Rightarrow> LedgerCompletion \<Rightarrow> LifetimeGate \<Rightarrow> LifetimeGate" where
  "gate_step reader stage c g =
     (if lc_Stage c \<noteq> stage then g
      else case lc_Anchor c of
        None \<Rightarrow> g\<lparr>lg_Done := lg_Done g @ [lc_Action c]\<rparr>
      | Some w \<Rightarrow>
          (case ClassifyAnchor c (reader (aw_APIVersion w) (aw_Kind w) (aw_Name w)) of
             AnchorOK \<Rightarrow> g\<lparr>lg_Done := lg_Done g @ [lc_Action c]\<rparr>
           | AnchorUnreadable \<Rightarrow>
               g\<lparr>lg_Done := lg_Done g @ [lc_Action c], lg_Unreadable := lg_Unreadable g @ [lc_Action c]\<rparr>
           | AnchorGone \<Rightarrow> g\<lparr>lg_Invalidated := lg_Invalidated g @ [lc_Action c]\<rparr>))"

text \<open>A missing ledger (\<open>None\<close>) gates nothing.\<close>

definition EvaluateLifetimeGate ::
  "anchor_reader \<Rightarrow> LedgerCompletion list option \<Rightarrow> string \<Rightarrow> LifetimeGate" where
  "EvaluateLifetimeGate reader ledger stage =
     (let empty = \<lparr>lg_Done = [], lg_Invalidated = [], lg_Unreadable = []\<rparr> in
      case ledger of None \<Rightarrow> empty | Some cs \<Rightarrow> fold (gate_step reader stage) cs empty)"

section \<open>Writing the ledger\<close>

definition dropCompletions ::
  "LedgerCompletion list \<Rightarrow> string \<Rightarrow> string list \<Rightarrow> LedgerCompletion list \<times> bool" where
  "dropCompletions cs stage actions =
     (if actions = [] then (cs, False)
      else let dropped = (\<lambda>c. lc_Stage c = stage \<and> lc_Action c \<in> set actions) in
        (filter (\<lambda>c. \<not> dropped c) cs, list_ex dropped cs))"

definition stageAnchors :: "Stage \<Rightarrow> (string \<rightharpoonup> CompletionAnchor)" where
  "stageAnchors stage =
     (case stg_Actions stage of
        None \<Rightarrow> Map.empty
      | Some a \<Rightarrow> map_of_last (List.map_filter
          (\<lambda>x. map_option (Pair (act_Name x)) (act_CompletionAnchor x)) (sact_Pre a @ sact_Post a)))"

datatype ledger_error = NoLifetimeLedger | AnchorNotReadable string | LedgerUpdateFailed

definition recordLifetimeCompletion ::
  "anchor_reader \<Rightarrow> instant \<Rightarrow> bool \<Rightarrow> LedgerCompletion list option \<Rightarrow> string \<Rightarrow> string
   \<Rightarrow> CompletionAnchor option \<Rightarrow> ledger_error + LedgerCompletion list" where
  "recordLifetimeCompletion reader now update_fails ledger stage action anchor =
     (case ledger of
        None \<Rightarrow> Inl NoLifetimeLedger
      | Some cs \<Rightarrow>
          if IsCompleted cs stage action then Inr cs
          else bind_result
            (case anchor of
               None \<Rightarrow> Inr None
             | Some a \<Rightarrow>
                 (case reader (ca_APIVersion a) (ca_Kind a) (ca_Name a) of
                    Inl e \<Rightarrow> Inl (AnchorNotReadable action)
                  | Inr uid \<Rightarrow> Inr (Some \<lparr>aw_APIVersion = ca_APIVersion a, aw_Kind = ca_Kind a,
                      aw_Name = ca_Name a, aw_UID = uid\<rparr>)))
            (\<lambda>witness.
               if update_fails then Inl LedgerUpdateFailed
               else Inr (cs @ [\<lparr>lc_Stage = stage, lc_Action = action, lc_Origin = OriginExecuted,
                 lc_Digest = [], lc_Anchor = witness, lc_CompletedAt = now\<rparr>])))"

definition isLifetimeAction :: "Stage list \<Rightarrow> string \<Rightarrow> string \<Rightarrow> bool" where
  "isLifetimeAction stages stage action =
     list_ex (\<lambda>st. stg_Name st = stage \<and> action \<in> set (stageLifetimeActionNames st)) stages"

definition specHasLifetimeActions :: "Stage list \<Rightarrow> bool" where
  "specHasLifetimeActions stages = list_ex (\<lambda>st. 0 < length (stageLifetimeActionNames st)) stages"

definition baseline_step ::
  "Stage list \<Rightarrow> instant \<Rightarrow> LedgerRef \<Rightarrow> LedgerCompletion list \<times> string list \<times> bool
   \<Rightarrow> LedgerCompletion list \<times> string list \<times> bool" where
  "baseline_step stages now ref acc =
     (case acc of (cs, unresolved, changed) \<Rightarrow>
        if \<not> isLifetimeAction stages (lr_Stage ref) (lr_Action ref)
        then (cs, unresolved @ [lr_Stage ref @ ''/'' @ lr_Action ref], changed)
        else if IsCompleted cs (lr_Stage ref) (lr_Action ref) then (cs, unresolved, changed)
        else (cs @ [\<lparr>lc_Stage = lr_Stage ref, lc_Action = lr_Action ref, lc_Origin = OriginBaselined,
                lc_Digest = [], lc_Anchor = None, lc_CompletedAt = now\<rparr>], unresolved, True))"

text \<open>The completions and the unresolved entries; the condition that reports the latter is left out.\<close>

definition promoteBaseline ::
  "Stage list \<Rightarrow> instant \<Rightarrow> LedgerRef list \<Rightarrow> LedgerCompletion list
   \<Rightarrow> LedgerCompletion list \<times> string list \<times> bool" where
  "promoteBaseline stages now baseline cs = fold (baseline_step stages now) baseline (cs, [], False)"

section \<open>Facts\<close>

abbreviation completion_gone :: "anchor_reader \<Rightarrow> LedgerCompletion \<Rightarrow> bool" where
  "completion_gone reader c \<equiv> (case lc_Anchor c of None \<Rightarrow> False
   | Some w \<Rightarrow> ClassifyAnchor c (reader (aw_APIVersion w) (aw_Kind w) (aw_Name w)) = AnchorGone)"

lemma gate_fold:
  "lg_Done (fold (gate_step reader stage) cs g) =
     lg_Done g @ map lc_Action (filter (\<lambda>c. lc_Stage c = stage \<and> \<not> completion_gone reader c) cs) \<and>
   lg_Invalidated (fold (gate_step reader stage) cs g) =
     lg_Invalidated g @ map lc_Action (filter (\<lambda>c. lc_Stage c = stage \<and> completion_gone reader c) cs)"
  by (induction cs arbitrary: g)
    (auto simp: gate_step_def split: option.split AnchorState.split)

text \<open>The keys of the ledger are distinct, and every write keeps it so.\<close>

definition ledger_keys :: "LedgerCompletion list \<Rightarrow> (string \<times> string) list" where
  "ledger_keys cs = map (\<lambda>c. (lc_Stage c, lc_Action c)) cs"

lemma IsCompleted_keys: "IsCompleted cs stage action \<longleftrightarrow> (stage, action) \<in> set (ledger_keys cs)"
  by (simp add: IsCompleted_iff ledger_keys_def)

lemma baseline_fold:
  "distinct (ledger_keys cs) \<Longrightarrow>
   distinct (ledger_keys (fst (fold (baseline_step stages now) refs (cs, u, ch)))) \<and>
   set (ledger_keys (fst (fold (baseline_step stages now) refs (cs, u, ch)))) =
     set (ledger_keys cs) \<union> {(lr_Stage r, lr_Action r) | r. r \<in> set refs \<and>
       isLifetimeAction stages (lr_Stage r) (lr_Action r)} \<and>
   (\<exists>new. fst (fold (baseline_step stages now) refs (cs, u, ch)) = cs @ new \<and>
      (\<forall>c\<in>set new. lc_Origin c = OriginBaselined))"
proof (induction refs arbitrary: cs u ch)
  case (Cons r refs)
  obtain cs' u' ch' where step: "baseline_step stages now r (cs, u, ch) = (cs', u', ch')"
    by (cases "baseline_step stages now r (cs, u, ch)")
  then have "distinct (ledger_keys cs')"
    and keys: "set (ledger_keys cs') = set (ledger_keys cs) \<union>
      (if isLifetimeAction stages (lr_Stage r) (lr_Action r) then {(lr_Stage r, lr_Action r)} else {})"
    and new: "\<exists>new. cs' = cs @ new \<and> (\<forall>c\<in>set new. lc_Origin c = OriginBaselined)"
    using Cons.prems by (auto simp: baseline_step_def IsCompleted_keys ledger_keys_def split: if_splits)
  note IH = Cons.IH [OF this(1), of u' ch']
  have "set (ledger_keys (fst (fold (baseline_step stages now) (r # refs) (cs, u, ch)))) =
      set (ledger_keys cs) \<union> {(lr_Stage r, lr_Action r) | r'. r' = r \<and>
        isLifetimeAction stages (lr_Stage r) (lr_Action r)} \<union>
      {(lr_Stage r, lr_Action r) | r. r \<in> set refs \<and> isLifetimeAction stages (lr_Stage r) (lr_Action r)}"
    using IH step keys by auto
  moreover have "\<exists>new. fst (fold (baseline_step stages now) (r # refs) (cs, u, ch)) = cs @ new \<and>
      (\<forall>c\<in>set new. lc_Origin c = OriginBaselined)"
  proof -
    obtain n1 where n1: "cs' = cs @ n1" "\<forall>c\<in>set n1. lc_Origin c = OriginBaselined" using new by blast
    obtain n2 where n2: "fst (fold (baseline_step stages now) refs (cs', u', ch')) = cs' @ n2"
      "\<forall>c\<in>set n2. lc_Origin c = OriginBaselined" using IH by blast
    show ?thesis using n1 n2 step by (intro exI [of _ "n1 @ n2"]) auto
  qed
  ultimately show ?case using IH step by auto
qed simp

section \<open>Properties\<close>

text \<open>The lifetime gate. Of a stage's recorded completions exactly those whose witness is
  confirmed gone (absent, or a fresh object under the same name) are invalidated; all others count as
  done, an unreadable witness included, so an outage never re-runs a once-per-lifetime action.\<close>

theorem EvaluateLifetimeGate_exact:
  "lg_Done (EvaluateLifetimeGate reader (Some cs) stage) =
     map lc_Action (filter (\<lambda>c. lc_Stage c = stage \<and> \<not> completion_gone reader c) cs) \<and>
   lg_Invalidated (EvaluateLifetimeGate reader (Some cs) stage) =
     map lc_Action (filter (\<lambda>c. lc_Stage c = stage \<and> completion_gone reader c) cs) \<and>
   (\<forall>c w. lc_Anchor c = Some w \<longrightarrow>
      (completion_gone reader c \<longleftrightarrow>
        (case reader (aw_APIVersion w) (aw_Kind w) (aw_Name w) of
           Inl e \<Rightarrow> e = ReadNotFound | Inr uid \<Rightarrow> uid \<noteq> aw_UID w)))"
  using gate_fold [of reader stage cs "\<lparr>lg_Done = [], lg_Invalidated = [], lg_Unreadable = []\<rparr>"]
  by (auto simp: EvaluateLifetimeGate_def Let_def ClassifyAnchor_def
      split: sum.split read_error.split)

definition demo_completion :: LedgerCompletion where
  "demo_completion = \<lparr>lc_Stage = ''db'', lc_Action = ''init'', lc_Origin = OriginExecuted, lc_Digest = [],
     lc_Anchor = Some \<lparr>aw_APIVersion = ''v1'', aw_Kind = ''Secret'', aw_Name = ''seed'', aw_UID = ''u1''\<rparr>,
     lc_CompletedAt = 7\<rparr>"

theorem EvaluateLifetimeGate_exact_witness:
  "\<not> completion_gone (\<lambda>_ _ _. Inl (ReadFailed ''timeout'')) demo_completion \<and>
   lg_Done (EvaluateLifetimeGate (\<lambda>_ _ _. Inl (ReadFailed ''timeout'')) (Some [demo_completion]) ''db'') = [''init'']"
  using EvaluateLifetimeGate_exact [of "\<lambda>_ _ _. Inl (ReadFailed ''timeout'')" "[demo_completion]" "''db''"]
  by (simp add: demo_completion_def)

text \<open>A completion is recorded once and never overwritten. Baseline promotion and recording only
  append, keep the (stage, action) keys of the ledger distinct, and promotion adds exactly the baseline
  entries that name a Lifetime action and were not recorded, marked as baselined.\<close>

theorem ledger_append_only:
  assumes "distinct (ledger_keys cs)"
  shows "distinct (ledger_keys (fst (promoteBaseline stages now refs cs))) \<and>
    set (ledger_keys (fst (promoteBaseline stages now refs cs))) = set (ledger_keys cs) \<union>
      {(lr_Stage r, lr_Action r) | r. r \<in> set refs \<and>
        isLifetimeAction stages (lr_Stage r) (lr_Action r)} \<and>
    (\<exists>new. fst (promoteBaseline stages now refs cs) = cs @ new \<and>
      (\<forall>c\<in>set new. lc_Origin c = OriginBaselined)) \<and>
    (\<forall>cs'. recordLifetimeCompletion reader now fails (Some cs) stage action anchor = Inr cs' \<longrightarrow>
      distinct (ledger_keys cs') \<and> (\<exists>new. cs' = cs @ new) \<and> IsCompleted cs' stage action)"
proof -
  have "distinct (ledger_keys cs') \<and> (\<exists>new. cs' = cs @ new) \<and> IsCompleted cs' stage action"
    if "recordLifetimeCompletion reader now fails (Some cs) stage action anchor = Inr cs'" for cs'
    using that assms
    by (auto simp: recordLifetimeCompletion_def bind_result_def IsCompleted_keys ledger_keys_def
        split: if_splits sum.splits)
  then show ?thesis using baseline_fold [OF assms] unfolding promoteBaseline_def by blast
qed

theorem ledger_append_only_witness:
  "IsCompleted (case recordLifetimeCompletion (\<lambda>_ _ _. Inl ReadNotFound) 7 False (Some []) ''db'' ''init'' None of
     Inr cs \<Rightarrow> cs | Inl _ \<Rightarrow> []) ''db'' ''init''"
proof -
  obtain cs where "recordLifetimeCompletion (\<lambda>_ _ _. Inl ReadNotFound) 7 False (Some []) ''db'' ''init'' None = Inr cs"
    by (simp add: recordLifetimeCompletion_def IsCompleted_def)
  then show ?thesis
    using ledger_append_only [of "[]" "[]" 7 "[]" "\<lambda>_ _ _. Inl ReadNotFound" False "''db''" "''init''" None]
    by (simp add: ledger_keys_def)
qed

end
