(* ===== verification/ActionRunner.thy ===== *)
theory ActionRunner
  imports Ledger
begin

text \<open>
  \<open>internal/actions/actions.go\<close>: the executor (\<open>Run\<close>, \<open>exec\<close> with its retry budget, \<open>dispatch\<close>) and
  the pure parts of its verbs, and the action side of a stage's reconcile: pre- and post-actions run
  against the stage's ledgers, across passes that persist their status and passes that do not.

  What a verb does to the cluster is a parameter; the state type is the world it acts on. Whether the
  context is done before a backoff elapses is an oracle.
\<close>

section \<open>One action\<close>

datatype exec_error =
    ErrActionUnsupported | ErrForbiddenHost | ErrForbiddenAddress | ErrHTTPClientStatus | ErrOther string

definition terminal_error :: "exec_error \<Rightarrow> bool" where
  "terminal_error e \<longleftrightarrow>
     e = ErrActionUnsupported \<or> e = ErrForbiddenHost \<or> e = ErrForbiddenAddress \<or> e = ErrHTTPClientStatus"

definition backoff :: "nat \<Rightarrow> duration" where
  "backoff attempt = (let d = int (attempt + 1) * 500000000 in if d > 5 * Second then 5 * Second else d)"

definition retries_of :: "Action \<Rightarrow> nat" where
  "retries_of a = (case act_Retries a of Some n \<Rightarrow> if n > 0 then nat n else 0 | None \<Rightarrow> 0)"

record 's verbs =
  vb_patch :: "PatchAction \<Rightarrow> 's \<Rightarrow> 's \<times> exec_error option"
  vb_http :: "HTTPAction \<Rightarrow> 's \<Rightarrow> 's \<times> exec_error option"
  vb_wait :: "WaitAction \<Rightarrow> 's \<Rightarrow> 's \<times> exec_error option"
  vb_job :: "JobAction \<Rightarrow> 's \<Rightarrow> 's \<times> exec_error option"
  vb_delete :: "DeleteAction \<Rightarrow> 's \<Rightarrow> 's \<times> exec_error option"
  vb_apply :: "Action \<Rightarrow> 's \<Rightarrow> 's \<times> exec_error option"

definition dispatch :: "'s verbs \<Rightarrow> Action \<Rightarrow> 's \<Rightarrow> 's \<times> exec_error option" where
  "dispatch vb a s =
     (case act_Patch a of Some p \<Rightarrow> vb_patch vb p s
      | None \<Rightarrow> (case act_HTTP a of Some h \<Rightarrow> vb_http vb h s
      | None \<Rightarrow> (case act_Wait a of Some w \<Rightarrow> vb_wait vb w s
      | None \<Rightarrow> (case act_Job a of Some j \<Rightarrow> vb_job vb j s
      | None \<Rightarrow> (case act_Delete a of Some d \<Rightarrow> vb_delete vb d s
      | None \<Rightarrow> (case act_Apply a of Some p \<Rightarrow> vb_apply vb a s
      | None \<Rightarrow> (s, Some (ErrOther ''action sets no verb''))))))))"

function exec_loop ::
  "('s \<Rightarrow> 's \<times> exec_error option) \<Rightarrow> (nat \<Rightarrow> bool) \<Rightarrow> nat \<Rightarrow> nat \<Rightarrow> 's \<Rightarrow> 's \<times> exec_error option" where
  "exec_loop act cancelled retries attempt s =
     (case act s of
        (s', None) \<Rightarrow> (s', None)
      | (s', Some e) \<Rightarrow>
          if terminal_error e then (s', Some e)
          else if retries \<le> attempt then (s', Some e)
          else if cancelled attempt then (s', Some e)
          else exec_loop act cancelled retries (Suc attempt) s')"
  by pat_completeness auto
termination
  by (relation "measure (\<lambda>(act, cancelled, retries, attempt, s). Suc retries - attempt)") auto

declare exec_loop.simps [simp del]

definition exec ::
  "'s verbs \<Rightarrow> (Action \<Rightarrow> nat \<Rightarrow> bool) \<Rightarrow> Action \<Rightarrow> 's \<Rightarrow> 's \<times> exec_error option" where
  "exec vb cancelled a s = exec_loop (dispatch vb a) (cancelled a) (retries_of a) 0 s"

section \<open>Running a list\<close>

datatype 'r run_error = ActionFailed string exec_error | RecordFailed 'r

text \<open>\<open>done\<close> is read once; \<open>record\<close> may be nil.\<close>

fun Run ::
  "(Action \<Rightarrow> 's \<Rightarrow> 's \<times> exec_error option) \<Rightarrow> (string \<Rightarrow> 's \<Rightarrow> 's \<times> 'r option) option
   \<Rightarrow> string set \<Rightarrow> Action list \<Rightarrow> 's \<Rightarrow> 's \<times> 'r run_error option" where
  "Run ex record done [] s = (s, None)"
| "Run ex record done (a # acts) s =
     (if act_Name a \<in> done then Run ex record done acts s
      else case ex a s of
        (s1, Some e) \<Rightarrow> (s1, Some (ActionFailed (act_Name a) e))
      | (s1, None) \<Rightarrow>
          (case record of
             None \<Rightarrow> Run ex record done acts s1
           | Some rec \<Rightarrow>
               (case rec (act_Name a) s1 of
                  (s2, Some e) \<Rightarrow> (s2, Some (RecordFailed e))
                | (s2, None) \<Rightarrow> Run ex record done acts s2)))"

section \<open>Verbs' pure parts\<close>

definition statusAccepted :: "int \<Rightarrow> int list \<Rightarrow> bool" where
  "statusAccepted code expected =
     (if expected = [] then 200 \<le> code \<and> code < 300 else list_ex (\<lambda>e. e = code) expected)"

definition statusClass :: "int \<Rightarrow> exec_error" where
  "statusClass code =
     (if 400 \<le> code \<and> code < 500 \<and> code \<noteq> 408 \<and> code \<noteq> 429 then ErrHTTPClientStatus
      else ErrOther ''unexpected response status'')"

text \<open>A response turned into the action's result.\<close>

definition response_error :: "int \<Rightarrow> int list \<Rightarrow> exec_error option" where
  "response_error code expected = (if statusAccepted code expected then None else Some (statusClass code))"

definition patch_target_error :: "PatchTarget \<Rightarrow> string option" where
  "patch_target_error t =
     (if pt_Selector t \<noteq> None \<and> pt_Name t \<noteq> [] then Some ''patch target sets both name and selector''
      else if pt_Selector t = None \<and> pt_Name t = [] then Some ''patch target sets neither name nor selector''
      else None)"

definition suffixName :: "string \<Rightarrow> string \<Rightarrow> string" where
  "suffixName name suffix =
     (let m = 63 - length suffix in (if m < length name then take m name else name) @ suffix)"

text \<open>
  \<open>allowedURL\<close>: URL parsing, glob matching and address parsing are parameters; \<open>url\<close> is the parsed
  URL's scheme and host name, \<open>None\<close> when it does not parse, \<open>forbidden_ip\<close> says whether the host is
  a literal (in any notation) of a forbidden address.
\<close>

definition allowedURL ::
  "(string \<Rightarrow> string \<Rightarrow> bool) \<Rightarrow> (string \<Rightarrow> bool) \<Rightarrow> string list \<Rightarrow> (string \<times> string) option
   \<Rightarrow> exec_error option" where
  "allowedURL glob forbidden_ip allowedHosts url =
     (case url of
        None \<Rightarrow> Some ErrForbiddenHost
      | Some (scheme, hostname) \<Rightarrow>
          if to_lower scheme \<notin> {''http'', ''https''} then Some ErrForbiddenHost
          else let host = trim_suffix hostname ''.'' in
            if host = [] then Some ErrForbiddenHost
            else if allowedHosts \<noteq> [] then
              (if list_ex (\<lambda>pattern. glob pattern host) allowedHosts then None else Some ErrForbiddenHost)
            else if to_lower host = ''localhost'' then Some ErrForbiddenHost
            else if forbidden_ip host then Some ErrForbiddenHost
            else None)"

text \<open>The redirect policy of the guarded client.\<close>

datatype redirect = Follow | StopRedirects | RefuseCrossHost | RedirectForbidden exec_error

definition CheckRedirect ::
  "bool \<Rightarrow> string \<Rightarrow> exec_error option \<Rightarrow> nat \<Rightarrow> string \<Rightarrow> redirect" where
  "CheckRedirect hasSecrets origHost allowed via host =
     (if 10 \<le> via then StopRedirects
      else if hasSecrets \<and> host \<noteq> origHost then RefuseCrossHost
      else case allowed of Some e \<Rightarrow> RedirectForbidden e | None \<Rightarrow> Follow)"

text \<open>Dialing: every resolved address is checked before any is used.\<close>

definition safe_dial_addresses ::
  "('ip \<Rightarrow> bool) \<Rightarrow> string + 'ip list \<Rightarrow> (exec_error + string) + 'ip list" where
  "safe_dial_addresses forbidden resolved =
     (case resolved of
        Inl e \<Rightarrow> Inl (Inr e)
      | Inr ips \<Rightarrow> if list_ex forbidden ips then Inl (Inl ErrForbiddenAddress) else Inr ips)"

section \<open>Facts about retries\<close>

definition after_attempts :: "('s \<Rightarrow> 's \<times> exec_error option) \<Rightarrow> nat \<Rightarrow> 's \<Rightarrow> 's" where
  "after_attempts act k s = ((\<lambda>x. fst (act x)) ^^ k) s"

lemma exec_loop_attempts:
  "a \<le> retries \<Longrightarrow> \<exists>n. a + n \<le> retries \<and>
   exec_loop act cancelled retries a s = act (after_attempts act n s) \<and>
   (\<forall>k<n. \<exists>e. snd (act (after_attempts act k s)) = Some e \<and> \<not> terminal_error e \<and> \<not> cancelled (a + k)) \<and>
   (case snd (act (after_attempts act n s)) of
      None \<Rightarrow> True | Some e \<Rightarrow> terminal_error e \<or> a + n = retries \<or> cancelled (a + n))"
proof (induction act cancelled retries a s rule: exec_loop.induct)
  case (1 act cancelled retries a s)
  obtain s' r where r: "act s = (s', r)" by (cases "act s")
  show ?case
  proof (cases "case r of None \<Rightarrow> True | Some e \<Rightarrow> terminal_error e \<or> retries \<le> a \<or> cancelled a")
    case True
    with r "1.prems" show ?thesis
      by (intro exI [of _ 0])
        (auto simp: exec_loop.simps [of act cancelled retries a s] after_attempts_def split: option.splits)
  next
    case False
    then obtain e where e: "r = Some e" "\<not> terminal_error e" "\<not> retries \<le> a" "\<not> cancelled a"
      by (auto split: option.splits)
    then obtain n where n: "Suc a + n \<le> retries"
      "exec_loop act cancelled retries (Suc a) s' = act (after_attempts act n s')"
      "\<forall>k<n. \<exists>e. snd (act (after_attempts act k s')) = Some e \<and> \<not> terminal_error e \<and> \<not> cancelled (Suc a + k)"
      "case snd (act (after_attempts act n s')) of None \<Rightarrow> True
        | Some e \<Rightarrow> terminal_error e \<or> Suc a + n = retries \<or> cancelled (Suc a + n)"
      using "1.IH" [OF r [symmetric]] by fastforce
    have shift: "after_attempts act (Suc k) s = after_attempts act k s'" for k
      using r by (simp add: after_attempts_def funpow_Suc_right del: funpow.simps)
    have "\<exists>e. snd (act (after_attempts act k s)) = Some e \<and> \<not> terminal_error e \<and> \<not> cancelled (a + k)"
      if "k < Suc n" for k
      using that n(3) e r shift by (cases k) (auto simp: after_attempts_def)
    moreover have "exec_loop act cancelled retries a s = act (after_attempts act (Suc n) s)"
      using n(2) e r shift by (simp add: exec_loop.simps [of act cancelled retries a s])
    ultimately show ?thesis
      using n(1,4) shift by (intro exI [of _ "Suc n"]) (simp split: option.splits)
  qed
qed

section \<open>Recording as an interface\<close>

text \<open>
  What \<open>Run\<close> is owed by its two callbacks, for one action name: an action that succeeds is one more
  side effect of its name, a failed one is none, and neither touches the record; recording a name
  records that name only, and a recording that fails changes nothing.
\<close>

locale action_recorder =
  fixes n :: string
    and recorded :: "'s \<Rightarrow> bool"
    and runs :: "'s \<Rightarrow> nat"
    and ex :: "Action \<Rightarrow> 's \<Rightarrow> 's \<times> exec_error option"
    and rec :: "string \<Rightarrow> 's \<Rightarrow> 's \<times> 'r option"
  assumes ex_ok: "ex a s = (s', None) \<Longrightarrow>
      recorded s' = recorded s \<and> runs s' = (if act_Name a = n then Suc (runs s) else runs s)"
    and ex_err: "ex a s = (s', Some e) \<Longrightarrow> recorded s' = recorded s \<and> runs s' = runs s"
    and rec_ok: "rec m s = (s', None) \<Longrightarrow> recorded s' = (m = n \<or> recorded s) \<and> runs s' = runs s"
    and rec_err: "rec m s = (s', Some e') \<Longrightarrow> recorded s' = recorded s \<and> runs s' = runs s"
begin

text \<open>The side effect happened at most once, and if it happened it is recorded.\<close>

definition once :: "'s \<Rightarrow> bool" where
  "once s \<longleftrightarrow> runs s \<le> 1 \<and> (0 < runs s \<longrightarrow> recorded s)"

lemma Run_other:
  "Run ex (Some rec) d acts s = (s', err) \<Longrightarrow> n \<in> d \<or> n \<notin> act_Name ` set acts \<Longrightarrow>
   runs s' = runs s \<and> recorded s' = recorded s"
proof (induction acts arbitrary: s)
  case (Cons a acts)
  show ?case
  proof (cases "act_Name a \<in> d")
    case True
    with Cons show ?thesis by auto
  next
    case False
    then have ne: "n \<noteq> act_Name a" using Cons.prems(2) by auto
    obtain s1 r where e: "ex a s = (s1, r)" by (cases "ex a s")
    obtain s2 r2 where c: "rec (act_Name a) s1 = (s2, r2)" by (cases "rec (act_Name a) s1")
    have s1: "runs s1 = runs s" "recorded s1 = recorded s"
      using e ne ex_ok [of a s s1] ex_err [of a s s1] by (cases r; simp)+
    have s2: "runs s2 = runs s1" "recorded s2 = recorded s1"
      using c ne rec_ok [of "act_Name a" s1 s2] rec_err [of "act_Name a" s1 s2] by (cases r2; simp)+
    show ?thesis
    proof (cases "r = None \<and> r2 = None")
      case True
      then have "Run ex (Some rec) d acts s2 = (s', err)" using Cons.prems(1) False e c by simp
      from Cons.IH [OF this] Cons.prems(2) s1 s2 show ?thesis by auto
    next
      case stop: False
      then have "s' = s1 \<or> s' = s2" using Cons.prems(1) False e c by (cases r; cases r2) auto
      with s1 s2 show ?thesis by auto
    qed
  qed
qed simp

lemma Run_once:
  "Run ex (Some rec) d acts s = (s', err) \<Longrightarrow> distinct (map act_Name acts) \<Longrightarrow> once s \<Longrightarrow>
   recorded s \<longrightarrow> n \<in> d \<or> n \<notin> act_Name ` set acts \<Longrightarrow>
   (\<forall>s. Q s \<longrightarrow> snd (rec n s) = None) \<Longrightarrow> Q s \<Longrightarrow>
   (\<forall>a s. Q s \<longrightarrow> Q (fst (ex a s))) \<Longrightarrow> (\<forall>m s. Q s \<longrightarrow> Q (fst (rec m s))) \<Longrightarrow> once s'"
proof (induction acts arbitrary: s)
  case (Cons a acts)
  show ?case
  proof (cases "n \<in> d \<or> n \<notin> act_Name ` set (a # acts)")
    case True
    from Run_other [OF Cons.prems(1) this] Cons.prems(3) show ?thesis by (simp add: once_def)
  next
    case False
    then have fresh: "\<not> recorded s" "n \<notin> d" using Cons.prems(4) by auto
    then have zero: "runs s = 0" using Cons.prems(3) by (auto simp: once_def)
    show ?thesis
    proof (cases "act_Name a \<in> d")
      case True
      with Cons show ?thesis by auto
    next
      case False
      obtain s1 r where e: "ex a s = (s1, r)" by (cases "ex a s")
      obtain s2 r2 where c: "rec (act_Name a) s1 = (s2, r2)" by (cases "rec (act_Name a) s1")
      have q: "Q s1" "Q s2"
        using Cons.prems(6-8) e c by (metis fst_conv)+
      show ?thesis
      proof (cases r)
        case (Some x)
        with Cons.prems(1,3) False e ex_err [of a s s1 x] show ?thesis by (auto simp: once_def)
      next
        case None
        note e1 = ex_ok [OF e [unfolded None]]
        show ?thesis
        proof (cases "n = act_Name a")
          case True
          then have "snd (rec (act_Name a) s1) = None" using Cons.prems(5) q by blast
          then have r2: "r2 = None" using c by simp
          have rest: "Run ex (Some rec) d acts s2 = (s', err)"
            using Cons.prems(1) False e None c r2 by simp
          have "n \<notin> act_Name ` set acts" using Cons.prems(2) True by auto
          from Run_other [OF rest disjI2 [OF this]] rec_ok [OF c [unfolded r2]] e1 zero True
          show ?thesis by (simp add: once_def)
        next
          case ne: False
          show ?thesis
          proof (cases r2)
            case (Some x)
            with Cons.prems(1) False e None c have "s' = s2" by simp
            with rec_err [OF c [unfolded Some]] e1 zero ne show ?thesis by (simp add: once_def)
          next
            case r2: None
            have rest: "Run ex (Some rec) d acts s2 = (s', err)"
              using Cons.prems(1) False e None c r2 by simp
            have "runs s2 = 0" "\<not> recorded s2"
              using rec_ok [OF c [unfolded r2]] e1 zero fresh ne by auto
            then show ?thesis
              using Cons.IH [OF rest _ _ _ Cons.prems(5) q(2) Cons.prems(7,8)] Cons.prems(2)
              by (simp add: once_def)
          qed
        qed
      qed
    qed
  qed
qed simp

lemma Run_mono: "Run ex (Some rec) d acts s = (s', err) \<Longrightarrow> recorded s \<Longrightarrow> recorded s'"
proof (induction acts arbitrary: s)
  case (Cons a acts)
  obtain s1 r where e: "ex a s = (s1, r)" by (cases "ex a s")
  obtain s2 r2 where c: "rec (act_Name a) s1 = (s2, r2)" by (cases "rec (act_Name a) s1")
  have "recorded s1" using e Cons.prems(2) ex_ok [of a s s1] ex_err [of a s s1] by (cases r; simp)
  moreover from this have "recorded s2"
    using c rec_ok [of "act_Name a" s1 s2] rec_err [of "act_Name a" s1 s2] by (cases r2; simp)
  ultimately show ?case using Cons e c by (auto split: if_splits option.splits)
qed simp

lemma Run_records:
  "Run ex (Some rec) d acts s = (s', None) \<Longrightarrow> n \<in> act_Name ` set acts \<Longrightarrow> n \<in> d \<or> recorded s'"
proof (induction acts arbitrary: s)
  case (Cons a acts)
  show ?case
  proof (cases "act_Name a \<in> d")
    case True
    with Cons show ?thesis by auto
  next
    case False
    obtain s1 r where e: "ex a s = (s1, r)" by (cases "ex a s")
    obtain s2 r2 where c: "rec (act_Name a) s1 = (s2, r2)" by (cases "rec (act_Name a) s1")
    have r: "r = None" "r2 = None" and rest: "Run ex (Some rec) d acts s2 = (s', None)"
      using Cons.prems(1) False e c by (auto split: option.splits)
    show ?thesis
    proof (cases "n = act_Name a")
      case True
      then show ?thesis using Run_mono [OF rest] rec_ok [OF c [unfolded r]] by simp
    next
      case False
      then show ?thesis using Cons.IH [OF rest] Cons.prems(2) by simp
    qed
  qed
qed simp

end

lemma Run_preserves:
  assumes "\<forall>a s. P s \<longrightarrow> P (fst (ex a s))" "\<forall>n s. P s \<longrightarrow> P (fst (rec n s))"
  shows "Run ex (Some rec) d acts s = (s', err) \<Longrightarrow> P s \<Longrightarrow> P s'"
proof (induction acts arbitrary: s)
  case (Cons a acts)
  obtain s1 r where e: "ex a s = (s1, r)" by (cases "ex a s")
  obtain s2 r2 where c: "rec (act_Name a) s1 = (s2, r2)" by (cases "rec (act_Name a) s1")
  have "P s1" using assms(1) Cons.prems(2) e by (metis fst_conv)
  moreover from this have "P s2" using assms(2) c by (metis fst_conv)
  ultimately show ?case using Cons e c by (auto split: if_splits option.splits)
qed simp

section \<open>A stage's actions in a pass\<close>

text \<open>\<open>as_runs\<close> counts the side effects of each action; no code reads it.\<close>

record 'w action_state =
  as_world :: 'w
  as_led :: actionLedger
  as_completed :: "LedgerCompletion list option"
  as_runs :: "string \<Rightarrow> nat"

definition counted ::
  "(Action \<Rightarrow> 'w \<Rightarrow> 'w \<times> exec_error option) \<Rightarrow> Action \<Rightarrow> 'w action_state \<Rightarrow> 'w action_state \<times> exec_error option" where
  "counted act a st =
     (case act a (as_world st) of
        (w, None) \<Rightarrow> (st\<lparr>as_world := w, as_runs := (as_runs st)(act_Name a := Suc (as_runs st (act_Name a)))\<rparr>, None)
      | (w, Some e) \<Rightarrow> (st\<lparr>as_world := w\<rparr>, Some e))"

text \<open>The stage loop's \<open>record\<close> closure.\<close>

definition stage_record ::
  "Stage \<Rightarrow> anchor_reader \<Rightarrow> instant \<Rightarrow> (string \<Rightarrow> bool) \<Rightarrow> string \<Rightarrow> 'w action_state
   \<Rightarrow> 'w action_state \<times> ledger_error option" where
  "stage_record stage reader now update_fails name st =
     (if ActionScopes stage name = Some ScopeLifetime then
        (case recordLifetimeCompletion reader now (update_fails name) (as_completed st) (stg_Name stage) name
            (stageAnchors stage name) of
           Inl e \<Rightarrow> (st, Some e)
         | Inr cs \<Rightarrow> (st\<lparr>as_completed := Some cs\<rparr>, None))
      else (st\<lparr>as_led := record_action (ActionScopes stage) name (as_led st)\<rparr>, None))"

text \<open>
  One pass over one stage: \<open>sp_mid\<close> is everything between the pre- and the post-actions, \<open>sp_act\<close> the
  executor, and \<open>sp_persisted\<close> says whether the status patch that ends the pass lands.
\<close>

datatype mid_result =
    MidOk | MidUntouched string | MidApplied string | MidProgressing string | MidDeleted

record 'w stage_pass =
  sp_revision :: string
  sp_desired :: "string option"
  sp_baseline :: bool
  sp_act :: "Action \<Rightarrow> 'w \<Rightarrow> 'w \<times> exec_error option"
  sp_reader :: anchor_reader
  sp_now :: instant
  sp_drop_fails :: bool
  sp_update_fails :: "string \<Rightarrow> bool"
  sp_mid :: "'w \<Rightarrow> 'w \<times> mid_result"
  sp_persisted :: bool

definition actions_of :: "(StageActions \<Rightarrow> Action list) \<Rightarrow> Stage \<Rightarrow> Action list" where
  "actions_of which stage = (case stg_Actions stage of None \<Rightarrow> [] | Some a \<Rightarrow> which a)"

definition run_actions ::
  "'w stage_pass \<Rightarrow> Stage \<Rightarrow> (StageActions \<Rightarrow> Action list) \<Rightarrow> 'w action_state
   \<Rightarrow> 'w action_state \<times> ledger_error run_error option" where
  "run_actions p stage which st =
     Run (counted (sp_act p)) (Some (stage_record stage (sp_reader p) (sp_now p) (sp_update_fails p)))
       (doneSet (as_led st)) (actions_of which stage) st"

definition runOnFailure :: "'w stage_pass \<Rightarrow> Stage \<Rightarrow> 'w action_state \<Rightarrow> 'w action_state" where
  "runOnFailure p stage st = fst (run_actions p stage sact_OnFailure st)"

definition open_ledgers ::
  "'w stage_pass \<Rightarrow> Stage \<Rightarrow> StageStatus option \<Rightarrow> 'w action_state \<Rightarrow> 'w action_state \<times> bool" where
  "open_ledgers p stage prior st =
     (let gate = EvaluateLifetimeGate (sp_reader p) (as_completed st) (stg_Name stage);
          led = (stage_ledger (sp_revision p) (sp_desired p) (sp_baseline p) stage prior)\<lparr>al_lifetimeDone := lg_Done gate\<rparr>
      in case as_completed st of
           None \<Rightarrow> (st\<lparr>as_led := led\<rparr>, True)
         | Some cs \<Rightarrow>
             (case dropCompletions cs (stg_Name stage) (lg_Invalidated gate) of
                (cs', changed) \<Rightarrow>
                  if changed \<and> sp_drop_fails p then (st\<lparr>as_led := led\<rparr>, False)
                  else (st\<lparr>as_led := led, as_completed := Some cs'\<rparr>, True)))"

definition stage_action_pass ::
  "'w stage_pass \<Rightarrow> Stage \<Rightarrow> StageStatus option \<Rightarrow> 'w action_state \<Rightarrow> 'w action_state \<times> StageStatus option" where
  "stage_action_pass p stage prior st0 =
     (let failed = (\<lambda>op st. (st, Some (failed_entry (stg_Name stage) op (as_led st))));
          entry = (\<lambda>ph msg st. (st, Some (stamp (as_led st)
            ((stage_status (stg_Name stage) ph (sp_revision p))\<lparr>ss_Message := msg\<rparr>))))
      in case open_ledgers p stage prior st0 of
           (st, False) \<Rightarrow> failed ''invalidate lifetime completion'' st
         | (st, True) \<Rightarrow>
             (case run_actions p stage sact_Pre st of
                (st1, Some e) \<Rightarrow> failed ''pre-action'' st1
              | (st1, None) \<Rightarrow>
                  (case sp_mid p (as_world st1) of
                     (w, m) \<Rightarrow>
                       let st2 = st1\<lparr>as_world := w\<rparr> in
                       (case m of
                          MidUntouched op \<Rightarrow> failed op st2
                        | MidApplied op \<Rightarrow> failed op (runOnFailure p stage st2)
                        | MidProgressing msg \<Rightarrow> entry StageVerifying msg st2
                        | MidDeleted \<Rightarrow> (st2, None)
                        | MidOk \<Rightarrow>
                            (case run_actions p stage sact_Post st2 of
                               (st3, Some e) \<Rightarrow> failed ''post-action'' (runOnFailure p stage st3)
                             | (st3, None) \<Rightarrow> entry StageReady [] st3)))))"

fun stage_passes ::
  "Stage \<Rightarrow> 'w stage_pass list \<Rightarrow> StageStatus option \<Rightarrow> 'w action_state \<Rightarrow> StageStatus option \<times> 'w action_state" where
  "stage_passes stage [] prior st = (prior, st)"
| "stage_passes stage (p # ps) prior st =
     (case stage_action_pass p stage prior st of
        (st', entry) \<Rightarrow>
          stage_passes stage ps (if sp_persisted p \<and> entry \<noteq> None then entry else prior) st')"

section \<open>The stage's ledgers provide the interface\<close>

text \<open>Where the record of an action name is kept: in the ledger its scope selects.\<close>

definition recorded_in :: "Stage \<Rightarrow> string \<Rightarrow> 'w action_state \<Rightarrow> bool" where
  "recorded_in stage n st =
     (case ActionScopes stage n of
        Some ScopeLifetime \<Rightarrow>
          (case as_completed st of None \<Rightarrow> False | Some cs \<Rightarrow> IsCompleted cs (stg_Name stage) n)
      | Some ScopeVersion \<Rightarrow> n \<in> set (al_versioned (as_led st))
      | _ \<Rightarrow> n \<in> set (al_executed (as_led st)))"

lemma recordLifetimeCompletion_keys:
  "recordLifetimeCompletion reader now fails completed stage m anchor = Inr cs' \<Longrightarrow>
   \<exists>cs. completed = Some cs \<and>
     (\<forall>n. IsCompleted cs' stage n \<longleftrightarrow> n = m \<or> IsCompleted cs stage n)"
  by (auto simp: recordLifetimeCompletion_def bind_result_def IsCompleted_def
      split: option.splits if_splits sum.splits)

lemma recorded_in_cong:
  "as_led s' = as_led s \<Longrightarrow> as_completed s' = as_completed s \<Longrightarrow>
   recorded_in stage n s' = recorded_in stage n s"
  by (simp add: recorded_in_def cong: option.case_cong ActionScope.case_cong)

lemma counted_eq:
  "counted act a s = (s', r) \<Longrightarrow> as_led s' = as_led s \<and> as_completed s' = as_completed s \<and>
   as_runs s' = (if r = None then (as_runs s)(act_Name a := Suc (as_runs s (act_Name a))) else as_runs s)"
  by (auto simp: counted_def split: prod.splits option.splits)

lemma recorded_in_led:
  "recorded_in stage n (s\<lparr>as_led := record_action (ActionScopes stage) m (as_led s)\<rparr>) \<longleftrightarrow>
   recorded_in stage n s \<or> (m = n \<and> ActionScopes stage n \<noteq> Some ScopeLifetime)"
  if "ActionScopes stage m \<noteq> Some ScopeLifetime"
  using that by (auto simp: recorded_in_def record_action_def split: option.splits ActionScope.splits)

lemma recorded_in_completed:
  "recorded_in stage n (s\<lparr>as_completed := Some cs'\<rparr>) \<longleftrightarrow> m = n \<or> recorded_in stage n s"
  if "ActionScopes stage m = Some ScopeLifetime" "as_completed s = Some cs"
    "\<forall>n. IsCompleted cs' (stg_Name stage) n \<longleftrightarrow> n = m \<or> IsCompleted cs (stg_Name stage) n"
  using that by (auto simp: recorded_in_def split: option.splits ActionScope.splits)

interpretation stage_recorder: action_recorder n "recorded_in stage n" "\<lambda>st. as_runs st n" "counted act"
  "stage_record stage reader now update_fails" for n stage act reader now update_fails
proof unfold_locales
  fix a and s s' :: "'a action_state" and e m e'
  show "counted act a s = (s', None) \<Longrightarrow> recorded_in stage n s' = recorded_in stage n s \<and>
      as_runs s' n = (if act_Name a = n then Suc (as_runs s n) else as_runs s n)"
    by (auto dest!: counted_eq intro!: recorded_in_cong)
  show "counted act a s = (s', Some e) \<Longrightarrow>
      recorded_in stage n s' = recorded_in stage n s \<and> as_runs s' n = as_runs s n"
    by (auto dest!: counted_eq intro!: recorded_in_cong)
  show "recorded_in stage n s' = (m = n \<or> recorded_in stage n s) \<and> as_runs s' n = as_runs s n"
    if "stage_record stage reader now update_fails m s = (s', None)"
  proof (cases "ActionScopes stage m = Some ScopeLifetime")
    case True
    with that obtain cs' where cs': "recordLifetimeCompletion reader now (update_fails m) (as_completed s)
        (stg_Name stage) m (stageAnchors stage m) = Inr cs'" "s' = s\<lparr>as_completed := Some cs'\<rparr>"
      by (auto simp: stage_record_def split: sum.splits)
    from recordLifetimeCompletion_keys [OF cs'(1)] recorded_in_completed [OF True, of s _ cs' n] cs'(2)
    show ?thesis by auto
  next
    case False
    with that show ?thesis by (auto simp: stage_record_def recorded_in_led)
  qed
  show "stage_record stage reader now update_fails m s = (s', Some e') \<Longrightarrow>
      recorded_in stage n s' = recorded_in stage n s \<and> as_runs s' n = as_runs s n"
    by (auto simp: stage_record_def split: if_splits sum.splits)
qed

definition ran_once :: "Stage \<Rightarrow> string \<Rightarrow> 'w action_state \<Rightarrow> bool" where
  "ran_once stage n st \<longleftrightarrow> as_runs st n \<le> 1 \<and> (0 < as_runs st n \<longrightarrow> recorded_in stage n st)"

text \<open>The names of a stage's three lists.\<close>

definition stage_action_names :: "Stage \<Rightarrow> string list" where
  "stage_action_names stage =
     map act_Name (actions_of sact_Pre stage @ actions_of sact_Post stage @ actions_of sact_OnFailure stage)"

definition has_ledger :: "Stage \<Rightarrow> string \<Rightarrow> 'w action_state \<Rightarrow> bool" where
  "has_ledger stage n st \<longleftrightarrow> (ActionScopes stage n = Some ScopeLifetime \<longrightarrow> as_completed st \<noteq> None)"

lemma has_ledger_kept:
  "\<forall>a s. has_ledger stage n s \<longrightarrow> has_ledger stage n (fst (counted act a s))"
  "\<forall>m s. has_ledger stage n s \<longrightarrow> has_ledger stage n (fst (stage_record stage' reader now upd m s))"
  by (auto simp: has_ledger_def counted_def stage_record_def split: prod.split option.split sum.split)

definition rec_total :: "'w stage_pass \<Rightarrow> Stage \<Rightarrow> string \<Rightarrow> bool" where
  "rec_total p stage n \<longleftrightarrow>
     (\<forall>st :: 'w action_state. has_ledger stage n st \<longrightarrow> snd (stage_record stage (sp_reader p) (sp_now p) (sp_update_fails p) n st) = None)"

text \<open>What every run of a list keeps: the open ledgers grow, revision and version stay.\<close>

definition ledger_grows :: "actionLedger \<Rightarrow> actionLedger \<Rightarrow> bool" where
  "ledger_grows l l' \<longleftrightarrow> al_revision l' = al_revision l \<and> al_version l' = al_version l \<and>
     al_lifetimeDone l' = al_lifetimeDone l \<and> doneSet l \<subseteq> doneSet l'"

lemma record_action_grows: "ledger_grows l l' \<Longrightarrow> ledger_grows l (record_action sc m l')"
  by (auto simp: ledger_grows_def record_action_def doneSet_def)

lemma counted_grows:
  "\<forall>a s. ledger_grows l (as_led s) \<and> (c \<longrightarrow> as_completed s \<noteq> None) \<longrightarrow>
     ledger_grows l (as_led (fst (counted act a s))) \<and> (c \<longrightarrow> as_completed (fst (counted act a s)) \<noteq> None)"
  using counted_eq by (metis prod.collapse)

lemma stage_record_grows:
  "\<forall>n s. ledger_grows l (as_led s) \<and> (c \<longrightarrow> as_completed s \<noteq> None) \<longrightarrow>
     ledger_grows l (as_led (fst (stage_record stage reader now upd n s))) \<and>
     (c \<longrightarrow> as_completed (fst (stage_record stage reader now upd n s)) \<noteq> None)"
  by (simp add: stage_record_def record_action_grows split: sum.split)

lemma run_actions_grows:
  assumes "run_actions p stage which st = (st', err)"
  shows "ledger_grows (as_led st) (as_led st') \<and> (as_completed st \<noteq> None \<longrightarrow> as_completed st' \<noteq> None)"
  using Run_preserves
    [of "\<lambda>s. ledger_grows (as_led st) (as_led s) \<and> (as_completed st \<noteq> None \<longrightarrow> as_completed s \<noteq> None)",
     OF counted_grows stage_record_grows assms [unfolded run_actions_def]]
  by (simp add: ledger_grows_def)

lemma run_actions_once:
  assumes "run_actions p stage which st = (st', err)"
    and "distinct (map act_Name (actions_of which stage))" "ran_once stage n st" "rec_total p stage n"
    and "recorded_in stage n st \<longrightarrow> n \<in> doneSet (as_led st) \<or> n \<notin> act_Name ` set (actions_of which stage)"
    and "has_ledger stage n st"
  shows "ran_once stage n st'"
  using stage_recorder.Run_once [OF assms(1) [unfolded run_actions_def] assms(2),
      unfolded stage_recorder.once_def, OF assms(3) [unfolded ran_once_def] assms(5)
      assms(4) [unfolded rec_total_def] assms(6) has_ledger_kept]
  unfolding ran_once_def .

lemma run_actions_other:
  assumes "run_actions p stage which st = (st', err)" "n \<notin> act_Name ` set (actions_of which stage)"
  shows "as_runs st' n = as_runs st n" and "recorded_in stage n st' = recorded_in stage n st"
  using stage_recorder.Run_other [OF assms(1) [unfolded run_actions_def] disjI2 [OF assms(2)]]
  by simp_all

lemma run_actions_mono:
  "run_actions p stage which st = (st', err) \<Longrightarrow> recorded_in stage n st \<Longrightarrow> recorded_in stage n st'"
  unfolding run_actions_def by (rule stage_recorder.Run_mono)

lemma run_actions_records:
  "run_actions p stage which st = (st', None) \<Longrightarrow> n \<in> act_Name ` set (actions_of which stage) \<Longrightarrow>
   n \<in> doneSet (as_led st) \<or> recorded_in stage n st'"
  unfolding run_actions_def by (rule stage_recorder.Run_records)

section \<open>A pass over the actions\<close>

definition safe_to_run :: "Stage \<Rightarrow> string \<Rightarrow> (StageActions \<Rightarrow> Action list) \<Rightarrow> 'w action_state \<Rightarrow> bool" where
  "safe_to_run stage n which st \<longleftrightarrow>
     (recorded_in stage n st \<longrightarrow> n \<in> doneSet (as_led st) \<or> n \<notin> act_Name ` set (actions_of which stage))"

lemma run_actions_safe:
  assumes "run_actions p stage which st = (st', err)" "safe_to_run stage n which' st"
    and "act_Name ` set (actions_of which stage) \<inter> act_Name ` set (actions_of which' stage) = {}"
  shows "safe_to_run stage n which' st'"
proof (cases "n \<in> act_Name ` set (actions_of which' stage)")
  case True
  then have "n \<notin> act_Name ` set (actions_of which stage)" using assms(3) by blast
  with run_actions_other [OF assms(1) this] run_actions_grows [OF assms(1)] assms(2)
  show ?thesis by (auto simp: safe_to_run_def ledger_grows_def)
qed (simp add: safe_to_run_def)

lemma run_actions_once':
  "run_actions p stage which st = (st', err) \<Longrightarrow> distinct (map act_Name (actions_of which stage)) \<Longrightarrow>
   ran_once stage n st \<Longrightarrow> rec_total p stage n \<Longrightarrow> safe_to_run stage n which st \<Longrightarrow>
   has_ledger stage n st \<Longrightarrow> ran_once stage n st'"
  unfolding safe_to_run_def by (rule run_actions_once)

text \<open>\<open>stage_tail\<close>: the pass after its ledgers are open.\<close>

definition pass_inv :: "'w stage_pass \<Rightarrow> Stage \<Rightarrow> string \<Rightarrow> actionLedger \<Rightarrow> 'w action_state \<Rightarrow> bool" where
  "pass_inv p stage n led st \<longleftrightarrow>
     ran_once stage n st \<and> ledger_grows led (as_led st) \<and> has_ledger stage n st"

lemma ledger_grows_trans: "ledger_grows a b \<Longrightarrow> ledger_grows b c \<Longrightarrow> ledger_grows a c"
  by (auto simp: ledger_grows_def)

lemma pass_inv_world [simp]: "pass_inv p stage n led (st\<lparr>as_world := w\<rparr>) = pass_inv p stage n led st"
  "safe_to_run stage n which (st\<lparr>as_world := w\<rparr>) = safe_to_run stage n which st"
  by (simp_all add: pass_inv_def ran_once_def safe_to_run_def has_ledger_def recorded_in_cong [of "st\<lparr>as_world := w\<rparr>" st])

lemma pass_inv_run:
  assumes "run_actions p stage which st = (st', err)" "pass_inv p stage n led st"
    and "distinct (map act_Name (actions_of which stage))" "rec_total p stage n" "safe_to_run stage n which st"
  shows "pass_inv p stage n led st'"
  using assms run_actions_once' [OF assms(1,3)] run_actions_grows [OF assms(1)] ledger_grows_trans
  unfolding pass_inv_def has_ledger_def by blast

lemma stage_action_pass_once:
  assumes pass: "stage_action_pass p stage prior st0 = (st', entry)"
    and op: "open_ledgers p stage prior st0 = (st, ok)"
    and dis: "distinct (stage_action_names stage)" and total: "rec_total p stage n"
    and once: "ran_once stage n st" and rec: "ok \<longrightarrow> recorded_in stage n st \<longrightarrow> n \<in> doneSet (as_led st)"
    and led: "has_ledger stage n st"
  shows "pass_inv p stage n (as_led st) st' \<and>
    (\<forall>e. entry = Some e \<longrightarrow> ss_ExecutedActions e = al_executed (as_led st') \<and>
       ss_LedgerRevision e = al_revision (as_led st') \<and>
       ss_ExecutedVersionActions e = al_versioned (as_led st') \<and> ss_LedgerVersion e = al_version (as_led st')) \<and>
    (entry = None \<longrightarrow> (\<exists>w. snd (sp_mid p w) = MidDeleted))"
proof (cases ok)
  case False
  have "pass_inv p stage n (as_led st) st" using once led by (simp add: pass_inv_def ledger_grows_def)
  with pass [unfolded stage_action_pass_def Let_def, simplified op prod.case] False
  show ?thesis by (auto simp: failed_entry_def stamp_def)
next
  case ok: True
  let ?names = "\<lambda>which. act_Name ` set (actions_of which stage)"
  have d: "distinct (map act_Name (actions_of sact_Pre stage))" "distinct (map act_Name (actions_of sact_Post stage))"
      "distinct (map act_Name (actions_of sact_OnFailure stage))"
    and dj: "?names sact_Pre \<inter> ?names sact_Post = {}" "?names sact_Pre \<inter> ?names sact_OnFailure = {}"
      "?names sact_Post \<inter> ?names sact_OnFailure = {}"
    using dis by (auto simp: stage_action_names_def)
  have s0: "safe_to_run stage n which st" for which using rec ok by (simp add: safe_to_run_def)
  have i0: "pass_inv p stage n (as_led st) st" using once led by (simp add: pass_inv_def ledger_grows_def)
  obtain st1 e1 where pre: "run_actions p stage sact_Pre st = (st1, e1)" by (cases "run_actions p stage sact_Pre st")
  have i1: "pass_inv p stage n (as_led st) st1" by (rule pass_inv_run [OF pre i0 d(1) total s0])
  have s1: "safe_to_run stage n sact_Post st1" "safe_to_run stage n sact_OnFailure st1"
    using run_actions_safe [OF pre s0] dj by blast+
  obtain w m where mid: "sp_mid p (as_world st1) = (w, m)" by (cases "sp_mid p (as_world st1)")
  let ?st2 = "st1\<lparr>as_world := w\<rparr>"
  obtain st3 e3 where post: "run_actions p stage sact_Post ?st2 = (st3, e3)"
    by (cases "run_actions p stage sact_Post ?st2")
  have i3: "pass_inv p stage n (as_led st) st3"
    by (rule pass_inv_run [OF post _ d(2) total]) (simp_all add: i1 s1)
  have s3: "safe_to_run stage n sact_OnFailure st3"
    by (rule run_actions_safe [OF post _ dj(3)]) (simp add: s1)
  have f: "pass_inv p stage n (as_led st) (runOnFailure p stage x)"
    if "pass_inv p stage n (as_led st) x" "safe_to_run stage n sact_OnFailure x" for x
    unfolding runOnFailure_def
    by (cases "run_actions p stage sact_OnFailure x") (use pass_inv_run [OF _ that(1) d(3) total that(2)] in auto)
  have f2: "pass_inv p stage n (as_led st) (runOnFailure p stage ?st2)" by (rule f) (simp_all add: i1 s1)
  have f3: "pass_inv p stage n (as_led st) (runOnFailure p stage st3)" by (rule f [OF i3 s3])
  note r = pass [unfolded stage_action_pass_def Let_def, simplified op prod.case]
  show ?thesis
  proof (cases e1)
    case (Some x)
    with r ok pre i1 show ?thesis by (auto simp: failed_entry_def stamp_def)
  next
    case e1: None
    show ?thesis
    proof (cases m)
      case MidOk
      with r ok pre e1 mid post i3 f3 show ?thesis
        by (cases e3) (auto simp: failed_entry_def stamp_def)
    next
      case (MidApplied x)
      with r ok pre e1 mid f2 show ?thesis by (auto simp: failed_entry_def stamp_def)
    next
      case MidDeleted
      with r ok pre e1 mid i1 have "st' = ?st2" "entry = None" by simp_all
      moreover have "\<exists>w. snd (sp_mid p w) = MidDeleted" using mid MidDeleted by (metis snd_conv)
      ultimately show ?thesis using i1 by simp
    qed (use r ok pre e1 mid i1 in \<open>auto simp: failed_entry_def stamp_def\<close>)
  qed
qed

section \<open>Opening the ledgers\<close>

lemma open_ledgers_led:
  "open_ledgers p stage prior st0 = (st, ok) \<Longrightarrow>
   as_led st = (stage_ledger (sp_revision p) (sp_desired p) (sp_baseline p) stage prior)
     \<lparr>al_lifetimeDone := lg_Done (EvaluateLifetimeGate (sp_reader p) (as_completed st0) (stg_Name stage))\<rparr> \<and>
   as_runs st = as_runs st0"
  by (auto simp: open_ledgers_def Let_def split: option.splits prod.splits if_splits)

lemma gate_lists:
  "lg_Done (EvaluateLifetimeGate reader (Some cs) stage) =
     map lc_Action (filter (\<lambda>c. lc_Stage c = stage \<and> \<not> completion_gone reader c) cs)"
  "lg_Invalidated (EvaluateLifetimeGate reader (Some cs) stage) =
     map lc_Action (filter (\<lambda>c. lc_Stage c = stage \<and> completion_gone reader c) cs)"
  using gate_fold [of reader stage cs "\<lparr>lg_Done = [], lg_Invalidated = [], lg_Unreadable = []\<rparr>"]
  by (simp_all add: EvaluateLifetimeGate_def)

lemma dropCompletions_fst:
  "fst (dropCompletions cs stage acts) = filter (\<lambda>c. \<not> (lc_Stage c = stage \<and> lc_Action c \<in> set acts)) cs"
  by (simp add: dropCompletions_def Let_def)

lemma open_ledgers_completed:
  assumes "open_ledgers p stage prior st0 = (st, ok)"
  shows "as_completed st = as_completed st0 \<or> (\<exists>cs. as_completed st0 = Some cs \<and> as_completed st =
      Some (fst (dropCompletions cs (stg_Name stage)
        (lg_Invalidated (EvaluateLifetimeGate (sp_reader p) (Some cs) (stg_Name stage))))))"
    and "ok \<Longrightarrow> as_completed st0 = Some cs \<Longrightarrow> as_completed st =
      Some (fst (dropCompletions cs (stg_Name stage)
        (lg_Invalidated (EvaluateLifetimeGate (sp_reader p) (Some cs) (stg_Name stage)))))"
    and "ok \<Longrightarrow> as_completed st0 = None \<Longrightarrow> as_completed st = None"
  using assms by (auto simp: open_ledgers_def Let_def split: option.splits prod.splits if_splits)

lemma open_ledgers_recorded:
  assumes op: "open_ledgers p stage prior st0 = (st, ok)"
  shows "ok \<longrightarrow> recorded_in stage n st \<longrightarrow> n \<in> doneSet (as_led st)"
proof (intro impI)
  assume ok: ok and rec: "recorded_in stage n st"
  show "n \<in> doneSet (as_led st)"
  proof (cases "ActionScopes stage n = Some ScopeLifetime")
    case False
    with rec show ?thesis
      by (auto simp: recorded_in_def doneSet_def split: option.splits ActionScope.splits)
  next
    case True
    then obtain cs where cs: "as_completed st0 = Some cs"
      using rec open_ledgers_completed(3) [OF op ok] by (cases "as_completed st0") (auto simp: recorded_in_def)
    have "\<exists>c\<in>set cs. lc_Stage c = stg_Name stage \<and> lc_Action c = n \<and> \<not> completion_gone (sp_reader p) c"
      using rec True open_ledgers_completed(2) [OF op ok cs]
      by (auto simp: recorded_in_def IsCompleted_def list_ex_iff dropCompletions_fst gate_lists)
    then have "n \<in> set (lg_Done (EvaluateLifetimeGate (sp_reader p) (Some cs) (stg_Name stage)))"
      unfolding gate_lists by auto
    then show ?thesis using open_ledgers_led [OF op] cs by (simp add: doneSet_def)
  qed
qed

section \<open>Properties\<close>

text \<open>The retry budget. An action is dispatched at most \<open>retries + 1\<close> times: attempt after attempt
  on the world the previous one left, going on only after an error that is not terminal and while the
  context lives, and it ends with a success, a terminal error, an exhausted budget or a done context.\<close>

theorem exec_retry_budget:
  "\<exists>n. n \<le> retries_of a \<and>
     exec vb cancelled a s = dispatch vb a (after_attempts (dispatch vb a) n s) \<and>
     (\<forall>k<n. \<exists>e. snd (dispatch vb a (after_attempts (dispatch vb a) k s)) = Some e \<and>
        \<not> terminal_error e \<and> \<not> cancelled a k) \<and>
     (case snd (exec vb cancelled a s) of None \<Rightarrow> True
      | Some e \<Rightarrow> terminal_error e \<or> n = retries_of a \<or> cancelled a n)"
  using exec_loop_attempts [of 0 "retries_of a" "dispatch vb a" "cancelled a" s]
  unfolding exec_def by fastforce

definition demo_action :: "string \<Rightarrow> Action" where
  "demo_action name = \<lparr>act_Name = name, act_Scope = ScopeUnset, act_Timeout = None, act_Retries = Some 2,
     act_Patch = None, act_HTTP = Some \<lparr>ha_URL = ''https://hooks.example'', ha_Method = [], ha_Body = [],
       ha_BodyFrom = None, ha_HeadersFrom = [], ha_ExpectedStatus = []\<rparr>, act_Wait = None, act_Job = None,
     act_Delete = None, act_Apply = None, act_CompletionAnchor = None\<rparr>"

definition demo_verbs :: "nat verbs" where
  "demo_verbs = \<lparr>vb_patch = \<lambda>_ k. (Suc k, None), vb_http = \<lambda>_ k. (Suc k, response_error 503 []),
     vb_wait = \<lambda>_ k. (k, None), vb_job = \<lambda>_ k. (k, None), vb_delete = \<lambda>_ k. (k, None),
     vb_apply = \<lambda>_ k. (k, None)\<rparr>"

theorem exec_retry_budget_witness:
  "fst (exec demo_verbs (\<lambda>_ _. False) (demo_action ''notify'') 0) = 3 \<and>
   (\<exists>n \<le> 2. exec demo_verbs (\<lambda>_ _. False) (demo_action ''notify'') 0 =
      dispatch demo_verbs (demo_action ''notify'') (after_attempts (dispatch demo_verbs (demo_action ''notify'')) n 0))"
proof -
  have "retries_of (demo_action ''notify'') = 2" by code_simp
  moreover have "fst (exec demo_verbs (\<lambda>_ _. False) (demo_action ''notify'') 0) = 3" by code_simp
  ultimately show ?thesis
    using exec_retry_budget [of "demo_action ''notify''" demo_verbs "\<lambda>_ _. False" 0] by auto
qed

text \<open>The guard on HTTP actions. A URL is allowed exactly when it parses, its scheme is http or https,
  its host name less a trailing dot is not empty, and the host matches a pattern of the allow list or,
  when there is none, is neither localhost nor a forbidden address; a redirect off the original host is
  never followed with secrets attached, and no connection is made to a name any of whose addresses is
  forbidden.\<close>

theorem http_guard_exact:
  "(allowedURL glob forbidden hosts url = None \<longleftrightarrow>
      (\<exists>scheme hostname. url = Some (scheme, hostname) \<and> to_lower scheme \<in> {''http'', ''https''} \<and>
        trim_suffix hostname ''.'' \<noteq> [] \<and>
        (if hosts = [] then to_lower (trim_suffix hostname ''.'') \<noteq> ''localhost'' \<and>
            \<not> forbidden (trim_suffix hostname ''.'')
         else \<exists>pattern\<in>set hosts. glob pattern (trim_suffix hostname ''.'')))) \<and>
   (CheckRedirect hasSecrets orig (allowedURL glob forbidden hosts url) via host = Follow \<longleftrightarrow>
      via < 10 \<and> (hasSecrets \<longrightarrow> host = orig) \<and> allowedURL glob forbidden hosts url = None) \<and>
   (safe_dial_addresses bad resolved = Inr ips \<longleftrightarrow> resolved = Inr ips \<and> (\<forall>ip\<in>set ips. \<not> bad ip))"
proof (intro conjI)
  show "allowedURL glob forbidden hosts url = None \<longleftrightarrow>
      (\<exists>scheme hostname. url = Some (scheme, hostname) \<and> to_lower scheme \<in> {''http'', ''https''} \<and>
        trim_suffix hostname ''.'' \<noteq> [] \<and>
        (if hosts = [] then to_lower (trim_suffix hostname ''.'') \<noteq> ''localhost'' \<and>
            \<not> forbidden (trim_suffix hostname ''.'')
         else \<exists>pattern\<in>set hosts. glob pattern (trim_suffix hostname ''.'')))"
    by (cases url) (auto simp: allowedURL_def Let_def list_ex_iff split: if_splits)
  show "CheckRedirect hasSecrets orig (allowedURL glob forbidden hosts url) via host = Follow \<longleftrightarrow>
      via < 10 \<and> (hasSecrets \<longrightarrow> host = orig) \<and> allowedURL glob forbidden hosts url = None"
    by (auto simp: CheckRedirect_def split: option.splits)
  show "safe_dial_addresses bad resolved = Inr ips \<longleftrightarrow> resolved = Inr ips \<and> (\<forall>ip\<in>set ips. \<not> bad ip)"
    by (auto simp: safe_dial_addresses_def list_ex_iff split: sum.splits if_splits)
qed

theorem http_guard_exact_witness:
  "CheckRedirect True ''a.example'' (allowedURL (\<lambda>_ _. False) (\<lambda>h. h = ''10.0.0.1'') []
     (Some (''https'', ''b.example''))) 0 ''b.example'' \<noteq> Follow"
proof
  assume "CheckRedirect True ''a.example'' (allowedURL (\<lambda>_ _. False) (\<lambda>h. h = ''10.0.0.1'') []
     (Some (''https'', ''b.example''))) 0 ''b.example'' = Follow"
  then show False
    using http_guard_exact [of "\<lambda>_ _. False" "\<lambda>h. h = ''10.0.0.1''" "[]" "Some (''https'', ''b.example'')"
      True "''a.example''" 0 "''b.example''" "\<lambda>_. False" "Inr []" "[]"] by simp
qed

section \<open>At most once\<close>

lemma ledger_recorded:
  "ActionScopes stage n \<noteq> Some ScopeLifetime \<Longrightarrow>
   recorded_in stage n st \<longleftrightarrow>
     (if ActionScopes stage n = Some ScopeVersion then n \<in> set (al_versioned (as_led st))
      else n \<in> set (al_executed (as_led st)))"
  by (auto simp: recorded_in_def split: option.splits ActionScope.splits)

lemma ledger_keeps_revision:
  assumes "n \<in> set (ss_ExecutedActions e)" "ss_LedgerRevision e = rv"
  shows "n \<in> set (al_executed (stage_ledger rv v b stage (Some e)))"
  using assms by (simp add: stage_ledger_def)

lemma ledger_keeps_version:
  assumes "n \<in> set (ss_ExecutedVersionActions e)" "ss_LedgerVersion e = x"
  shows "n \<in> set (al_versioned (stage_ledger rv (Some x) b stage (Some e)))"
  using assms by (simp add: stage_ledger_def)

lemma stage_passes_once:
  assumes dis: "distinct (stage_action_names stage)"
    and scope: "ActionScopes stage n \<noteq> Some ScopeLifetime"
    and ver: "ActionScopes stage n = Some ScopeVersion \<longrightarrow> v \<noteq> None"
  shows "(\<forall>p\<in>set ps. sp_revision p = rv \<and> sp_desired p = v \<and> sp_persisted p \<and>
      (\<forall>w. snd (sp_mid p w) \<noteq> MidDeleted)) \<Longrightarrow>
    as_runs st n \<le> 1 \<Longrightarrow>
    (\<forall>b l. 0 < as_runs st n \<longrightarrow> recorded_in stage n
       (st\<lparr>as_led := (stage_ledger rv v b stage prior)\<lparr>al_lifetimeDone := l\<rparr>\<rparr>)) \<Longrightarrow>
    as_runs (snd (stage_passes stage ps prior st)) n \<le> 1"
proof (induction ps arbitrary: prior st)
  case (Cons p ps)
  obtain st1 ok where op: "open_ledgers p stage prior st = (st1, ok)" by (cases "open_ledgers p stage prior st")
  obtain st' entry where pass: "stage_action_pass p stage prior st = (st', entry)"
    by (cases "stage_action_pass p stage prior st")
  have p: "sp_revision p = rv" "sp_desired p = v" "sp_persisted p" "\<forall>w. snd (sp_mid p w) \<noteq> MidDeleted"
    using Cons.prems(1) by auto
  have total: "rec_total p stage n" using scope by (simp add: rec_total_def stage_record_def)
  have once1: "ran_once stage n st1"
    using Cons.prems(2,3) open_ledgers_led [OF op] p(1,2) by (auto simp: ran_once_def ledger_recorded [OF scope])
  have led1: "has_ledger stage n st1" using scope by (simp add: has_ledger_def)
  note r = stage_action_pass_once [OF pass op dis total once1 open_ledgers_recorded [OF op] led1]
  then obtain e where e: "entry = Some e" using p(4) by (cases entry) auto
  have once: "ran_once stage n st'" and grow: "ledger_grows (as_led st1) (as_led st')"
    using r by (simp_all add: pass_inv_def)
  have led: "al_revision (as_led st') = rv" "al_version (as_led st') = (case v of Some x \<Rightarrow> x | None \<Rightarrow> [])"
    using grow open_ledgers_led [OF op] p(1,2) by (simp_all add: ledger_grows_def stage_ledger_def Let_def)
  have "recorded_in stage n (st'\<lparr>as_led := (stage_ledger rv v b stage (Some e))\<lparr>al_lifetimeDone := l\<rparr>\<rparr>)"
    if "0 < as_runs st' n" for b l
  proof -
    have rec: "recorded_in stage n st'" using that once by (simp add: ran_once_def)
    have fields: "ss_ExecutedActions e = al_executed (as_led st')" "ss_LedgerRevision e = rv"
        "ss_ExecutedVersionActions e = al_versioned (as_led st')"
        "ss_LedgerVersion e = (case v of Some x \<Rightarrow> x | None \<Rightarrow> [])"
      using r e led by simp_all
    show ?thesis
    proof (cases "ActionScopes stage n = Some ScopeVersion")
      case True
      then obtain x where x: "v = Some x" using ver by blast
      have "n \<in> set (ss_ExecutedVersionActions e)" using rec True fields by (simp add: ledger_recorded [OF scope])
      from ledger_keeps_version [OF this, of x rv b stage] show ?thesis
        using True fields x by (simp add: ledger_recorded [OF scope])
    next
      case False
      have "n \<in> set (ss_ExecutedActions e)" using rec False fields by (simp add: ledger_recorded [OF scope])
      from ledger_keeps_revision [OF this fields(2), of v b stage] show ?thesis
        using False by (simp add: ledger_recorded [OF scope])
    qed
  qed
  then have kept: "\<forall>b l. 0 < as_runs st' n \<longrightarrow> recorded_in stage n
       (st'\<lparr>as_led := (stage_ledger rv v b stage (Some e))\<lparr>al_lifetimeDone := l\<rparr>\<rparr>)" by blast
  have "\<forall>p\<in>set ps. sp_revision p = rv \<and> sp_desired p = v \<and> sp_persisted p \<and>
      (\<forall>w. snd (sp_mid p w) \<noteq> MidDeleted)" using Cons.prems(1) by (meson list.set_intros(2))
  from Cons.IH [OF this _ kept] have "as_runs (snd (stage_passes stage ps (Some e) st')) n \<le> 1"
    using once unfolding ran_once_def by blast
  then show ?case using pass e p(3) by simp
qed simp

definition unwitnessed :: "LedgerCompletion list \<Rightarrow> string \<Rightarrow> string \<Rightarrow> bool" where
  "unwitnessed cs stage n \<longleftrightarrow>
     list_all (\<lambda>c. lc_Stage c = stage \<and> lc_Action c = n \<longrightarrow> lc_Anchor c = None) cs"

lemma recordLifetimeCompletion_unwitnessed:
  "recordLifetimeCompletion reader now fails (Some cs) stage m anchor = Inr cs' \<Longrightarrow>
   unwitnessed cs stage n \<Longrightarrow> m = n \<longrightarrow> anchor = None \<Longrightarrow> unwitnessed cs' stage n"
  by (auto simp: recordLifetimeCompletion_def bind_result_def unwitnessed_def
      split: option.splits if_splits sum.splits)

definition plain_lifetime :: "Stage \<Rightarrow> string \<Rightarrow> 'w action_state \<Rightarrow> bool" where
  "plain_lifetime stage n st \<longleftrightarrow>
     (\<exists>cs. as_completed st = Some cs \<and> unwitnessed cs (stg_Name stage) n)"

lemma run_actions_plain:
  assumes "run_actions p stage which st = (st', err)" "stageAnchors stage n = None" "plain_lifetime stage n st"
  shows "plain_lifetime stage n st'"
proof -
  have "\<forall>a s. plain_lifetime stage n s \<longrightarrow> plain_lifetime stage n (fst (counted (sp_act p) a s))"
    unfolding plain_lifetime_def using counted_eq by (metis prod.collapse)
  moreover have "plain_lifetime stage n (fst (stage_record stage (sp_reader p) (sp_now p) (sp_update_fails p) m s))"
    if plain: "plain_lifetime stage n s" for m s
  proof -
    from plain obtain cs where cs: "as_completed s = Some cs" "unwitnessed cs (stg_Name stage) n"
      by (auto simp: plain_lifetime_def)
    show ?thesis
    proof (cases "recordLifetimeCompletion (sp_reader p) (sp_now p) (sp_update_fails p m) (as_completed s)
        (stg_Name stage) m (stageAnchors stage m)")
      case (Inl e)
      with plain show ?thesis by (simp add: stage_record_def plain_lifetime_def)
    next
      case (Inr cs')
      then have "unwitnessed cs' (stg_Name stage) n"
        using recordLifetimeCompletion_unwitnessed cs assms(2) by metis
      with Inr plain show ?thesis by (simp add: stage_record_def plain_lifetime_def)
    qed
  qed
  ultimately show ?thesis
    by (intro Run_preserves [of "plain_lifetime stage n" "counted (sp_act p)", OF _ _ assms(1) [unfolded run_actions_def] assms(3)])
      blast+
qed

lemma open_ledgers_plain:
  assumes op: "open_ledgers p stage prior st = (st1, ok)" and plain: "plain_lifetime stage n st"
    and scope: "ActionScopes stage n = Some ScopeLifetime"
  shows "plain_lifetime stage n st1" and "recorded_in stage n st1 = recorded_in stage n st"
proof -
  from plain obtain cs where cs: "as_completed st = Some cs" "unwitnessed cs (stg_Name stage) n"
    by (auto simp: plain_lifetime_def)
  let ?inv = "lg_Invalidated (EvaluateLifetimeGate (sp_reader p) (Some cs) (stg_Name stage))"
  let ?cs' = "fst (dropCompletions cs (stg_Name stage) ?inv)"
  have "n \<notin> set ?inv"
    using cs(2) unfolding gate_lists unwitnessed_def list_all_iff by fastforce
  then have "unwitnessed ?cs' (stg_Name stage) n"
      "IsCompleted ?cs' (stg_Name stage) n = IsCompleted cs (stg_Name stage) n"
    using cs(2) unfolding dropCompletions_fst unwitnessed_def IsCompleted_def list_all_iff list_ex_iff
    by auto
  with open_ledgers_completed(1) [OF op] cs scope
  show "plain_lifetime stage n st1" "recorded_in stage n st1 = recorded_in stage n st"
    by (auto simp: plain_lifetime_def recorded_in_def)
qed

lemma plain_lifetime_world: "plain_lifetime stage n (s\<lparr>as_world := w\<rparr>) = plain_lifetime stage n s"
  by (simp add: plain_lifetime_def)

lemma stage_action_pass_plain:
  assumes pass: "stage_action_pass p stage prior st0 = (st', entry)"
    and op: "open_ledgers p stage prior st0 = (st, ok)"
    and anchor: "stageAnchors stage n = None" and plain: "plain_lifetime stage n st"
  shows "plain_lifetime stage n st'"
proof -
  note w = plain_lifetime_world
  have run: "plain_lifetime stage n (fst (run_actions p stage which s))" if "plain_lifetime stage n s" for which s
    using run_actions_plain [OF _ anchor that] by (metis prod.collapse)
  have fail: "plain_lifetime stage n (runOnFailure p stage s)" if "plain_lifetime stage n s" for s
    unfolding runOnFailure_def by (rule run [OF that])
  obtain st1 e1 where pre: "run_actions p stage sact_Pre st = (st1, e1)" by (cases "run_actions p stage sact_Pre st")
  obtain w m where mid: "sp_mid p (as_world st1) = (w, m)" by (cases "sp_mid p (as_world st1)")
  obtain st3 e3 where post: "run_actions p stage sact_Post (st1\<lparr>as_world := w\<rparr>) = (st3, e3)"
    by (cases "run_actions p stage sact_Post (st1\<lparr>as_world := w\<rparr>)")
  have p1: "plain_lifetime stage n st1" using run [OF plain, of sact_Pre] pre by simp
  then have "plain_lifetime stage n (st1\<lparr>as_world := w\<rparr>)" by (simp only: w)
  from run [OF this, of sact_Post] post have "plain_lifetime stage n st3" by simp
  with p1 pass [unfolded stage_action_pass_def Let_def, simplified op prod.case] plain pre mid post
  show ?thesis by (cases ok; cases e1; cases m; cases e3) (auto simp: w intro: fail)
qed

lemma stage_passes_lifetime_once:
  assumes dis: "distinct (stage_action_names stage)"
    and scope: "ActionScopes stage n = Some ScopeLifetime" and anchor: "stageAnchors stage n = None"
  shows "(\<forall>p\<in>set ps. \<not> sp_update_fails p n) \<Longrightarrow> plain_lifetime stage n st \<Longrightarrow> ran_once stage n st \<Longrightarrow>
    ran_once stage n (snd (stage_passes stage ps prior st))"
proof (induction ps arbitrary: prior st)
  case (Cons p ps)
  obtain st1 ok where op: "open_ledgers p stage prior st = (st1, ok)" by (cases "open_ledgers p stage prior st")
  obtain st' entry where pass: "stage_action_pass p stage prior st = (st', entry)"
    by (cases "stage_action_pass p stage prior st")
  note o1 = open_ledgers_plain [OF op Cons.prems(2) scope]
  have once1: "ran_once stage n st1"
    using Cons.prems(3) o1(2) open_ledgers_led [OF op] by (simp add: ran_once_def)
  have led1: "has_ledger stage n st1" using o1(1) by (auto simp: has_ledger_def plain_lifetime_def)
  have "rec_total p stage n"
    using Cons.prems(1) scope anchor
    by (auto simp: rec_total_def has_ledger_def stage_record_def recordLifetimeCompletion_def)
  from stage_action_pass_once [OF pass op dis this once1 open_ledgers_recorded [OF op] led1]
  have "ran_once stage n st'" by (simp add: pass_inv_def)
  moreover have "plain_lifetime stage n st'" by (rule stage_action_pass_plain [OF pass op anchor o1(1)])
  moreover have "\<forall>p\<in>set ps. \<not> sp_update_fails p n" using Cons.prems(1) by simp
  ultimately show ?case using Cons.IH pass by simp
qed simp


definition demo_action_stage :: Stage where
  "demo_action_stage = (plain_stage ''db'')\<lparr>stg_Actions := Some \<lparr>sact_Pre = [demo_action ''notify''],
     sact_Post = [demo_action ''check''], sact_OnFailure = []\<rparr>\<rparr>"

definition demo_pass :: "bool \<Rightarrow> nat stage_pass" where
  "demo_pass persisted = \<lparr>sp_revision = ''r1'', sp_desired = None, sp_baseline = False,
     sp_act = (\<lambda>a w. if act_Name a = ''check'' \<and> w < 3 then (Suc w, Some ErrForbiddenHost) else (Suc w, None)),
     sp_reader = (\<lambda>_ _ _. Inl ReadNotFound), sp_now = 0, sp_drop_fails = False,
     sp_update_fails = (\<lambda>_. False), sp_mid = (\<lambda>w. (w, MidOk)), sp_persisted = persisted\<rparr>"

definition demo_action_state :: "nat action_state" where
  "demo_action_state = \<lparr>as_world = 0,
     as_led = \<lparr>al_revision = [], al_executed = [], al_version = [], al_versioned = [], al_lifetimeDone = []\<rparr>,
     as_completed = None, as_runs = (\<lambda>_. 0)\<rparr>"

lemma demo_scopes: "ActionScopes demo_action_stage ''notify'' = Some ScopeRevision"
  "stage_action_names demo_action_stage = [''notify'', ''check'']"
  by code_simp+



definition demo_lifetime_stage :: Stage where
  "demo_lifetime_stage = (plain_stage ''db'')\<lparr>stg_Actions := Some \<lparr>
     sact_Pre = [(demo_action ''seed'')\<lparr>act_Scope := ScopeLifetime\<rparr>], sact_Post = [], sact_OnFailure = []\<rparr>\<rparr>"

lemma demo_lifetime_scopes: "ActionScopes demo_lifetime_stage ''seed'' = Some ScopeLifetime"
  "stage_action_names demo_lifetime_stage = [''seed'']" "stageAnchors demo_lifetime_stage ''seed'' = None"
  by code_simp+


lemma stage_action_pass_ready:
  assumes pass: "stage_action_pass p stage prior st0 = (st', Some e)" and ready: "ss_Phase e = StageReady"
    and n: "n \<in> act_Name ` set (actions_of sact_Pre stage @ actions_of sact_Post stage)"
  shows "n \<in> doneSet (as_led st') \<or> recorded_in stage n st'"
proof -
  obtain st ok where op: "open_ledgers p stage prior st0 = (st, ok)" by (cases "open_ledgers p stage prior st0")
  obtain st1 e1 where pre: "run_actions p stage sact_Pre st = (st1, e1)" by (cases "run_actions p stage sact_Pre st")
  obtain w m where mid: "sp_mid p (as_world st1) = (w, m)" by (cases "sp_mid p (as_world st1)")
  let ?st2 = "st1\<lparr>as_world := w\<rparr>"
  obtain st3 e3 where post: "run_actions p stage sact_Post ?st2 = (st3, e3)"
    by (cases "run_actions p stage sact_Post ?st2")
  have r: "e1 = None \<and> e3 = None \<and> st' = st3"
    using pass [unfolded stage_action_pass_def Let_def, simplified op prod.case] ready pre mid post
    by (cases ok; cases e1; cases m; cases e3) (auto simp: failed_entry_def stamp_def stage_status_def)
  have w: "recorded_in stage n ?st2 = recorded_in stage n st1" by (rule recorded_in_cong) simp_all
  show ?thesis
  proof (cases "n \<in> act_Name ` set (actions_of sact_Pre stage)")
    case True
    then have "n \<in> doneSet (as_led st) \<or> recorded_in stage n st1"
      using run_actions_records pre r by blast
    then show ?thesis
      using run_actions_grows [OF pre] run_actions_grows [OF post] run_actions_mono [OF post] w r
      by (auto simp: ledger_grows_def)
  next
    case False
    then have "n \<in> act_Name ` set (actions_of sact_Post stage)" using n by auto
    then have "n \<in> doneSet (as_led ?st2) \<or> recorded_in stage n st3"
      using run_actions_records post r by blast
    then show ?thesis using run_actions_grows [OF post] r by (auto simp: ledger_grows_def)
  qed
qed

text \<open>Ready means done. A pass that leaves a stage Ready has every pre- and post-action of the stage in
  one of the ledgers: in the status it writes, or in the StageLedger.\<close>

theorem ready_needs_actions:
  assumes "stage_action_pass p stage prior st0 = (st', Some e)" "ss_Phase e = StageReady"
    and "a \<in> set (actions_of sact_Pre stage) \<union> set (actions_of sact_Post stage)"
  shows "act_Name a \<in> doneSet (as_led st') \<or>
    (\<exists>cs. as_completed st' = Some cs \<and> IsCompleted cs (stg_Name stage) (act_Name a))"
proof -
  have "act_Name a \<in> act_Name ` set (actions_of sact_Pre stage @ actions_of sact_Post stage)"
    using assms(3) by auto
  from stage_action_pass_ready [OF assms(1,2) this] show ?thesis
    by (auto simp: recorded_in_def doneSet_def split: option.splits ActionScope.splits)
qed

lemma demo_ready:
  "\<exists>st' e. stage_action_pass (demo_pass True) demo_action_stage None (demo_action_state\<lparr>as_world := 5\<rparr>) = (st', Some e)
     \<and> ss_Phase e = StageReady \<and> demo_action ''check'' \<in> set (actions_of sact_Post demo_action_stage)"
proof -
  have "(case snd (stage_action_pass (demo_pass True) demo_action_stage None (demo_action_state\<lparr>as_world := 5\<rparr>)) of
      Some e \<Rightarrow> ss_Phase e = StageReady | None \<Rightarrow> False)" by code_simp
  then obtain e where e: "snd (stage_action_pass (demo_pass True) demo_action_stage None
      (demo_action_state\<lparr>as_world := 5\<rparr>)) = Some e" "ss_Phase e = StageReady" by (auto split: option.splits)
  have "demo_action ''check'' \<in> set (actions_of sact_Post demo_action_stage)"
    by (simp add: actions_of_def demo_action_stage_def)
  with e show ?thesis by (metis prod.collapse)
qed

theorem ready_needs_actions_witness:
  "\<exists>st'. ''check'' \<in> doneSet (as_led st') \<or>
     (\<exists>cs. as_completed (st' :: nat action_state) = Some cs \<and> IsCompleted cs ''db'' ''check'')"
proof -
  obtain st' e where "stage_action_pass (demo_pass True) demo_action_stage None
      (demo_action_state\<lparr>as_world := 5\<rparr>) = (st', Some e)" "ss_Phase e = StageReady"
      "demo_action ''check'' \<in> set (actions_of sact_Post demo_action_stage)" using demo_ready by blast
  from ready_needs_actions [OF this(1,2) UnI2 [OF this(3)]] show ?thesis
    by (auto simp: demo_action_def demo_action_stage_def plain_stage_def)
qed

section \<open>A lost status\<close>

lemma run_actions_fires:
  assumes run: "run_actions p stage which st = (st', err)"
    and acts: "actions_of which stage = a # rest" "act_Name a \<notin> act_Name ` set rest"
    and fresh: "act_Name a \<notin> doneSet (as_led st)" and ok: "\<forall>w. snd (sp_act p a w) = None"
  shows "as_runs st' (act_Name a) = Suc (as_runs st (act_Name a))"
proof -
  let ?rec = "stage_record stage (sp_reader p) (sp_now p) (sp_update_fails p)"
  obtain st1 where c: "counted (sp_act p) a st = (st1, None)" "as_runs st1 (act_Name a) = Suc (as_runs st (act_Name a))"
    using ok [rule_format, of "as_world st"] by (cases "sp_act p a (as_world st)") (auto simp: counted_def)
  obtain st2 r where r: "?rec (act_Name a) st1 = (st2, r)" by (cases "?rec (act_Name a) st1")
  have runs: "as_runs st2 = as_runs st1"
    using r by (auto simp: stage_record_def split: if_splits sum.splits)
  show ?thesis
  proof (cases r)
    case (Some e)
    with run acts(1) fresh c r have "st' = st2" by (simp add: run_actions_def)
    with runs c show ?thesis by simp
  next
    case None
    with run acts(1) fresh c r
    have rest: "Run (counted (sp_act p)) (Some ?rec) (doneSet (as_led st)) rest st2 = (st', err)"
      by (simp add: run_actions_def)
    from stage_recorder.Run_other [OF this disjI2 [OF acts(2)]] runs c show ?thesis by simp
  qed
qed

lemma run_actions_none:
  assumes "run_actions p stage which st = (st', err)" "as_completed st = None"
  shows "as_completed st' = None"
proof -
  have "\<forall>a s. as_completed s = None \<longrightarrow> as_completed (fst (counted (sp_act p) a s)) = None"
    using counted_eq by (metis prod.collapse)
  moreover have "\<forall>m s. as_completed s = None \<longrightarrow>
      as_completed (fst (stage_record stage (sp_reader p) (sp_now p) (sp_update_fails p) m s)) = None"
    by (simp add: stage_record_def recordLifetimeCompletion_def)
  ultimately show ?thesis
    using Run_preserves [of "\<lambda>s. as_completed s = None", OF _ _ assms(1) [unfolded run_actions_def] assms(2)]
    by blast
qed

lemma stage_action_pass_fires:
  assumes pass: "stage_action_pass p stage prior st0 = (st', entry)"
    and pre: "actions_of sact_Pre stage = a # rest" and dis: "distinct (stage_action_names stage)"
    and none: "as_completed st0 = None" and ok: "\<forall>w. snd (sp_act p a w) = None"
    and fresh: "act_Name a \<notin> doneSet (stage_ledger (sp_revision p) (sp_desired p) (sp_baseline p) stage prior)"
  shows "as_runs st' (act_Name a) = Suc (as_runs st0 (act_Name a)) \<and> as_completed st' = None"
proof -
  let ?n = "act_Name a"
  obtain st where op: "open_ledgers p stage prior st0 = (st, True)" and st: "as_completed st = None"
    using none by (auto simp: open_ledgers_def Let_def)
  have led: "as_runs st = as_runs st0" "?n \<notin> doneSet (as_led st)"
    using open_ledgers_led [OF op] fresh none by (auto simp: doneSet_def EvaluateLifetimeGate_def stage_ledger_def Let_def)
  have d: "?n \<notin> act_Name ` set rest" "?n \<notin> act_Name ` set (actions_of sact_Post stage)"
      "?n \<notin> act_Name ` set (actions_of sact_OnFailure stage)"
    using dis pre by (auto simp: stage_action_names_def)
  let ?P = "\<lambda>s :: 'a action_state. as_runs s ?n = Suc (as_runs st0 ?n) \<and> as_completed s = None"
  have other: "?P (fst (run_actions p stage which s))"
    if "?P s" "?n \<notin> act_Name ` set (actions_of which stage)" for which s
    using that run_actions_other [of p stage which s _ _ ?n] run_actions_none [of p stage which s]
    by (cases "run_actions p stage which s") auto
  obtain st1 e1 where r1: "run_actions p stage sact_Pre st = (st1, e1)" by (cases "run_actions p stage sact_Pre st")
  obtain w m where mid: "sp_mid p (as_world st1) = (w, m)" by (cases "sp_mid p (as_world st1)")
  let ?st2 = "st1\<lparr>as_world := w\<rparr>"
  obtain st3 e3 where post: "run_actions p stage sact_Post ?st2 = (st3, e3)"
    by (cases "run_actions p stage sact_Post ?st2")
  have p1: "?P st1" using run_actions_fires [OF r1 pre d(1) led(2) ok] run_actions_none [OF r1 st] led(1) by simp
  then have p2: "?P ?st2" by simp
  have p3: "?P st3" using other [OF p2 d(2)] post by simp
  have "?P (runOnFailure p stage ?st2)" "?P (runOnFailure p stage st3)"
    unfolding runOnFailure_def using other [OF p2 d(3)] other [OF p3 d(3)] by blast+
  with pass [unfolded stage_action_pass_def Let_def, simplified op prod.case] r1 mid post p1 p2 p3
  show ?thesis by (cases e1; cases m; cases e3) auto
qed

text \<open>A status that is lost loses its records. When a controller runs a pass but its status never
  reaches the API server (a crash, a conflict on the patch), the next pass runs the actions again: after
  \<open>k\<close> such passes the first pre-action has succeeded \<open>k\<close> times, at one revision and with nothing
  failing.\<close>

theorem lost_status_repeats_actions:
  assumes "distinct (stage_action_names stage)" "actions_of sact_Pre stage = a # rest"
    and "\<forall>w. snd (sp_act p a w) = None" "\<not> sp_persisted p"
    and "act_Name a \<notin> doneSet (stage_ledger (sp_revision p) (sp_desired p) (sp_baseline p) stage prior)"
    and "as_completed st = None"
  shows "as_runs (snd (stage_passes stage (replicate k p) prior st)) (act_Name a) = as_runs st (act_Name a) + k"
  using assms(6)
proof (induction k arbitrary: st)
  case (Suc k)
  obtain st' entry where pass: "stage_action_pass p stage prior st = (st', entry)"
    by (cases "stage_action_pass p stage prior st")
  from stage_action_pass_fires [OF pass assms(2,1) Suc.prems assms(3,5)] Suc.IH [of st'] pass assms(4)
  show ?case by simp
qed simp

theorem lost_status_repeats_actions_witness:
  "as_runs (snd (stage_passes demo_action_stage (replicate 4 (demo_pass False)) None demo_action_state))
     ''notify'' = 4"
proof -
  have fresh: "''notify'' \<notin> doneSet (stage_ledger (sp_revision (demo_pass False)) (sp_desired (demo_pass False))
      (sp_baseline (demo_pass False)) demo_action_stage None)" by code_simp
  have acts: "actions_of sact_Pre demo_action_stage = [demo_action ''notify'']" by code_simp
  have name: "act_Name (demo_action ''notify'') = ''notify''" by (simp add: demo_action_def)
  have "distinct (stage_action_names demo_action_stage)" by (simp add: demo_scopes)
  from lost_status_repeats_actions [OF this acts, of "demo_pass False" None demo_action_state 4] fresh name
  show ?thesis by (simp add: demo_pass_def demo_action_state_def)
qed

end
