(* ===== verification/Promotion.thy ===== *)
theory Promotion
  imports ActionRunner
begin

text \<open>
  The promotion gate: \<open>internal/controller/promotion.go\<close>, \<open>analysis.go\<close>, \<open>restartgate.go\<close>,
  \<open>eventgate.go\<close> and \<open>metricsource.ThresholdSatisfied\<close>, and the stage loop's use of them. Metric values
  are any linearly ordered type (the sources reject NaN and infinities); the metric query, the pod and
  event lists and the snapshot revert are parameters. \<open>int32\<close> counters wrap.
\<close>

section \<open>Counters\<close>

definition wrap32 :: "int \<Rightarrow> int" where
  "wrap32 x = (x + 2 ^ 31) mod 2 ^ 32 - 2 ^ 31"

lemma wrap32_id: "- (2 ^ 31) \<le> x \<Longrightarrow> x < 2 ^ 31 \<Longrightarrow> wrap32 x = x"
  by (simp add: wrap32_def)

definition sum32 :: "int list \<Rightarrow> int" where
  "sum32 xs = fold (\<lambda>x acc. wrap32 (acc + x)) xs 0"

section \<open>Metric checks\<close>

definition ThresholdSatisfied :: "(string \<Rightarrow> 'v :: linorder option) \<Rightarrow> Threshold \<Rightarrow> 'v \<Rightarrow> string + bool" where
  "ThresholdSatisfied parse th value =
     (let below = (case thr_Min th of None \<Rightarrow> Inr False
            | Some s \<Rightarrow> (case parse s of None \<Rightarrow> Inl (''threshold min is not a number'') | Some m \<Rightarrow> Inr (value < m)));
          above = (case thr_Max th of None \<Rightarrow> Inr False
            | Some s \<Rightarrow> (case parse s of None \<Rightarrow> Inl (''threshold max is not a number'') | Some m \<Rightarrow> Inr (value > m)))
      in bind_result below (\<lambda>b. if b then Inr False else bind_result above (\<lambda>a. Inr (\<not> a))))"

record analysisVerdict =
  av_result :: AnalysisResult
  av_breached :: bool
  av_sourceErr :: bool

definition check_result ::
  "(string \<Rightarrow> 'v :: linorder option) \<Rightarrow> ('v \<Rightarrow> string) \<Rightarrow> (MetricSource \<Rightarrow> string + 'v) \<Rightarrow> AnalysisCheck
   \<Rightarrow> AnalysisCheckResult \<times> bool \<times> bool" where
  "check_result parse fmt query c =
     (let cr = \<lparr>acr_Name = ac_Name c, acr_Value = [], acr_OK = False, acr_Error = []\<rparr> in
      case query (ac_Source c) of
        Inl err \<Rightarrow> (cr\<lparr>acr_Error := err\<rparr>, False, True)
      | Inr value \<Rightarrow>
          (case ThresholdSatisfied parse (ac_Threshold c) value of
             Inl terr \<Rightarrow> (cr\<lparr>acr_Value := fmt value, acr_Error := terr\<rparr>, True, False)
           | Inr ok \<Rightarrow> (cr\<lparr>acr_Value := fmt value, acr_OK := ok\<rparr>, \<not> ok, False)))"

text \<open>Every check is queried once, in order.\<close>

definition evaluatePromotionAnalysis ::
  "(string \<Rightarrow> 'v :: linorder option) \<Rightarrow> ('v \<Rightarrow> string) \<Rightarrow> (MetricSource \<Rightarrow> string + 'v) \<Rightarrow> instant
   \<Rightarrow> PromotionAnalysis \<Rightarrow> analysisVerdict" where
  "evaluatePromotionAnalysis parse fmt query now an =
     (let rs = map (check_result parse fmt query) (an_Checks an);
          breached = list_ex (\<lambda>(_, b, _). b) rs; sourceErr = list_ex (\<lambda>(_, _, e). e) rs
      in \<lparr>av_result = \<lparr>ar_Time = Some now, ar_Passed = (\<not> breached \<and> \<not> sourceErr), ar_Checks = map fst rs\<rparr>,
          av_breached = breached, av_sourceErr = sourceErr\<rparr>)"

definition fastTrackAfter :: "FastTrack \<Rightarrow> duration" where
  "fastTrackAfter ft = (case ft_After ft of Some d \<Rightarrow> d | None \<Rightarrow> 0)"

definition evaluateFastTrack ::
  "(string \<Rightarrow> 'v :: linorder option) \<Rightarrow> (MetricSource \<Rightarrow> string + 'v) \<Rightarrow> FastTrack \<Rightarrow> bool" where
  "evaluateFastTrack parse query ft =
     (case parse (ft_Max ft) of None \<Rightarrow> False
      | Some mx \<Rightarrow> (case query (ft_Source ft) of Inl _ \<Rightarrow> False | Inr value \<Rightarrow> value \<le> mx))"

definition analysisInterval :: "duration \<Rightarrow> StageSet \<Rightarrow> PromotionAnalysis option \<Rightarrow> duration" where
  "analysisInterval defaultInterval ss an =
     (case an of
        Some a \<Rightarrow> (case an_Interval a of Some d \<Rightarrow> if d > 0 then d else retryInterval defaultInterval ss
                  | None \<Rightarrow> retryInterval defaultInterval ss)
      | None \<Rightarrow> retryInterval defaultInterval ss)"

section \<open>Pod restarts and events\<close>

record pod =
  pod_UID :: string
  pod_deleting :: bool
  pod_initRestarts :: "int list"
  pod_restarts :: "int list"

text \<open>
  A selector is invalid, empty or a query; listing is an oracle that answers with the matching pods.
  \<open>live_pods\<close> is the list both gates read: an empty selector matches nothing.
\<close>

datatype selector_parse = SelectorInvalid | SelectorEmpty | SelectorOf label_selector

record cluster_reader =
  cr_selector :: "label_selector \<Rightarrow> selector_parse"
  cr_pods :: "label_selector \<Rightarrow> cause + pod list"
  cr_events :: "cause + (string \<times> string \<times> int) list"

definition invalid_selector :: cause where
  "invalid_selector = \<lparr>cause_permanent = False, cause_unauthorized = False, cause_terminal_fetch = False,
     cause_text = ''invalid selector''\<rparr>"

definition podRestartTotal :: "cluster_reader \<Rightarrow> label_selector \<Rightarrow> cause + int" where
  "podRestartTotal cr ls =
     (case cr_selector cr ls of
        SelectorInvalid \<Rightarrow> Inl invalid_selector
      | SelectorEmpty \<Rightarrow> Inr 0
      | SelectorOf sel \<Rightarrow> bind_result (cr_pods cr sel) (\<lambda>pods.
          Inr (sum32 (concat (map (\<lambda>p. if pod_deleting p then [] else pod_initRestarts p @ pod_restarts p) pods)))))"

text \<open>An event is the UID of its pod, its reason and its count; only warnings on pods are listed.\<close>

definition podWarningEventTotal :: "cluster_reader \<Rightarrow> label_selector \<Rightarrow> string list \<Rightarrow> cause + int" where
  "podWarningEventTotal cr ls reasons =
     (case cr_selector cr ls of
        SelectorInvalid \<Rightarrow> Inl invalid_selector
      | SelectorEmpty \<Rightarrow> Inr 0
      | SelectorOf sel \<Rightarrow> bind_result (cr_pods cr sel) (\<lambda>pods.
          if pods = [] then Inr 0
          else let uids = set (map pod_UID (filter (\<lambda>p. \<not> pod_deleting p) pods)) in
            bind_result (cr_events cr) (\<lambda>events.
              Inr (sum32 (map (\<lambda>(_, _, count). max count 1)
                (filter (\<lambda>(uid, reason, _). uid \<in> uids \<and> reason \<in> set reasons) events))))))"

record gateVerdict =
  gv_check :: string
  gv_observed :: int
  gv_rollback :: bool

text \<open>\<open>effective_onFailure\<close>: a check's own policy, else the gate's.\<close>

definition rolls_back :: "string \<Rightarrow> string \<Rightarrow> bool" where
  "rolls_back check gate = ((if check = [] then gate else check) = ''Rollback'')"

record restartObservation =
  ro_verdict :: "gateVerdict option"
  ro_baseline :: "RestartCheckBaseline list"
  ro_totals :: "RestartCheckBaseline list"

definition priorRestartBaseline :: "StageStatus \<Rightarrow> (string \<rightharpoonup> int)" where
  "priorRestartBaseline prior =
     (case ss_PromotionState prior of
        None \<Rightarrow> Map.empty
      | Some st \<Rightarrow> map_of_last (map (\<lambda>b. (rcb_Name b, rcb_Restarts b)) (ps_RestartBaseline st)))"

definition restart_excess :: "(string \<rightharpoonup> int) \<Rightarrow> RestartCheck \<Rightarrow> int \<Rightarrow> int \<times> int" where
  "restart_excess carried check tot =
     (let base = (case carried (rc_Name check) of Some b \<Rightarrow> b | None \<Rightarrow> tot)
      in (base, max (wrap32 (tot - base)) 0))"

fun restart_checks ::
  "(label_selector \<Rightarrow> cause + int) \<Rightarrow> (string \<rightharpoonup> int) \<Rightarrow> string \<Rightarrow> RestartCheck list \<Rightarrow> restartObservation
   \<Rightarrow> cause + restartObservation" where
  "restart_checks tot_of carried onFailure [] obs = Inr obs"
| "restart_checks tot_of carried onFailure (check # checks) obs =
     bind_result (tot_of (rc_Selector check)) (\<lambda>tot.
       case restart_excess carried check tot of
         (base, excess) \<Rightarrow>
           restart_checks tot_of carried onFailure checks
             (obs\<lparr>ro_baseline := ro_baseline obs @ [\<lparr>rcb_Name = rc_Name check, rcb_Restarts = base\<rparr>],
                  ro_totals := ro_totals obs @ [\<lparr>rcb_Name = rc_Name check, rcb_Restarts = tot\<rparr>],
                  ro_verdict := (if rc_MaxRestarts check < excess \<and> ro_verdict obs = None
                    then Some \<lparr>gv_check = rc_Name check, gv_observed = excess,
                      gv_rollback = rolls_back (rc_OnFailure check) onFailure\<rparr>
                    else ro_verdict obs)\<rparr>))"

definition evaluateRestartChecks ::
  "cluster_reader \<Rightarrow> RestartGate \<Rightarrow> StageStatus \<Rightarrow> cause + restartObservation" where
  "evaluateRestartChecks cr gate prior =
     restart_checks (podRestartTotal cr) (priorRestartBaseline prior) (rg_OnFailure gate) (rg_Checks gate)
       \<lparr>ro_verdict = None, ro_baseline = [], ro_totals = []\<rparr>"

fun event_checks ::
  "(label_selector \<Rightarrow> string list \<Rightarrow> cause + int) \<Rightarrow> string \<Rightarrow> EventCheck list \<Rightarrow> cause + gateVerdict option" where
  "event_checks tot_of onFailure [] = Inr None"
| "event_checks tot_of onFailure (check # checks) =
     bind_result (tot_of (ec_Selector check) (ec_Reasons check)) (\<lambda>tot.
       if ec_MaxEvents check < tot
       then Inr (Some \<lparr>gv_check = ec_Name check, gv_observed = tot,
          gv_rollback = rolls_back (ec_OnFailure check) onFailure\<rparr>)
       else event_checks tot_of onFailure checks)"

definition evaluateEventChecks :: "cluster_reader \<Rightarrow> EventGate \<Rightarrow> cause + gateVerdict option" where
  "evaluateEventChecks cr gate = event_checks (podWarningEventTotal cr) (eg_OnFailure gate) (eg_Checks gate)"

section \<open>The gate\<close>

definition promotion_state :: "PromotionPhase \<Rightarrow> instant option \<Rightarrow> PromotionState" where
  "promotion_state phase since =
     \<lparr>ps_Phase = phase, ps_Since = since, ps_SoakUntil = None, ps_AnalysisFailures = 0,
      ps_RestartCheck = [], ps_ObservedRestarts = 0, ps_RestartBaseline = [], ps_EventCheck = [],
      ps_ObservedEvents = 0, ps_AbortedRevision = [], ps_LastAnalysis = None\<rparr>"

definition pastSoak :: "PromotionPhase \<Rightarrow> bool" where
  "pastSoak phase \<longleftrightarrow>
     phase = PromotionAnalyzing \<or> phase = PromotionAwaitingManual \<or> phase = PromotionPromoted"

definition carrySoakUntil :: "PromotionState \<Rightarrow> PromotionState option \<Rightarrow> bool \<Rightarrow> PromotionState" where
  "carrySoakUntil s priorState sameRevision =
     (case priorState of
        Some p \<Rightarrow> if sameRevision \<and> ps_SoakUntil p \<noteq> None then s\<lparr>ps_SoakUntil := ps_SoakUntil p\<rparr> else s
      | None \<Rightarrow> s)"

definition phaseSince :: "PromotionState option \<Rightarrow> bool \<Rightarrow> PromotionPhase \<Rightarrow> instant \<Rightarrow> instant option" where
  "phaseSince priorState sameRevision phase now =
     (case priorState of
        Some p \<Rightarrow> if sameRevision \<and> ps_Phase p = phase \<and> ps_Since p \<noteq> None then ps_Since p else Some now
      | None \<Rightarrow> Some now)"

record gate_outcome =
  go_promoted :: bool
  go_state :: "PromotionState option"
  go_requeue :: duration
  go_handled :: string
  go_rollback :: bool

text \<open>What the analysis contributes: failing now, the failure count, passing, hard-failed.\<close>

definition analysis_failing :: "PromotionAnalysis \<Rightarrow> analysisVerdict \<Rightarrow> bool" where
  "analysis_failing an v = (av_breached v \<or> (av_sourceErr v \<and> an_OnSourceError an \<noteq> ''Allow''))"

definition analysis_failures :: "PromotionAnalysis option \<Rightarrow> analysisVerdict option \<Rightarrow> PromotionState option \<Rightarrow> bool \<Rightarrow> int" where
  "analysis_failures an verdict priorState sameRevision =
     (case (an, verdict) of
        (Some a, Some v) \<Rightarrow>
          if analysis_failing a v
          then wrap32 ((case priorState of Some p \<Rightarrow> if sameRevision then ps_AnalysisFailures p else 0 | None \<Rightarrow> 0) + 1)
          else 0
      | _ \<Rightarrow> 0)"

definition analysis_failed :: "PromotionAnalysis option \<Rightarrow> analysisVerdict option \<Rightarrow> PromotionState option \<Rightarrow> bool \<Rightarrow> bool" where
  "analysis_failed an verdict priorState sameRevision =
     (case (an, verdict) of
        (Some a, Some v) \<Rightarrow>
          (case an_FailureLimit a of Some l \<Rightarrow> l | None \<Rightarrow> 0) < analysis_failures an verdict priorState sameRevision
          \<and> \<not> an_DryRun a
      | _ \<Rightarrow> False)"

text \<open>When the soak began, and whether it still holds the stage.\<close>

definition soak_since :: "duration \<Rightarrow> PromotionState option \<Rightarrow> bool \<Rightarrow> instant \<Rightarrow> instant" where
  "soak_since soak priorState sameRevision now =
     (case priorState of
        None \<Rightarrow> now
      | Some p \<Rightarrow>
          (case ps_SoakUntil p of
             Some u \<Rightarrow> if sameRevision then u - soak else now
           | None \<Rightarrow>
               (case ps_Since p of
                  Some t \<Rightarrow> if sameRevision \<and> ps_Phase p = PromotionSoaking then t else now
                | None \<Rightarrow> now)))"

definition soak_applies :: "StagePromotion \<Rightarrow> PromotionState option \<Rightarrow> bool \<Rightarrow> duration option" where
  "soak_applies p priorState sameRevision =
     (case prm_Soak p of
        None \<Rightarrow> None
      | Some d \<Rightarrow>
          if 0 < d \<and> \<not> (sameRevision \<and> (case priorState of Some s \<Rightarrow> pastSoak (ps_Phase s) | None \<Rightarrow> False))
          then Some d else None)"

definition fast_tracked :: "StagePromotion \<Rightarrow> bool \<Rightarrow> instant \<Rightarrow> instant \<Rightarrow> bool" where
  "fast_tracked p fastTrackOK since now =
     (case prm_FastTrack p of
        None \<Rightarrow> False | Some ft \<Rightarrow> fastTrackOK \<and> since + fastTrackAfter ft \<le> now)"

definition soak_hold ::
  "StagePromotion \<Rightarrow> PromotionState option \<Rightarrow> bool \<Rightarrow> bool \<Rightarrow> instant \<Rightarrow> (instant \<times> instant) option" where
  "soak_hold p priorState sameRevision fastTrackOK now =
     (case soak_applies p priorState sameRevision of
        None \<Rightarrow> None
      | Some d \<Rightarrow>
          let since = soak_since d priorState sameRevision now in
          if now < since + d \<and> \<not> fast_tracked p fastTrackOK since now then Some (since, since + d) else None)"

definition fresh_token :: "StageSet \<Rightarrow> Stage \<Rightarrow> StageStatus \<Rightarrow> bool" where
  "fresh_token ss stage prior \<longleftrightarrow>
     (let tok = promoteTokenFor ss (stg_Name stage) in tok \<noteq> [] \<and> tok \<noteq> ss_LastHandledPromotion prior)"

definition already_promoted :: "StageStatus \<Rightarrow> string \<Rightarrow> bool" where
  "already_promoted prior revision \<longleftrightarrow> ss_AppliedRevision prior = revision \<and>
     (case ss_PromotionState prior of Some s \<Rightarrow> ps_Phase s = PromotionPromoted | None \<Rightarrow> False)"

definition gatePromotion ::
  "duration \<Rightarrow> StageSet \<Rightarrow> Stage \<Rightarrow> string \<Rightarrow> StageStatus \<Rightarrow> instant \<Rightarrow> analysisVerdict option \<Rightarrow> bool
   \<Rightarrow> gateVerdict option \<Rightarrow> gateVerdict option \<Rightarrow> gate_outcome" where
  "gatePromotion defaultInterval ss stage revision prior now verdict fastTrackOK restart event =
     (let last = ss_LastHandledPromotion prior; retry = retryInterval defaultInterval ss;
          ret = (\<lambda>promoted st requeue handled rollback.
            \<lparr>go_promoted = promoted, go_state = st, go_requeue = requeue, go_handled = handled, go_rollback = rollback\<rparr>)
      in case stg_Promotion stage of
        None \<Rightarrow> ret True None 0 last False
      | Some p \<Rightarrow>
          let sameRevision = (ss_AppliedRevision prior = revision); priorState = ss_PromotionState prior;
              blocked = promotion_state PromotionBlocked (phaseSince priorState sameRevision PromotionBlocked now);
              failures = analysis_failures (prm_Analysis p) verdict priorState sameRevision;
              withAnalysis = (\<lambda>s. s\<lparr>ps_AnalysisFailures := failures, ps_LastAnalysis := map_option av_result verdict\<rparr>);
              interval = analysisInterval defaultInterval ss (prm_Analysis p)
          in if already_promoted prior revision then ret True priorState 0 last False
          else if fresh_token ss stage prior
            then ret True (Some (promotion_state PromotionPromoted (Some now))) 0
              (promoteTokenFor ss (stg_Name stage)) False
          else case restart of
            Some r \<Rightarrow> ret False (Some (carrySoakUntil
                (blocked\<lparr>ps_RestartCheck := gv_check r, ps_ObservedRestarts := gv_observed r\<rparr>) priorState sameRevision))
                retry last (gv_rollback r)
          | None \<Rightarrow> (case event of
            Some e \<Rightarrow> ret False (Some (carrySoakUntil
                (blocked\<lparr>ps_EventCheck := gv_check e, ps_ObservedEvents := gv_observed e\<rparr>) priorState sameRevision))
                retry last (gv_rollback e)
          | None \<Rightarrow>
            if analysis_failed (prm_Analysis p) verdict priorState sameRevision
            then ret False (Some (withAnalysis (carrySoakUntil blocked priorState sameRevision))) interval last
              (case prm_Analysis p of Some a \<Rightarrow> an_OnFailure a = ''Rollback'' | None \<Rightarrow> False)
            else case soak_hold p priorState sameRevision fastTrackOK now of
              Some (since, soakUntil) \<Rightarrow>
                ret False (Some (withAnalysis ((promotion_state PromotionSoaking (Some since))\<lparr>ps_SoakUntil := Some soakUntil\<rparr>)))
                  (requeueForWindow (Some soakUntil) now retry) last False
            | None \<Rightarrow>
                if (case (prm_Analysis p, verdict) of
                      (Some a, Some v) \<Rightarrow> analysis_failing a v \<and> \<not> an_DryRun a | _ \<Rightarrow> False)
                then ret False (Some (withAnalysis (promotion_state PromotionAnalyzing
                    (phaseSince priorState sameRevision PromotionAnalyzing now)))) interval last False
                else if prm_RequireManualPromotion p
                then ret False (Some (withAnalysis (promotion_state PromotionAwaitingManual
                    (phaseSince priorState sameRevision PromotionAwaitingManual now)))) retry last False
                else ret True (Some (withAnalysis (promotion_state PromotionPromoted (Some now)))) 0 last False))"

section \<open>Parking an aborted revision\<close>

definition abortCapable :: "StagePromotion option \<Rightarrow> bool" where
  "abortCapable po =
     (case po of
        None \<Rightarrow> False
      | Some p \<Rightarrow>
          (case prm_Analysis p of Some a \<Rightarrow> an_OnFailure a = ''Rollback'' \<and> \<not> an_DryRun a | None \<Rightarrow> False)
          \<or> (case prm_RestartGate p of
               Some g \<Rightarrow> rg_OnFailure g = ''Rollback'' \<or> list_ex (\<lambda>c. rc_OnFailure c = ''Rollback'') (rg_Checks g)
             | None \<Rightarrow> False)
          \<or> (case prm_EventGate p of
               Some g \<Rightarrow> eg_OnFailure g = ''Rollback'' \<or> list_ex (\<lambda>c. ec_OnFailure c = ''Rollback'') (eg_Checks g)
             | None \<Rightarrow> False))"

definition rollbackAborted :: "StageSet \<Rightarrow> Stage \<Rightarrow> StageStatus \<Rightarrow> string \<Rightarrow> bool" where
  "rollbackAborted ss stage prior revision =
     (if \<not> abortCapable (stg_Promotion stage) then False
      else case ss_PromotionState prior of
        None \<Rightarrow> False
      | Some st \<Rightarrow>
          if ps_Phase st \<noteq> PromotionBlocked \<or> ps_AbortedRevision st \<noteq> revision then False
          else \<not> fresh_token ss stage prior)"

datatype hold_reason = ReasonAwaitingPromotion | ReasonPromotionBlocked | ReasonSoaking

definition promotionHoldCondition :: "PromotionState option \<Rightarrow> hold_reason" where
  "promotionHoldCondition state =
     (case (case state of Some s \<Rightarrow> ps_Phase s | None \<Rightarrow> PromotionSoaking) of
        PromotionAwaitingManual \<Rightarrow> ReasonAwaitingPromotion
      | PromotionBlocked \<Rightarrow> ReasonPromotionBlocked
      | PromotionAnalyzing \<Rightarrow> ReasonSoaking
      | _ \<Rightarrow> ReasonSoaking)"

section \<open>The gate in the stage loop\<close>

text \<open>
  What one pass knows of a stage that has applied, verified and run its post-actions: its ledger, the
  pinned revision, the number of objects, the handled force token and would-freeze to record, and the
  oracles: metrics, the target cluster and the revert to the last-good snapshot, which lands (the
  revision now live), cannot (\<open>Inr None\<close>) or fails for now.
\<close>

record promo_env =
  pe_now :: instant
  pe_analysis :: "PromotionAnalysis \<Rightarrow> analysisVerdict"
  pe_fastTrack :: "FastTrack \<Rightarrow> bool"
  pe_cluster :: cluster_reader
  pe_revert :: "cause + string option"

record applied_stage =
  ap_revision :: string
  ap_entries :: int
  ap_led :: actionLedger
  ap_lastHandled :: string
  ap_freeze :: "BudgetFreeze option"

datatype promo_result =
    GateDenied StageStatus
  | GateUnevaluable StageStatus
  | Held StageStatus "PromotionState option" duration
  | Advanced StageStatus

definition zero_status :: StageStatus where
  "zero_status = (stage_status [] StagePending [])"

definition applied_entry ::
  "Stage \<Rightarrow> applied_stage \<Rightarrow> string \<Rightarrow> PromotionState option \<Rightarrow> string \<Rightarrow> StageStatus" where
  "applied_entry stage ap revision promo handled =
     stamp (ap_led ap) ((stage_status (stg_Name stage) StageReady revision)
       \<lparr>ss_EntriesCount := ap_entries ap, ss_LastHandledReconcileAt := ap_lastHandled ap,
        ss_PromotionState := promo, ss_LastHandledPromotion := handled, ss_BudgetFreeze := ap_freeze ap\<rparr>)"

definition recordGateInterrupted :: "Stage \<Rightarrow> applied_stage \<Rightarrow> StageStatus \<Rightarrow> StageStatus" where
  "recordGateInterrupted stage ap prior =
     applied_entry stage ap (ap_revision ap) (ss_PromotionState prior) (ss_LastHandledPromotion prior)"

definition interrupted :: "Stage \<Rightarrow> applied_stage \<Rightarrow> StageStatus \<Rightarrow> cause \<Rightarrow> promo_result" where
  "interrupted stage ap prior c =
     (if cause_permanent c then GateDenied (recordGateInterrupted stage ap prior)
      else GateUnevaluable (recordGateInterrupted stage ap prior))"

definition with_baseline :: "restartObservation option \<Rightarrow> bool \<Rightarrow> PromotionState option \<Rightarrow> PromotionState option" where
  "with_baseline obs promoted state =
     (case (state, obs) of
        (Some s, Some ob) \<Rightarrow> Some (s\<lparr>ps_RestartBaseline := (if promoted then ro_totals ob else ro_baseline ob)\<rparr>)
      | _ \<Rightarrow> state)"

definition promotion_part :: "(StagePromotion \<Rightarrow> 'a option) \<Rightarrow> Stage \<Rightarrow> 'a option" where
  "promotion_part f stage = (case stg_Promotion stage of Some p \<Rightarrow> f p | None \<Rightarrow> None)"

definition read_gates ::
  "promo_env \<Rightarrow> Stage \<Rightarrow> StageStatus \<Rightarrow> cause + restartObservation option \<times> gateVerdict option" where
  "read_gates env stage prior =
     bind_result
       (case promotion_part prm_RestartGate stage of
          None \<Rightarrow> Inr None
        | Some g \<Rightarrow> bind_result (evaluateRestartChecks (pe_cluster env) g prior) (\<lambda>ob. Inr (Some ob)))
       (\<lambda>obs. bind_result
         (case promotion_part prm_EventGate stage of
            None \<Rightarrow> Inr None | Some g \<Rightarrow> evaluateEventChecks (pe_cluster env) g)
         (\<lambda>event. Inr (obs, event)))"

definition judge ::
  "duration \<Rightarrow> StageSet \<Rightarrow> Stage \<Rightarrow> StageStatus \<Rightarrow> applied_stage \<Rightarrow> promo_env
   \<Rightarrow> restartObservation option \<Rightarrow> gateVerdict option \<Rightarrow> gate_outcome" where
  "judge defaultInterval ss stage prior ap env obs event =
     gatePromotion defaultInterval ss stage (ap_revision ap) prior (pe_now env)
       (map_option (pe_analysis env) (promotion_part prm_Analysis stage))
       (case promotion_part prm_FastTrack stage of Some ft \<Rightarrow> pe_fastTrack env ft | None \<Rightarrow> False)
       (case obs of Some ob \<Rightarrow> ro_verdict ob | None \<Rightarrow> None) event"

definition finish_stage ::
  "Stage \<Rightarrow> applied_stage \<Rightarrow> gate_outcome \<Rightarrow> string \<Rightarrow> PromotionState option \<Rightarrow> promo_result" where
  "finish_stage stage ap out revision st =
     (let entry = applied_entry stage ap revision st (go_handled out) in
      if go_promoted out then Advanced entry else Held entry st (go_requeue out))"

definition promotion_step ::
  "duration \<Rightarrow> StageSet \<Rightarrow> Stage \<Rightarrow> StageStatus \<Rightarrow> applied_stage \<Rightarrow> promo_env \<Rightarrow> promo_result" where
  "promotion_step defaultInterval ss stage prior ap env =
     (case read_gates env stage prior of
        Inl c \<Rightarrow> interrupted stage ap prior c
      | Inr (obs, event) \<Rightarrow>
          (let out = judge defaultInterval ss stage prior ap env obs event;
               state = with_baseline obs (go_promoted out) (go_state out)
           in if go_rollback out then
                (case pe_revert env of
                   Inl c \<Rightarrow> GateUnevaluable (recordGateInterrupted stage ap prior)
                 | Inr (Some reverted) \<Rightarrow>
                     finish_stage stage ap out reverted
                       (map_option (\<lambda>s. s\<lparr>ps_AbortedRevision := ap_revision ap\<rparr>) state)
                 | Inr None \<Rightarrow> finish_stage stage ap out (ap_revision ap) state)
              else finish_stage stage ap out (ap_revision ap) state))"

text \<open>\<open>holdForProgress\<close>: the entry of a stage that is applied and still converging.\<close>

definition held_for_progress :: "Stage \<Rightarrow> applied_stage \<Rightarrow> string \<Rightarrow> StageStatus" where
  "held_for_progress stage ap msg =
     stamp (ap_led ap) ((stage_status (stg_Name stage) StageVerifying (ap_revision ap))\<lparr>ss_Message := msg\<rparr>)"

section \<open>Facts about the gate\<close>

lemma carrySoakUntil_phase [simp]: "ps_Phase (carrySoakUntil s p same) = ps_Phase s"
  "ps_AbortedRevision (carrySoakUntil s p same) = ps_AbortedRevision s"
  by (auto simp: carrySoakUntil_def split: option.split)

lemma promotion_state_fields [simp]:
  "ps_Phase (promotion_state ph t) = ph" "ps_SoakUntil (promotion_state ph t) = None"
  "ps_Since (promotion_state ph t) = t" "ps_AbortedRevision (promotion_state ph t) = []"
  by (simp_all add: promotion_state_def)

definition analysis_holds :: "PromotionAnalysis option \<Rightarrow> analysisVerdict option \<Rightarrow> bool" where
  "analysis_holds an verdict \<longleftrightarrow>
     (\<exists>a v. an = Some a \<and> verdict = Some v \<and> analysis_failing a v \<and> \<not> an_DryRun a)"

lemma analysis_holds_case:
  "(case (an, verdict) of (Some a, Some v) \<Rightarrow> analysis_failing a v \<and> \<not> an_DryRun a | _ \<Rightarrow> False)
     = analysis_holds an verdict"
  by (auto simp: analysis_holds_def split: option.splits)

lemma analysis_failed_holds:
  "(\<forall>a l. an = Some a \<longrightarrow> an_FailureLimit a = Some l \<longrightarrow> 0 \<le> l) \<Longrightarrow>
   analysis_failed an verdict ps same \<Longrightarrow> analysis_holds an verdict"
  by (auto simp: analysis_failed_def analysis_holds_def analysis_failures_def split: option.splits if_splits)

lemma gatePromotion_promoted:
  assumes p: "stg_Promotion stage = Some p"
  shows "go_promoted (gatePromotion di ss stage rv prior now verdict fast restart event) \<longleftrightarrow>
    already_promoted prior rv \<or> fresh_token ss stage prior \<or>
    (restart = None \<and> event = None \<and>
     \<not> analysis_failed (prm_Analysis p) verdict (ss_PromotionState prior) (ss_AppliedRevision prior = rv) \<and>
     soak_hold p (ss_PromotionState prior) (ss_AppliedRevision prior = rv) fast now = None \<and>
     \<not> analysis_holds (prm_Analysis p) verdict \<and> \<not> prm_RequireManualPromotion p)"
  unfolding gatePromotion_def Let_def p option.case analysis_holds_case
  by (cases restart; cases event;
      cases "soak_hold p (ss_PromotionState prior) (ss_AppliedRevision prior = rv) fast now") auto

text \<open>The promotion gate, exactly. A stage with a gate is promoted when it was already promoted at this
  revision, when a fresh promote token names it, or when no restart and no event check is breached, the
  analysis has not failed hard and is passing (or a dry run), the soak does not hold and no manual
  promotion is required; in no other case. A stage without a gate is always promoted. Only a promotion
  by token changes the token recorded as handled.\<close>

theorem gatePromotion_exact:
  "(go_promoted (gatePromotion di ss stage rv prior now verdict fast restart event) \<longleftrightarrow>
     (case stg_Promotion stage of
        None \<Rightarrow> True
      | Some p \<Rightarrow> already_promoted prior rv \<or> fresh_token ss stage prior \<or>
         (restart = None \<and> event = None \<and>
          \<not> analysis_failed (prm_Analysis p) verdict (ss_PromotionState prior) (ss_AppliedRevision prior = rv) \<and>
          soak_hold p (ss_PromotionState prior) (ss_AppliedRevision prior = rv) fast now = None \<and>
          \<not> analysis_holds (prm_Analysis p) verdict \<and> \<not> prm_RequireManualPromotion p))) \<and>
   go_handled (gatePromotion di ss stage rv prior now verdict fast restart event) =
     (if stg_Promotion stage \<noteq> None \<and> \<not> already_promoted prior rv \<and> fresh_token ss stage prior
      then promoteTokenFor ss (stg_Name stage) else ss_LastHandledPromotion prior)"
proof (cases "stg_Promotion stage")
  case None
  then show ?thesis by (simp add: gatePromotion_def Let_def)
next
  case (Some p)
  have "go_handled (gatePromotion di ss stage rv prior now verdict fast restart event) =
     (if \<not> already_promoted prior rv \<and> fresh_token ss stage prior
      then promoteTokenFor ss (stg_Name stage) else ss_LastHandledPromotion prior)"
    unfolding gatePromotion_def Let_def Some option.case analysis_holds_case
    by (cases restart; cases event;
        cases "soak_hold p (ss_PromotionState prior) (ss_AppliedRevision prior = rv) fast now") auto
  then show ?thesis using gatePromotion_promoted [OF Some] Some by simp
qed

section \<open>No early promotion\<close>

definition soak_floor :: "StagePromotion \<Rightarrow> duration" where
  "soak_floor p =
     (case prm_Soak p of
        None \<Rightarrow> 0
      | Some d \<Rightarrow> (case prm_FastTrack p of None \<Rightarrow> d | Some ft \<Rightarrow> min d (fastTrackAfter ft)))"

text \<open>
  What the promotion fields of a status at the revision still owe the soak that began at \<open>t0\<close>: a phase
  past the soak only once the floor has elapsed, a deadline no earlier than the full soak.
\<close>

definition soak_ok :: "StagePromotion \<Rightarrow> string \<Rightarrow> instant \<Rightarrow> instant \<Rightarrow> StageStatus \<Rightarrow> bool" where
  "soak_ok p rv t0 now st \<longleftrightarrow>
     (ss_AppliedRevision st = rv \<longrightarrow>
       (case ss_PromotionState st of
          None \<Rightarrow> True
        | Some s \<Rightarrow> (pastSoak (ps_Phase s) \<longrightarrow> t0 + soak_floor p \<le> now) \<and>
            (\<forall>u. ps_SoakUntil s = Some u \<longrightarrow> (\<forall>d. prm_Soak p = Some d \<longrightarrow> t0 + d \<le> u)) \<and>
            (ps_Phase s = PromotionSoaking \<longrightarrow> (\<forall>t. ps_Since s = Some t \<longrightarrow> t0 \<le> t))))"

lemma soak_since_ok:
  assumes "soak_ok p rv t0 now' st" "prm_Soak p = Some d" "t0 \<le> now"
  shows "t0 \<le> soak_since d (ss_PromotionState st) (ss_AppliedRevision st = rv) now"
  using assms by (auto simp: soak_ok_def soak_since_def split: option.splits if_splits)

lemma soak_over:
  assumes ok: "soak_ok p rv t0 now' st" and le: "t0 \<le> now" "now' \<le> now"
    and none: "soak_hold p (ss_PromotionState st) (ss_AppliedRevision st = rv) fast now = None"
  shows "t0 + soak_floor p \<le> now"
proof (cases "soak_applies p (ss_PromotionState st) (ss_AppliedRevision st = rv)")
  case None
  then consider "prm_Soak p = None" | d where "prm_Soak p = Some d" "d \<le> 0"
    | s where "ss_AppliedRevision st = rv" "ss_PromotionState st = Some s" "pastSoak (ps_Phase s)"
    by (auto simp: soak_applies_def split: option.splits if_splits)
  then show ?thesis
  proof cases
    case 2
    then show ?thesis using le by (auto simp: soak_floor_def split: option.splits)
  next
    case 3
    then show ?thesis using ok le by (simp add: soak_ok_def)
  qed (use le in \<open>simp add: soak_floor_def\<close>)
next
  case (Some d)
  then have d: "prm_Soak p = Some d" by (auto simp: soak_applies_def split: option.splits if_splits)
  let ?since = "soak_since d (ss_PromotionState st) (ss_AppliedRevision st = rv) now"
  have "t0 \<le> ?since" by (rule soak_since_ok [OF ok d le(1)])
  moreover have "?since + d \<le> now \<or> fast_tracked p fast ?since now"
    using none Some by (auto simp: soak_hold_def Let_def split: if_splits)
  ultimately show ?thesis
    using d by (auto simp: soak_floor_def fast_tracked_def split: option.splits)
qed

definition owes_soak :: "StagePromotion \<Rightarrow> instant \<Rightarrow> instant \<Rightarrow> PromotionState option \<Rightarrow> bool" where
  "owes_soak p t0 now so \<longleftrightarrow>
     (case so of
        None \<Rightarrow> True
      | Some s \<Rightarrow> (pastSoak (ps_Phase s) \<longrightarrow> t0 + soak_floor p \<le> now) \<and>
          (\<forall>u. ps_SoakUntil s = Some u \<longrightarrow> (\<forall>d. prm_Soak p = Some d \<longrightarrow> t0 + d \<le> u)) \<and>
          (ps_Phase s = PromotionSoaking \<longrightarrow> (\<forall>t. ps_Since s = Some t \<longrightarrow> t0 \<le> t)))"

lemma soak_ok_owes: "soak_ok p rv t0 now st \<longleftrightarrow>
    (ss_AppliedRevision st = rv \<longrightarrow> owes_soak p t0 now (ss_PromotionState st))"
  by (simp add: soak_ok_def owes_soak_def)

lemma owes_soak_update:
  "owes_soak p t0 now (Some (s\<lparr>ps_AnalysisFailures := f\<rparr>)) = owes_soak p t0 now (Some s)"
  "owes_soak p t0 now (Some (s\<lparr>ps_LastAnalysis := r\<rparr>)) = owes_soak p t0 now (Some s)"
  "owes_soak p t0 now (Some (s\<lparr>ps_RestartBaseline := b\<rparr>)) = owes_soak p t0 now (Some s)"
  "owes_soak p t0 now (Some (s\<lparr>ps_AbortedRevision := a\<rparr>)) = owes_soak p t0 now (Some s)"
  by (simp_all add: owes_soak_def)

lemma owes_soak_blocked:
  "soak_ok p rv t0 now' st \<Longrightarrow> ps_Phase s = PromotionBlocked \<Longrightarrow> ps_SoakUntil s = None \<Longrightarrow>
   owes_soak p t0 now (Some (carrySoakUntil s (ss_PromotionState st) (ss_AppliedRevision st = rv)))"
  by (auto simp: owes_soak_def carrySoakUntil_def soak_ok_def pastSoak_def split: option.splits)

lemma owes_soak_promoted_before:
  "soak_ok p rv t0 now' st \<Longrightarrow> already_promoted st rv \<Longrightarrow> now' \<le> now \<Longrightarrow> owes_soak p t0 now (ss_PromotionState st)"
  by (auto simp: owes_soak_def soak_ok_def already_promoted_def pastSoak_def split: option.splits)

lemma owes_soak_hold:
  assumes "soak_ok p rv t0 now' st" "t0 \<le> now"
    and "soak_hold p (ss_PromotionState st) (ss_AppliedRevision st = rv) fast now = Some (since, u)"
  shows "owes_soak p t0 now (Some ((promotion_state PromotionSoaking (Some since))\<lparr>ps_SoakUntil := Some u\<rparr>))"
proof -
  obtain d where d: "prm_Soak p = Some d" "since = soak_since d (ss_PromotionState st) (ss_AppliedRevision st = rv) now"
      "u = since + d"
    using assms(3) by (auto simp: soak_hold_def soak_applies_def Let_def split: option.splits if_splits)
  with soak_since_ok [OF assms(1) d(1) assms(2)] show ?thesis by (simp add: owes_soak_def pastSoak_def)
qed

lemma gatePromotion_owes:
  assumes p: "stg_Promotion stage = Some p" and ok: "soak_ok p rv t0 now' st"
    and le: "t0 \<le> now" "now' \<le> now" and tok: "\<not> fresh_token ss stage st"
  shows "owes_soak p t0 now (go_state (gatePromotion di ss stage rv st now verdict fast restart event))"
proof -
  let ?same = "ss_AppliedRevision st = rv" and ?s = "ss_PromotionState st"
  have blocked: "owes_soak p t0 now (Some (carrySoakUntil
      (promotion_state PromotionBlocked t\<lparr>ps_RestartCheck := a, ps_ObservedRestarts := b\<rparr>) ?s ?same))"
    "owes_soak p t0 now (Some (carrySoakUntil
      (promotion_state PromotionBlocked t\<lparr>ps_EventCheck := a, ps_ObservedEvents := b\<rparr>) ?s ?same))"
    "owes_soak p t0 now (Some (carrySoakUntil (promotion_state PromotionBlocked t) ?s ?same))" for t a b
    by (rule owes_soak_blocked [OF ok]; simp)+
  have post: "owes_soak p t0 now (Some (promotion_state ph t))"
    if "soak_hold p ?s ?same fast now = None" "pastSoak ph" for ph t
    using soak_over [OF ok le that(1)] that(2) by (auto simp: owes_soak_def pastSoak_def)
  note simps = gatePromotion_def Let_def p option.case analysis_holds_case
  show ?thesis
    using blocked post owes_soak_hold [OF ok le(1)] owes_soak_promoted_before [OF ok _ le(2)] tok
    unfolding simps
    by (cases restart; cases event; cases "soak_hold p ?s ?same fast now")
      (auto simp: owes_soak_update pastSoak_def)
qed

section \<open>Passes at one revision\<close>

fun promo_entry :: "promo_result \<Rightarrow> StageStatus" where
  "promo_entry (GateDenied e) = e"
| "promo_entry (GateUnevaluable e) = e"
| "promo_entry (Held e s d) = e"
| "promo_entry (Advanced e) = e"

fun gate_read :: "promo_result \<Rightarrow> bool" where
  "gate_read (GateDenied e) = False"
| "gate_read (GateUnevaluable e) = False"
| "gate_read (Held e s d) = True"
| "gate_read (Advanced e) = True"

text \<open>
  The statuses a stage can have at an instant when it first reached a revision at \<open>t0\<close>: nothing at the
  revision yet; then any number of gate evaluations at later instants, none with a fresh token, and
  passes that failed or are still progressing. A gate that could not be read counts only on a status
  already at the revision.
\<close>

inductive soaking :: "duration \<Rightarrow> Stage \<Rightarrow> string \<Rightarrow> instant \<Rightarrow> instant \<Rightarrow> StageStatus \<Rightarrow> bool"
  for di stage rv t0 where
  start: "ss_AppliedRevision st \<noteq> rv \<or> ss_PromotionState st = None \<Longrightarrow> soaking di stage rv t0 t0 st"
| evaluated: "soaking di stage rv t0 now st \<Longrightarrow> now \<le> pe_now env \<Longrightarrow> ap_revision ap = rv \<Longrightarrow>
    \<not> fresh_token ss stage st \<Longrightarrow>
    gate_read (promotion_step di ss stage st ap env) \<or> ss_AppliedRevision st = rv \<or> ss_PromotionState st = None \<Longrightarrow>
    soaking di stage rv t0 (pe_now env) (promo_entry (promotion_step di ss stage st ap env))"
| failed: "soaking di stage rv t0 now st \<Longrightarrow> soaking di stage rv t0 now (failed_entry (stg_Name stage) msg led)"
| progressing: "soaking di stage rv t0 now st \<Longrightarrow> soaking di stage rv t0 now (held_for_progress stage ap msg)"

lemma owes_soak_later: "owes_soak p t0 now s \<Longrightarrow> now \<le> now' \<Longrightarrow> owes_soak p t0 now' s"
  by (auto simp: owes_soak_def split: option.splits)

lemma with_baseline_owes: "owes_soak p t0 now (with_baseline obs b s) = owes_soak p t0 now s"
  by (auto simp: with_baseline_def owes_soak_update split: option.split)

lemma applied_entry_fields [simp]:
  "ss_AppliedRevision (applied_entry stage ap rv st h) = rv"
  "ss_PromotionState (applied_entry stage ap rv st h) = st"
  "ss_LastHandledPromotion (applied_entry stage ap rv st h) = h"
  "ss_Name (applied_entry stage ap rv st h) = stg_Name stage"
  by (simp_all add: applied_entry_def stamp_def stage_status_def)

text \<open>How a pass over the gate can end.\<close>

lemma finish_stage_simps [simp]:
  "promo_entry (finish_stage stage ap out rv s) = applied_entry stage ap rv s (go_handled out)"
  "gate_read (finish_stage stage ap out rv s)"
  by (simp_all add: finish_stage_def Let_def)

lemma promotion_step_cases:
  obtains (interrupted) "promo_entry (promotion_step di ss stage st ap env) = recordGateInterrupted stage ap st"
      "\<not> gate_read (promotion_step di ss stage st ap env)"
  | (judged) obs event revision s
    where "read_gates env stage st = Inr (obs, event)"
      "revision = ap_revision ap \<and>
         s = with_baseline obs (go_promoted (judge di ss stage st ap env obs event))
           (go_state (judge di ss stage st ap env obs event)) \<or>
       go_rollback (judge di ss stage st ap env obs event) \<and> pe_revert env = Inr (Some revision) \<and>
         s = map_option (\<lambda>x. x\<lparr>ps_AbortedRevision := ap_revision ap\<rparr>)
           (with_baseline obs (go_promoted (judge di ss stage st ap env obs event))
             (go_state (judge di ss stage st ap env obs event)))"
      "promotion_step di ss stage st ap env =
         finish_stage stage ap (judge di ss stage st ap env obs event) revision s"
proof (cases "read_gates env stage st")
  case (Inl c)
  show ?thesis by (rule interrupted) (simp_all add: promotion_step_def Inl Promotion.interrupted_def)
next
  case (Inr oe)
  obtain obs event where oe: "oe = (obs, event)" by (cases oe)
  let ?out = "judge di ss stage st ap env obs event"
  have eq: "promotion_step di ss stage st ap env =
      (let state = with_baseline obs (go_promoted ?out) (go_state ?out) in
       if go_rollback ?out then
                (case pe_revert env of
                   Inl c \<Rightarrow> GateUnevaluable (recordGateInterrupted stage ap st)
                 | Inr (Some reverted) \<Rightarrow>
                     finish_stage stage ap ?out reverted
                       (map_option (\<lambda>s. s\<lparr>ps_AbortedRevision := ap_revision ap\<rparr>) state)
                 | Inr None \<Rightarrow> finish_stage stage ap ?out (ap_revision ap) state)
              else finish_stage stage ap ?out (ap_revision ap) state)"
    unfolding promotion_step_def Inr oe Let_def by simp
  show ?thesis
  proof (cases "go_rollback ?out \<and> (\<exists>c. pe_revert env = Inl c)")
    case True
    then show ?thesis by (intro interrupted) (auto simp: eq)
  next
    case False
    note plain = judged [OF Inr [unfolded oe] disjI1]
    show ?thesis
    proof (cases "go_rollback ?out \<and> (\<exists>r. pe_revert env = Inr (Some r))")
      case True
      then obtain r where r: "go_rollback ?out" "pe_revert env = Inr (Some r)" by blast
      then show ?thesis by (intro judged [OF Inr [unfolded oe] disjI2]) (auto simp: eq Let_def)
    next
      case no: False
      then show ?thesis using False
        by (intro plain) (auto simp: eq Let_def split: sum.split option.split)
    qed
  qed
qed

lemma owes_soak_aborted:
  "owes_soak p t0 now (map_option (\<lambda>x. x\<lparr>ps_AbortedRevision := a\<rparr>) s) = owes_soak p t0 now s"
  by (cases s) (simp_all add: owes_soak_def)

lemma soaking_ok:
  assumes p: "stg_Promotion stage = Some p"
  shows "soaking di stage rv t0 now st \<Longrightarrow> t0 \<le> now \<and> soak_ok p rv t0 now st"
proof (induction rule: soaking.induct)
  case (start st)
  then show ?case by (auto simp: soak_ok_owes owes_soak_def)
next
  case (evaluated now st env ap ss)
  let ?r = "promotion_step di ss stage st ap env"
  have le: "t0 \<le> pe_now env" using evaluated.IH evaluated.hyps by linarith
  have "soak_ok p rv t0 (pe_now env) (promo_entry ?r)"
  proof (cases rule: promotion_step_cases [of di ss stage st ap env])
    case interrupted
    then have "ss_AppliedRevision st = rv \<or> ss_PromotionState st = None" using evaluated.hyps(5) by simp
    then have "owes_soak p t0 (pe_now env) (ss_PromotionState st)"
      using evaluated.IH evaluated.hyps(2) owes_soak_later by (auto simp: soak_ok_owes owes_soak_def)
    then show ?thesis using interrupted by (simp add: recordGateInterrupted_def soak_ok_owes)
  next
    case (judged obs event revision s)
    have "owes_soak p t0 (pe_now env) (go_state (judge di ss stage st ap env obs event))"
      unfolding judge_def using gatePromotion_owes [OF p _ le] evaluated.IH evaluated.hyps by blast
    then have "owes_soak p t0 (pe_now env) s"
      using judged(2) by (elim disjE conjE) (simp_all only: with_baseline_owes owes_soak_aborted)
    then show ?thesis using judged(3) by (simp add: soak_ok_owes)
  qed
  then show ?case using le by simp
next
  case (failed now st msg led)
  then show ?case
    by (simp add: soak_ok_owes owes_soak_def failed_entry_def stamp_def stage_status_def)
next
  case (progressing now st ap msg)
  then show ?case
    by (simp add: soak_ok_owes owes_soak_def held_for_progress_def stamp_def stage_status_def)
qed

section \<open>Facts about the checks\<close>

lemma restart_checks_result:
  "(\<forall>c\<in>set checks. tot_of (rc_Selector c) = Inr (t c)) \<Longrightarrow>
   restart_checks tot_of carried onf checks obs = Inr
     \<lparr>ro_verdict = (case ro_verdict obs of Some v \<Rightarrow> Some v
        | None \<Rightarrow> map_option (\<lambda>c. \<lparr>gv_check = rc_Name c, gv_observed = snd (restart_excess carried c (t c)),
            gv_rollback = rolls_back (rc_OnFailure c) onf\<rparr>)
            (find (\<lambda>c. rc_MaxRestarts c < snd (restart_excess carried c (t c))) checks)),
      ro_baseline = ro_baseline obs @
        map (\<lambda>c. \<lparr>rcb_Name = rc_Name c, rcb_Restarts = fst (restart_excess carried c (t c))\<rparr>) checks,
      ro_totals = ro_totals obs @ map (\<lambda>c. \<lparr>rcb_Name = rc_Name c, rcb_Restarts = t c\<rparr>) checks\<rparr>"
proof (induction checks arbitrary: obs)
  case Nil
  show ?case by (cases obs) (simp split: option.split)
next
  case (Cons c checks)
  obtain base ex where e: "restart_excess carried c (t c) = (base, ex)"
    by (cases "restart_excess carried c (t c)")
  then show ?case using Cons by (simp split: option.split)
qed

lemma restart_checks_fails:
  "c \<in> set checks \<Longrightarrow> tot_of (rc_Selector c) = Inl e \<Longrightarrow>
   \<exists>e'. restart_checks tot_of carried onf checks obs = Inl e'"
proof (induction checks arbitrary: obs)
  case (Cons x checks)
  then show ?case
    by (cases "tot_of (rc_Selector x)") (auto split: prod.split)
qed simp

lemma restart_rollback_capable:
  assumes "evaluateRestartChecks cr g prior = Inr obs" "ro_verdict obs = Some v" "gv_rollback v"
  shows "rg_OnFailure g = ''Rollback'' \<or> list_ex (\<lambda>c. rc_OnFailure c = ''Rollback'') (rg_Checks g)"
proof -
  have "\<forall>c\<in>set (rg_Checks g). \<exists>t. podRestartTotal cr (rc_Selector c) = Inr t"
  proof (rule ccontr)
    assume "\<not> ?thesis"
    then obtain c e where "c \<in> set (rg_Checks g)" "podRestartTotal cr (rc_Selector c) = Inl e"
      by (metis sum.exhaust)
    then show False using assms(1) restart_checks_fails [of c "rg_Checks g" "podRestartTotal cr" e]
      by (metis Inl_Inr_False evaluateRestartChecks_def)
  qed
  then obtain t where "\<forall>c\<in>set (rg_Checks g). podRestartTotal cr (rc_Selector c) = Inr (t c)" by metis
  from restart_checks_result [OF this] assms
  obtain c where "find (\<lambda>c. rc_MaxRestarts c < snd (restart_excess (priorRestartBaseline prior) c (t c)))
      (rg_Checks g) = Some c" "rolls_back (rc_OnFailure c) (rg_OnFailure g)"
    by (auto simp: evaluateRestartChecks_def)
  then show ?thesis by (auto simp: rolls_back_def list_ex_iff dest!: find_Some_mem split: if_splits)
qed

lemma event_rollback_capable:
  "event_checks tot_of onf checks = Inr (Some v) \<Longrightarrow> gv_rollback v \<Longrightarrow>
   onf = ''Rollback'' \<or> list_ex (\<lambda>c. ec_OnFailure c = ''Rollback'') checks"
proof (induction checks)
  case (Cons c checks)
  then show ?case by (auto simp: bind_result_def rolls_back_def split: sum.splits if_splits)
qed simp

lemma gatePromotion_rollback:
  assumes "go_rollback (gatePromotion di ss stage rv prior now verdict fast restart event)"
  obtains p s where "stg_Promotion stage = Some p" "\<not> fresh_token ss stage prior"
    "\<not> go_promoted (gatePromotion di ss stage rv prior now verdict fast restart event)"
    "go_state (gatePromotion di ss stage rv prior now verdict fast restart event) = Some s"
    "ps_Phase s = PromotionBlocked"
    "go_handled (gatePromotion di ss stage rv prior now verdict fast restart event) = ss_LastHandledPromotion prior"
    "(\<exists>r. restart = Some r \<and> gv_rollback r) \<or> (\<exists>e. event = Some e \<and> gv_rollback e) \<or>
     (\<exists>a. prm_Analysis p = Some a \<and> an_OnFailure a = ''Rollback'' \<and> \<not> an_DryRun a)"
proof (cases "stg_Promotion stage")
  case None
  with assms show ?thesis by (simp add: gatePromotion_def Let_def)
next
  case (Some p)
  let ?failed = "analysis_failed (prm_Analysis p) verdict (ss_PromotionState prior) (ss_AppliedRevision prior = rv)"
  have nf: "\<not> already_promoted prior rv" "\<not> fresh_token ss stage prior"
    using assms Some by (auto simp: gatePromotion_def Let_def split: if_splits)
  consider (r) r where "restart = Some r" | (e) e where "restart = None" "event = Some e"
    | (f) "restart = None" "event = None" "?failed"
    | (n) "restart = None" "event = None" "\<not> ?failed"
    by (cases restart; cases event) auto
  then show ?thesis
  proof cases
    case r
    then show ?thesis using assms Some nf by (intro that [OF Some]) (auto simp: gatePromotion_def Let_def)
  next
    case e
    then show ?thesis using assms Some nf by (intro that [OF Some]) (auto simp: gatePromotion_def Let_def)
  next
    case f
    then have "\<exists>a. prm_Analysis p = Some a \<and> \<not> an_DryRun a"
      by (auto simp: analysis_failed_def split: option.splits)
    with f show ?thesis using assms Some nf by (intro that [OF Some]) (auto simp: gatePromotion_def Let_def)
  next
    case n
    with assms Some nf have False
      by (auto simp: gatePromotion_def Let_def split: option.splits if_splits)
    then show ?thesis ..
  qed
qed

section \<open>Properties\<close>


definition demo_promotion :: StagePromotion where
  "demo_promotion = \<lparr>prm_Soak = Some (10 * Minute), prm_RequireManualPromotion = False, prm_Analysis = None,
     prm_FastTrack = None, prm_RestartGate = Some \<lparr>rg_OnFailure = ''Rollback'', rg_Checks =
       [\<lparr>rc_Name = ''api'', rc_Selector = ''app=api'', rc_MaxRestarts = 2, rc_OnFailure = []\<rparr>]\<rparr>,
     prm_EventGate = None\<rparr>"

definition demo_gated_stage :: Stage where
  "demo_gated_stage = (plain_stage ''api'')\<lparr>stg_Promotion := Some demo_promotion\<rparr>"

definition demo_cluster :: "int \<Rightarrow> cluster_reader" where
  "demo_cluster restarts = \<lparr>cr_selector = SelectorOf, cr_pods = (\<lambda>_. Inr [\<lparr>pod_UID = ''u'', pod_deleting = False,
     pod_initRestarts = [], pod_restarts = [restarts]\<rparr>]), cr_events = Inr []\<rparr>"

definition unreadable_cluster :: cluster_reader where
  "unreadable_cluster = (demo_cluster 0)\<lparr>cr_pods := (\<lambda>_. Inl \<lparr>cause_permanent = False,
     cause_unauthorized = False, cause_terminal_fetch = False, cause_text = ''timeout''\<rparr>)\<rparr>"

definition demo_env :: "cluster_reader \<Rightarrow> instant \<Rightarrow> promo_env" where
  "demo_env cluster now = \<lparr>pe_now = now, pe_analysis = (\<lambda>_. \<lparr>av_result = \<lparr>ar_Time = None, ar_Passed = True, ar_Checks = []\<rparr>,
     av_breached = False, av_sourceErr = False\<rparr>), pe_fastTrack = (\<lambda>_. False), pe_cluster = cluster,
     pe_revert = Inr (Some ''r1'')\<rparr>"

definition demo_applied :: "string \<Rightarrow> applied_stage" where
  "demo_applied rv = \<lparr>ap_revision = rv, ap_entries = 3, ap_led = \<lparr>al_revision = rv, al_executed = [],
     al_version = [], al_versioned = [], al_lifetimeDone = []\<rparr>, ap_lastHandled = [], ap_freeze = None\<rparr>"

definition demo_status :: StageStatus where
  "demo_status = (stage_status ''api'' StageReady ''r1'')\<lparr>ss_PromotionState := Some
     ((promotion_state PromotionPromoted (Some 5))\<lparr>ps_RestartBaseline := [\<lparr>rcb_Name = ''api'', rcb_Restarts = 4\<rparr>]\<rparr>)\<rparr>"

abbreviation demo_gate :: "StageStatus \<Rightarrow> string \<Rightarrow> cluster_reader \<Rightarrow> instant \<Rightarrow> promo_result" where
  "demo_gate st rv cluster now \<equiv> promotion_step Minute (plain_set [demo_gated_stage]) demo_gated_stage st
     (demo_applied rv) (demo_env cluster now)"

definition demo_soaked :: StageStatus where
  "demo_soaked = promo_entry (demo_gate demo_status ''r2'' (demo_cluster 5) 1000)"

lemma demo_gate_facts:
  "gate_read (demo_gate demo_status ''r2'' (demo_cluster 5) 1000)"
  "(case demo_gate demo_soaked ''r2'' (demo_cluster 5) (1000 + 10 * Minute) of Advanced e \<Rightarrow> True | _ \<Rightarrow> False)"
  "fresh_token (plain_set [demo_gated_stage]) demo_gated_stage st = False"
  "pe_now (demo_env c t) = t" "ap_revision (demo_applied rv) = rv"
  "stg_Promotion demo_gated_stage = Some demo_promotion"
  by (code_simp, code_simp)
    (simp_all add: fresh_token_def promoteTokenFor_def parsePromote_def annotation_def plain_set_def
      stage_at_token_def demo_env_def demo_applied_def demo_gated_stage_def Let_def)


text \<open>An interrupted gate is skipped. When a stage that was promoted at an earlier revision gets a new
  one, and on that pass its pods or events cannot be read or the revert of a breached gate does not land,
  the interrupted entry pairs the new revision with the old Promoted state; the next readable pass takes
  the stage for already promoted and advances, whatever the soak, the restart and event checks, the
  analysis or a manual gate say.\<close>

theorem interrupted_gate_is_skipped:
  assumes "ss_PromotionState prior = Some s" "ps_Phase s = PromotionPromoted"
    and "stg_Promotion stage = Some p"
    and "\<not> gate_read (promotion_step di ss stage prior ap env)"
    and "ap_revision ap' = ap_revision ap"
    and "read_gates env' stage (promo_entry (promotion_step di ss stage prior ap env)) = Inr r"
  shows "\<exists>e. promotion_step di ss' stage (promo_entry (promotion_step di ss stage prior ap env)) ap' env' = Advanced e"
proof -
  let ?e = "recordGateInterrupted stage ap prior"
  have first: "promo_entry (promotion_step di ss stage prior ap env) = ?e"
    using assms(4) by (cases rule: promotion_step_cases [of di ss stage prior ap env]) simp_all
  obtain obs event where r: "r = (obs, event)" by (cases r)
  have "already_promoted ?e (ap_revision ap')"
    using assms by (simp add: already_promoted_def recordGateInterrupted_def)
  then have out: "go_promoted (judge di ss' stage ?e ap' env' obs event)"
      "\<not> go_rollback (judge di ss' stage ?e ap' env' obs event)"
    using assms(3) by (simp_all add: judge_def gatePromotion_def Let_def)
  have "read_gates env' stage ?e = Inr (obs, event)" using assms(6) unfolding first r .
  then have "promotion_step di ss' stage ?e ap' env' =
      Advanced (applied_entry stage ap' (ap_revision ap')
        (with_baseline obs True (go_state (judge di ss' stage ?e ap' env' obs event)))
        (go_handled (judge di ss' stage ?e ap' env' obs event)))"
    using out by (simp add: promotion_step_def finish_stage_def Let_def)
  then show ?thesis using first by simp
qed

lemma demo_bypass_facts:
  "\<not> gate_read (demo_gate demo_status ''r2'' unreadable_cluster 1000)"
  "(case read_gates (demo_env (demo_cluster 99) 1001) demo_gated_stage
     (promo_entry (demo_gate demo_status ''r2'' unreadable_cluster 1000)) of
      Inr (Some ob, None) \<Rightarrow> map_option gv_observed (ro_verdict ob) = Some 95 | _ \<Rightarrow> False)"
  by code_simp+

text \<open>Ninety-five restarts over a limit of two, one nanosecond into a ten-minute soak, and the stage
  advances.\<close>

theorem interrupted_gate_is_skipped_witness:
  "\<exists>e. demo_gate (promo_entry (demo_gate demo_status ''r2'' unreadable_cluster 1000)) ''r2'' (demo_cluster 99) 1001
     = Advanced e"
proof -
  obtain r where r: "read_gates (demo_env (demo_cluster 99) 1001) demo_gated_stage
      (promo_entry (demo_gate demo_status ''r2'' unreadable_cluster 1000)) = Inr r"
    using demo_bypass_facts(2) by (auto split: sum.splits)
  obtain s where "ss_PromotionState demo_status = Some s" "ps_Phase s = PromotionPromoted"
    by (simp add: demo_status_def)
  from interrupted_gate_is_skipped [OF this demo_gate_facts(6) demo_bypass_facts(1) refl r] show ?thesis by blast
qed

text \<open>An aborted revision stays parked. When a breached gate reverts a stage, the entry names the
  reverted revision and every later pass at the failing revision is skipped, as long as no fresh token
  names the stage; a different revision is not skipped.\<close>

theorem rollback_parks_revision:
  assumes "promotion_step di ss stage prior ap env = Held e s d"
    and "read_gates env stage prior = Inr (obs, event)"
    and "go_rollback (judge di ss stage prior ap env obs event)" "pe_revert env = Inr (Some reverted)"
  shows "ss_AppliedRevision e = reverted \<and> rollbackAborted ss stage e (ap_revision ap) \<and>
    (\<forall>rv. rv \<noteq> ap_revision ap \<longrightarrow> \<not> rollbackAborted ss stage e rv) \<and>
    (\<forall>ss'. fresh_token ss' stage e \<longrightarrow> \<not> rollbackAborted ss' stage e (ap_revision ap))"
proof -
  let ?out = "judge di ss stage prior ap env obs event"
  obtain p st where g: "stg_Promotion stage = Some p" "\<not> fresh_token ss stage prior" "\<not> go_promoted ?out"
    "go_state ?out = Some st" "ps_Phase st = PromotionBlocked" "go_handled ?out = ss_LastHandledPromotion prior"
    "(\<exists>r. (case obs of Some ob \<Rightarrow> ro_verdict ob | None \<Rightarrow> None) = Some r \<and> gv_rollback r) \<or>
     (\<exists>e. event = Some e \<and> gv_rollback e) \<or>
     (\<exists>a. prm_Analysis p = Some a \<and> an_OnFailure a = ''Rollback'' \<and> \<not> an_DryRun a)"
    using assms(3) unfolding judge_def by (rule gatePromotion_rollback)
  have e: "e = applied_entry stage ap reverted
      (map_option (\<lambda>s. s\<lparr>ps_AbortedRevision := ap_revision ap\<rparr>) (with_baseline obs False (Some st)))
      (ss_LastHandledPromotion prior)"
    using assms g(3,4,6) by (auto simp: promotion_step_def finish_stage_def Let_def)
  have "abortCapable (stg_Promotion stage)"
  proof -
    have "\<exists>g. prm_RestartGate p = Some g \<and>
        (rg_OnFailure g = ''Rollback'' \<or> list_ex (\<lambda>c. rc_OnFailure c = ''Rollback'') (rg_Checks g))"
      if "(case obs of Some ob \<Rightarrow> ro_verdict ob | None \<Rightarrow> None) = Some r" "gv_rollback r" for r
      using that assms(2) g(1) restart_rollback_capable [of "pe_cluster env" _ prior _ r]
      by (auto simp: read_gates_def promotion_part_def bind_result_def split: option.splits sum.splits)
    moreover have "\<exists>g. prm_EventGate p = Some g \<and>
        (eg_OnFailure g = ''Rollback'' \<or> list_ex (\<lambda>c. ec_OnFailure c = ''Rollback'') (eg_Checks g))"
      if "event = Some v" "gv_rollback v" for v
      using that assms(2) g(1) event_rollback_capable [of "podWarningEventTotal (pe_cluster env)" _ _ v]
      by (auto simp: read_gates_def promotion_part_def bind_result_def evaluateEventChecks_def
          split: option.splits sum.splits)
    ultimately show ?thesis using g(1,7) by (force simp: abortCapable_def)
  qed
  moreover have "fresh_token ss stage e \<longleftrightarrow> fresh_token ss stage prior"
    by (simp add: e fresh_token_def)
  moreover obtain st' where "ss_PromotionState e = Some st'" "ps_Phase st' = PromotionBlocked"
      "ps_AbortedRevision st' = ap_revision ap"
    using g(5) by (cases obs) (auto simp: e with_baseline_def)
  ultimately show ?thesis
    using g(2) by (auto simp: rollbackAborted_def e)
qed

lemma demo_park_facts:
  "(case demo_gate demo_status ''r2'' (demo_cluster 99) 1000 of Held e s d \<Rightarrow> True | _ \<Rightarrow> False)"
  "(case read_gates (demo_env (demo_cluster 99) 1000) demo_gated_stage demo_status of
      Inr (obs, event) \<Rightarrow> go_rollback (judge Minute (plain_set [demo_gated_stage]) demo_gated_stage demo_status
        (demo_applied ''r2'') (demo_env (demo_cluster 99) 1000) obs event) | Inl _ \<Rightarrow> False)"
  by code_simp+

theorem rollback_parks_revision_witness:
  "\<exists>e s d. demo_gate demo_status ''r2'' (demo_cluster 99) 1000 = Held e s d \<and> ss_AppliedRevision e = ''r1'' \<and>
     rollbackAborted (plain_set [demo_gated_stage]) demo_gated_stage e ''r2''"
proof -
  obtain e s d where e: "demo_gate demo_status ''r2'' (demo_cluster 99) 1000 = Held e s d"
    using demo_park_facts(1) by (auto split: promo_result.splits)
  obtain obs event where r: "read_gates (demo_env (demo_cluster 99) 1000) demo_gated_stage demo_status = Inr (obs, event)"
    "go_rollback (judge Minute (plain_set [demo_gated_stage]) demo_gated_stage demo_status
        (demo_applied ''r2'') (demo_env (demo_cluster 99) 1000) obs event)"
    using demo_park_facts(2) by (auto split: sum.splits)
  have "pe_revert (demo_env (demo_cluster 99) 1000) = Inr (Some ''r1'')" by (simp add: demo_env_def)
  from rollback_parks_revision [OF e r this] e show ?thesis by (auto simp: demo_gate_facts)
qed

text \<open>Promote tokens. A fresh token advances a readable stage that is not promoted yet and is recorded,
  so the same token does not promote again; a pass whose gate could not be read leaves it pending. A
  token given while the stage is already promoted is not recorded either: it stays fresh.\<close>

theorem promote_token_accounting:
  assumes "stg_Promotion stage = Some p" "fresh_token ss stage prior"
  shows "(read_gates env stage prior = Inr r \<longrightarrow>
      (\<exists>e. promotion_step di ss stage prior ap env = Advanced e \<and>
        (fresh_token ss stage e \<longleftrightarrow> already_promoted prior (ap_revision ap)))) \<and>
    (read_gates env stage prior = Inl c \<longrightarrow>
      fresh_token ss stage (promo_entry (promotion_step di ss stage prior ap env)) \<and>
      ss_PromotionState (promo_entry (promotion_step di ss stage prior ap env)) = ss_PromotionState prior)"
proof (intro conjI impI)
  assume read: "read_gates env stage prior = Inr r"
  obtain obs event where r: "r = (obs, event)" by (cases r)
  let ?out = "judge di ss stage prior ap env obs event"
  have out: "go_promoted ?out" "\<not> go_rollback ?out" "go_handled ?out =
      (if already_promoted prior (ap_revision ap) then ss_LastHandledPromotion prior
       else promoteTokenFor ss (stg_Name stage))"
    using assms by (simp_all add: judge_def gatePromotion_def Let_def)
  let ?e = "applied_entry stage ap (ap_revision ap) (with_baseline obs True (go_state ?out)) (go_handled ?out)"
  have "promotion_step di ss stage prior ap env = Advanced ?e"
    using read r out(1,2) by (simp add: promotion_step_def finish_stage_def Let_def)
  moreover have "fresh_token ss stage ?e \<longleftrightarrow> already_promoted prior (ap_revision ap)"
    using assms(2) out(3) by (simp add: fresh_token_def Let_def)
  ultimately show "\<exists>e. promotion_step di ss stage prior ap env = Advanced e \<and>
        (fresh_token ss stage e \<longleftrightarrow> already_promoted prior (ap_revision ap))" by blast
next
  assume "read_gates env stage prior = Inl c"
  then have "promo_entry (promotion_step di ss stage prior ap env) = recordGateInterrupted stage ap prior"
    by (simp add: promotion_step_def interrupted_def)
  then show "fresh_token ss stage (promo_entry (promotion_step di ss stage prior ap env))"
    "ss_PromotionState (promo_entry (promotion_step di ss stage prior ap env)) = ss_PromotionState prior"
    using assms(2) by (simp_all add: recordGateInterrupted_def fresh_token_def)
qed

definition token_set :: StageSet where
  "token_set = (plain_set [demo_gated_stage])\<lparr>set_Annotations := [promoteAnnotation \<mapsto> ''api@t1'']\<rparr>"

lemma token_set_fresh:
  "promoteTokenFor token_set (stg_Name demo_gated_stage) = ''t1''"
  "fresh_token token_set demo_gated_stage demo_status"
  "\<not> already_promoted demo_status ''r2''"
  by code_simp+

theorem promote_token_accounting_witness:
  "\<exists>e. promotion_step Minute token_set demo_gated_stage demo_status (demo_applied ''r2'')
      (demo_env (demo_cluster 5) 1000) = Advanced e \<and> \<not> fresh_token token_set demo_gated_stage e"
proof -
  have "(case read_gates (demo_env (demo_cluster 5) 1000) demo_gated_stage demo_status of Inr r \<Rightarrow> True | Inl _ \<Rightarrow> False)"
    by code_simp
  then obtain r where "read_gates (demo_env (demo_cluster 5) 1000) demo_gated_stage demo_status = Inr r"
    by (auto split: sum.splits)
  with promote_token_accounting [OF demo_gate_facts(6) token_set_fresh(2), of "demo_env (demo_cluster 5) 1000" r Minute
      "demo_applied ''r2''" undefined] token_set_fresh(3)
  show ?thesis by (simp add: demo_gate_facts)
qed

text \<open>A handled promote token comes back after a failure. The status written when a stage fails, or is
  still converging, drops the token recorded as handled; with the annotation untouched the token is
  fresh again, and at the next revision the stage advances without soak, checks, analysis or manual
  promotion.\<close>

theorem handled_token_replays:
  assumes "promoteTokenFor ss (stg_Name stage) \<noteq> []" "stg_Promotion stage = Some p"
    and "e = failed_entry (stg_Name stage) msg led \<or> e = held_for_progress stage ap msg"
  shows "fresh_token ss stage e \<and>
    go_promoted (gatePromotion di ss stage rv e now verdict fast restart event) \<and>
    go_handled (gatePromotion di ss stage rv e now verdict fast restart event) =
      promoteTokenFor ss (stg_Name stage)"
proof -
  have "ss_LastHandledPromotion e = []" "ss_PromotionState e = None"
    using assms(3) by (auto simp: failed_entry_def held_for_progress_def stamp_def stage_status_def)
  then show ?thesis
    using assms(1,2) by (simp add: fresh_token_def already_promoted_def gatePromotion_def Let_def)
qed

theorem handled_token_replays_witness:
  "\<not> fresh_token token_set demo_gated_stage (demo_status\<lparr>ss_LastHandledPromotion := ''t1''\<rparr>) \<and>
   go_promoted (gatePromotion Minute token_set demo_gated_stage ''r3''
     (failed_entry ''api'' ''apply'' (ap_led (demo_applied ''r2''))) 1000 None False
     (Some \<lparr>gv_check = ''api'', gv_observed = 95, gv_rollback = True\<rparr>) None)"
proof -
  have "stg_Name demo_gated_stage = ''api''" by (simp add: demo_gated_stage_def plain_stage_def)
  moreover have "promoteTokenFor token_set (stg_Name demo_gated_stage) \<noteq> []" by (simp only: token_set_fresh(1)) simp
  ultimately show ?thesis
    using handled_token_replays [OF _ demo_gate_facts(6), of token_set "failed_entry ''api'' ''apply'' (ap_led (demo_applied ''r2''))"
      "''apply''" "ap_led (demo_applied ''r2'')" "demo_applied ''r2''" Minute "''r3''" 1000 None False
      "Some \<lparr>gv_check = ''api'', gv_observed = 95, gv_rollback = True\<rparr>" None] token_set_fresh(1)
    by (simp add: fresh_token_def)
qed

text \<open>The restart gate. When every group can be read, each check is judged on the excess of its restart
  total over the baseline of the last promotion (its own total when it has none, and never below zero),
  the verdict is the first check over its limit, and baselines and totals are recorded for every check;
  one group that cannot be read makes the whole gate unreadable.\<close>

theorem restart_gate_exact:
  "(\<forall>t. (\<forall>c\<in>set (rg_Checks g). podRestartTotal cr (rc_Selector c) = Inr (t c)) \<longrightarrow>
     evaluateRestartChecks cr g prior = Inr
       \<lparr>ro_verdict = map_option (\<lambda>c. \<lparr>gv_check = rc_Name c,
            gv_observed = snd (restart_excess (priorRestartBaseline prior) c (t c)),
            gv_rollback = rolls_back (rc_OnFailure c) (rg_OnFailure g)\<rparr>)
          (find (\<lambda>c. rc_MaxRestarts c < snd (restart_excess (priorRestartBaseline prior) c (t c))) (rg_Checks g)),
        ro_baseline = map (\<lambda>c. \<lparr>rcb_Name = rc_Name c,
            rcb_Restarts = fst (restart_excess (priorRestartBaseline prior) c (t c))\<rparr>) (rg_Checks g),
        ro_totals = map (\<lambda>c. \<lparr>rcb_Name = rc_Name c, rcb_Restarts = t c\<rparr>) (rg_Checks g)\<rparr>) \<and>
   ((\<exists>c\<in>set (rg_Checks g). \<exists>e. podRestartTotal cr (rc_Selector c) = Inl e) \<longrightarrow>
     (\<exists>e. evaluateRestartChecks cr g prior = Inl e))"
proof (intro conjI allI impI)
  fix t assume "\<forall>c\<in>set (rg_Checks g). podRestartTotal cr (rc_Selector c) = Inr (t c)"
  from restart_checks_result [OF this, of "priorRestartBaseline prior" "rg_OnFailure g"
      "\<lparr>ro_verdict = None, ro_baseline = [], ro_totals = []\<rparr>"]
  show "evaluateRestartChecks cr g prior = Inr
       \<lparr>ro_verdict = map_option (\<lambda>c. \<lparr>gv_check = rc_Name c,
            gv_observed = snd (restart_excess (priorRestartBaseline prior) c (t c)),
            gv_rollback = rolls_back (rc_OnFailure c) (rg_OnFailure g)\<rparr>)
          (find (\<lambda>c. rc_MaxRestarts c < snd (restart_excess (priorRestartBaseline prior) c (t c))) (rg_Checks g)),
        ro_baseline = map (\<lambda>c. \<lparr>rcb_Name = rc_Name c,
            rcb_Restarts = fst (restart_excess (priorRestartBaseline prior) c (t c))\<rparr>) (rg_Checks g),
        ro_totals = map (\<lambda>c. \<lparr>rcb_Name = rc_Name c, rcb_Restarts = t c\<rparr>) (rg_Checks g)\<rparr>"
    unfolding evaluateRestartChecks_def by simp
next
  assume "\<exists>c\<in>set (rg_Checks g). \<exists>e. podRestartTotal cr (rc_Selector c) = Inl e"
  then show "\<exists>e. evaluateRestartChecks cr g prior = Inl e"
    unfolding evaluateRestartChecks_def using restart_checks_fails by metis
qed

theorem restart_gate_exact_witness:
  "ro_verdict (case evaluateRestartChecks (demo_cluster 99)
      (the (prm_RestartGate demo_promotion)) demo_status of Inr ob \<Rightarrow> ob | Inl _ \<Rightarrow> undefined) =
    Some \<lparr>gv_check = ''api'', gv_observed = 95, gv_rollback = True\<rparr>"
proof -
  let ?c = "\<lparr>rc_Name = ''api'', rc_Selector = ''app=api'', rc_MaxRestarts = 2, rc_OnFailure = []\<rparr>"
  have "podRestartTotal (demo_cluster 99) ''app=api'' = Inr 99" by code_simp
  moreover have "rg_Checks (the (prm_RestartGate demo_promotion)) = [?c]" "rg_OnFailure (the (prm_RestartGate demo_promotion)) = ''Rollback''"
    by (simp_all add: demo_promotion_def)
  moreover have "priorRestartBaseline demo_status ''api'' = Some 4" by code_simp
  ultimately show ?thesis
    using restart_gate_exact [of "the (prm_RestartGate demo_promotion)" "demo_cluster 99" demo_status,
        THEN conjunct1, THEN spec [of _ "\<lambda>_. 99"]]
    by (simp add: restart_excess_def rolls_back_def wrap32_id Let_def)
qed

end
