(* ===== verification/Ladder.thy ===== *)
theory Ladder
  imports Types
begin

text \<open>
  The migration ladder of \<open>internal/migrations/migrations.go\<close>: parsing, content validation, and the
  selection of the migrations a version transition crosses, upward (\<open>Explain\<close>, \<open>Select\<close>) and downward
  (\<open>SelectDown\<close>). Semantic versions come from a library: a parsed version is its precedence, an element
  of a linear order, and a constraint is the set of versions it admits. YAML decoding is a parameter.
\<close>

section \<open>Semantic versions\<close>

record 'v semver =
  sv_NewVersion :: "string \<Rightarrow> 'v option"
  sv_StrictNewVersion :: "string \<Rightarrow> 'v option"
  sv_NewConstraint :: "string \<Rightarrow> ('v \<Rightarrow> bool) option"
  sv_Major :: "'v \<Rightarrow> nat"

section \<open>Parsing\<close>

text \<open>\<open>filepath.Ext\<close>: the suffix from the last dot of the last path element, empty without a dot.\<close>

definition path_ext :: "string \<Rightarrow> string" where
  "path_ext p =
     (let base = rev (takeWhile (\<lambda>c. c \<noteq> CHR ''/'') (rev p));
          tail = rev (takeWhile (\<lambda>c. c \<noteq> CHR ''.'') (rev base))
      in if CHR ''.'' \<in> set base then CHR ''.'' # tail else [])"

definition fileExts :: "string set" where
  "fileExts = {''.yaml'', ''.yml'', ''.json''}"

datatype ladder_error =
    NoLadderFiles
  | UnparsableFile string
  | EmptyLadder
  | TooManyMigrations
  | DuplicateMigration string
  | EmptyMigrationName
  | EmptyTo string
  | InvalidTo string
  | InvalidFrom string
  | BareFrom string
  | TooManyActions string
  | ActionVerbs string string
  | EmptyActionName string
  | DuplicateAction string string
  | ActionWithScope string string
  | ActionWithAnchor string string
  | ActionRetries string string

text \<open>The artifact's files are distinct paths with their content; a document is a list of migrations or
  a single one.\<close>

definition parse_file ::
  "(string \<Rightarrow> Migration list option) \<Rightarrow> (string \<Rightarrow> Migration option) \<Rightarrow> string \<Rightarrow> string \<Rightarrow> ladder_error + Migration list" where
  "parse_file parseList parseOne p content =
     (case parseList content of
        Some ms \<Rightarrow> Inr ms
      | None \<Rightarrow> (case parseOne content of Some m \<Rightarrow> Inr [m] | None \<Rightarrow> Inl (UnparsableFile p)))"

definition ladder_paths :: "(string \<times> string) list \<Rightarrow> string list" where
  "ladder_paths files = sort (filter (\<lambda>p. to_lower (path_ext p) \<in> fileExts) (map fst files))"

definition ParseLadder ::
  "(string \<Rightarrow> Migration list option) \<Rightarrow> (string \<Rightarrow> Migration option) \<Rightarrow> (string \<times> string) list
   \<Rightarrow> ladder_error + Migration list" where
  "ParseLadder parseList parseOne files =
     (let paths = ladder_paths files in
      if paths = [] then Inl NoLadderFiles
      else bind_result (map_result (\<lambda>p. parse_file parseList parseOne p (the (map_of files p))) paths)
        (\<lambda>mss. if concat mss = [] then Inl EmptyLadder else Inr (concat mss)))"

section \<open>Validation\<close>

definition MaxMigrationsPerLadder :: nat where
  "MaxMigrationsPerLadder = 200"

definition MaxActionsPerMigration :: nat where
  "MaxActionsPerMigration = 100"

definition MaxActionRetries :: int where
  "MaxActionRetries = 10"

definition semverIsBare :: "'v semver \<Rightarrow> string \<Rightarrow> bool" where
  "semverIsBare sv s \<longleftrightarrow> sv_StrictNewVersion sv (trim_prefix (trim_prefix s ''v'') ''V'') \<noteq> None"

fun validate_actions :: "string \<Rightarrow> string list \<Rightarrow> Action list \<Rightarrow> ladder_error + unit" where
  "validate_actions migName seen [] = Inr ()"
| "validate_actions migName seen (a # acts) =
     (if VerbCount a \<noteq> 1 then Inl (ActionVerbs migName (act_Name a))
      else if act_Name a = [] then Inl (EmptyActionName migName)
      else if act_Name a \<in> set seen then Inl (DuplicateAction migName (act_Name a))
      else if act_Scope a \<noteq> ScopeUnset then Inl (ActionWithScope migName (act_Name a))
      else if act_CompletionAnchor a \<noteq> None then Inl (ActionWithAnchor migName (act_Name a))
      else if (case act_Retries a of Some r \<Rightarrow> r < 0 \<or> r > MaxActionRetries | None \<Rightarrow> False)
        then Inl (ActionRetries migName (act_Name a))
      else validate_actions migName (act_Name a # seen) acts)"

definition validateMigrationActions :: "string \<Rightarrow> Action list \<Rightarrow> ladder_error + unit" where
  "validateMigrationActions migName acts =
     (if length acts > MaxActionsPerMigration then Inl (TooManyActions migName)
      else validate_actions migName [] acts)"

definition ValidateMigration :: "'v semver \<Rightarrow> Migration \<Rightarrow> ladder_error + unit" where
  "ValidateMigration sv m =
     (if mig_Name m = [] then Inl EmptyMigrationName
      else if mig_To m = [] then Inl (EmptyTo (mig_Name m))
      else if sv_NewVersion sv (mig_To m) = None then Inl (InvalidTo (mig_Name m))
      else if mig_From m \<noteq> [] \<and> sv_NewConstraint sv (mig_From m) = None then Inl (InvalidFrom (mig_Name m))
      else if mig_From m \<noteq> [] \<and> semverIsBare sv (trim_space (mig_From m)) then Inl (BareFrom (mig_Name m))
      else bind_result (validateMigrationActions (mig_Name m) (mig_Actions m))
        (\<lambda>_. validateMigrationActions (mig_Name m) (mig_Down m)))"

fun validate_ladder :: "'v semver \<Rightarrow> string list \<Rightarrow> Migration list \<Rightarrow> ladder_error + unit" where
  "validate_ladder sv names [] = Inr ()"
| "validate_ladder sv names (m # ms) =
     bind_result (ValidateMigration sv m)
       (\<lambda>_. if mig_Name m \<in> set names then Inl (DuplicateMigration (mig_Name m))
            else validate_ladder sv (mig_Name m # names) ms)"

definition ValidateLadder :: "'v semver \<Rightarrow> Migration list \<Rightarrow> ladder_error + unit" where
  "ValidateLadder sv ladder =
     (if length ladder > MaxMigrationsPerLadder then Inl TooManyMigrations
      else validate_ladder sv [] ladder)"

section \<open>Selection\<close>

datatype skip_reason = NotCrossed | FromMismatch

record Outcome =
  out_Migration :: Migration
  out_Reason :: "skip_reason option"

definition out_Fires :: "Outcome \<Rightarrow> bool" where
  "out_Fires o' \<longleftrightarrow> out_Reason o' = None"

datatype select_error = SelectInvalidTo string | SelectInvalidFrom string

definition explain_one :: "'v :: linorder semver \<Rightarrow> 'v \<Rightarrow> 'v \<Rightarrow> Migration \<Rightarrow> select_error + Outcome \<times> 'v" where
  "explain_one sv current desired m =
     (case sv_NewVersion sv (mig_To m) of
        None \<Rightarrow> Inl (SelectInvalidTo (mig_Name m))
      | Some toV \<Rightarrow>
          if \<not> toV > current \<or> toV > desired then Inr (\<lparr>out_Migration = m, out_Reason = Some NotCrossed\<rparr>, toV)
          else if mig_From m \<noteq> [] then
            (case sv_NewConstraint sv (mig_From m) of
               None \<Rightarrow> Inl (SelectInvalidFrom (mig_Name m))
             | Some admits \<Rightarrow>
                 Inr (\<lparr>out_Migration = m, out_Reason = (if admits current then None else Some FromMismatch)\<rparr>, toV))
          else Inr (\<lparr>out_Migration = m, out_Reason = None\<rparr>, toV))"

definition Explain :: "'v :: linorder semver \<Rightarrow> Migration list \<Rightarrow> 'v \<Rightarrow> 'v \<Rightarrow> select_error + Outcome list" where
  "Explain sv ladder current desired =
     bind_result (map_result (explain_one sv current desired) ladder)
       (\<lambda>scored. Inr (map fst (sort_key snd scored)))"

definition Select :: "'v :: linorder semver \<Rightarrow> Migration list \<Rightarrow> 'v \<Rightarrow> 'v \<Rightarrow> select_error + Migration list" where
  "Select sv ladder current desired =
     bind_result (Explain sv ladder current desired)
       (\<lambda>outcomes. Inr (map out_Migration (filter out_Fires outcomes)))"

definition score :: "'v :: linorder semver \<Rightarrow> Migration \<Rightarrow> select_error + Migration \<times> 'v" where
  "score sv m =
     (case sv_NewVersion sv (mig_To m) of
        None \<Rightarrow> Inl (SelectInvalidTo (mig_Name m))
      | Some toV \<Rightarrow> Inr (m, toV))"

text \<open>A stable sort by descending target: ascending on the reversed list, reversed.\<close>

definition sort_desc :: "('a \<Rightarrow> 'v :: linorder) \<Rightarrow> 'a list \<Rightarrow> 'a list" where
  "sort_desc key xs = rev (sort_key key (rev xs))"

definition SelectDown :: "'v :: linorder semver \<Rightarrow> Migration list \<Rightarrow> 'v \<Rightarrow> 'v \<Rightarrow> select_error + Migration list" where
  "SelectDown sv ladder current desired =
     bind_result (map_result (score sv) ladder)
       (\<lambda>scored. Inr (map fst (sort_desc snd (filter (\<lambda>(m, toV). toV > desired \<and> \<not> toV > current) scored))))"


section \<open>Lemmas on sorting\<close>

lemma insort_key_map: "insort_key g (f x) (map f xs) = map f (insort_key (\<lambda>x. g (f x)) x xs)"
  by (induction xs) auto

lemma sort_key_map: "sort_key g (map f xs) = map f (sort_key (\<lambda>x. g (f x)) xs)"
  by (induction xs) (simp_all add: insort_key_map)

lemma sorted_split_at:
  "sorted (map f ys) \<Longrightarrow> ys = filter (\<lambda>x. f x \<le> k) ys @ filter (\<lambda>x. k < f x) ys"
proof (induction ys)
  case (Cons y ys)
  show ?case
  proof (cases "f y \<le> k")
    case True
    with Cons show ?thesis by auto
  next
    case False
    with Cons.prems have "\<forall>x\<in>set ys. k < f x" by (auto intro: less_le_trans)
    with False show ?thesis by (auto simp: filter_empty_conv not_le intro!: filter_True [symmetric])
  qed
qed simp

lemma sort_key_split_at:
  "sort_key f xs = sort_key f (filter (\<lambda>x. f x \<le> k) xs) @ sort_key f (filter (\<lambda>x. k < f x) xs)"
  using sorted_split_at [OF sorted_sort_key, of f xs k] by (simp add: filter_sort)

lemma sort_desc_map: "sort_desc g (map f xs) = map f (sort_desc (\<lambda>x. g (f x)) xs)"
  by (simp add: sort_desc_def rev_map sort_key_map)

lemma sort_desc_mset [simp]: "mset (sort_desc key xs) = mset xs"
  by (simp add: sort_desc_def)

lemma sort_desc_set [simp]: "set (sort_desc key xs) = set xs"
  by (simp add: sort_desc_def)

lemma sort_desc_inj:
  assumes "inj_on key (set xs)"
  shows "sort_desc key xs = rev (sort_key key xs)"
proof -
  have "sort_key key (rev xs) = sort_key key xs"
    using assms by (intro sort_key_inj_key_eq) auto
  then show ?thesis by (simp add: sort_desc_def)
qed

section \<open>What a validated ladder promises\<close>

definition target :: "'v semver \<Rightarrow> Migration \<Rightarrow> 'v" where
  "target sv m = the (sv_NewVersion sv (mig_To m))"

definition admits :: "'v semver \<Rightarrow> 'v \<Rightarrow> Migration \<Rightarrow> bool" where
  "admits sv current m \<longleftrightarrow> mig_From m = [] \<or> the (sv_NewConstraint sv (mig_From m)) current"

definition well_parsed :: "'v semver \<Rightarrow> Migration \<Rightarrow> bool" where
  "well_parsed sv m \<longleftrightarrow> sv_NewVersion sv (mig_To m) \<noteq> None \<and>
     (mig_From m \<noteq> [] \<longrightarrow> sv_NewConstraint sv (mig_From m) \<noteq> None)"

lemma validate_actions_ok:
  "validate_actions n seen acts = Inr () \<Longrightarrow>
   distinct (map act_Name acts) \<and> act_Name ` set acts \<inter> set seen = {} \<and>
   (\<forall>a\<in>set acts. VerbCount a = 1 \<and> act_Name a \<noteq> [] \<and> act_Scope a = ScopeUnset \<and>
      act_CompletionAnchor a = None \<and> (\<forall>r. act_Retries a = Some r \<longrightarrow> 0 \<le> r \<and> r \<le> MaxActionRetries))"
  by (induction n seen acts rule: validate_actions.induct) (auto split: if_splits option.splits)

lemma ValidateMigration_ok:
  "ValidateMigration sv m = Inr () \<Longrightarrow> well_parsed sv m \<and> mig_Name m \<noteq> [] \<and>
     distinct (map act_Name (mig_Actions m)) \<and> distinct (map act_Name (mig_Down m))"
  by (auto simp: ValidateMigration_def well_parsed_def validateMigrationActions_def bind_result_eq_Inr
      dest: validate_actions_ok split: if_splits)

lemma validate_ladder_ok:
  "validate_ladder sv names ladder = Inr () \<Longrightarrow>
   (\<forall>m\<in>set ladder. ValidateMigration sv m = Inr ()) \<and> distinct (map mig_Name ladder) \<and>
   mig_Name ` set ladder \<inter> set names = {}"
  by (induction sv names ladder rule: validate_ladder.induct) (auto simp: bind_result_eq_Inr split: if_splits)

lemma ValidateLadder_ok:
  assumes "ValidateLadder sv ladder = Inr ()"
  shows "\<forall>m\<in>set ladder. ValidateMigration sv m = Inr ()" "distinct (map mig_Name ladder)"
    "\<forall>m\<in>set ladder. well_parsed sv m" "length ladder \<le> MaxMigrationsPerLadder"
  using assms validate_ladder_ok [of sv "[]" ladder] ValidateMigration_ok
  by (auto simp: ValidateLadder_def split: if_splits)

definition crosses :: "'v :: linorder semver \<Rightarrow> 'v \<Rightarrow> 'v \<Rightarrow> Migration \<Rightarrow> bool" where
  "crosses sv current desired m \<longleftrightarrow>
     current < target sv m \<and> target sv m \<le> desired \<and> admits sv current m"

definition crosses_down :: "'v :: linorder semver \<Rightarrow> 'v \<Rightarrow> 'v \<Rightarrow> Migration \<Rightarrow> bool" where
  "crosses_down sv current desired m \<longleftrightarrow> desired < target sv m \<and> target sv m \<le> current"

lemma explain_one_ok:
  assumes "well_parsed sv m"
  shows "explain_one sv c d m = Inr (\<lparr>out_Migration = m, out_Reason =
    (if crosses sv c d m then None
     else if c < target sv m \<and> target sv m \<le> d then Some FromMismatch else Some NotCrossed)\<rparr>, target sv m)"
  using assms
  by (auto simp: explain_one_def well_parsed_def crosses_def admits_def target_def not_le)

lemma Select_eq:
  assumes "\<forall>m\<in>set ladder. well_parsed sv m"
  shows "Select sv ladder c d = Inr (sort_key (target sv) (filter (crosses sv c d) ladder))"
proof -
  define o1 where "o1 m = \<lparr>out_Migration = m, out_Reason = (if crosses sv c d m then None
     else if c < target sv m \<and> target sv m \<le> d then Some FromMismatch else Some NotCrossed)\<rparr>" for m
  have "map_result (explain_one sv c d) ladder = Inr (map (\<lambda>m. (o1 m, target sv m)) ladder)"
    using assms by (intro map_result_total) (simp add: explain_one_ok o1_def)
  then have e: "Explain sv ladder c d = Inr (map o1 (sort_key (target sv) ladder))"
    by (simp add: Explain_def sort_key_map)
  have fires: "out_Fires (o1 m) = crosses sv c d m" "out_Migration (o1 m) = m" for m
    by (simp_all add: out_Fires_def o1_def)
  have "filter out_Fires (map o1 xs) = map o1 (filter (crosses sv c d) xs)" for xs
    by (simp add: filter_map o_def fires)
  then show ?thesis
    by (simp add: Select_def e o_def fires filter_sort)
qed

lemma SelectDown_eq:
  assumes "\<forall>m\<in>set ladder. well_parsed sv m"
  shows "SelectDown sv ladder c d = Inr (sort_desc (target sv) (filter (crosses_down sv c d) ladder))"
proof -
  have "map_result (score sv) ladder = Inr (map (\<lambda>m. (m, target sv m)) ladder)"
    using assms by (intro map_result_total) (auto simp: score_def well_parsed_def target_def)
  then show ?thesis
    by (simp add: SelectDown_def filter_map o_def sort_desc_map crosses_down_def [abs_def] not_less)
qed

lemma crosses_split:
  assumes "c \<le> mid" "mid \<le> d" "mig_From m = []"
  shows "(crosses sv c d m \<and> target sv m \<le> mid) = crosses sv c mid m"
    "(crosses sv c d m \<and> mid < target sv m) = crosses sv mid d m"
  using assms by (auto simp: crosses_def admits_def)


section \<open>Properties\<close>

text \<open>A validated ladder selects. Whatever the two versions, the upward selection of a ladder that
  passed validation succeeds; it holds exactly the migrations whose target is above the current and not
  above the desired version and whose constraint admits the current one, by ascending target and in
  ladder order at equal targets. The downward selection holds exactly the migrations whose target is
  above the desired and not above the current version, by descending target. Migration names are
  distinct, and so are the action names of each direction.\<close>

theorem validated_ladder_selects:
  assumes "ValidateLadder sv ladder = Inr ()"
  shows "(\<exists>ms. Select sv ladder c d = Inr ms \<and> mset ms = mset (filter (crosses sv c d) ladder) \<and>
      sorted (map (target sv) ms) \<and>
      (\<forall>v. filter (\<lambda>m. target sv m = v) ms = filter (\<lambda>m. target sv m = v) (filter (crosses sv c d) ladder))) \<and>
    (\<exists>ms. SelectDown sv ladder c d = Inr ms \<and> mset ms = mset (filter (crosses_down sv c d) ladder) \<and>
      sorted (rev (map (target sv) ms))) \<and>
    distinct (map mig_Name ladder) \<and>
    (\<forall>m\<in>set ladder. distinct (map act_Name (mig_Actions m)) \<and> distinct (map act_Name (mig_Down m)))"
proof (intro conjI)
  note parsed = ValidateLadder_ok(3) [OF assms]
  show "\<exists>ms. Select sv ladder c d = Inr ms \<and> mset ms = mset (filter (crosses sv c d) ladder) \<and>
      sorted (map (target sv) ms) \<and>
      (\<forall>v. filter (\<lambda>m. target sv m = v) ms = filter (\<lambda>m. target sv m = v) (filter (crosses sv c d) ladder))"
    unfolding Select_eq [OF parsed] by (auto simp: sort_key_stable)
  show "\<exists>ms. SelectDown sv ladder c d = Inr ms \<and> mset ms = mset (filter (crosses_down sv c d) ladder) \<and>
      sorted (rev (map (target sv) ms))"
    unfolding SelectDown_eq [OF parsed] by (auto simp: sort_desc_def rev_map)
  show "distinct (map mig_Name ladder)" by (rule ValidateLadder_ok(2) [OF assms])
  show "\<forall>m\<in>set ladder. distinct (map act_Name (mig_Actions m)) \<and> distinct (map act_Name (mig_Down m))"
    using ValidateLadder_ok(1) [OF assms] ValidateMigration_ok by blast
qed

text \<open>A ladder over versions written as one number.\<close>

definition digit_semver :: "nat semver" where
  "digit_semver = \<lparr>sv_NewVersion = (\<lambda>s. if s = ''1'' then Some 1 else if s = ''2'' then Some 2
       else if s = ''3'' then Some 3 else None),
     sv_StrictNewVersion = (\<lambda>s. if s = ''1'' then Some 1 else None),
     sv_NewConstraint = (\<lambda>s. if s = ''>=1'' then Some (\<lambda>v. 1 \<le> v) else None), sv_Major = (\<lambda>v. v)\<rparr>"

definition plain_action :: "string \<Rightarrow> Action" where
  "plain_action name =
     \<lparr>act_Name = name, act_Scope = ScopeUnset, act_Timeout = None, act_Retries = None, act_Patch = None,
      act_HTTP = None, act_Wait = Some \<lparr>wa_Duration = Some 1, wa_Target = None, wa_Expr = [], wa_Timeout = None\<rparr>,
      act_Job = None, act_Delete = None, act_Apply = None, act_CompletionAnchor = None\<rparr>"

definition plain_migration :: "string \<Rightarrow> string \<Rightarrow> Migration" where
  "plain_migration name to = \<lparr>mig_Name = name, mig_To = to, mig_From = [], mig_Stage = [],
     mig_Actions = [plain_action ''up''], mig_Down = [plain_action ''down'']\<rparr>"

definition demo_ladder :: "Migration list" where
  "demo_ladder = [plain_migration ''split'' ''3'', plain_migration ''rename'' ''2'']"

lemma demo_ladder_valid: "ValidateLadder digit_semver demo_ladder = Inr ()"
  by code_simp

lemma demo_crosses: "filter (crosses digit_semver 1 3) demo_ladder = demo_ladder"
  by code_simp

theorem validated_ladder_selects_witness:
  "\<exists>ms. Select digit_semver demo_ladder 1 3 = Inr ms \<and> mset ms = mset demo_ladder"
  using validated_ladder_selects [OF demo_ladder_valid, of 1 3] unfolding demo_crosses by blast

text \<open>A transition in steps runs what the transition in one runs. On a validated ladder whose
  migrations carry no constraint, the upward selection from one version to another is the selection up
  to any version between them followed by the selection from there: no migration is left out, repeated
  or reordered.\<close>

theorem select_composes:
  assumes "ValidateLadder sv ladder = Inr ()" "\<forall>m\<in>set ladder. mig_From m = []" "c \<le> mid" "mid \<le> d"
  shows "Select sv ladder c d =
    bind_result (Select sv ladder c mid) (\<lambda>ms. bind_result (Select sv ladder mid d) (\<lambda>ms'. Inr (ms @ ms')))"
proof -
  note parsed = ValidateLadder_ok(3) [OF assms(1)]
  have "filter (\<lambda>m. target sv m \<le> mid) (filter (crosses sv c d) ladder) = filter (crosses sv c mid) ladder"
    using assms(2) crosses_split(1) [OF assms(3,4)] by (auto intro!: filter_cong)
  moreover have "filter (\<lambda>m. mid < target sv m) (filter (crosses sv c d) ladder) = filter (crosses sv mid d) ladder"
    using assms(2) crosses_split(2) [OF assms(3,4)] by (auto intro!: filter_cong)
  ultimately show ?thesis
    unfolding Select_eq [OF parsed] bind_result_Inr
    using sort_key_split_at [of "target sv" "filter (crosses sv c d) ladder" mid] by simp
qed

theorem select_composes_witness:
  "Select digit_semver demo_ladder 1 3 =
    bind_result (Select digit_semver demo_ladder 1 2)
      (\<lambda>ms. bind_result (Select digit_semver demo_ladder 2 3) (\<lambda>ms'. Inr (ms @ ms')))"
proof (rule select_composes [OF demo_ladder_valid])
  show "\<forall>m\<in>set demo_ladder. mig_From m = []" by (simp add: demo_ladder_def plain_migration_def)
qed simp_all

text \<open>A downgrade unwinds the upgrade. On a validated ladder with distinct targets and no
  constraint, the downward selection back to the starting version is the upward selection reversed.\<close>

theorem downgrade_mirrors_upgrade:
  assumes "ValidateLadder sv ladder = Inr ()" "\<forall>m\<in>set ladder. mig_From m = []"
    and "distinct (map (target sv) ladder)"
  shows "SelectDown sv ladder d c = bind_result (Select sv ladder c d) (\<lambda>ms. Inr (rev ms))"
proof -
  note parsed = ValidateLadder_ok(3) [OF assms(1)]
  have "filter (crosses sv c d) ladder = filter (crosses_down sv d c) ladder"
    using assms(2) by (auto simp: crosses_def crosses_down_def admits_def intro!: filter_cong)
  moreover have "inj_on (target sv) (set (filter (crosses_down sv d c) ladder))"
    using assms(3) by (auto simp: distinct_map intro: inj_on_subset)
  ultimately show ?thesis
    by (simp add: Select_eq [OF parsed] SelectDown_eq [OF parsed] sort_desc_inj)
qed

theorem downgrade_mirrors_upgrade_witness:
  "SelectDown digit_semver demo_ladder 3 1 = bind_result (Select digit_semver demo_ladder 1 3) (\<lambda>ms. Inr (rev ms))"
proof (rule downgrade_mirrors_upgrade [OF demo_ladder_valid])
  show "\<forall>m\<in>set demo_ladder. mig_From m = []" by (simp add: demo_ladder_def plain_migration_def)
  show "distinct (map (target digit_semver) demo_ladder)" by code_simp
qed

end
