(* ===== verification/Artifact.thy ===== *)
theory Artifact
  imports Types Decimal
begin

text \<open>
  Source artifacts (\<open>internal/artifact\<close>): resolving a source reference to a ready artifact
  (\<open>resolver.go\<close>) and fetching it (\<open>fetcher.go\<close>): digest check, size caps and the paths of the extracted
  entries. A source object is the part of its unstructured content the resolver reads; the API reader,
  the HTTP body with its hash and the tar stream are parameters.
\<close>

section \<open>Source objects\<close>

record source_condition =
  sc_type :: string
  sc_status :: string
  sc_reason :: string

record artifact_fields =
  af_url :: string
  af_digest :: string
  af_revision :: string

record back_pointer =
  bp_apiVersion :: string
  bp_kind :: string
  bp_name :: string

text \<open>
  \<open>xo_Conditions\<close>: \<open>None\<close> when absent or not a list, an element \<open>None\<close> when it is not a map. \<open>xo_Artifact\<close>:
  \<open>Inl\<close> when malformed. A missing or mistyped string reads as the empty string.
\<close>

record source_object =
  xo_Kind :: string
  xo_Namespace :: string
  xo_Name :: string
  xo_RefDigest :: string
  xo_RefCommit :: string
  xo_Conditions :: "source_condition option list option"
  xo_Artifact :: "unit + artifact_fields option"
  xo_SourceRef :: "back_pointer option"

record ResolvedArtifact =
  ra_Namespace :: string
  ra_Name :: string
  ra_URL :: string
  ra_Revision :: string
  ra_Digest :: string
  ra_Verified :: "bool option"
  ra_Pinned :: "bool option"

definition Key :: "ResolvedArtifact \<Rightarrow> string" where
  "Key a = ra_Namespace a @ ''/'' @ ra_Name a"

text \<open>An API call fails with an error of which the code only asks whether it is permanent.\<close>

record api_reader =
  rd_get :: "string \<Rightarrow> string \<Rightarrow> string \<Rightarrow> string \<Rightarrow> bool + source_object option"
  rd_list :: "string \<Rightarrow> bool + source_object list"

datatype resolve_error =
    ErrSourceNotReady | ErrArtifactMissing | ErrArtifactNotFound | ErrAmbiguousProducer
  | ErrProducerAPIVersionRequired | ErrCrossNamespaceForbidden | ErrReadArtifact | ErrSourceAPI bool

section \<open>Resolution (resolver.go)\<close>

definition externalArtifactGroup :: string where
  "externalArtifactGroup = ''source.toolkit.fluxcd.io''"

definition externalArtifactKind :: string where
  "externalArtifactKind = ''ExternalArtifact''"

definition groupOf :: "string \<Rightarrow> string" where
  "groupOf apiVersion = (case cut (CHR ''/'') apiVersion of (before, _, found) \<Rightarrow> if found then before else [])"

definition directSourceKinds :: "string set" where
  "directSourceKinds = {''GitRepository'', ''OCIRepository'', ''Bucket''}"

definition isDirectSourceKind :: "SourceReference \<Rightarrow> bool" where
  "isDirectSourceKind ref \<longleftrightarrow>
     src_Kind ref \<in> directSourceKinds \<and>
     (groupOf (src_APIVersion ref) = [] \<or> groupOf (src_APIVersion ref) = externalArtifactGroup)"

definition IsProducerRef :: "SourceReference \<Rightarrow> bool" where
  "IsProducerRef ref \<longleftrightarrow>
     src_Kind ref \<noteq> [] \<and> src_Kind ref \<noteq> externalArtifactKind \<and> \<not> isDirectSourceKind ref"

definition getDirectSource :: "api_reader \<Rightarrow> SourceReference \<Rightarrow> string \<Rightarrow> string \<Rightarrow> resolve_error + source_object" where
  "getDirectSource c ref ns kind =
     (let apiVersion = (if src_APIVersion ref = [] then externalArtifactGroup @ ''/v1'' else src_APIVersion ref) in
      case rd_get c apiVersion kind ns (src_Name ref) of
        Inl permanent \<Rightarrow> Inl (ErrSourceAPI permanent)
      | Inr None \<Rightarrow> Inl ErrArtifactNotFound
      | Inr (Some u) \<Rightarrow> Inr u)"

definition back_references :: "SourceReference \<Rightarrow> source_object \<Rightarrow> bool" where
  "back_references ref item \<longleftrightarrow>
     (case xo_SourceRef item of
        None \<Rightarrow> False
      | Some sr \<Rightarrow> bp_kind sr = src_Kind ref \<and> bp_name sr = src_Name ref \<and>
          groupOf (bp_apiVersion sr) = groupOf (src_APIVersion ref))"

definition resolveProducer :: "api_reader \<Rightarrow> SourceReference \<Rightarrow> string \<Rightarrow> resolve_error + source_object" where
  "resolveProducer c ref ns =
     (if src_APIVersion ref = [] then Inl ErrProducerAPIVersionRequired
      else (case rd_list c ns of
          Inl permanent \<Rightarrow> Inl (ErrSourceAPI permanent)
        | Inr items \<Rightarrow>
            (case filter (back_references ref) items of
               [] \<Rightarrow> Inl ErrArtifactNotFound
             | [item] \<Rightarrow> Inr item
             | _ \<Rightarrow> Inl ErrAmbiguousProducer)))"

text \<open>The first condition of the type, malformed entries skipped.\<close>

definition condition_of :: "string \<Rightarrow> source_object \<Rightarrow> source_condition option" where
  "condition_of ty obj =
     (case xo_Conditions obj of
        None \<Rightarrow> None
      | Some conds \<Rightarrow> find (\<lambda>c. sc_type c = ty) (List.map_filter (\<lambda>c. c) conds))"

definition readyState :: "source_object \<Rightarrow> bool" where
  "readyState obj = (case condition_of ''Ready'' obj of Some c \<Rightarrow> sc_status c = ''True'' | None \<Rightarrow> False)"

definition verifiedState :: "source_object \<Rightarrow> bool option" where
  "verifiedState obj = map_option (\<lambda>c. sc_status c = ''True'') (condition_of ''SourceVerified'' obj)"

definition pinnedState :: "source_object \<Rightarrow> bool option" where
  "pinnedState obj =
     (if xo_Kind obj = ''OCIRepository'' then Some (xo_RefDigest obj \<noteq> [])
      else if xo_Kind obj = ''GitRepository'' then Some (xo_RefCommit obj \<noteq> [])
      else if xo_Kind obj = ''Bucket'' then Some False
      else None)"

definition readArtifact :: "source_object \<Rightarrow> resolve_error + artifact_fields" where
  "readArtifact obj =
     (case xo_Artifact obj of
        Inl _ \<Rightarrow> Inl ErrReadArtifact
      | Inr None \<Rightarrow> Inl ErrArtifactMissing
      | Inr (Some m) \<Rightarrow> if af_url m = [] \<or> af_digest m = [] then Inl ErrArtifactMissing else Inr m)"

definition Resolve :: "api_reader \<Rightarrow> bool \<Rightarrow> SourceReference \<Rightarrow> string \<Rightarrow> resolve_error + ResolvedArtifact" where
  "Resolve c noCrossNamespace ref ownerNS =
     (let ns = (if src_Namespace ref = [] then ownerNS else src_Namespace ref);
          kind = (if src_Kind ref = [] then externalArtifactKind else src_Kind ref)
      in if ns \<noteq> ownerNS \<and> noCrossNamespace then Inl ErrCrossNamespaceForbidden
         else bind_result
           (if kind = externalArtifactKind then getDirectSource c ref ns externalArtifactKind
            else if isDirectSourceKind ref then getDirectSource c ref ns kind
            else resolveProducer c ref ns)
           (\<lambda>ea. if \<not> readyState ea then Inl ErrSourceNotReady
             else bind_result (readArtifact ea) (\<lambda>m. Inr
               \<lparr>ra_Namespace = xo_Namespace ea, ra_Name = xo_Name ea, ra_URL = af_url m,
                ra_Revision = af_revision m, ra_Digest = af_digest m,
                ra_Verified = verifiedState ea, ra_Pinned = pinnedState ea\<rparr>)))"

section \<open>Paths\<close>

text \<open>Go's \<open>path.Clean\<close>: empty and dot elements dropped, a double dot takes the element before it.\<close>

fun clean_elems :: "bool \<Rightarrow> string list \<Rightarrow> string list \<Rightarrow> string list" where
  "clean_elems rooted out [] = rev out"
| "clean_elems rooted out (e # es) =
     (if e = [] \<or> e = ''.'' then clean_elems rooted out es
      else if e = ''..'' then
        (if out \<noteq> [] \<and> hd out \<noteq> ''..'' then clean_elems rooted (tl out) es
         else if rooted then clean_elems rooted out es
         else clean_elems rooted (''..'' # out) es)
      else clean_elems rooted (e # out) es)"

definition path_clean :: "string \<Rightarrow> string" where
  "path_clean p =
     (if p = [] then ''.''
      else let rooted = has_prefix p ''/'';
               elems = clean_elems rooted [] (split_on (CHR ''/'') p);
               body = join_with (CHR ''/'') elems
           in if rooted then ''/'' @ body else if elems = [] then ''.'' else body)"

definition isSafePathByte :: "char \<Rightarrow> bool" where
  "isSafePathByte b \<longleftrightarrow>
     byte_in (CHR ''a'') (CHR ''z'') b \<or> byte_in (CHR ''A'') (CHR ''Z'') b \<or> byte_in (CHR ''0'') (CHR ''9'') b \<or>
     b = CHR ''.'' \<or> b = CHR ''_'' \<or> b = CHR ''-'' \<or> b = CHR ''/''"

definition normaliseEntry :: "string \<Rightarrow> string \<Rightarrow> string option" where
  "normaliseEntry rawName prefix =
     (if rawName = [] \<or> has_prefix rawName ''/'' then None
      else if CHR 0x00 \<in> set rawName \<or> CHR 0x5C \<in> set rawName then None
      else let cleaned = path_clean rawName in
        if list_ex (\<lambda>part. part = ''..'' \<or> has_prefix part ''.'') (split_on (CHR ''/'') cleaned) then None
        else if \<not> list_all isSafePathByte cleaned then None
        else if prefix = [] then Some cleaned
        else if cleaned \<noteq> prefix \<and> \<not> has_prefix cleaned (prefix @ ''/'') then None
        else let rest = trim_prefix (trim_prefix cleaned prefix) ''/'' in
          if rest = [] then None else Some rest)"

section \<open>Fetching (fetcher.go)\<close>

datatype fetch_error =
    ErrURL | ErrHTTP | ErrForbiddenDial | ErrDigestInvalid | ErrDigestMismatch | ErrArtifactBodyTooLarge | ErrTarballTooLarge
  | ErrTarEntryTooLarge | ErrDecompressedTooLarge | ErrDuplicateEntry | ErrReadTar | ErrNegativeSize

record Fetcher =
  fe_MaxArchiveBytes :: int
  fe_MaxPerEntryBytes :: int
  fe_MaxDecompressedBytes :: int
  fe_MaxExtractedBytes :: int

definition orDefault :: "int \<Rightarrow> int \<Rightarrow> int" where
  "orDefault v d = (if v > 0 then v else d)"

definition maxArchiveBytes :: "Fetcher \<Rightarrow> int" where
  "maxArchiveBytes f = orDefault (fe_MaxArchiveBytes f) (64 * 2 ^ 20)"

definition maxPerEntryBytes :: "Fetcher \<Rightarrow> int" where
  "maxPerEntryBytes f = orDefault (fe_MaxPerEntryBytes f) (16 * 2 ^ 20)"

definition maxDecompressedBytes :: "Fetcher \<Rightarrow> int" where
  "maxDecompressedBytes f = orDefault (fe_MaxDecompressedBytes f) (512 * 2 ^ 20)"

definition maxExtractedBytes :: "Fetcher \<Rightarrow> int" where
  "maxExtractedBytes f = orDefault (fe_MaxExtractedBytes f) (64 * 2 ^ 20)"


text \<open>\<open>isHex\<close>: lower-case hexadecimal digits.\<close>

definition isHex :: "string \<Rightarrow> bool" where
  "isHex s \<longleftrightarrow> list_all (\<lambda>c. byte_in (CHR ''0'') (CHR ''9'') c \<or> byte_in (CHR ''a'') (CHR ''f'') c) s"

definition verifyDigest :: "string \<Rightarrow> string \<Rightarrow> fetch_error option" where
  "verifyDigest gotHex expected =
     (case cut (CHR '':'') (to_lower (trim_space expected)) of
        (algo, want, found) \<Rightarrow>
          if \<not> found \<or> algo = [] \<or> want = [] then Some ErrDigestInvalid
          else if algo \<noteq> ''sha256'' then Some ErrDigestInvalid
          else if length want \<noteq> 64 \<or> \<not> isHex want then Some ErrDigestInvalid
          else if gotHex \<noteq> want then Some ErrDigestMismatch
          else None)"

text \<open>
  The tar stream: headers with the content behind them, a failure to read one (\<open>True\<close> when the
  decompression cap stopped it), and the end of the list for the end of the archive.
\<close>

record tar_header =
  th_Name :: string
  th_Regular :: bool
  th_Size :: int

datatype tar_step = TarEntry tar_header "bool + string" | TarError bool

definition read_error :: "bool \<Rightarrow> fetch_error" where
  "read_error capped = (if capped then ErrDecompressedTooLarge else ErrReadTar)"

fun extract_loop ::
  "Fetcher \<Rightarrow> string \<Rightarrow> (string \<times> string) list \<Rightarrow> int \<Rightarrow> tar_step list \<Rightarrow> fetch_error + (string \<times> string) list" where
  "extract_loop f prefix files sum0 [] = Inr files"
| "extract_loop f prefix files sum0 (TarError capped # steps) = Inl (read_error capped)"
| "extract_loop f prefix files sum0 (TarEntry hdr content # steps) =
     (if \<not> th_Regular hdr then extract_loop f prefix files sum0 steps
      else (case normaliseEntry (th_Name hdr) prefix of
          None \<Rightarrow> extract_loop f prefix files sum0 steps
        | Some name \<Rightarrow>
            if name \<in> fst ` set files then Inl ErrDuplicateEntry
            else if th_Size hdr < 0 then Inl ErrNegativeSize
            else if th_Size hdr > maxPerEntryBytes f then Inl ErrTarEntryTooLarge
            else if th_Size hdr > wrap64 (maxExtractedBytes f - sum0) then Inl ErrTarballTooLarge
            else (case content of
                Inl capped \<Rightarrow> Inl (read_error capped)
              | Inr bytes \<Rightarrow>
                  let body = take (nat (wrap64 (maxPerEntryBytes f + 1))) bytes;
                      sum1 = wrap64 (sum0 + int (length body))
                  in if int (length body) > maxPerEntryBytes f then Inl ErrTarEntryTooLarge
                     else if sum1 > maxExtractedBytes f then Inl ErrTarballTooLarge
                     else extract_loop f prefix (files @ [(name, body)]) sum1 steps)))"

definition extract_prefix :: "string \<Rightarrow> string" where
  "extract_prefix pathPrefix =
     (let prefix = path_clean (trim_suffix pathPrefix ''/'')
      in if prefix = ''.'' \<or> prefix = ''/'' then [] else prefix)"

definition extract_tar :: "Fetcher \<Rightarrow> string \<Rightarrow> tar_step list \<Rightarrow> fetch_error + (string \<times> string) list" where
  "extract_tar f pathPrefix steps = extract_loop f (extract_prefix pathPrefix) [] 0 steps"

text \<open>
  \<open>download\<close> is the response body, or the failed request (a refused dial, a bad status); \<open>sha256\<close> the hex digest of what was buffered;
  \<open>untar\<close> opens the gzip stream.
\<close>

definition downloadToTemp ::
  "Fetcher \<Rightarrow> (string \<Rightarrow> string) \<Rightarrow> fetch_error + string \<Rightarrow> fetch_error + string \<times> string" where
  "downloadToTemp f sha256 response =
     (case response of
        Inl e \<Rightarrow> Inl e
      | Inr body \<Rightarrow>
          let buffered = take (nat (wrap64 (maxArchiveBytes f + 1))) body in
          if int (length buffered) > maxArchiveBytes f then Inl ErrArtifactBodyTooLarge
          else Inr (buffered, sha256 buffered))"

definition Fetch ::
  "Fetcher \<Rightarrow> (string \<Rightarrow> bool) \<Rightarrow> (string \<Rightarrow> fetch_error + string) \<Rightarrow> (string \<Rightarrow> string) \<Rightarrow> (string \<Rightarrow> fetch_error + tar_step list)
   \<Rightarrow> string \<Rightarrow> string \<Rightarrow> string \<Rightarrow> fetch_error + (string \<times> string) list" where
  "Fetch f url_ok download sha256 untar url expectedDigest pathPrefix =
     (if \<not> url_ok url then Inl ErrURL
      else bind_result (downloadToTemp f sha256 (download url))
        (\<lambda>(tmp, gotHex). (case verifyDigest gotHex expectedDigest of
            Some e \<Rightarrow> Inl e
          | None \<Rightarrow> bind_result (untar tmp) (extract_tar f pathPrefix))))"

section \<open>Safe paths\<close>

text \<open>A relative path whose elements are non-empty and do not start with a dot.\<close>

definition safe_path :: "string \<Rightarrow> bool" where
  "safe_path p \<longleftrightarrow> list_all isSafePathByte p \<and>
     (\<forall>e\<in>set (split_on (CHR ''/'') p). e \<noteq> [] \<and> hd e \<noteq> CHR ''.'')"

lemma split_on_snoc_sep: "split_on c (a @ c # b) = split_on c a @ split_on c b"
proof (induction a)
  case (Cons x a)
  then show ?case by (cases "split_on c a") auto
qed simp

lemma clean_elems_parts:
  "\<forall>e\<in>set out \<union> set es. CHR ''/'' \<notin> set e \<Longrightarrow> \<forall>e\<in>set out. e \<noteq> [] \<and> e \<noteq> ''.'' \<Longrightarrow>
   e \<in> set (clean_elems rooted out es) \<Longrightarrow> e \<noteq> [] \<and> e \<noteq> ''.'' \<and> CHR ''/'' \<notin> set e"
proof (induction rooted out es rule: clean_elems.induct)
  case (2 rooted out e' es)
  note prems = "2.prems" and IH = "2.IH"
  show ?case
  proof (cases "e' = [] \<or> e' = ''.''")
    case True
    then show ?thesis using IH(1) [OF True] prems by simp
  next
    case skip: False
    show ?thesis
    proof (cases "e' = ''..''")
      case up: True
      show ?thesis
      proof (cases "out \<noteq> [] \<and> hd out \<noteq> ''..''")
        case True
        have sub: "set (tl out) \<subseteq> set out" by (cases out) auto
        have "\<forall>e\<in>set (tl out) \<union> set es. CHR ''/'' \<notin> set e" "\<forall>e\<in>set (tl out). e \<noteq> [] \<and> e \<noteq> ''.''"
          "e \<in> set (clean_elems rooted (tl out) es)"
          using prems skip up True sub by auto
        then show ?thesis by (rule IH(2) [OF skip up True])
      next
        case False
        then show ?thesis using IH(3) [OF skip up False] IH(4) [OF skip up False] prems skip up
          by (cases rooted) (simp_all split: if_splits)
      qed
    next
      case False
      then show ?thesis using IH(5) [OF skip False] prems skip by simp
    qed
  qed
qed auto

lemma path_clean_relative:
  assumes "p \<noteq> []" "\<not> has_prefix p ''/''"
  shows "path_clean p = ''.'' \<or> (\<exists>es. es \<noteq> [] \<and> path_clean p = join_with (CHR ''/'') es \<and>
    split_on (CHR ''/'') (path_clean p) = es \<and> (\<forall>e\<in>set es. e \<noteq> []))"
proof -
  define es where "es = clean_elems False [] (split_on (CHR ''/'') p)"
  have parts: "\<forall>e\<in>set es. e \<noteq> [] \<and> CHR ''/'' \<notin> set e"
    using clean_elems_parts [of "[]" "split_on (CHR ''/'') p" _ False] split_on_parts
    by (fastforce simp: es_def)
  show ?thesis
  proof (cases "es = []")
    case True
    then show ?thesis using assms by (simp add: path_clean_def es_def Let_def)
  next
    case False
    then have "path_clean p = join_with (CHR ''/'') es"
      using assms by (simp add: path_clean_def es_def Let_def)
    moreover have "split_on (CHR ''/'') (join_with (CHR ''/'') es) = es"
      using False parts by (intro split_join) auto
    ultimately show ?thesis using False parts by auto
  qed
qed


lemma normaliseEntry_safe:
  assumes "normaliseEntry raw prefix = Some name"
  shows "safe_path name"
proof -
  define cl where "cl = path_clean raw"
  have raw: "raw \<noteq> []" "\<not> has_prefix raw ''/''"
    and dots: "\<not> list_ex (\<lambda>part. part = ''..'' \<or> has_prefix part ''.'') (split_on (CHR ''/'') cl)"
    and bytes: "list_all isSafePathByte cl"
    and rest: "(if prefix = [] then Some cl
        else if cl \<noteq> prefix \<and> \<not> has_prefix cl (prefix @ ''/'') then None
        else let rest = trim_prefix (trim_prefix cl prefix) ''/'' in if rest = [] then None else Some rest) = Some name"
    using assms by (auto simp: normaliseEntry_def Let_def cl_def split: if_splits)
  from path_clean_relative [OF raw] dots have parts: "\<forall>e\<in>set (split_on (CHR ''/'') cl). e \<noteq> []"
    by (auto simp: cl_def [symmetric] has_prefix_def)
  have nodot: "\<forall>e\<in>set (split_on (CHR ''/'') cl). hd e \<noteq> CHR ''.''"
  proof
    fix e assume e: "e \<in> set (split_on (CHR ''/'') cl)"
    then have "\<not> has_prefix e ''.''" "e \<noteq> []" using dots parts by (auto simp: list_ex_iff)
    then show "hd e \<noteq> CHR ''.''" by (cases e) (auto simp: has_prefix_def)
  qed
  have whole: "safe_path cl" using parts nodot bytes by (simp add: safe_path_def)
  show ?thesis
  proof (cases "prefix = []")
    case True
    then show ?thesis using rest whole by simp
  next
    case False
    then have r: "trim_prefix (trim_prefix cl prefix) ''/'' = name" "name \<noteq> []"
      and p: "cl = prefix \<or> has_prefix cl (prefix @ ''/'')"
      using rest by (auto simp: Let_def split: if_splits)
    have "cl \<noteq> prefix"
    proof
      assume "cl = prefix"
      then have "name = []" using r(1) trim_prefix_append [of prefix "[]"] by (simp add: trim_prefix_def has_prefix_def)
      with r(2) show False ..
    qed
    then obtain t where "cl = (prefix @ ''/'') @ t" using p has_prefixE by blast
    then have t: "cl = prefix @ (''/'' @ t)" by simp
    then have "name = t" using r(1) trim_prefix_append [of prefix "''/'' @ t"] trim_prefix_append [of "''/''" t] by simp
    then show ?thesis
      using whole t split_on_snoc_sep [of "CHR ''/''" prefix t] by (auto simp: safe_path_def)
  qed
qed

section \<open>What an extraction holds\<close>

definition sizes :: "(string \<times> string) list \<Rightarrow> int" where
  "sizes files = sum_list (map (\<lambda>f. int (length (snd f))) files)"

text \<open>The files a stream holds: its regular entries under the prefix.\<close>

fun entries_of :: "string \<Rightarrow> tar_step list \<Rightarrow> (string \<times> string) list" where
  "entries_of prefix [] = []"
| "entries_of prefix (TarEntry hdr (Inr bytes) # steps) =
     (if th_Regular hdr then
        (case normaliseEntry (th_Name hdr) prefix of Some name \<Rightarrow> [(name, bytes)] | None \<Rightarrow> [])
      else []) @ entries_of prefix steps"
| "entries_of prefix (_ # steps) = entries_of prefix steps"

definition caps_fit :: "Fetcher \<Rightarrow> bool" where
  "caps_fit f \<longleftrightarrow> maxPerEntryBytes f < 2 ^ 62 \<and> maxExtractedBytes f < 2 ^ 62"

lemma caps_pos: "0 < maxPerEntryBytes f" "0 < maxExtractedBytes f"
  by (simp_all add: maxPerEntryBytes_def maxExtractedBytes_def orDefault_def)

definition within :: "Fetcher \<Rightarrow> (string \<times> string) list \<Rightarrow> bool" where
  "within f files \<longleftrightarrow> sizes files \<le> maxExtractedBytes f \<and> distinct (map fst files) \<and>
     (\<forall>x\<in>set files. safe_path (fst x) \<and> int (length (snd x)) \<le> maxPerEntryBytes f)"

lemma sizes_nonneg: "0 \<le> sizes files"
  by (induction files) (auto simp: sizes_def)

lemma take_all_of: "0 < k \<Longrightarrow> int (length (take (nat (k + 1)) xs)) \<le> k \<Longrightarrow> take (nat (k + 1)) xs = xs"
  by (cases "length xs \<le> nat (k + 1)") auto

lemma extract_loop_ok:
  assumes "caps_fit f"
  shows "extract_loop f prefix files sum0 steps = Inr out \<Longrightarrow> sum0 = sizes files \<Longrightarrow> within f files \<Longrightarrow>
    out = files @ entries_of prefix steps \<and> within f out"
proof (induction steps arbitrary: files sum0)
  case (Cons step steps)
  show ?case
  proof (cases step)
    case (TarError capped)
    then show ?thesis using Cons.prems(1) by simp
  next
    case step: (TarEntry hdr content)
    show ?thesis
  proof (cases "th_Regular hdr \<and> normaliseEntry (th_Name hdr) prefix \<noteq> None")
    case False
    then have "extract_loop f prefix files sum0 steps = Inr out"
      "entries_of prefix (step # steps) = entries_of prefix steps"
      using Cons.prems(1) step by (cases content; auto split: if_splits)+
    then show ?thesis using Cons.IH [of files sum0] Cons.prems(2,3) by metis
  next
    case True
    then obtain name where reg: "th_Regular hdr" and n: "normaliseEntry (th_Name hdr) prefix = Some name" by blast
    obtain bytes where c: "content = Inr bytes"
      using Cons.prems(1) step reg n by (cases content) (auto split: if_splits)
    have caps: "maxPerEntryBytes f < 2 ^ 62" "maxExtractedBytes f < 2 ^ 62"
      using assms by (simp_all add: caps_fit_def)
    have w: "wrap64 (maxPerEntryBytes f + 1) = maxPerEntryBytes f + 1"
      using caps caps_pos [of f] by (intro wrap64_id) auto
    define body where "body = take (nat (wrap64 (maxPerEntryBytes f + 1))) bytes"
    have fresh: "name \<notin> fst ` set files" and len: "int (length body) \<le> maxPerEntryBytes f"
      and sum: "wrap64 (sum0 + int (length body)) \<le> maxExtractedBytes f"
      and rest: "extract_loop f prefix (files @ [(name, body)]) (wrap64 (sum0 + int (length body))) steps = Inr out"
      using Cons.prems(1) step reg n c by (auto simp: body_def Let_def split: if_splits)
    have full: "body = bytes" using len take_all_of [OF caps_pos(1)] unfolding body_def w by blast
    have range: "0 \<le> sum0" "sum0 \<le> 2 ^ 62" using Cons.prems(2,3) sizes_nonneg caps by (auto simp: within_def)
    have s: "wrap64 (sum0 + int (length body)) = sum0 + int (length body)"
      using range len caps by (intro wrap64_id) auto
    have "within f (files @ [(name, body)])"
      using Cons.prems(2,3) fresh len sum s normaliseEntry_safe [OF n] by (auto simp: within_def sizes_def)
    moreover have "sum0 + int (length body) = sizes (files @ [(name, body)])"
      using Cons.prems(2) by (simp add: sizes_def)
    ultimately have "out = (files @ [(name, body)]) @ entries_of prefix steps \<and> within f out"
      using Cons.IH [OF rest] s by metis
    then show ?thesis using step reg n c full by auto
  qed
  qed
qed simp


section \<open>Properties\<close>

text \<open>C19: what a fetch lets in. A successful fetch passed the URL check, its buffered body has the declared
  SHA-256 and fits the download cap, and the result is exactly the regular entries under the prefix, in
  archive order, at distinct relative paths without empty or dot-led elements, each within the per-entry
  cap and all together within the extraction cap; no 64-bit sum wraps.\<close>

theorem Fetch_safe:
  assumes "Fetch f url_ok download sha256 untar url digest pathPrefix = Inr files" "caps_fit f"
    and "0 < ft_cap" "maxArchiveBytes f = ft_cap" "ft_cap < 2 ^ 62"
  shows "url_ok url \<and> (\<exists>body steps. download url = Inr body \<and> int (length body) \<le> ft_cap \<and>
      to_lower (trim_space digest) = ''sha256:'' @ sha256 body \<and> untar body = Inr steps \<and>
      files = entries_of (extract_prefix pathPrefix) steps) \<and>
    distinct (map fst files) \<and> sizes files \<le> maxExtractedBytes f \<and>
    (\<forall>(name, content)\<in>set files. safe_path name \<and> int (length content) \<le> maxPerEntryBytes f)"
proof -
  have wrap: "wrap64 (maxArchiveBytes f + 1) = ft_cap + 1" using assms(3-5) by (intro trans [OF wrap64_id]) auto
  obtain tmp hex steps where ok: "url_ok url" "downloadToTemp f sha256 (download url) = Inr (tmp, hex)"
    "verifyDigest hex digest = None" "untar tmp = Inr steps" "extract_tar f pathPrefix steps = Inr files"
    using assms(1) by (auto simp: Fetch_def bind_result_eq_Inr split: if_splits option.splits)
  obtain body where body: "download url = Inr body" "tmp = take (nat (ft_cap + 1)) body" "hex = sha256 tmp"
    "int (length tmp) \<le> ft_cap"
    using ok(2) wrap by (auto simp: downloadToTemp_def assms(4) Let_def split: sum.splits if_splits)
  have full: "tmp = body" using body(2,4) take_all_of [OF assms(3), of body] by simp
  have d: "to_lower (trim_space digest) = ''sha256:'' @ sha256 body"
  proof -
    obtain algo want found where c: "cut (CHR '':'') (to_lower (trim_space digest)) = (algo, want, found)"
      by (metis prod_cases3)
    with ok(3) have "found" "algo = ''sha256''" "want = hex" by (auto simp: verifyDigest_def split: if_splits)
    with cut_found [of "CHR '':''" "to_lower (trim_space digest)" algo want] c body(3) full show ?thesis by simp
  qed
  have "within f []" using caps_pos [of f] by (simp add: within_def sizes_def)
  from extract_loop_ok [OF assms(2) ok(5) [unfolded extract_tar_def] _ this]
  have "files = entries_of (extract_prefix pathPrefix) steps" "within f files" by (auto simp: sizes_def)
  then show ?thesis
    using ok(1,4) body(1,4) full d by (auto simp: within_def case_prod_unfold)
qed

definition demo_fetcher :: Fetcher where
  "demo_fetcher = \<lparr>fe_MaxArchiveBytes = 100, fe_MaxPerEntryBytes = 10, fe_MaxDecompressedBytes = 0, fe_MaxExtractedBytes = 20\<rparr>"

definition demo_tar :: "tar_step list" where
  "demo_tar = [TarEntry \<lparr>th_Name = ''app/./web.yaml'', th_Regular = True, th_Size = 2\<rparr> (Inr ''ok''),
     TarEntry \<lparr>th_Name = ''app/../../etc'', th_Regular = True, th_Size = 1\<rparr> (Inr ''x'')]"

definition demo_hash :: string where
  "demo_hash = replicate 64 (CHR ''a'')"

theorem Fetch_safe_witness:
  "\<exists>files. Fetch demo_fetcher (\<lambda>_. True) (\<lambda>_. Inr ''tgz'') (\<lambda>_. demo_hash) (\<lambda>_. Inr demo_tar) ''u''
      (''sha256:'' @ demo_hash) ''app'' = Inr files \<and> distinct (map fst files)"
proof -
  have "Fetch demo_fetcher (\<lambda>_. True) (\<lambda>_. Inr ''tgz'') (\<lambda>_. demo_hash) (\<lambda>_. Inr demo_tar) ''u''
      (''sha256:'' @ demo_hash) ''app'' = Inr [(''web.yaml'', ''ok'')]"
    by code_simp
  moreover have "caps_fit demo_fetcher" "maxArchiveBytes demo_fetcher = 100"
    by (simp_all add: caps_fit_def maxPerEntryBytes_def maxExtractedBytes_def maxArchiveBytes_def orDefault_def demo_fetcher_def)
  ultimately show ?thesis
    using Fetch_safe [where ft_cap = 100, THEN conjunct2, THEN conjunct1] by fastforce
qed

text \<open>Resolution. A resolved artifact comes from a source object in the reference's namespace that is
  Ready and has a URL and a digest; with cross-namespace references forbidden it is the owner's
  namespace. A producer reference resolves only when it names an API group version and exactly one
  artifact of the namespace points back at it, whatever the version of its group; a source that carries
  its own artifact is looked up by kind and name. A failed verification and an unpinned source are
  reported as such.\<close>

theorem Resolve_exact:
  assumes "\<forall>v k n m o'. rd_get c v k n m = Inr (Some o') \<longrightarrow> xo_Namespace o' = n \<and> xo_Kind o' = k \<and> xo_Name o' = m"
    and "\<forall>n os. rd_list c n = Inr os \<longrightarrow> (\<forall>o'\<in>set os. xo_Namespace o' = n)"
    and "Resolve c noCross ref owner = Inr art"
  shows "\<exists>ea m. ra_Namespace art = (if src_Namespace ref = [] then owner else src_Namespace ref) \<and>
      (noCross \<longrightarrow> ra_Namespace art = owner) \<and> readyState ea \<and> xo_Artifact ea = Inr (Some m) \<and>
      ra_URL art = af_url m \<and> ra_URL art \<noteq> [] \<and> ra_Digest art = af_digest m \<and> ra_Digest art \<noteq> [] \<and>
      ra_Name art = xo_Name ea \<and> ra_Namespace art = xo_Namespace ea \<and>
      (if IsProducerRef ref
       then src_APIVersion ref \<noteq> [] \<and>
         (\<exists>items. rd_list c (ra_Namespace art) = Inr items \<and> filter (back_references ref) items = [ea])
       else ra_Name art = src_Name ref) \<and>
      (ra_Verified art = Some False \<longleftrightarrow> (\<exists>k. condition_of ''SourceVerified'' ea = Some k \<and> sc_status k \<noteq> ''True'')) \<and>
      (ra_Pinned art = Some False \<longrightarrow> xo_RefDigest ea = [] \<or> xo_RefCommit ea = [] \<or> xo_Kind ea = ''Bucket'')"
proof -
  let ?ns = "if src_Namespace ref = [] then owner else src_Namespace ref"
  let ?kind = "if src_Kind ref = [] then externalArtifactKind else src_Kind ref"
  define found where "found =
    (if ?kind = externalArtifactKind then getDirectSource c ref ?ns externalArtifactKind
     else if isDirectSourceKind ref then getDirectSource c ref ?ns ?kind
     else resolveProducer c ref ?ns)"
  obtain ea m where ea: "found = Inr ea" "readyState ea" "readArtifact ea = Inr m"
    and cross: "\<not> (?ns \<noteq> owner \<and> noCross)"
    and art: "art = \<lparr>ra_Namespace = xo_Namespace ea, ra_Name = xo_Name ea, ra_URL = af_url m,
       ra_Revision = af_revision m, ra_Digest = af_digest m, ra_Verified = verifiedState ea, ra_Pinned = pinnedState ea\<rparr>"
    using assms(3) by (auto simp: Resolve_def Let_def found_def [symmetric] bind_result_eq_Inr split: if_splits)
  have producer: "IsProducerRef ref \<longleftrightarrow> ?kind \<noteq> externalArtifactKind \<and> \<not> isDirectSourceKind ref"
    by (auto simp: IsProducerRef_def)
  have direct: "xo_Namespace ea = ?ns \<and> xo_Name ea = src_Name ref" if "\<not> IsProducerRef ref"
    using that ea(1) assms(1) unfolding producer found_def
    by (auto simp: getDirectSource_def Let_def split: if_splits sum.splits option.splits)
  have bptr: "src_APIVersion ref \<noteq> [] \<and> xo_Namespace ea = ?ns \<and>
      (\<exists>items. rd_list c ?ns = Inr items \<and> filter (back_references ref) items = [ea])" if "IsProducerRef ref"
  proof -
    have "resolveProducer c ref ?ns = Inr ea" using that ea(1) unfolding producer found_def by simp
    then obtain items where "src_APIVersion ref \<noteq> []" "rd_list c ?ns = Inr items" "filter (back_references ref) items = [ea]"
      by (auto simp: resolveProducer_def split: if_splits sum.splits list.splits)
    moreover have "xo_Namespace ea = ?ns"
    proof -
      have "ea \<in> set (filter (back_references ref) items)" unfolding calculation(3) by simp
      then show ?thesis using assms(2) calculation(2) by auto
    qed
    ultimately show ?thesis by blast
  qed
  have m: "xo_Artifact ea = Inr (Some m)" "af_url m \<noteq> []" "af_digest m \<noteq> []"
    using ea(3) by (auto simp: readArtifact_def split: sum.splits option.splits if_splits)
  show ?thesis
    using direct bptr m ea(2) cross
    by (intro exI [of _ ea] exI [of _ m])
      (auto simp: art verifiedState_def pinnedState_def split: if_splits)
qed

definition demo_object :: source_object where
  "demo_object = \<lparr>xo_Kind = ''ExternalArtifact'', xo_Namespace = ''prod'', xo_Name = ''web-x'', xo_RefDigest = [],
     xo_RefCommit = [], xo_Conditions = Some [None, Some \<lparr>sc_type = ''Ready'', sc_status = ''True'', sc_reason = []\<rparr>],
     xo_Artifact = Inr (Some \<lparr>af_url = ''http://s/x'', af_digest = ''sha256:aa'', af_revision = ''r1''\<rparr>),
     xo_SourceRef = Some \<lparr>bp_apiVersion = ''jaas.metio.wtf/v1'', bp_kind = ''JsonnetSnippet'', bp_name = ''web''\<rparr>\<rparr>"

definition demo_reader :: api_reader where
  "demo_reader = \<lparr>rd_get = (\<lambda>_ _ _ _. Inr None), rd_list = (\<lambda>ns. Inr (if ns = ''prod'' then [demo_object] else []))\<rparr>"

definition producer_ref :: SourceReference where
  "producer_ref = \<lparr>src_APIVersion = ''jaas.metio.wtf/v2'', src_Kind = ''JsonnetSnippet'', src_Name = ''web'', src_Namespace = []\<rparr>"

theorem Resolve_exact_witness:
  "\<exists>art. Resolve demo_reader True producer_ref ''prod'' = Inr art \<and> ra_Namespace art = ''prod'' \<and> ra_URL art \<noteq> []"
proof -
  have "\<not> isl (Resolve demo_reader True producer_ref ''prod'')" by code_simp
  then obtain art where r: "Resolve demo_reader True producer_ref ''prod'' = Inr art"
    by (cases "Resolve demo_reader True producer_ref ''prod''") auto
  have "\<forall>v k n m o'. rd_get demo_reader v k n m = Inr (Some o') \<longrightarrow> xo_Namespace o' = n \<and> xo_Kind o' = k \<and> xo_Name o' = m"
    "\<forall>n os. rd_list demo_reader n = Inr os \<longrightarrow> (\<forall>o'\<in>set os. xo_Namespace o' = n)"
    by (auto simp: demo_reader_def demo_object_def)
  from Resolve_exact [OF this r] r show ?thesis by auto
qed

end
