(* ===== verification/Migrations.thy ===== *)
theory Migrations
  imports Ladder Artifact ActionRunner
begin

text \<open>
  Versioned migrations in the controller (\<open>internal/controller/migrations.go\<close>,
  \<open>migration_approval.go\<close>): loading the ladder, the plan of a transition up or down, anchoring
  migrations to stages, the approval gate, and running a plan's migrations with their two ledgers
  (whole migrations, single actions). The desired version is read from the spec, from a file of an
  artifact or from a field of a rendered object. Fetching, rendering, JSONPath, YAML and the content
  digest of a migration are parameters.
\<close>

section \<open>Statuses and plans\<close>

text \<open>The version fields of \<open>StageSetStatus\<close>.\<close>

record version_status =
  vst_Version :: string
  vst_ExecutedMigrations :: "string list"
  vst_ExecutedMigrationActions :: "string list"
  vst_PendingMigrations :: "PendingMigration list"
  vst_PendingVersion :: string
  vst_MigrationFailureCount :: int

record migrationPlan =
  mp_versionSet :: bool
  mp_desired :: string
  mp_baseline :: bool
  mp_downgrade :: bool
  mp_pending :: "Migration list"
  mp_byStage :: "string \<Rightarrow> Migration list"
  mp_sourceRevision :: string
  mp_sourceDigest :: string

definition zero_plan :: migrationPlan where
  "zero_plan = \<lparr>mp_versionSet = False, mp_desired = [], mp_baseline = False, mp_downgrade = False,
     mp_pending = [], mp_byStage = (\<lambda>_. []), mp_sourceRevision = [], mp_sourceDigest = []\<rparr>"

datatype plan_reason =
    ReasonInvalidVersion | ReasonDowngradeNotAllowed | ReasonDowngradeRequiresMigration
  | ReasonMigrationCoverageMissing | ReasonMigrationStageNotFound | ReasonInvalidSpec | ReasonDenied
  | ReasonResolveFailed | ReasonMigrationArtifactInvalid | ReasonMigrationSourceNotVerified
  | ReasonMigrationSourceNotPinned

text \<open>A terminal failure with its reason, or a transient error the reconcile retries.\<close>

datatype plan_error = Terminal plan_reason | Transient

section \<open>Anchors\<close>

definition anchorStage :: "StageSet \<Rightarrow> string \<Rightarrow> string" where
  "anchorStage ss anchor =
     (let stages = spec_Stages (set_Spec ss) in
      if anchor = [] then (case stages of s # _ \<Rightarrow> stg_Name s | [] \<Rightarrow> [])
      else (case find (\<lambda>s. stg_MigrationAnchor s = anchor) stages of
          Some s \<Rightarrow> stg_Name s
        | None \<Rightarrow> (case find (\<lambda>s. stg_Name s = anchor) stages of Some s \<Rightarrow> stg_Name s | None \<Rightarrow> [])))"

fun resolve_anchors ::
  "StageSet \<Rightarrow> Migration list \<Rightarrow> (string \<Rightarrow> Migration list) \<Rightarrow> plan_error + (string \<Rightarrow> Migration list)" where
  "resolve_anchors ss [] byStage = Inr byStage"
| "resolve_anchors ss (m # ms) byStage =
     (let stage = anchorStage ss (mig_Stage m) in
      if stage = [] then Inl (Terminal ReasonMigrationStageNotFound)
      else resolve_anchors ss ms (byStage(stage := byStage stage @ [m])))"

definition resolveAnchors :: "StageSet \<Rightarrow> migrationPlan \<Rightarrow> plan_error + migrationPlan" where
  "resolveAnchors ss plan =
     bind_result (resolve_anchors ss (mp_pending plan) (\<lambda>_. []))
       (\<lambda>byStage. Inr (plan\<lparr>mp_byStage := byStage\<rparr>))"

definition pendingDetails :: "(Migration \<Rightarrow> string) \<Rightarrow> StageSet \<Rightarrow> migrationPlan \<Rightarrow> PendingMigration list" where
  "pendingDetails digest ss plan =
     map (\<lambda>m. \<lparr>pm_Name = mig_Name m, pm_To = mig_To m, pm_From = mig_From m,
        pm_Stage = anchorStage ss (mig_Stage m),
        pm_Actions = map Verb (if mp_downgrade plan then mig_Down m else mig_Actions m),
        pm_Digest = digest m\<rparr>) (mp_pending plan)"

section \<open>The ladder\<close>

text \<open>\<open>--require-verified-migration-sources\<close>, \<open>--require-pinned-migration-sources\<close>, \<open>--allowed-action-hosts\<close>.\<close>

record migration_flags =
  fl_RequireVerified :: bool
  fl_RequirePinned :: bool
  fl_AllowedActionHosts :: "string list"

definition ladderHasHTTP :: "Migration list \<Rightarrow> bool" where
  "ladderHasHTTP ladder \<longleftrightarrow>
     list_ex (\<lambda>m. list_ex (\<lambda>a. act_HTTP a \<noteq> None) (mig_Actions m) \<or> list_ex (\<lambda>a. act_HTTP a \<noteq> None) (mig_Down m)) ladder"

definition checkMigrationSourceVerified :: "migration_flags \<Rightarrow> ResolvedArtifact \<Rightarrow> plan_error + unit" where
  "checkMigrationSourceVerified fl ra =
     (if ra_Verified ra = Some False then Inl (Terminal ReasonMigrationSourceNotVerified)
      else if fl_RequireVerified fl \<and> ra_Verified ra = None then Inl (Terminal ReasonMigrationSourceNotVerified)
      else Inr ())"

definition checkMigrationSourcePinned :: "migration_flags \<Rightarrow> ResolvedArtifact \<Rightarrow> plan_error + unit" where
  "checkMigrationSourcePinned fl ra =
     (if ra_Pinned ra = None \<or> ra_Pinned ra = Some True then Inr ()
      else if fl_RequirePinned fl then Inl (Terminal ReasonMigrationSourceNotPinned)
      else Inr ())"

text \<open>What the errors of resolving and fetching the ladder's source mean for the plan.\<close>

definition ladder_source_error :: "resolve_error \<Rightarrow> plan_error" where
  "ladder_source_error e =
     (case e of
        ErrSourceAPI permanent \<Rightarrow> if permanent then Terminal ReasonDenied else Transient
      | ErrCrossNamespaceForbidden \<Rightarrow> Terminal ReasonResolveFailed
      | ErrAmbiguousProducer \<Rightarrow> Terminal ReasonResolveFailed
      | _ \<Rightarrow> Transient)"

definition terminalFetchError :: "fetch_error \<Rightarrow> bool" where
  "terminalFetchError e \<longleftrightarrow> e \<in> {ErrURL, ErrForbiddenDial, ErrDigestInvalid, ErrDigestMismatch,
     ErrArtifactBodyTooLarge, ErrTarballTooLarge, ErrDecompressedTooLarge, ErrDuplicateEntry}"

text \<open>A rendered object: the fields the version lookup reads; \<open>ro_VersionLabel\<close> is its version label.\<close>

record rendered_object =
  ro_Kind :: string
  ro_Name :: string
  ro_APIVersion :: string
  ro_VersionLabel :: "string option"

text \<open>Everything outside the controller that planning a transition calls.\<close>

record 'v plan_env =
  pe_semver :: "'v semver"
  pe_reader :: api_reader
  pe_fetch :: "string \<Rightarrow> string \<Rightarrow> string \<Rightarrow> fetch_error + (string \<times> string) list"
  pe_parseList :: "string \<Rightarrow> Migration list option"
  pe_parseOne :: "string \<Rightarrow> Migration option"
  pe_flags :: migration_flags
  pe_vars :: "Stage \<Rightarrow> (string \<rightharpoonup> string) option"
  pe_build :: "Stage \<Rightarrow> (string \<times> string) list \<Rightarrow> (string \<rightharpoonup> string) \<Rightarrow> rendered_object list option"
  pe_jsonpath :: "string \<Rightarrow> rendered_object \<Rightarrow> string option"

definition sourced_ladder :: "'v plan_env \<Rightarrow> StageSet \<Rightarrow> MigrationsSource \<Rightarrow> plan_error + Migration list \<times> ResolvedArtifact" where
  "sourced_ladder env ss src =
     (case Resolve (pe_reader env) True (msrc_SourceRef src) (set_Namespace ss) of
        Inl e \<Rightarrow> Inl (ladder_source_error e)
      | Inr ra \<Rightarrow>
          bind_result (checkMigrationSourceVerified (pe_flags env) ra) (\<lambda>_.
          bind_result (checkMigrationSourcePinned (pe_flags env) ra) (\<lambda>_.
          case pe_fetch env (ra_URL ra) (ra_Digest ra) (msrc_Path src) of
            Inl e \<Rightarrow> Inl (if terminalFetchError e then Terminal ReasonMigrationArtifactInvalid else Transient)
          | Inr files \<Rightarrow>
              (case ParseLadder (pe_parseList env) (pe_parseOne env) files of
                 Inl _ \<Rightarrow> Inl (Terminal ReasonMigrationArtifactInvalid)
               | Inr ladder \<Rightarrow>
                   if ValidateLadder (pe_semver env) ladder \<noteq> Inr () then Inl (Terminal ReasonMigrationArtifactInvalid)
                   else if fl_AllowedActionHosts (pe_flags env) = [] \<and> ladderHasHTTP ladder
                   then Inl (Terminal ReasonInvalidSpec)
                   else Inr (ladder, ra)))))"

definition resolveMigrationLadder ::
  "'v plan_env \<Rightarrow> StageSet \<Rightarrow> plan_error + Migration list \<times> ResolvedArtifact option" where
  "resolveMigrationLadder env ss =
     (case spec_MigrationsSourceRef (set_Spec ss) of
        None \<Rightarrow>
          if ValidateLadder (pe_semver env) (spec_Migrations (set_Spec ss)) \<noteq> Inr () then Inl (Terminal ReasonInvalidSpec)
          else Inr (spec_Migrations (set_Spec ss), None)
      | Some src \<Rightarrow> bind_result (sourced_ladder env ss src) (\<lambda>(ladder, ra). Inr (ladder, Some ra)))"

section \<open>The desired version\<close>

fun index_from :: "nat \<Rightarrow> string \<Rightarrow> Stage list \<Rightarrow> nat option" where
  "index_from i name [] = None"
| "index_from i name (s # ss) = (if stg_Name s = name then Some i else index_from (Suc i) name ss)"

definition stageIndex :: "StageSet \<Rightarrow> string \<Rightarrow> nat option" where
  "stageIndex ss name = index_from 0 name (spec_Stages (set_Spec ss))"

definition VersionStageIndex :: "StageSet \<Rightarrow> string \<Rightarrow> nat option" where
  "VersionStageIndex ss stageRef =
     (if stageRef = [] then (if spec_Stages (set_Spec ss) = [] then None else Some 0)
      else index_from 0 stageRef (spec_Stages (set_Spec ss)))"

definition FindVersionObject :: "rendered_object list \<Rightarrow> ObjectVersionRef \<Rightarrow> rendered_object option" where
  "FindVersionObject objects ref =
     find (\<lambda>x. ro_Kind x = ovr_Kind ref \<and> ro_Name x = ovr_Name ref \<and>
       (ovr_APIVersion ref = [] \<or> ro_APIVersion x = ovr_APIVersion ref)) objects"

definition ExtractVersionField :: "'v plan_env \<Rightarrow> rendered_object \<Rightarrow> string \<Rightarrow> string option" where
  "ExtractVersionField env obj fieldPath =
     (if fieldPath = [] then ro_VersionLabel obj else pe_jsonpath env fieldPath obj)"

definition invalid_version :: "plan_error + 'a" where
  "invalid_version = Inl (Terminal ReasonInvalidVersion)"

definition nonempty_version :: "string \<Rightarrow> plan_error + string" where
  "nonempty_version raw = (if trim_space raw = [] then invalid_version else Inr (trim_space raw))"

definition versionFromArtifact ::
  "'v plan_env \<Rightarrow> StageSet \<Rightarrow> ResolvedArtifact list \<Rightarrow> ArtifactVersionRef \<Rightarrow> plan_error + string" where
  "versionFromArtifact env ss resolved ref =
     (case stageIndex ss (avr_Stage ref) of
        None \<Rightarrow> invalid_version
      | Some idx \<Rightarrow>
          (case pe_fetch env (ra_URL (resolved ! idx)) (ra_Digest (resolved ! idx)) [] of
             Inl _ \<Rightarrow> Inl Transient
           | Inr files \<Rightarrow>
               (case map_of files (avr_Path ref) of
                  None \<Rightarrow> invalid_version
                | Some content \<Rightarrow> nonempty_version content)))"

definition versionFromObject ::
  "'v plan_env \<Rightarrow> StageSet \<Rightarrow> ResolvedArtifact list \<Rightarrow> ObjectVersionRef \<Rightarrow> plan_error + string" where
  "versionFromObject env ss resolved ref =
     (case VersionStageIndex ss (ovr_Stage ref) of
        None \<Rightarrow> invalid_version
      | Some idx \<Rightarrow>
          let stage = spec_Stages (set_Spec ss) ! idx; ra = resolved ! idx in
          (case pe_fetch env (ra_URL ra) (ra_Digest ra) [] of
             Inl _ \<Rightarrow> Inl Transient
           | Inr files \<Rightarrow>
               (case pe_vars env stage of
                  None \<Rightarrow> Inl Transient
                | Some vars \<Rightarrow>
                    (case pe_build env stage files vars of
                       None \<Rightarrow> invalid_version
                     | Some objects \<Rightarrow>
                         (case FindVersionObject objects ref of
                            None \<Rightarrow> invalid_version
                          | Some obj \<Rightarrow>
                              (case ExtractVersionField env obj (ovr_FieldPath ref) of
                                 None \<Rightarrow> invalid_version
                               | Some v \<Rightarrow> nonempty_version v))))))"

definition resolveDesiredVersion ::
  "'v plan_env \<Rightarrow> StageSet \<Rightarrow> ResolvedArtifact list \<Rightarrow> VersionSource \<Rightarrow> plan_error + string" where
  "resolveDesiredVersion env ss resolved v =
     (if vs_Value v \<noteq> [] then Inr (trim_space (vs_Value v))
      else case vs_FromObject v of
        Some ref \<Rightarrow> versionFromObject env ss resolved ref
      | None \<Rightarrow>
          (case vs_FromArtifact v of
             Some ref \<Rightarrow> versionFromArtifact env ss resolved ref
           | None \<Rightarrow> invalid_version))"

section \<open>Planning (planVersionMigrations)\<close>

definition approvedVersionAnnotation :: string where
  "approvedVersionAnnotation = ''stages.metio.wtf/approved-version''"

definition rollbackToAnnotation :: string where
  "rollbackToAnnotation = ''stages.metio.wtf/rollback-to''"

definition rollbackDirective :: "'v :: linorder semver \<Rightarrow> StageSet \<Rightarrow> string \<Rightarrow> string" where
  "rollbackDirective sv ss version =
     (let rb = annotation ss rollbackToAnnotation in
      if rb = [] \<or> version = [] then []
      else (case (sv_NewVersion sv rb, sv_NewVersion sv version) of
          (Some rbV, Some curV) \<Rightarrow> if rbV < curV then rb else []
        | _ \<Rightarrow> []))"

definition coverageGap :: "'v semver \<Rightarrow> bool \<Rightarrow> 'v \<Rightarrow> 'v \<Rightarrow> nat \<Rightarrow> bool" where
  "coverageGap sv need current desired pending \<longleftrightarrow>
     need \<and> pending = 0 \<and> sv_Major sv desired > sv_Major sv current"

definition with_source :: "ResolvedArtifact option \<Rightarrow> migrationPlan \<Rightarrow> migrationPlan" where
  "with_source src plan =
     (case src of None \<Rightarrow> plan
      | Some ra \<Rightarrow> plan\<lparr>mp_sourceRevision := ra_Revision ra, mp_sourceDigest := ra_Digest ra\<rparr>)"

definition planDowngrade ::
  "'v :: linorder plan_env \<Rightarrow> StageSet \<Rightarrow> VersionSource \<Rightarrow> 'v \<Rightarrow> 'v \<Rightarrow> string \<Rightarrow> plan_error + migrationPlan" where
  "planDowngrade env ss v current desiredV desired =
     (if \<not> vs_AllowDowngrade v then Inl (Terminal ReasonDowngradeNotAllowed)
      else bind_result (resolveMigrationLadder env ss) (\<lambda>(ladder, src).
        case SelectDown (pe_semver env) ladder current desiredV of
          Inl _ \<Rightarrow> invalid_version
        | Inr down \<Rightarrow>
            if list_ex (\<lambda>m. mig_Down m = []) down then Inl (Terminal ReasonDowngradeRequiresMigration)
            else resolveAnchors ss ((with_source src zero_plan)\<lparr>mp_versionSet := True, mp_desired := desired,
              mp_downgrade := True, mp_pending := down\<rparr>)))"

definition planUpgrade ::
  "'v :: linorder plan_env \<Rightarrow> StageSet \<Rightarrow> VersionSource \<Rightarrow> 'v \<Rightarrow> 'v \<Rightarrow> string \<Rightarrow> plan_error + migrationPlan" where
  "planUpgrade env ss v current desiredV desired =
     bind_result (resolveMigrationLadder env ss) (\<lambda>(ladder, src).
       case Select (pe_semver env) ladder current desiredV of
         Inl _ \<Rightarrow> invalid_version
       | Inr pending \<Rightarrow>
           if coverageGap (pe_semver env) (vs_RequireMigrationCoverage v) current desiredV (length pending)
           then Inl (Terminal ReasonMigrationCoverageMissing)
           else resolveAnchors ss ((with_source src zero_plan)\<lparr>mp_versionSet := True, mp_desired := desired,
             mp_pending := pending\<rparr>))"

definition planVersionMigrations ::
  "'v :: linorder plan_env \<Rightarrow> StageSet \<Rightarrow> string \<Rightarrow> ResolvedArtifact list \<Rightarrow> plan_error + migrationPlan" where
  "planVersionMigrations env ss current resolved =
     (case spec_Version (set_Spec ss) of
        None \<Rightarrow> Inr zero_plan
      | Some v \<Rightarrow>
          bind_result (resolveDesiredVersion env ss resolved v) (\<lambda>offered.
            let sv = pe_semver env; rb = rollbackDirective sv ss current;
                desired = (if rb \<noteq> [] then rb else offered);
                plan = zero_plan\<lparr>mp_versionSet := True, mp_desired := desired\<rparr>
            in case sv_NewVersion sv desired of
                 None \<Rightarrow> invalid_version
               | Some desiredV \<Rightarrow>
                   if current = [] then Inr (plan\<lparr>mp_baseline := True\<rparr>)
                   else (case sv_NewVersion sv current of
                       None \<Rightarrow> invalid_version
                     | Some currentV \<Rightarrow>
                         if desiredV < currentV then planDowngrade env ss v currentV desiredV desired
                         else if desiredV = currentV then Inr plan
                         else planUpgrade env ss v currentV desiredV desired)))"

text \<open>The approval gate.\<close>

definition versionApprovalNeeded :: "ApprovalMode \<Rightarrow> migrationPlan \<Rightarrow> string \<Rightarrow> bool" where
  "versionApprovalNeeded mode plan currentVersion =
     (if \<not> mp_versionSet plan \<or> mp_baseline plan then False
      else case mode of
        ApprovalAlways \<Rightarrow> mp_desired plan \<noteq> currentVersion
      | ApprovalOnMigrations \<Rightarrow> mp_pending plan \<noteq> []
      | _ \<Rightarrow> False)"

definition awaits_approval :: "StageSet \<Rightarrow> migrationPlan \<Rightarrow> string \<Rightarrow> bool" where
  "awaits_approval ss plan currentVersion \<longleftrightarrow>
     (case spec_Version (set_Spec ss) of
        None \<Rightarrow> False
      | Some v \<Rightarrow> versionApprovalNeeded (vs_ApprovalMode v) plan currentVersion \<and>
          annotation ss approvedVersionAnnotation \<noteq> mp_desired plan)"

end
