(* ===== verification/FleetRollout.thy ===== *)
theory FleetRollout
  imports Dependencies Promotion Migrations
begin

text \<open>
  The fleet rollout (\<open>internal/controller/fleetrollout_controller.go\<close>, \<open>api/v1/fleetrollout_types.go\<close>): a
  cluster-scoped object that approves a version over the selected StageSets wave by wave, soaks and
  checks each wave, and halts on a regression. The members are read from the cluster and written only
  through two annotations. Label selectors, the metric query and number parsing are parameters; a patch
  of a member can fail. Condition messages and events are left out.
\<close>

section \<open>Data (fleetrollout_types.go)\<close>

type_synonym fleet_labels = "string \<rightharpoonup> string"

record fleet_member = StageSetObj +
  fm_Labels :: fleet_labels
  fm_Annotations :: "string \<rightharpoonup> string"
  fm_PendingVersion :: string

definition member_key :: "fleet_member \<Rightarrow> string" where
  "member_key m = so_Namespace m @ ''/'' @ so_Name m"

definition member_annotation :: "fleet_member \<Rightarrow> string \<Rightarrow> string" where
  "member_annotation m k = (case fm_Annotations m k of Some v \<Rightarrow> v | None \<Rightarrow> [])"

record FleetWaveGate =
  fg_Source :: MetricSource
  fg_Threshold :: Threshold

record FleetWave =
  fwv_Name :: string
  fwv_Selector :: label_selector
  fwv_Soak :: "duration option"
  fwv_Gate :: "FleetWaveGate option"

record FleetRolloutSpec =
  fsp_TargetVersion :: string
  fsp_Selector :: label_selector
  fsp_NamespaceSelector :: "label_selector option"
  fsp_Waves :: "FleetWave list"
  fsp_OnRegression :: string
  fsp_PreviousVersion :: string

datatype FleetPhase = FleetUnset | FleetPending | FleetInProgress | FleetHalted | FleetCompleted

record FleetWaveStatus =
  fws_Name :: string
  fws_Total :: int
  fws_AtTarget :: int
  fws_Ready :: int
  fws_Settled :: bool
  fws_SoakUntil :: "instant option"
  fws_Health :: string

datatype fleet_reason = ReasonFleetProgressing | ReasonFleetCompleted | ReasonFleetMembersUnassigned
  | ReasonFleetInvalid | ReasonFleetMembersContested | ReasonFleetHalted | ReasonFleetGateUnsupported

text \<open>\<open>fst_Ready\<close>: status and reason of the Ready condition.\<close>

record FleetRolloutStatus =
  fst_ObservedGeneration :: int
  fst_Phase :: FleetPhase
  fst_CurrentWave :: string
  fst_Waves :: "FleetWaveStatus list"
  fst_Ready :: "(bool \<times> fleet_reason) option"

record FleetRollout =
  fr_Name :: string
  fr_Generation :: int
  fr_Spec :: FleetRolloutSpec
  fr_Status :: FleetRolloutStatus

text \<open>
  What a pass reads besides the members: \<open>fv_select\<close> is \<open>None\<close> for a malformed selector; the lists are
  \<open>Inl\<close> when the read fails; \<open>fv_patch_ok\<close> says whether the patch of a member succeeds.
\<close>

record 'v fleet_env =
  fv_now :: instant
  fv_select :: "label_selector \<Rightarrow> (fleet_labels \<Rightarrow> bool) option"
  fv_listable :: bool
  fv_namespaces :: "string + (string \<times> fleet_labels) list"
  fv_rollouts :: "string + FleetRollout list"
  fv_query :: "(MetricSource \<Rightarrow> string + 'v) option"
  fv_parse :: "string \<Rightarrow> 'v option"
  fv_patch_ok :: "fleet_member \<Rightarrow> bool"

section \<open>Members\<close>

definition fleetRequeueInterval :: duration where
  "fleetRequeueInterval = 30 * Second"

definition fleet_members :: "'v fleet_env \<Rightarrow> FleetRolloutSpec \<Rightarrow> fleet_member list \<Rightarrow> string + fleet_member list" where
  "fleet_members env spec cluster =
     (case fv_select env (fsp_Selector spec) of
        None \<Rightarrow> Inl ''selector''
      | Some sel \<Rightarrow>
          if \<not> fv_listable env then Inl ''list''
          else let items = filter (\<lambda>m. sel (fm_Labels m)) cluster in
            (case fsp_NamespaceSelector spec of
               None \<Rightarrow> Inr items
             | Some ns \<Rightarrow>
                 (case fv_select env ns of
                    None \<Rightarrow> Inl ''namespaceSelector''
                  | Some nsSel \<Rightarrow>
                      (case fv_namespaces env of
                         Inl e \<Rightarrow> Inl e
                       | Inr nss \<Rightarrow>
                           let inScope = fst ` set (filter (\<lambda>(_, l). nsSel l) nss) in
                           Inr (filter (\<lambda>m. so_Namespace m \<in> inScope) items)))))"

definition claimed_elsewhere :: "'v fleet_env \<Rightarrow> FleetRollout \<Rightarrow> fleet_member list \<Rightarrow> FleetRollout list \<Rightarrow> string set" where
  "claimed_elsewhere env fr cluster others =
     (\<Union>other\<in>set (filter (\<lambda>other. fr_Name other \<noteq> fr_Name fr) others).
        (case fleet_members env (fr_Spec other) cluster of
           Inl _ \<Rightarrow> {}
         | Inr ms \<Rightarrow> member_key ` set ms))"

definition contestedMembers ::
  "'v fleet_env \<Rightarrow> FleetRollout \<Rightarrow> fleet_member list \<Rightarrow> fleet_member list \<Rightarrow> string + string list" where
  "contestedMembers env fr cluster members =
     bind_result (fv_rollouts env) (\<lambda>others.
       Inr (filter (\<lambda>k. k \<in> claimed_elsewhere env fr cluster others) (map member_key members)))"

definition fleetAdopted :: "FleetRolloutSpec \<Rightarrow> fleet_member \<Rightarrow> bool" where
  "fleetAdopted spec m \<longleftrightarrow>
     (if fsp_TargetVersion spec \<noteq> [] then so_Version m = fsp_TargetVersion spec else fm_PendingVersion m = [])"

definition fleetApprovalVersion :: "FleetRolloutSpec \<Rightarrow> fleet_member \<Rightarrow> string" where
  "fleetApprovalVersion spec m =
     (if fsp_TargetVersion spec \<noteq> [] then fsp_TargetVersion spec else fm_PendingVersion m)"

definition memberProgress :: "FleetRolloutSpec \<Rightarrow> fleet_member \<Rightarrow> bool \<times> bool" where
  "memberProgress spec m =
     (fleetAdopted spec m,
      isReady (StageSetObj.truncate m) \<and> so_ObservedGeneration m = so_Generation m \<and>
        \<not> update_held (StageSetObj.truncate m))"

definition fleet_count :: "('a \<Rightarrow> bool) \<Rightarrow> 'a list \<Rightarrow> int" where
  "fleet_count P xs = int (length (filter P xs))"

definition waveStatus :: "FleetRolloutSpec \<Rightarrow> string \<Rightarrow> fleet_member list \<Rightarrow> FleetWaveStatus" where
  "waveStatus spec name members =
     (let total = int (length members);
          atTarget = fleet_count (\<lambda>m. fst (memberProgress spec m)) members;
          ready = fleet_count (\<lambda>m. snd (memberProgress spec m)) members
      in \<lparr>fws_Name = name, fws_Total = total, fws_AtTarget = atTarget, fws_Ready = ready,
          fws_Settled = (atTarget = total \<and> ready = total), fws_SoakUntil = None, fws_Health = []\<rparr>)"

definition gateSecretRef :: "FleetWaveGate option \<Rightarrow> string" where
  "gateSecretRef g =
     (case g of
        None \<Rightarrow> []
      | Some gate \<Rightarrow>
          (case ms_Prometheus (fg_Source gate) of
             Some p \<Rightarrow> if prs_SecretRef p \<noteq> None then ''source.prometheus.secretRef''
               else (case ms_Webhook (fg_Source gate) of
                   Some w \<Rightarrow> if whs_SecretRef w \<noteq> None then ''source.webhook.secretRef'' else []
                 | None \<Rightarrow> [])
           | None \<Rightarrow>
               (case ms_Webhook (fg_Source gate) of
                  Some w \<Rightarrow> if whs_SecretRef w \<noteq> None then ''source.webhook.secretRef'' else []
                | None \<Rightarrow> [])))"

section \<open>Waves\<close>

definition healthPassing :: string where "healthPassing = ''Passing''"
definition healthFailing :: string where "healthFailing = ''Failing''"
definition healthUnknown :: string where "healthUnknown = ''Unknown''"

definition evalGate :: "('v :: linorder) fleet_env \<Rightarrow> FleetWaveGate \<Rightarrow> string" where
  "evalGate env gate =
     (case fv_query env of
        None \<Rightarrow> healthUnknown
      | Some query \<Rightarrow>
          (case query (fg_Source gate) of
             Inl _ \<Rightarrow> healthUnknown
           | Inr value \<Rightarrow>
               (case ThresholdSatisfied (fv_parse env) (fg_Threshold gate) value of
                  Inl _ \<Rightarrow> healthUnknown
                | Inr ok \<Rightarrow> if ok then healthPassing else healthFailing)))"

text \<open>Every wave's selector is checked before any is used.\<close>

fun wave_selectors :: "'v fleet_env \<Rightarrow> FleetWave list \<Rightarrow> fleet_reason + (fleet_labels \<Rightarrow> bool) list" where
  "wave_selectors env [] = Inr []"
| "wave_selectors env (w # ws) =
     (case fv_select env (fwv_Selector w) of
        None \<Rightarrow> Inl ReasonFleetInvalid
      | Some sel \<Rightarrow>
          if gateSecretRef (fwv_Gate w) \<noteq> [] then Inl ReasonFleetGateUnsupported
          else bind_result (wave_selectors env ws) (\<lambda>sels. Inr (sel # sels)))"

definition wave_members :: "(fleet_labels \<Rightarrow> bool) list \<Rightarrow> fleet_member list \<Rightarrow> fleet_member list list" where
  "wave_members sels members = map (\<lambda>sel. filter (\<lambda>m. sel (fm_Labels m)) members) sels"

definition unassigned :: "(fleet_labels \<Rightarrow> bool) list \<Rightarrow> fleet_member list \<Rightarrow> fleet_member list" where
  "unassigned sels members = filter (\<lambda>m. \<not> list_ex (\<lambda>sel. sel (fm_Labels m)) sels) members"

text \<open>The first pass over the waves: settle status, carrying the soak deadline and the health forward.\<close>

definition prior_waves :: "FleetWaveStatus list \<Rightarrow> string \<Rightarrow> FleetWaveStatus option" where
  "prior_waves statuses = map_of_last (map (\<lambda>s. (fws_Name s, s)) statuses)"

definition prior_soak :: "FleetWaveStatus list \<Rightarrow> string \<Rightarrow> instant option" where
  "prior_soak statuses name = (case prior_waves statuses name of None \<Rightarrow> None | Some s \<Rightarrow> fws_SoakUntil s)"

definition prior_health :: "FleetWaveStatus list \<Rightarrow> string \<Rightarrow> string" where
  "prior_health statuses name = (case prior_waves statuses name of None \<Rightarrow> [] | Some s \<Rightarrow> fws_Health s)"

definition wave_soak :: "FleetWave \<Rightarrow> duration" where
  "wave_soak w = (case fwv_Soak w of None \<Rightarrow> 0 | Some d \<Rightarrow> d)"

definition settle_wave ::
  "FleetRolloutSpec \<Rightarrow> FleetWaveStatus list \<Rightarrow> instant \<Rightarrow> FleetWave \<Rightarrow> fleet_member list \<Rightarrow> FleetWaveStatus" where
  "settle_wave spec prior now w members =
     (let ws = (waveStatus spec (fwv_Name w) members)\<lparr>fws_Health := prior_health prior (fwv_Name w)\<rparr>
      in if fws_Settled ws then
           ws\<lparr>fws_SoakUntil := Some (case prior_soak prior (fwv_Name w) of Some t \<Rightarrow> t | None \<Rightarrow> now + wave_soak w)\<rparr>
         else ws)"

text \<open>The second pass: the first halting wave, or the first wave not yet passed.\<close>

datatype halt_cause = Regressed | GateFailed
datatype walk_end = HaltAt nat halt_cause | FirstOpen "nat option"

definition next_wave :: "bool \<Rightarrow> walk_end \<Rightarrow> walk_end" where
  "next_wave passed e =
     (case e of
        HaltAt k c \<Rightarrow> HaltAt (Suc k) c
      | FirstOpen i \<Rightarrow> FirstOpen (if passed then map_option Suc i else Some 0))"

fun walk_waves ::
  "('v :: linorder) fleet_env \<Rightarrow> FleetWaveStatus list \<Rightarrow> FleetWave list \<Rightarrow> FleetWaveStatus list
   \<Rightarrow> FleetWaveStatus list \<times> walk_end" where
  "walk_waves env prior (w # ws) (s # ss) =
     (if prior_soak prior (fws_Name s) \<noteq> None \<and> \<not> fws_Settled s then (s # ss, HaltAt 0 Regressed)
      else if fws_Settled s \<and> the (fws_SoakUntil s) \<le> fv_now env then
        (case fwv_Gate w of
           None \<Rightarrow> (case walk_waves env prior ws ss of (ss', e) \<Rightarrow> (s # ss', next_wave True e))
         | Some gate \<Rightarrow>
             let verdict = evalGate env gate; s' = s\<lparr>fws_Health := verdict\<rparr> in
             if verdict = healthFailing then (s' # ss, HaltAt 0 GateFailed)
             else (case walk_waves env prior ws ss of
                 (ss', e) \<Rightarrow> (s' # ss', next_wave (verdict = healthPassing) e)))
      else (case walk_waves env prior ws ss of (ss', e) \<Rightarrow> (s # ss', next_wave False e)))"
| "walk_waves env prior ws ss = (ss, FirstOpen None)"

section \<open>Annotations\<close>

definition stamp :: "string \<Rightarrow> string \<Rightarrow> fleet_member \<Rightarrow> fleet_member list \<Rightarrow> fleet_member list" where
  "stamp key v m cluster =
     map (\<lambda>x. if so_Namespace x = so_Namespace m \<and> so_Name x = so_Name m
              then x\<lparr>fm_Annotations := (fm_Annotations x)(key \<mapsto> v)\<rparr> else x) cluster"

definition approve :: "'v fleet_env \<Rightarrow> fleet_member \<Rightarrow> string \<Rightarrow> fleet_member list \<Rightarrow> fleet_member list \<times> bool" where
  "approve env m version cluster =
     (if version = [] \<or> member_annotation m approvedVersionAnnotation = version then (cluster, True)
      else if fv_patch_ok env m then (stamp approvedVersionAnnotation version m cluster, True)
      else (cluster, False))"

definition rollbackMember :: "'v fleet_env \<Rightarrow> string \<Rightarrow> fleet_member \<Rightarrow> fleet_member list \<Rightarrow> fleet_member list \<times> bool" where
  "rollbackMember env version m cluster =
     (if member_annotation m rollbackToAnnotation = version then (cluster, True)
      else if fv_patch_ok env m then (stamp rollbackToAnnotation version m cluster, True)
      else (cluster, False))"

fun patch_all ::
  "(fleet_member \<Rightarrow> fleet_member list \<Rightarrow> fleet_member list \<times> bool) \<Rightarrow> fleet_member list \<Rightarrow> fleet_member list
   \<Rightarrow> fleet_member list \<times> bool" where
  "patch_all f [] cluster = (cluster, True)"
| "patch_all f (m # ms) cluster =
     (case f m cluster of
        (cluster', True) \<Rightarrow> patch_all f ms cluster'
      | (cluster', False) \<Rightarrow> (cluster', False))"

section \<open>The reconciler\<close>

datatype fleet_result = FleetError | FleetDone "duration option"

definition requeueAfter :: "FleetWaveStatus list \<Rightarrow> instant \<Rightarrow> duration" where
  "requeueAfter statuses now =
     (case find (\<lambda>s. fws_Settled s \<and> fws_SoakUntil s \<noteq> None \<and> the (fws_SoakUntil s) > now \<and>
              the (fws_SoakUntil s) - now < fleetRequeueInterval) statuses of
        Some s \<Rightarrow> the (fws_SoakUntil s) - now
      | None \<Rightarrow> fleetRequeueInterval)"

definition setFleetReady :: "bool \<Rightarrow> fleet_reason \<Rightarrow> FleetRolloutStatus \<Rightarrow> FleetRolloutStatus" where
  "setFleetReady ok reason st = st\<lparr>fst_Ready := Some (ok, reason)\<rparr>"

type_synonym fleet_state = "FleetRolloutStatus \<times> fleet_member list"

definition halt ::
  "'v fleet_env \<Rightarrow> FleetRolloutSpec \<Rightarrow> FleetWave \<Rightarrow> fleet_member list \<Rightarrow> fleet_state \<Rightarrow> fleet_state \<times> fleet_result" where
  "halt env spec w members state =
     (let (st, cluster) = state;
          (cluster', ok) = (if fsp_OnRegression spec = ''Rollback'' \<and> fsp_PreviousVersion spec \<noteq> []
            then patch_all (rollbackMember env (fsp_PreviousVersion spec)) members cluster else (cluster, True))
      in if \<not> ok then ((st, cluster'), FleetError)
         else ((setFleetReady False ReasonFleetHalted (st\<lparr>fst_Phase := FleetHalted, fst_CurrentWave := fwv_Name w\<rparr>), cluster'),
               FleetDone (Some fleetRequeueInterval)))"

definition open_waves ::
  "'v fleet_env \<Rightarrow> FleetRolloutSpec \<Rightarrow> fleet_member list list \<Rightarrow> nat option \<Rightarrow> fleet_state \<Rightarrow> fleet_state \<times> fleet_result" where
  "open_waves env spec waveMembers firstOpen state =
     (let (st, cluster) = state;
          openThrough = (case firstOpen of Some w \<Rightarrow> Suc w | None \<Rightarrow> length (fsp_Waves spec));
          (cluster', ok) = patch_all (\<lambda>m. approve env m (fleetApprovalVersion spec m))
            (concat (take openThrough waveMembers)) cluster
      in if \<not> ok then ((st, cluster'), FleetError)
         else (case firstOpen of
             None \<Rightarrow> ((setFleetReady True ReasonFleetCompleted (st\<lparr>fst_Phase := FleetCompleted, fst_CurrentWave := []\<rparr>), cluster'),
               FleetDone None)
           | Some w \<Rightarrow> ((setFleetReady True ReasonFleetProgressing
                 (st\<lparr>fst_Phase := FleetInProgress, fst_CurrentWave := fwv_Name (fsp_Waves spec ! w)\<rparr>), cluster'),
               FleetDone (Some (requeueAfter (fst_Waves st) (fv_now env))))))"

text \<open>The passes over the waves, once every guard has let the rollout through.\<close>

definition advance_waves ::
  "('v :: linorder) fleet_env \<Rightarrow> FleetRolloutSpec \<Rightarrow> fleet_member list list \<Rightarrow> fleet_state \<Rightarrow> fleet_state \<times> fleet_result" where
  "advance_waves env spec waveMembers state =
     (let (st, cluster) = state; prior = fst_Waves st;
          settled = map2 (settle_wave spec prior (fv_now env)) (fsp_Waves spec) waveMembers;
          (walked, e) = walk_waves env prior (fsp_Waves spec) settled;
          st1 = st\<lparr>fst_Waves := walked\<rparr>
      in case e of
          HaltAt w _ \<Rightarrow> halt env spec (fsp_Waves spec ! w) (waveMembers ! w) (st1, cluster)
        | FirstOpen i \<Rightarrow> open_waves env spec waveMembers i (st1, cluster))"

definition refuse :: "fleet_reason \<Rightarrow> bool \<Rightarrow> fleet_state \<Rightarrow> fleet_state \<times> fleet_result" where
  "refuse reason requeue state =
     ((setFleetReady False reason (fst state), snd state), FleetDone (if requeue then Some fleetRequeueInterval else None))"

definition reconcile_fleet ::
  "('v :: linorder) fleet_env \<Rightarrow> FleetRollout \<Rightarrow> fleet_member list \<Rightarrow> fleet_state \<times> fleet_result" where
  "reconcile_fleet env fr cluster =
     (let spec = fr_Spec fr; state = ((fr_Status fr)\<lparr>fst_ObservedGeneration := fr_Generation fr\<rparr>, cluster) in
      case fleet_members env spec cluster of
        Inl _ \<Rightarrow> refuse ReasonFleetInvalid False state
      | Inr members \<Rightarrow>
          (case contestedMembers env fr cluster members of
             Inl _ \<Rightarrow> (state, FleetError)
           | Inr contested \<Rightarrow>
               if contested \<noteq> [] then refuse ReasonFleetMembersContested True state
               else (case wave_selectors env (fsp_Waves spec) of
                   Inl reason \<Rightarrow> refuse reason False state
                 | Inr sels \<Rightarrow>
                     if unassigned sels members \<noteq> [] then refuse ReasonFleetMembersUnassigned True state
                     else advance_waves env spec (wave_members sels members) state)))"

text \<open>The rollouts a changed StageSet wakes.\<close>

definition mapStageSetToFleets :: "'v fleet_env \<Rightarrow> fleet_member \<Rightarrow> string list" where
  "mapStageSetToFleets env m =
     (case fv_rollouts env of
        Inl _ \<Rightarrow> []
      | Inr frs \<Rightarrow> map fr_Name (filter (\<lambda>fr. case fv_select env (fsp_Selector (fr_Spec fr)) of
            None \<Rightarrow> False | Some sel \<Rightarrow> sel (fm_Labels m)) frs))"

end
