(* ===== verification/FleetWaves.thy ===== *)
theory FleetWaves
  imports FleetRollout
begin

text \<open>
  What a fleet rollout guarantees over its passes: the order of the waves with their soaks and gates, what
  a halt is worth, and that a healthy fleet completes. Between two passes the cluster changes in any way
  the members like; only the rollout's status is carried.
\<close>

section \<open>Runs\<close>

type_synonym 'v fleet_step = "'v fleet_env \<times> fleet_member list"

definition fleet_pass :: "('v :: linorder) fleet_step \<Rightarrow> FleetRollout \<Rightarrow> FleetRollout" where
  "fleet_pass p fr = fr\<lparr>fr_Status := fst (fst (reconcile_fleet (fst p) fr (snd p)))\<rparr>"

fun fleet_passes :: "('v :: linorder) fleet_step list \<Rightarrow> FleetRollout \<Rightarrow> FleetRollout" where
  "fleet_passes [] fr = fr"
| "fleet_passes (p # ps) fr = fleet_passes ps (fleet_pass p fr)"

lemma fleet_passes_snoc: "fleet_passes (ps @ [p]) fr = fleet_pass p (fleet_passes ps fr)"
  by (induction ps arbitrary: fr) simp_all

text \<open>The waves a pass sees, when its guards let it through.\<close>

definition fleet_view :: "'v fleet_env \<Rightarrow> FleetRollout \<Rightarrow> fleet_member list \<Rightarrow> fleet_member list list option" where
  "fleet_view env fr cluster =
     (case fleet_members env (fr_Spec fr) cluster of
        Inl _ \<Rightarrow> None
      | Inr members \<Rightarrow>
          (case contestedMembers env fr cluster members of
             Inl _ \<Rightarrow> None
           | Inr contested \<Rightarrow>
               if contested \<noteq> [] then None
               else (case wave_selectors env (fsp_Waves (fr_Spec fr)) of
                   Inl _ \<Rightarrow> None
                 | Inr sels \<Rightarrow> if unassigned sels members \<noteq> [] then None else Some (wave_members sels members))))"

definition observed :: "FleetRollout \<Rightarrow> FleetRolloutStatus" where
  "observed fr = (fr_Status fr)\<lparr>fst_ObservedGeneration := fr_Generation fr\<rparr>"

lemma reconcile_seen:
  "fleet_view env fr cluster = Some wm \<Longrightarrow>
   reconcile_fleet env fr cluster = advance_waves env (fr_Spec fr) wm (observed fr, cluster)"
  by (auto simp: fleet_view_def reconcile_fleet_def Let_def observed_def split: sum.splits if_splits)

lemma reconcile_blind:
  "fleet_view env fr cluster = None \<Longrightarrow>
   snd (fst (reconcile_fleet env fr cluster)) = cluster \<and>
   fst_Waves (fst (fst (reconcile_fleet env fr cluster))) = fst_Waves (fr_Status fr)"
  by (auto simp: fleet_view_def reconcile_fleet_def Let_def refuse_def setFleetReady_def split: sum.splits if_splits)

lemma fleet_pass_frame [simp]:
  "fr_Spec (fleet_pass p fr) = fr_Spec fr" "fr_Name (fleet_pass p fr) = fr_Name fr"
  "fr_Generation (fleet_pass p fr) = fr_Generation fr"
  by (simp_all add: fleet_pass_def)

lemma fleet_passes_frame [simp]:
  "fr_Spec (fleet_passes ps fr) = fr_Spec fr" "fr_Name (fleet_passes ps fr) = fr_Name fr"
  by (induction ps arbitrary: fr) simp_all

lemma fleet_view_status:
  assumes "fr_Spec fr' = fr_Spec fr" "fr_Name fr' = fr_Name fr"
  shows "fleet_view env fr' cluster = fleet_view env fr cluster"
  unfolding fleet_view_def contestedMembers_def claimed_elsewhere_def assms ..

lemma wave_selectors_length: "wave_selectors env ws = Inr sels \<Longrightarrow> length sels = length ws"
  by (induction ws arbitrary: sels) (auto simp: bind_result_eq_Inr split: option.splits if_splits)

lemma fleet_view_length: "fleet_view env fr cluster = Some wm \<Longrightarrow> length wm = length (fsp_Waves (fr_Spec fr))"
  by (auto simp: fleet_view_def wave_members_def split: sum.splits if_splits dest: wave_selectors_length)

section \<open>Settled and passed waves\<close>

definition healthy_member :: "FleetRolloutSpec \<Rightarrow> fleet_member \<Rightarrow> bool" where
  "healthy_member spec m \<longleftrightarrow> fst (memberProgress spec m) \<and> snd (memberProgress spec m)"

lemma fleet_count_all: "fleet_count P xs = int (length xs) \<longleftrightarrow> (\<forall>x\<in>set xs. P x)"
proof -
  have "length (filter P xs) = length xs \<longleftrightarrow> filter P xs = xs"
    by (metis filter_id_conv length_filter_less order_less_irrefl)
  then show ?thesis by (simp add: fleet_count_def filter_id_conv)
qed

lemma settled_iff: "fws_Settled (waveStatus spec name ms) \<longleftrightarrow> (\<forall>m\<in>set ms. healthy_member spec m)"
  by (auto simp: waveStatus_def Let_def fleet_count_all healthy_member_def)

lemma settle_wave_fields [simp]:
  "fws_Name (settle_wave spec prior now w ms) = fwv_Name w"
  "fws_Settled (settle_wave spec prior now w ms) \<longleftrightarrow> (\<forall>m\<in>set ms. healthy_member spec m)"
  "fws_SoakUntil (settle_wave spec prior now w ms) =
     (if \<forall>m\<in>set ms. healthy_member spec m
      then Some (case prior_soak prior (fwv_Name w) of Some t \<Rightarrow> t | None \<Rightarrow> now + wave_soak w) else None)"
  unfolding settle_wave_def Let_def
  by (simp_all add: settled_iff [of spec "fwv_Name w", symmetric]) (simp_all add: waveStatus_def Let_def)

definition gate_passes :: "('v :: linorder) fleet_env \<Rightarrow> FleetWave \<Rightarrow> bool" where
  "gate_passes env w \<longleftrightarrow> (case fwv_Gate w of None \<Rightarrow> True | Some g \<Rightarrow> evalGate env g = healthPassing)"

definition gate_fails :: "('v :: linorder) fleet_env \<Rightarrow> FleetWave \<Rightarrow> bool" where
  "gate_fails env w \<longleftrightarrow> (case fwv_Gate w of None \<Rightarrow> False | Some g \<Rightarrow> evalGate env g = healthFailing)"

definition soak_over :: "('v :: linorder) fleet_env \<Rightarrow> FleetWaveStatus \<Rightarrow> bool" where
  "soak_over env s \<longleftrightarrow> fws_Settled s \<and> the (fws_SoakUntil s) \<le> fv_now env"

definition wave_passed :: "('v :: linorder) fleet_env \<Rightarrow> FleetWave \<Rightarrow> FleetWaveStatus \<Rightarrow> bool" where
  "wave_passed env w s \<longleftrightarrow> soak_over env s \<and> gate_passes env w"

definition wave_regressed :: "FleetWaveStatus list \<Rightarrow> FleetWaveStatus \<Rightarrow> bool" where
  "wave_regressed prior s \<longleftrightarrow> prior_soak prior (fws_Name s) \<noteq> None \<and> \<not> fws_Settled s"

definition wave_fails :: "('v :: linorder) fleet_env \<Rightarrow> FleetWave \<Rightarrow> FleetWaveStatus \<Rightarrow> bool" where
  "wave_fails env w s \<longleftrightarrow> soak_over env s \<and> gate_fails env w"

text \<open>The walk, as one decision per wave.\<close>

definition judged :: "('v :: linorder) fleet_env \<Rightarrow> FleetWave \<Rightarrow> FleetWaveStatus \<Rightarrow> FleetWaveStatus" where
  "judged env w s =
     (case fwv_Gate w of Some g \<Rightarrow> if soak_over env s then s\<lparr>fws_Health := evalGate env g\<rparr> else s | None \<Rightarrow> s)"

lemma verdicts_differ [simp]: "healthPassing \<noteq> healthFailing" "healthFailing \<noteq> healthPassing"
  by (simp_all add: healthPassing_def healthFailing_def)

lemma walk_waves_Cons:
  "walk_waves env prior (w # ws) (s # ss) =
     (if wave_regressed prior s then (s # ss, HaltAt 0 Regressed)
      else if wave_fails env w s then (judged env w s # ss, HaltAt 0 GateFailed)
      else case walk_waves env prior ws ss of
        (ss', e) \<Rightarrow> (judged env w s # ss', next_wave (wave_passed env w s) e))"
  by (auto simp: wave_regressed_def wave_fails_def wave_passed_def judged_def soak_over_def gate_fails_def
      gate_passes_def Let_def split: option.split prod.split)

lemma judged_fields [simp]:
  "fws_Name (judged env w s) = fws_Name s" "fws_Settled (judged env w s) = fws_Settled s"
  "fws_SoakUntil (judged env w s) = fws_SoakUntil s"
  by (simp_all add: judged_def split: option.split)

declare walk_waves.simps(1) [simp del]

lemma walk_waves_fields:
  "length ws = length ss \<Longrightarrow> walk_waves env prior ws ss = (ss', e) \<Longrightarrow>
   map fws_Name ss' = map fws_Name ss \<and> map fws_SoakUntil ss' = map fws_SoakUntil ss \<and>
   map fws_Settled ss' = map fws_Settled ss"
proof (induction ws ss arbitrary: ss' e rule: list_induct2)
  case (Cons w ws s ss)
  then show ?case by (auto simp: walk_waves_Cons split: if_splits prod.splits)
qed simp

lemma walk_waves_open:
  "length ws = length ss \<Longrightarrow> walk_waves env prior ws ss = (ss', FirstOpen i) \<Longrightarrow>
   (case i of None \<Rightarrow> \<forall>k<length ws. wave_passed env (ws ! k) (ss ! k)
    | Some n \<Rightarrow> n < length ws \<and> (\<forall>k<n. wave_passed env (ws ! k) (ss ! k)) \<and> \<not> wave_passed env (ws ! n) (ss ! n)) \<and>
   (\<forall>k<length ws. \<not> wave_regressed prior (ss ! k) \<and> \<not> wave_fails env (ws ! k) (ss ! k))"
proof (induction ws ss arbitrary: ss' i rule: list_induct2)
  case (Cons w ws s ss)
  obtain ss1 j where r: "walk_waves env prior ws ss = (ss1, FirstOpen j)" "\<not> wave_regressed prior s" "\<not> wave_fails env w s"
    and i: "i = (if wave_passed env w s then map_option Suc j else Some 0)"
    using Cons.prems by (auto simp: walk_waves_Cons next_wave_def split: if_splits prod.splits walk_end.splits)
  show ?case
    using Cons.IH [OF r(1)] r(2,3) i by (auto simp: nth_Cons All_less_Suc2 split: option.splits nat.splits)
qed (simp split: option.split)

lemma walk_waves_halt:
  "length ws = length ss \<Longrightarrow> walk_waves env prior ws ss = (ss', HaltAt k c) \<Longrightarrow>
   k < length ws \<and> (if c = Regressed then wave_regressed prior (ss ! k) else wave_fails env (ws ! k) (ss ! k)) \<and>
   (\<forall>j<k. \<not> wave_regressed prior (ss ! j) \<and> \<not> wave_fails env (ws ! j) (ss ! j))"
proof (induction ws ss arbitrary: ss' k rule: list_induct2)
  case (Cons w ws s ss)
  show ?case
  proof (cases "wave_regressed prior s \<or> wave_fails env w s")
    case True
    then show ?thesis using Cons.prems by (auto simp: walk_waves_Cons split: if_splits prod.splits)
  next
    case False
    then obtain ss1 j where "walk_waves env prior ws ss = (ss1, HaltAt j c)" "k = Suc j"
      using Cons.prems by (auto simp: walk_waves_Cons next_wave_def split: if_splits prod.splits walk_end.splits)
    then show ?thesis using Cons.IH False by (auto simp: All_less_Suc2)
  qed
qed simp


section \<open>What a pass records\<close>

abbreviation waves_of :: "FleetRollout \<Rightarrow> FleetWave list" where
  "waves_of fr \<equiv> fsp_Waves (fr_Spec fr)"

definition settled_waves :: "'v fleet_env \<Rightarrow> FleetRollout \<Rightarrow> fleet_member list list \<Rightarrow> FleetWaveStatus list" where
  "settled_waves env fr wm =
     map2 (settle_wave (fr_Spec fr) (fst_Waves (fr_Status fr)) (fv_now env)) (waves_of fr) wm"

lemma settled_waves_nth:
  "length wm = length (waves_of fr) \<Longrightarrow> k < length (waves_of fr) \<Longrightarrow>
   settled_waves env fr wm ! k =
     settle_wave (fr_Spec fr) (fst_Waves (fr_Status fr)) (fv_now env) (waves_of fr ! k) (wm ! k)"
  by (simp add: settled_waves_def)

lemma settled_waves_length [simp]:
  "length wm = length (waves_of fr) \<Longrightarrow> length (settled_waves env fr wm) = length (waves_of fr)"
  by (simp add: settled_waves_def)

lemma halt_waves: "fst_Waves (fst (fst (halt env spec w ms state))) = fst_Waves (fst state)"
  by (simp add: halt_def Let_def setFleetReady_def split: prod.splits)

lemma open_waves_waves: "fst_Waves (fst (fst (open_waves env spec wm i state))) = fst_Waves (fst state)"
  by (simp add: open_waves_def Let_def setFleetReady_def split: prod.splits option.splits)

lemma advance_waves_walk:
  assumes "fleet_view env fr cluster = Some wm"
  obtains walked e where "walk_waves env (fst_Waves (fr_Status fr)) (waves_of fr) (settled_waves env fr wm) = (walked, e)"
    "reconcile_fleet env fr cluster = (case e of
        HaltAt w _ \<Rightarrow> halt env (fr_Spec fr) (waves_of fr ! w) (wm ! w) ((observed fr)\<lparr>fst_Waves := walked\<rparr>, cluster)
      | FirstOpen i \<Rightarrow> open_waves env (fr_Spec fr) wm i ((observed fr)\<lparr>fst_Waves := walked\<rparr>, cluster))"
proof -
  obtain walked e where w: "walk_waves env (fst_Waves (fr_Status fr)) (waves_of fr) (settled_waves env fr wm) = (walked, e)"
    by fastforce
  moreover have "fst_Waves (observed fr) = fst_Waves (fr_Status fr)" by (simp add: observed_def)
  ultimately show ?thesis
    using that [OF w] reconcile_seen [OF assms]
    by (simp add: advance_waves_def Let_def settled_waves_def split: walk_end.splits)
qed

lemma pass_waves:
  assumes "fleet_view env fr cluster = Some wm"
  shows "map fws_Name (fst_Waves (fr_Status (fleet_pass (env, cluster) fr))) = map fwv_Name (waves_of fr)"
    and "map fws_SoakUntil (fst_Waves (fr_Status (fleet_pass (env, cluster) fr))) =
      map fws_SoakUntil (settled_waves env fr wm)"
proof -
  note len = fleet_view_length [OF assms]
  from advance_waves_walk [OF assms] obtain walked e where
    w: "walk_waves env (fst_Waves (fr_Status fr)) (waves_of fr) (settled_waves env fr wm) = (walked, e)" and
    r: "reconcile_fleet env fr cluster = (case e of
        HaltAt w _ \<Rightarrow> halt env (fr_Spec fr) (waves_of fr ! w) (wm ! w) ((observed fr)\<lparr>fst_Waves := walked\<rparr>, cluster)
      | FirstOpen i \<Rightarrow> open_waves env (fr_Spec fr) wm i ((observed fr)\<lparr>fst_Waves := walked\<rparr>, cluster))" .
  have "fst_Waves (fr_Status (fleet_pass (env, cluster) fr)) = walked"
    by (simp add: fleet_pass_def r halt_waves open_waves_waves split: walk_end.split)
  moreover have "map fws_Name (settled_waves env fr wm) = map fwv_Name (waves_of fr)"
    using len by (intro nth_equalityI) (simp_all add: settled_waves_nth)
  moreover have "length (waves_of fr) = length (settled_waves env fr wm)" using len by simp
  ultimately show "map fws_Name (fst_Waves (fr_Status (fleet_pass (env, cluster) fr))) = map fwv_Name (waves_of fr)"
    and "map fws_SoakUntil (fst_Waves (fr_Status (fleet_pass (env, cluster) fr))) = map fws_SoakUntil (settled_waves env fr wm)"
    using walk_waves_fields [OF _ w] by auto
qed

lemma prior_soak_nth:
  assumes "distinct (map fws_Name ss)" "k < length ss"
  shows "prior_soak ss (fws_Name (ss ! k)) = fws_SoakUntil (ss ! k)"
proof -
  have "prior_waves ss (fws_Name (ss ! k)) = Some (ss ! k)"
    using assms unfolding prior_waves_def by (intro map_of_last_distinct) (auto simp: comp_def)
  then show ?thesis by (simp add: prior_soak_def)
qed

definition soak_of :: "FleetRollout \<Rightarrow> nat \<Rightarrow> instant option" where
  "soak_of fr k = prior_soak (fst_Waves (fr_Status fr)) (fwv_Name (waves_of fr ! k))"

definition wave_healthy :: "FleetRollout \<Rightarrow> nat \<Rightarrow> fleet_member list list \<Rightarrow> bool" where
  "wave_healthy fr k wm \<longleftrightarrow> (\<forall>m\<in>set (wm ! k). healthy_member (fr_Spec fr) m)"

lemma soak_step:
  assumes "fleet_view env fr cluster = Some wm" "distinct (map fwv_Name (waves_of fr))" "k < length (waves_of fr)"
  shows "soak_of (fleet_pass (env, cluster) fr) k =
    (if wave_healthy fr k wm
     then Some (case soak_of fr k of Some t \<Rightarrow> t | None \<Rightarrow> fv_now env + wave_soak (waves_of fr ! k)) else None)"
proof -
  note len = fleet_view_length [OF assms(1)]
  let ?ws = "fst_Waves (fr_Status (fleet_pass (env, cluster) fr))"
  note pw = pass_waves [OF assms(1)]
  have l: "length ?ws = length (waves_of fr)" using arg_cong [OF pw(1), of length] by simp
  have n: "fws_Name (?ws ! k) = fwv_Name (waves_of fr ! k)"
    using arg_cong [OF pw(1), of "\<lambda>xs. xs ! k"] l assms(3) by simp
  have "prior_soak ?ws (fws_Name (?ws ! k)) = fws_SoakUntil (?ws ! k)"
    using prior_soak_nth [of ?ws k] pw(1) assms(2,3) l by simp
  moreover have "fws_SoakUntil (?ws ! k) = fws_SoakUntil (settled_waves env fr wm ! k)"
    using arg_cong [OF pw(2), of "\<lambda>xs. xs ! k"] l assms(3) len by simp
  ultimately show ?thesis
    using n assms(3) len by (simp add: soak_of_def settled_waves_nth wave_healthy_def)
qed

lemma soak_blind:
  "fleet_view env fr cluster = None \<Longrightarrow> soak_of (fleet_pass (env, cluster) fr) k = soak_of fr k"
  using reconcile_blind [of env fr cluster] by (simp add: soak_of_def fleet_pass_def)


section \<open>Soaks over many passes\<close>

definition step_healthy :: "FleetRollout \<Rightarrow> nat \<Rightarrow> ('v :: linorder) fleet_step \<Rightarrow> bool" where
  "step_healthy fr k q \<longleftrightarrow>
     (case fleet_view (fst q) fr (snd q) of None \<Rightarrow> True | Some wm \<Rightarrow> wave_healthy fr k wm)"

text \<open>Wave \<open>k\<close> has been settled in every pass that could see it since one at least \<open>soak\<close> ago.\<close>

definition soaked :: "FleetRollout \<Rightarrow> nat \<Rightarrow> ('v :: linorder) fleet_step list \<Rightarrow> instant \<Rightarrow> bool" where
  "soaked fr k ps deadline \<longleftrightarrow>
     (\<exists>as p bs. ps = as @ p # bs \<and> fleet_view (fst p) fr (snd p) \<noteq> None \<and>
        fv_now (fst p) + wave_soak (waves_of fr ! k) = deadline \<and> (\<forall>q\<in>set (p # bs). step_healthy fr k q))"

lemma soaked_snoc:
  assumes "soaked fr k ps t" "step_healthy fr k q"
  shows "soaked fr k (ps @ [q]) t"
proof -
  obtain as p bs where "ps = as @ p # bs" "fleet_view (fst p) fr (snd p) \<noteq> None"
    "fv_now (fst p) + wave_soak (waves_of fr ! k) = t" "\<forall>q\<in>set (p # bs). step_healthy fr k q"
    using assms(1) unfolding soaked_def by blast
  then show ?thesis
    unfolding soaked_def using assms(2)
    by (intro exI [of _ as], intro exI [of _ p], intro exI [of _ "bs @ [q]"]) simp
qed

lemma soaked_start:
  "fleet_view (fst q) fr (snd q) = Some wm \<Longrightarrow> wave_healthy fr k wm \<Longrightarrow>
   soaked fr k (ps @ [q]) (fv_now (fst q) + wave_soak (waves_of fr ! k))"
  unfolding soaked_def by (rule exI [of _ ps], rule exI [of _ q], rule exI [of _ "[]"]) (simp add: step_healthy_def)

lemma wave_healthy_cong: "fr_Spec fr' = fr_Spec fr \<Longrightarrow> wave_healthy fr' k wm = wave_healthy fr k wm"
  by (simp add: wave_healthy_def)

lemma soak_history:
  assumes "distinct (map fwv_Name (waves_of fr))" "k < length (waves_of fr)" "soak_of fr k = None"
  shows "soak_of (fleet_passes ps fr) k = Some t \<Longrightarrow> soaked fr k ps t"
proof (induction ps arbitrary: t rule: rev_induct)
  case Nil
  then show ?case using assms(3) by simp
next
  case (snoc q ps)
  let ?fr = "fleet_passes ps fr"
  have q: "q = (fst q, snd q)" by simp
  have view: "fleet_view env ?fr c = fleet_view env fr c" for env c by (rule fleet_view_status) simp_all
  show ?case
  proof (cases "fleet_view (fst q) fr (snd q)")
    case None
    then have "fleet_view (fst q) ?fr (snd q) = None" by (simp add: view)
    from soak_blind [OF this, of k] have "soak_of ?fr k = Some t" using snoc.prems by (simp add: fleet_passes_snoc)
    then show ?thesis using None by (intro soaked_snoc [OF snoc.IH]) (simp_all add: step_healthy_def)
  next
    case (Some wm)
    have step: "soak_of (fleet_pass q ?fr) k =
        (if wave_healthy fr k wm
         then Some (case soak_of ?fr k of Some t \<Rightarrow> t | None \<Rightarrow> fv_now (fst q) + wave_soak (waves_of fr ! k)) else None)"
      using soak_step [of "fst q" ?fr "snd q" wm k] Some assms(1,2) wave_healthy_cong [of ?fr fr k wm]
      by (simp add: view split: option.split)
    then have h: "wave_healthy fr k wm" using snoc.prems by (auto simp: fleet_passes_snoc split: if_splits)
    then have sh: "step_healthy fr k q" using Some by (simp add: step_healthy_def)
    show ?thesis
    proof (cases "soak_of ?fr k")
      case None
      then have "t = fv_now (fst q) + wave_soak (waves_of fr ! k)" using snoc.prems step h by (simp add: fleet_passes_snoc)
      then show ?thesis using soaked_start [OF Some h] by simp
    next
      case (Some s)
      then have "s = t" using snoc.prems step h by (simp add: fleet_passes_snoc)
      then show ?thesis using Some soaked_snoc [OF snoc.IH sh] by simp
    qed
  qed
qed

section \<open>Who gets approved\<close>

definition member_id :: "fleet_member \<Rightarrow> string \<times> string" where
  "member_id m = (so_Namespace m, so_Name m)"

lemma stamp_annotation:
  assumes "x' \<in> set (stamp key v m c)"
  shows "\<exists>x\<in>set c. member_id x = member_id x' \<and>
    member_annotation x' k = (if k = key \<and> member_id x' = member_id m then v else member_annotation x k)"
proof -
  obtain x where x: "x \<in> set c" "x' = (if member_id x = member_id m then x\<lparr>fm_Annotations := (fm_Annotations x)(key \<mapsto> v)\<rparr> else x)"
    using assms by (auto simp: stamp_def member_id_def)
  then have "member_id x = member_id x'" by (simp add: member_id_def)
  with x show ?thesis by (intro bexI [of _ x]) (auto simp: member_annotation_def member_id_def)
qed

lemma patch_all_annotation:
  assumes "\<And>m c c' ok. m \<in> set ms \<Longrightarrow> f m c = (c', ok) \<Longrightarrow> c' = c \<or> (v m \<noteq> [] \<and> c' = stamp key (v m) m c)"
  shows "patch_all f ms c = (c', ok) \<Longrightarrow> x' \<in> set c' \<Longrightarrow>
    \<exists>x\<in>set c. member_id x = member_id x' \<and>
      (member_annotation x' k = member_annotation x k \<or>
       k = key \<and> (\<exists>m\<in>set ms. member_id m = member_id x' \<and> v m = member_annotation x' k \<and> v m \<noteq> []))"
  using assms
proof (induction ms arbitrary: c)
  case (Cons m ms)
  obtain c1 ok1 where f: "f m c = (c1, ok1)" by fastforce
  have one: "\<exists>x\<in>set c. member_id x = member_id y \<and> (member_annotation y k = member_annotation x k \<or>
      k = key \<and> member_id m = member_id y \<and> v m = member_annotation y k \<and> v m \<noteq> [])" if "y \<in> set c1" for y
    using Cons.prems(3) [OF _ f] that stamp_annotation [of y key "v m" m c k] by (fastforce split: if_splits)
  show ?case
  proof (cases ok1)
    case True
    then have "\<exists>y\<in>set c1. member_id y = member_id x' \<and> (member_annotation x' k = member_annotation y k \<or>
       k = key \<and> (\<exists>m\<in>set ms. member_id m = member_id x' \<and> v m = member_annotation x' k \<and> v m \<noteq> []))"
      using Cons.prems f by (intro Cons.IH) auto
    then show ?thesis using one by (metis list.set_intros(1,2))
  next
    case False
    then have "x' \<in> set c1" using Cons.prems f by simp
    from one [OF this] show ?thesis by auto
  qed
qed auto

lemma approve_patch:
  "approve env m v c = (c', ok) \<Longrightarrow> c' = c \<or> (v \<noteq> [] \<and> c' = stamp approvedVersionAnnotation v m c)"
  by (auto simp: approve_def split: if_splits)

lemma rollback_patch:
  "v \<noteq> [] \<Longrightarrow> rollbackMember env v m c = (c', ok) \<Longrightarrow> c' = c \<or> (v \<noteq> [] \<and> c' = stamp rollbackToAnnotation v m c)"
  by (auto simp: rollbackMember_def split: if_splits)

lemma approve_all_annotation:
  "patch_all (\<lambda>m. approve env m (v m)) ms c = (c', ok) \<Longrightarrow> x' \<in> set c' \<Longrightarrow>
   \<exists>x\<in>set c. member_id x = member_id x' \<and>
     (member_annotation x' k = member_annotation x k \<or>
      k = approvedVersionAnnotation \<and> (\<exists>m\<in>set ms. member_id m = member_id x' \<and> v m = member_annotation x' k \<and> v m \<noteq> []))"
  by (rule patch_all_annotation [where f = "\<lambda>m. approve env m (v m)" and v = v]) (rule approve_patch)

lemma rollback_all_annotation:
  "v \<noteq> [] \<Longrightarrow> patch_all (rollbackMember env v) ms c = (c', ok) \<Longrightarrow> x' \<in> set c' \<Longrightarrow>
   \<exists>x\<in>set c. member_id x = member_id x' \<and>
     (member_annotation x' k = member_annotation x k \<or>
      k = rollbackToAnnotation \<and> (\<exists>m\<in>set ms. member_id m = member_id x' \<and> v = member_annotation x' k \<and> v \<noteq> []))"
  using patch_all_annotation [where f = "rollbackMember env v" and v = "\<lambda>_. v" and key = rollbackToAnnotation
      and ms = ms and c = c and c' = c' and ok = ok and x' = x' and k = k] rollback_patch [of v env] by simp

lemma halt_cluster:
  assumes "halt env spec w ms (st, c) = ((st', c'), r)" "x' \<in> set c'"
  shows "\<exists>x\<in>set c. member_id x = member_id x' \<and>
    member_annotation x' approvedVersionAnnotation = member_annotation x approvedVersionAnnotation"
proof (cases "fsp_OnRegression spec = ''Rollback'' \<and> fsp_PreviousVersion spec \<noteq> []")
  case True
  obtain c1 ok where p: "patch_all (rollbackMember env (fsp_PreviousVersion spec)) ms c = (c1, ok)" by fastforce
  then have "c1 = c'" using assms(1) True by (auto simp: halt_def Let_def split: if_splits)
  moreover have "approvedVersionAnnotation \<noteq> rollbackToAnnotation"
    by (simp add: approvedVersionAnnotation_def rollbackToAnnotation_def)
  ultimately show ?thesis
    using rollback_all_annotation [OF _ p] True assms(2) by blast
next
  case False
  then show ?thesis using assms by (auto simp: halt_def Let_def)
qed

lemma approved_wave:
  assumes "reconcile_fleet env fr cluster = ((st', cluster'), r)" "x' \<in> set cluster'"
    and "\<forall>x\<in>set cluster. member_id x = member_id x' \<longrightarrow>
      member_annotation x approvedVersionAnnotation \<noteq> member_annotation x' approvedVersionAnnotation"
  obtains wm i walked w m where "fleet_view env fr cluster = Some wm"
    "walk_waves env (fst_Waves (fr_Status fr)) (waves_of fr) (settled_waves env fr wm) = (walked, FirstOpen i)"
    "w < length (waves_of fr)" "\<forall>n. i = Some n \<longrightarrow> w \<le> n" "m \<in> set (wm ! w)" "member_id m = member_id x'"
    "fleetApprovalVersion (fr_Spec fr) m = member_annotation x' approvedVersionAnnotation"
proof -
  obtain wm where v: "fleet_view env fr cluster = Some wm"
    using reconcile_blind [of env fr cluster] assms by (cases "fleet_view env fr cluster") auto
  note len = fleet_view_length [OF v]
  from advance_waves_walk [OF v] obtain walked e where
    walk: "walk_waves env (fst_Waves (fr_Status fr)) (waves_of fr) (settled_waves env fr wm) = (walked, e)" and
    r: "reconcile_fleet env fr cluster = (case e of
        HaltAt w _ \<Rightarrow> halt env (fr_Spec fr) (waves_of fr ! w) (wm ! w) ((observed fr)\<lparr>fst_Waves := walked\<rparr>, cluster)
      | FirstOpen i \<Rightarrow> open_waves env (fr_Spec fr) wm i ((observed fr)\<lparr>fst_Waves := walked\<rparr>, cluster))" .
  show ?thesis
  proof (cases e)
    case (HaltAt n c)
    then have "halt env (fr_Spec fr) (waves_of fr ! n) (wm ! n) ((observed fr)\<lparr>fst_Waves := walked\<rparr>, cluster) = ((st', cluster'), r)"
      using r assms(1) by simp
    from halt_cluster [OF this assms(2)] assms(3) show ?thesis by metis
  next
    case (FirstOpen i)
    let ?n = "case i of Some w \<Rightarrow> Suc w | None \<Rightarrow> length (waves_of fr)"
    let ?f = "\<lambda>m. approve env m (fleetApprovalVersion (fr_Spec fr) m)"
    obtain c1 ok where p: "patch_all ?f (concat (take ?n wm)) cluster = (c1, ok)" by fastforce
    then have "c1 = cluster'"
      using assms(1) r FirstOpen by (auto simp: open_waves_def Let_def split: if_splits option.splits)
    then obtain m where m: "m \<in> set (concat (take ?n wm))" "member_id m = member_id x'"
      "fleetApprovalVersion (fr_Spec fr) m = member_annotation x' approvedVersionAnnotation"
      using approve_all_annotation [OF p, of x' approvedVersionAnnotation] assms(2,3) by metis
    then obtain w where w: "w < length (take ?n wm)" "m \<in> set (take ?n wm ! w)" by (metis UN_E in_set_conv_nth set_concat)
    show ?thesis
    proof (rule that [OF v walk [unfolded FirstOpen], of w m])
      show "\<forall>n. i = Some n \<longrightarrow> w \<le> n" using w(1) by auto
    qed (use w len m in auto)
  qed
qed



section \<open>A fleet of two waves\<close>

definition demo_fleet_env :: "instant \<Rightarrow> int fleet_env" where
  "demo_fleet_env now = \<lparr>fv_now = now,
     fv_select = (\<lambda>s. Some (\<lambda>l. s = ''all'' \<or> l ''wave'' = Some s)), fv_listable = True,
     fv_namespaces = Inr [], fv_rollouts = Inr [], fv_query = None, fv_parse = (\<lambda>_. None), fv_patch_ok = (\<lambda>_. True)\<rparr>"

definition demo_member :: "string \<Rightarrow> string \<Rightarrow> string \<Rightarrow> fleet_member" where
  "demo_member name version pending = \<lparr>so_Namespace = ''ns'', so_Name = name, so_DependsOn = [], so_Generation = 1,
     so_ObservedGeneration = 1, so_Ready = Some ''True'', so_PendingUpdate = None, so_Version = version,
     fm_Labels = [''wave'' \<mapsto> name], fm_Annotations = Map.empty, fm_PendingVersion = pending\<rparr>"

definition demo_wave :: "string \<Rightarrow> FleetWave" where
  "demo_wave name = \<lparr>fwv_Name = name, fwv_Selector = name, fwv_Soak = Some 5, fwv_Gate = None\<rparr>"

definition demo_fleet :: "string \<Rightarrow> FleetRollout" where
  "demo_fleet version = \<lparr>fr_Name = ''fleet'', fr_Generation = 1,
     fr_Spec = \<lparr>fsp_TargetVersion = version, fsp_Selector = ''all'', fsp_NamespaceSelector = None,
       fsp_Waves = [demo_wave ''canary'', demo_wave ''rest''], fsp_OnRegression = ''Rollback'', fsp_PreviousVersion = ''1''\<rparr>,
     fr_Status = \<lparr>fst_ObservedGeneration = 0, fst_Phase = FleetUnset, fst_CurrentWave = [], fst_Waves = [], fst_Ready = None\<rparr>\<rparr>"

lemma demo_view:
  "fleet_view (demo_fleet_env now) (demo_fleet v) [demo_member ''canary'' a p, demo_member ''rest'' b q] =
     Some [[demo_member ''canary'' a p], [demo_member ''rest'' b q]]"
  by (simp add: fleet_view_def fleet_members_def demo_fleet_env_def demo_fleet_def demo_wave_def contestedMembers_def
      claimed_elsewhere_def gateSecretRef_def unassigned_def wave_members_def demo_member_def)

lemma demo_waves [simp]: "waves_of (demo_fleet v) = [demo_wave ''canary'', demo_wave ''rest'']"
  "fst_Waves (fr_Status (demo_fleet v)) = []"
  by (simp_all add: demo_fleet_def)


section \<open>A pass that halts nowhere\<close>

definition clears :: "('v :: linorder) fleet_env \<Rightarrow> FleetRollout \<Rightarrow> fleet_member list list \<Rightarrow> nat \<Rightarrow> bool" where
  "clears env fr wm k \<longleftrightarrow> wave_healthy fr k wm \<and> gate_passes env (waves_of fr ! k) \<and>
     (case soak_of fr k of Some t \<Rightarrow> t | None \<Rightarrow> fv_now env + wave_soak (waves_of fr ! k)) \<le> fv_now env"

lemma wave_passed_clears:
  assumes "length wm = length (waves_of fr)" "k < length (waves_of fr)"
  shows "wave_passed env (waves_of fr ! k) (settled_waves env fr wm ! k) \<longleftrightarrow> clears env fr wm k"
    and "wave_regressed (fst_Waves (fr_Status fr)) (settled_waves env fr wm ! k) \<longleftrightarrow>
      soak_of fr k \<noteq> None \<and> \<not> wave_healthy fr k wm"
  using assms
  by (auto simp: settled_waves_nth wave_passed_def clears_def soak_over_def wave_healthy_def soak_of_def wave_regressed_def
      split: if_splits option.splits)

lemma wave_fails_gate: "wave_fails env w s \<Longrightarrow> gate_fails env w"
  by (simp add: wave_fails_def)

definition first_open :: "('v :: linorder) fleet_env \<Rightarrow> FleetRollout \<Rightarrow> fleet_member list list \<Rightarrow> nat option \<Rightarrow> bool" where
  "first_open env fr wm i \<longleftrightarrow>
     (case i of None \<Rightarrow> \<forall>k<length (waves_of fr). clears env fr wm k
      | Some n \<Rightarrow> n < length (waves_of fr) \<and> (\<forall>k<n. clears env fr wm k) \<and> \<not> clears env fr wm n)"

text \<open>What stamping some members leaves behind: \<open>f\<close> says with which version each.\<close>

definition stamped_member :: "string \<Rightarrow> (fleet_member \<Rightarrow> string) \<Rightarrow> fleet_member set \<Rightarrow> fleet_member \<Rightarrow> fleet_member" where
  "stamped_member key f S x =
     (if x \<in> S \<and> f x \<noteq> [] \<and> member_annotation x key \<noteq> f x
      then x\<lparr>fm_Annotations := (fm_Annotations x)(key \<mapsto> f x)\<rparr> else x)"

abbreviation approved_member :: "FleetRolloutSpec \<Rightarrow> fleet_member set \<Rightarrow> fleet_member \<Rightarrow> fleet_member" where
  "approved_member spec \<equiv> stamped_member approvedVersionAnnotation (fleetApprovalVersion spec)"

lemma stamped_member_annotation:
  "member_annotation (stamped_member key f S x) key = (if x \<in> S \<and> f x \<noteq> [] then f x else member_annotation x key)"
  by (simp add: stamped_member_def member_annotation_def)

lemma stamped_member_id [simp]: "member_id (stamped_member key f S x) = member_id x"
  by (simp add: stamped_member_def member_id_def)

lemma stamped_none [simp]: "map (stamped_member key f {}) cluster = cluster"
  by (simp add: stamped_member_def map_idI)

definition stamps :: "string \<Rightarrow> (fleet_member \<Rightarrow> string) \<Rightarrow> (fleet_member \<Rightarrow> fleet_member list \<Rightarrow> fleet_member list \<times> bool) \<Rightarrow> bool" where
  "stamps key f g \<longleftrightarrow>
     (\<forall>m c. g m c = (if f m = [] \<or> member_annotation m key = f m then (c, True) else (stamp key (f m) m c, True)))"

lemma stamps_member:
  assumes "distinct (map member_id cluster)" "m \<in> set cluster" "stamps key f g"
  shows "g m (map (stamped_member key f S) cluster) = (map (stamped_member key f (insert m S)) cluster, True)"
proof -
  have only: "x = m" if "x \<in> set cluster" "member_id x = member_id m" for x
    using assms(1,2) that by (auto simp: distinct_map dest: inj_onD)
  have same: "stamped_member key f (insert m S) x = stamped_member key f S x" if "x \<noteq> m" for x
    using that by (simp add: stamped_member_def)
  show ?thesis
  proof (cases "f m = [] \<or> member_annotation m key = f m")
    case True
    then have "stamped_member key f (insert m S) m = stamped_member key f S m" by (auto simp: stamped_member_def)
    then have "stamped_member key f (insert m S) x = stamped_member key f S x" for x using same by (cases "x = m") auto
    then show ?thesis using True assms(3) by (simp add: stamps_def)
  next
    case False
    have up: "(stamped_member key f S m)\<lparr>fm_Annotations := (fm_Annotations (stamped_member key f S m))(key \<mapsto> f m)\<rparr> =
        stamped_member key f (insert m S) m"
      using False by (simp add: stamped_member_def)
    have "(if member_id (stamped_member key f S x) = member_id m
        then (stamped_member key f S x)\<lparr>fm_Annotations := (fm_Annotations (stamped_member key f S x))(key \<mapsto> f m)\<rparr>
        else stamped_member key f S x) = stamped_member key f (insert m S) x" if "x \<in> set cluster" for x
    proof (cases "x = m")
      case True
      then show ?thesis using up by simp
    next
      case False
      then show ?thesis using only [OF that] same by auto
    qed
    then have "stamp key (f m) m (map (stamped_member key f S) cluster) = map (stamped_member key f (insert m S)) cluster"
      unfolding stamp_def by (simp add: member_id_def)
    then show ?thesis using False assms(3) by (simp add: stamps_def)
  qed
qed

lemma stamps_all:
  assumes "distinct (map member_id cluster)" "stamps key f g"
  shows "set ms \<subseteq> set cluster \<Longrightarrow>
    patch_all g ms (map (stamped_member key f S) cluster) = (map (stamped_member key f (S \<union> set ms)) cluster, True)"
proof (induction ms arbitrary: S)
  case (Cons m ms)
  then show ?case using stamps_member [OF assms(1) _ assms(2), of m S] Cons.IH [of "insert m S"] by simp
qed simp

lemma approve_stamps:
  "\<forall>m. fv_patch_ok env m \<Longrightarrow>
   stamps approvedVersionAnnotation (fleetApprovalVersion spec) (\<lambda>m. approve env m (fleetApprovalVersion spec m))"
  by (auto simp: stamps_def approve_def)

lemma rollback_stamps:
  "\<forall>m. fv_patch_ok env m \<Longrightarrow> v \<noteq> [] \<Longrightarrow> stamps rollbackToAnnotation (\<lambda>_. v) (rollbackMember env v)"
  by (auto simp: stamps_def rollbackMember_def)

lemma view_members: "fleet_view env fr cluster = Some wm \<Longrightarrow> ms \<in> set wm \<Longrightarrow> set ms \<subseteq> set cluster"
  by (auto simp: fleet_view_def wave_members_def fleet_members_def Let_def split: sum.splits if_splits option.splits)

definition open_through :: "FleetRollout \<Rightarrow> nat option \<Rightarrow> nat" where
  "open_through fr i = (case i of Some n \<Rightarrow> Suc n | None \<Rightarrow> length (waves_of fr))"

lemma pass_opens:
  assumes "fleet_view env fr cluster = Some wm" "distinct (map member_id cluster)" "\<forall>m. fv_patch_ok env m"
    and "\<forall>k<length (waves_of fr). soak_of fr k = None \<or> wave_healthy fr k wm"
    and "\<forall>w\<in>set (waves_of fr). \<not> gate_fails env w"
  obtains i where "first_open env fr wm i"
    "snd (fst (reconcile_fleet env fr cluster)) =
       map (approved_member (fr_Spec fr) (\<Union> (set ` set (take (open_through fr i) wm)))) cluster"
    "fst_Phase (fr_Status (fleet_pass (env, cluster) fr)) = (if i = None then FleetCompleted else FleetInProgress)"
    "fst_Ready (fr_Status (fleet_pass (env, cluster) fr)) =
       Some (True, if i = None then ReasonFleetCompleted else ReasonFleetProgressing)"
proof -
  note len = fleet_view_length [OF assms(1)]
  have len': "length (waves_of fr) = length (settled_waves env fr wm)" using len by simp
  from advance_waves_walk [OF assms(1)] obtain walked e where
    walk: "walk_waves env (fst_Waves (fr_Status fr)) (waves_of fr) (settled_waves env fr wm) = (walked, e)" and
    r: "reconcile_fleet env fr cluster = (case e of
        HaltAt w _ \<Rightarrow> halt env (fr_Spec fr) (waves_of fr ! w) (wm ! w) ((observed fr)\<lparr>fst_Waves := walked\<rparr>, cluster)
      | FirstOpen i \<Rightarrow> open_waves env (fr_Spec fr) wm i ((observed fr)\<lparr>fst_Waves := walked\<rparr>, cluster))" .
  obtain i where e: "e = FirstOpen i"
  proof (cases e)
    case (HaltAt k c)
    from walk_waves_halt [OF len' walk [unfolded HaltAt]] have k: "k < length (waves_of fr)" and
      bad: "wave_regressed (fst_Waves (fr_Status fr)) (settled_waves env fr wm ! k) \<or>
        wave_fails env (waves_of fr ! k) (settled_waves env fr wm ! k)"
      by (auto split: if_splits)
    have "\<not> gate_fails env (waves_of fr ! k)" using assms(5) k by simp
    then have "wave_regressed (fst_Waves (fr_Status fr)) (settled_waves env fr wm ! k)" using bad wave_fails_gate [of env] by blast
    then have "soak_of fr k \<noteq> None \<and> \<not> wave_healthy fr k wm" by (rule wave_passed_clears(2) [OF len k, THEN iffD1])
    moreover have "soak_of fr k = None \<or> wave_healthy fr k wm" using assms(4) k by simp
    ultimately show ?thesis by simp
  qed
  have fo: "first_open env fr wm i"
    using walk_waves_open [OF len' walk [unfolded e]] wave_passed_clears(1) [OF len]
    by (auto simp: first_open_def split: option.splits)
  have sub: "set (concat (take (open_through fr i) wm)) \<subseteq> set cluster"
    using view_members [OF assms(1)] by (auto dest!: in_set_takeD)
  have "patch_all (\<lambda>m. approve env m (fleetApprovalVersion (fr_Spec fr) m)) (concat (take (open_through fr i) wm)) cluster =
      (map (approved_member (fr_Spec fr) (set (concat (take (open_through fr i) wm)))) cluster, True)"
    using stamps_all [OF assms(2) approve_stamps [OF assms(3)] sub, where S = "{}"] by simp
  then have "reconcile_fleet env fr cluster =
      (let c' = map (approved_member (fr_Spec fr) (set (concat (take (open_through fr i) wm)))) cluster;
           st = (observed fr)\<lparr>fst_Waves := walked\<rparr> in
       case i of
         None \<Rightarrow> ((setFleetReady True ReasonFleetCompleted (st\<lparr>fst_Phase := FleetCompleted, fst_CurrentWave := []\<rparr>), c'), FleetDone None)
       | Some w \<Rightarrow> ((setFleetReady True ReasonFleetProgressing
             (st\<lparr>fst_Phase := FleetInProgress, fst_CurrentWave := fwv_Name (waves_of fr ! w)\<rparr>), c'),
           FleetDone (Some (requeueAfter walked (fv_now env)))))"
    using r e by (simp add: open_waves_def Let_def open_through_def split: option.splits)
  then show ?thesis
    using that [OF fo] by (cases i) (simp_all add: Let_def fleet_pass_def setFleetReady_def)
qed


lemma demo_healthy [simp]:
  "wave_healthy (demo_fleet v) 0 [[demo_member n a p], rest] \<longleftrightarrow> (if v \<noteq> [] then a = v else p = [])"
  "wave_healthy (demo_fleet v) (Suc 0) [first, [demo_member n a p]] \<longleftrightarrow> (if v \<noteq> [] then a = v else p = [])"
  by (simp_all add: wave_healthy_def healthy_member_def memberProgress_def fleetAdopted_def demo_fleet_def demo_member_def
      isReady_def update_held_def StageSetObj.truncate_def)

lemma demo_names [simp]: "distinct (map fwv_Name (waves_of (demo_fleet v)))" "fwv_Name (demo_wave n) = n"
  "wave_soak (demo_wave n) = 5" "fwv_Gate (demo_wave n) = None" "gate_passes env (demo_wave n)" "\<not> gate_fails env (demo_wave n)"
  by (simp_all add: demo_wave_def wave_soak_def gate_passes_def gate_fails_def)

lemma demo_env [simp]: "fv_now (demo_fleet_env t) = t" "\<forall>m. fv_patch_ok (demo_fleet_env t) m" "fv_patch_ok (demo_fleet_env t) m"
  by (simp_all add: demo_fleet_env_def)

lemma demo_soak_start [simp]: "soak_of (demo_fleet v) k = None"
  by (simp add: soak_of_def prior_soak_def prior_waves_def)

lemma demo_ids [simp]: "member_id (demo_member n a p) = (''ns'', n)"
  by (simp add: member_id_def demo_member_def)

lemma demo_annotation [simp]: "member_annotation (demo_member n a p) k = []"
  by (simp add: member_annotation_def demo_member_def)


end
