(* ===== verification/MigrationRun.thy ===== *)
theory MigrationRun
  imports Migrations
begin

text \<open>
  Running the migrations of a plan (\<open>runStageMigrations\<close>, \<open>runStageDowngrades\<close> of
  \<open>internal/controller/migrations.go\<close>) inside the stage loop, with the whole-migration and the
  per-action ledger of the status, and whole passes: plan, approval gate, stages, version advance. The
  digest of a migration's content is a parameter; \<open>mgs_runs\<close> counts the side effects of each ledger
  entry and is read by no code.
\<close>

record 'w mig_state =
  mgs_world :: 'w
  mgs_status :: version_status
  mgs_runs :: "string \<Rightarrow> nat"

section \<open>Ledger keys\<close>

definition migrationKey :: "(Migration \<Rightarrow> string) \<Rightarrow> Migration \<Rightarrow> string" where
  "migrationKey digest m = mig_Name m @ ''@'' @ digest m"

definition entry :: "string \<Rightarrow> string \<Rightarrow> string" where
  "entry key name = key @ ''/'' @ name"

definition actionsDoneFor :: "string list \<Rightarrow> string \<Rightarrow> string set" where
  "actionsDoneFor ledger key =
     set (map (drop (length (key @ ''/''))) (filter (\<lambda>e. has_prefix e (key @ ''/'')) ledger))"

definition before_sep :: "char \<Rightarrow> string \<Rightarrow> string" where
  "before_sep c s = (case cut c s of (before, _, found) \<Rightarrow> if found then before else s)"

definition migEntryName :: "string \<Rightarrow> string" where
  "migEntryName key = before_sep (CHR ''@'') key"

definition dropSupersededLedger :: "string list \<Rightarrow> string \<Rightarrow> string \<Rightarrow> bool \<Rightarrow> string list" where
  "dropSupersededLedger entries name keep action =
     filter (\<lambda>e. let key = (if action then before_sep (CHR ''/'') e else e)
                 in \<not> (migEntryName key = name \<and> key \<noteq> keep)) entries"

definition pruneSupersededLedger :: "string \<Rightarrow> string \<Rightarrow> version_status \<Rightarrow> version_status" where
  "pruneSupersededLedger name keep st =
     st\<lparr>vst_ExecutedMigrations := dropSupersededLedger (vst_ExecutedMigrations st) name keep False,
        vst_ExecutedMigrationActions := dropSupersededLedger (vst_ExecutedMigrationActions st) name keep True\<rparr>"

section \<open>Running\<close>

definition counted_mig ::
  "(Action \<Rightarrow> 'w \<Rightarrow> 'w \<times> exec_error option) \<Rightarrow> string \<Rightarrow> Action \<Rightarrow> 'w mig_state \<Rightarrow> 'w mig_state \<times> exec_error option" where
  "counted_mig act key a st =
     (case act a (mgs_world st) of
        (w, None) \<Rightarrow> (st\<lparr>mgs_world := w,
          mgs_runs := (mgs_runs st)(entry key (act_Name a) := Suc (mgs_runs st (entry key (act_Name a))))\<rparr>, None)
      | (w, Some e) \<Rightarrow> (st\<lparr>mgs_world := w\<rparr>, Some e))"

definition record_mig :: "string \<Rightarrow> string \<Rightarrow> 'w mig_state \<Rightarrow> 'w mig_state \<times> unit option" where
  "record_mig key name st =
     (st\<lparr>mgs_status := (mgs_status st)\<lparr>vst_ExecutedMigrationActions :=
        vst_ExecutedMigrationActions (mgs_status st) @ [entry key name]\<rparr>\<rparr>, None)"

definition run_keyed ::
  "(Action \<Rightarrow> 'w \<Rightarrow> 'w \<times> exec_error option) \<Rightarrow> string \<Rightarrow> Action list \<Rightarrow> 'w mig_state
   \<Rightarrow> 'w mig_state \<times> unit run_error option" where
  "run_keyed act key acts st =
     Run (counted_mig act key) (Some (record_mig key))
       (actionsDoneFor (vst_ExecutedMigrationActions (mgs_status st)) key) acts st"

definition mark_executed :: "string \<Rightarrow> 'w mig_state \<Rightarrow> 'w mig_state" where
  "mark_executed key st =
     st\<lparr>mgs_status := (mgs_status st)\<lparr>vst_ExecutedMigrations := vst_ExecutedMigrations (mgs_status st) @ [key]\<rparr>\<rparr>"

definition prune_state :: "string \<Rightarrow> string \<Rightarrow> 'w mig_state \<Rightarrow> 'w mig_state" where
  "prune_state name keep st = st\<lparr>mgs_status := pruneSupersededLedger name keep (mgs_status st)\<rparr>"

text \<open>The two loops; \<open>executed\<close> is the set of keys read when the loop starts and extended in it.\<close>

fun run_up ::
  "(Migration \<Rightarrow> string) \<Rightarrow> (Action \<Rightarrow> 'w \<Rightarrow> 'w \<times> exec_error option) \<Rightarrow> string list \<Rightarrow> Migration list
   \<Rightarrow> 'w mig_state \<Rightarrow> 'w mig_state \<times> unit run_error option" where
  "run_up digest act executed [] st = (st, None)"
| "run_up digest act executed (m # ms) st =
     (let key = migrationKey digest m in
      if key \<in> set executed then run_up digest act executed ms st
      else case run_keyed act key (mig_Actions m) st of
        (st1, Some e) \<Rightarrow> (st1, Some e)
      | (st1, None) \<Rightarrow>
          run_up digest act (key # executed) ms (prune_state (mig_Name m) key (mark_executed key st1)))"

fun run_down ::
  "(Migration \<Rightarrow> string) \<Rightarrow> (Action \<Rightarrow> 'w \<Rightarrow> 'w \<times> exec_error option) \<Rightarrow> string list \<Rightarrow> Migration list
   \<Rightarrow> 'w mig_state \<Rightarrow> 'w mig_state \<times> unit run_error option" where
  "run_down digest act executed [] st = (st, None)"
| "run_down digest act executed (m # ms) st =
     (let key = migrationKey digest m in
      if key \<in> set executed then run_down digest act executed ms st
      else case run_keyed act (entry key ''down'') (mig_Down m) st of
        (st1, Some e) \<Rightarrow> (st1, Some e)
      | (st1, None) \<Rightarrow> run_down digest act (key # executed) ms (mark_executed key st1))"

definition runStageDowngrades ::
  "(Migration \<Rightarrow> string) \<Rightarrow> (Action \<Rightarrow> 'w \<Rightarrow> 'w \<times> exec_error option) \<Rightarrow> migrationPlan \<Rightarrow> string
   \<Rightarrow> 'w mig_state \<Rightarrow> 'w mig_state \<times> unit run_error option" where
  "runStageDowngrades digest act plan stage st =
     run_down digest act (vst_ExecutedMigrations (mgs_status st)) (mp_byStage plan stage) st"

definition runStageMigrations ::
  "(Migration \<Rightarrow> string) \<Rightarrow> (Action \<Rightarrow> 'w \<Rightarrow> 'w \<times> exec_error option) \<Rightarrow> migrationPlan \<Rightarrow> string
   \<Rightarrow> 'w mig_state \<Rightarrow> 'w mig_state \<times> unit run_error option" where
  "runStageMigrations digest act plan stage st =
     (if mp_baseline plan then (st, None)
      else if mp_downgrade plan then runStageDowngrades digest act plan stage st
      else run_up digest act (vst_ExecutedMigrations (mgs_status st)) (mp_byStage plan stage) st)"

section \<open>Passes\<close>

text \<open>The stage loop as far as migrations go: \<open>rest_ok\<close> says whether everything else of a stage succeeds.
  A failed migration counts; the loop stops at the first failure.\<close>

fun stage_migrations ::
  "(Migration \<Rightarrow> string) \<Rightarrow> (Action \<Rightarrow> 'w \<Rightarrow> 'w \<times> exec_error option) \<Rightarrow> (string \<Rightarrow> bool) \<Rightarrow> migrationPlan
   \<Rightarrow> string list \<Rightarrow> 'w mig_state \<Rightarrow> 'w mig_state \<times> bool" where
  "stage_migrations digest act rest_ok plan [] st = (st, True)"
| "stage_migrations digest act rest_ok plan (stage # stages) st =
     (case runStageMigrations digest act plan stage st of
        (st1, Some e) \<Rightarrow>
          (st1\<lparr>mgs_status := (mgs_status st1)\<lparr>vst_MigrationFailureCount := vst_MigrationFailureCount (mgs_status st1) + 1\<rparr>\<rparr>, False)
      | (st1, None) \<Rightarrow>
          if rest_ok stage then stage_migrations digest act rest_ok plan stages st1 else (st1, False))"

definition migration_fail_op :: "version_status \<Rightarrow> string" where
  "migration_fail_op st = (if vst_MigrationFailureCount st \<ge> maxMigrationFailures then opMigrationDirty else opMigration)"

text \<open>A fully successful run advances the version and clears the ledgers.\<close>

definition advance_version :: "migrationPlan \<Rightarrow> version_status \<Rightarrow> version_status" where
  "advance_version plan st =
     (if mp_versionSet plan then
        st\<lparr>vst_Version := mp_desired plan, vst_ExecutedMigrations := [], vst_ExecutedMigrationActions := [],
           vst_PendingMigrations := [], vst_MigrationFailureCount := 0\<rparr>
      else st)"

text \<open>One reconcile pass: what its calls return, what its actions do, how its stages end.\<close>

record ('v, 'w) version_pass =
  vp_env :: "'v plan_env"
  vp_set :: StageSet
  vp_resolved :: "ResolvedArtifact list"
  vp_act :: "Action \<Rightarrow> 'w \<Rightarrow> 'w \<times> exec_error option"
  vp_rest_ok :: "string \<Rightarrow> bool"

datatype pass_end = PlanFailed plan_error | AwaitingApproval | StageStopped | Synced

definition version_pass ::
  "(Migration \<Rightarrow> string) \<Rightarrow> ('v :: linorder, 'w) version_pass \<Rightarrow> 'w mig_state \<Rightarrow> 'w mig_state \<times> pass_end" where
  "version_pass digest p st =
     (let ss = vp_set p; v = mgs_status st in
      case planVersionMigrations (vp_env p) ss (vst_Version v) (vp_resolved p) of
        Inl e \<Rightarrow> (st, PlanFailed e)
      | Inr plan \<Rightarrow>
          let v1 = v\<lparr>vst_PendingMigrations := pendingDetails digest ss plan\<rparr> in
          if awaits_approval ss plan (vst_Version v)
          then (st\<lparr>mgs_status := v1\<lparr>vst_PendingVersion := mp_desired plan\<rparr>\<rparr>, AwaitingApproval)
          else (case stage_migrations digest (vp_act p) (vp_rest_ok p) plan
                (map stg_Name (spec_Stages (set_Spec ss))) (st\<lparr>mgs_status := v1\<lparr>vst_PendingVersion := []\<rparr>\<rparr>) of
              (st1, True) \<Rightarrow> (st1\<lparr>mgs_status := advance_version plan (mgs_status st1)\<rparr>, Synced)
            | (st1, False) \<Rightarrow> (st1, StageStopped)))"

fun version_passes ::
  "(Migration \<Rightarrow> string) \<Rightarrow> ('v :: linorder, 'w) version_pass list \<Rightarrow> 'w mig_state \<Rightarrow> 'w mig_state" where
  "version_passes digest [] st = st"
| "version_passes digest (p # ps) st = version_passes digest ps (fst (version_pass digest p st))"


section \<open>The ledger of single actions\<close>

lemma actionsDoneFor_iff: "n \<in> actionsDoneFor ledger key \<longleftrightarrow> entry key n \<in> set ledger"
proof
  assume "n \<in> actionsDoneFor ledger key"
  then obtain e where e: "e \<in> set ledger" "has_prefix e (key @ ''/'')" "n = drop (length (key @ ''/'')) e"
    by (auto simp: actionsDoneFor_def)
  from has_prefixE [OF e(2)] obtain t where "e = (key @ ''/'') @ t" .
  with e show "entry key n \<in> set ledger" by (simp add: entry_def)
next
  assume e: "entry key n \<in> set ledger"
  have "has_prefix (entry key n) (key @ ''/'')" "drop (length (key @ ''/'')) (entry key n) = n"
    by (simp_all add: entry_def has_prefix_def)
  with e show "n \<in> actionsDoneFor ledger key" unfolding actionsDoneFor_def by force
qed

lemma entry_eq [simp]: "entry key m = entry key n \<longleftrightarrow> m = n"
  by (simp add: entry_def)

lemma entry_down: "entry (entry key d) n = entry key (entry d n)"
  by (simp add: entry_def)

definition recorded_entry :: "string \<Rightarrow> 'w mig_state \<Rightarrow> bool" where
  "recorded_entry e st \<longleftrightarrow> e \<in> set (vst_ExecutedMigrationActions (mgs_status st))"

lemma counted_mig_eq:
  "counted_mig act key a st = (st', r) \<Longrightarrow> mgs_status st' = mgs_status st \<and>
   mgs_runs st' = (if r = None then (mgs_runs st)(entry key (act_Name a) := Suc (mgs_runs st (entry key (act_Name a))))
     else mgs_runs st)"
  by (auto simp: counted_mig_def split: prod.splits option.splits)

interpretation migration_recorder: action_recorder n "recorded_entry (entry key n)"
  "\<lambda>st. mgs_runs st (entry key n)" "counted_mig act key" "record_mig key" for n key act
proof unfold_locales
  show "counted_mig act key a s = (s', None) \<Longrightarrow> recorded_entry (entry key n) s' = recorded_entry (entry key n) s \<and>
      mgs_runs s' (entry key n) = (if act_Name a = n then Suc (mgs_runs s (entry key n)) else mgs_runs s (entry key n))"
    for a and s s' :: "'a mig_state"
    by (auto dest!: counted_mig_eq simp: recorded_entry_def)
  show "counted_mig act key a s = (s', Some e) \<Longrightarrow>
      recorded_entry (entry key n) s' = recorded_entry (entry key n) s \<and> mgs_runs s' (entry key n) = mgs_runs s (entry key n)"
    for a and s s' :: "'a mig_state" and e
    by (auto dest!: counted_mig_eq simp: recorded_entry_def)
qed (auto simp: record_mig_def recorded_entry_def)

definition entry_once :: "string \<Rightarrow> 'w mig_state \<Rightarrow> bool" where
  "entry_once e st \<longleftrightarrow> mgs_runs st e \<le> 1 \<and> (0 < mgs_runs st e \<longrightarrow> recorded_entry e st)"

lemma run_keyed_other:
  assumes "run_keyed act key acts st = (st', err)" "\<nexists>n. e = entry key n"
  shows "mgs_runs st' e = mgs_runs st e \<and> recorded_entry e st' = recorded_entry e st"
proof -
  define P where "P s \<longleftrightarrow> mgs_runs s e = mgs_runs st e \<and> recorded_entry e s = recorded_entry e st" for s :: "'a mig_state"
  have c: "\<forall>a s. P s \<longrightarrow> P (fst (counted_mig act key a s))"
  proof (intro allI impI)
    fix a s assume "P s"
    then show "P (fst (counted_mig act key a s))"
      using assms(2) by (cases "counted_mig act key a s") (auto dest!: counted_mig_eq simp: recorded_entry_def P_def)
  qed
  have r: "\<forall>n s. P s \<longrightarrow> P (fst (record_mig key n s))"
    using assms(2) by (auto simp: record_mig_def recorded_entry_def P_def)
  have "P st" by (simp add: P_def)
  from Run_preserves [OF c r assms(1) [unfolded run_keyed_def] this] show ?thesis by (simp add: P_def)
qed

lemma run_keyed_once:
  assumes "run_keyed act key acts st = (st', err)" "distinct (map act_Name acts)" "entry_once e st"
  shows "entry_once e st'"
proof (cases "\<exists>n. e = entry key n")
  case False
  with run_keyed_other [OF assms(1)] assms(3) show ?thesis by (simp add: entry_once_def)
next
  case True
  then obtain n where e: "e = entry key n" ..
  have "migration_recorder.once key n st" using assms(3) e by (simp add: migration_recorder.once_def entry_once_def)
  have "recorded_entry (entry key n) st \<longrightarrow>
      n \<in> actionsDoneFor (vst_ExecutedMigrationActions (mgs_status st)) key \<or> n \<notin> act_Name ` set acts"
    by (simp add: actionsDoneFor_iff recorded_entry_def)
  from migration_recorder.Run_once [OF assms(1) [unfolded run_keyed_def] assms(2) \<open>migration_recorder.once key n st\<close> this,
      of "\<lambda>_. True"]
  have "migration_recorder.once key n st'" by (simp add: record_mig_def)
  then show ?thesis unfolding e migration_recorder.once_def entry_once_def .
qed

section \<open>Superseded entries\<close>

text \<open>Migration names are DNS labels and digests hexadecimal, so a key splits at its separators.\<close>

definition clean_key :: "(Migration \<Rightarrow> string) \<Rightarrow> Migration \<Rightarrow> bool" where
  "clean_key digest m \<longleftrightarrow> CHR ''@'' \<notin> set (mig_Name m) \<and> CHR ''/'' \<notin> set (migrationKey digest m)"

lemma before_sep_append: "c \<notin> set a \<Longrightarrow> before_sep c (a @ c # b) = a"
  by (simp add: before_sep_def cut_append)

lemma migEntryName_key: "clean_key digest m \<Longrightarrow> migEntryName (migrationKey digest m) = mig_Name m"
  by (simp add: migEntryName_def migrationKey_def clean_key_def before_sep_append)

lemma entry_key: "clean_key digest m \<Longrightarrow> before_sep (CHR ''/'') (entry (migrationKey digest m) n) = migrationKey digest m"
  by (simp add: entry_def clean_key_def before_sep_append)

lemma prune_keeps_entry:
  assumes "clean_key digest m" "mig_Name m = mig_Name m' \<longrightarrow> m = m'"
  shows "recorded_entry (entry (migrationKey digest m) n) (prune_state (mig_Name m') (migrationKey digest m') st) \<longleftrightarrow>
    recorded_entry (entry (migrationKey digest m) n) st"
  using assms by (auto simp: recorded_entry_def prune_state_def pruneSupersededLedger_def dropSupersededLedger_def
      Let_def entry_key migEntryName_key)

lemma prune_runs [simp]: "mgs_runs (prune_state n k st) = mgs_runs st" "mgs_runs (mark_executed key st) = mgs_runs st"
  by (simp_all add: prune_state_def mark_executed_def)

lemma mark_recorded [simp]: "recorded_entry e (mark_executed key st) = recorded_entry e st"
  by (simp add: mark_executed_def recorded_entry_def)

section \<open>The loops run each entry at most once\<close>

definition unique_names :: "Migration list \<Rightarrow> bool" where
  "unique_names ladder \<longleftrightarrow> (\<forall>m\<in>set ladder. \<forall>m'\<in>set ladder. mig_Name m = mig_Name m' \<longrightarrow> m = m') \<and>
     (\<forall>m\<in>set ladder. distinct (map act_Name (mig_Actions m)) \<and> distinct (map act_Name (mig_Down m)))"

lemma unique_names_validated: "ValidateLadder sv ladder = Inr () \<Longrightarrow> unique_names ladder"
  using ValidateLadder_ok(1,2) [of sv ladder] ValidateMigration_ok [of sv]
  by (force simp: unique_names_def distinct_map inj_on_def)

lemma run_up_once:
  assumes "unique_names ladder" "m \<in> set ladder" "clean_key digest m"
  shows "run_up digest act executed ms st = (st', err) \<Longrightarrow> set ms \<subseteq> set ladder \<Longrightarrow>
    entry_once (entry (migrationKey digest m) n) st \<Longrightarrow> entry_once (entry (migrationKey digest m) n) st'"
proof (induction ms arbitrary: executed st)
  case (Cons m' ms)
  let ?k = "migrationKey digest m'"
  have m': "m' \<in> set ladder" "set ms \<subseteq> set ladder" using Cons.prems(2) by auto
  show ?case
  proof (cases "?k \<in> set executed")
    case True
    then show ?thesis using Cons.IH [OF _ m'(2) Cons.prems(3)] Cons.prems(1) by (simp add: Let_def)
  next
    case False
    obtain st1 r where r: "run_keyed act ?k (mig_Actions m') st = (st1, r)" by fastforce
    have "distinct (map act_Name (mig_Actions m'))" using assms(1) m'(1) by (simp add: unique_names_def)
    from run_keyed_once [OF r this Cons.prems(3)] have once: "entry_once (entry (migrationKey digest m) n) st1" .
    show ?thesis
    proof (cases r)
      case (Some e)
      then show ?thesis using Cons.prems(1) False r once by (simp add: Let_def)
    next
      case None
      have "mig_Name m = mig_Name m' \<longrightarrow> m = m'" using assms(1,2) m'(1) by (simp add: unique_names_def)
      from prune_keeps_entry [OF assms(3) this, of n "mark_executed ?k st1"] once
      have "entry_once (entry (migrationKey digest m) n) (prune_state (mig_Name m') ?k (mark_executed ?k st1))"
        by (simp add: entry_once_def)
      from Cons.IH [OF _ m'(2) this] show ?thesis using Cons.prems(1) False r None by (simp add: Let_def)
    qed
  qed
qed simp

lemma run_down_once:
  assumes "unique_names ladder"
  shows "run_down digest act executed ms st = (st', err) \<Longrightarrow> set ms \<subseteq> set ladder \<Longrightarrow>
    entry_once e st \<Longrightarrow> entry_once e st'"
proof (induction ms arbitrary: executed st)
  case (Cons m' ms)
  let ?k = "migrationKey digest m'"
  have m': "m' \<in> set ladder" "set ms \<subseteq> set ladder" using Cons.prems(2) by auto
  show ?case
  proof (cases "?k \<in> set executed")
    case True
    then show ?thesis using Cons.IH [OF _ m'(2) Cons.prems(3)] Cons.prems(1) by (simp add: Let_def)
  next
    case False
    obtain st1 r where r: "run_keyed act (entry ?k ''down'') (mig_Down m') st = (st1, r)" by fastforce
    have "distinct (map act_Name (mig_Down m'))" using assms(1) m'(1) by (simp add: unique_names_def)
    from run_keyed_once [OF r this Cons.prems(3)] have once: "entry_once e st1" .
    then have "entry_once e (mark_executed ?k st1)" by (simp add: entry_once_def)
    from Cons.IH [OF _ m'(2) this] show ?thesis
      using Cons.prems(1) False r once by (cases r) (simp_all add: Let_def)
  qed
qed simp


section \<open>Plans\<close>

lemma resolve_anchors_eq:
  "resolve_anchors ss ms byStage = Inr b \<Longrightarrow>
   b s = byStage s @ filter (\<lambda>m. anchorStage ss (mig_Stage m) = s) ms \<and>
   (\<forall>m\<in>set ms. anchorStage ss (mig_Stage m) \<noteq> [])"
  by (induction ss ms byStage rule: resolve_anchors.induct) (auto simp: Let_def split: if_splits)

lemma resolveAnchors_eq:
  "resolveAnchors ss plan = Inr plan' \<Longrightarrow>
   (\<exists>b. plan' = plan\<lparr>mp_byStage := b\<rparr>) \<and>
   (\<forall>m\<in>set (mp_pending plan'). anchorStage ss (mig_Stage m) \<noteq> []) \<and>
   (\<forall>s. mp_byStage plan' s = filter (\<lambda>m. anchorStage ss (mig_Stage m) = s) (mp_pending plan'))"
  by (auto simp: resolveAnchors_def bind_result_eq_Inr dest: resolve_anchors_eq)

lemma ladder_validated:
  "resolveMigrationLadder env ss = Inr (ladder, src) \<Longrightarrow> ValidateLadder (pe_semver env) ladder = Inr ()"
  by (auto simp: resolveMigrationLadder_def sourced_ladder_def bind_result_eq_Inr
      split: option.splits if_splits sum.splits)

lemma sort_desc_filter_set: "set (sort_desc f (filter P xs)) \<subseteq> set xs"
  by auto

text \<open>What a plan is: it has a pending migration only when it comes from a validated ladder, it is a
  transition to the offered version (no directive in effect), and the stages share its migrations.\<close>

definition plan_of :: "'v :: linorder plan_env \<Rightarrow> StageSet \<Rightarrow> migrationPlan \<Rightarrow> bool" where
  "plan_of env ss plan \<longleftrightarrow>
     (\<forall>s. mp_byStage plan s = filter (\<lambda>m. anchorStage ss (mig_Stage m) = s) (mp_pending plan)) \<and>
     (\<forall>m\<in>set (mp_pending plan). anchorStage ss (mig_Stage m) \<noteq> []) \<and>
     (mp_pending plan = [] \<or> (\<exists>ladder src. resolveMigrationLadder env ss = Inr (ladder, src) \<and>
        set (mp_pending plan) \<subseteq> set ladder))"

lemma planUpgrade_ok:
  assumes "planUpgrade env ss v c d desired = Inr plan"
  shows "plan_of env ss plan \<and> mp_versionSet plan \<and> mp_desired plan = desired \<and> \<not> mp_downgrade plan \<and> \<not> mp_baseline plan \<and>
    (\<exists>ladder src. resolveMigrationLadder env ss = Inr (ladder, src) \<and> Select (pe_semver env) ladder c d = Inr (mp_pending plan))"
proof -
  obtain ladder src pending where l: "resolveMigrationLadder env ss = Inr (ladder, src)"
    and p: "Select (pe_semver env) ladder c d = Inr pending"
    and r: "resolveAnchors ss ((with_source src zero_plan)\<lparr>mp_versionSet := True, mp_desired := desired, mp_pending := pending\<rparr>) = Inr plan"
  proof -
    obtain ladder src where l: "resolveMigrationLadder env ss = Inr (ladder, src)"
      using assms by (cases "resolveMigrationLadder env ss") (auto simp: planUpgrade_def)
    then show ?thesis using assms that
      by (cases "Select (pe_semver env) ladder c d") (auto simp: planUpgrade_def invalid_version_def split: if_splits)
  qed
  have parsed: "\<forall>m\<in>set ladder. well_parsed (pe_semver env) m"
    by (rule ValidateLadder_ok(3) [OF ladder_validated [OF l]])
  have "set pending \<subseteq> set ladder" using p by (auto simp: Select_eq [OF parsed])
  with resolveAnchors_eq [OF r] l p show ?thesis
    by (auto simp: plan_of_def with_source_def zero_plan_def split: option.splits)
qed

lemma planDowngrade_ok:
  assumes "planDowngrade env ss v c d desired = Inr plan"
  shows "plan_of env ss plan \<and> mp_versionSet plan \<and> mp_desired plan = desired \<and> mp_downgrade plan \<and> \<not> mp_baseline plan \<and>
    vs_AllowDowngrade v \<and> (\<forall>m\<in>set (mp_pending plan). mig_Down m \<noteq> []) \<and>
    (\<exists>ladder src. resolveMigrationLadder env ss = Inr (ladder, src) \<and> SelectDown (pe_semver env) ladder c d = Inr (mp_pending plan))"
proof -
  obtain ladder src pending where l: "resolveMigrationLadder env ss = Inr (ladder, src)"
    and p: "SelectDown (pe_semver env) ladder c d = Inr pending" "vs_AllowDowngrade v" "\<forall>m\<in>set pending. mig_Down m \<noteq> []"
    and r: "resolveAnchors ss ((with_source src zero_plan)\<lparr>mp_versionSet := True, mp_desired := desired,
        mp_downgrade := True, mp_pending := pending\<rparr>) = Inr plan"
  proof -
    obtain ladder src where l: "resolveMigrationLadder env ss = Inr (ladder, src)"
      using assms by (cases "resolveMigrationLadder env ss") (auto simp: planDowngrade_def split: if_splits)
    then show ?thesis using assms that
      by (cases "SelectDown (pe_semver env) ladder c d") (auto simp: planDowngrade_def invalid_version_def list_ex_iff split: if_splits)
  qed
  have parsed: "\<forall>m\<in>set ladder. well_parsed (pe_semver env) m"
    by (rule ValidateLadder_ok(3) [OF ladder_validated [OF l]])
  have "set pending \<subseteq> set ladder" using p(1) by (auto simp: SelectDown_eq [OF parsed])
  with resolveAnchors_eq [OF r] l p show ?thesis
    by (auto simp: plan_of_def with_source_def zero_plan_def split: option.splits)
qed

lemma zero_plan_of: "mp_pending plan = [] \<Longrightarrow> mp_byStage plan = (\<lambda>_. []) \<Longrightarrow> plan_of env ss plan"
  by (simp add: plan_of_def)

definition effective_desired :: "'v :: linorder plan_env \<Rightarrow> StageSet \<Rightarrow> string \<Rightarrow> string \<Rightarrow> string" where
  "effective_desired env ss current offered =
     (if rollbackDirective (pe_semver env) ss current \<noteq> [] then rollbackDirective (pe_semver env) ss current else offered)"

lemma plan_cases:
  assumes "planVersionMigrations env ss current resolved = Inr plan"
  obtains (unversioned) "spec_Version (set_Spec ss) = None" "plan = zero_plan"
  | (baseline) v offered where "spec_Version (set_Spec ss) = Some v" "resolveDesiredVersion env ss resolved v = Inr offered"
      "current = []" "plan = zero_plan\<lparr>mp_versionSet := True, mp_desired := effective_desired env ss current offered, mp_baseline := True\<rparr>"
  | (same) v offered w where "spec_Version (set_Spec ss) = Some v" "resolveDesiredVersion env ss resolved v = Inr offered"
      "current \<noteq> []" "sv_NewVersion (pe_semver env) current = Some w"
      "sv_NewVersion (pe_semver env) (effective_desired env ss current offered) = Some w"
      "plan = zero_plan\<lparr>mp_versionSet := True, mp_desired := effective_desired env ss current offered\<rparr>"
  | (down) v offered c d where "spec_Version (set_Spec ss) = Some v" "resolveDesiredVersion env ss resolved v = Inr offered"
      "current \<noteq> []" "sv_NewVersion (pe_semver env) current = Some c"
      "sv_NewVersion (pe_semver env) (effective_desired env ss current offered) = Some d" "d < c"
      "planDowngrade env ss v c d (effective_desired env ss current offered) = Inr plan"
  | (up) v offered c d where "spec_Version (set_Spec ss) = Some v" "resolveDesiredVersion env ss resolved v = Inr offered"
      "current \<noteq> []" "sv_NewVersion (pe_semver env) current = Some c"
      "sv_NewVersion (pe_semver env) (effective_desired env ss current offered) = Some d" "c < d"
      "planUpgrade env ss v c d (effective_desired env ss current offered) = Inr plan"
proof (cases "spec_Version (set_Spec ss)")
  case None
  then show ?thesis using assms unversioned by (simp add: planVersionMigrations_def)
next
  case v: (Some v)
  show ?thesis
  proof (cases "resolveDesiredVersion env ss resolved v")
    case (Inl e)
    then show ?thesis using assms v by (simp add: planVersionMigrations_def)
  next
    case o1: (Inr offered)
    let ?d = "effective_desired env ss current offered"
    let ?plan = "zero_plan\<lparr>mp_versionSet := True, mp_desired := ?d\<rparr>"
    have eq: "(case sv_NewVersion (pe_semver env) ?d of
                 None \<Rightarrow> invalid_version
               | Some desiredV \<Rightarrow>
                   if current = [] then Inr (?plan\<lparr>mp_baseline := True\<rparr>)
                   else (case sv_NewVersion (pe_semver env) current of
                       None \<Rightarrow> invalid_version
                     | Some currentV \<Rightarrow>
                         if desiredV < currentV then planDowngrade env ss v currentV desiredV ?d
                         else if desiredV = currentV then Inr ?plan
                         else planUpgrade env ss v currentV desiredV ?d)) = Inr plan"
      using assms unfolding planVersionMigrations_def v option.case o1 bind_result_Inr Let_def effective_desired_def .
    then obtain d where d: "sv_NewVersion (pe_semver env) ?d = Some d"
      by (cases "sv_NewVersion (pe_semver env) ?d") (simp_all add: invalid_version_def)
    show ?thesis
    proof (cases "current = []")
      case True
      then show ?thesis using eq d baseline [OF v o1] by simp
    next
      case ne: False
      then obtain c where c: "sv_NewVersion (pe_semver env) current = Some c"
        using eq d by (cases "sv_NewVersion (pe_semver env) current") (simp_all add: invalid_version_def)
      consider "d < c" | "d = c" | "c < d" by fastforce
      then show ?thesis
      proof cases
        case 1
        then show ?thesis using eq d c ne down [OF v o1] by simp
      next
        case 2
        then show ?thesis using eq d c ne same [OF v o1] by simp
      next
        case 3
        then have "\<not> d < c" "d \<noteq> c" by auto
        with 3 show ?thesis using eq d c ne up [OF v o1] by simp
      qed
    qed
  qed
qed

lemma plan_ok:
  assumes "planVersionMigrations env ss current resolved = Inr plan"
  shows "plan_of env ss plan \<and>
    (mp_versionSet plan \<longrightarrow> (\<exists>v offered. spec_Version (set_Spec ss) = Some v \<and>
      resolveDesiredVersion env ss resolved v = Inr offered \<and> mp_desired plan = effective_desired env ss current offered)) \<and>
    (current = mp_desired plan \<longrightarrow> mp_pending plan = [])"
  using assms
proof (cases rule: plan_cases)
  case (down v offered c d)
  then show ?thesis using planDowngrade_ok [OF down(7)] by auto
next
  case (up v offered c d)
  then show ?thesis using planUpgrade_ok [OF up(7)] by auto
qed (auto simp: zero_plan_def intro: zero_plan_of)


section \<open>Passes run each entry at most once\<close>

lemma stage_migrations_once:
  assumes "unique_names ladder" "m \<in> set ladder" "clean_key digest m"
    and "\<forall>s. set (mp_byStage plan s) \<subseteq> set ladder"
  shows "stage_migrations digest act rest_ok plan stages st = (st', ok) \<Longrightarrow>
    entry_once (entry (migrationKey digest m) n) st \<Longrightarrow> entry_once (entry (migrationKey digest m) n) st'"
proof (induction stages arbitrary: st)
  case (Cons stage stages)
  obtain st1 r where r: "runStageMigrations digest act plan stage st = (st1, r)" by fastforce
  have sub: "set (mp_byStage plan stage) \<subseteq> set ladder" using assms(4) by blast
  have once: "entry_once (entry (migrationKey digest m) n) st1"
    using r Cons.prems(2) run_up_once [OF assms(1-3) _ sub] run_down_once [OF assms(1) _ sub]
    by (auto simp: runStageMigrations_def runStageDowngrades_def split: if_splits)
  show ?case
  proof (cases r)
    case (Some e)
    then show ?thesis using r once Cons.prems(1) by (auto simp: entry_once_def recorded_entry_def)
  next
    case None
    then show ?thesis using r once Cons.prems(1) Cons.IH [OF _ once] by (auto split: if_splits)
  qed
qed simp

lemma stage_migrations_idle:
  assumes "\<forall>s. mp_byStage plan s = []"
  shows "stage_migrations digest act rest_ok plan stages st = (st', ok) \<Longrightarrow> st' = st"
proof (induction stages arbitrary: st)
  case (Cons stage stages)
  have "runStageMigrations digest act plan stage st = (st, None)"
    using assms by (simp add: runStageMigrations_def runStageDowngrades_def)
  then show ?case using Cons by (auto split: if_splits)
qed simp

text \<open>A pass of one transition: every pass is offered the same version and, when it can load one, the
  same ladder, with the same version semantics and no directive to roll back.\<close>

definition same_transition :: "'v :: linorder semver \<Rightarrow> string \<Rightarrow> Migration list \<Rightarrow> ('v, 'w) version_pass \<Rightarrow> bool" where
  "same_transition sv desired ladder p \<longleftrightarrow>
     pe_semver (vp_env p) = sv \<and> annotation (vp_set p) rollbackToAnnotation = [] \<and>
     (\<forall>v d. spec_Version (set_Spec (vp_set p)) = Some v \<and>
        resolveDesiredVersion (vp_env p) (vp_set p) (vp_resolved p) v = Inr d \<longrightarrow> d = desired) \<and>
     (\<forall>l src. resolveMigrationLadder (vp_env p) (vp_set p) = Inr (l, src) \<longrightarrow> l = ladder)"

definition transition_inv :: "(Migration \<Rightarrow> string) \<Rightarrow> Migration list \<Rightarrow> string \<Rightarrow> 'w mig_state \<Rightarrow> bool" where
  "transition_inv digest ladder desired st \<longleftrightarrow>
     (\<forall>m\<in>set ladder. \<forall>n. mgs_runs st (entry (migrationKey digest m) n) \<le> 1) \<and>
     (vst_Version (mgs_status st) = desired \<or>
      (\<forall>m\<in>set ladder. \<forall>n. entry_once (entry (migrationKey digest m) n) st))"

lemma version_pass_inv:
  assumes "same_transition sv desired ladder p" "\<forall>m\<in>set ladder. clean_key digest m"
    and "transition_inv digest ladder desired st"
  shows "transition_inv digest ladder desired (fst (version_pass digest p st))"
proof (cases "planVersionMigrations (vp_env p) (vp_set p) (vst_Version (mgs_status st)) (vp_resolved p)")
  case (Inl e)
  then show ?thesis using assms(3) by (simp add: version_pass_def Let_def)
next
  case (Inr plan)
  note plan = plan_ok [OF Inr]
  define v1 where "v1 = (mgs_status st)\<lparr>vst_PendingMigrations := pendingDetails digest (vp_set p) plan\<rparr>"
  define st0 where "st0 = st\<lparr>mgs_status := v1\<lparr>vst_PendingVersion := []\<rparr>\<rparr>"
  have no_rb: "rollbackDirective sv ss cur = []" if "annotation ss rollbackToAnnotation = []" for ss cur
    using that by (simp add: rollbackDirective_def)
  have des: "mp_versionSet plan \<Longrightarrow> mp_desired plan = desired"
    using plan assms(1) no_rb by (auto simp: same_transition_def effective_desired_def)
  obtain st1 ok where r: "stage_migrations digest (vp_act p) (vp_rest_ok p) plan
      (map stg_Name (spec_Stages (set_Spec (vp_set p)))) st0 = (st1, ok)" by fastforce
  have inv0: "transition_inv digest ladder desired st0"
    "transition_inv digest ladder desired (st\<lparr>mgs_status := v1\<lparr>vst_PendingVersion := mp_desired plan\<rparr>\<rparr>)"
    using assms(3) by (auto simp: transition_inv_def st0_def v1_def entry_once_def recorded_entry_def)
  have inv1: "transition_inv digest ladder desired st1"
  proof (cases "mp_pending plan = []")
    case True
    then have "\<forall>s. mp_byStage plan s = []" using plan by (simp add: plan_of_def)
    from stage_migrations_idle [OF this r] inv0 show ?thesis by simp
  next
    case False
    then obtain l' src where l': "resolveMigrationLadder (vp_env p) (vp_set p) = Inr (l', src)"
      and sub': "set (mp_pending plan) \<subseteq> set l'"
      using plan unfolding plan_of_def by metis
    have eq: "l' = ladder" using assms(1) l' unfolding same_transition_def by metis
    note l = l' [unfolded eq] and sub = sub' [unfolded eq]
    have unique: "unique_names ladder" by (rule unique_names_validated [OF ladder_validated [OF l]])
    have by_stage: "\<forall>s. set (mp_byStage plan s) \<subseteq> set ladder" using plan sub by (auto simp: plan_of_def)
    show ?thesis
    proof (cases "vst_Version (mgs_status st) = desired")
      case True
      then have "mp_versionSet plan \<Longrightarrow> mp_pending plan = []" using plan des by simp
      moreover have "mp_versionSet plan \<or> mp_pending plan = []"
        using Inr by (cases rule: plan_cases)
          (auto simp: zero_plan_def dest: planUpgrade_ok planDowngrade_ok)
      ultimately show ?thesis using False by blast
    next
      case ne: False
      then have "\<forall>m\<in>set ladder. \<forall>n. entry_once (entry (migrationKey digest m) n) st0"
        using inv0(1) by (simp add: transition_inv_def st0_def v1_def)
      then have "\<forall>m\<in>set ladder. \<forall>n. entry_once (entry (migrationKey digest m) n) st1"
        using stage_migrations_once [OF unique _ _ by_stage r] assms(2) by blast
      then show ?thesis by (auto simp: transition_inv_def entry_once_def)
    qed
  qed
  have inv2: "transition_inv digest ladder desired (st1\<lparr>mgs_status := advance_version plan (mgs_status st1)\<rparr>)"
    using inv1 des by (cases "mp_versionSet plan")
      (auto simp: transition_inv_def advance_version_def entry_once_def recorded_entry_def)
  have "fst (version_pass digest p st) =
      (if awaits_approval (vp_set p) plan (vst_Version (mgs_status st))
       then st\<lparr>mgs_status := v1\<lparr>vst_PendingVersion := mp_desired plan\<rparr>\<rparr>
       else if ok then st1\<lparr>mgs_status := advance_version plan (mgs_status st1)\<rparr> else st1)"
    using Inr r by (simp add: version_pass_def Let_def v1_def st0_def split: bool.split)
  then show ?thesis using inv0(2) inv1 inv2 by simp
qed

lemma version_passes_inv:
  "\<forall>p\<in>set ps. same_transition sv desired ladder p \<Longrightarrow> \<forall>m\<in>set ladder. clean_key digest m \<Longrightarrow>
   transition_inv digest ladder desired st \<Longrightarrow> transition_inv digest ladder desired (version_passes digest ps st)"
proof (induction ps arbitrary: st)
  case (Cons p ps)
  have "transition_inv digest ladder desired (fst (version_pass digest p st))"
    using version_pass_inv [OF _ Cons.prems(2,3), of sv p] Cons.prems(1) by simp
  from Cons.IH [OF _ Cons.prems(2) this] Cons.prems(1) show ?case by simp
qed simp


section \<open>What an executed migration has done\<close>

text \<open>Every recorded entry has had its side effect since the counts \<open>b\<close>.\<close>

definition ledger_true :: "(string \<Rightarrow> nat) \<Rightarrow> 'w mig_state \<Rightarrow> bool" where
  "ledger_true b st \<longleftrightarrow> (\<forall>e. b e \<le> mgs_runs st e \<and> (recorded_entry e st \<longrightarrow> b e < mgs_runs st e))"

definition executed :: "'w mig_state \<Rightarrow> string set" where
  "executed st = set (vst_ExecutedMigrations (mgs_status st))"

definition runs_grow :: "'w mig_state \<Rightarrow> 'w mig_state \<Rightarrow> bool" where
  "runs_grow st st' \<longleftrightarrow> (\<forall>e. mgs_runs st e \<le> mgs_runs st' e)"

lemma runs_grow_trans: "runs_grow a b \<Longrightarrow> runs_grow b c \<Longrightarrow> runs_grow a c"
  unfolding runs_grow_def by (meson order_trans)

lemma runs_grow_pos: "runs_grow x y \<Longrightarrow> b e < mgs_runs x e \<Longrightarrow> b e < mgs_runs y e"
  unfolding runs_grow_def by (meson less_le_trans)

lemma Run_ledger_true:
  "Run (counted_mig act key) (Some (record_mig key)) d acts st = (st', err) \<Longrightarrow> ledger_true b st \<Longrightarrow>
   ledger_true b st' \<and> runs_grow st st' \<and> executed st' = executed st \<and>
   vst_Version (mgs_status st') = vst_Version (mgs_status st)"
proof (induction acts arbitrary: st)
  case (Cons a acts)
  show ?case
  proof (cases "act_Name a \<in> d")
    case True
    then show ?thesis using Cons by simp
  next
    case False
    obtain st1 r where c: "counted_mig act key a st = (st1, r)" by fastforce
    note eq = counted_mig_eq [OF c]
    show ?thesis
    proof (cases r)
      case (Some e)
      then show ?thesis using Cons.prems False c eq
        by (auto simp: ledger_true_def recorded_entry_def runs_grow_def executed_def)
    next
      case None
      define st2 where "st2 = fst (record_mig key (act_Name a) st1 :: 'a mig_state \<times> unit option)"
      have r2: "record_mig key (act_Name a) st1 = (st2, None)" by (simp add: st2_def record_mig_def)
      have st2: "ledger_true b st2" "runs_grow st st2" "executed st2 = executed st"
        "vst_Version (mgs_status st2) = vst_Version (mgs_status st)"
        using eq None Cons.prems(2)
        by (auto simp: le_Suc_eq less_Suc_eq_le st2_def record_mig_def ledger_true_def recorded_entry_def runs_grow_def executed_def)
      have "Run (counted_mig act key) (Some (record_mig key)) d acts st2 = (st', err)"
        using Cons.prems(1) False c None r2 by simp
      from Cons.IH [OF this st2(1)] st2 runs_grow_trans show ?thesis by metis
    qed
  qed
qed (simp add: runs_grow_def)

lemma run_keyed_ok:
  assumes "run_keyed act key acts st = (st', err)" "ledger_true b st"
  shows "ledger_true b st' \<and> runs_grow st st' \<and> executed st' = executed st \<and>
    vst_Version (mgs_status st') = vst_Version (mgs_status st) \<and>
    (err = None \<longrightarrow> (\<forall>a\<in>set acts. b (entry key (act_Name a)) < mgs_runs st' (entry key (act_Name a))))"
proof -
  note ok = Run_ledger_true [OF assms(1) [unfolded run_keyed_def] assms(2)]
  have "b (entry key (act_Name a)) < mgs_runs st' (entry key (act_Name a))" if "err = None" "a \<in> set acts" for a
  proof -
    have "act_Name a \<in> act_Name ` set acts" using that(2) by simp
    from migration_recorder.Run_records [OF assms(1) [unfolded run_keyed_def that(1)] this]
    have "recorded_entry (entry key (act_Name a)) st \<or> recorded_entry (entry key (act_Name a)) st'"
      by (simp add: actionsDoneFor_iff recorded_entry_def)
    then show ?thesis using assms(2) ok runs_grow_pos unfolding ledger_true_def by blast
  qed
  then show ?thesis using ok by blast
qed

text \<open>The ledger entries of a migration's actions in one direction.\<close>

definition needed :: "(Migration \<Rightarrow> string) \<Rightarrow> bool \<Rightarrow> Migration \<Rightarrow> string set" where
  "needed digest down m =
     (if down then (\<lambda>a. entry (entry (migrationKey digest m) ''down'') (act_Name a)) ` set (mig_Down m)
      else (\<lambda>a. entry (migrationKey digest m) (act_Name a)) ` set (mig_Actions m))"

definition executed_true :: "(string \<Rightarrow> nat) \<Rightarrow> (Migration \<Rightarrow> string) \<Rightarrow> bool \<Rightarrow> Migration list \<Rightarrow> 'w mig_state \<Rightarrow> bool" where
  "executed_true b digest down ladder st \<longleftrightarrow> ledger_true b st \<and>
     (\<forall>m\<in>set ladder. migrationKey digest m \<in> executed st \<longrightarrow> (\<forall>e\<in>needed digest down m. b e < mgs_runs st e))"

lemma executed_true_step:
  assumes "executed_true b digest down ladder st" "runs_grow st st'" "ledger_true b st'"
    and "\<forall>m\<in>set ladder. migrationKey digest m \<in> executed st' \<longrightarrow>
      migrationKey digest m \<in> executed st \<or> (\<forall>e\<in>needed digest down m. b e < mgs_runs st' e)"
  shows "executed_true b digest down ladder st'"
  using assms unfolding executed_true_def by (meson runs_grow_pos)

lemma key_name: "clean_key digest m \<Longrightarrow> clean_key digest m' \<Longrightarrow> migrationKey digest m = migrationKey digest m' \<Longrightarrow>
  mig_Name m = mig_Name m'"
  by (metis migEntryName_key)

lemma finished_state:
  assumes "executed_true b digest down ladder st1" "m \<in> set ladder" "unique_names ladder" "\<forall>m\<in>set ladder. clean_key digest m"
    and "\<forall>e\<in>needed digest down m. b e < mgs_runs st1 e"
    and "mgs_runs st2 = mgs_runs st1" "executed st2 \<subseteq> insert (migrationKey digest m) (executed st1)"
    and "\<forall>e. recorded_entry e st2 \<longrightarrow> recorded_entry e st1"
  shows "executed_true b digest down ladder st2"
proof -
  have "m' = m" if "m' \<in> set ladder" "migrationKey digest m' = migrationKey digest m" for m'
    using assms(2-4) that key_name by (metis unique_names_def)
  note same = this
  show ?thesis
    unfolding executed_true_def
  proof (intro conjI ballI impI)
    show "ledger_true b st2" using assms(1,6,8) by (auto simp: executed_true_def ledger_true_def)
    fix m' e
    assume m': "m' \<in> set ladder" "migrationKey digest m' \<in> executed st2" "e \<in> needed digest down m'"
    show "b e < mgs_runs st2 e"
    proof (cases "migrationKey digest m' = migrationKey digest m")
      case True
      with same [OF m'(1)] m'(3) assms(5,6) show ?thesis by simp
    next
      case False
      with m'(2) assms(7) have "migrationKey digest m' \<in> executed st1" by blast
      with assms(1,6) m' show ?thesis by (simp add: executed_true_def)
    qed
  qed
qed

text \<open>Both loops are one loop: it runs \<open>acts m\<close> under the ledger key \<open>sub m\<close> and finishes a migration with
  \<open>fin m\<close>.\<close>

fun run_loop ::
  "(Migration \<Rightarrow> string) \<Rightarrow> (Migration \<Rightarrow> string) \<Rightarrow> (Migration \<Rightarrow> Action list) \<Rightarrow> (Migration \<Rightarrow> 'w mig_state \<Rightarrow> 'w mig_state)
   \<Rightarrow> (Action \<Rightarrow> 'w \<Rightarrow> 'w \<times> exec_error option) \<Rightarrow> string list \<Rightarrow> Migration list
   \<Rightarrow> 'w mig_state \<Rightarrow> 'w mig_state \<times> unit run_error option" where
  "run_loop key sub acts fin act ex [] st = (st, None)"
| "run_loop key sub acts fin act ex (m # ms) st =
     (if key m \<in> set ex then run_loop key sub acts fin act ex ms st
      else case run_keyed act (sub m) (acts m) st of
        (st1, Some e) \<Rightarrow> (st1, Some e)
      | (st1, None) \<Rightarrow> run_loop key sub acts fin act (key m # ex) ms (fin m st1))"

definition dir_key :: "(Migration \<Rightarrow> string) \<Rightarrow> bool \<Rightarrow> Migration \<Rightarrow> string" where
  "dir_key digest down m = (if down then entry (migrationKey digest m) ''down'' else migrationKey digest m)"

definition dir_acts :: "bool \<Rightarrow> Migration \<Rightarrow> Action list" where
  "dir_acts down m = (if down then mig_Down m else mig_Actions m)"

definition dir_finish :: "(Migration \<Rightarrow> string) \<Rightarrow> bool \<Rightarrow> Migration \<Rightarrow> 'w mig_state \<Rightarrow> 'w mig_state" where
  "dir_finish digest down m st =
     (if down then mark_executed (migrationKey digest m) st
      else prune_state (mig_Name m) (migrationKey digest m) (mark_executed (migrationKey digest m) st))"

lemma run_dir:
  "run_up digest act ex ms st =
     run_loop (migrationKey digest) (dir_key digest False) (dir_acts False) (dir_finish digest False) act ex ms st"
  "run_down digest act ex ms st =
     run_loop (migrationKey digest) (dir_key digest True) (dir_acts True) (dir_finish digest True) act ex ms st"
  by (induction ms arbitrary: ex st) (auto simp: Let_def dir_key_def dir_acts_def dir_finish_def split: prod.splits option.splits)

lemma dir_finish_frame:
  "mgs_runs (dir_finish digest down m st) = mgs_runs st"
  "executed (dir_finish digest down m st) \<subseteq> insert (migrationKey digest m) (executed st)"
  "recorded_entry e (dir_finish digest down m st) \<Longrightarrow> recorded_entry e st"
  "vst_Version (mgs_status (dir_finish digest down m st)) = vst_Version (mgs_status st)"
  by (auto simp: dir_finish_def prune_state_def pruneSupersededLedger_def dropSupersededLedger_def mark_executed_def
      executed_def recorded_entry_def split: if_splits)

lemma needed_dir: "needed digest down m = (\<lambda>a. entry (dir_key digest down m) (act_Name a)) ` set (dir_acts down m)"
  by (simp add: needed_def dir_key_def dir_acts_def)

lemma run_loop_true:
  assumes "unique_names ladder" "\<forall>m\<in>set ladder. clean_key digest m"
  shows "run_loop (migrationKey digest) (dir_key digest down) (dir_acts down) (dir_finish digest down) act ex ms st = (st', err) \<Longrightarrow>
    set ms \<subseteq> set ladder \<Longrightarrow> executed_true b digest down ladder st \<Longrightarrow>
    (\<forall>m\<in>set ladder. migrationKey digest m \<in> set ex \<longrightarrow> (\<forall>e\<in>needed digest down m. b e < mgs_runs st e)) \<Longrightarrow>
    executed_true b digest down ladder st' \<and> runs_grow st st' \<and> vst_Version (mgs_status st') = vst_Version (mgs_status st) \<and>
    (err = None \<longrightarrow> (\<forall>m\<in>set ms. \<forall>e\<in>needed digest down m. b e < mgs_runs st' e))"
proof (induction ms arbitrary: ex st)
  case (Cons m ms)
  let ?k = "migrationKey digest m"
  have m: "m \<in> set ladder" "set ms \<subseteq> set ladder" using Cons.prems(2) by auto
  show ?case
  proof (cases "?k \<in> set ex")
    case True
    then have r: "run_loop (migrationKey digest) (dir_key digest down) (dir_acts down) (dir_finish digest down) act ex ms st = (st', err)"
      using Cons.prems(1) by simp
    have "\<forall>e\<in>needed digest down m. b e < mgs_runs st e" using Cons.prems(4) m(1) True by blast
    with Cons.IH [OF r m(2) Cons.prems(3,4)] show ?thesis by (auto intro: runs_grow_pos)
  next
    case False
    obtain st1 r where r: "run_keyed act (dir_key digest down m) (dir_acts down m) st = (st1, r)" by fastforce
    have lt: "ledger_true b st" using Cons.prems(3) by (simp add: executed_true_def)
    note ok = run_keyed_ok [OF r lt]
    have et: "executed_true b digest down ladder st1"
      by (rule executed_true_step [OF Cons.prems(3)]) (use ok in auto)
    show ?thesis
    proof (cases r)
      case (Some e)
      then show ?thesis using Cons.prems(1) False r ok et by auto
    next
      case None
      define st2 where "st2 = dir_finish digest down m st1"
      note frame = dir_finish_frame [where digest = digest and down = down and m = m and st = st1, folded st2_def]
      have need: "\<forall>e\<in>needed digest down m. b e < mgs_runs st1 e" using ok None by (auto simp: needed_dir)
      have et2: "executed_true b digest down ladder st2"
        by (rule finished_state [OF et m(1) assms need frame(1,2)]) (use frame(3) in blast)
      have rest: "run_loop (migrationKey digest) (dir_key digest down) (dir_acts down) (dir_finish digest down) act (?k # ex) ms st2 = (st', err)"
        using Cons.prems(1) False r None by (simp add: st2_def)
      have "\<forall>m'\<in>set ladder. migrationKey digest m' \<in> set (?k # ex) \<longrightarrow> (\<forall>e\<in>needed digest down m'. b e < mgs_runs st2 e)"
        using Cons.prems(4) ok need frame(1) runs_grow_pos assms m(1) key_name
        by (metis set_ConsD unique_names_def)
      note tail = Cons.IH [OF rest m(2) et2 this]
      have grow: "runs_grow st st2" using ok frame(1) by (simp add: runs_grow_def)
      have "\<forall>e\<in>needed digest down m. b e < mgs_runs st' e" using need frame(1) tail runs_grow_pos by metis
      with tail grow frame(4) ok show ?thesis by (auto intro: runs_grow_trans)
    qed
  qed
qed (simp add: runs_grow_def)

lemma runStageMigrations_true:
  assumes "unique_names ladder" "\<forall>m\<in>set ladder. clean_key digest m"
    and "runStageMigrations digest act plan stage st = (st', err)" "set (mp_byStage plan stage) \<subseteq> set ladder"
    and "executed_true b digest (mp_downgrade plan) ladder st" "\<not> mp_baseline plan"
  shows "executed_true b digest (mp_downgrade plan) ladder st' \<and> runs_grow st st' \<and>
    vst_Version (mgs_status st') = vst_Version (mgs_status st) \<and>
    (err = None \<longrightarrow> (\<forall>m\<in>set (mp_byStage plan stage). \<forall>e\<in>needed digest (mp_downgrade plan) m. b e < mgs_runs st' e))"
proof (rule run_loop_true [OF assms(1,2) _ assms(4,5)])
  show "run_loop (migrationKey digest) (dir_key digest (mp_downgrade plan)) (dir_acts (mp_downgrade plan))
      (dir_finish digest (mp_downgrade plan)) act (vst_ExecutedMigrations (mgs_status st)) (mp_byStage plan stage) st = (st', err)"
    using assms(3,6) by (simp add: runStageMigrations_def runStageDowngrades_def run_dir split: if_splits)
  show "\<forall>m\<in>set ladder. migrationKey digest m \<in> set (vst_ExecutedMigrations (mgs_status st)) \<longrightarrow>
      (\<forall>e\<in>needed digest (mp_downgrade plan) m. b e < mgs_runs st e)"
    using assms(5) by (simp add: executed_true_def executed_def)
qed

lemma stage_migrations_true:
  assumes "unique_names ladder" "\<forall>m\<in>set ladder. clean_key digest m" "\<forall>s. set (mp_byStage plan s) \<subseteq> set ladder"
    and "\<not> mp_baseline plan"
  shows "stage_migrations digest act rest_ok plan stages st = (st', ok) \<Longrightarrow>
    executed_true b digest (mp_downgrade plan) ladder st \<Longrightarrow>
    executed_true b digest (mp_downgrade plan) ladder st' \<and> runs_grow st st' \<and>
    vst_Version (mgs_status st') = vst_Version (mgs_status st) \<and>
    (ok \<longrightarrow> (\<forall>s\<in>set stages. \<forall>m\<in>set (mp_byStage plan s). \<forall>e\<in>needed digest (mp_downgrade plan) m. b e < mgs_runs st' e))"
proof (induction stages arbitrary: st)
  case (Cons s stages)
  obtain st1 r where r: "runStageMigrations digest act plan s st = (st1, r)" by fastforce
  note one = runStageMigrations_true [OF assms(1,2) r _ Cons.prems(2) assms(4)]
  have one: "executed_true b digest (mp_downgrade plan) ladder st1" "runs_grow st st1"
    "vst_Version (mgs_status st1) = vst_Version (mgs_status st)"
    "r = None \<Longrightarrow> \<forall>m\<in>set (mp_byStage plan s). \<forall>e\<in>needed digest (mp_downgrade plan) m. b e < mgs_runs st1 e"
    using one assms(3) by auto
  show ?case
  proof (cases "r = None \<and> rest_ok s")
    case False
    then have "st' = st1 \<or> (\<exists>c. st' = st1\<lparr>mgs_status := (mgs_status st1)\<lparr>vst_MigrationFailureCount := c\<rparr>\<rparr>)" "\<not> ok"
      using Cons.prems(1) r by (cases r; auto)+
    with one(1-3) show ?thesis
      by (auto simp: executed_true_def ledger_true_def recorded_entry_def executed_def runs_grow_def)
  next
    case True
    then have "stage_migrations digest act rest_ok plan stages st1 = (st', ok)" using Cons.prems(1) r by simp
    note tail = Cons.IH [OF this one(1)]
    have "\<forall>m\<in>set (mp_byStage plan s). \<forall>e\<in>needed digest (mp_downgrade plan) m. b e < mgs_runs st' e"
      using one(4) True tail runs_grow_pos by metis
    with tail one(2,3) show ?thesis by (auto intro: runs_grow_trans)
  qed
qed (simp add: runs_grow_def)


section \<open>Properties\<close>

lemma anchorStage_mem: "anchorStage ss a \<noteq> [] \<Longrightarrow> anchorStage ss a \<in> stg_Name ` set (spec_Stages (set_Spec ss))"
  by (auto simp: anchorStage_def Let_def split: if_splits list.splits option.splits dest!: find_Some_mem)

text \<open>The direction of a transition.\<close>

definition goes_down :: "'v :: linorder semver \<Rightarrow> string \<Rightarrow> string \<Rightarrow> bool" where
  "goes_down sv v0 desired \<longleftrightarrow> the (sv_NewVersion sv desired) < the (sv_NewVersion sv v0)"

lemma plan_direction:
  assumes "planVersionMigrations env ss current resolved = Inr plan" "mp_pending plan \<noteq> []"
    and "annotation ss rollbackToAnnotation = []"
  shows "mp_downgrade plan = goes_down (pe_semver env) current (mp_desired plan) \<and> \<not> mp_baseline plan \<and> mp_versionSet plan"
proof -
  have eff: "effective_desired env ss current x = x" for x
    using assms(3) by (simp add: effective_desired_def rollbackDirective_def)
  from assms(1) show ?thesis
  proof (cases rule: plan_cases)
    case (down v offered c d)
    then show ?thesis using planDowngrade_ok [OF down(7)] by (auto simp: goes_down_def eff)
  next
    case (up v offered c d)
    then show ?thesis using planUpgrade_ok [OF up(7)] by (auto simp: goes_down_def eff)
  qed (use assms(2) in \<open>simp_all add: zero_plan_def\<close>)
qed

lemma version_pass_true:
  assumes "same_transition sv desired ladder p" "\<forall>m\<in>set ladder. clean_key digest m"
    and "executed_true b digest (goes_down sv v0 desired) ladder st"
    and "vst_Version (mgs_status st) = v0 \<or> vst_Version (mgs_status st) = desired"
    and "version_pass digest p st = (st', fin)"
  shows "executed_true b digest (goes_down sv v0 desired) ladder st' \<and>
    (vst_Version (mgs_status st') = v0 \<or> vst_Version (mgs_status st') = desired) \<and>
    (\<forall>plan. fin = Synced \<and> planVersionMigrations (vp_env p) (vp_set p) (vst_Version (mgs_status st)) (vp_resolved p) = Inr plan \<longrightarrow>
      (mp_versionSet plan \<longrightarrow> vst_Version (mgs_status st') = desired \<and> executed st' = {} \<and> mp_desired plan = desired) \<and>
      (\<forall>m\<in>set (mp_pending plan). \<forall>e\<in>needed digest (mp_downgrade plan) m. b e < mgs_runs st' e))"
proof (cases "planVersionMigrations (vp_env p) (vp_set p) (vst_Version (mgs_status st)) (vp_resolved p)")
  case (Inl e)
  then show ?thesis using assms(3-5) by (simp add: version_pass_def Let_def)
next
  case (Inr plan)
  note plan = plan_ok [OF Inr] and tr = assms(1) [unfolded same_transition_def]
  define down where "down = goes_down sv v0 desired"
  have no_rb: "rollbackDirective sv (vp_set p) cur = []" for cur using tr by (simp add: rollbackDirective_def)
  have des: "mp_versionSet plan \<Longrightarrow> mp_desired plan = desired"
    using plan tr no_rb by (auto simp: effective_desired_def)
  define v1 where "v1 = (mgs_status st)\<lparr>vst_PendingMigrations := pendingDetails digest (vp_set p) plan\<rparr>"
  define st0 where "st0 = st\<lparr>mgs_status := v1\<lparr>vst_PendingVersion := []\<rparr>\<rparr>"
  let ?names = "map stg_Name (spec_Stages (set_Spec (vp_set p)))"
  obtain st1 ok where r: "stage_migrations digest (vp_act p) (vp_rest_ok p) plan ?names st0 = (st1, ok)" by fastforce
  have et0: "executed_true b digest down ladder st0" "vst_Version (mgs_status st0) = vst_Version (mgs_status st)"
    "executed_true b digest down ladder (st\<lparr>mgs_status := v1\<lparr>vst_PendingVersion := d\<rparr>\<rparr>)"
    "vst_Version (mgs_status (st\<lparr>mgs_status := v1\<lparr>vst_PendingVersion := d\<rparr>\<rparr>)) = vst_Version (mgs_status st)" for d
    using assms(3) by (simp_all add: st0_def v1_def executed_true_def ledger_true_def recorded_entry_def executed_def down_def)
  have st1: "executed_true b digest down ladder st1 \<and> vst_Version (mgs_status st1) = vst_Version (mgs_status st) \<and>
      (ok \<longrightarrow> (\<forall>m\<in>set (mp_pending plan). \<forall>e\<in>needed digest (mp_downgrade plan) m. b e < mgs_runs st1 e))"
  proof (cases "mp_pending plan = []")
    case True
    then have "\<forall>s. mp_byStage plan s = []" using plan by (simp add: plan_of_def)
    from stage_migrations_idle [OF this r] et0 True show ?thesis by simp
  next
    case False
    obtain l' src where l': "resolveMigrationLadder (vp_env p) (vp_set p) = Inr (l', src)" "set (mp_pending plan) \<subseteq> set l'"
      using plan False unfolding plan_of_def by metis
    have "l' = ladder" using tr l'(1) by metis
    note l = l' [unfolded this]
    have unique: "unique_names ladder" by (rule unique_names_validated [OF ladder_validated [OF l(1)]])
    have by_stage: "\<forall>s. set (mp_byStage plan s) \<subseteq> set ladder" using plan l(2) by (auto simp: plan_of_def)
    have dir: "mp_downgrade plan = goes_down sv (vst_Version (mgs_status st)) desired" "\<not> mp_baseline plan" "mp_versionSet plan"
      using plan_direction [OF Inr False] tr des by auto
    have "vst_Version (mgs_status st) \<noteq> desired" using plan False des dir(3) by auto
    then have same: "mp_downgrade plan = down" using assms(4) dir(1) by (auto simp: down_def)
    note run = stage_migrations_true [OF unique assms(2) by_stage dir(2) r, unfolded same, OF et0(1)]
    have "\<forall>m\<in>set (mp_pending plan). \<forall>e\<in>needed digest down m. b e < mgs_runs st1 e" if ok
    proof
      fix m assume m: "m \<in> set (mp_pending plan)"
      then have "anchorStage (vp_set p) (mig_Stage m) \<in> set ?names"
        using plan anchorStage_mem [of "vp_set p" "mig_Stage m"] m by (simp add: plan_of_def)
      moreover have "m \<in> set (mp_byStage plan (anchorStage (vp_set p) (mig_Stage m)))"
        using plan m by (simp add: plan_of_def)
      ultimately show "\<forall>e\<in>needed digest down m. b e < mgs_runs st1 e" using run that by blast
    qed
    then show ?thesis using run et0(2) same by auto
  qed
  have adv: "executed_true b digest down ladder (st1\<lparr>mgs_status := advance_version plan (mgs_status st1)\<rparr>)"
    using st1 by (auto simp: advance_version_def executed_true_def ledger_true_def recorded_entry_def executed_def)
  have out: "(st', fin) =
      (if awaits_approval (vp_set p) plan (vst_Version (mgs_status st))
       then (st\<lparr>mgs_status := v1\<lparr>vst_PendingVersion := mp_desired plan\<rparr>\<rparr>, AwaitingApproval)
       else if ok then (st1\<lparr>mgs_status := advance_version plan (mgs_status st1)\<rparr>, Synced) else (st1, StageStopped))"
    using Inr r assms(5) by (cases ok) (simp_all add: version_pass_def Let_def v1_def st0_def split: if_splits)
  show ?thesis
  proof (cases "awaits_approval (vp_set p) plan (vst_Version (mgs_status st))")
    case True
    then show ?thesis using out et0(3,4) assms(4) by (simp add: down_def)
  next
    case go: False
    show ?thesis
    proof (cases ok)
      case False
      then show ?thesis using out go st1 assms(4) by (simp add: down_def)
    next
      case True
      then have o': "st' = st1\<lparr>mgs_status := advance_version plan (mgs_status st1)\<rparr>" "fin = Synced" using out go by simp_all
      then show ?thesis using adv st1 assms(4) True des Inr
        by (auto simp: down_def advance_version_def executed_def)
    qed
  qed
qed

lemma version_passes_true:
  assumes "\<forall>m\<in>set ladder. clean_key digest m"
  shows "\<forall>p\<in>set ps. same_transition sv desired ladder p \<Longrightarrow>
    executed_true b digest (goes_down sv v0 desired) ladder st \<Longrightarrow>
    vst_Version (mgs_status st) = v0 \<or> vst_Version (mgs_status st) = desired \<Longrightarrow>
    executed_true b digest (goes_down sv v0 desired) ladder (version_passes digest ps st) \<and>
    (vst_Version (mgs_status (version_passes digest ps st)) = v0 \<or> vst_Version (mgs_status (version_passes digest ps st)) = desired)"
proof (induction ps arbitrary: st)
  case (Cons p ps)
  obtain st1 fin where p: "version_pass digest p st = (st1, fin)" by fastforce
  have "same_transition sv desired ladder p" using Cons.prems(1) by simp
  note one = version_pass_true [OF this assms Cons.prems(2,3) p]
  show ?case using Cons.IH [of st1] one Cons.prems(1) p by simp
qed simp

end
