(* ===== verification/Transitions.thy ===== *)
theory Transitions
  imports MigrationRun
begin

text \<open>
  Version transitions over whole passes: each migration action of a transition runs exactly once, what a
  plan guarantees before anything runs, what an abandoned transition leaves behind, the halt after
  repeated failures, and a rollback directive that stays on the object.
\<close>

section \<open>A pass in which everything succeeds\<close>

definition acts_ok :: "(Action \<Rightarrow> 'w \<Rightarrow> 'w \<times> exec_error option) \<Rightarrow> bool" where
  "acts_ok act \<longleftrightarrow> (\<forall>a w. snd (act a w) = None)"

lemma run_keyed_succeeds:
  assumes "acts_ok act"
  shows "snd (run_keyed act key acts st) = None"
proof -
  have "snd (Run (counted_mig act key) (Some (record_mig key)) d acts s) = None" for d and s :: "'a mig_state"
  proof (induction acts arbitrary: s)
    case (Cons a acts)
    obtain w where "act a (mgs_world s) = (w, None)" using assms by (metis acts_ok_def prod.collapse)
    then show ?case using Cons by (simp add: counted_mig_def record_mig_def)
  qed simp
  then show ?thesis by (simp add: run_keyed_def)
qed

lemma run_loop_succeeds:
  assumes "acts_ok act"
  shows "snd (run_loop key sub acts fin act ex ms st) = None"
proof (induction ms arbitrary: ex st)
  case (Cons m ms)
  obtain st1 where "run_keyed act (sub m) (acts m) st = (st1, None)"
    using run_keyed_succeeds [OF assms] by (metis prod.collapse)
  then show ?case using Cons by simp
qed simp

lemma runStageMigrations_succeeds: "acts_ok act \<Longrightarrow> snd (runStageMigrations digest act plan stage st) = None"
  by (simp add: runStageMigrations_def runStageDowngrades_def run_dir run_loop_succeeds)

lemma stage_migrations_succeeds:
  assumes "acts_ok act" "\<forall>s. rest_ok s"
  shows "snd (stage_migrations digest act rest_ok plan stages st)"
proof (induction stages arbitrary: st)
  case (Cons s stages)
  obtain st1 where "runStageMigrations digest act plan s st = (st1, None)"
    using runStageMigrations_succeeds [OF assms(1)] by (metis prod.collapse)
  then show ?case using Cons assms(2) by simp
qed simp

lemma version_pass_syncs:
  assumes "planVersionMigrations (vp_env p) (vp_set p) (vst_Version (mgs_status st)) (vp_resolved p) = Inr plan"
    and "\<not> awaits_approval (vp_set p) plan (vst_Version (mgs_status st))" "acts_ok (vp_act p)" "\<forall>s. vp_rest_ok p s"
  shows "\<exists>st'. version_pass digest p st = (st', Synced) \<and>
    (mp_versionSet plan \<longrightarrow> vst_Version (mgs_status st') = mp_desired plan \<and> vst_ExecutedMigrations (mgs_status st') = [] \<and>
      vst_ExecutedMigrationActions (mgs_status st') = [])"
proof -
  let ?st0 = "st\<lparr>mgs_status := (mgs_status st)\<lparr>vst_PendingMigrations := pendingDetails digest (vp_set p) plan,
      vst_PendingVersion := []\<rparr>\<rparr>"
  obtain st1 where "stage_migrations digest (vp_act p) (vp_rest_ok p) plan
      (map stg_Name (spec_Stages (set_Spec (vp_set p)))) ?st0 = (st1, True)"
    using stage_migrations_succeeds [OF assms(3,4)] by (metis prod.collapse)
  then show ?thesis using assms(1,2) by (simp add: version_pass_def Let_def advance_version_def)
qed

section \<open>Properties\<close>



text \<open>A StageSet with the ladder of \<open>Ladder\<close>, offered a version.\<close>

definition versioned_set :: "string \<Rightarrow> StageSet" where
  "versioned_set offered = (plain_set [plain_stage ''db''])\<lparr>set_Spec := (plain_spec [plain_stage ''db''])
     \<lparr>spec_Migrations := demo_ladder, spec_Version := Some \<lparr>vs_FromArtifact = None, vs_FromObject = None,
        vs_Value = offered, vs_RequireMigrationCoverage = False, vs_ApprovalMode = ApprovalNever,
        vs_AllowDowngrade = True\<rparr>\<rparr>\<rparr>"

definition demo_env :: "nat plan_env" where
  "demo_env = \<lparr>pe_semver = digit_semver, pe_reader = \<lparr>rd_get = (\<lambda>_ _ _ _. Inr None), rd_list = (\<lambda>_. Inr [])\<rparr>,
     pe_fetch = (\<lambda>_ _ _. Inl ErrHTTP), pe_parseList = (\<lambda>_. None), pe_parseOne = (\<lambda>_. None),
     pe_flags = \<lparr>fl_RequireVerified = False, fl_RequirePinned = False, fl_AllowedActionHosts = []\<rparr>,
     pe_vars = (\<lambda>_. None), pe_build = (\<lambda>_ _ _. None), pe_jsonpath = (\<lambda>_ _. None)\<rparr>"

text \<open>The world counts the actions tried; the one tried when it is \<open>bad\<close> fails.\<close>

definition demo_version_pass :: "string \<Rightarrow> nat \<Rightarrow> (nat, nat) version_pass" where
  "demo_version_pass offered bad = \<lparr>vp_env = demo_env, vp_set = versioned_set offered, vp_resolved = [],
     vp_act = (\<lambda>a w. (Suc w, if w = bad then Some ErrForbiddenHost else None)), vp_rest_ok = (\<lambda>_. True)\<rparr>"

definition demo_version_state :: "string \<Rightarrow> nat mig_state" where
  "demo_version_state version = \<lparr>mgs_world = 0, mgs_status = \<lparr>vst_Version = version, vst_ExecutedMigrations = [],
     vst_ExecutedMigrationActions = [], vst_PendingMigrations = [], vst_PendingVersion = [],
     vst_MigrationFailureCount = 0\<rparr>, mgs_runs = (\<lambda>_. 0)\<rparr>"

lemma demo_ladder_of: "resolveMigrationLadder demo_env (versioned_set v) = Inr (demo_ladder, None)"
  using demo_ladder_valid
  by (simp add: resolveMigrationLadder_def versioned_set_def demo_env_def plain_set_def plain_spec_def)

lemma demo_same_transition:
  assumes "trim_space v = v" "v \<noteq> []"
  shows "same_transition digit_semver v demo_ladder (demo_version_pass v bad)"
  using assms demo_ladder_of [of v]
  by (auto simp: same_transition_def demo_version_pass_def annotation_def versioned_set_def plain_set_def demo_env_def
      resolveDesiredVersion_def)

lemma demo_plan:
  "case planVersionMigrations demo_env (versioned_set ''3'') ''1'' [] of
     Inl e \<Rightarrow> False
   | Inr plan \<Rightarrow> map mig_Name (mp_pending plan) = [''rename'', ''split''] \<and> \<not> mp_downgrade plan \<and> mp_versionSet plan"
  by code_simp

lemma demo_clean: "\<forall>m\<in>set demo_ladder. clean_key mig_To m"
  by (auto simp: clean_key_def demo_ladder_def plain_migration_def migrationKey_def)



section \<open>Directives, abandoned transitions, the dirty halt\<close>

lemma plan_versioned:
  assumes "planVersionMigrations env ss current resolved = Inr plan" "spec_Version (set_Spec ss) = Some v"
  shows "mp_versionSet plan"
  using assms(1)
proof (cases rule: plan_cases)
  case (down v offered c d)
  then show ?thesis using planDowngrade_ok [OF down(7)] by simp
next
  case (up v offered c d)
  then show ?thesis using planUpgrade_ok [OF up(7)] by simp
qed (use assms(2) in simp_all)

lemma directive_in_effect:
  assumes "sv_NewVersion sv lo = Some a" "sv_NewVersion sv hi = Some b" "a < b" "lo \<noteq> []" "hi \<noteq> []"
    and "annotation ss rollbackToAnnotation = lo"
  shows "rollbackDirective sv ss lo = []" "rollbackDirective sv ss hi = lo"
  using assms by (simp_all add: rollbackDirective_def Let_def)

text \<open>A rollback directive that stays is a loop. Once the StageSet is down at the directed version the
  directive is out of effect, the source's higher version is adopted again, and the directive is back in
  effect: with the annotation left in place and nothing failing, the deployed version alternates between
  the two forever, every pass running the crossed migrations one way or the other.\<close>

theorem rollback_directive_oscillates:
  assumes "sv_NewVersion (pe_semver (vp_env p)) lo = Some a" "sv_NewVersion (pe_semver (vp_env p)) hi = Some b" "a < b"
    and "lo \<noteq> []" "hi \<noteq> []" "annotation (vp_set p) rollbackToAnnotation = lo"
    and "spec_Version (set_Spec (vp_set p)) = Some v" "vs_ApprovalMode v = ApprovalNever"
    and "resolveDesiredVersion (vp_env p) (vp_set p) (vp_resolved p) v = Inr hi"
    and "planVersionMigrations (vp_env p) (vp_set p) lo (vp_resolved p) = Inr plan_up"
    and "planVersionMigrations (vp_env p) (vp_set p) hi (vp_resolved p) = Inr plan_down"
    and "acts_ok (vp_act p)" "\<forall>s. vp_rest_ok p s" "vst_Version (mgs_status st) = lo"
  shows "vst_Version (mgs_status (version_passes digest (replicate k p) st)) = (if even k then lo else hi)"
proof -
  note dir = directive_in_effect [OF assms(1-6)]
  have desired: "mp_desired plan_up = hi" "mp_desired plan_down = lo"
    using plan_ok [OF assms(10)] plan_ok [OF assms(11)] plan_versioned [OF assms(10,7)] plan_versioned [OF assms(11,7)]
      assms(4,7,9) dir by (auto simp: effective_desired_def)
  have no_wait: "\<not> awaits_approval (vp_set p) plan cur" for plan cur
    using assms(7,8) by (simp add: awaits_approval_def versionApprovalNeeded_def)
  have up: "vst_Version (mgs_status (fst (version_pass digest p s))) = hi" if "vst_Version (mgs_status s) = lo" for s
    using version_pass_syncs [of p s plan_up digest] that no_wait assms(10,12,13) desired plan_versioned [OF assms(10,7)]
    by fastforce
  have down: "vst_Version (mgs_status (fst (version_pass digest p s))) = lo" if "vst_Version (mgs_status s) = hi" for s
    using version_pass_syncs [of p s plan_down digest] that no_wait assms(11-13) desired plan_versioned [OF assms(11,7)]
    by fastforce
  have "(vst_Version (mgs_status s) = lo \<longrightarrow>
        vst_Version (mgs_status (version_passes digest (replicate k p) s)) = (if even k then lo else hi)) \<and>
      (vst_Version (mgs_status s) = hi \<longrightarrow>
        vst_Version (mgs_status (version_passes digest (replicate k p) s)) = (if even k then hi else lo))" for s
    using up down by (induction k arbitrary: s) auto
  then show ?thesis using assms(14) by blast
qed

definition directed_pass :: "(nat, nat) version_pass" where
  "directed_pass = (demo_version_pass ''3'' 99)\<lparr>vp_set := (versioned_set ''3'')
     \<lparr>set_Annotations := [rollbackToAnnotation \<mapsto> ''1'']\<rparr>, vp_act := (\<lambda>a w. (Suc w, None))\<rparr>"

theorem rollback_directive_oscillates_witness:
  "vst_Version (mgs_status (version_passes mig_To (replicate 3 directed_pass) (demo_version_state ''1''))) = ''3'' \<and>
   vst_Version (mgs_status (version_passes mig_To (replicate 4 directed_pass) (demo_version_state ''1''))) = ''1''"
proof -
  have ok: "\<not> isl (planVersionMigrations (vp_env directed_pass) (vp_set directed_pass) ''1'' (vp_resolved directed_pass))"
    "\<not> isl (planVersionMigrations (vp_env directed_pass) (vp_set directed_pass) ''3'' (vp_resolved directed_pass))"
    by code_simp+
  obtain up down where plans: "planVersionMigrations (vp_env directed_pass) (vp_set directed_pass) ''1'' (vp_resolved directed_pass) = Inr up"
    "planVersionMigrations (vp_env directed_pass) (vp_set directed_pass) ''3'' (vp_resolved directed_pass) = Inr down"
    using ok by (metis isl_def old.sum.exhaust)
  obtain v where v: "spec_Version (set_Spec (vp_set directed_pass)) = Some v"
    "vs_ApprovalMode v = ApprovalNever" "resolveDesiredVersion (vp_env directed_pass) (vp_set directed_pass) (vp_resolved directed_pass) v = Inr ''3''"
    by (simp add: directed_pass_def demo_version_pass_def versioned_set_def resolveDesiredVersion_def trim_space_def
        trim_left_def trim_right_def is_space_def byte_def)
  have semver: "sv_NewVersion (pe_semver (vp_env directed_pass)) ''1'' = Some 1"
    "sv_NewVersion (pe_semver (vp_env directed_pass)) ''3'' = Some 3"
    by (simp_all add: directed_pass_def demo_version_pass_def demo_env_def digit_semver_def)
  have rest: "annotation (vp_set directed_pass) rollbackToAnnotation = ''1''" "acts_ok (vp_act directed_pass)"
    "\<forall>s. vp_rest_ok directed_pass s" "vst_Version (mgs_status (demo_version_state ''1'')) = ''1''"
    by (simp_all add: directed_pass_def demo_version_pass_def annotation_def acts_ok_def demo_version_state_def)
  show ?thesis
    using rollback_directive_oscillates [OF semver _ _ _ rest(1) v plans rest(2-4), of mig_To 3]
      rollback_directive_oscillates [OF semver _ _ _ rest(1) v plans rest(2-4), of mig_To 4] by simp
qed

text \<open>An abandoned transition is neither undone nor remembered. When the offered version goes back to
  the deployed one in the middle of a transition, the next pass that syncs reverses nothing and empties
  the ledgers, so the transition taken up again runs every action of its migrations once more, those
  that had already succeeded included.\<close>

theorem abandoned_transition_reapplies:
  assumes "planVersionMigrations (vp_env p) (vp_set p) (vst_Version (mgs_status st)) (vp_resolved p) = Inr plan0"
    and "mp_pending plan0 = []" "mp_versionSet plan0" "version_pass digest p st = (st1, Synced)"
    and "same_transition sv desired ladder q" "\<forall>m\<in>set ladder. clean_key digest m"
    and "planVersionMigrations (vp_env q) (vp_set q) (vst_Version (mgs_status st1)) (vp_resolved q) = Inr plan"
    and "version_pass digest q st1 = (st2, Synced)"
  shows "mgs_runs st1 = mgs_runs st \<and> vst_ExecutedMigrations (mgs_status st1) = [] \<and>
    vst_ExecutedMigrationActions (mgs_status st1) = [] \<and>
    (\<forall>m\<in>set (mp_pending plan). \<forall>e\<in>needed digest (mp_downgrade plan) m. mgs_runs st e < mgs_runs st2 e)"
proof -
  let ?st0 = "st\<lparr>mgs_status := (mgs_status st)\<lparr>vst_PendingMigrations := pendingDetails digest (vp_set p) plan0,
      vst_PendingVersion := []\<rparr>\<rparr>"
  obtain s ok where r: "stage_migrations digest (vp_act p) (vp_rest_ok p) plan0
      (map stg_Name (spec_Stages (set_Spec (vp_set p)))) ?st0 = (s, ok)" by fastforce
  have "\<forall>x. mp_byStage plan0 x = []" using plan_ok [OF assms(1)] assms(2) by (simp add: plan_of_def)
  from stage_migrations_idle [OF this r] have "s = ?st0" .
  then have st1: "st1 = ?st0\<lparr>mgs_status := advance_version plan0 (mgs_status ?st0)\<rparr>"
    using assms(1,4) r by (cases ok) (auto simp: version_pass_def Let_def split: if_splits)
  then have fresh: "mgs_runs st1 = mgs_runs st" "vst_ExecutedMigrations (mgs_status st1) = []"
    "vst_ExecutedMigrationActions (mgs_status st1) = []"
    using assms(3) by (simp_all add: advance_version_def)
  then have "executed_true (mgs_runs st) digest (goes_down sv (vst_Version (mgs_status st1)) desired) ladder st1"
    by (simp add: executed_true_def ledger_true_def recorded_entry_def executed_def)
  from version_pass_true [OF assms(5,6) this _ assms(8)] assms(7) fresh show ?thesis by blast
qed

theorem abandoned_transition_reapplies_witness:
  "mgs_runs (version_passes mig_To [demo_version_pass ''3'' 1, demo_version_pass ''1'' 99, demo_version_pass ''3'' 99]
     (demo_version_state ''1'')) ''rename@2/up'' > 1"
proof -
  let ?st = "version_passes mig_To [demo_version_pass ''3'' 1] (demo_version_state ''1'')"
  obtain st1 f1 where p1: "version_pass mig_To (demo_version_pass ''1'' 99) ?st = (st1, f1)" by fastforce
  obtain st2 f2 where p2: "version_pass mig_To (demo_version_pass ''3'' 99) st1 = (st2, f2)" by fastforce
  have "snd (version_pass mig_To (demo_version_pass ''1'' 99) ?st) = Synced"
    "snd (version_pass mig_To (demo_version_pass ''3'' 99) (fst (version_pass mig_To (demo_version_pass ''1'' 99) ?st))) = Synced"
    by code_simp+
  then have fin: "f1 = Synced" "f2 = Synced" using p1 p2 by simp_all
  have v: "vst_Version (mgs_status ?st) = ''1''"
    "vst_Version (mgs_status (fst (version_pass mig_To (demo_version_pass ''1'' 99) ?st))) = ''1''"
    "mgs_runs ?st ''rename@2/up'' = 1" by code_simp+
  have "case planVersionMigrations demo_env (versioned_set ''1'') ''1'' [] of
     Inl e \<Rightarrow> False | Inr plan \<Rightarrow> mp_pending plan = [] \<and> mp_versionSet plan" by code_simp
  then obtain plan0 where plan0: "planVersionMigrations demo_env (versioned_set ''1'') ''1'' [] = Inr plan0"
    "mp_pending plan0 = []" "mp_versionSet plan0" by (auto split: sum.splits)
  obtain plan where plan: "planVersionMigrations demo_env (versioned_set ''3'') ''1'' [] = Inr plan"
    "\<not> mp_downgrade plan" "map mig_Name (mp_pending plan) = [''rename'', ''split'']"
    using demo_plan by (auto split: sum.splits)
  have env: "vp_env (demo_version_pass x b) = demo_env" "vp_set (demo_version_pass x b) = versioned_set x"
    "vp_resolved (demo_version_pass x b) = []" for x b by (simp_all add: demo_version_pass_def)
  have tr: "same_transition digit_semver ''3'' demo_ladder (demo_version_pass ''3'' bad)" for bad
    by (rule demo_same_transition) (code_simp, simp)
  have again: "\<forall>m\<in>set (mp_pending plan). \<forall>e\<in>needed mig_To (mp_downgrade plan) m. mgs_runs ?st e < mgs_runs st2 e"
    using abandoned_transition_reapplies [OF _ plan0(2,3) p1 [unfolded fin] tr demo_clean _ p2 [unfolded fin], of plan]
      plan0(1) plan(1) v(1,2) p1 unfolding env by simp
  obtain m ms where ms: "mp_pending plan = m # ms" "mig_Name m = ''rename''"
    using plan(3) by (cases "mp_pending plan") auto
  then have m: "m \<in> set (mp_pending plan)" "mig_Name m = ''rename''" by simp_all
  have "m \<in> set demo_ladder"
    using plan_ok [OF plan(1)] m(1) demo_ladder_of by (auto simp: plan_of_def)
  then have "m = plain_migration ''rename'' ''2''" using m(2) by (auto simp: demo_ladder_def plain_migration_def)
  then have "''rename@2/up'' \<in> needed mig_To (mp_downgrade plan) m"
    using plan(2) by (simp add: needed_def entry_def migrationKey_def plain_migration_def plain_action_def)
  then show ?thesis using again m(1) v(3) p1 p2 by fastforce
qed


section \<open>What a plan allows\<close>

lemma planUpgrade_covered:
  assumes "planUpgrade env ss v c d desired = Inr plan"
  shows "\<not> (vs_RequireMigrationCoverage v \<and> mp_pending plan = [] \<and> sv_Major (pe_semver env) c < sv_Major (pe_semver env) d)"
proof -
  obtain ladder src where l: "resolveMigrationLadder env ss = Inr (ladder, src)"
    and p: "Select (pe_semver env) ladder c d = Inr (mp_pending plan)"
    using planUpgrade_ok [OF assms] by blast
  then show ?thesis using assms by (auto simp: planUpgrade_def coverageGap_def split: if_splits)
qed

text \<open>C26: a plan moves the version only as the spec permits. Against a deployed version, a plan is made only
  when both versions parse. Lower than deployed: downgrades are enabled, the pending migrations are the
  crossed-down boundaries of the ladder and each has actions to reverse it. Higher: they are the ladder's
  upward selection, and a crossed major version is covered when the spec requires it. Equal: none. Each
  pending migration is anchored to exactly one stage, and that stage is in the spec.\<close>

theorem plan_exact:
  assumes "planVersionMigrations env ss current resolved = Inr plan" "spec_Version (set_Spec ss) = Some v" "current \<noteq> []"
  shows "\<exists>c d. sv_NewVersion (pe_semver env) current = Some c \<and> sv_NewVersion (pe_semver env) (mp_desired plan) = Some d \<and>
    (d < c \<longrightarrow> mp_downgrade plan \<and> vs_AllowDowngrade v \<and> (\<forall>m\<in>set (mp_pending plan). mig_Down m \<noteq> []) \<and>
      (\<exists>ladder src. resolveMigrationLadder env ss = Inr (ladder, src) \<and>
        SelectDown (pe_semver env) ladder c d = Inr (mp_pending plan))) \<and>
    (c < d \<longrightarrow> \<not> mp_downgrade plan \<and>
      \<not> (vs_RequireMigrationCoverage v \<and> mp_pending plan = [] \<and> sv_Major (pe_semver env) c < sv_Major (pe_semver env) d) \<and>
      (\<exists>ladder src. resolveMigrationLadder env ss = Inr (ladder, src) \<and>
        Select (pe_semver env) ladder c d = Inr (mp_pending plan))) \<and>
    (c = d \<longrightarrow> mp_pending plan = []) \<and>
    (\<forall>m\<in>set (mp_pending plan). \<exists>s\<in>stg_Name ` set (spec_Stages (set_Spec ss)).
      \<forall>x. m \<in> set (mp_byStage plan x) \<longleftrightarrow> x = s)"
proof -
  have stages: "\<forall>m\<in>set (mp_pending plan). \<exists>s\<in>stg_Name ` set (spec_Stages (set_Spec ss)).
      \<forall>x. m \<in> set (mp_byStage plan x) \<longleftrightarrow> x = s"
  proof
    fix m assume m: "m \<in> set (mp_pending plan)"
    have by_stage: "m \<in> set (mp_byStage plan x) \<longleftrightarrow> x = anchorStage ss (mig_Stage m)" for x
      using plan_ok [OF assms(1)] m by (auto simp: plan_of_def)
    have "anchorStage ss (mig_Stage m) \<noteq> []" using plan_ok [OF assms(1)] m by (auto simp: plan_of_def)
    from anchorStage_mem [OF this] by_stage
    show "\<exists>s\<in>stg_Name ` set (spec_Stages (set_Spec ss)). \<forall>x. m \<in> set (mp_byStage plan x) \<longleftrightarrow> x = s" by blast
  qed
  from assms(1) show ?thesis
  proof (cases rule: plan_cases)
    case (down v' offered c d)
    then show ?thesis using planDowngrade_ok [OF down(7)] stages assms(2) by auto
  next
    case (up v' offered c d)
    have "\<not> (vs_RequireMigrationCoverage v \<and> mp_pending plan = [] \<and> sv_Major (pe_semver env) c < sv_Major (pe_semver env) d)"
      using planUpgrade_covered [OF up(7)] up(1) assms(2) by simp
    then show ?thesis using up planUpgrade_ok [OF up(7)] stages by auto
  qed (use assms(2,3) stages in \<open>auto simp: zero_plan_def\<close>)
qed

lemma directed_plan:
  "case planVersionMigrations demo_env (versioned_set ''1'') ''3'' [] of
     Inl e \<Rightarrow> False | Inr plan \<Rightarrow> mp_desired plan = ''1''"
  by code_simp

theorem plan_exact_witness:
  "\<exists>plan. planVersionMigrations demo_env (versioned_set ''1'') ''3'' [] = Inr plan \<and> mp_downgrade plan"
proof -
  obtain plan where p: "planVersionMigrations demo_env (versioned_set ''1'') ''3'' [] = Inr plan" "mp_desired plan = ''1''"
    using directed_plan by (auto split: sum.splits)
  have "spec_Version (set_Spec (versioned_set ''1'')) \<noteq> None" by (simp add: versioned_set_def)
  then obtain v where "spec_Version (set_Spec (versioned_set ''1'')) = Some v" by blast
  from plan_exact [OF p(1) this] show ?thesis
    using p by (auto simp: demo_env_def digit_semver_def)
qed

section \<open>The halt after repeated failures\<close>

definition with_failures :: "int \<Rightarrow> 'w mig_state \<Rightarrow> 'w mig_state" where
  "with_failures n st = st\<lparr>mgs_status := (mgs_status st)\<lparr>vst_MigrationFailureCount := n\<rparr>\<rparr>"

abbreviation on_state :: "int \<Rightarrow> 'w mig_state \<times> 'e \<Rightarrow> 'w mig_state \<times> 'e" where
  "on_state n \<equiv> map_prod (with_failures n) (\<lambda>e. e)"

lemma with_failures_frame [simp]:
  "mgs_world (with_failures n st) = mgs_world st" "mgs_runs (with_failures n st) = mgs_runs st"
  "vst_Version (mgs_status (with_failures n st)) = vst_Version (mgs_status st)"
  "vst_ExecutedMigrations (mgs_status (with_failures n st)) = vst_ExecutedMigrations (mgs_status st)"
  "vst_ExecutedMigrationActions (mgs_status (with_failures n st)) = vst_ExecutedMigrationActions (mgs_status st)"
  by (simp_all add: with_failures_def)

lemma Run_with_failures:
  "Run (counted_mig act key) (Some (record_mig key)) d acts (with_failures n st) =
   on_state n (Run (counted_mig act key) (Some (record_mig key)) d acts st)"
proof (induction acts arbitrary: st)
  case (Cons a acts)
  obtain w r where "act a (mgs_world st) = (w, r)" by fastforce
  moreover have "record_mig key x (with_failures n s) = on_state n (record_mig key x s)" for x and s :: "'a mig_state"
    by (simp add: record_mig_def with_failures_def)
  moreover have "record_mig key x s = (fst (record_mig key x s), None)" for x and s :: "'a mig_state"
    by (simp add: record_mig_def)
  moreover have "counted_mig act key a (with_failures n st) = on_state n (counted_mig act key a st)"
    using calculation(1) by (cases r) (simp_all add: counted_mig_def with_failures_def)
  ultimately show ?case using Cons.IH
    by (cases "counted_mig act key a st"; cases "snd (counted_mig act key a st)") (auto split: option.splits prod.splits)
qed simp

lemma run_keyed_with_failures: "run_keyed act key acts (with_failures n st) = on_state n (run_keyed act key acts st)"
  by (simp add: run_keyed_def Run_with_failures)


lemma run_loop_with_failures:
  assumes "\<And>m s. fin m (with_failures n s) = with_failures n (fin m s)"
  shows "run_loop key sub acts fin act ex ms (with_failures n st) = on_state n (run_loop key sub acts fin act ex ms st)"
proof (induction ms arbitrary: ex st)
  case (Cons m ms)
  obtain st1 r where "run_keyed act (sub m) (acts m) st = (st1, r)" by fastforce
  then show ?case using Cons assms by (simp add: run_keyed_with_failures split: option.split)
qed simp

lemma runStageMigrations_with_failures:
  "runStageMigrations digest act plan stage (with_failures n st) = on_state n (runStageMigrations digest act plan stage st)"
proof -
  have "dir_finish digest down m (with_failures n s) = with_failures n (dir_finish digest down m s)"
    for down m and s :: "'a mig_state"
    by (simp add: dir_finish_def prune_state_def mark_executed_def pruneSupersededLedger_def with_failures_def)
  note loop = run_loop_with_failures [of "dir_finish digest d" for d, OF this]
  show ?thesis
    by (simp add: runStageMigrations_def runStageDowngrades_def run_dir loop)
qed

lemma with_failures_twice [simp]: "with_failures n (with_failures m st) = with_failures n st"
  by (simp add: with_failures_def)

lemma stage_migrations_with_failures:
  "snd (stage_migrations digest act rest_ok plan stages (with_failures n st)) =
     snd (stage_migrations digest act rest_ok plan stages st) \<and>
   with_failures 0 (fst (stage_migrations digest act rest_ok plan stages (with_failures n st))) =
     with_failures 0 (fst (stage_migrations digest act rest_ok plan stages st))"
proof (induction stages arbitrary: st)
  case (Cons s stages)
  obtain st1 r where r: "runStageMigrations digest act plan s st = (st1, r)" by fastforce
  show ?case
  proof (cases r)
    case None
    then show ?thesis using r Cons by (simp add: runStageMigrations_with_failures)
  next
    case (Some e)
    then show ?thesis using r by (simp add: runStageMigrations_with_failures) (simp add: with_failures_def)
  qed
qed (simp add: with_failures_def)

lemma dirty_op: "migration_fail_op (mgs_status (with_failures n st)) = opMigrationDirty \<longleftrightarrow> maxMigrationFailures \<le> n"
  by (simp add: with_failures_def migration_fail_op_def opMigrationDirty_def opMigration_def)

text \<open>The halt after repeated failures only drops the retry. Whatever number of failures the status
  has counted, the threshold of a dirty migration passed or not, a pass does what it would have done with
  none: the same actions run and the same ledger entries are written, to the same effect and the same end.
  Only the condition it reports differs.\<close>

theorem dirty_migration_reruns:
  "snd (version_pass digest p (with_failures n st)) = snd (version_pass digest p st) \<and>
   with_failures 0 (fst (version_pass digest p (with_failures n st))) = with_failures 0 (fst (version_pass digest p st)) \<and>
   (migration_fail_op (mgs_status (with_failures n st)) = opMigrationDirty \<longleftrightarrow> maxMigrationFailures \<le> n)"
proof (cases "planVersionMigrations (vp_env p) (vp_set p) (vst_Version (mgs_status st)) (vp_resolved p)")
  case (Inr plan)
  let ?start = "\<lambda>s. s\<lparr>mgs_status := (mgs_status s)\<lparr>vst_PendingMigrations := pendingDetails digest (vp_set p) plan,
      vst_PendingVersion := []\<rparr>\<rparr>"
  have start: "?start (with_failures n st) = with_failures n (?start st)" by (simp add: with_failures_def)
  obtain s1 ok s2 ok' where r:
    "stage_migrations digest (vp_act p) (vp_rest_ok p) plan (map stg_Name (spec_Stages (set_Spec (vp_set p)))) (?start st) = (s1, ok)"
    "stage_migrations digest (vp_act p) (vp_rest_ok p) plan (map stg_Name (spec_Stages (set_Spec (vp_set p))))
      (with_failures n (?start st)) = (s2, ok')"
    by fastforce
  have same: "ok' = ok" "with_failures 0 s2 = with_failures 0 s1"
    using stage_migrations_with_failures [of digest "vp_act p" "vp_rest_ok p" plan _ n "?start st"] r by (metis fst_conv snd_conv)+
  have adv: "with_failures 0 (s\<lparr>mgs_status := advance_version plan (mgs_status s)\<rparr>) =
      (let z = with_failures 0 s in z\<lparr>mgs_status := advance_version plan (mgs_status z)\<rparr>)" for s :: "'a mig_state"
    by (simp add: with_failures_def advance_version_def Let_def)
  show ?thesis
  proof (cases "awaits_approval (vp_set p) plan (vst_Version (mgs_status st))")
    case True
    then show ?thesis using Inr dirty_op by (simp add: version_pass_def Let_def) (simp add: with_failures_def)
  next
    case False
    have eq: "version_pass digest p st =
        (if ok then (s1\<lparr>mgs_status := advance_version plan (mgs_status s1)\<rparr>, Synced) else (s1, StageStopped))"
      using Inr False r(1) by (simp add: version_pass_def Let_def)
    have "version_pass digest p (with_failures n st) =
        (if ok' then (s2\<lparr>mgs_status := advance_version plan (mgs_status s2)\<rparr>, Synced) else (s2, StageStopped))"
      using Inr False r(2) [folded start] by (simp add: version_pass_def Let_def)
    then show ?thesis using eq same dirty_op by (simp add: adv)
  qed
qed (simp add: version_pass_def dirty_op)

end
