(* ===== verification/FleetHalts.thy ===== *)
theory FleetHalts
  imports FleetWaves Transitions
begin

text \<open>
  What a fleet rollout does when something goes wrong, or seems to: how long a halt lasts, what a new
  target does to a completed rollout, which wave goes first when the target is derived, and whether a
  member can follow a rollback.
\<close>

section \<open>After a pass that looked\<close>

lemma soak_after_pass:
  assumes "fleet_view env fr cluster = Some wm" "distinct (map fwv_Name (waves_of fr))" "k < length (waves_of fr)"
  shows "soak_of (fleet_pass (env, cluster) fr) k = None \<or> wave_healthy fr k wm"
  using soak_step [OF assms] by simp

text \<open>A halt is forgotten. Whatever made a pass halt, a regressed member included, the next pass that
  sees the waves reports the rollout as in progress and Ready although the member has not recovered, as
  long as no further wave regressed and no gate fails: the settled mark of the regressed wave, by which the
  regression is recognised, was dropped by the pass that halted.\<close>

theorem halt_forgotten:
  assumes "fleet_view env fr cluster = Some wm" "distinct (map fwv_Name (waves_of fr))"
    and "fst_Phase (fr_Status (fleet_pass (env, cluster) fr)) = FleetHalted"
    and "fleet_view env' fr cluster' = Some wm'" "distinct (map member_id cluster')" "\<forall>m. fv_patch_ok env' m"
    and "\<forall>k<length (waves_of fr). wave_healthy fr k wm \<longrightarrow> wave_healthy fr k wm'"
    and "\<forall>w\<in>set (waves_of fr). \<not> gate_fails env' w"
    and "j < length (waves_of fr)" "\<not> wave_healthy fr j wm'"
  shows "fst_Phase (fr_Status (fleet_passes [(env, cluster), (env', cluster')] fr)) = FleetInProgress \<and>
    fst_Ready (fr_Status (fleet_passes [(env, cluster), (env', cluster')] fr)) = Some (True, ReasonFleetProgressing)"
proof -
  let ?fr = "fleet_pass (env, cluster) fr"
  have view: "fleet_view env' ?fr cluster' = Some wm'"
    using fleet_view_status [of ?fr fr env' cluster'] assms(4) by simp
  have spec: "fr_Spec ?fr = fr_Spec fr" by simp
  note healthy = wave_healthy_cong [OF spec]
  have kept: "\<forall>k<length (waves_of ?fr). soak_of ?fr k = None \<or> wave_healthy ?fr k wm'"
    using soak_after_pass [OF assms(1,2)] assms(7) healthy by auto
  have gates: "\<forall>w\<in>set (waves_of ?fr). \<not> gate_fails env' w" using assms(8) by simp
  obtain i where i: "first_open env' ?fr wm' i"
    "fst_Phase (fr_Status (fleet_pass (env', cluster') ?fr)) = (if i = None then FleetCompleted else FleetInProgress)"
    "fst_Ready (fr_Status (fleet_pass (env', cluster') ?fr)) =
       Some (True, if i = None then ReasonFleetCompleted else ReasonFleetProgressing)"
    using pass_opens [OF view assms(5,6) kept gates] by metis
  have "\<not> clears env' ?fr wm' j" using assms(10) healthy by (simp add: clears_def)
  then have "i \<noteq> None" using i(1) assms(9) by (auto simp: first_open_def split: option.splits)
  then show ?thesis using i(2,3) by simp
qed

lemma first_wave_halts:
  assumes "fleet_view env fr cluster = Some wm" "distinct (map fwv_Name (waves_of fr))"
    and "waves_of fr \<noteq> []" "soak_of fr 0 \<noteq> None" "m \<in> set (wm ! 0)" "\<not> fleetAdopted (fr_Spec fr) m"
    and "fsp_OnRegression (fr_Spec fr) = ''Rollback''" "fsp_PreviousVersion (fr_Spec fr) \<noteq> []"
    and "distinct (map member_id cluster)" "\<forall>m. fv_patch_ok env m"
  shows "fst_Phase (fr_Status (fleet_pass (env, cluster) fr)) = FleetHalted \<and>
    snd (fst (reconcile_fleet env fr cluster)) =
      map (stamped_member rollbackToAnnotation (\<lambda>_. fsp_PreviousVersion (fr_Spec fr)) (set (wm ! 0))) cluster"
proof -
  note len = fleet_view_length [OF assms(1)]
  have pos: "0 < length (waves_of fr)" using assms(3) by simp
  from advance_waves_walk [OF assms(1)] obtain walked e where
    walk: "walk_waves env (fst_Waves (fr_Status fr)) (waves_of fr) (settled_waves env fr wm) = (walked, e)" and
    r: "reconcile_fleet env fr cluster = (case e of
        HaltAt w _ \<Rightarrow> halt env (fr_Spec fr) (waves_of fr ! w) (wm ! w) ((observed fr)\<lparr>fst_Waves := walked\<rparr>, cluster)
      | FirstOpen i \<Rightarrow> open_waves env (fr_Spec fr) wm i ((observed fr)\<lparr>fst_Waves := walked\<rparr>, cluster))" .
  have "\<not> healthy_member (fr_Spec fr) m"
    using assms(6) by (simp add: healthy_member_def memberProgress_def)
  then have "\<not> wave_healthy fr 0 wm" using assms(5) by (auto simp: wave_healthy_def)
  then have reg: "wave_regressed (fst_Waves (fr_Status fr)) (settled_waves env fr wm ! 0)"
    using assms(4) by (intro wave_passed_clears(2) [OF len pos, THEN iffD2]) simp
  obtain w ws s ss where "waves_of fr = w # ws" "settled_waves env fr wm = s # ss"
    using pos len settled_waves_length [OF len, of env] by (metis length_0_conv list.exhaust less_irrefl)
  then have e: "e = HaltAt 0 Regressed" using walk reg by (simp add: walk_waves_Cons)
  have sub: "set (wm ! 0) \<subseteq> set cluster" using view_members [OF assms(1), of "wm ! 0"] len pos by simp
  have "patch_all (rollbackMember env (fsp_PreviousVersion (fr_Spec fr))) (wm ! 0) cluster =
      (map (stamped_member rollbackToAnnotation (\<lambda>_. fsp_PreviousVersion (fr_Spec fr)) (set (wm ! 0))) cluster, True)"
    using stamps_all [OF assms(9) rollback_stamps [OF assms(10,8)] sub, where S = "{}"] by simp
  then show ?thesis using r e assms(7,8) by (simp add: fleet_pass_def halt_def setFleetReady_def)
qed

text \<open>A new target halts a completed rollout and rolls it back. When the first wave had settled and a
  member of it has not yet adopted the target, because the target was changed or a new version awaits
  approval, the pass halts the rollout as regressed; with a rollback configured it directs every member of
  the wave to the previous version, though nothing failed.\<close>

theorem new_target_halts:
  assumes "fleet_view env fr cluster = Some wm" "distinct (map fwv_Name (waves_of fr))"
    and "waves_of fr \<noteq> []" "soak_of fr 0 \<noteq> None" "m \<in> set (wm ! 0)" "\<not> fleetAdopted (fr_Spec fr) m"
    and "fsp_OnRegression (fr_Spec fr) = ''Rollback''" "fsp_PreviousVersion (fr_Spec fr) \<noteq> []"
    and "distinct (map member_id cluster)" "\<forall>m. fv_patch_ok env m"
  shows "fst_Phase (fr_Status (fleet_pass (env, cluster) fr)) = FleetHalted \<and>
    snd (fst (reconcile_fleet env fr cluster)) =
      map (stamped_member rollbackToAnnotation (\<lambda>_. fsp_PreviousVersion (fr_Spec fr)) (set (wm ! 0))) cluster"
  by (rule first_wave_halts [OF assms])

text \<open>With a derived target the canary wave can be skipped. A standing rollout that has settled before,
  whose earlier waves have not noticed the source's new version yet, takes them for settled and soaked. When
  a member of a later wave is the first to hold the new version, two passes approve it there, and no member
  of an earlier wave has been asked to adopt it.\<close>

theorem derived_canary_skipped:
  assumes "fsp_TargetVersion (fr_Spec fr) = []" "distinct (map fwv_Name (waves_of fr))" "w < length (waves_of fr)"
    and "fleet_view env1 fr cluster1 = Some wm1" "fleet_view env2 fr cluster2 = Some wm2"
    and "\<forall>k<length (waves_of fr). wave_healthy fr k wm2 = wave_healthy fr k wm1"
    and "\<forall>u<w. wave_healthy fr u wm1 \<and> gate_passes env2 (waves_of fr ! u) \<and>
      (\<exists>t. soak_of fr u = Some t \<and> t \<le> fv_now env2)"
    and "m \<in> set (wm2 ! w)" "fm_PendingVersion m \<noteq> []" "\<forall>v\<in>set (waves_of fr). \<not> gate_fails env2 v"
    and "distinct (map member_id cluster2)" "\<forall>m. fv_patch_ok env2 m"
  shows "\<exists>S. snd (fst (reconcile_fleet env2 (fleet_pass (env1, cluster1) fr) cluster2)) = map (approved_member (fr_Spec fr) S) cluster2 \<and>
    m \<in> S \<and> member_annotation (approved_member (fr_Spec fr) S m) approvedVersionAnnotation = fm_PendingVersion m \<and>
    (\<forall>u<w. \<forall>y\<in>set (wm2 ! u). member_annotation (approved_member (fr_Spec fr) S y) approvedVersionAnnotation =
        member_annotation y approvedVersionAnnotation)"
proof -
  let ?fr = "fleet_pass (env1, cluster1) fr"
  have view: "fleet_view env2 ?fr cluster2 = Some wm2"
    using fleet_view_status [of ?fr fr env2 cluster2] assms(5) by simp
  have spec: "fr_Spec ?fr = fr_Spec fr" by simp
  note healthy = wave_healthy_cong [OF spec]
  have kept: "\<forall>k<length (waves_of ?fr). soak_of ?fr k = None \<or> wave_healthy ?fr k wm2"
    using soak_after_pass [OF assms(4,2)] assms(6) healthy by auto
  have gates: "\<forall>v\<in>set (waves_of ?fr). \<not> gate_fails env2 v" using assms(10) by simp
  obtain i where i: "first_open env2 ?fr wm2 i"
    "snd (fst (reconcile_fleet env2 ?fr cluster2)) =
       map (approved_member (fr_Spec ?fr) (\<Union> (set ` set (take (open_through ?fr i) wm2)))) cluster2"
    using pass_opens [OF view assms(11,12) kept gates] by metis
  have nm: "\<not> healthy_member (fr_Spec fr) m"
    using assms(1,9) by (simp add: healthy_member_def memberProgress_def fleetAdopted_def)
  have clear: "clears env2 ?fr wm2 u" if "u < w" for u
    using soak_step [OF assms(4,2), of u] assms(3,6,7) that healthy by (auto simp: clears_def)
  have "\<not> clears env2 ?fr wm2 w" using nm assms(8) healthy by (auto simp: clears_def wave_healthy_def)
  then have "i = Some w" using i(1) clear assms(3) by (auto simp: first_open_def split: option.splits) (metis linorder_neqE_nat)
  let ?S = "\<Union> (set ` set (take (open_through ?fr i) wm2))"
  have "m \<in> ?S"
  proof -
    have "wm2 ! w \<in> set (take (Suc w) wm2)"
      using assms(3) fleet_view_length [OF assms(5)] by (auto simp: in_set_conv_nth intro!: exI [of _ w])
    then show ?thesis using assms(8) \<open>i = Some w\<close> by (auto simp: open_through_def)
  qed
  moreover have "fm_PendingVersion y = []" if "u < w" "y \<in> set (wm2 ! u)" for u y
  proof -
    have "wave_healthy fr u wm2" using assms(3,6,7) that(1) by simp
    then have "healthy_member (fr_Spec fr) y" using that(2) by (simp add: wave_healthy_def)
    then show ?thesis using assms(1) by (simp add: healthy_member_def memberProgress_def fleetAdopted_def)
  qed
  ultimately show ?thesis
    using i(2) assms(1,9) by (intro exI [of _ ?S]) (auto simp: stamped_member_annotation fleetApprovalVersion_def)
qed


section \<open>Following a rollback\<close>

text \<open>A member of a pinned fleet cannot follow its rollback. The members hold every transition for
  approval, and a pinned rollout approves its target and nothing else. So a member directed back to another
  version plans that version and then waits for an approval that no pass gives: it stays where it is.\<close>

theorem pinned_rollback_held:
  assumes "fsp_TargetVersion (fr_Spec fr) \<noteq> []" "previous \<noteq> fsp_TargetVersion (fr_Spec fr)" "previous \<noteq> []"
    and "\<forall>x\<in>set cluster. member_annotation x approvedVersionAnnotation \<noteq> previous"
    and "x' \<in> set (snd (fst (reconcile_fleet env fr cluster)))"
    and "set_Annotations ss = fm_Annotations x'" "spec_Version (set_Spec ss) = Some v" "vs_ApprovalMode v = ApprovalAlways"
    and "planVersionMigrations penv ss current resolved = Inr plan" "mp_desired plan = previous"
    and "current \<noteq> []" "current \<noteq> previous"
  shows "awaits_approval ss plan current"
proof -
  obtain st' c' r where p: "reconcile_fleet env fr cluster = ((st', c'), r)" by (metis prod.collapse)
  have x': "x' \<in> set c'" using assms(5) p by simp
  have "member_annotation x' approvedVersionAnnotation \<noteq> previous"
  proof
    assume e: "member_annotation x' approvedVersionAnnotation = previous"
    have "\<forall>x\<in>set cluster. member_id x = member_id x' \<longrightarrow>
        member_annotation x approvedVersionAnnotation \<noteq> member_annotation x' approvedVersionAnnotation"
      using assms(4) e by simp
    from approved_wave [OF p x' this] obtain m where
      "fleetApprovalVersion (fr_Spec fr) m = member_annotation x' approvedVersionAnnotation" by metis
    then show False using e assms(1,2) by (simp add: fleetApprovalVersion_def)
  qed
  moreover have "annotation ss k = member_annotation x' k" for k
    using assms(6) by (simp add: annotation_def member_annotation_def)
  moreover have "mp_versionSet plan \<and> \<not> mp_baseline plan"
    using assms(9)
  proof (cases rule: plan_cases)
    case (down v' offered c d)
    then show ?thesis using planDowngrade_ok [OF down(7)] by simp
  next
    case (up v' offered c d)
    then show ?thesis using planUpgrade_ok [OF up(7)] by simp
  qed (use assms(7,11) in \<open>simp_all add: zero_plan_def\<close>)
  ultimately show ?thesis
    using assms(7,8,10,12) by (simp add: awaits_approval_def versionApprovalNeeded_def)
qed

section \<open>Concrete fleets\<close>

abbreviation demo_cluster :: "string \<Rightarrow> string \<Rightarrow> string \<Rightarrow> string \<Rightarrow> fleet_member list" where
  "demo_cluster a p b q \<equiv> [demo_member ''canary'' a p, demo_member ''rest'' b q]"

definition settled_fleet :: "string \<Rightarrow> FleetRollout" where
  "settled_fleet v = fleet_pass (demo_fleet_env 0, demo_cluster ''2'' [] ''2'' []) (demo_fleet v)"

lemma settled_frame [simp]: "fr_Spec (settled_fleet v) = fr_Spec (demo_fleet v)" "fr_Name (settled_fleet v) = fr_Name (demo_fleet v)"
  by (simp_all add: settled_fleet_def)

lemma settled_view: "fleet_view (demo_fleet_env now) (settled_fleet v) (demo_cluster a p b q) =
    Some [[demo_member ''canary'' a p], [demo_member ''rest'' b q]]"
  using demo_view by (subst fleet_view_status [of _ "demo_fleet v"]) simp_all

lemma settled_healthy [simp]: "wave_healthy (settled_fleet v) k wm = wave_healthy (demo_fleet v) k wm"
  by (rule wave_healthy_cong) simp

lemma settled_soak [simp]:
  "v = [] \<or> v = ''2'' \<Longrightarrow> soak_of (settled_fleet v) 0 = Some 5"
  "v = [] \<or> v = ''2'' \<Longrightarrow> soak_of (settled_fleet v) (Suc 0) = Some 5"
  unfolding settled_fleet_def by (auto simp add: soak_step [OF demo_view])

lemma demo_policy: "fsp_OnRegression (fr_Spec (demo_fleet v)) = ''Rollback''" "fsp_PreviousVersion (fr_Spec (demo_fleet v)) = ''1''"
  "fsp_TargetVersion (fr_Spec (demo_fleet v)) = v"
  by (simp_all add: demo_fleet_def)

lemma settled_halts:
  "fst_Phase (fr_Status (fleet_pass (demo_fleet_env 10, demo_cluster ''2'' ''3'' ''2'' []) (settled_fleet []))) = FleetHalted"
  using first_wave_halts [OF settled_view [of 10 "[]" "''2''" "''3''" "''2''" "[]"], where m = "demo_member ''canary'' ''2'' ''3''"]
  by (simp add: demo_policy fleetAdopted_def) (simp add: demo_member_def)

theorem halt_forgotten_witness:
  "fst_Phase (fr_Status (fleet_passes [(demo_fleet_env 10, demo_cluster ''2'' ''3'' ''2'' []),
     (demo_fleet_env 11, demo_cluster ''2'' ''3'' ''2'' [])] (settled_fleet []))) = FleetInProgress"
  using halt_forgotten [OF settled_view _ settled_halts settled_view [of 11 "[]" "''2''" "''3''" "''2''" "[]"], of 0]
  by (simp add: less_Suc_eq)

theorem new_target_halts_witness:
  "snd (fst (reconcile_fleet (demo_fleet_env 10) (settled_fleet []) (demo_cluster ''2'' ''3'' ''2'' []))) =
     map (stamped_member rollbackToAnnotation (\<lambda>_. ''1'') {demo_member ''canary'' ''2'' ''3''}) (demo_cluster ''2'' ''3'' ''2'' [])"
  using new_target_halts [OF settled_view [of 10 "[]" "''2''" "''3''" "''2''" "[]"], where m = "demo_member ''canary'' ''2'' ''3''"]
  by (simp add: demo_policy fleetAdopted_def) (simp add: demo_member_def)

theorem derived_canary_skipped_witness:
  "\<exists>S. demo_member ''rest'' ''2'' ''3'' \<in> S \<and>
     member_annotation (approved_member (fr_Spec (settled_fleet [])) S (demo_member ''rest'' ''2'' ''3'')) approvedVersionAnnotation = ''3''"
  using derived_canary_skipped [OF _ _ _ settled_view [of 10 "[]" "''2''" "[]" "''2''" "''3''"]
      settled_view [of 11 "[]" "''2''" "[]" "''2''" "''3''"], where w = "Suc 0" and m = "demo_member ''rest'' ''2'' ''3''"]
  by (simp add: demo_policy less_Suc_eq) (auto simp: demo_member_def)

text \<open>A pinned fleet whose canary is not at the target any more, and the StageSet behind the canary.\<close>

abbreviation regressed_cluster :: "fleet_member list" where
  "regressed_cluster \<equiv> demo_cluster ''3'' [] ''2'' []"

lemma pinned_halts:
  "snd (fst (reconcile_fleet (demo_fleet_env 10) (settled_fleet ''2'') regressed_cluster)) =
     map (stamped_member rollbackToAnnotation (\<lambda>_. ''1'') {demo_member ''canary'' ''3'' []}) regressed_cluster"
  using first_wave_halts [OF settled_view [of 10 "''2''" "''3''" "[]" "''2''" "[]"], where m = "demo_member ''canary'' ''3'' []"]
  by (simp add: demo_policy fleetAdopted_def) (simp add: demo_member_def)

definition held_set :: StageSet where
  "held_set = (versioned_set ''2'')\<lparr>set_Annotations := [rollbackToAnnotation \<mapsto> ''1''],
     set_Spec := (set_Spec (versioned_set ''2''))\<lparr>spec_Version :=
       map_option (\<lambda>v. v\<lparr>vs_ApprovalMode := ApprovalAlways\<rparr>) (spec_Version (set_Spec (versioned_set ''2'')))\<rparr>\<rparr>"

theorem pinned_rollback_held_witness:
  "\<exists>plan. planVersionMigrations demo_env held_set ''3'' [] = Inr plan \<and> awaits_approval held_set plan ''3''"
proof -
  have "case planVersionMigrations demo_env held_set ''3'' [] of Inl e \<Rightarrow> False | Inr plan \<Rightarrow> mp_desired plan = ''1''"
    by code_simp
  then obtain plan where plan: "planVersionMigrations demo_env held_set ''3'' [] = Inr plan" "mp_desired plan = ''1''"
    by (auto split: sum.splits)
  let ?x' = "stamped_member rollbackToAnnotation (\<lambda>_. ''1'') {demo_member ''canary'' ''3'' []} (demo_member ''canary'' ''3'' [])"
  have member: "?x' \<in> set (snd (fst (reconcile_fleet (demo_fleet_env 10) (settled_fleet ''2'') regressed_cluster)))"
    unfolding pinned_halts by simp
  have annotations: "set_Annotations held_set = fm_Annotations ?x'"
    by (simp add: held_set_def stamped_member_def) (simp add: demo_member_def)
  have clean: "\<forall>x\<in>set regressed_cluster. member_annotation x approvedVersionAnnotation \<noteq> ''1''" by simp
  obtain v where v: "spec_Version (set_Spec held_set) = Some v" "vs_ApprovalMode v = ApprovalAlways"
    by (simp add: held_set_def versioned_set_def)
  have pinned: "fsp_TargetVersion (fr_Spec (settled_fleet ''2'')) \<noteq> []" "''1'' \<noteq> fsp_TargetVersion (fr_Spec (settled_fleet ''2''))"
    by (simp_all add: demo_policy)
  show ?thesis
    using pinned_rollback_held [OF pinned _ clean member annotations v plan] plan(1) by auto
qed

end
