(* ===== verification/FleetProgress.thy ===== *)
theory FleetProgress
  imports FleetWaves
begin

text \<open>
  Liveness of a pinned fleet rollout: members that adopt what they are approved for, gates that pass and
  passes spaced by at least the soaks bring every wave to the target, two passes a wave.
\<close>

section \<open>Runs with members that follow\<close>

definition adopted :: "string \<Rightarrow> fleet_member \<Rightarrow> fleet_member" where
  "adopted version x = x\<lparr>so_Version := version, so_Ready := Some ''True'', so_ObservedGeneration := so_Generation x,
     so_PendingUpdate := None\<rparr>"

definition follow :: "FleetRolloutSpec \<Rightarrow> fleet_member \<Rightarrow> fleet_member" where
  "follow spec x =
     (if member_annotation x approvedVersionAnnotation = fsp_TargetVersion spec then adopted (fsp_TargetVersion spec) x else x)"

definition at_time :: "'v fleet_env \<Rightarrow> instant \<Rightarrow> 'v fleet_env" where
  "at_time env t = env\<lparr>fv_now := t\<rparr>"

fun fleet_run ::
  "('v :: linorder) fleet_env \<Rightarrow> (nat \<Rightarrow> instant) \<Rightarrow> nat \<Rightarrow> FleetRollout \<times> fleet_member list \<Rightarrow> FleetRollout \<times> fleet_member list" where
  "fleet_run env at 0 s = s"
| "fleet_run env at (Suc i) s =
     (let (fr, c) = fleet_run env at i s in
      (fleet_pass (at_time env (at i), c) fr,
       map (follow (fr_Spec fr)) (snd (fst (reconcile_fleet (at_time env (at i)) fr c)))))"

section \<open>Views of changed members\<close>

definition keeps_identity :: "(fleet_member \<Rightarrow> fleet_member) \<Rightarrow> bool" where
  "keeps_identity f \<longleftrightarrow>
     (\<forall>x. so_Namespace (f x) = so_Namespace x \<and> so_Name (f x) = so_Name x \<and> fm_Labels (f x) = fm_Labels x)"

lemma keeps_identity_member: "keeps_identity f \<Longrightarrow> member_key (f x) = member_key x" "keeps_identity f \<Longrightarrow> member_id (f x) = member_id x"
  by (simp_all add: keeps_identity_def member_key_def member_id_def)

lemma fleet_members_map:
  assumes "keeps_identity f"
  shows "fleet_members env spec (map f c) = map_sum (\<lambda>e. e) (map f) (fleet_members env spec c)"
  using assms
  by (auto simp: fleet_members_def Let_def filter_map comp_def keeps_identity_def split: option.split sum.split)

lemma claimed_map: "keeps_identity f \<Longrightarrow> claimed_elsewhere env fr (map f c) others = claimed_elsewhere env fr c others"
  unfolding claimed_elsewhere_def fleet_members_map
  by (intro SUP_cong refl) (auto simp: keeps_identity_member image_image split: sum.split)

lemma contested_map:
  "keeps_identity f \<Longrightarrow> contestedMembers env fr (map f c) (map f ms) = contestedMembers env fr c ms"
  unfolding contestedMembers_def by (simp add: claimed_map comp_def keeps_identity_member)

lemma fleet_view_map:
  assumes "keeps_identity f" "fleet_view env fr c = Some wm"
  shows "fleet_view env fr (map f c) = Some (map (map f) wm)"
proof -
  from assms(2) obtain members contested sels where
    m: "fleet_members env (fr_Spec fr) c = Inr members" and
    k: "contestedMembers env fr c members = Inr []" and
    s: "wave_selectors env (waves_of fr) = Inr sels" "unassigned sels members = []" "wm = wave_members sels members"
    by (auto simp: fleet_view_def split: sum.splits if_splits)
  have "fleet_members env (fr_Spec fr) (map f c) = Inr (map f members)"
    by (simp add: fleet_members_map [OF assms(1)] m)
  moreover have "contestedMembers env fr (map f c) (map f members) = Inr []" by (simp add: contested_map [OF assms(1)] k)
  moreover have "unassigned sels (map f members) = []" "wave_members sels (map f members) = map (map f) wm"
    using s(2,3) assms(1) by (simp_all add: unassigned_def wave_members_def filter_map comp_def keeps_identity_def)
  ultimately show ?thesis using s(1) by (simp add: fleet_view_def)
qed

lemma at_time_fields [simp]:
  "fv_now (at_time env t) = t" "fv_select (at_time env t) = fv_select env" "fv_listable (at_time env t) = fv_listable env"
  "fv_namespaces (at_time env t) = fv_namespaces env" "fv_rollouts (at_time env t) = fv_rollouts env"
  "fv_query (at_time env t) = fv_query env" "fv_parse (at_time env t) = fv_parse env"
  "fv_patch_ok (at_time env t) = fv_patch_ok env"
  by (simp_all add: at_time_def)

lemma view_at_time [simp]: "fleet_view (at_time env t) fr c = fleet_view env fr c"
proof -
  have sel: "wave_selectors (at_time env t) ws = wave_selectors env ws" for ws
    by (induction ws) (simp_all split: option.split)
  have mem: "fleet_members (at_time env t) spec c = fleet_members env spec c" for spec
    unfolding fleet_members_def at_time_fields ..
  show ?thesis
    unfolding fleet_view_def contestedMembers_def claimed_elsewhere_def mem sel at_time_fields ..
qed

lemma gate_at_time [simp]: "gate_passes (at_time env t) w = gate_passes env w"
  unfolding gate_passes_def evalGate_def at_time_fields ..

lemma gate_passes_not_fails: "gate_passes env w \<Longrightarrow> \<not> gate_fails env w"
  by (auto simp: gate_passes_def gate_fails_def split: option.splits)

section \<open>One pass and the members' answer\<close>

lemma pinned_version: "fsp_TargetVersion spec \<noteq> [] \<Longrightarrow> fleetApprovalVersion spec x = fsp_TargetVersion spec"
  by (simp add: fleetApprovalVersion_def)

lemma adopted_healthy: "fsp_TargetVersion spec \<noteq> [] \<Longrightarrow> healthy_member spec (adopted (fsp_TargetVersion spec) x)"
  by (simp add: healthy_member_def memberProgress_def fleetAdopted_def adopted_def isReady_def update_held_def
      StageSetObj.truncate_def)

lemma stamped_healthy: "healthy_member spec (stamped_member key f S x) = healthy_member spec x"
  by (simp add: stamped_member_def healthy_member_def memberProgress_def fleetAdopted_def isReady_def update_held_def
      StageSetObj.truncate_def)

lemma follow_healthy:
  assumes "fsp_TargetVersion spec \<noteq> []"
  shows "healthy_member spec x \<Longrightarrow> healthy_member spec (follow spec (approved_member spec S x))"
    and "x \<in> S \<Longrightarrow> healthy_member spec (follow spec (approved_member spec S x))"
  using assms adopted_healthy [OF assms]
  by (simp_all add: follow_def stamped_healthy stamped_member_annotation pinned_version)

lemma follow_identity: "keeps_identity (\<lambda>x. follow spec (stamped_member key f S x))"
  by (simp add: keeps_identity_def follow_def stamped_member_def adopted_def)

text \<open>Nothing regresses, and a deadline is never later than the next pass.\<close>

definition on_track :: "('v :: linorder) fleet_env \<Rightarrow> instant \<Rightarrow> FleetRollout \<Rightarrow> fleet_member list \<Rightarrow> bool" where
  "on_track env t fr c \<longleftrightarrow>
     (\<exists>wm. fleet_view env fr c = Some wm \<and> distinct (map member_id c) \<and>
        (\<forall>u<length (waves_of fr). \<forall>s. soak_of fr u = Some s \<longrightarrow> s \<le> t \<and> wave_healthy fr u wm))"

definition healthy_wave :: "('v :: linorder) fleet_env \<Rightarrow> FleetRollout \<Rightarrow> fleet_member list \<Rightarrow> nat \<Rightarrow> bool" where
  "healthy_wave env fr c u \<longleftrightarrow> (\<forall>wm. fleet_view env fr c = Some wm \<longrightarrow> wave_healthy fr u wm)"

lemma run_step:
  assumes "fsp_TargetVersion (fr_Spec fr) \<noteq> []" "distinct (map fwv_Name (waves_of fr))" "\<forall>m. fv_patch_ok env m"
    and "\<forall>w\<in>set (waves_of fr). gate_passes env w" "\<forall>w\<in>set (waves_of fr). t + wave_soak w \<le> t'" "t \<le> t'"
    and "on_track env t fr c"
    and fr': "fr' = fleet_pass (at_time env t, c) fr"
    and c': "c' = map (follow (fr_Spec fr)) (snd (fst (reconcile_fleet (at_time env t) fr c)))"
  shows "on_track env t' fr' c'"
    and "\<forall>u<length (waves_of fr). healthy_wave env fr c u \<longrightarrow> soak_of fr' u \<noteq> None \<and> healthy_wave env fr' c' u"
    and "k < length (waves_of fr) \<Longrightarrow> \<forall>u<k. soak_of fr u \<noteq> None \<Longrightarrow> healthy_wave env fr' c' k"
    and "\<forall>u<length (waves_of fr). soak_of fr u \<noteq> None \<Longrightarrow> fst_Phase (fr_Status fr') = FleetCompleted"
proof -
  let ?env = "at_time env t" and ?spec = "fr_Spec fr"
  obtain wm where v: "fleet_view env fr c = Some wm" "distinct (map member_id c)"
    and tr: "\<forall>u<length (waves_of fr). \<forall>s. soak_of fr u = Some s \<longrightarrow> s \<le> t \<and> wave_healthy fr u wm"
    using assms(7) by (auto simp: on_track_def)
  note len = fleet_view_length [OF v(1)]
  have v': "fleet_view ?env fr c = Some wm" using v(1) by simp
  have patches: "\<forall>m. fv_patch_ok ?env m" using assms(3) by simp
  have kept: "\<forall>u<length (waves_of fr). soak_of fr u = None \<or> wave_healthy fr u wm" using tr by auto
  have gates: "\<forall>w\<in>set (waves_of fr). \<not> gate_fails ?env w" using assms(4) gate_passes_not_fails [of ?env] by simp
  obtain i where fo: "first_open ?env fr wm i" and
    cl: "snd (fst (reconcile_fleet ?env fr c)) = map (approved_member ?spec (\<Union> (set ` set (take (open_through fr i) wm)))) c" and
    ph: "fst_Phase (fr_Status (fleet_pass (?env, c) fr)) = (if i = None then FleetCompleted else FleetInProgress)"
    using pass_opens [OF v' v(2) patches kept gates] by metis
  let ?S = "\<Union> (set ` set (take (open_through fr i) wm))"
  let ?f = "\<lambda>x. follow ?spec (approved_member ?spec ?S x)"
  have c'_eq: "c' = map ?f c" by (simp add: c' cl)
  have spec: "fr_Spec fr' = ?spec" "fr_Name fr' = fr_Name fr" by (simp_all add: fr')
  have vn: "fleet_view env fr' c' = Some (map (map ?f) wm)"
    using fleet_view_map [OF follow_identity v(1), of ?spec approvedVersionAnnotation "fleetApprovalVersion ?spec" ?S]
      fleet_view_status [OF spec, of env c'] by (simp add: c'_eq)
  have ids: "distinct (map member_id c')"
    using v(2) keeps_identity_member(2) [OF follow_identity] by (simp add: c'_eq comp_def)
  have stays: "wave_healthy fr u wm \<Longrightarrow> wave_healthy fr' u (map (map ?f) wm)" if "u < length (waves_of fr)" for u
    using follow_healthy(1) [OF assms(1)] that len by (simp add: wave_healthy_def spec)
  have soak: "soak_of fr' u = (if wave_healthy fr u wm
      then Some (case soak_of fr u of Some s \<Rightarrow> s | None \<Rightarrow> t + wave_soak (waves_of fr ! u)) else None)"
    if "u < length (waves_of fr)" for u
    using soak_step [OF v' assms(2) that] unfolding fr' at_time_fields .
  have clear: "clears ?env fr wm u" if "soak_of fr u \<noteq> None" "u < length (waves_of fr)" for u
    using tr that assms(4) by (auto simp: clears_def)
  have "soak_of fr' u = Some s \<Longrightarrow> s \<le> t' \<and> wave_healthy fr' u (map (map ?f) wm)" if "u < length (waves_of fr)" for u s
    using soak [OF that] tr stays [OF that] assms(5,6) that by (fastforce split: if_splits option.splits)
  then show "on_track env t' fr' c'" using vn ids spec by (auto simp: on_track_def)
  show "\<forall>u<length (waves_of fr). healthy_wave env fr c u \<longrightarrow> soak_of fr' u \<noteq> None \<and> healthy_wave env fr' c' u"
    using soak stays v(1) vn by (auto simp: healthy_wave_def)
  show "healthy_wave env fr' c' k" if k: "k < length (waves_of fr)" "\<forall>u<k. soak_of fr u \<noteq> None"
  proof -
    have "i = None \<or> (\<exists>n. i = Some n \<and> k \<le> n)"
    proof (cases i)
      case (Some n)
      then have "\<not> clears ?env fr wm n" "n < length (waves_of fr)" using fo by (simp_all add: first_open_def)
      then have "\<not> n < k" using clear k by auto
      then show ?thesis using Some by simp
    qed simp
    then have "k < open_through fr i" using k(1) by (auto simp: open_through_def)
    then have "wm ! k \<in> set (take (open_through fr i) wm)"
      using k(1) len by (auto simp: in_set_conv_nth intro!: exI [of _ k])
    then have "\<forall>x\<in>set (wm ! k). x \<in> ?S" by blast
    then have "wave_healthy fr' k (map (map ?f) wm)"
      using follow_healthy(2) [OF assms(1)] k(1) len by (simp add: wave_healthy_def spec)
    then show ?thesis using vn by (simp add: healthy_wave_def)
  qed
  show "fst_Phase (fr_Status fr') = FleetCompleted" if "\<forall>u<length (waves_of fr). soak_of fr u \<noteq> None"
  proof -
    have "i = None" using fo clear that by (auto simp: first_open_def split: option.splits)
    then show ?thesis using ph by (simp add: fr')
  qed
qed


section \<open>Completion\<close>

lemma fleet_run_step:
  assumes "fleet_run env at i s = (fr, c)"
  shows "fleet_run env at (Suc i) s = (fleet_pass (at_time env (at i), c) fr,
    map (follow (fr_Spec fr)) (snd (fst (reconcile_fleet (at_time env (at i)) fr c))))"
  using assms by simp

lemma fleet_run_spec:
  "fr_Spec (fst (fleet_run env at i s)) = fr_Spec (fst s) \<and> fr_Name (fst (fleet_run env at i s)) = fr_Name (fst s)"
  by (induction i) (auto split: prod.split)

declare fleet_run.simps(2) [simp del]

text \<open>A healthy fleet: pinned, with distinct names, patches that succeed and gates that pass.\<close>

definition sound_fleet :: "('v :: linorder) fleet_env \<Rightarrow> FleetRolloutSpec \<Rightarrow> bool" where
  "sound_fleet env spec \<longleftrightarrow> fsp_TargetVersion spec \<noteq> [] \<and> distinct (map fwv_Name (fsp_Waves spec)) \<and>
     (\<forall>m. fv_patch_ok env m) \<and> (\<forall>w\<in>set (fsp_Waves spec). gate_passes env w)"

definition spaced :: "(nat \<Rightarrow> instant) \<Rightarrow> FleetRolloutSpec \<Rightarrow> bool" where
  "spaced at spec \<longleftrightarrow> (\<forall>i. at i \<le> at (Suc i) \<and> (\<forall>w\<in>set (fsp_Waves spec). at i + wave_soak w \<le> at (Suc i)))"

lemma run_steps:
  assumes "sound_fleet env (fr_Spec fr0)" "spaced at (fr_Spec fr0)" "fleet_run env at i (fr0, c0) = (fr, c)"
    and "fleet_run env at (Suc i) (fr0, c0) = (fr', c')" "on_track env (at i) fr c"
  shows "on_track env (at (Suc i)) fr' c'"
    and "\<forall>u<length (waves_of fr0). healthy_wave env fr c u \<longrightarrow> soak_of fr' u \<noteq> None \<and> healthy_wave env fr' c' u"
    and "k < length (waves_of fr0) \<Longrightarrow> \<forall>u<k. soak_of fr u \<noteq> None \<Longrightarrow> healthy_wave env fr' c' k"
    and "\<forall>u<length (waves_of fr0). soak_of fr u \<noteq> None \<Longrightarrow> fst_Phase (fr_Status fr') = FleetCompleted"
proof -
  have spec: "fr_Spec fr = fr_Spec fr0" using fleet_run_spec [of env at i "(fr0, c0)"] assms(3) by simp
  have eqs: "fr' = fleet_pass (at_time env (at i), c) fr"
    "c' = map (follow (fr_Spec fr)) (snd (fst (reconcile_fleet (at_time env (at i)) fr c)))"
    using fleet_run_step [OF assms(3)] assms(4) by simp_all
  have hyps: "fsp_TargetVersion (fr_Spec fr) \<noteq> []" "distinct (map fwv_Name (waves_of fr))" "\<forall>m. fv_patch_ok env m"
    "\<forall>w\<in>set (waves_of fr). gate_passes env w" "\<forall>w\<in>set (waves_of fr). at i + wave_soak w \<le> at (Suc i)" "at i \<le> at (Suc i)"
    using assms(1,2) by (auto simp: sound_fleet_def spaced_def spec)
  note step = run_step [OF hyps assms(5) eqs]
  show "on_track env (at (Suc i)) fr' c'" by (rule step(1))
  show "\<forall>u<length (waves_of fr0). healthy_wave env fr c u \<longrightarrow> soak_of fr' u \<noteq> None \<and> healthy_wave env fr' c' u"
    using step(2) by (simp add: spec)
  show "k < length (waves_of fr0) \<Longrightarrow> \<forall>u<k. soak_of fr u \<noteq> None \<Longrightarrow> healthy_wave env fr' c' k"
    using step(3) by (simp add: spec)
  show "\<forall>u<length (waves_of fr0). soak_of fr u \<noteq> None \<Longrightarrow> fst_Phase (fr_Status fr') = FleetCompleted"
    using step(4) by (simp add: spec)
qed

lemma run_on_track:
  assumes "sound_fleet env (fr_Spec fr0)" "spaced at (fr_Spec fr0)" "on_track env (at 0) fr0 c0"
  shows "on_track env (at i) (fst (fleet_run env at i (fr0, c0))) (snd (fleet_run env at i (fr0, c0)))"
proof (induction i)
  case 0
  then show ?case using assms(3) by simp
next
  case (Suc i)
  obtain fr c fr' c' where "fleet_run env at i (fr0, c0) = (fr, c)" "fleet_run env at (Suc i) (fr0, c0) = (fr', c')"
    by fastforce
  then show ?case using run_steps(1) [OF assms(1,2)] Suc by simp
qed

text \<open>A settled wave is healthy, so it stays settled.\<close>

lemma settled_stays:
  assumes "on_track env t fr c" "u < length (waves_of fr)" "soak_of fr u \<noteq> None"
  shows "healthy_wave env fr c u"
  using assms by (auto simp: on_track_def healthy_wave_def)

lemma waves_settle:
  assumes "sound_fleet env (fr_Spec fr0)" "spaced at (fr_Spec fr0)" "on_track env (at 0) fr0 c0"
  shows "k \<le> length (waves_of fr0) \<Longrightarrow> \<forall>u<k. soak_of (fst (fleet_run env at (2 * k) (fr0, c0))) u \<noteq> None"
proof (induction k)
  case (Suc k)
  obtain fr c where r0: "fleet_run env at (2 * k) (fr0, c0) = (fr, c)" by fastforce
  obtain fr1 c1 where r1: "fleet_run env at (Suc (2 * k)) (fr0, c0) = (fr1, c1)" by fastforce
  obtain fr2 c2 where r2: "fleet_run env at (Suc (Suc (2 * k))) (fr0, c0) = (fr2, c2)" by fastforce
  have t: "on_track env (at (2 * k)) fr c" "on_track env (at (Suc (2 * k))) fr1 c1"
    using run_on_track [OF assms, of "2 * k"] run_on_track [OF assms, of "Suc (2 * k)"] r0 r1 by simp_all
  note s1 = run_steps [OF assms(1,2) r0 r1 t(1)] and s2 = run_steps [OF assms(1,2) r1 r2 t(2)]
  have k: "k < length (waves_of fr0)" using Suc.prems by simp
  have before: "\<forall>u<k. soak_of fr u \<noteq> None" using Suc r0 by simp
  have spec: "fr_Spec fr = fr_Spec fr0" using fleet_run_spec [of env at "2 * k" "(fr0, c0)"] r0 by simp
  have "healthy_wave env fr1 c1 u" if "u < Suc k" for u
  proof (cases "u = k")
    case True
    then show ?thesis using s1(3) [OF k before] by simp
  next
    case False
    then have "u < length (waves_of fr)" "soak_of fr u \<noteq> None" using that k before by (simp_all add: spec)
    then show ?thesis using settled_stays [OF t(1)] s1(2) by (simp add: spec)
  qed
  then have "\<forall>u<Suc k. soak_of fr2 u \<noteq> None" using s2(2) k by simp
  then show ?case using r2 by simp
qed simp

text \<open>C18: a healthy fleet completes. A fresh rollout of a pinned version over \<open>n\<close> waves, whose gates pass
  and whose patches succeed, with members that adopt what they are approved for and passes spaced by at
  least the soaks, is complete after \<open>2 n + 1\<close> passes, and every member is then at the target version.\<close>

theorem healthy_fleet_completes:
  assumes "sound_fleet env (fr_Spec fr)" "spaced at (fr_Spec fr)"
    and "fleet_view env fr c = Some wm" "distinct (map member_id c)" "fst_Waves (fr_Status fr) = []"
  shows "\<exists>fr' c' wm'. fleet_run env at (2 * length (waves_of fr) + 1) (fr, c) = (fr', c') \<and>
    fst_Phase (fr_Status fr') = FleetCompleted \<and> fleet_view env fr' c' = Some wm' \<and>
    (\<forall>ms\<in>set wm'. \<forall>m\<in>set ms. so_Version m = fsp_TargetVersion (fr_Spec fr))"
proof -
  let ?n = "length (waves_of fr)"
  have none: "soak_of fr u = None" for u
    using assms(5) by (simp add: soak_of_def prior_soak_def prior_waves_def)
  have start: "on_track env (at 0) fr c" using assms(3,4) none by (simp add: on_track_def)
  obtain fr1 c1 where r1: "fleet_run env at (2 * ?n) (fr, c) = (fr1, c1)" by fastforce
  obtain fr2 c2 where r2: "fleet_run env at (Suc (2 * ?n)) (fr, c) = (fr2, c2)" by fastforce
  have t: "on_track env (at (2 * ?n)) fr1 c1" "on_track env (at (Suc (2 * ?n))) fr2 c2"
    using run_on_track [OF assms(1,2) start, of "2 * ?n"] run_on_track [OF assms(1,2) start, of "Suc (2 * ?n)"] r1 r2
    by simp_all
  have all: "\<forall>u<?n. soak_of fr1 u \<noteq> None"
    using waves_settle [OF assms(1,2) start, of ?n] r1 by simp
  note s = run_steps [OF assms(1,2) r1 r2 t(1)]
  have spec: "fr_Spec fr1 = fr_Spec fr" "fr_Spec fr2 = fr_Spec fr"
    using fleet_run_spec [of env at "2 * ?n" "(fr, c)"] fleet_run_spec [of env at "Suc (2 * ?n)" "(fr, c)"] r1 r2 by simp_all
  have h: "healthy_wave env fr2 c2 u" if "u < ?n" for u
    using settled_stays [OF t(1)] all s(2) that by (simp add: spec)
  obtain wm' where v: "fleet_view env fr2 c2 = Some wm'" using t(2) by (auto simp: on_track_def)
  have "so_Version m = fsp_TargetVersion (fr_Spec fr)" if m: "ms \<in> set wm'" "m \<in> set ms" for ms m
  proof -
    obtain u where u: "u < ?n" "ms = wm' ! u"
      using m(1) fleet_view_length [OF v] by (auto simp: in_set_conv_nth spec)
    then have "healthy_member (fr_Spec fr) m" using h [of u] v m(2) by (simp add: healthy_wave_def wave_healthy_def spec)
    then show ?thesis
      using assms(1) by (simp add: healthy_member_def memberProgress_def fleetAdopted_def sound_fleet_def)
  qed
  then show ?thesis using r2 s(4) [OF all] v by auto
qed

theorem healthy_fleet_completes_witness:
  "fst_Phase (fr_Status (fst (fleet_run (demo_fleet_env 0) (\<lambda>i. int (10 * i)) 5
     (demo_fleet ''2'', [demo_member ''canary'' ''1'' [], demo_member ''rest'' ''1'' []])))) = FleetCompleted"
proof -
  have "sound_fleet (demo_fleet_env 0) (fr_Spec (demo_fleet ''2''))"
    using demo_names(1) [of "''2''"] by (simp add: sound_fleet_def demo_fleet_def)
  moreover have "spaced (\<lambda>i. int (10 * i)) (fr_Spec (demo_fleet ''2''))" by (simp add: spaced_def)
  ultimately show ?thesis
    using healthy_fleet_completes [of "demo_fleet_env 0" "demo_fleet ''2''" "\<lambda>i. int (10 * i)"
        "[demo_member ''canary'' ''1'' [], demo_member ''rest'' ''1'' []]", OF _ _ demo_view]
    by auto
qed

end
