(* ===== verification/Preflight.thy ===== *)
theory Preflight
  imports Promotion
begin

text \<open>
  What a reconcile decides before and at the entry of its stages: the error budgets
  (\<open>internal/controller/errorbudget.go\<close>, rollout-wide and per stage), the update-window gate
  (\<open>windows.go\<close>, over the verdict of \<open>internal/window\<close>), and the failures before the stage loop.
  Metric queries and number parsing are parameters, the verdict of the windows is an argument.
\<close>

section \<open>Error budgets\<close>

definition budgetOverrideAnnotation :: string where
  "budgetOverrideAnnotation = ''stages.metio.wtf/budget-override''"

definition freshBudgetOverride :: "StageSet \<Rightarrow> string \<Rightarrow> string \<times> bool" where
  "freshBudgetOverride ss lastHandled =
     (let t = annotation ss budgetOverrideAnnotation in (t, t \<noteq> [] \<and> t \<noteq> lastHandled))"

definition effectiveResume :: "ErrorBudget \<Rightarrow> string" where
  "effectiveResume eb = (if eb_ResumeThreshold eb \<noteq> [] then eb_ResumeThreshold eb else eb_FreezeThreshold eb)"

datatype budget_error = BadFreezeThreshold | BadResumeThreshold | ResumeBelowFreeze

definition budgetThresholds :: "(string \<Rightarrow> 'v :: linorder option) \<Rightarrow> ErrorBudget \<Rightarrow> budget_error + 'v \<times> 'v" where
  "budgetThresholds parse eb =
     (case parse (eb_FreezeThreshold eb) of
        None \<Rightarrow> Inl BadFreezeThreshold
      | Some freeze \<Rightarrow>
          if eb_ResumeThreshold eb = [] then Inr (freeze, freeze)
          else (case parse (eb_ResumeThreshold eb) of
              None \<Rightarrow> Inl BadResumeThreshold
            | Some resume \<Rightarrow> if resume < freeze then Inl ResumeBelowFreeze else Inr (freeze, resume)))"

datatype budget_verdict =
    BudgetSpecError budget_error
  | BudgetSourceError string
  | BudgetFrozen BudgetFreeze
  | BudgetOpen

definition evaluateBudget ::
  "(string \<Rightarrow> 'v :: linorder option) \<Rightarrow> ('v \<Rightarrow> string) \<Rightarrow> (MetricSource \<Rightarrow> string + 'v) \<Rightarrow> instant \<Rightarrow> ErrorBudget
   \<Rightarrow> BudgetFreeze option \<Rightarrow> budget_verdict" where
  "evaluateBudget parse fmt query now eb prevFreeze =
     (case budgetThresholds parse eb of
        Inl e \<Rightarrow> BudgetSpecError e
      | Inr (freezeAt, resumeAt) \<Rightarrow>
          (case query (eb_Source eb) of
             Inl e \<Rightarrow> BudgetSourceError e
           | Inr value \<Rightarrow>
               (let frozen = (if prevFreeze \<noteq> None then value < resumeAt else value < freezeAt) in
                if \<not> frozen then BudgetOpen
                else BudgetFrozen \<lparr>bf_Remaining = fmt value, bf_FreezeThreshold = eb_FreezeThreshold eb,
                  bf_ResumeThreshold = effectiveResume eb,
                  bf_Since = Some (case prevFreeze of
                     Some p \<Rightarrow> (case bf_Since p of Some t \<Rightarrow> t | None \<Rightarrow> now) | None \<Rightarrow> now),
                  bf_DryRun = eb_DryRun eb\<rparr>)))"

definition budgetInterval :: "duration \<Rightarrow> StageSet \<Rightarrow> ErrorBudget \<Rightarrow> duration" where
  "budgetInterval defaultInterval ss eb =
     (case eb_Interval eb of
        Some d \<Rightarrow> if d > 0 then d else retryInterval defaultInterval ss
      | None \<Rightarrow> retryInterval defaultInterval ss)"

text \<open>
  The rollout-wide gate: a resolved artifact is its key and its revision. \<open>BudgetDeferred\<close> carries
  whether the StageSet stays Ready, and the requeue; the second component is the recorded freeze. A
  malformed threshold records the StageSet as invalid and waits for an edit.
\<close>

datatype budget_gate = BudgetProceeds | BudgetDeferred bool duration | BudgetInvalid

definition new_revision :: "(string \<times> string) list \<Rightarrow> (string \<times> string) list \<Rightarrow> bool" where
  "new_revision lastApplied resolved = list_ex (\<lambda>(key, revision).
     (case map_of_last lastApplied key of Some r \<Rightarrow> r | None \<Rightarrow> []) \<noteq> revision) resolved"

definition gateErrorBudget ::
  "duration \<Rightarrow> (ErrorBudget \<Rightarrow> BudgetFreeze option \<Rightarrow> budget_verdict) \<Rightarrow> StageSet \<Rightarrow> (string \<times> string) list
   \<Rightarrow> (string \<times> string) list \<Rightarrow> bool \<Rightarrow> BudgetFreeze option \<Rightarrow> budget_gate \<times> BudgetFreeze option" where
  "gateErrorBudget defaultInterval evaluate ss lastApplied resolved override freeze =
     (case spec_ErrorBudget (set_Spec ss) of
        None \<Rightarrow> (BudgetProceeds, None)
      | Some eb \<Rightarrow>
          if override \<or> \<not> new_revision lastApplied resolved then (BudgetProceeds, None)
          else let deferred = BudgetDeferred (lastApplied \<noteq> []) (budgetInterval defaultInterval ss eb) in
            (case evaluate eb freeze of
               BudgetSpecError _ \<Rightarrow> (BudgetInvalid, freeze)
             | BudgetSourceError _ \<Rightarrow>
                 if eb_OnSourceError eb = ''Hold'' then (deferred, freeze) else (BudgetProceeds, None)
             | BudgetOpen \<Rightarrow> (BudgetProceeds, None)
             | BudgetFrozen f \<Rightarrow> if eb_DryRun eb then (BudgetProceeds, Some f) else (deferred, Some f)))"

text \<open>The per-stage gate, and the stage loop's use of it.\<close>

record stageBudgetGate =
  sbg_hold :: bool
  sbg_freeze :: "BudgetFreeze option"
  sbg_requeue :: duration
  sbg_specErr :: "budget_error option"
  sbg_sourceErr :: "string option"

definition no_stage_gate :: stageBudgetGate where
  "no_stage_gate = \<lparr>sbg_hold = False, sbg_freeze = None, sbg_requeue = 0, sbg_specErr = None, sbg_sourceErr = None\<rparr>"

definition gateStageBudget ::
  "duration \<Rightarrow> (ErrorBudget \<Rightarrow> BudgetFreeze option \<Rightarrow> budget_verdict) \<Rightarrow> StageSet \<Rightarrow> ErrorBudget
   \<Rightarrow> BudgetFreeze option \<Rightarrow> stageBudgetGate" where
  "gateStageBudget defaultInterval evaluate ss eb prevFreeze =
     (let interval = budgetInterval defaultInterval ss eb in
      case evaluate eb prevFreeze of
        BudgetSpecError e \<Rightarrow> no_stage_gate\<lparr>sbg_specErr := Some e\<rparr>
      | BudgetSourceError e \<Rightarrow>
          if eb_OnSourceError eb = ''Hold'' then no_stage_gate\<lparr>sbg_hold := True, sbg_requeue := interval\<rparr>
          else no_stage_gate\<lparr>sbg_sourceErr := Some e\<rparr>
      | BudgetOpen \<Rightarrow> no_stage_gate
      | BudgetFrozen f \<Rightarrow>
          if eb_DryRun eb then no_stage_gate\<lparr>sbg_freeze := Some f\<rparr>
          else no_stage_gate\<lparr>sbg_hold := True, sbg_freeze := Some f, sbg_requeue := interval\<rparr>)"

datatype stage_entry =
    EnterStage "BudgetFreeze option"
  | HoldAtStage StageStatus duration
  | StageBudgetInvalid budget_error

definition prior_or_zero :: "StageStatus option \<Rightarrow> StageStatus" where
  "prior_or_zero prior = (case prior of Some p \<Rightarrow> p | None \<Rightarrow> zero_status)"

definition enter_stage ::
  "duration \<Rightarrow> (ErrorBudget \<Rightarrow> BudgetFreeze option \<Rightarrow> budget_verdict) \<Rightarrow> StageSet \<Rightarrow> Stage \<Rightarrow> bool \<Rightarrow> string
   \<Rightarrow> StageStatus option \<Rightarrow> stage_entry" where
  "enter_stage defaultInterval evaluate ss stage override revision prior =
     (case stg_ErrorBudget stage of
        None \<Rightarrow> EnterStage None
      | Some eb \<Rightarrow>
          if override \<or> ss_AppliedRevision (prior_or_zero prior) = revision then EnterStage None
          else let g = gateStageBudget defaultInterval evaluate ss eb (ss_BudgetFreeze (prior_or_zero prior)) in
            if sbg_specErr g \<noteq> None then StageBudgetInvalid (the (sbg_specErr g))
            else if sbg_sourceErr g \<noteq> None then EnterStage None
            else if sbg_hold g then HoldAtStage
              ((prior_or_zero prior)\<lparr>ss_Name := stg_Name stage, ss_BudgetFreeze := sbg_freeze g\<rparr>) (sbg_requeue g)
            else EnterStage (sbg_freeze g))"

section \<open>The update-window gate\<close>

definition updateNowAnnotation :: string where
  "updateNowAnnotation = ''stages.metio.wtf/update-now''"

record window_status =
  ws_lastHandled :: string
  ws_pending :: "PendingUpdate option"

datatype window_gate = WindowProceeds | WindowDeferred bool duration | WindowInvalid

text \<open>\<open>decision\<close> is the windows' verdict: allowed, and the next change.\<close>

definition gateUpdateWindows ::
  "duration \<Rightarrow> instant \<Rightarrow> string + bool \<times> instant option \<Rightarrow> StageSet \<Rightarrow> (string \<times> string) list \<Rightarrow> (string \<times> string) list
   \<Rightarrow> window_status \<Rightarrow> window_gate \<times> window_status" where
  "gateUpdateWindows defaultInterval now decision ss lastApplied resolved st =
     (let token = annotation ss updateNowAnnotation in
      if token \<noteq> [] \<and> token \<noteq> ws_lastHandled st
      then (WindowProceeds, \<lparr>ws_lastHandled = token, ws_pending = None\<rparr>)
      else if spec_UpdateWindows (set_Spec ss) = [] then (WindowProceeds, st\<lparr>ws_pending := None\<rparr>)
      else case decision of
        Inl e \<Rightarrow> (WindowInvalid, st)
      | Inr (allowed, nextChange) \<Rightarrow>
          let newRevision = new_revision lastApplied resolved in
          if allowed \<or> (\<not> newRevision \<and> spec_WindowScope (set_Spec ss) \<noteq> ''All'')
          then (WindowProceeds, st\<lparr>ws_pending := None\<rparr>)
          else (WindowDeferred (lastApplied \<noteq> [])
                  (requeueForWindow nextChange now (retryInterval defaultInterval ss)),
                st\<lparr>ws_pending := Some \<lparr>pu_Revisions = (if newRevision then map_of_last resolved else Map.empty),
                  pu_NextWindowOpens = nextChange\<rparr>\<rparr>))"

section \<open>Failures before the stage loop\<close>

text \<open>
  Connecting to the target cluster and configuring decryption happen before any stage runs; their
  failure is reported on the first stage, with an empty ledger.
\<close>

definition empty_ledger :: actionLedger where
  "empty_ledger = \<lparr>al_revision = [], al_executed = [], al_version = [], al_versioned = [], al_lifetimeDone = []\<rparr>"

definition fail_preflight :: "StageSet \<Rightarrow> string \<Rightarrow> cause \<Rightarrow> StageSet \<times> fail_reason \<times> bool" where
  "fail_preflight ss op c =
     failStage ss (stg_Name (hd (spec_Stages (set_Spec ss)))) op c [] empty_ledger"

section \<open>Hysteresis\<close>

text \<open>The freeze after a series of readable evaluations, and the two-state machine it implements.\<close>

definition budget_next ::
  "(string \<Rightarrow> 'v :: linorder option) \<Rightarrow> ('v \<Rightarrow> string) \<Rightarrow> ErrorBudget \<Rightarrow> instant \<times> 'v \<Rightarrow> BudgetFreeze option
   \<Rightarrow> BudgetFreeze option" where
  "budget_next parse fmt eb nv freeze =
     (case evaluateBudget parse fmt (\<lambda>_. Inr (snd nv)) (fst nv) eb freeze of
        BudgetFrozen f \<Rightarrow> Some f | _ \<Rightarrow> None)"

fun frozen_spec :: "'v :: linorder \<Rightarrow> 'v \<Rightarrow> 'v list \<Rightarrow> bool \<Rightarrow> bool" where
  "frozen_spec freezeAt resumeAt [] frozen = frozen"
| "frozen_spec freezeAt resumeAt (v # vs) frozen =
     frozen_spec freezeAt resumeAt vs (if frozen then v < resumeAt else v < freezeAt)"

lemma budget_next_frozen:
  assumes "budgetThresholds parse eb = Inr (fr, re)"
  shows "budget_next parse fmt eb nv freeze \<noteq> None \<longleftrightarrow> (if freeze \<noteq> None then snd nv < re else snd nv < fr)"
  using assms by (auto simp: budget_next_def evaluateBudget_def Let_def)

lemma budgetThresholds_le: "budgetThresholds parse eb = Inr (fr, re) \<Longrightarrow> fr \<le> re"
  by (auto simp: budgetThresholds_def split: option.splits if_splits)

lemma budget_run_spec:
  assumes "budgetThresholds parse eb = Inr (fr, re)"
  shows "fold (budget_next parse fmt eb) nvs freeze \<noteq> None \<longleftrightarrow> frozen_spec fr re (map snd nvs) (freeze \<noteq> None)"
proof (induction nvs arbitrary: freeze)
  case (Cons nv nvs)
  show ?case
    unfolding fold_simps list.map frozen_spec.simps Cons budget_next_frozen [OF assms] ..
qed simp

lemma frozen_spec_iff:
  assumes "fr \<le> re"
  shows "frozen_spec fr re vs frozen \<longleftrightarrow>
    (frozen \<and> (\<forall>v\<in>set vs. v < re)) \<or> (\<exists>xs v ys. vs = xs @ v # ys \<and> v < fr \<and> (\<forall>y\<in>set ys. y < re))"
proof (induction vs arbitrary: frozen)
  case (Cons w vs)
  have split: "(\<exists>xs v ys. w # vs = xs @ v # ys \<and> v < fr \<and> (\<forall>y\<in>set ys. y < re)) \<longleftrightarrow>
      (w < fr \<and> (\<forall>y\<in>set vs. y < re)) \<or> (\<exists>xs v ys. vs = xs @ v # ys \<and> v < fr \<and> (\<forall>y\<in>set ys. y < re))"
    by (auto simp: Cons_eq_append_conv)
  show ?case
    unfolding split using Cons assms by (cases frozen) auto
qed simp

lemma budget_run_since:
  assumes "budgetThresholds parse eb = Inr (fr, re)" "freeze = None \<or> (\<exists>f t. freeze = Some f \<and> bf_Since f = Some t)"
  shows "fold (budget_next parse fmt eb) nvs freeze = Some f \<Longrightarrow>
    (\<exists>t. bf_Since f = Some t \<and> ((\<exists>g. freeze = Some g \<and> bf_Since g = Some t) \<or>
      (\<exists>v. (t, v) \<in> set nvs \<and> v < fr)))"
  using assms(2)
proof (induction nvs arbitrary: freeze)
  case (Cons nv nvs)
  show ?case
  proof (cases "budget_next parse fmt eb nv freeze")
    case None
    then have "fold (budget_next parse fmt eb) nvs None = Some f" using Cons.prems(1) by simp
    from Cons.IH [OF this] show ?thesis by auto
  next
    case (Some g)
    then have g: "\<exists>t. bf_Since g = Some t \<and> ((\<exists>h. freeze = Some h \<and> bf_Since h = Some t) \<or>
        (t = fst nv \<and> snd nv < fr))"
      using Cons.prems(2) assms(1)
      by (auto simp: budget_next_def evaluateBudget_def Let_def split: if_splits)
    have "fold (budget_next parse fmt eb) nvs (Some g) = Some f" using Cons.prems(1) Some by simp
    from Cons.IH [OF this] g show ?thesis by (cases nv) fastforce
  qed
qed auto

section \<open>Properties\<close>

text \<open>Error-budget hysteresis. With well-formed thresholds and a readable source, a budget is frozen
  after a series of evaluations exactly when at some point the value was below the freeze threshold and
  has been below the resume threshold ever since; the freeze is dated at an evaluation that was below
  the freeze threshold.\<close>

theorem budget_hysteresis:
  assumes "budgetThresholds parse eb = Inr (fr, re)"
  shows "(fold (budget_next parse fmt eb) nvs None \<noteq> None \<longleftrightarrow>
      (\<exists>xs v ys. map snd nvs = xs @ v # ys \<and> v < fr \<and> (\<forall>y\<in>set ys. y < re))) \<and>
    (\<forall>f. fold (budget_next parse fmt eb) nvs None = Some f \<longrightarrow>
      (\<exists>t v. bf_Since f = Some t \<and> (t, v) \<in> set nvs \<and> v < fr))"
proof (intro conjI allI impI)
  show "fold (budget_next parse fmt eb) nvs None \<noteq> None \<longleftrightarrow>
      (\<exists>xs v ys. map snd nvs = xs @ v # ys \<and> v < fr \<and> (\<forall>y\<in>set ys. y < re))"
    unfolding budget_run_spec [OF assms] frozen_spec_iff [OF budgetThresholds_le [OF assms]] by simp
  show "\<exists>t v. bf_Since f = Some t \<and> (t, v) \<in> set nvs \<and> v < fr"
    if "fold (budget_next parse fmt eb) nvs None = Some f" for f
    using budget_run_since [OF assms _ that] by auto
qed

definition demo_parse :: "string \<Rightarrow> int option" where
  "demo_parse s = map_option int (unsigned_of s)"

definition demo_budget :: ErrorBudget where
  "demo_budget = \<lparr>eb_Source = \<lparr>ms_Prometheus = None, ms_Webhook = None\<rparr>, eb_FreezeThreshold = ''10'',
     eb_ResumeThreshold = ''30'', eb_OnSourceError = [], eb_Interval = None, eb_DryRun = False\<rparr>"

lemma demo_thresholds: "budgetThresholds demo_parse demo_budget = Inr (10, 30)"
  by code_simp

theorem budget_hysteresis_witness:
  "fold (budget_next demo_parse itoa demo_budget) [(1, 50), (2, 5), (3, 20)] None \<noteq> None"
proof -
  have "map snd [(1 :: int, 50 :: int), (2, 5), (3, 20)] = [50] @ 5 # [20]" by simp
  moreover have "(5 :: int) < 10" "\<forall>y\<in>set [20]. y < (30 :: int)" by simp_all
  ultimately show ?thesis using budget_hysteresis [OF demo_thresholds] by blast
qed

text \<open>The delivery gates. A run is deferred by the windows exactly when no fresh update-now token and
  some window is declared, and the windows do not allow it and it brings a new revision or everything is
  in scope; it is deferred by the rollout-wide budget exactly when there is a budget, no override and a
  new revision, and the source is unreadable under Hold or the budget is frozen and not a dry run. The
  requeue of a held window lies between five seconds and an hour once its next change is known.\<close>

theorem delivery_gates_exact:
  "((\<exists>b d. fst (gateUpdateWindows di now decision ss applied resolved st) = WindowDeferred b d) \<longleftrightarrow>
     (annotation ss updateNowAnnotation = [] \<or> annotation ss updateNowAnnotation = ws_lastHandled st) \<and>
     spec_UpdateWindows (set_Spec ss) \<noteq> [] \<and>
     (\<exists>next. decision = Inr (False, next)) \<and>
     (new_revision applied resolved \<or> spec_WindowScope (set_Spec ss) = ''All'')) \<and>
   (\<forall>b d t. fst (gateUpdateWindows di now (Inr (False, Some t)) ss applied resolved st) = WindowDeferred b d \<longrightarrow>
     5 * Second \<le> d \<and> d \<le> Hour) \<and>
   ((\<exists>b d. fst (gateErrorBudget di evaluate ss applied resolved override freeze) = BudgetDeferred b d) \<longleftrightarrow>
     (\<exists>eb. spec_ErrorBudget (set_Spec ss) = Some eb \<and> \<not> override \<and> new_revision applied resolved \<and>
       ((\<exists>e. evaluate eb freeze = BudgetSourceError e \<and> eb_OnSourceError eb = ''Hold'') \<or>
        (\<exists>f. evaluate eb freeze = BudgetFrozen f \<and> \<not> eb_DryRun eb))))"
proof (intro conjI)
  show "(\<exists>b d. fst (gateUpdateWindows di now decision ss applied resolved st) = WindowDeferred b d) \<longleftrightarrow>
     (annotation ss updateNowAnnotation = [] \<or> annotation ss updateNowAnnotation = ws_lastHandled st) \<and>
     spec_UpdateWindows (set_Spec ss) \<noteq> [] \<and>
     (\<exists>next. decision = Inr (False, next)) \<and>
     (new_revision applied resolved \<or> spec_WindowScope (set_Spec ss) = ''All'')"
    by (cases decision) (auto simp: gateUpdateWindows_def Let_def split: if_splits)
  show "\<forall>b d t. fst (gateUpdateWindows di now (Inr (False, Some t)) ss applied resolved st) = WindowDeferred b d \<longrightarrow>
     5 * Second \<le> d \<and> d \<le> Hour"
    using requeueForWindow_bounds by (auto simp: gateUpdateWindows_def Let_def split: if_splits)
  show "(\<exists>b d. fst (gateErrorBudget di evaluate ss applied resolved override freeze) = BudgetDeferred b d) \<longleftrightarrow>
     (\<exists>eb. spec_ErrorBudget (set_Spec ss) = Some eb \<and> \<not> override \<and> new_revision applied resolved \<and>
       ((\<exists>e. evaluate eb freeze = BudgetSourceError e \<and> eb_OnSourceError eb = ''Hold'') \<or>
        (\<exists>f. evaluate eb freeze = BudgetFrozen f \<and> \<not> eb_DryRun eb)))"
    by (cases "spec_ErrorBudget (set_Spec ss)")
      (auto simp: gateErrorBudget_def Let_def split: budget_verdict.splits)
qed

definition windowed_set :: StageSet where
  "windowed_set = (plain_set [plain_stage ''one''])\<lparr>set_Spec := (plain_spec [plain_stage ''one''])
     \<lparr>spec_UpdateWindows := [\<lparr>uw_Type = ''Allow'', uw_Schedule = ''0 8 * * 1'', uw_Duration = Some Hour,
        uw_TimeZone = [], uw_From = None, uw_To = None\<rparr>]\<rparr>\<rparr>"

theorem delivery_gates_exact_witness:
  "\<exists>d. gateUpdateWindows Minute 100 (Inr (False, Some 7000000000000)) windowed_set [] [(''app'', ''r1'')]
     \<lparr>ws_lastHandled = [], ws_pending = None\<rparr> = (WindowDeferred False d, \<lparr>ws_lastHandled = [],
       ws_pending = Some \<lparr>pu_Revisions = [''app'' \<mapsto> ''r1''], pu_NextWindowOpens = Some 7000000000000\<rparr>\<rparr>) \<and>
     5 * Second \<le> d \<and> d \<le> Hour"
proof -
  let ?g = "gateUpdateWindows Minute 100 (Inr (False, Some 7000000000000)) windowed_set [] [(''app'', ''r1'')]
     \<lparr>ws_lastHandled = [], ws_pending = None\<rparr>"
  have g: "?g = (WindowDeferred False Hour, \<lparr>ws_lastHandled = [],
       ws_pending = Some \<lparr>pu_Revisions = [''app'' \<mapsto> ''r1''], pu_NextWindowOpens = Some 7000000000000\<rparr>\<rparr>)"
    by (simp add: gateUpdateWindows_def windowed_set_def plain_set_def plain_spec_def annotation_def new_revision_def
        requeueForWindow_def Let_def Hour_def Minute_def Second_def map_of_last_def)
  have "\<forall>b d t. fst (gateUpdateWindows Minute 100 (Inr (False, Some t)) windowed_set [] [(''app'', ''r1'')]
      \<lparr>ws_lastHandled = [], ws_pending = None\<rparr>) = WindowDeferred b d \<longrightarrow> 5 * Second \<le> d \<and> d \<le> Hour"
    using delivery_gates_exact [where di = Minute and now = 100 and ss = windowed_set and applied = "[]"
      and resolved = "[(''app'', ''r1'')]" and st = "\<lparr>ws_lastHandled = [], ws_pending = None\<rparr>"
      and decision = "Inr (False, None)" and evaluate = "\<lambda>_ _. BudgetOpen" and override = False and freeze = None]
    by blast
  then show ?thesis using g by (metis fst_conv)
qed

text \<open>A failed stage slips its budget. The status of a stage that failed at a revision, before or after
  anything was applied, names that revision as applied, so at the next pass the stage's own error budget
  is not consulted and the revision enters, whatever the budget says and although a first entry would be
  held.\<close>

theorem failed_stage_skips_budget:
  assumes "al_revision led = rv"
  shows "enter_stage di evaluate ss stage False rv (Some (failed_entry (stg_Name stage) msg led)) = EnterStage None \<and>
    (\<forall>eb f prior. stg_ErrorBudget stage = Some eb \<longrightarrow> evaluate eb (ss_BudgetFreeze (prior_or_zero prior)) = BudgetFrozen f
      \<longrightarrow> \<not> eb_DryRun eb \<longrightarrow> ss_AppliedRevision (prior_or_zero prior) \<noteq> rv \<longrightarrow>
      (\<exists>held d. enter_stage di evaluate ss stage False rv prior = HoldAtStage held d \<and>
         ss_AppliedRevision held = ss_AppliedRevision (prior_or_zero prior)))"
proof -
  have "ss_AppliedRevision (failed_entry (stg_Name stage) msg led) = rv"
    using assms by (simp add: failed_entry_def stamp_def stage_status_def)
  then show ?thesis
    by (auto simp: enter_stage_def prior_or_zero_def gateStageBudget_def no_stage_gate_def Let_def split: option.split)
qed

definition budget_stage :: Stage where
  "budget_stage = (plain_stage ''api'')\<lparr>stg_ErrorBudget := Some demo_budget\<rparr>"

definition exhausted :: "ErrorBudget \<Rightarrow> BudgetFreeze option \<Rightarrow> budget_verdict" where
  "exhausted = evaluateBudget demo_parse itoa (\<lambda>_. Inr 3) 77"

theorem failed_stage_skips_budget_witness:
  "(\<exists>held d. enter_stage Minute exhausted (plain_set [budget_stage]) budget_stage False ''r2'' (Some demo_status)
      = HoldAtStage held d) \<and>
   enter_stage Minute exhausted (plain_set [budget_stage]) budget_stage False ''r2''
     (Some (failed_entry (stg_Name budget_stage) ''pre-action'' (ap_led (demo_applied ''r2'')))) = EnterStage None"
proof -
  have led: "al_revision (ap_led (demo_applied ''r2'')) = ''r2''" by (simp add: demo_applied_def)
  have eb: "stg_ErrorBudget budget_stage = Some demo_budget" by (simp add: budget_stage_def)
  have "\<exists>f. exhausted demo_budget (ss_BudgetFreeze (prior_or_zero (Some demo_status))) = BudgetFrozen f"
    by (simp add: exhausted_def evaluateBudget_def demo_thresholds prior_or_zero_def demo_status_def stage_status_def)
  then obtain f where f: "exhausted demo_budget (ss_BudgetFreeze (prior_or_zero (Some demo_status))) = BudgetFrozen f" ..
  have "\<not> eb_DryRun demo_budget" "ss_AppliedRevision (prior_or_zero (Some demo_status)) \<noteq> ''r2''"
    by (simp_all add: demo_budget_def prior_or_zero_def demo_status_def stage_status_def)
  then show ?thesis
    using failed_stage_skips_budget [OF led, of Minute exhausted "plain_set [budget_stage]" budget_stage "''pre-action''"] eb f
    by blast
qed

text \<open>A failure before the stage loop forgets the first stage. Not reaching the target cluster, or not
  configuring decryption, writes a failed entry with an empty ledger for the first stage: no pre- or
  post-action counts as done any more at any revision or version, its promotion and handled tokens are
  gone, and every other stage keeps its entry.\<close>

theorem preflight_failure_forgets_ledger:
  assumes "spec_Stages (set_Spec ss) = stage # rest" "stg_Name stage \<notin> stg_Name ` set rest"
    and "fail_preflight ss op c = (ss', reason, terminal)" "rv \<noteq> []" "v \<noteq> Some []"
  shows "\<exists>e. indexStageStatuses (set_Stages ss') (stg_Name stage) = Some e \<and>
      doneSet (stage_ledger rv v False stage (Some e)) = {} \<and> ss_PromotionState e = None \<and>
      ss_LastHandledPromotion e = [] \<and>
      (\<forall>s\<in>set rest. indexStageStatuses (set_Stages ss') (stg_Name s) = indexStageStatuses (set_Stages ss) (stg_Name s))"
proof -
  obtain msg where ss': "set_Stages ss' = mergeStageStatuses ss [failed_entry (stg_Name stage) msg empty_ledger]"
    using assms(1,3) by (auto simp: fail_preflight_def failStage_def Let_def split: prod.splits)
  let ?e = "failed_entry (stg_Name stage) msg empty_ledger"
  have e: "ss_Name ?e = stg_Name stage" "ss_ExecutedActions ?e = []" "ss_ExecutedVersionActions ?e = []"
    "ss_PromotionState ?e = None" "ss_LastHandledPromotion ?e = []"
    by (simp_all add: failed_entry_def stamp_def stage_status_def empty_ledger_def)
  have one: "indexStageStatuses [?e] n = (if n = stg_Name stage then Some ?e else None)" for n
    by (simp add: indexStageStatuses_def map_of_last_def e(1))
  have "doneSet (stage_ledger rv v False stage (Some ?e)) = {}"
    using e by (auto simp: stage_ledger_def doneSet_def Let_def split: option.splits)
  moreover have "stg_Name s \<noteq> stg_Name stage" if "s \<in> set rest" for s
    using assms(2) that by (metis imageI)
  then have "\<forall>s\<in>set rest. indexStageStatuses (set_Stages ss') (stg_Name s) = indexStageStatuses (set_Stages ss) (stg_Name s)"
    using assms(1) by (simp add: ss' mergeStageStatuses_index one)
  moreover have "indexStageStatuses (set_Stages ss') (stg_Name stage) = Some ?e"
    using assms(1) by (simp add: ss' mergeStageStatuses_index one)
  ultimately show ?thesis
    using e by simp
qed

definition deployed_set :: StageSet where
  "deployed_set = (plain_set [demo_action_stage])\<lparr>set_Stages := [(stage_status ''db'' StageReady ''r1'')
     \<lparr>ss_ExecutedActions := [''notify'', ''check''], ss_LedgerRevision := ''r1''\<rparr>]\<rparr>"

definition timeout_cause :: cause where
  "timeout_cause = \<lparr>cause_permanent = False, cause_unauthorized = False, cause_terminal_fetch = False,
     cause_text = ''token request timed out''\<rparr>"

theorem preflight_failure_forgets_ledger_witness:
  "doneSet (stage_ledger ''r1'' None False demo_action_stage
      (indexStageStatuses (set_Stages deployed_set) ''db'')) = {''notify'', ''check''} \<and>
   doneSet (stage_ledger ''r1'' None False demo_action_stage
      (indexStageStatuses (set_Stages (fst (fail_preflight deployed_set ''connect to target cluster'' timeout_cause))) ''db'')) = {}"
proof
  show "doneSet (stage_ledger ''r1'' None False demo_action_stage
      (indexStageStatuses (set_Stages deployed_set) ''db'')) = {''notify'', ''check''}"
    by code_simp
  obtain ss' reason t where f: "fail_preflight deployed_set ''connect to target cluster'' timeout_cause = (ss', reason, t)"
    by (metis prod_cases3)
  have name: "stg_Name demo_action_stage = ''db''" by (simp add: demo_action_stage_def plain_stage_def)
  have "spec_Stages (set_Spec deployed_set) = demo_action_stage # []"
    by (simp add: deployed_set_def plain_set_def plain_spec_def)
  from preflight_failure_forgets_ledger [OF this _ f, of "''r1''" None] name f
  show "doneSet (stage_ledger ''r1'' None False demo_action_stage
      (indexStageStatuses (set_Stages (fst (fail_preflight deployed_set ''connect to target cluster'' timeout_cause))) ''db'')) = {}"
    by fastforce
qed

end
