(* ===== verification/Window.thy ===== *)
theory Window
  imports Types
begin

text \<open>
  Update windows (\<open>internal/window/window.go\<close>): whether new revisions may roll out at a time, and when
  that can change next. Time zones and the cron library are parameters; the zero time is \<open>None\<close>. The
  library's \<open>Next\<close> is documented to return the first start strictly after a time.
\<close>

section \<open>Evaluating one window\<close>

definition TypeAllow :: string where "TypeAllow = ''Allow''"
definition TypeDeny :: string where "TypeDeny = ''Deny''"

definition maxCoveringStarts :: nat where
  "maxCoveringStarts = 10000"

record ('loc, 'sched) clock_lib =
  cl_UTC :: 'loc
  cl_LoadLocation :: "string \<Rightarrow> 'loc option"
  cl_ParseStandard :: "string \<Rightarrow> 'sched option"
  cl_Next :: "'sched \<Rightarrow> 'loc \<Rightarrow> instant \<Rightarrow> instant option"

datatype window_error = BothKinds | NeitherKind | AbsoluteIncomplete | ToNotAfterFrom
  | RecurringIncomplete | BadTimeZone | BadSchedule | DurationNotPositive

definition evalAbsolute :: "UpdateWindow \<Rightarrow> instant \<Rightarrow> window_error + bool \<times> instant option" where
  "evalAbsolute w now =
     (case (uw_From w, uw_To w) of
        (Some from, Some to) \<Rightarrow>
          if \<not> from < to then Inl ToNotAfterFrom
          else if now < from then Inr (False, Some from)
          else if now < to then Inr (True, Some to)
          else Inr (False, None)
      | _ \<Rightarrow> Inl AbsoluteIncomplete)"

fun latest_start :: "(instant \<Rightarrow> instant option) \<Rightarrow> instant \<Rightarrow> nat \<Rightarrow> instant \<Rightarrow> instant" where
  "latest_start nxt now 0 latest = latest"
| "latest_start nxt now (Suc n) latest =
     (case nxt latest of
        None \<Rightarrow> latest
      | Some s \<Rightarrow> if \<not> latest < s \<or> now < s then latest else latest_start nxt now n s)"

definition window_location :: "('loc, 'sched) clock_lib \<Rightarrow> UpdateWindow \<Rightarrow> 'loc option" where
  "window_location lib w = (if uw_TimeZone w \<noteq> [] then cl_LoadLocation lib (uw_TimeZone w) else Some (cl_UTC lib))"

definition evalRecurring ::
  "('loc, 'sched) clock_lib \<Rightarrow> UpdateWindow \<Rightarrow> instant \<Rightarrow> window_error + bool \<times> instant option" where
  "evalRecurring lib w now =
     (case uw_Duration w of
        None \<Rightarrow> Inl RecurringIncomplete
      | Some dur \<Rightarrow>
          if uw_Schedule w = [] then Inl RecurringIncomplete
          else (case window_location lib w of
              None \<Rightarrow> Inl BadTimeZone
            | Some loc \<Rightarrow>
                (case cl_ParseStandard lib (uw_Schedule w) of
                   None \<Rightarrow> Inl BadSchedule
                 | Some sched \<Rightarrow>
                     if dur \<le> 0 then Inl DurationNotPositive
                     else (case cl_Next lib sched loc (now - dur) of
                         None \<Rightarrow> Inr (False, None)
                       | Some candidate \<Rightarrow>
                           if now < candidate then Inr (False, Some candidate)
                           else Inr (True, Some (latest_start (cl_Next lib sched loc) now maxCoveringStarts candidate + dur))))))"

definition evalWindow ::
  "('loc, 'sched) clock_lib \<Rightarrow> UpdateWindow \<Rightarrow> instant \<Rightarrow> window_error + bool \<times> instant option" where
  "evalWindow lib w now =
     (let recurring = uw_Schedule w \<noteq> [] \<or> uw_Duration w \<noteq> None;
          absolute = uw_From w \<noteq> None \<or> uw_To w \<noteq> None
      in if recurring \<and> absolute then Inl BothKinds
         else if absolute then evalAbsolute w now
         else if recurring then evalRecurring lib w now
         else Inl NeitherKind)"

section \<open>Deciding\<close>

definition earlier :: "instant option \<Rightarrow> instant option \<Rightarrow> instant option" where
  "earlier boundary nxt =
     (case boundary of
        None \<Rightarrow> nxt
      | Some b \<Rightarrow> (case nxt of None \<Rightarrow> Some b | Some n \<Rightarrow> if b < n then Some b else Some n))"

text \<open>The loop's state: a Deny is active, an Allow is active, there is an Allow, the earliest boundary.\<close>

fun fold_windows ::
  "('loc, 'sched) clock_lib \<Rightarrow> instant \<Rightarrow> UpdateWindow list \<Rightarrow> bool \<times> bool \<times> bool \<times> instant option
   \<Rightarrow> window_error + bool \<times> bool \<times> bool \<times> instant option" where
  "fold_windows lib t [] acc = Inr acc"
| "fold_windows lib t (w # ws) (denyActive, allowActive, hasAllow, nxt) =
     bind_result (evalWindow lib w t) (\<lambda>(active, boundary).
       fold_windows lib t ws
         (denyActive \<or> (uw_Type w = TypeDeny \<and> active), allowActive \<or> (uw_Type w = TypeAllow \<and> active),
          hasAllow \<or> uw_Type w = TypeAllow, earlier boundary nxt))"

definition decisionAt ::
  "('loc, 'sched) clock_lib \<Rightarrow> UpdateWindow list \<Rightarrow> instant \<Rightarrow> window_error + bool \<times> instant option" where
  "decisionAt lib ws t =
     bind_result (fold_windows lib t ws (False, False, False, None))
       (\<lambda>(denyActive, allowActive, hasAllow, nxt). Inr (\<not> denyActive \<and> (\<not> hasAllow \<or> allowActive), nxt))"

fun decision_walk ::
  "('loc, 'sched) clock_lib \<Rightarrow> UpdateWindow list \<Rightarrow> bool \<Rightarrow> instant option \<Rightarrow> nat \<Rightarrow> instant
   \<Rightarrow> window_error + bool \<times> instant option" where
  "decision_walk lib ws allowed earliest 0 cur = Inr (allowed, earliest)"
| "decision_walk lib ws allowed earliest (Suc n) cur =
     bind_result (decisionAt lib ws cur) (\<lambda>(_, boundary).
       case boundary of
         None \<Rightarrow> Inr (allowed, None)
       | Some b \<Rightarrow> bind_result (decisionAt lib ws b) (\<lambda>(flipped, _).
           if flipped \<noteq> allowed then Inr (allowed, Some b) else decision_walk lib ws allowed earliest n b))"

definition Decision ::
  "('loc, 'sched) clock_lib \<Rightarrow> UpdateWindow list \<Rightarrow> instant \<Rightarrow> window_error + bool \<times> instant option" where
  "Decision lib ws now =
     (if ws = [] then Inr (True, None)
      else bind_result (decisionAt lib ws now) (\<lambda>(allowed, earliest).
        decision_walk lib ws allowed earliest (2 * length ws + 2) now))"

fun Validate :: "('loc, 'sched) clock_lib \<Rightarrow> instant \<Rightarrow> UpdateWindow list \<Rightarrow> window_error option" where
  "Validate lib now [] = None"
| "Validate lib now (w # ws) = (case evalWindow lib w now of Inl e \<Rightarrow> Some e | Inr _ \<Rightarrow> Validate lib now ws)"

section \<open>What a window means\<close>

text \<open>The documented behaviour of the cron library: the first start strictly after a time.\<close>

definition lawful_next :: "(instant \<Rightarrow> instant option) \<Rightarrow> bool" where
  "lawful_next nxt \<longleftrightarrow>
     (\<forall>t s. nxt t = Some s \<longrightarrow> t < s \<and> (\<forall>u r. nxt u = Some r \<longrightarrow> r \<le> t \<or> s \<le> r)) \<and>
     (\<forall>t. nxt t = None \<longrightarrow> (\<forall>u r. nxt u = Some r \<longrightarrow> r \<le> t))"

definition lawful_lib :: "('loc, 'sched) clock_lib \<Rightarrow> bool" where
  "lawful_lib lib \<longleftrightarrow> (\<forall>sched loc. lawful_next (cl_Next lib sched loc))"

text \<open>A window is open at a time it contains: between its ends, or within its duration of a start.\<close>

definition window_open :: "('loc, 'sched) clock_lib \<Rightarrow> UpdateWindow \<Rightarrow> instant \<Rightarrow> bool" where
  "window_open lib w t \<longleftrightarrow>
     (case (uw_From w, uw_To w) of
        (Some from, Some to) \<Rightarrow> from \<le> t \<and> t < to
      | _ \<Rightarrow> (case (uw_Duration w, window_location lib w, cl_ParseStandard lib (uw_Schedule w)) of
          (Some dur, Some loc, Some sched) \<Rightarrow>
            (\<exists>u s. cl_Next lib sched loc u = Some s \<and> s \<le> t \<and> t < s + dur)
        | _ \<Rightarrow> False))"

definition updates_allowed :: "('loc, 'sched) clock_lib \<Rightarrow> UpdateWindow list \<Rightarrow> instant \<Rightarrow> bool" where
  "updates_allowed lib ws t \<longleftrightarrow>
     \<not> (\<exists>w\<in>set ws. uw_Type w = TypeDeny \<and> window_open lib w t) \<and>
     ((\<exists>w\<in>set ws. uw_Type w = TypeAllow) \<longrightarrow> (\<exists>w\<in>set ws. uw_Type w = TypeAllow \<and> window_open lib w t))"

section \<open>One window\<close>

lemma latest_start_covers:
  "nxt u = Some c \<Longrightarrow> c \<le> now \<Longrightarrow>
   c \<le> latest_start nxt now n c \<and> latest_start nxt now n c \<le> now \<and> (\<exists>v. nxt v = Some (latest_start nxt now n c))"
proof (induction n arbitrary: u c)
  case (Suc n)
  show ?case
  proof (cases "nxt c")
    case None
    then show ?thesis using Suc.prems by auto
  next
    case (Some s)
    then show ?thesis using Suc.prems Suc.IH [OF Some] by (cases "c < s \<and> s \<le> now") auto
  qed
qed auto

lemma evalRecurring_meaning:
  assumes "lawful_lib lib" "evalRecurring lib w t = Inr (active, b)" "uw_From w = None" "uw_To w = None"
  shows "window_open lib w t = active \<and> (case b of
      None \<Rightarrow> \<not> active \<and> (\<forall>t'\<ge>t. \<not> window_open lib w t')
    | Some x \<Rightarrow> t < x \<and> (\<forall>t'. t \<le> t' \<and> t' < x \<longrightarrow> window_open lib w t' = active))"
proof -
  obtain dur loc sched where p: "uw_Duration w = Some dur" "window_location lib w = Some loc"
    "cl_ParseStandard lib (uw_Schedule w) = Some sched" "0 < dur"
    using assms(2) by (auto simp: evalRecurring_def split: option.splits if_splits)
  let ?n = "cl_Next lib sched loc"
  have law: "lawful_next ?n" using assms(1) by (simp add: lawful_lib_def)
  have first: "?n a = Some s \<Longrightarrow> a < s \<and> (\<forall>u r. ?n u = Some r \<longrightarrow> r \<le> a \<or> s \<le> r)" for a s
    using law by (simp add: lawful_next_def)
  have last: "?n a = None \<Longrightarrow> ?n u = Some r \<Longrightarrow> r \<le> a" for a u r using law by (auto simp: lawful_next_def)
  have win: "window_open lib w t' \<longleftrightarrow> (\<exists>u s. ?n u = Some s \<and> s \<le> t' \<and> t' < s + dur)" for t'
    using p assms(3,4) by (simp add: window_open_def)
  have ev: "(case ?n (t - dur) of
      None \<Rightarrow> (False, None)
    | Some c \<Rightarrow> if t < c then (False, Some c) else (True, Some (latest_start ?n t maxCoveringStarts c + dur))) = (active, b)"
    using assms(2) p by (auto simp: evalRecurring_def split: option.splits if_splits)
  show ?thesis
  proof (cases "?n (t - dur)")
    case None
    then have r: "active = False" "b = None" using ev by auto
    have "\<not> window_open lib w t'" if "t \<le> t'" for t'
      using last [OF None] that p(4) unfolding win by force
    then show ?thesis using r by simp
  next
    case (Some c)
    show ?thesis
    proof (cases "t < c")
      case True
      then have r: "active = False" "b = Some c" using ev Some by auto
      have "\<not> window_open lib w t'" if "t \<le> t'" "t' < c" for t'
      proof
        assume "window_open lib w t'"
        then obtain u s where "?n u = Some s" "s \<le> t'" "t' < s + dur" using win by blast
        then show False using first [OF Some] that by (smt (verit))
      qed
      then show ?thesis using r True by simp
    next
      case False
      let ?l = "latest_start ?n t maxCoveringStarts c"
      have r: "active = True" "b = Some (?l + dur)" using ev Some False by auto
      have l: "c \<le> ?l" "?l \<le> t" "\<exists>v. ?n v = Some ?l"
        using latest_start_covers [of ?n "t - dur" c t maxCoveringStarts] Some False by simp_all
      have "t < ?l + dur" using l(1) first [OF Some] by simp
      moreover have "window_open lib w t'" if "t \<le> t'" "t' < ?l + dur" for t'
        using l that unfolding win by force
      ultimately show ?thesis using r by simp
    qed
  qed
qed

lemma evalWindow_meaning:
  assumes "lawful_lib lib" "evalWindow lib w t = Inr (active, b)"
  shows "window_open lib w t = active \<and> (case b of
      None \<Rightarrow> \<not> active \<and> (\<forall>t'\<ge>t. \<not> window_open lib w t')
    | Some x \<Rightarrow> t < x \<and> (\<forall>t'. t \<le> t' \<and> t' < x \<longrightarrow> window_open lib w t' = active))"
proof (cases "uw_From w = None \<and> uw_To w = None")
  case True
  then show ?thesis
    using assms(2) evalRecurring_meaning [OF assms(1)] by (auto simp: evalWindow_def Let_def split: if_splits)
next
  case False
  then obtain a z where ft: "uw_From w = Some a" "uw_To w = Some z" "a < z"
    and ev: "evalAbsolute w t = Inr (active, b)"
    using assms(2) by (auto simp: evalWindow_def evalAbsolute_def Let_def split: if_splits option.splits)
  have win: "window_open lib w t' \<longleftrightarrow> a \<le> t' \<and> t' < z" for t' using ft by (simp add: window_open_def)
  consider "t < a" | "a \<le> t" "t < z" | "z \<le> t" by linarith
  then show ?thesis
  proof cases
    case 1
    then have "\<not> active" "b = Some a" using ev ft by (simp_all add: evalAbsolute_def)
    then show ?thesis using 1 ft(3) by (simp add: win)
  next
    case 2
    then have "active" "b = Some z" using ev ft by (simp_all add: evalAbsolute_def)
    then show ?thesis using 2 by (simp add: win)
  next
    case 3
    then have "\<not> active" "b = None" using ev ft by (simp_all add: evalAbsolute_def)
    then show ?thesis using 3 by (simp add: win)
  qed
qed

text \<open>Whether a window is well-formed does not depend on the time.\<close>

definition well_formed_window :: "('loc, 'sched) clock_lib \<Rightarrow> UpdateWindow \<Rightarrow> bool" where
  "well_formed_window lib w \<longleftrightarrow> (\<forall>t. \<not> isl (evalWindow lib w t))"

lemma evalWindow_error_const: "isl (evalWindow lib w t) = isl (evalWindow lib w t')"
  by (auto simp: evalWindow_def evalAbsolute_def evalRecurring_def Let_def split: option.splits)

lemma Validate_ok: "Validate lib now ws = None \<longleftrightarrow> (\<forall>w\<in>set ws. well_formed_window lib w)"
proof (induction ws)
  case (Cons w ws)
  have "well_formed_window lib w \<longleftrightarrow> \<not> isl (evalWindow lib w now)"
    using evalWindow_error_const [of lib w] by (auto simp: well_formed_window_def)
  then show ?case using Cons by (auto split: sum.splits)
qed simp


section \<open>All windows\<close>

text \<open>Times before a boundary; without one, every time.\<close>

definition sooner :: "instant \<Rightarrow> instant option \<Rightarrow> bool" where
  "sooner t b \<longleftrightarrow> (case b of None \<Rightarrow> True | Some x \<Rightarrow> t < x)"

lemma sooner_simps [simp]: "sooner t None" "sooner t (Some x) \<longleftrightarrow> t < x"
  by (simp_all add: sooner_def)

lemma sooner_earlier [simp]: "sooner t (earlier b n) \<longleftrightarrow> sooner t b \<and> sooner t n"
  by (auto simp: earlier_def split: option.split)

definition holds_until :: "(instant \<Rightarrow> 'a) \<Rightarrow> 'a \<Rightarrow> instant \<Rightarrow> instant option \<Rightarrow> bool" where
  "holds_until f v t b \<longleftrightarrow> sooner t b \<and> (\<forall>t'. t \<le> t' \<and> sooner t' b \<longrightarrow> f t' = v)"

definition constant_until :: "(instant \<Rightarrow> 'a) \<Rightarrow> instant \<Rightarrow> instant option \<Rightarrow> bool" where
  "constant_until f t b \<longleftrightarrow> (\<exists>v. \<forall>t'. t \<le> t' \<and> sooner t' b \<longrightarrow> f t' = v)"

lemma constant_untilD: "constant_until f t b \<Longrightarrow> sooner t b \<Longrightarrow> t \<le> t' \<Longrightarrow> sooner t' b \<Longrightarrow> f t' = f t"
  unfolding constant_until_def by (metis order_refl)

lemma evalWindow_holds:
  assumes "lawful_lib lib" "evalWindow lib w t = Inr (active, b)"
  shows "window_open lib w t = active \<and> holds_until (window_open lib w) active t b"
proof (cases b)
  case None
  then show ?thesis using evalWindow_meaning [OF assms] by (simp add: holds_until_def)
next
  case (Some x)
  then show ?thesis using evalWindow_meaning [OF assms] by (simp add: holds_until_def)
qed

definition type_open :: "('loc, 'sched) clock_lib \<Rightarrow> string \<Rightarrow> UpdateWindow list \<Rightarrow> instant \<Rightarrow> bool" where
  "type_open lib ty ws t \<longleftrightarrow> (\<exists>w\<in>set ws. uw_Type w = ty \<and> window_open lib w t)"

lemma updates_allowed_open:
  "updates_allowed lib ws t \<longleftrightarrow> \<not> type_open lib TypeDeny ws t \<and>
     ((\<exists>w\<in>set ws. uw_Type w = TypeAllow) \<longrightarrow> type_open lib TypeAllow ws t)"
  by (simp add: updates_allowed_def type_open_def)

lemma fold_windows_meaning:
  assumes "lawful_lib lib"
  shows "fold_windows lib t ws (d, a, h, n) = Inr (d', a', h', n') \<Longrightarrow>
    d' = (d \<or> type_open lib TypeDeny ws t) \<and> a' = (a \<or> type_open lib TypeAllow ws t) \<and>
    h' = (h \<or> (\<exists>w\<in>set ws. uw_Type w = TypeAllow)) \<and> (sooner t n \<longrightarrow> sooner t n') \<and>
    (\<forall>t'. sooner t' n' \<longrightarrow> sooner t' n) \<and>
    (\<forall>w\<in>set ws. constant_until (window_open lib w) t n')"
proof (induction ws arbitrary: d a h n)
  case Nil
  then show ?case by (simp add: type_open_def)
next
  case (Cons w ws)
  obtain active b where e: "evalWindow lib w t = Inr (active, b)"
    using Cons.prems by (cases "evalWindow lib w t") auto
  have w: "window_open lib w t = active" "sooner t b" "\<forall>t'. t \<le> t' \<and> sooner t' b \<longrightarrow> window_open lib w t' = active"
    using evalWindow_holds [OF assms e] by (simp_all add: holds_until_def)
  have f: "fold_windows lib t ws (d \<or> (uw_Type w = TypeDeny \<and> active), a \<or> (uw_Type w = TypeAllow \<and> active),
      h \<or> uw_Type w = TypeAllow, earlier b n) = Inr (d', a', h', n')"
    using Cons.prems e by simp
  note ih = Cons.IH [OF f, unfolded sooner_earlier]
  note ih2 = ih [THEN conjunct2] and ih3 = ih [THEN conjunct2, THEN conjunct2] and ih4 = ih [THEN conjunct2, THEN conjunct2, THEN conjunct2]
  have d: "d' = ((d \<or> (uw_Type w = TypeDeny \<and> active)) \<or> type_open lib TypeDeny ws t)" by (rule ih [THEN conjunct1])
  have a: "a' = ((a \<or> (uw_Type w = TypeAllow \<and> active)) \<or> type_open lib TypeAllow ws t)" by (rule ih2 [THEN conjunct1])
  have h: "h' = ((h \<or> uw_Type w = TypeAllow) \<or> (\<exists>w\<in>set ws. uw_Type w = TypeAllow))" by (rule ih3 [THEN conjunct1])
  have s: "sooner t n \<longrightarrow> sooner t n'" using ih4 [THEN conjunct1] w(2) by blast
  have s': "\<forall>t'. sooner t' n' \<longrightarrow> sooner t' b \<and> sooner t' n" by (rule ih4 [THEN conjunct2, THEN conjunct1])
  have rest: "\<forall>w\<in>set ws. constant_until (window_open lib w) t n'" by (rule ih4 [THEN conjunct2, THEN conjunct2])
  have here: "constant_until (window_open lib w) t n'"
    unfolding constant_until_def using w(3) s' by (intro exI [of _ active]) simp
  have "d' = (d \<or> type_open lib TypeDeny (w # ws) t)" using d w(1) by (auto simp: type_open_def)
  moreover have "a' = (a \<or> type_open lib TypeAllow (w # ws) t)" using a w(1) by (auto simp: type_open_def)
  moreover have "\<forall>t'. sooner t' n' \<longrightarrow> sooner t' n" using s' by blast
  moreover have "\<forall>x\<in>set (w # ws). constant_until (window_open lib x) t n'"
    using here rest by simp
  moreover have "h' = (h \<or> (\<exists>x\<in>set (w # ws). uw_Type x = TypeAllow))" using h by auto
  ultimately show ?case using s by (intro conjI)
qed

lemma decisionAt_meaning:
  assumes "lawful_lib lib" "decisionAt lib ws t = Inr (allowed, b)"
  shows "updates_allowed lib ws t = allowed \<and> holds_until (updates_allowed lib ws) allowed t b"
proof -
  obtain d a h where f: "fold_windows lib t ws (False, False, False, None) = Inr (d, a, h, b)"
    and al: "allowed = (\<not> d \<and> (\<not> h \<or> a))"
    using assms(2) by (auto simp: decisionAt_def bind_result_eq_Inr)
  from fold_windows_meaning [OF assms(1) f] have
    m: "d = type_open lib TypeDeny ws t" "a = type_open lib TypeAllow ws t"
      "h = (\<exists>w\<in>set ws. uw_Type w = TypeAllow)" "sooner t b" and
    w: "\<forall>w\<in>set ws. constant_until (window_open lib w) t b"
    by simp_all
  have now: "updates_allowed lib ws t = allowed" using al m(1-3) by (auto simp: updates_allowed_open)
  have "updates_allowed lib ws t' = allowed" if "t \<le> t'" "sooner t' b" for t'
  proof -
    have "type_open lib ty ws t' = type_open lib ty ws t" for ty
      unfolding type_open_def using constant_untilD [OF _ m(4) that] w by (intro bex_cong refl) blast
    then show ?thesis unfolding now [symmetric] updates_allowed_open by simp
  qed
  then show ?thesis using now m(4) by (simp add: holds_until_def)
qed

lemma decision_walk_meaning:
  assumes "lawful_lib lib" "updates_allowed lib ws now = v" "holds_until (updates_allowed lib ws) v now earliest"
  shows "decision_walk lib ws v earliest n cur = Inr (allowed, b) \<Longrightarrow>
    now \<le> cur \<Longrightarrow> \<forall>t. now \<le> t \<and> t \<le> cur \<longrightarrow> updates_allowed lib ws t = v \<Longrightarrow>
    allowed = v \<and> holds_until (updates_allowed lib ws) v now b \<and>
    (\<forall>x. b = Some x \<longrightarrow> updates_allowed lib ws x \<noteq> v \<or> earliest = b)"
proof (induction n arbitrary: cur)
  case 0
  then show ?case using assms(3) by simp
next
  case (Suc n)
  obtain al b1 where d: "decisionAt lib ws cur = Inr (al, b1)"
    using Suc.prems(1) by (cases "decisionAt lib ws cur") auto
  have "updates_allowed lib ws cur = v" using Suc.prems(2,3) by simp
  then have "al = v" using decisionAt_meaning [OF assms(1) d] by simp
  then have here: "sooner cur b1" "\<forall>t. cur \<le> t \<and> sooner t b1 \<longrightarrow> updates_allowed lib ws t = v"
    using decisionAt_meaning [OF assms(1) d] by (simp_all add: holds_until_def)
  have upto: "updates_allowed lib ws t = v" if "now \<le> t" "sooner t b1" for t
    using Suc.prems(3) here(2) that by (cases "t \<le> cur") simp_all
  have now: "sooner now b1" using here(1) Suc.prems(2) by (cases b1) simp_all
  show ?case
  proof (cases b1)
    case None
    then have "allowed = v" "b = None" using Suc.prems(1) d by simp_all
    then show ?thesis using upto None by (simp add: holds_until_def)
  next
    case (Some x)
    obtain fl b2 where d2: "decisionAt lib ws x = Inr (fl, b2)"
      using Suc.prems(1) d Some by (cases "decisionAt lib ws x") auto
    have fl: "updates_allowed lib ws x = fl" using decisionAt_meaning [OF assms(1) d2] by simp
    show ?thesis
    proof (cases "fl = v")
      case True
      then have w: "decision_walk lib ws v earliest n x = Inr (allowed, b)"
        using Suc.prems(1) d d2 Some by simp
      have "updates_allowed lib ws t = v" if "now \<le> t" "t \<le> x" for t
        using upto [OF that(1)] that Some True fl by (cases "t = x") simp_all
      then show ?thesis using Suc.IH [OF w] here(1) Suc.prems(2) Some by simp
    next
      case False
      then have "allowed = v" "b = Some x" using Suc.prems(1) d d2 Some by simp_all
      then show ?thesis using upto now Some False fl by (simp add: holds_until_def)
    qed
  qed
qed

lemma fold_windows_total:
  "\<forall>w\<in>set ws. well_formed_window lib w \<Longrightarrow> \<exists>r. fold_windows lib t ws acc = Inr r"
proof (induction ws arbitrary: acc)
  case (Cons w ws)
  obtain d a h n where acc: "acc = (d, a, h, n)" by (cases acc)
  obtain active b where "evalWindow lib w t = Inr (active, b)"
    using Cons.prems by (cases "evalWindow lib w t") (auto simp: well_formed_window_def dest: spec [of _ t])
  then show ?case using Cons by (simp add: acc)
qed (metis fold_windows.simps(1) surj_pair)

lemma decisionAt_total:
  assumes "\<forall>w\<in>set ws. well_formed_window lib w"
  shows "\<exists>al b. decisionAt lib ws t = Inr (al, b)"
proof -
  obtain d a h n where "fold_windows lib t ws (False, False, False, None) = Inr (d, a, h, n)"
    using fold_windows_total [OF assms] by (metis prod_cases4)
  then show ?thesis by (simp add: decisionAt_def)
qed

lemma decision_walk_total:
  "\<forall>w\<in>set ws. well_formed_window lib w \<Longrightarrow> \<exists>r. decision_walk lib ws allowed earliest n cur = Inr r"
proof (induction n arbitrary: cur)
  case (Suc n)
  obtain al b where d: "decisionAt lib ws cur = Inr (al, b)" using decisionAt_total [OF Suc.prems] by blast
  show ?case
  proof (cases b)
    case (Some x)
    obtain fl b2 where "decisionAt lib ws x = Inr (fl, b2)" using decisionAt_total [OF Suc.prems] by blast
    then show ?thesis using d Some Suc by simp
  qed (simp add: d)
qed simp


text \<open>A schedule with one start, at 100: open for ten from there, but closed from 104 to 300.\<close>

definition demo_clock :: "(unit, unit) clock_lib" where
  "demo_clock = \<lparr>cl_UTC = (), cl_LoadLocation = (\<lambda>_. None), cl_ParseStandard = (\<lambda>_. Some ()),
     cl_Next = (\<lambda>_ _ t. if t < 100 then Some 100 else None)\<rparr>"

definition demo_windows :: "UpdateWindow list" where
  "demo_windows = [\<lparr>uw_Type = ''Allow'', uw_Schedule = ''* * * * *'', uw_Duration = Some 10, uw_TimeZone = [], uw_From = None, uw_To = None\<rparr>,
     \<lparr>uw_Type = ''Deny'', uw_Schedule = [], uw_Duration = None, uw_TimeZone = [], uw_From = Some 104, uw_To = Some 300\<rparr>]"


end
