(* ===== verification/Json.thy ===== *)
theory Json
  imports Prelude
begin

text \<open>
  Unstructured Kubernetes objects: the trees the API machinery hands out, and the nested accessors of
  \<open>unstructured\<close> the sources use. A Go map has one value per key; here it is an association list.
\<close>

datatype json = JString string | JList "json list" | JMap "(string \<times> json) list" | JOther string

fun nested :: "string list \<Rightarrow> json \<Rightarrow> json option" where
  "nested [] v = Some v"
| "nested (k # ks) (JMap m) = (case map_of m k of None \<Rightarrow> None | Some v \<Rightarrow> nested ks v)"
| "nested (k # ks) v = None"

text \<open>\<open>SetNestedField\<close> on a path that exists.\<close>

fun set_nested :: "string list \<Rightarrow> json \<Rightarrow> json \<Rightarrow> json" where
  "set_nested [] x v = x"
| "set_nested (k # ks) x (JMap m) = JMap (map (\<lambda>(k', v). (k', if k' = k then set_nested ks x v else v)) m)"
| "set_nested (k # ks) x v = v"

definition nested_string :: "string list \<Rightarrow> json \<Rightarrow> string" where
  "nested_string ks v = (case nested ks v of Some (JString s) \<Rightarrow> s | _ \<Rightarrow> [])"

definition nested_slice :: "string list \<Rightarrow> json \<Rightarrow> json list option" where
  "nested_slice ks v = (case nested ks v of Some (JList l) \<Rightarrow> Some l | _ \<Rightarrow> None)"

definition GetKind :: "json \<Rightarrow> string" where
  "GetKind obj = nested_string [''kind''] obj"

section \<open>Reading what was set\<close>

lemma map_of_map_if:
  "map_of (map (\<lambda>(k', v). (k', if k' = k then f v else v)) m) j = (if j = k then map_option f (map_of m k) else map_of m j)"
  by (induction m) auto

lemma nested_set_nested: "nested ks v \<noteq> None \<Longrightarrow> nested ks (set_nested ks x v) = Some x"
proof (induction ks arbitrary: v)
  case (Cons k ks)
  then obtain m u where "v = JMap m" "map_of m k = Some u" "nested ks u \<noteq> None"
    by (cases v) (auto split: option.splits)
  with Cons.IH show ?case by (simp add: map_of_map_if)
qed simp

text \<open>A write below one field is not seen below another field of the same map.\<close>

lemma nested_set_other: "f \<noteq> g \<Longrightarrow> nested (base @ g # ks') (set_nested (base @ f # ks) x v) = nested (base @ g # ks') v"
proof (induction base arbitrary: v)
  case Nil
  then show ?case by (cases v) (simp_all add: map_of_map_if)
next
  case (Cons b base)
  then show ?case by (cases v) (auto simp: map_of_map_if split: option.splits)
qed

lemma nested_slice_set: "nested_slice ks v \<noteq> None \<Longrightarrow> nested_slice ks (set_nested ks (JList l) v) = Some l"
  by (auto simp: nested_slice_def nested_set_nested split: option.splits json.splits)

lemma nested_slice_set_other:
  "f \<noteq> g \<Longrightarrow> nested_slice (base @ [g]) (set_nested (base @ [f]) x v) = nested_slice (base @ [g]) v"
  by (simp add: nested_slice_def nested_set_other)

lemma GetKind_set: "f \<noteq> ''kind'' \<Longrightarrow> GetKind (set_nested (f # ks) x v) = GetKind v"
  using nested_set_other [of f "''kind''" "[]" "[]" ks x v] by (simp add: GetKind_def nested_string_def)

end
