(* ===== verification/ReadyChecks.thy ===== *)
theory ReadyChecks
  imports StageControl Json
begin

text \<open>
  Readiness of an applied stage: \<open>internal/celeval/celeval.go\<close> (compiling and evaluating CEL
  expressions), \<open>internal/controller/readychecks.go\<close> (the objects the readiness wait covers and the CEL
  checks) and \<open>internal/controller/verifystage.go\<close> (the two gates under the deletion watch).
  The CEL library, the group-version parser, the REST mapper and the cluster are parameters; time is
  explicit: a reading is a function of the instant at which it is made.
\<close>

section \<open>CEL programs (celeval.go)\<close>

text \<open>An unstructured object is a map of fields; of a field the code asks for a string or a map.\<close>

type_synonym content = "string \<rightharpoonup> json"

record activation =
  av_apiVersion :: string
  av_kind :: string
  av_metadata :: "(string \<times> json) list"
  av_spec :: "(string \<times> json) list"
  av_status :: "(string \<times> json) list"

datatype cel_value = CelBool bool | CelOther string

record ('ast, 'p) cel_lib =
  cel_compile :: "string \<Rightarrow> 'ast option"
  cel_type :: "'ast \<Rightarrow> string"
  cel_program :: "'ast \<Rightarrow> int \<Rightarrow> 'p option"
  cel_eval :: "'p \<Rightarrow> activation \<Rightarrow> cel_value option"

definition maxEvalCost :: int where
  "maxEvalCost = 10000000"

definition compileWithCost :: "('ast, 'p) cel_lib \<Rightarrow> string \<Rightarrow> int \<Rightarrow> 'p option" where
  "compileWithCost lib expr costLimit =
     (case cel_compile lib expr of
        None \<Rightarrow> None
      | Some ast \<Rightarrow>
          if cel_type lib ast \<noteq> ''bool'' \<and> cel_type lib ast \<noteq> ''dyn'' then None
          else cel_program lib ast costLimit)"

definition Compile :: "('ast, 'p) cel_lib \<Rightarrow> string \<Rightarrow> 'p option" where
  "Compile lib expr = compileWithCost lib expr maxEvalCost"

definition asString :: "json option \<Rightarrow> string" where
  "asString v = (case v of Some (JString s) \<Rightarrow> s | _ \<Rightarrow> [])"

definition asMap :: "json option \<Rightarrow> (string \<times> json) list" where
  "asMap v = (case v of Some (JMap m) \<Rightarrow> m | _ \<Rightarrow> [])"

text \<open>\<open>None\<close> is an evaluation error.\<close>

definition EvalBool :: "('ast, 'p) cel_lib \<Rightarrow> 'p \<Rightarrow> content \<Rightarrow> bool option" where
  "EvalBool lib p obj =
     (case cel_eval lib p \<lparr>av_apiVersion = asString (obj ''apiVersion''), av_kind = asString (obj ''kind''),
         av_metadata = asMap (obj ''metadata''), av_spec = asMap (obj ''spec''), av_status = asMap (obj ''status'')\<rparr> of
        Some (CelBool b) \<Rightarrow> Some b
      | _ \<Rightarrow> None)"

section \<open>Objects the readiness wait covers (readychecks.go)\<close>

record obj_metadata =
  om_Namespace :: string
  om_Name :: string
  om_Group :: string
  om_Kind :: string

text \<open>
  \<open>gv\<close> is \<open>schema.ParseGroupVersion\<close>. A REST mapper answers for a group, a kind and the versions asked
  for whether the kind is root-scoped; \<open>None\<close> is a kind it does not know.
\<close>

type_synonym group_version_parser = "string \<Rightarrow> (string \<times> string) option"
type_synonym rest_mapper = "string \<Rightarrow> string \<Rightarrow> string list \<Rightarrow> bool option"

definition clusterScoped :: "rest_mapper option \<Rightarrow> string \<Rightarrow> string \<Rightarrow> string \<Rightarrow> bool" where
  "clusterScoped mapper grp kind version =
     (case mapper of
        None \<Rightarrow> False
      | Some rm \<Rightarrow> (case rm grp kind (if version \<noteq> [] then [version] else []) of
            None \<Rightarrow> False
          | Some root \<Rightarrow> root))"

definition readyCheckNamespace ::
  "rest_mapper option \<Rightarrow> string \<Rightarrow> string \<Rightarrow> string \<Rightarrow> string \<Rightarrow> string \<Rightarrow> string" where
  "readyCheckNamespace mapper grp kind version refNamespace ownerNamespace =
     (if clusterScoped mapper grp kind version then []
      else if refNamespace \<noteq> [] then refNamespace
      else ownerNamespace)"

definition readyCheckObjects ::
  "group_version_parser \<Rightarrow> rest_mapper option \<Rightarrow> StageSet \<Rightarrow> Stage \<Rightarrow> obj_metadata list" where
  "readyCheckObjects gv mapper ss stage =
     (case stg_ReadyChecks stage of
        None \<Rightarrow> []
      | Some rc \<Rightarrow>
          map (\<lambda>ref.
            let (grp, version) = (case gv (okr_APIVersion ref) of Some p \<Rightarrow> p | None \<Rightarrow> ([], [])) in
            \<lparr>om_Namespace = readyCheckNamespace mapper grp (okr_Kind ref) version (okr_Namespace ref) (set_Namespace ss),
             om_Name = okr_Name ref, om_Group = grp, om_Kind = okr_Kind ref\<rparr>) (rdy_Checks rc))"

section \<open>Compiling the CEL checks\<close>

record 'p compiledHealthCheck =
  hc_group :: string
  hc_kind :: string
  hc_current :: "'p option"
  hc_inProgress :: "'p option"
  hc_failed :: "'p option"

datatype ready_error = ReadyBadAPIVersion string | ReadyBadExpr string string

definition compile_expr :: "('ast, 'p) cel_lib \<Rightarrow> string \<Rightarrow> string \<Rightarrow> ready_error + 'p option" where
  "compile_expr lib name src =
     (if src = [] then Inr None
      else case Compile lib src of None \<Rightarrow> Inl (ReadyBadExpr name src) | Some p \<Rightarrow> Inr (Some p))"

text \<open>
  The source walks the three expressions in the random order of a Go map, which decides only which of
  several errors is reported; here it is the order of the struct.
\<close>

definition compile_check ::
  "('ast, 'p) cel_lib \<Rightarrow> group_version_parser \<Rightarrow> CustomHealthCheck \<Rightarrow> ready_error + 'p compiledHealthCheck" where
  "compile_check lib gv hc =
     (case gv (chc_APIVersion hc) of
        None \<Rightarrow> Inl (ReadyBadAPIVersion (chc_APIVersion hc))
      | Some (grp, _) \<Rightarrow>
          bind_result (compile_expr lib ''current'' (chc_Current hc)) (\<lambda>current.
          bind_result (compile_expr lib ''inProgress'' (chc_InProgress hc)) (\<lambda>inProgress.
          bind_result (compile_expr lib ''failed'' (chc_Failed hc)) (\<lambda>failed.
            Inr \<lparr>hc_group = grp, hc_kind = chc_Kind hc, hc_current = current,
              hc_inProgress = inProgress, hc_failed = failed\<rparr>))))"

definition compileReadyExprs ::
  "('ast, 'p) cel_lib \<Rightarrow> group_version_parser \<Rightarrow> Stage \<Rightarrow> ready_error + 'p compiledHealthCheck list" where
  "compileReadyExprs lib gv stage =
     (case stg_ReadyChecks stage of
        None \<Rightarrow> Inr []
      | Some rc \<Rightarrow> map_result (compile_check lib gv) (rdy_Exprs rc))"

section \<open>Polling the CEL checks\<close>

record applied_object =
  ao_Group :: string
  ao_Version :: string
  ao_Kind :: string
  ao_Namespace :: string
  ao_Name :: string

definition readyCheckInterval :: duration where
  "readyCheckInterval = 2 * Second"

text \<open>An expression that is set and evaluates to true; an absent one or an error is not true.\<close>

definition holds_on :: "('ast, 'p) cel_lib \<Rightarrow> 'p option \<Rightarrow> content \<Rightarrow> bool" where
  "holds_on lib expr cur = (case expr of None \<Rightarrow> False | Some p \<Rightarrow> EvalBool lib p cur = Some True)"

text \<open>One check over the applied objects; the pair is \<open>ready\<close> and \<open>inFlight\<close>, an error names the object.\<close>

fun poll_check ::
  "('ast, 'p) cel_lib \<Rightarrow> (applied_object \<Rightarrow> content option) \<Rightarrow> 'p compiledHealthCheck \<Rightarrow> applied_object list
   \<Rightarrow> bool \<times> bool \<Rightarrow> applied_object + bool \<times> bool" where
  "poll_check lib get c [] acc = Inr acc"
| "poll_check lib get c (o1 # os) (ready, inFlight) =
     (if ao_Group o1 \<noteq> hc_group c \<or> ao_Kind o1 \<noteq> hc_kind c then poll_check lib get c os (ready, inFlight)
      else case get o1 of
        None \<Rightarrow> poll_check lib get c os (False, inFlight)
      | Some cur \<Rightarrow>
          if holds_on lib (hc_failed c) cur then Inl o1
          else if hc_current c \<noteq> None \<and> \<not> holds_on lib (hc_current c) cur
          then poll_check lib get c os (False, inFlight \<or> holds_on lib (hc_inProgress c) cur)
          else poll_check lib get c os (ready, inFlight))"

fun poll_checks ::
  "('ast, 'p) cel_lib \<Rightarrow> (applied_object \<Rightarrow> content option) \<Rightarrow> applied_object list \<Rightarrow> 'p compiledHealthCheck list
   \<Rightarrow> bool \<times> bool \<Rightarrow> applied_object + bool \<times> bool" where
  "poll_checks lib get applied [] acc = Inr acc"
| "poll_checks lib get applied (c # cs) acc =
     bind_result (poll_check lib get c applied acc) (poll_checks lib get applied cs)"

text \<open>
  \<open>wait.PollUntilContextTimeout\<close> with \<open>immediate\<close>: the condition is asked at once and then at every tick
  before the context ends, at the latest at \<open>limit\<close>. An interrupted wait keeps what the last poll saw.
\<close>

datatype 'e poll_end = PollReady | PollError 'e | PollInterrupted bool

function poll_until ::
  "(instant \<Rightarrow> 'e + bool \<times> bool) \<Rightarrow> instant \<Rightarrow> instant \<Rightarrow> instant \<times> 'e poll_end" where
  "poll_until poll limit t =
     (case poll t of
        Inl e \<Rightarrow> (t, PollError e)
      | Inr (ready, inFlight) \<Rightarrow>
          if ready then (t, PollReady)
          else if t + readyCheckInterval < limit then poll_until poll limit (t + readyCheckInterval)
          else (max t limit, PollInterrupted inFlight))"
  by pat_completeness auto
termination
  by (relation "measure (\<lambda>(poll, limit, t). nat (limit - t))")
    (simp_all add: readyCheckInterval_def Second_def)

datatype ready_verdict =
    ExprsSatisfied
  | ExprsInvalid ready_error
  | ExprsFailed applied_object
  | ExprsProgressing
  | ExprsUnsatisfied

definition evalReadyExprs ::
  "('ast, 'p) cel_lib \<Rightarrow> group_version_parser \<Rightarrow> (instant \<Rightarrow> applied_object \<Rightarrow> content option) \<Rightarrow> Stage
   \<Rightarrow> applied_object list \<Rightarrow> instant \<Rightarrow> instant \<Rightarrow> instant \<times> ready_verdict" where
  "evalReadyExprs lib gv read stage applied limit t =
     (case compileReadyExprs lib gv stage of
        Inl e \<Rightarrow> (t, ExprsInvalid e)
      | Inr checks \<Rightarrow>
          if checks = [] then (t, ExprsSatisfied)
          else (case poll_until (\<lambda>u. poll_checks lib (read u) applied checks (True, False)) limit t of
              (u, PollReady) \<Rightarrow> (u, ExprsSatisfied)
            | (u, PollError o1) \<Rightarrow> (u, ExprsFailed o1)
            | (u, PollInterrupted progressing) \<Rightarrow> (u, if progressing then ExprsProgressing else ExprsUnsatisfied)))"

section \<open>Verifying a stage (verifystage.go)\<close>

definition deletionPollInterval :: duration where
  "deletionPollInterval = 5 * Second"

definition watch_interval :: "duration \<Rightarrow> duration" where
  "watch_interval deletionPoll = (if deletionPoll \<le> 0 then deletionPollInterval else deletionPoll)"

text \<open>
  \<open>watchForDeletion\<close>: the first of \<open>n\<close> ticks after \<open>t\<close> at which a read of the StageSet shows a deletion
  timestamp; a failing read (\<open>None\<close>) is ignored.
\<close>

fun watchForDeletion :: "(instant \<Rightarrow> bool option) \<Rightarrow> duration \<Rightarrow> nat \<Rightarrow> instant \<Rightarrow> instant option" where
  "watchForDeletion deleting iv 0 t = None"
| "watchForDeletion deleting iv (Suc n) t =
     (if deleting (t + iv) = Some True then Some (t + iv) else watchForDeletion deleting iv n (t + iv))"

record verifyOutcome =
  vo_failed :: bool
  vo_progressing :: bool
  vo_deleted :: bool

definition verified :: verifyOutcome where
  "verified = \<lparr>vo_failed = False, vo_progressing = False, vo_deleted = False\<rparr>"

definition abandoned :: verifyOutcome where
  "abandoned = \<lparr>vo_failed = False, vo_progressing = False, vo_deleted = True\<rparr>"

definition not_ready :: "bool \<Rightarrow> verifyOutcome" where
  "not_ready progressing = \<lparr>vo_failed = True, vo_progressing = progressing, vo_deleted = False\<rparr>"

text \<open>
  The kstatus wait belongs to the applier: left alone it would end after some time, with every object
  current or with a terminal failure, or never. \<open>Stalled\<close> is asked when the wait has failed.
\<close>

datatype wait_end = WaitCurrent | WaitTerminal

record ('ast, 'p) verify_env =
  ve_cel :: "('ast, 'p) cel_lib"
  ve_gv :: group_version_parser
  ve_read :: "instant \<Rightarrow> applied_object \<Rightarrow> content option"
  ve_deleting :: "instant \<Rightarrow> bool option"
  ve_deletionPoll :: duration
  ve_wait :: "(duration \<times> wait_end) option"
  ve_stalled :: "instant \<Rightarrow> bool"

text \<open>The watch outlives neither gate; each gate is given the whole timeout.\<close>

definition watch_fires :: "('ast, 'p) verify_env \<Rightarrow> duration \<Rightarrow> instant \<Rightarrow> instant option" where
  "watch_fires env timeout start =
     (let iv = watch_interval (ve_deletionPoll env)
      in watchForDeletion (ve_deleting env) iv (nat (2 * timeout div iv)) start)"

definition cut_at :: "instant option \<Rightarrow> instant \<Rightarrow> instant" where
  "cut_at fired limit = (case fired of None \<Rightarrow> limit | Some f \<Rightarrow> min f limit)"

definition fired_by :: "instant option \<Rightarrow> instant \<Rightarrow> bool" where
  "fired_by fired t = (case fired of None \<Rightarrow> False | Some f \<Rightarrow> f \<le> t)"

definition wait_gate ::
  "('ast, 'p) verify_env \<Rightarrow> instant option \<Rightarrow> duration \<Rightarrow> instant \<Rightarrow> instant \<times> bool" where
  "wait_gate env fired timeout start =
     (let limit = cut_at fired (start + timeout) in
      case ve_wait env of
        None \<Rightarrow> (limit, False)
      | Some (d, how) \<Rightarrow> if start + d < limit then (start + d, how = WaitCurrent) else (limit, False))"

definition exprs_gate ::
  "('ast, 'p) verify_env \<Rightarrow> instant option \<Rightarrow> duration \<Rightarrow> Stage \<Rightarrow> applied_object list \<Rightarrow> instant
   \<Rightarrow> instant \<times> verifyOutcome" where
  "exprs_gate env fired timeout stage objects t =
     (case evalReadyExprs (ve_cel env) (ve_gv env) (ve_read env) stage objects (cut_at fired (t + timeout)) t of
        (u, ExprsSatisfied) \<Rightarrow> (u, verified)
      | (u, v) \<Rightarrow> (u, if fired_by fired u then abandoned else not_ready (v = ExprsProgressing)))"

definition verifyStage ::
  "('ast, 'p) verify_env \<Rightarrow> Stage \<Rightarrow> obj_metadata list \<Rightarrow> applied_object list \<Rightarrow> duration \<Rightarrow> instant
   \<Rightarrow> instant \<times> verifyOutcome" where
  "verifyStage env stage waitSet objects timeout start =
     (let fired = watch_fires env timeout start in
      if waitSet = [] then exprs_gate env fired timeout stage objects start
      else (case wait_gate env fired timeout start of
          (t, True) \<Rightarrow> exprs_gate env fired timeout stage objects t
        | (t, False) \<Rightarrow> (t, if fired_by fired t then abandoned else not_ready (\<not> ve_stalled env t))))"

section \<open>What a poll sees\<close>

definition gates :: "'p compiledHealthCheck \<Rightarrow> applied_object \<Rightarrow> bool" where
  "gates c o1 \<longleftrightarrow> ao_Group o1 = hc_group c \<and> ao_Kind o1 = hc_kind c"

definition trips :: "('ast, 'p) cel_lib \<Rightarrow> (applied_object \<Rightarrow> content option) \<Rightarrow> 'p compiledHealthCheck \<Rightarrow> applied_object \<Rightarrow> bool" where
  "trips lib get c o1 \<longleftrightarrow> gates c o1 \<and> (\<exists>cur. get o1 = Some cur \<and> holds_on lib (hc_failed c) cur)"

definition is_current :: "('ast, 'p) cel_lib \<Rightarrow> (applied_object \<Rightarrow> content option) \<Rightarrow> 'p compiledHealthCheck \<Rightarrow> applied_object \<Rightarrow> bool" where
  "is_current lib get c o1 \<longleftrightarrow>
     (gates c o1 \<longrightarrow> (\<exists>cur. get o1 = Some cur \<and> (hc_current c = None \<or> holds_on lib (hc_current c) cur)))"

definition moving :: "('ast, 'p) cel_lib \<Rightarrow> (applied_object \<Rightarrow> content option) \<Rightarrow> 'p compiledHealthCheck \<Rightarrow> applied_object \<Rightarrow> bool" where
  "moving lib get c o1 \<longleftrightarrow>
     gates c o1 \<and> \<not> is_current lib get c o1 \<and> (\<exists>cur. get o1 = Some cur \<and> holds_on lib (hc_inProgress c) cur)"

lemmas poll_facts = gates_def trips_def is_current_def moving_def

lemma poll_check_Inr:
  "poll_check lib get c os (r, f) = Inr (r', f') \<Longrightarrow>
     (\<forall>o1\<in>set os. \<not> trips lib get c o1) \<and>
     (r' \<longleftrightarrow> r \<and> (\<forall>o1\<in>set os. is_current lib get c o1)) \<and>
     (f' \<longleftrightarrow> f \<or> (\<exists>o1\<in>set os. moving lib get c o1))"
  by (induction os arbitrary: r f) (auto simp: poll_facts split: if_splits option.splits)

lemma poll_check_Inl:
  "poll_check lib get c os (r, f) = Inl e \<Longrightarrow> e \<in> set os \<and> trips lib get c e"
  by (induction os arbitrary: r f) (auto simp: poll_facts split: if_splits option.splits)

lemma poll_checks_Inr:
  "poll_checks lib get os cs (r, f) = Inr (r', f') \<Longrightarrow>
     (\<forall>c\<in>set cs. \<forall>o1\<in>set os. \<not> trips lib get c o1) \<and>
     (r' \<longleftrightarrow> r \<and> (\<forall>c\<in>set cs. \<forall>o1\<in>set os. is_current lib get c o1)) \<and>
     (f' \<longleftrightarrow> f \<or> (\<exists>c\<in>set cs. \<exists>o1\<in>set os. moving lib get c o1))"
proof (induction cs arbitrary: r f)
  case (Cons c cs)
  then obtain r1 f1 where "poll_check lib get c os (r, f) = Inr (r1, f1)"
    "poll_checks lib get os cs (r1, f1) = Inr (r', f')" by (auto simp: result_simps)
  from poll_check_Inr [OF this(1)] Cons.IH [OF this(2)] show ?case by auto
qed simp

lemma poll_checks_Inl:
  "poll_checks lib get os cs (r, f) = Inl e \<Longrightarrow> e \<in> set os \<and> (\<exists>c\<in>set cs. trips lib get c e)"
proof (induction cs arbitrary: r f)
  case (Cons c cs)
  then consider "poll_check lib get c os (r, f) = Inl e" | r1 f1 where "poll_checks lib get os cs (r1, f1) = Inl e"
    by (auto simp: result_simps)
  then show ?case by cases (use poll_check_Inl Cons.IH in fastforce)+
qed simp

section \<open>Where polling ends\<close>

declare poll_until.simps [simp del]

lemma Interval_pos: "0 < readyCheckInterval"
  by (simp add: readyCheckInterval_def Second_def)

text \<open>The end of a wait: no later than its limit, and the verdict is the one of a poll made on the way.\<close>

lemma poll_until_end:
  "poll_until poll limit t = (u, fin) \<Longrightarrow>
     t \<le> u \<and> u \<le> max t limit \<and>
     (case fin of
        PollReady \<Rightarrow> \<exists>f. poll u = Inr (True, f)
      | PollError e \<Rightarrow> poll u = Inl e
      | PollInterrupted f \<Rightarrow> u = max t limit \<and> (\<exists>v. t \<le> v \<and> v \<le> u \<and> u \<le> v + readyCheckInterval \<and> poll v = Inr (False, f)))"
proof (induction poll limit t rule: poll_until.induct)
  case (1 poll limit t)
  show ?case
  proof (cases "poll t")
    case (Inl e)
    with "1.prems" show ?thesis by (auto simp: poll_until.simps [of poll limit t])
  next
    case (Inr rf)
    obtain r f where rf: "poll t = Inr (r, f)" using Inr by (cases rf) simp
    show ?thesis
    proof (cases "\<not> r \<and> t + readyCheckInterval < limit")
      case True
      with "1.prems" rf have "poll_until poll limit (t + readyCheckInterval) = (u, fin)"
        by (simp add: poll_until.simps [of poll limit t])
      with "1.IH" [OF rf refl] True Interval_pos show ?thesis
        by (cases fin) (auto, smt (verit))
    next
      case False
      with "1.prems" rf Interval_pos show ?thesis
        by (auto simp: poll_until.simps [of poll limit t] split: if_splits intro!: exI [of _ t])
    qed
  qed
qed

section \<open>The deletion watch\<close>

lemma watch_interval_pos: "0 < watch_interval p"
  by (simp add: watch_interval_def deletionPollInterval_def Second_def)

lemma watch_after: "0 < iv \<Longrightarrow> watchForDeletion deleting iv n t = Some f \<Longrightarrow> t < f \<and> deleting f = Some True"
  by (induction n arbitrary: t) (fastforce split: if_splits)+

text \<open>A deletion that reads show from \<open>d\<close> on is noticed within an interval, or the ticks run out first.\<close>

lemma watch_notices:
  assumes "0 < iv" "\<forall>u\<ge>d. deleting u = Some True" "t \<le> d"
  shows "case watchForDeletion deleting iv n t of Some f \<Rightarrow> f \<le> d + iv | None \<Rightarrow> t + int n * iv \<le> d"
  using assms(3)
proof (induction n arbitrary: t)
  case (Suc n)
  show ?case
  proof (cases "deleting (t + iv) = Some True")
    case False
    then have "t + iv < d" using assms(2) by (meson not_le)
    with Suc.IH [of "t + iv"] show ?thesis
      using False by (simp add: algebra_simps split: option.splits)
  qed (use Suc.prems in simp)
qed simp

section \<open>The two gates\<close>

lemma wait_gate_end:
  assumes "wait_gate env fired timeout start = (t, ok)" "0 \<le> timeout"
    "\<forall>d how. ve_wait env = Some (d, how) \<longrightarrow> 0 \<le> d" "\<forall>f. fired = Some f \<longrightarrow> start < f"
  shows "start \<le> t" "t \<le> cut_at fired (start + timeout)"
    "ok \<Longrightarrow> \<exists>d. ve_wait env = Some (d, WaitCurrent) \<and> d < timeout"
proof -
  have "start \<le> cut_at fired (start + timeout)"
    using assms(2,4) by (auto simp: cut_at_def split: option.splits)
  then show "start \<le> t" "t \<le> cut_at fired (start + timeout)"
    using assms(1,3) by (auto simp: wait_gate_def Let_def split: option.splits if_splits)
  show "\<exists>d. ve_wait env = Some (d, WaitCurrent) \<and> d < timeout" if ok
    using assms(1) that by (auto simp: wait_gate_def cut_at_def Let_def split: option.splits if_splits)
qed

lemma evalReadyExprs_end:
  "evalReadyExprs lib gv read stage applied limit t = (u, v) \<Longrightarrow> t \<le> u \<and> u \<le> max t limit"
  by (auto simp: evalReadyExprs_def split: sum.splits if_splits prod.splits poll_end.splits dest!: poll_until_end)

lemma exprs_gate_time:
  "fst (exprs_gate env fired timeout stage objects t) =
     fst (evalReadyExprs (ve_cel env) (ve_gv env) (ve_read env) stage objects (cut_at fired (t + timeout)) t)"
  by (auto simp: exprs_gate_def split: prod.splits ready_verdict.splits)

lemma exprs_gate_end:
  assumes "exprs_gate env fired timeout stage objects t = (u, out)" "0 \<le> timeout"
  shows "t \<le> u" "u \<le> t + timeout" "\<forall>f. fired = Some f \<and> t \<le> f \<longrightarrow> u \<le> f"
proof -
  obtain v where "evalReadyExprs (ve_cel env) (ve_gv env) (ve_read env) stage objects (cut_at fired (t + timeout)) t = (u, v)"
    using assms(1) exprs_gate_time [of env fired timeout stage objects t] by (metis fst_conv prod.collapse)
  from evalReadyExprs_end [OF this] assms(2)
  show "t \<le> u" "u \<le> t + timeout" "\<forall>f. fired = Some f \<and> t \<le> f \<longrightarrow> u \<le> f"
    by (auto simp: cut_at_def split: option.splits)
qed

text \<open>The two ways through \<open>verifyStage\<close>: stopped by the wait, or on to the CEL checks from some instant.\<close>

lemma verify_cases [consumes 1, case_names wait exprs]:
  assumes "verifyStage env stage waitSet objects timeout start = (t, out)"
  obtains
      "waitSet \<noteq> []" "wait_gate env (watch_fires env timeout start) timeout start = (t, False)"
      "out = (if fired_by (watch_fires env timeout start) t then abandoned else not_ready (\<not> ve_stalled env t))"
    | t1 where "exprs_gate env (watch_fires env timeout start) timeout stage objects t1 = (t, out)"
      "waitSet = [] \<and> t1 = start \<or> waitSet \<noteq> [] \<and> wait_gate env (watch_fires env timeout start) timeout start = (t1, True)"
  using assms that
  by (auto simp: verifyStage_def Let_def split: if_splits prod.splits bool.splits)

lemma watch_fires_after: "watch_fires env timeout start = Some f \<Longrightarrow> start < f \<and> ve_deleting env f = Some True"
  by (auto simp: watch_fires_def Let_def intro: watch_after [OF watch_interval_pos] dest!: watch_after [OF watch_interval_pos])

lemma watch_fires_soon:
  assumes "start \<le> d" "\<forall>u\<ge>d. ve_deleting env u = Some True" "0 \<le> timeout"
  shows "case watch_fires env timeout start of Some f \<Rightarrow> f \<le> d + watch_interval (ve_deletionPoll env)
    | None \<Rightarrow> start + 2 * timeout < d + watch_interval (ve_deletionPoll env)"
proof -
  let ?iv = "watch_interval (ve_deletionPoll env)" and ?n = "nat (2 * timeout div watch_interval (ve_deletionPoll env))"
  have "2 * timeout < (2 * timeout div ?iv) * ?iv + ?iv"
    using watch_interval_pos [of "ve_deletionPoll env"]
    by (metis add.commute add_strict_right_mono div_mult_mod_eq pos_mod_bound add_strict_left_mono)
  moreover have "0 \<le> 2 * timeout div ?iv"
    using assms(3) watch_interval_pos [of "ve_deletionPoll env"] by (simp add: pos_imp_zdiv_nonneg_iff)
  ultimately have "2 * timeout < int ?n * ?iv + ?iv" by simp
  with watch_notices [OF watch_interval_pos [of "ve_deletionPoll env"] assms(2,1), where n = ?n]
  show ?thesis by (auto simp: watch_fires_def Let_def split: option.splits)
qed

text \<open>What the CEL gate answers, at the time it answers.\<close>

lemma evalReadyExprs_verdict:
  assumes "compileReadyExprs lib gv stage = Inr checks"
    and "evalReadyExprs lib gv read stage objects limit t = (u, v)"
  shows "case v of
      ExprsSatisfied \<Rightarrow> \<forall>c\<in>set checks. \<forall>o1\<in>set objects. is_current lib (read u) c o1 \<and> \<not> trips lib (read u) c o1
    | ExprsFailed o1 \<Rightarrow> o1 \<in> set objects \<and> (\<exists>c\<in>set checks. trips lib (read u) c o1)
    | ExprsProgressing \<Rightarrow> \<exists>w\<ge>t. w \<le> u \<and> u \<le> w + readyCheckInterval \<and> (\<exists>c\<in>set checks. \<exists>o1\<in>set objects. moving lib (read w) c o1)
    | ExprsUnsatisfied \<Rightarrow> \<exists>w\<ge>t. w \<le> u \<and> u \<le> w + readyCheckInterval \<and>
        (\<forall>c\<in>set checks. \<forall>o1\<in>set objects. \<not> moving lib (read w) c o1) \<and>
        (\<exists>c\<in>set checks. \<exists>o1\<in>set objects. \<not> is_current lib (read w) c o1)
    | ExprsInvalid e \<Rightarrow> False"
proof (cases "checks = []")
  case False
  obtain fin where fin: "poll_until (\<lambda>w. poll_checks lib (read w) objects checks (True, False)) limit t = (u, fin)"
    using assms False by (auto simp: evalReadyExprs_def split: prod.splits poll_end.splits)
  note stop = poll_until_end [OF fin]
  show ?thesis
  proof (cases fin)
    case PollReady
    then obtain f where "poll_checks lib (read u) objects checks (True, False) = Inr (True, f)" using stop by auto
    from poll_checks_Inr [OF this] PollReady fin assms False show ?thesis by (auto simp: evalReadyExprs_def)
  next
    case (PollError e)
    then have "poll_checks lib (read u) objects checks (True, False) = Inl e" using stop by simp
    from poll_checks_Inl [OF this] PollError fin assms False show ?thesis by (auto simp: evalReadyExprs_def)
  next
    case (PollInterrupted f)
    then obtain w where w: "t \<le> w" "w \<le> u" "u \<le> w + readyCheckInterval"
      "poll_checks lib (read w) objects checks (True, False) = Inr (False, f)" using stop by auto
    from poll_checks_Inr [OF w(4)] w(1-3) PollInterrupted fin assms False show ?thesis
      by (cases f) (auto simp: evalReadyExprs_def)
  qed
qed (use assms in \<open>auto simp: evalReadyExprs_def\<close>)

lemma fired_by_deletion:
  "fired_by (watch_fires env timeout start) t \<Longrightarrow> \<exists>f. start < f \<and> f \<le> t \<and> ve_deleting env f = Some True"
  by (cases "watch_fires env timeout start") (auto simp: fired_by_def dest: watch_fires_after)

section \<open>Properties\<close>

text \<open>How long verifying a stage may park its worker. Each of the two gates is given the whole stage
  timeout, so the end is within twice the timeout (within one when the stage applies nothing to wait
  for); and a StageSet that is being deleted, as reads show from some time on, stops the wait within one
  poll of the deletion watch.\<close>

theorem verify_bounds:
  assumes "0 \<le> timeout" "\<forall>d how. ve_wait env = Some (d, how) \<longrightarrow> 0 \<le> d"
    and "verifyStage env stage waitSet objects timeout start = (t, out)"
  shows "start \<le> t \<and> t \<le> start + 2 * timeout \<and> (waitSet = [] \<longrightarrow> t \<le> start + timeout) \<and>
    (\<forall>d. start \<le> d \<and> (\<forall>u\<ge>d. ve_deleting env u = Some True) \<longrightarrow> t \<le> d + watch_interval (ve_deletionPoll env))"
proof -
  let ?fired = "watch_fires env timeout start"
  have after: "\<forall>f. ?fired = Some f \<longrightarrow> start < f" using watch_fires_after by blast
  have time: "start \<le> t \<and> t \<le> start + 2 * timeout \<and> (waitSet = [] \<longrightarrow> t \<le> start + timeout) \<and> (\<forall>f. ?fired = Some f \<longrightarrow> t \<le> f)"
    using assms(3)
  proof (cases rule: verify_cases)
    case wait
    from wait_gate_end(1,2) [OF wait(2) assms(1,2) after] assms(1) wait(1) show ?thesis
      by (auto simp: cut_at_def split: option.splits)
  next
    case (exprs t1)
    have t1: "start \<le> t1 \<and> t1 \<le> start + timeout \<and> (\<forall>f. ?fired = Some f \<longrightarrow> t1 \<le> f)"
      using exprs(2) wait_gate_end(1,2) [OF _ assms(1,2) after, of t1 True] after assms(1)
      by (auto simp: cut_at_def split: option.splits)
    from exprs_gate_end [OF exprs(1) assms(1)] t1 exprs(2) show ?thesis by auto
  qed
  have "t \<le> d + watch_interval (ve_deletionPoll env)"
    if "start \<le> d" "\<forall>u\<ge>d. ve_deleting env u = Some True" for d
    using watch_fires_soon [OF that assms(1)] time by (auto split: option.splits)
  with time show ?thesis by blast
qed

text \<open>C29: the verdict on a stage is grounded in what was read. With compiled checks there are three outcomes.
  Ready: the wait saw every object current, and at the end every applied object a check gates was read,
  its Current expression held and its Failed expression did not. Abandoned: a read of the StageSet
  showed its deletion. Not ready: it is held as progressing only when the wait found nothing terminally
  failed or, in the last poll, an object that was not current said it was in progress; it fails only
  when something is terminally failed, a Failed expression holds, or the time ran out with an object not
  current and none saying so.\<close>

theorem verify_verdict:
  assumes "compileReadyExprs (ve_cel env) (ve_gv env) stage = Inr checks"
    and "verifyStage env stage waitSet objects timeout start = (t, out)"
  shows "out = verified \<and> (waitSet = [] \<or> (\<exists>d. ve_wait env = Some (d, WaitCurrent) \<and> d < timeout)) \<and>
      (\<forall>c\<in>set checks. \<forall>o1\<in>set objects. is_current (ve_cel env) (ve_read env t) c o1 \<and> \<not> trips (ve_cel env) (ve_read env t) c o1)
    \<or> out = abandoned \<and> (\<exists>f. start < f \<and> f \<le> t \<and> ve_deleting env f = Some True)
    \<or> out = not_ready True \<and> (waitSet \<noteq> [] \<and> \<not> ve_stalled env t
        \<or> (\<exists>w\<le>t. t \<le> w + readyCheckInterval \<and> (\<exists>c\<in>set checks. \<exists>o1\<in>set objects. moving (ve_cel env) (ve_read env w) c o1)))
    \<or> out = not_ready False \<and> (waitSet \<noteq> [] \<and> ve_stalled env t
        \<or> (\<exists>c\<in>set checks. \<exists>o1\<in>set objects. trips (ve_cel env) (ve_read env t) c o1)
        \<or> (\<exists>w\<le>t. t \<le> w + readyCheckInterval \<and> (\<forall>c\<in>set checks. \<forall>o1\<in>set objects. \<not> moving (ve_cel env) (ve_read env w) c o1)
            \<and> (\<exists>c\<in>set checks. \<exists>o1\<in>set objects. \<not> is_current (ve_cel env) (ve_read env w) c o1)))"
  using assms(2)
proof (cases rule: verify_cases)
  case wait
  show ?thesis
  proof (cases "fired_by (watch_fires env timeout start) t")
    case True
    with wait(3) fired_by_deletion [OF True] show ?thesis by simp
  next
    case False
    with wait show ?thesis by (cases "ve_stalled env t") simp_all
  qed
next
  case (exprs t1)
  let ?fired = "watch_fires env timeout start"
  obtain v where v: "evalReadyExprs (ve_cel env) (ve_gv env) (ve_read env) stage objects (cut_at ?fired (t1 + timeout)) t1 = (t, v)"
    using exprs(1) exprs_gate_time [of env ?fired timeout stage objects t1] by (metis fst_conv prod.collapse)
  have out: "out = (if v = ExprsSatisfied then verified else if fired_by ?fired t then abandoned else not_ready (v = ExprsProgressing))"
    using exprs(1) v by (auto simp: exprs_gate_def split: ready_verdict.splits)
  note deleted = fired_by_deletion [of env timeout start t]
  have waited: "waitSet = [] \<or> (\<exists>d. ve_wait env = Some (d, WaitCurrent) \<and> d < timeout)"
    using exprs(2) by (auto simp: wait_gate_def cut_at_def Let_def split: option.splits if_splits)
  note verdict = evalReadyExprs_verdict [OF assms(1) v]
  show ?thesis
  proof (cases "v \<noteq> ExprsSatisfied \<and> fired_by ?fired t")
    case True
    with out deleted show ?thesis by simp
  next
    case False
    show ?thesis
    proof (cases v)
      case ExprsSatisfied
      with verdict out waited show ?thesis by simp
    next
      case (ExprsInvalid e)
      with verdict show ?thesis by simp
    next
      case (ExprsFailed o1)
      with False out have "out = not_ready False" by simp
      moreover have "\<exists>c\<in>set checks. \<exists>o1\<in>set objects. trips (ve_cel env) (ve_read env t) c o1"
        using verdict ExprsFailed by auto
      ultimately show ?thesis by simp
    next
      case ExprsProgressing
      with False out have "out = not_ready True" by simp
      moreover have "\<exists>w\<le>t. t \<le> w + readyCheckInterval \<and> (\<exists>c\<in>set checks. \<exists>o1\<in>set objects. moving (ve_cel env) (ve_read env w) c o1)"
        using verdict ExprsProgressing by auto
      ultimately show ?thesis by simp
    next
      case ExprsUnsatisfied
      with False out have "out = not_ready False" by simp
      moreover have "\<exists>w\<le>t. t \<le> w + readyCheckInterval \<and> (\<forall>c\<in>set checks. \<forall>o1\<in>set objects. \<not> moving (ve_cel env) (ve_read env w) c o1)
          \<and> (\<exists>c\<in>set checks. \<exists>o1\<in>set objects. \<not> is_current (ve_cel env) (ve_read env w) c o1)"
        using verdict ExprsUnsatisfied by auto
      ultimately show ?thesis by simp
    qed
  qed
qed

text \<open>
  A stage with one check on its \<open>Widget\<close>: a program is its own source, and it holds on an object whose
  \<open>kind\<close> field says so. The wait is over after nine seconds of ten; the object then never gets ready.
\<close>

definition demo_cel :: "(string, string) cel_lib" where
  "demo_cel = \<lparr>cel_compile = Some, cel_type = (\<lambda>_. ''bool''), cel_program = (\<lambda>p _. Some p),
     cel_eval = (\<lambda>p a. Some (CelBool (av_kind a = p)))\<rparr>"

definition demo_checked :: Stage where
  "demo_checked = (plain_stage ''db'')\<lparr>stg_ReadyChecks := Some \<lparr>rdy_Timeout = None, rdy_DisableWait = False,
     rdy_Checks = [], rdy_Exprs = [\<lparr>chc_APIVersion = ''v1'', chc_Kind = ''Widget'', chc_Current = ''up'',
       chc_InProgress = ''coming'', chc_Failed = ''down''\<rparr>]\<rparr>\<rparr>"

definition demo_verify :: "string \<Rightarrow> (string, string) verify_env" where
  "demo_verify kind = \<lparr>ve_cel = demo_cel, ve_gv = (\<lambda>v. Some ([], v)),
     ve_read = (\<lambda>_ _. Some [''kind'' \<mapsto> JString kind]), ve_deleting = (\<lambda>_. Some False), ve_deletionPoll = 0,
     ve_wait = Some (9 * Second, WaitCurrent), ve_stalled = (\<lambda>_. False)\<rparr>"

definition demo_objects :: "applied_object list" where
  "demo_objects = [\<lparr>ao_Group = [], ao_Version = ''v1'', ao_Kind = ''Widget'', ao_Namespace = ''ns'', ao_Name = ''w''\<rparr>]"

definition demo_wait_set :: "obj_metadata list" where
  "demo_wait_set = [\<lparr>om_Namespace = ''ns'', om_Name = ''w'', om_Group = [], om_Kind = ''Widget''\<rparr>]"

lemma demo_eval: "EvalBool demo_cel p [''kind'' \<mapsto> JString k] = Some (k = p)"
  by (simp add: EvalBool_def demo_cel_def asString_def)

lemma demo_verify_runs:
  "verifyStage (demo_verify ''coming'') demo_checked demo_wait_set demo_objects (10 * Second) 0 = (19 * Second, not_ready True)"
  by code_simp

text \<open>The bound of twice the timeout is not slack: this wait takes nineteen of ten seconds.\<close>

theorem verify_bounds_witness:
  "\<exists>t out. verifyStage (demo_verify ''coming'') demo_checked demo_wait_set demo_objects (10 * Second) 0 = (t, out) \<and>
     t \<le> 20 * Second \<and> 10 * Second < t"
proof -
  have "0 \<le> 10 * Second" "\<forall>d how. ve_wait (demo_verify ''coming'') = Some (d, how) \<longrightarrow> 0 \<le> d"
    by (simp_all add: demo_verify_def Second_def)
  from verify_bounds [OF this demo_verify_runs] show ?thesis
    using demo_verify_runs by (auto simp: Second_def)
qed

theorem verify_verdict_witness:
  "\<exists>c o1. c \<in> set [\<lparr>hc_group = [], hc_kind = ''Widget'', hc_current = Some ''up'', hc_inProgress = Some ''coming'',
       hc_failed = Some ''down''\<rparr>] \<and> o1 \<in> set demo_objects \<and> trips demo_cel (ve_read (demo_verify ''down'') (9 * Second)) c o1"
proof -
  have compiled: "compileReadyExprs (ve_cel (demo_verify ''down'')) (ve_gv (demo_verify ''down'')) demo_checked =
      Inr [\<lparr>hc_group = [], hc_kind = ''Widget'', hc_current = Some ''up'', hc_inProgress = Some ''coming'', hc_failed = Some ''down''\<rparr>]"
    by code_simp
  have runs: "verifyStage (demo_verify ''down'') demo_checked demo_wait_set demo_objects (10 * Second) 0 = (9 * Second, not_ready False)"
    by code_simp
  show ?thesis
    using verify_verdict [OF compiled runs]
    by (auto simp: verified_def abandoned_def not_ready_def demo_verify_def poll_facts holds_on_def demo_eval)
qed

end
