(* ===== verification/Admission.thy ===== *)
theory Admission
  imports Transitions Preflight Window Dependencies ReadyChecks
begin

text \<open>
  Spec validation (\<open>internal/controller/webhook.go\<close>): what the admission webhook and the reconciler's
  fallback refuse, in the source's order. An error is a constructor with the names the message shows.
  Parsing of versions, numbers, label selectors, CEL expressions and windows is the library's; the
  parameter \<open>admission_env\<close> holds it.
\<close>

section \<open>Errors and parameters\<close>

datatype spec_error =
    StageNameNotUnique string
  | ProducerNeedsAPIVersion string
  | NotOneVerb string string
  | UnnamedAction string
  | DuplicateActionName string string
  | ScopeNotAllowed string string
  | VersionScopeUnversioned string string
  | AnchorNeedsLifetime string string
  | AnchorIncomplete string string
  | MigrationsAndSource
  | MigrationsNeedVersion
  | CrossNamespaceMigrations
  | AnchorCollision string
  | LadderInvalid ladder_error
  | UnknownAnchor string
  | NotOneVersionSource
  | UnknownDecryptionProvider
  | UnnamedDecryptionSecret
  | NotOneKubeConfig
  | UnnamedKubeConfig
  | NotOneMetricProvider
  | MetricFieldMissing
  | NotANumber string
  | ResumeBelowFreezeThreshold
  | UnknownPolicy string
  | FastTrackWithoutSoak string
  | NoChecks string
  | UnnamedCheck string
  | DuplicateCheck string string
  | BadSelector string string
  | NoReasons string string
  | NoThreshold string string
  | ReadyCheckIncomplete string
  | ReadyExprInvalid string ready_error
  | DependencyUnnamed
  | DependencyMinVersion string
  | WindowInvalid window_error

record ('v, 'f, 'ast, 'p, 'loc, 'sched) admission_env =
  ae_semver :: "'v semver"
  ae_ParseFloat :: "string \<Rightarrow> 'f option"
  ae_selector :: "label_selector \<Rightarrow> selector_parse"
  ae_cel :: "('ast, 'p) cel_lib"
  ae_gv :: group_version_parser
  ae_clock :: "('loc, 'sched) clock_lib"
  ae_now :: instant

text \<open>
  A loop that refuses repeated keys: \<open>chk\<close> sees the keys of the elements before, and the key of an
  accepted element is remembered.
\<close>

fun check_seen :: "('k list \<Rightarrow> 'a \<Rightarrow> 'e + unit) \<Rightarrow> ('a \<Rightarrow> 'k) \<Rightarrow> 'k list \<Rightarrow> 'a list \<Rightarrow> 'e + unit" where
  "check_seen chk key seen [] = Inr ()"
| "check_seen chk key seen (x # xs) = bind_result (chk seen x) (\<lambda>_. check_seen chk key (key x # seen) xs)"

lemma check_seen_iff:
  assumes "\<And>x seen. chk seen x = Inr () \<longleftrightarrow> P x \<and> key x \<notin> set seen"
  shows "check_seen chk key seen xs = Inr () \<longleftrightarrow>
    (\<forall>x\<in>set xs. P x) \<and> distinct (map key xs) \<and> set (map key xs) \<inter> set seen = {}"
  by (induction xs arbitrary: seen) (auto simp: result_simps assms)

section \<open>Stages and their actions\<close>

datatype action_phase = PrePhase | PostPhase | OnFailurePhase

definition validateActionScope :: "string \<Rightarrow> action_phase \<Rightarrow> Action \<Rightarrow> bool \<Rightarrow> spec_error + unit" where
  "validateActionScope stage phase a versioned =
     (if act_Scope a \<noteq> ScopeUnset \<and> phase = OnFailurePhase then Inl (ScopeNotAllowed stage (act_Name a))
      else if act_Scope a = ScopeVersion \<and> \<not> versioned then Inl (VersionScopeUnversioned stage (act_Name a))
      else (case act_CompletionAnchor a of
          None \<Rightarrow> Inr ()
        | Some ca \<Rightarrow>
            if act_Scope a \<noteq> ScopeLifetime then Inl (AnchorNeedsLifetime stage (act_Name a))
            else if ca_APIVersion ca = [] \<or> ca_Kind ca = [] \<or> ca_Name ca = []
            then Inl (AnchorIncomplete stage (act_Name a))
            else Inr ()))"

definition validate_stage_action :: "string \<Rightarrow> bool \<Rightarrow> string list \<Rightarrow> action_phase \<times> Action \<Rightarrow> spec_error + unit" where
  "validate_stage_action stage versioned seen pa =
     (let (phase, a) = pa in
      if VerbCount a \<noteq> 1 then Inl (NotOneVerb stage (act_Name a))
      else if act_Name a = [] then Inl (UnnamedAction stage)
      else if act_Name a \<in> set seen then Inl (DuplicateActionName stage (act_Name a))
      else validateActionScope stage phase a versioned)"

text \<open>The three phases of a stage in order; they share one set of seen names.\<close>

definition phased_actions :: "StageActions \<Rightarrow> (action_phase \<times> Action) list" where
  "phased_actions sa =
     map (Pair PrePhase) (sact_Pre sa) @ map (Pair PostPhase) (sact_Post sa) @
     map (Pair OnFailurePhase) (sact_OnFailure sa)"

definition validate_stage :: "bool \<Rightarrow> Stage \<Rightarrow> spec_error + unit" where
  "validate_stage versioned stage =
     (if IsProducerRef (stg_SourceRef stage) \<and> src_APIVersion (stg_SourceRef stage) = []
      then Inl (ProducerNeedsAPIVersion (stg_Name stage))
      else (case stg_Actions stage of
          None \<Rightarrow> Inr ()
        | Some sa \<Rightarrow> check_seen (validate_stage_action (stg_Name stage) versioned) (\<lambda>pa. act_Name (snd pa)) []
            (phased_actions sa)))"

definition validate_rollback_action :: "string list \<Rightarrow> Action \<Rightarrow> spec_error + unit" where
  "validate_rollback_action seen a =
     (if VerbCount a \<noteq> 1 then Inl (NotOneVerb [] (act_Name a))
      else if act_Name a = [] then Inl (UnnamedAction [])
      else if act_Name a \<in> set seen then Inl (DuplicateActionName [] (act_Name a))
      else if act_Scope a \<noteq> ScopeUnset then Inl (ScopeNotAllowed [] (act_Name a))
      else if act_CompletionAnchor a \<noteq> None then Inl (AnchorNeedsLifetime [] (act_Name a))
      else Inr ())"

definition unique_stage_name :: "string list \<Rightarrow> Stage \<Rightarrow> spec_error + unit" where
  "unique_stage_name seen stage =
     (if stg_Name stage \<in> set seen then Inl (StageNameNotUnique (stg_Name stage)) else Inr ())"

definition ValidateStages :: "StageSetSpec \<Rightarrow> spec_error + unit" where
  "ValidateStages sp =
     bind_result (check_seen unique_stage_name stg_Name [] (spec_Stages sp)) (\<lambda>_.
     bind_result (check_all (validate_stage (spec_Version sp \<noteq> None)) (spec_Stages sp)) (\<lambda>_.
     check_seen validate_rollback_action act_Name [] (spec_OnRollback sp)))"

section \<open>Migrations, version, decryption, kubeconfig\<close>

definition isCrossNamespaceRef :: "SourceReference \<Rightarrow> string \<Rightarrow> bool" where
  "isCrossNamespaceRef ref ownerNS \<longleftrightarrow> src_Namespace ref \<noteq> [] \<and> src_Namespace ref \<noteq> ownerNS"

text \<open>The loop over the anchor keys returns the keys it has seen.\<close>

fun anchor_keys :: "string list \<Rightarrow> Stage list \<Rightarrow> spec_error + string list" where
  "anchor_keys seen [] = Inr seen"
| "anchor_keys seen (st # stages) =
     (if stg_Name st \<in> set seen then Inl (AnchorCollision (stg_Name st))
      else if stg_MigrationAnchor st = [] then anchor_keys (stg_Name st # seen) stages
      else if stg_MigrationAnchor st \<in> set (stg_Name st # seen) then Inl (AnchorCollision (stg_MigrationAnchor st))
      else anchor_keys (stg_MigrationAnchor st # stg_Name st # seen) stages)"

definition validateMigrations :: "'v semver \<Rightarrow> string \<Rightarrow> StageSetSpec \<Rightarrow> spec_error + unit" where
  "validateMigrations sv ns sp =
     (if spec_Migrations sp \<noteq> [] \<and> spec_MigrationsSourceRef sp \<noteq> None then Inl MigrationsAndSource
      else if spec_Migrations sp = [] \<and> spec_MigrationsSourceRef sp = None then Inr ()
      else if spec_Version sp = None then Inl MigrationsNeedVersion
      else if (case spec_MigrationsSourceRef sp of None \<Rightarrow> False | Some m \<Rightarrow> isCrossNamespaceRef (msrc_SourceRef m) ns)
      then Inl CrossNamespaceMigrations
      else bind_result (anchor_keys [] (spec_Stages sp)) (\<lambda>anchors.
        if spec_MigrationsSourceRef sp \<noteq> None then Inr ()
        else (case ValidateLadder sv (spec_Migrations sp) of
            Inl e \<Rightarrow> Inl (LadderInvalid e)
          | Inr _ \<Rightarrow> check_all (\<lambda>m. require (mig_Stage m = [] \<or> mig_Stage m \<in> set anchors) (UnknownAnchor (mig_Name m)))
              (spec_Migrations sp))))"

definition validateVersion :: "StageSetSpec \<Rightarrow> spec_error + unit" where
  "validateVersion sp =
     (case spec_Version sp of
        None \<Rightarrow> Inr ()
      | Some v \<Rightarrow> require (length (filter (\<lambda>set. set)
          [vs_Value v \<noteq> [], vs_FromObject v \<noteq> None, vs_FromArtifact v \<noteq> None]) = 1) NotOneVersionSource)"

definition validateDecryption :: "StageSetSpec \<Rightarrow> spec_error + unit" where
  "validateDecryption sp =
     (case spec_Decryption sp of
        None \<Rightarrow> Inr ()
      | Some d \<Rightarrow>
          if dec_Provider d \<noteq> ''sops'' then Inl UnknownDecryptionProvider
          else if dec_SecretRef d = Some [] then Inl UnnamedDecryptionSecret
          else Inr ())"

definition validateKubeConfig :: "StageSetSpec \<Rightarrow> spec_error + unit" where
  "validateKubeConfig sp =
     (case spec_KubeConfig sp of
        None \<Rightarrow> Inr ()
      | Some kc \<Rightarrow> (case (kc_SecretRef kc, kc_ConfigMapRef kc) of
            (Some _, Some _) \<Rightarrow> Inl NotOneKubeConfig
          | (None, None) \<Rightarrow> Inl NotOneKubeConfig
          | (Some s, None) \<Rightarrow> require (fst s \<noteq> []) UnnamedKubeConfig
          | (None, Some c) \<Rightarrow> require (c \<noteq> []) UnnamedKubeConfig))"

section \<open>Metric sources, budgets and promotion\<close>

text \<open>Numbers are what \<open>strconv.ParseFloat\<close> accepts, in their order (NaN, which has none, aside).\<close>

definition parseThresholdValue :: "(string \<Rightarrow> 'f option) \<Rightarrow> string \<Rightarrow> spec_error + 'f" where
  "parseThresholdValue parse s = (case parse s of None \<Rightarrow> Inl (NotANumber s) | Some v \<Rightarrow> Inr v)"

definition validateMetricSource :: "MetricSource \<Rightarrow> spec_error + unit" where
  "validateMetricSource src =
     (if length (filter (\<lambda>set. set) [ms_Prometheus src \<noteq> None, ms_Webhook src \<noteq> None]) \<noteq> 1
      then Inl NotOneMetricProvider
      else bind_result
        (case ms_Prometheus src of
           None \<Rightarrow> Inr ()
         | Some p \<Rightarrow> require (prs_Address p \<noteq> [] \<and> prs_Query p \<noteq> [] \<and> prs_SecretRef p \<noteq> Some []) MetricFieldMissing)
        (\<lambda>_. case ms_Webhook src of
           None \<Rightarrow> Inr ()
         | Some w \<Rightarrow> require (whs_URL w \<noteq> [] \<and> whs_JSONPath w \<noteq> [] \<and> whs_SecretRef w \<noteq> Some []) MetricFieldMissing))"

definition one_of :: "string list \<Rightarrow> string \<Rightarrow> spec_error + unit" where
  "one_of allowed s = require (s \<in> set allowed) (UnknownPolicy s)"

definition validateBudget :: "(string \<Rightarrow> 'f :: linorder option) \<Rightarrow> ErrorBudget option \<Rightarrow> spec_error + unit" where
  "validateBudget parse budget =
     (case budget of
        None \<Rightarrow> Inr ()
      | Some eb \<Rightarrow>
          bind_result (validateMetricSource (eb_Source eb)) (\<lambda>_.
          bind_result (parseThresholdValue parse (eb_FreezeThreshold eb)) (\<lambda>freeze.
          bind_result
            (if eb_ResumeThreshold eb = [] then Inr ()
             else bind_result (parseThresholdValue parse (eb_ResumeThreshold eb))
               (\<lambda>resume. if resume < freeze then Inl ResumeBelowFreezeThreshold else Inr ())) (\<lambda>_.
          one_of ['''', ''Allow'', ''Hold''] (eb_OnSourceError eb)))))"

definition validateErrorBudget :: "(string \<Rightarrow> 'f :: linorder option) \<Rightarrow> StageSetSpec \<Rightarrow> spec_error + unit" where
  "validateErrorBudget parse sp =
     bind_result (validateBudget parse (spec_ErrorBudget sp)) (\<lambda>_.
       check_all (\<lambda>st. validateBudget parse (stg_ErrorBudget st)) (spec_Stages sp))"

definition on_failure_policies :: "string list" where
  "on_failure_policies = ['''', ''Hold'', ''Rollback'']"

definition validate_fast_track :: "(string \<Rightarrow> 'f option) \<Rightarrow> string \<Rightarrow> StagePromotion \<Rightarrow> spec_error + unit" where
  "validate_fast_track parse stage prm =
     (case prm_FastTrack prm of
        None \<Rightarrow> Inr ()
      | Some ft \<Rightarrow>
          if (case prm_Soak prm of None \<Rightarrow> True | Some d \<Rightarrow> d \<le> 0) then Inl (FastTrackWithoutSoak stage)
          else bind_result (validateMetricSource (ft_Source ft)) (\<lambda>_.
            bind_result (parseThresholdValue parse (ft_Max ft)) (\<lambda>_. Inr ())))"

text \<open>The checks of the restart and of the event gate: a name of their own and a selector that selects.\<close>

definition validate_selector_check ::
  "(label_selector \<Rightarrow> selector_parse) \<Rightarrow> string \<Rightarrow> string list \<Rightarrow> string \<Rightarrow> label_selector \<Rightarrow> spec_error + unit" where
  "validate_selector_check sel stage seen name ls =
     (if name = [] then Inl (UnnamedCheck stage)
      else if name \<in> set seen then Inl (DuplicateCheck stage name)
      else case sel ls of SelectorOf _ \<Rightarrow> Inr () | _ \<Rightarrow> Inl (BadSelector stage name))"

definition validate_restart_check ::
  "(label_selector \<Rightarrow> selector_parse) \<Rightarrow> string \<Rightarrow> string list \<Rightarrow> RestartCheck \<Rightarrow> spec_error + unit" where
  "validate_restart_check sel stage seen c =
     bind_result (validate_selector_check sel stage seen (rc_Name c) (rc_Selector c))
       (\<lambda>_. one_of on_failure_policies (rc_OnFailure c))"

definition validate_restart_gate ::
  "(label_selector \<Rightarrow> selector_parse) \<Rightarrow> string \<Rightarrow> StagePromotion \<Rightarrow> spec_error + unit" where
  "validate_restart_gate sel stage prm =
     (case prm_RestartGate prm of
        None \<Rightarrow> Inr ()
      | Some rg \<Rightarrow>
          bind_result (one_of on_failure_policies (rg_OnFailure rg)) (\<lambda>_.
            if rg_Checks rg = [] then Inl (NoChecks stage)
            else check_seen (validate_restart_check sel stage) rc_Name [] (rg_Checks rg)))"

definition validate_event_check ::
  "(label_selector \<Rightarrow> selector_parse) \<Rightarrow> string \<Rightarrow> string list \<Rightarrow> EventCheck \<Rightarrow> spec_error + unit" where
  "validate_event_check sel stage seen c =
     bind_result (validate_selector_check sel stage seen (ec_Name c) (ec_Selector c)) (\<lambda>_.
       if ec_Reasons c = [] then Inl (NoReasons stage (ec_Name c))
       else one_of on_failure_policies (ec_OnFailure c))"

definition validate_event_gate ::
  "(label_selector \<Rightarrow> selector_parse) \<Rightarrow> string \<Rightarrow> StagePromotion \<Rightarrow> spec_error + unit" where
  "validate_event_gate sel stage prm =
     (case prm_EventGate prm of
        None \<Rightarrow> Inr ()
      | Some eg \<Rightarrow>
          bind_result (one_of on_failure_policies (eg_OnFailure eg)) (\<lambda>_.
            if eg_Checks eg = [] then Inl (NoChecks stage)
            else check_seen (validate_event_check sel stage) ec_Name [] (eg_Checks eg)))"

definition validateThresholdBounds :: "(string \<Rightarrow> 'f option) \<Rightarrow> string \<Rightarrow> AnalysisCheck \<Rightarrow> spec_error + unit" where
  "validateThresholdBounds parse stage c =
     (if thr_Min (ac_Threshold c) = None \<and> thr_Max (ac_Threshold c) = None then Inl (NoThreshold stage (ac_Name c))
      else bind_result
        (case thr_Min (ac_Threshold c) of None \<Rightarrow> Inr () | Some s \<Rightarrow> bind_result (parseThresholdValue parse s) (\<lambda>_. Inr ()))
        (\<lambda>_. case thr_Max (ac_Threshold c) of None \<Rightarrow> Inr () | Some s \<Rightarrow> bind_result (parseThresholdValue parse s) (\<lambda>_. Inr ())))"

definition validate_analysis_check ::
  "(string \<Rightarrow> 'f option) \<Rightarrow> string \<Rightarrow> string list \<Rightarrow> AnalysisCheck \<Rightarrow> spec_error + unit" where
  "validate_analysis_check parse stage seen c =
     (if ac_Name c = [] then Inl (UnnamedCheck stage)
      else if ac_Name c \<in> set seen then Inl (DuplicateCheck stage (ac_Name c))
      else bind_result (validateMetricSource (ac_Source c)) (\<lambda>_. validateThresholdBounds parse stage c))"

definition validate_analysis :: "(string \<Rightarrow> 'f option) \<Rightarrow> string \<Rightarrow> StagePromotion \<Rightarrow> spec_error + unit" where
  "validate_analysis parse stage prm =
     (case prm_Analysis prm of
        None \<Rightarrow> Inr ()
      | Some an \<Rightarrow>
          if an_Checks an = [] then Inl (NoChecks stage)
          else bind_result (check_seen (validate_analysis_check parse stage) ac_Name [] (an_Checks an)) (\<lambda>_.
            bind_result (one_of on_failure_policies (an_OnFailure an)) (\<lambda>_.
            one_of ['''', ''Hold'', ''Allow''] (an_OnSourceError an))))"

definition validate_stage_promotion ::
  "(string \<Rightarrow> 'f option) \<Rightarrow> (label_selector \<Rightarrow> selector_parse) \<Rightarrow> Stage \<Rightarrow> spec_error + unit" where
  "validate_stage_promotion parse sel st =
     (case stg_Promotion st of
        None \<Rightarrow> Inr ()
      | Some prm \<Rightarrow>
          bind_result (validate_fast_track parse (stg_Name st) prm) (\<lambda>_.
          bind_result (validate_restart_gate sel (stg_Name st) prm) (\<lambda>_.
          bind_result (validate_event_gate sel (stg_Name st) prm) (\<lambda>_.
          validate_analysis parse (stg_Name st) prm))))"

definition validatePromotion ::
  "(string \<Rightarrow> 'f option) \<Rightarrow> (label_selector \<Rightarrow> selector_parse) \<Rightarrow> StageSetSpec \<Rightarrow> spec_error + unit" where
  "validatePromotion parse sel sp = check_all (validate_stage_promotion parse sel) (spec_Stages sp)"

section \<open>Ready checks, timeouts, dependencies and the whole spec\<close>

definition validate_stage_ready_checks ::
  "('ast, 'p) cel_lib \<Rightarrow> group_version_parser \<Rightarrow> Stage \<Rightarrow> spec_error + unit" where
  "validate_stage_ready_checks cel gv st =
     (case stg_ReadyChecks st of
        None \<Rightarrow> Inr ()
      | Some rc \<Rightarrow>
          bind_result (check_all (\<lambda>ref. require (okr_Kind ref \<noteq> [] \<and> okr_Name ref \<noteq> []) (ReadyCheckIncomplete (stg_Name st)))
              (rdy_Checks rc)) (\<lambda>_.
            case compileReadyExprs cel gv st of
              Inl e \<Rightarrow> Inl (ReadyExprInvalid (stg_Name st) e)
            | Inr _ \<Rightarrow> Inr ()))"

definition validateReadyChecks ::
  "('ast, 'p) cel_lib \<Rightarrow> group_version_parser \<Rightarrow> StageSetSpec \<Rightarrow> spec_error + unit" where
  "validateReadyChecks cel gv sp = check_all (validate_stage_ready_checks cel gv) (spec_Stages sp)"

definition validateOnTimeout :: "StageSetSpec \<Rightarrow> spec_error + unit" where
  "validateOnTimeout sp =
     bind_result (one_of on_failure_policies (spec_OnTimeout sp)) (\<lambda>_.
       check_all (\<lambda>st. one_of on_failure_policies (stg_OnTimeout st)) (spec_Stages sp))"

definition validate_dependency :: "'v semver \<Rightarrow> Dependency \<Rightarrow> spec_error + unit" where
  "validate_dependency sv dep =
     (if dep_Name dep = [] then Inl DependencyUnnamed
      else if dep_MinVersion dep \<noteq> [] \<and> sv_NewVersion sv (dep_MinVersion dep) = None
      then Inl (DependencyMinVersion (dep_Name dep))
      else Inr ())"

definition validateDependsOn :: "'v semver \<Rightarrow> StageSetSpec \<Rightarrow> spec_error + unit" where
  "validateDependsOn sv sp = check_all (validate_dependency sv) (spec_DependsOn sp)"

definition ValidateSpec ::
  "('v, 'f :: linorder, 'ast, 'p, 'loc, 'sched) admission_env \<Rightarrow> StageSet \<Rightarrow> spec_error + unit" where
  "ValidateSpec env ss =
     (let sp = set_Spec ss in
      bind_result (ValidateStages sp) (\<lambda>_.
      bind_result (validateMigrations (ae_semver env) (set_Namespace ss) sp) (\<lambda>_.
      bind_result (validateVersion sp) (\<lambda>_.
      bind_result (validateDecryption sp) (\<lambda>_.
      bind_result (validateKubeConfig sp) (\<lambda>_.
      bind_result (validateErrorBudget (ae_ParseFloat env) sp) (\<lambda>_.
      bind_result (validatePromotion (ae_ParseFloat env) (ae_selector env) sp) (\<lambda>_.
      bind_result (validateReadyChecks (ae_cel env) (ae_gv env) sp) (\<lambda>_.
      bind_result (validateOnTimeout sp) (\<lambda>_.
      bind_result (validateDependsOn (ae_semver env) sp) (\<lambda>_.
      case Validate (ae_clock env) (ae_now env) (spec_UpdateWindows sp) of
        None \<Rightarrow> Inr ()
      | Some e \<Rightarrow> Inl (WindowInvalid e))))))))))))"

section \<open>The webhook\<close>

definition ValidateCreate ::
  "('v, 'f :: linorder, 'ast, 'p, 'loc, 'sched) admission_env \<Rightarrow> StageSet \<Rightarrow> spec_error + unit" where
  "ValidateCreate env ss = ValidateSpec env ss"

definition validationInputsUnchanged :: "StageSet \<Rightarrow> StageSet \<Rightarrow> bool" where
  "validationInputsUnchanged oldObj newObj \<longleftrightarrow>
     (set_Spec oldObj)\<lparr>spec_Suspend := spec_Suspend (set_Spec newObj)\<rparr> = set_Spec newObj"

definition ValidateUpdate ::
  "('v, 'f :: linorder, 'ast, 'p, 'loc, 'sched) admission_env \<Rightarrow> StageSet option \<Rightarrow> StageSet \<Rightarrow> spec_error + unit" where
  "ValidateUpdate env oldObj newObj =
     (if set_DeletionTimestamp newObj \<noteq> None then Inr ()
      else if (case oldObj of None \<Rightarrow> False | Some old \<Rightarrow> validationInputsUnchanged old newObj) then Inr ()
      else ValidateSpec env newObj)"

definition ValidateDelete :: "StageSet \<Rightarrow> spec_error + unit" where
  "ValidateDelete ss = Inr ()"

section \<open>What an accepted list of stages looks like\<close>

lemma validate_stage_action_iff:
  "validate_stage_action stage versioned seen pa = Inr () \<longleftrightarrow>
     (VerbCount (snd pa) = 1 \<and> act_Name (snd pa) \<noteq> [] \<and>
      validateActionScope stage (fst pa) (snd pa) versioned = Inr ()) \<and> act_Name (snd pa) \<notin> set seen"
  by (cases pa) (simp add: validate_stage_action_def)

lemma unique_stage_name_iff: "unique_stage_name seen st = Inr () \<longleftrightarrow> True \<and> stg_Name st \<notin> set seen"
  by (simp add: unique_stage_name_def)

lemma stage_actions_iff:
  "check_seen (validate_stage_action stage versioned) (\<lambda>pa. act_Name (snd pa)) seen xs = Inr () \<longleftrightarrow>
     (\<forall>pa\<in>set xs. VerbCount (snd pa) = 1 \<and> act_Name (snd pa) \<noteq> [] \<and>
        validateActionScope stage (fst pa) (snd pa) versioned = Inr ()) \<and>
     distinct (map (\<lambda>pa. act_Name (snd pa)) xs) \<and> set (map (\<lambda>pa. act_Name (snd pa)) xs) \<inter> set seen = {}"
  by (rule check_seen_iff) (rule validate_stage_action_iff)

lemma stage_names_iff:
  "check_seen unique_stage_name stg_Name [] xs = Inr () \<longleftrightarrow> distinct (map stg_Name xs)"
  using check_seen_iff [of unique_stage_name "\<lambda>_. True" stg_Name "[]" xs] unique_stage_name_iff by simp

lemma validateActionScope_ok:
  "validateActionScope stage phase a versioned = Inr () \<longleftrightarrow>
     (phase = OnFailurePhase \<longrightarrow> act_Scope a = ScopeUnset) \<and> (act_Scope a = ScopeVersion \<longrightarrow> versioned) \<and>
     (\<forall>ca. act_CompletionAnchor a = Some ca \<longrightarrow>
       act_Scope a = ScopeLifetime \<and> ca_APIVersion ca \<noteq> [] \<and> ca_Kind ca \<noteq> [] \<and> ca_Name ca \<noteq> [])"
  by (auto simp: validateActionScope_def split: option.splits)

definition stage_pairs :: "Stage \<Rightarrow> (action_phase \<times> Action) list" where
  "stage_pairs st = (case stg_Actions st of None \<Rightarrow> [] | Some sa \<Rightarrow> phased_actions sa)"

lemma validate_stage_ok:
  "validate_stage versioned st = Inr () \<Longrightarrow>
     distinct (map (\<lambda>pa. act_Name (snd pa)) (stage_pairs st)) \<and>
     (\<forall>pa\<in>set (stage_pairs st). VerbCount (snd pa) = 1 \<and> act_Name (snd pa) \<noteq> [] \<and>
        validateActionScope (stg_Name st) (fst pa) (snd pa) versioned = Inr ())"
  unfolding validate_stage_def stage_pairs_def
  by (auto simp: stage_actions_iff split: if_splits option.splits)

lemma ValidateStages_ok:
  assumes "ValidateStages sp = Inr ()"
  shows "distinct (map stg_Name (spec_Stages sp))"
    "\<forall>st\<in>set (spec_Stages sp). validate_stage (spec_Version sp \<noteq> None) st = Inr ()"
  using assms by (auto simp: ValidateStages_def result_simps stage_names_iff)

section \<open>Anchors of accepted stages\<close>

text \<open>The keys of a stage: its name and its anchor when it has one.\<close>

definition stage_keys :: "Stage \<Rightarrow> string list" where
  "stage_keys st = (if stg_MigrationAnchor st = [] then [stg_Name st] else [stg_Name st, stg_MigrationAnchor st])"

lemma anchor_keys_ok:
  "anchor_keys seen stages = Inr keys \<Longrightarrow>
     set keys = set seen \<union> set (concat (map stage_keys stages)) \<and>
     distinct (concat (map stage_keys stages)) \<and> set (concat (map stage_keys stages)) \<inter> set seen = {}"
proof (induction seen stages rule: anchor_keys.induct)
  case (2 seen st stages)
  have fresh: "stg_Name st \<notin> set seen" using "2.prems" by (auto split: if_splits)
  show ?case
  proof (cases "stg_MigrationAnchor st = []")
    case True
    with "2.prems" fresh have "anchor_keys (stg_Name st # seen) stages = Inr keys" by simp
    from "2.IH"(1) [OF fresh True this] fresh True show ?thesis by (auto simp: stage_keys_def)
  next
    case False
    with "2.prems" fresh have new: "stg_MigrationAnchor st \<notin> set (stg_Name st # seen)"
      and "anchor_keys (stg_MigrationAnchor st # stg_Name st # seen) stages = Inr keys" by (simp_all split: if_splits)
    from "2.IH"(2) [OF fresh False this] fresh False new show ?thesis by (auto simp: stage_keys_def)
  qed
qed simp

lemma distinct_concat_eq:
  "distinct (concat (map f xs)) \<Longrightarrow> x \<in> set xs \<Longrightarrow> y \<in> set xs \<Longrightarrow> k \<in> set (f x) \<Longrightarrow> k \<in> set (f y) \<Longrightarrow> x = y"
  by (induction xs) auto

lemma find_stage_key:
  assumes "distinct (concat (map stage_keys stages))" "st \<in> set stages" "P st" "\<And>x. P x \<Longrightarrow> k \<in> set (stage_keys x)"
  shows "find P stages = Some st"
proof -
  obtain st' where f: "find P stages = Some st'" "st' \<in> set stages" "P st'"
    using assms(2,3) find_None_iff [of P stages] by (metis find_Some_mem not_None_eq)
  with distinct_concat_eq [OF assms(1,2) f(2), of k] assms(3,4) show ?thesis by blast
qed

lemma anchorStage_key:
  assumes "distinct (concat (map stage_keys (spec_Stages (set_Spec ss))))" "st \<in> set (spec_Stages (set_Spec ss))"
    "k \<in> set (stage_keys st)" "k \<noteq> []"
  shows "anchorStage ss k = stg_Name st"
proof (cases "stg_MigrationAnchor st = k")
  case True
  then have "find (\<lambda>s. stg_MigrationAnchor s = k) (spec_Stages (set_Spec ss)) = Some st"
    using assms by (intro find_stage_key) (auto simp: stage_keys_def)
  with assms(4) show ?thesis by (simp add: anchorStage_def Let_def)
next
  case False
  then have name: "stg_Name st = k" using assms(3) by (auto simp: stage_keys_def split: if_splits)
  have "find (\<lambda>s. stg_MigrationAnchor s = k) (spec_Stages (set_Spec ss)) = None"
    using distinct_concat_eq [OF assms(1,2)] assms(3,4) False
    by (fastforce simp: find_None_iff stage_keys_def split: if_splits)
  moreover have "find (\<lambda>s. stg_Name s = k) (spec_Stages (set_Spec ss)) = Some st"
    using assms name by (intro find_stage_key) (auto simp: stage_keys_def)
  ultimately show ?thesis using assms(4) by (simp add: anchorStage_def Let_def)
qed

section \<open>What accepted thresholds, checks and policies look like\<close>

lemma parseThresholdValue_eq [simp]: "parseThresholdValue parse s = Inr v \<longleftrightarrow> parse s = Some v"
  by (simp add: parseThresholdValue_def split: option.splits)

lemma validateBudget_ok:
  "validateBudget parse (Some eb) = Inr () \<Longrightarrow> \<exists>fr re. budgetThresholds parse eb = Inr (fr, re) \<and> fr \<le> re"
  by (auto simp: validateBudget_def budgetThresholds_def result_simps split: if_splits)

definition in_bounds :: "(string \<Rightarrow> 'f :: linorder option) \<Rightarrow> Threshold \<Rightarrow> 'f \<Rightarrow> bool" where
  "in_bounds parse th v \<longleftrightarrow>
     (\<forall>s m. thr_Min th = Some s \<and> parse s = Some m \<longrightarrow> m \<le> v) \<and> (\<forall>s m. thr_Max th = Some s \<and> parse s = Some m \<longrightarrow> v \<le> m)"

lemma thresholds_parse:
  assumes "validateThresholdBounds parse stage c = Inr ()"
  shows "\<forall>s. thr_Min (ac_Threshold c) = Some s \<longrightarrow> (\<exists>m. parse s = Some m)"
    "\<forall>s. thr_Max (ac_Threshold c) = Some s \<longrightarrow> (\<exists>m. parse s = Some m)"
  using assms by (auto simp: validateThresholdBounds_def bind_result_eq_Inr split: if_splits)

lemma validateThresholdBounds_ok:
  assumes "validateThresholdBounds parse stage c = Inr ()"
  shows "ThresholdSatisfied parse (ac_Threshold c) v = Inr (in_bounds parse (ac_Threshold c) v)"
proof (cases "thr_Min (ac_Threshold c)"; cases "thr_Max (ac_Threshold c)")
  fix lo hi
  assume "thr_Min (ac_Threshold c) = Some lo" "thr_Max (ac_Threshold c) = Some hi"
  moreover from this thresholds_parse [OF assms] obtain l h where "parse lo = Some l" "parse hi = Some h" by blast
  ultimately show ?thesis by (auto simp: ThresholdSatisfied_def in_bounds_def)
next
  fix lo
  assume "thr_Min (ac_Threshold c) = Some lo" "thr_Max (ac_Threshold c) = None"
  moreover from this thresholds_parse [OF assms] obtain l where "parse lo = Some l" by blast
  ultimately show ?thesis by (auto simp: ThresholdSatisfied_def in_bounds_def)
next
  fix hi
  assume "thr_Min (ac_Threshold c) = None" "thr_Max (ac_Threshold c) = Some hi"
  moreover from this thresholds_parse [OF assms] obtain h where "parse hi = Some h" by blast
  ultimately show ?thesis by (auto simp: ThresholdSatisfied_def in_bounds_def)
qed (simp add: ThresholdSatisfied_def in_bounds_def)

lemma check_seen_all: "check_seen chk key seen xs = Inr () \<Longrightarrow> x \<in> set xs \<Longrightarrow> \<exists>seen'. chk seen' x = Inr ()"
  by (induction xs arbitrary: seen) (auto simp: result_simps)

lemma validate_analysis_ok:
  assumes "validate_analysis parse stage prm = Inr ()" "prm_Analysis prm = Some an" "c \<in> set (an_Checks an)"
  shows "validateThresholdBounds parse stage c = Inr ()"
proof -
  have "check_seen (validate_analysis_check parse stage) ac_Name [] (an_Checks an) = Inr ()"
    using assms(1,2) by (simp add: validate_analysis_def result_simps split: if_splits)
  from check_seen_all [OF this assms(3)] show ?thesis
    by (auto simp: validate_analysis_check_def result_simps split: if_splits)
qed

lemma validate_selector_ok: "validate_selector_check sel stage seen name ls = Inr () \<Longrightarrow> \<exists>s. sel ls = SelectorOf s"
  by (auto simp: validate_selector_check_def split: if_splits selector_parse.splits)

lemma validate_gates_ok:
  shows "validate_restart_gate sel stage prm = Inr () \<Longrightarrow> prm_RestartGate prm = Some rg \<Longrightarrow> rc \<in> set (rg_Checks rg) \<Longrightarrow>
      \<exists>s. sel (rc_Selector rc) = SelectorOf s"
    and "validate_event_gate sel stage prm = Inr () \<Longrightarrow> prm_EventGate prm = Some eg \<Longrightarrow> ec \<in> set (eg_Checks eg) \<Longrightarrow>
      \<exists>s. sel (ec_Selector ec) = SelectorOf s"
  by (auto simp: validate_restart_gate_def validate_event_gate_def validate_restart_check_def validate_event_check_def
      result_simps split: if_splits dest!: check_seen_all dest: validate_selector_ok)

text \<open>The conjuncts of an accepted spec.\<close>

lemma ValidateSpec_ok:
  assumes "ValidateSpec env ss = Inr ()"
  shows "ValidateStages (set_Spec ss) = Inr ()"
    "validateMigrations (ae_semver env) (set_Namespace ss) (set_Spec ss) = Inr ()"
    "validateErrorBudget (ae_ParseFloat env) (set_Spec ss) = Inr ()"
    "validatePromotion (ae_ParseFloat env) (ae_selector env) (set_Spec ss) = Inr ()"
    "validateReadyChecks (ae_cel env) (ae_gv env) (set_Spec ss) = Inr ()"
    "validateDependsOn (ae_semver env) (set_Spec ss) = Inr ()"
    "Validate (ae_clock env) (ae_now env) (spec_UpdateWindows (set_Spec ss)) = None"
  using assms by (auto simp: ValidateSpec_def Let_def result_simps split: option.splits)

lemma validateMigrations_ok:
  assumes "validateMigrations sv ns sp = Inr ()" "spec_Migrations sp \<noteq> [] \<or> spec_MigrationsSourceRef sp \<noteq> None"
  shows "distinct (concat (map stage_keys (spec_Stages sp)))" "spec_Version sp \<noteq> None"
    "spec_MigrationsSourceRef sp = None \<Longrightarrow> ValidateLadder sv (spec_Migrations sp) = Inr () \<and>
       (\<forall>m\<in>set (spec_Migrations sp). mig_Stage m = [] \<or> (\<exists>st\<in>set (spec_Stages sp). mig_Stage m \<in> set (stage_keys st)))"
proof -
  obtain keys where keys: "anchor_keys [] (spec_Stages sp) = Inr keys"
    using assms by (auto simp: validateMigrations_def result_simps split: if_splits)
  note ok = anchor_keys_ok [OF keys]
  then show "distinct (concat (map stage_keys (spec_Stages sp)))" by blast
  show "spec_Version sp \<noteq> None" using assms by (auto simp: validateMigrations_def split: if_splits)
  assume "spec_MigrationsSourceRef sp = None"
  with assms keys have "ValidateLadder sv (spec_Migrations sp) = Inr () \<and>
      (\<forall>m\<in>set (spec_Migrations sp). mig_Stage m = [] \<or> mig_Stage m \<in> set keys)"
    by (auto simp: validateMigrations_def result_simps split: if_splits sum.splits)
  then show "ValidateLadder sv (spec_Migrations sp) = Inr () \<and>
       (\<forall>m\<in>set (spec_Migrations sp). mig_Stage m = [] \<or> (\<exists>st\<in>set (spec_Stages sp). mig_Stage m \<in> set (stage_keys st)))"
    using ok by auto
qed

section \<open>What a reconcile evaluates in an accepted spec\<close>

lemma Decision_total:
  assumes "\<forall>w\<in>set ws. well_formed_window lib w"
  shows "\<not> isl (Decision lib ws t)"
proof -
  obtain al e where "decisionAt lib ws t = Inr (al, e)" using decisionAt_total [OF assms] by blast
  moreover obtain r where "decision_walk lib ws al e (2 * length ws + 2) t = Inr r" using decision_walk_total [OF assms] by blast
  ultimately show ?thesis by (simp add: Decision_def)
qed

lemma admitted_ladder:
  assumes "validateMigrations sv ns (set_Spec ss) = Inr ()" "spec_Migrations (set_Spec ss) \<noteq> []"
    and "spec_Stages (set_Spec ss) \<noteq> []" "\<forall>st\<in>set (spec_Stages (set_Spec ss)). stg_Name st \<noteq> []"
  shows "pe_semver penv = sv \<Longrightarrow> resolveMigrationLadder penv ss = Inr (spec_Migrations (set_Spec ss), None)"
    "\<not> isl (Select sv (spec_Migrations (set_Spec ss)) c d)" "\<not> isl (SelectDown sv (spec_Migrations (set_Spec ss)) c d)"
    "m \<in> set (spec_Migrations (set_Spec ss)) \<Longrightarrow> anchorStage ss (mig_Stage m) \<in> stg_Name ` set (spec_Stages (set_Spec ss))"
proof -
  have inline: "spec_MigrationsSourceRef (set_Spec ss) = None"
    using assms(1,2) by (auto simp: validateMigrations_def split: if_splits)
  note ok = validateMigrations_ok [OF assms(1) disjI1 [OF assms(2)]]
  have valid: "ValidateLadder sv (spec_Migrations (set_Spec ss)) = Inr ()" using ok(3) [OF inline] by blast
  then show "resolveMigrationLadder penv ss = Inr (spec_Migrations (set_Spec ss), None)" if "pe_semver penv = sv"
    using inline that by (simp add: resolveMigrationLadder_def)
  note parsed = ValidateLadder_ok(3) [OF valid]
  show "\<not> isl (Select sv (spec_Migrations (set_Spec ss)) c d)" "\<not> isl (SelectDown sv (spec_Migrations (set_Spec ss)) c d)"
    by (simp_all add: Select_eq [OF parsed] SelectDown_eq [OF parsed])
  assume m: "m \<in> set (spec_Migrations (set_Spec ss))"
  then consider "mig_Stage m = []" | st where "st \<in> set (spec_Stages (set_Spec ss))" "mig_Stage m \<in> set (stage_keys st)" "mig_Stage m \<noteq> []"
    using ok(3) [OF inline] by blast
  then show "anchorStage ss (mig_Stage m) \<in> stg_Name ` set (spec_Stages (set_Spec ss))"
  proof cases
    case 1
    with assms(3) show ?thesis by (cases "spec_Stages (set_Spec ss)") (simp_all add: anchorStage_def)
  next
    case (2 st)
    with anchorStage_key [OF ok(1) this] show ?thesis by simp
  qed
qed

lemma admitted_budgets:
  assumes "validateErrorBudget parse sp = Inr ()"
    and "spec_ErrorBudget sp = Some eb \<or> (\<exists>st\<in>set (spec_Stages sp). stg_ErrorBudget st = Some eb)"
  shows "\<exists>fr re. budgetThresholds parse eb = Inr (fr, re) \<and> fr \<le> re"
proof -
  have "validateBudget parse (Some eb) = Inr ()"
    using assms by (fastforce simp: validateErrorBudget_def result_simps)
  then show ?thesis by (rule validateBudget_ok)
qed

lemma admitted_promotion:
  assumes "validate_stage_promotion parse sel st = Inr ()" "stg_Promotion st = Some prm"
  shows "prm_Analysis prm = Some an \<Longrightarrow> c \<in> set (an_Checks an) \<Longrightarrow>
      ThresholdSatisfied parse (ac_Threshold c) v = Inr (in_bounds parse (ac_Threshold c) v)"
    and "prm_RestartGate prm = Some rg \<Longrightarrow> rc \<in> set (rg_Checks rg) \<Longrightarrow> \<exists>s. sel (rc_Selector rc) = SelectorOf s"
    and "prm_EventGate prm = Some eg \<Longrightarrow> ec \<in> set (eg_Checks eg) \<Longrightarrow> \<exists>s. sel (ec_Selector ec) = SelectorOf s"
proof -
  have parts: "validate_restart_gate sel (stg_Name st) prm = Inr ()" "validate_event_gate sel (stg_Name st) prm = Inr ()"
    "validate_analysis parse (stg_Name st) prm = Inr ()"
    using assms by (auto simp: validate_stage_promotion_def result_simps)
  show "prm_Analysis prm = Some an \<Longrightarrow> c \<in> set (an_Checks an) \<Longrightarrow>
      ThresholdSatisfied parse (ac_Threshold c) v = Inr (in_bounds parse (ac_Threshold c) v)"
    by (rule validateThresholdBounds_ok [OF validate_analysis_ok [OF parts(3)]])
  show "prm_RestartGate prm = Some rg \<Longrightarrow> rc \<in> set (rg_Checks rg) \<Longrightarrow> \<exists>s. sel (rc_Selector rc) = SelectorOf s"
    by (rule validate_gates_ok(1) [OF parts(1)])
  show "prm_EventGate prm = Some eg \<Longrightarrow> ec \<in> set (eg_Checks eg) \<Longrightarrow> \<exists>s. sel (ec_Selector ec) = SelectorOf s"
    by (rule validate_gates_ok(2) [OF parts(2)])
qed

lemma admitted_exprs:
  "validateReadyChecks cel gv sp = Inr () \<Longrightarrow> st \<in> set (spec_Stages sp) \<Longrightarrow> \<not> isl (compileReadyExprs cel gv st)"
  using check_all_eq_Inr [of "validate_stage_ready_checks cel gv" "spec_Stages sp" "()"]
  by (cases "compileReadyExprs cel gv st"; cases "stg_ReadyChecks st")
    (auto simp: validateReadyChecks_def validate_stage_ready_checks_def bind_result_eq_Inr compileReadyExprs_def)

lemma admitted_floors:
  "validateDependsOn sv sp = Inr () \<Longrightarrow> dep \<in> set (spec_DependsOn sp) \<Longrightarrow> dep_MinVersion dep \<noteq> [] \<Longrightarrow>
     versionAtLeast (sv_NewVersion sv) deployed (dep_MinVersion dep) \<noteq> None"
  by (auto simp: validateDependsOn_def validate_dependency_def versionAtLeast_def result_simps split: option.splits if_splits)

section \<open>Properties\<close>

text \<open>Names identify. In an accepted spec stage names are distinct; within a stage an action name
  determines the action and its phase, over all three phases, so a ledger keyed by stage and action name
  never confuses two actions; each action has one verb and a name, is scoped only where a ledger keeps
  it and to a version only when there is one, and carries a completion anchor only for a lifetime, a
  complete one. With migrations, every stage is what its own name and its own anchor resolve to.\<close>

theorem admitted_names:
  assumes "ValidateSpec env ss = Inr ()" "st \<in> set (spec_Stages (set_Spec ss))"
  shows "distinct (map stg_Name (spec_Stages (set_Spec ss))) \<and>
    inj_on (\<lambda>pa. act_Name (snd pa)) (set (stage_pairs st)) \<and>
    (\<forall>(phase, a)\<in>set (stage_pairs st). VerbCount a = 1 \<and> act_Name a \<noteq> [] \<and>
       (phase = OnFailurePhase \<longrightarrow> act_Scope a = ScopeUnset) \<and>
       (act_Scope a = ScopeVersion \<longrightarrow> spec_Version (set_Spec ss) \<noteq> None) \<and>
       (\<forall>ca. act_CompletionAnchor a = Some ca \<longrightarrow>
         act_Scope a = ScopeLifetime \<and> ca_APIVersion ca \<noteq> [] \<and> ca_Kind ca \<noteq> [] \<and> ca_Name ca \<noteq> [])) \<and>
    (spec_Migrations (set_Spec ss) \<noteq> [] \<or> spec_MigrationsSourceRef (set_Spec ss) \<noteq> None \<longrightarrow>
      (\<forall>k\<in>set (stage_keys st). k \<noteq> [] \<longrightarrow> anchorStage ss k = stg_Name st))"
proof -
  note ok = ValidateSpec_ok [OF assms(1)]
  have stages: "distinct (map stg_Name (spec_Stages (set_Spec ss)))"
    "validate_stage (spec_Version (set_Spec ss) \<noteq> None) st = Inr ()"
    using ValidateStages_ok [OF ok(1)] assms(2) by blast+
  note st = validate_stage_ok [OF stages(2)]
  have "anchorStage ss k = stg_Name st"
    if "spec_Migrations (set_Spec ss) \<noteq> [] \<or> spec_MigrationsSourceRef (set_Spec ss) \<noteq> None" "k \<in> set (stage_keys st)" "k \<noteq> []" for k
    by (rule anchorStage_key [OF validateMigrations_ok(1) [OF ok(2) that(1)] assms(2) that(2,3)])
  then show ?thesis
    using stages(1) st by (auto simp: validateActionScope_ok distinct_map)
qed

text \<open>An accepted spec: a gated stage with actions and a CEL check, a ladder, a budget, a floor and windows.\<close>

definition demo_admission :: "(nat, int, string, string, unit, unit) admission_env" where
  "demo_admission = \<lparr>ae_semver = digit_semver, ae_ParseFloat = (\<lambda>s. if s = ''1'' then Some 1 else None),
     ae_selector = SelectorOf, ae_cel = demo_cel, ae_gv = (\<lambda>v. Some ([], v)), ae_clock = demo_clock, ae_now = 103\<rparr>"

definition demo_metric :: MetricSource where
  "demo_metric = \<lparr>ms_Prometheus = Some \<lparr>prs_Address = ''p'', prs_Query = ''q'', prs_SecretRef = None\<rparr>, ms_Webhook = None\<rparr>"

definition demo_admitted_stage :: Stage where
  "demo_admitted_stage = demo_checked\<lparr>stg_MigrationAnchor := ''schema'',
     stg_Actions := Some \<lparr>sact_Pre = [plain_action ''backup''], sact_Post = [plain_action ''smoke''], sact_OnFailure = [plain_action ''page'']\<rparr>,
     stg_Promotion := Some \<lparr>prm_Soak = None, prm_RequireManualPromotion = False,
       prm_Analysis = Some \<lparr>an_Checks = [\<lparr>ac_Name = ''errors'', ac_Source = demo_metric, ac_Threshold = \<lparr>thr_Min = None, thr_Max = Some ''1''\<rparr>\<rparr>],
         an_Interval = None, an_FailureLimit = None, an_OnFailure = [], an_OnSourceError = [], an_DryRun = False\<rparr>,
       prm_FastTrack = None, prm_RestartGate = None, prm_EventGate = None\<rparr>\<rparr>"

definition demo_admitted :: StageSet where
  "demo_admitted = (plain_set [])\<lparr>set_Spec := (set_Spec (versioned_set ''2''))\<lparr>spec_Stages := [demo_admitted_stage, plain_stage ''api''],
     spec_UpdateWindows := demo_windows, spec_DependsOn := [\<lparr>dep_Name = ''base'', dep_Namespace = [], dep_MinVersion = ''2''\<rparr>],
     spec_ErrorBudget := Some \<lparr>eb_Source = demo_metric, eb_FreezeThreshold = ''1'', eb_ResumeThreshold = [], eb_OnSourceError = [],
       eb_Interval = None, eb_DryRun = False\<rparr>\<rparr>\<rparr>"

lemma demo_admitted_ok: "ValidateSpec demo_admission demo_admitted = Inr ()"
  by code_simp

lemma demo_admitted_stages: "spec_Stages (set_Spec demo_admitted) = [demo_admitted_stage, plain_stage ''api'']"
  by (simp add: demo_admitted_def)

theorem admitted_names_witness:
  "anchorStage demo_admitted ''schema'' = ''db'' \<and> inj_on (\<lambda>pa. act_Name (snd pa)) (set (stage_pairs demo_admitted_stage))"
proof -
  have "demo_admitted_stage \<in> set (spec_Stages (set_Spec demo_admitted))" by (simp add: demo_admitted_stages)
  note names = admitted_names [OF demo_admitted_ok this]
  have "spec_Migrations (set_Spec demo_admitted) \<noteq> []" by code_simp
  moreover have "''schema'' \<in> set (stage_keys demo_admitted_stage)" by code_simp
  ultimately have "anchorStage demo_admitted ''schema'' = stg_Name demo_admitted_stage" using names by simp
  moreover have "stg_Name demo_admitted_stage = ''db''" by code_simp
  ultimately show ?thesis using names by simp
qed



end
