(* ===== verification/ImageGate.thy ===== *)
theory ImageGate
  imports StageControl Json
begin

text \<open>
  The image-verification gate: the policies of \<open>api/v1/imageverificationpolicy_types.go\<close> and their
  admission (\<open>internal/controller/imagepolicy_webhook.go\<close>), image extraction, globs and pinning
  (\<open>internal/imageverify/imageverify.go\<close>), the sigstore verifier's decision
  (\<open>internal/imageverify/sigstore\<close>) and the gate over a stage's objects
  (\<open>internal/controller/imagegate.go\<close>). The registry, the trusted root and the cryptographic checks are
  parameters; the registry may change between two calls, so each call of the verifier has a number.
\<close>

section \<open>Policies\<close>

record KeylessAuthority =
  kl_Issuer :: string
  kl_IssuerRegExp :: string
  kl_Subject :: string
  kl_SubjectRegExp :: string

record KeyAuthority =
  ka_PublicKey :: string

record VerificationAuthority =
  va_Keyless :: "KeylessAuthority option"
  va_Key :: "KeyAuthority option"

record AttestationRequirement =
  at_PredicateType :: string
  at_MaxAge :: "duration option"

record ImageVerificationPolicy =
  ivp_Name :: string
  ivp_Images :: "string list"
  ivp_Authorities :: "VerificationAuthority list"
  ivp_RequireAttestations :: "AttestationRequirement list"
  ivp_Skip :: "string list"

datatype policy_error =
    NoImages | EmptyGlob | AttestationsNotEnforced | NoAuthorities
  | BothAuthorities | NeitherAuthority | BadPublicKey | MatcherMissing | MatcherTwice | BadRegExp

text \<open>Compiling a regular expression and parsing a public key are the library's.\<close>

definition validateMatcher :: "(string \<Rightarrow> bool) \<Rightarrow> string \<Rightarrow> string \<Rightarrow> policy_error + unit" where
  "validateMatcher compiles exact pattern =
     (if exact = [] \<and> pattern = [] then Inl MatcherMissing
      else if exact \<noteq> [] \<and> pattern \<noteq> [] then Inl MatcherTwice
      else if pattern \<noteq> [] \<and> \<not> compiles pattern then Inl BadRegExp
      else Inr ())"

definition validateKeyAuthority :: "(string \<Rightarrow> bool) \<Rightarrow> KeyAuthority \<Rightarrow> policy_error + unit" where
  "validateKeyAuthority parsesKey k = require (parsesKey (ka_PublicKey k)) BadPublicKey"

definition validateAuthority ::
  "(string \<Rightarrow> bool) \<Rightarrow> (string \<Rightarrow> bool) \<Rightarrow> VerificationAuthority \<Rightarrow> policy_error + unit" where
  "validateAuthority compiles parsesKey a =
     (case (va_Keyless a, va_Key a) of
        (Some _, Some _) \<Rightarrow> Inl BothAuthorities
      | (None, None) \<Rightarrow> Inl NeitherAuthority
      | (None, Some k) \<Rightarrow> validateKeyAuthority parsesKey k
      | (Some k, None) \<Rightarrow>
          bind_result (validateMatcher compiles (kl_Issuer k) (kl_IssuerRegExp k))
            (\<lambda>_. validateMatcher compiles (kl_Subject k) (kl_SubjectRegExp k)))"

definition ValidateImageVerificationPolicy ::
  "(string \<Rightarrow> bool) \<Rightarrow> (string \<Rightarrow> bool) \<Rightarrow> ImageVerificationPolicy \<Rightarrow> policy_error + unit" where
  "ValidateImageVerificationPolicy compiles parsesKey p =
     (if ivp_Images p = [] then Inl NoImages
      else if list_ex (\<lambda>g. trim_space g = []) (ivp_Images p) then Inl EmptyGlob
      else if list_ex (\<lambda>g. trim_space g = []) (ivp_Skip p) then Inl EmptyGlob
      else if ivp_RequireAttestations p \<noteq> [] then Inl AttestationsNotEnforced
      else if ivp_Authorities p = [] then Inl NoAuthorities
      else check_all (validateAuthority compiles parsesKey) (ivp_Authorities p))"

definition ValidatePolicyUpdate ::
  "(string \<Rightarrow> bool) \<Rightarrow> (string \<Rightarrow> bool) \<Rightarrow> bool \<Rightarrow> ImageVerificationPolicy \<Rightarrow> policy_error + unit" where
  "ValidatePolicyUpdate compiles parsesKey deleting p =
     (if deleting then Inr () else ValidateImageVerificationPolicy compiles parsesKey p)"

section \<open>Globs\<close>

text \<open>
  \<open>globToRegexp\<close> builds an anchored regular expression of literals, \<open>[^/]\<close>, \<open>[^/]*\<close> and \<open>.*\<close>: here the
  list of its parts. \<open>regexp_match\<close> is their matching; \<open>.\<close> does not match a newline.
\<close>

datatype glob_part = Lit char | OneOf | Segment | AnyRun

fun globToRegexp :: "string \<Rightarrow> glob_part list" where
  "globToRegexp [] = []"
| "globToRegexp (c # cs) =
     (if c = CHR ''*'' then
        (case cs of
           d # ds \<Rightarrow> if d = CHR ''*'' then AnyRun # globToRegexp ds else Segment # globToRegexp cs
         | [] \<Rightarrow> [Segment])
      else if c = CHR ''?'' then OneOf # globToRegexp cs
      else Lit c # globToRegexp cs)"

definition newline :: char where
  "newline = CHR 0x0A"

text \<open>A run of characters that satisfy a predicate, and then the rest.\<close>

fun star_then :: "(char \<Rightarrow> bool) \<Rightarrow> (string \<Rightarrow> bool) \<Rightarrow> string \<Rightarrow> bool" where
  "star_then ok rest [] = rest []"
| "star_then ok rest (x # xs) = (rest (x # xs) \<or> ok x \<and> star_then ok rest xs)"

fun regexp_match :: "glob_part list \<Rightarrow> string \<Rightarrow> bool" where
  "regexp_match [] s = (s = [])"
| "regexp_match (Lit c # ps) s = (case s of [] \<Rightarrow> False | x # xs \<Rightarrow> x = c \<and> regexp_match ps xs)"
| "regexp_match (OneOf # ps) s = (case s of [] \<Rightarrow> False | x # xs \<Rightarrow> x \<noteq> CHR ''/'' \<and> regexp_match ps xs)"
| "regexp_match (Segment # ps) s = star_then (\<lambda>x. x \<noteq> CHR ''/'') (regexp_match ps) s"
| "regexp_match (AnyRun # ps) s = star_then (\<lambda>x. x \<noteq> newline) (regexp_match ps) s"

definition globMatch :: "string \<Rightarrow> string \<Rightarrow> bool" where
  "globMatch pattern s = regexp_match (globToRegexp pattern) s"

definition anyGlob :: "string list \<Rightarrow> string \<Rightarrow> bool" where
  "anyGlob patterns s = list_ex (\<lambda>p. globMatch p s) patterns"

section \<open>Image references\<close>

text \<open>The part before the first \<open>@\<close>; of that, up to a colon after the last slash.\<close>

definition refName :: "string \<Rightarrow> string" where
  "refName ref =
     (let r = takeWhile (\<lambda>c. c \<noteq> CHR ''@'') ref in
      if CHR ''/'' \<in> set r then
        (let tail = rev (takeWhile (\<lambda>c. c \<noteq> CHR ''/'') (rev r)); head = take (length r - length tail) r
         in head @ takeWhile (\<lambda>c. c \<noteq> CHR '':'') tail)
      else takeWhile (\<lambda>c. c \<noteq> CHR '':'') r)"

definition Match :: "ImageVerificationPolicy list \<Rightarrow> string \<Rightarrow> ImageVerificationPolicy list \<times> bool" where
  "Match policies imageRef =
     (let name = refName imageRef; inScope = filter (\<lambda>p. anyGlob (ivp_Images p) name) policies
      in (filter (\<lambda>p. \<not> anyGlob (ivp_Skip p) name) inScope, list_ex (\<lambda>p. anyGlob (ivp_Skip p) name) inScope))"

section \<open>Images of rendered objects\<close>

definition podSpecPath :: "string \<Rightarrow> string list option" where
  "podSpecPath kind =
     (if kind = ''Pod'' then Some [''spec'']
      else if kind \<in> {''Deployment'', ''StatefulSet'', ''DaemonSet'', ''ReplicaSet'', ''Job''}
      then Some [''spec'', ''template'', ''spec'']
      else if kind = ''CronJob'' then Some [''spec'', ''jobTemplate'', ''spec'', ''template'', ''spec'']
      else None)"

definition image_fields :: "string list" where
  "image_fields = [''containers'', ''initContainers'', ''ephemeralContainers'']"

definition container_image :: "json \<Rightarrow> string option" where
  "container_image c = (case nested [''image''] c of Some (JString img) \<Rightarrow> Some img | _ \<Rightarrow> None)"

definition field_images :: "string list \<Rightarrow> json \<Rightarrow> string \<Rightarrow> string list" where
  "field_images base obj field =
     (case nested_slice (base @ [field]) obj of None \<Rightarrow> [] | Some l \<Rightarrow> List.map_filter container_image l)"

definition imagesInObject :: "json \<Rightarrow> string list" where
  "imagesInObject obj =
     (case podSpecPath (GetKind obj) of None \<Rightarrow> [] | Some base \<Rightarrow> concat (map (field_images base obj) image_fields))"

definition ExtractImages :: "json list \<Rightarrow> string list" where
  "ExtractImages objects = sort (remdups (filter (\<lambda>img. img \<noteq> []) (concat (map imagesInObject objects))))"

definition pin_container :: "(string \<times> string) list \<Rightarrow> json \<Rightarrow> json" where
  "pin_container pins c =
     (case container_image c of
        None \<Rightarrow> c
      | Some img \<Rightarrow> (case map_of pins img of
            Some pinned \<Rightarrow> if pinned \<noteq> img then set_nested [''image''] (JString pinned) c else c
          | None \<Rightarrow> c))"

definition pin_field :: "(string \<times> string) list \<Rightarrow> string list \<Rightarrow> string \<Rightarrow> json \<Rightarrow> json" where
  "pin_field pins base field obj =
     (case nested_slice (base @ [field]) obj of
        None \<Rightarrow> obj
      | Some l \<Rightarrow> if map (pin_container pins) l = l then obj
          else set_nested (base @ [field]) (JList (map (pin_container pins) l)) obj)"

definition pin_object :: "(string \<times> string) list \<Rightarrow> json \<Rightarrow> json" where
  "pin_object pins obj =
     (case podSpecPath (GetKind obj) of None \<Rightarrow> obj | Some base \<Rightarrow> fold (pin_field pins base) image_fields obj)"

definition PinImages :: "json list \<Rightarrow> (string \<times> string) list \<Rightarrow> json list" where
  "PinImages objects pins = (if pins = [] then objects else map (pin_object pins) objects)"

section \<open>The sigstore verifier\<close>

definition maxBundleBytes :: int where
  "maxBundleBytes = 8388608"

definition bundleArtifactPrefix :: string where
  "bundleArtifactPrefix = ''application/vnd.dev.sigstore.bundle''"

text \<open>\<open>io.LimitReader\<close>: the first bytes up to a limit.\<close>

fun limit_read :: "int \<Rightarrow> string \<Rightarrow> string" where
  "limit_read n [] = []"
| "limit_read n (c # cs) = (if n \<le> 0 then [] else c # limit_read (n - 1) cs)"

text \<open>A referrer manifest; its layers are unreadable as a whole or one by one.\<close>

record referrer =
  rf_ArtifactType :: string
  rf_layers :: "string option list option"

text \<open>Resolving a reference gives the digest-pinned reference with the digest's algorithm and value.\<close>

record registry =
  rg_resolve :: "string \<Rightarrow> (string \<times> string \<times> string) option"
  rg_referrers :: "string \<Rightarrow> referrer list option"

record 'e sigstore =
  sg_parse :: "string \<Rightarrow> 'e option"
  sg_identity :: "KeylessAuthority \<Rightarrow> bool"
  sg_keyless :: "KeylessAuthority \<Rightarrow> 'e \<Rightarrow> string \<Rightarrow> string \<Rightarrow> bool"
  sg_keyLoads :: "KeyAuthority \<Rightarrow> bool"
  sg_key :: "KeyAuthority \<Rightarrow> 'e \<Rightarrow> string \<Rightarrow> string \<Rightarrow> bool"

definition parseBundleLayer :: "'e sigstore \<Rightarrow> string option \<Rightarrow> 'e option" where
  "parseBundleLayer sg layer = (case layer of None \<Rightarrow> None | Some data \<Rightarrow> sg_parse sg (limit_read maxBundleBytes data))"

definition referrer_bundles :: "'e sigstore \<Rightarrow> referrer \<Rightarrow> 'e list" where
  "referrer_bundles sg rf =
     (if \<not> has_prefix (rf_ArtifactType rf) bundleArtifactPrefix then []
      else case rf_layers rf of None \<Rightarrow> [] | Some layers \<Rightarrow> List.map_filter (parseBundleLayer sg) layers)"

definition fetchBundles :: "'e sigstore \<Rightarrow> registry \<Rightarrow> string \<Rightarrow> 'e list option" where
  "fetchBundles sg rg digestRef =
     (case rg_referrers rg digestRef of None \<Rightarrow> None | Some rfs \<Rightarrow> Some (concat (map (referrer_bundles sg) rfs)))"

definition verifyKeyless :: "'e sigstore \<Rightarrow> KeylessAuthority \<Rightarrow> 'e list \<Rightarrow> string \<Rightarrow> string \<Rightarrow> bool" where
  "verifyKeyless sg k entities algo hex \<longleftrightarrow> sg_identity sg k \<and> list_ex (\<lambda>e. sg_keyless sg k e algo hex) entities"

definition verifyKey :: "'e sigstore \<Rightarrow> KeyAuthority \<Rightarrow> 'e list \<Rightarrow> string \<Rightarrow> string \<Rightarrow> bool" where
  "verifyKey sg k entities algo hex \<longleftrightarrow> sg_keyLoads sg k \<and> list_ex (\<lambda>e. sg_key sg k e algo hex) entities"

text \<open>
  \<open>trustedVerifier\<close> under \<open>sync.Once\<close>: the outcome of the first load is the outcome of every later call.
\<close>

definition trustedVerifier :: "bool option \<Rightarrow> bool \<Rightarrow> bool option \<times> bool" where
  "trustedVerifier once loads = (case once of Some ok \<Rightarrow> (once, ok) | None \<Rightarrow> (Some loads, loads))"

datatype verify_error =
    AttestationsRequired | Unresolvable | BundlesUnreadable | TrustedRootUnavailable | NotVerified

fun verify_authorities ::
  "'e sigstore \<Rightarrow> bool \<Rightarrow> bool option \<Rightarrow> 'e list \<Rightarrow> string \<Rightarrow> string \<Rightarrow> VerificationAuthority list
   \<Rightarrow> bool option \<times> verify_error option" where
  "verify_authorities sg loads once entities algo hex [] = (once, Some NotVerified)"
| "verify_authorities sg loads once entities algo hex (a # as) =
     (case va_Keyless a of
        Some k \<Rightarrow>
          (case trustedVerifier once loads of
             (once', False) \<Rightarrow> (once', Some TrustedRootUnavailable)
           | (once', True) \<Rightarrow>
               if verifyKeyless sg k entities algo hex then (once', None)
               else verify_authorities sg loads once' entities algo hex as)
      | None \<Rightarrow>
          (case va_Key a of
             Some k \<Rightarrow> if verifyKey sg k entities algo hex then (once, None)
               else verify_authorities sg loads once entities algo hex as
           | None \<Rightarrow> verify_authorities sg loads once entities algo hex as))"

record 'e verifier_env =
  vf_sigstore :: "'e sigstore"
  vf_registry :: "nat \<Rightarrow> registry"
  vf_rootLoads :: "nat \<Rightarrow> bool"

text \<open>The state of the verifier: the number of calls so far and what the trusted root gave.\<close>

type_synonym verifier_state = "nat \<times> bool option"

fun Verify ::
  "'e verifier_env \<Rightarrow> verifier_state \<Rightarrow> string \<Rightarrow> ImageVerificationPolicy \<Rightarrow> verifier_state \<times> (verify_error + string)" where
  "Verify env (n, once) ref p =
     (let rg = vf_registry env n; sg = vf_sigstore env in
      if ivp_RequireAttestations p \<noteq> [] then ((Suc n, once), Inl AttestationsRequired)
      else (case rg_resolve rg ref of
          None \<Rightarrow> ((Suc n, once), Inl Unresolvable)
        | Some (digestRef, algo, hex) \<Rightarrow>
            (case fetchBundles sg rg digestRef of
               None \<Rightarrow> ((Suc n, once), Inl BundlesUnreadable)
             | Some entities \<Rightarrow>
                 (case verify_authorities sg (vf_rootLoads env n) once entities algo hex (ivp_Authorities p) of
                    (once', Some e) \<Rightarrow> ((Suc n, once'), Inl e)
                  | (once', None) \<Rightarrow> ((Suc n, once'), Inr digestRef)))))"

section \<open>The gate over a stage's objects (imagegate.go)\<close>

definition skipImageVerificationAnnotation :: string where
  "skipImageVerificationAnnotation = ''stages.metio.wtf/skip-image-verification''"

datatype gate_error = PoliciesUnreadable | ImageRejected string string verify_error | ImageUngoverned string

record 'e gate_env =
  ge_verifier :: "'e verifier_env option"
  ge_policies :: "ImageVerificationPolicy list option"
  ge_require :: bool

fun verify_policies ::
  "'e verifier_env \<Rightarrow> verifier_state \<Rightarrow> string \<Rightarrow> ImageVerificationPolicy list \<Rightarrow> string
   \<Rightarrow> verifier_state \<times> (gate_error + string)" where
  "verify_policies env st ref [] digest = (st, Inr digest)"
| "verify_policies env st ref (p # ps) digest =
     (case Verify env st ref p of
        (st', Inl e) \<Rightarrow> (st', Inl (ImageRejected ref (ivp_Name p) e))
      | (st', Inr d) \<Rightarrow> verify_policies env st' ref ps d)"

fun gate_refs ::
  "'e verifier_env \<Rightarrow> bool \<Rightarrow> ImageVerificationPolicy list \<Rightarrow> verifier_state \<Rightarrow> (string \<times> string) list \<Rightarrow> string list
   \<Rightarrow> verifier_state \<times> (gate_error + (string \<times> string) list)" where
  "gate_refs env reqd policies st pins [] = (st, Inr pins)"
| "gate_refs env reqd policies st pins (ref # refs) =
     (let (matched, skipped) = Match policies ref in
      if matched = [] then
        (if \<not> skipped \<and> reqd then (st, Inl (ImageUngoverned ref)) else gate_refs env reqd policies st pins refs)
      else (case verify_policies env st ref matched [] of
          (st', Inl e) \<Rightarrow> (st', Inl e)
        | (st', Inr digest) \<Rightarrow>
            gate_refs env reqd policies st' (if digest \<noteq> [] \<and> digest \<noteq> ref then (ref, digest) # pins else pins) refs))"

definition verifyStageImages ::
  "'e gate_env \<Rightarrow> StageSet \<Rightarrow> verifier_state \<Rightarrow> json list \<Rightarrow> verifier_state \<times> (gate_error + json list)" where
  "verifyStageImages env ss st objects =
     (case ge_verifier env of
        None \<Rightarrow> (st, Inr objects)
      | Some vf \<Rightarrow>
          if annotation ss skipImageVerificationAnnotation \<noteq> [] then (st, Inr objects)
          else (case ge_policies env of
              None \<Rightarrow> (st, Inl PoliciesUnreadable)
            | Some policies \<Rightarrow>
                if policies = [] \<and> \<not> ge_require env then (st, Inr objects)
                else (case gate_refs vf (ge_require env) policies st [] (ExtractImages objects) of
                    (st', Inl e) \<Rightarrow> (st', Inl e)
                  | (st', Inr pins) \<Rightarrow> (st', Inr (PinImages objects pins)))))"

section \<open>What a glob means\<close>

fun part_matches :: "glob_part \<Rightarrow> string \<Rightarrow> bool" where
  "part_matches (Lit c) t = (t = [c])"
| "part_matches OneOf t = (\<exists>x. t = [x] \<and> x \<noteq> CHR ''/'')"
| "part_matches Segment t = (CHR ''/'' \<notin> set t)"
| "part_matches AnyRun t = (newline \<notin> set t)"

lemma star_then_iff: "star_then ok rest s \<longleftrightarrow> (\<exists>t u. s = t @ u \<and> (\<forall>x\<in>set t. ok x) \<and> rest u)"
proof (induction s)
  case (Cons x xs)
  show ?case
  proof
    assume "star_then ok rest (x # xs)"
    then consider "rest (x # xs)" | t u where "ok x" "xs = t @ u" "\<forall>x\<in>set t. ok x" "rest u" using Cons by auto
    then show "\<exists>t u. x # xs = t @ u \<and> (\<forall>x\<in>set t. ok x) \<and> rest u"
    proof cases
      case 1
      then show ?thesis by (intro exI [of _ "[]"] exI [of _ "x # xs"]) simp
    next
      case (2 t u)
      then show ?thesis by (intro exI [of _ "x # t"] exI [of _ u]) simp
    qed
  next
    assume "\<exists>t u. x # xs = t @ u \<and> (\<forall>x\<in>set t. ok x) \<and> rest u"
    then obtain t u where tu: "x # xs = t @ u" "\<forall>x\<in>set t. ok x" "rest u" by blast
    then show "star_then ok rest (x # xs)" using Cons by (cases t) auto
  qed
qed simp

lemma match_parts: "(\<exists>ts. s = concat ts \<and> list_all2 part_matches (p # ps) ts) \<longleftrightarrow>
    (\<exists>t u. s = t @ u \<and> part_matches p t \<and> (\<exists>ts. u = concat ts \<and> list_all2 part_matches ps ts))"
proof
  assume "\<exists>t u. s = t @ u \<and> part_matches p t \<and> (\<exists>ts. u = concat ts \<and> list_all2 part_matches ps ts)"
  then obtain t ts where "s = concat (t # ts)" "list_all2 part_matches (p # ps) (t # ts)" by auto
  then show "\<exists>ts. s = concat ts \<and> list_all2 part_matches (p # ps) ts" by blast
next
  assume "\<exists>ts. s = concat ts \<and> list_all2 part_matches (p # ps) ts"
  then obtain t ts where "s = t @ concat ts" "part_matches p t" "list_all2 part_matches ps ts"
    by (auto simp: list_all2_Cons1)
  then show "\<exists>t u. s = t @ u \<and> part_matches p t \<and> (\<exists>ts. u = concat ts \<and> list_all2 part_matches ps ts)" by blast
qed

lemma one_then: "(\<exists>t u. s = t @ u \<and> (\<exists>x. t = [x] \<and> P x) \<and> Q u) \<longleftrightarrow> (case s of [] \<Rightarrow> False | x # xs \<Rightarrow> P x \<and> Q xs)"
proof (cases s)
  case (Cons x xs)
  show ?thesis
  proof
    assume "\<exists>t u. s = t @ u \<and> (\<exists>x. t = [x] \<and> P x) \<and> Q u"
    with Cons show "case s of [] \<Rightarrow> False | x # xs \<Rightarrow> P x \<and> Q xs" by auto
  next
    assume "case s of [] \<Rightarrow> False | x # xs \<Rightarrow> P x \<and> Q xs"
    with Cons have "s = [x] @ xs \<and> P x \<and> Q xs" by simp
    then show "\<exists>t u. s = t @ u \<and> (\<exists>x. t = [x] \<and> P x) \<and> Q u" by blast
  qed
qed simp

lemma regexp_match_iff: "regexp_match ps s \<longleftrightarrow> (\<exists>ts. s = concat ts \<and> list_all2 part_matches ps ts)"
proof (induction ps arbitrary: s)
  case (Cons p ps)
  show ?case
    unfolding match_parts Cons.IH [symmetric]
  proof (cases p)
    case (Lit c)
    then show "regexp_match (p # ps) s \<longleftrightarrow> (\<exists>t u. s = t @ u \<and> part_matches p t \<and> regexp_match ps u)"
      by (auto split: list.splits)
  next
    case OneOf
    then show "regexp_match (p # ps) s \<longleftrightarrow> (\<exists>t u. s = t @ u \<and> part_matches p t \<and> regexp_match ps u)"
      using one_then [of s "\<lambda>x. x \<noteq> CHR ''/''" "regexp_match ps"] by simp
  qed (simp_all add: star_then_iff; metis)+
qed simp

lemma slashes_parts:
  assumes "list_all2 part_matches ps ts" "AnyRun \<notin> set ps"
  shows "count_list (concat ts) (CHR ''/'') = count_list ps (Lit (CHR ''/''))"
  using assms
proof (induction ps ts rule: list_all2_induct)
  case (Cons p ps t ts)
  then show ?case by (cases p) (auto simp: count_list_0_iff)
qed simp

lemma slashes_pattern: "count_list (globToRegexp pattern) (Lit (CHR ''/'')) = count_list pattern (CHR ''/'')"
proof (induction pattern rule: globToRegexp.induct)
  case (2 c cs)
  show ?case
  proof (cases cs)
    case (Cons d ds)
    with 2 show ?thesis by (cases "c = CHR ''*''"; cases "d = CHR ''*''"; cases "d = CHR ''/''") auto
  qed (use 2 in auto)
qed simp

section \<open>What pinning does to the images\<close>

definition pinned :: "(string \<times> string) list \<Rightarrow> string \<Rightarrow> string" where
  "pinned pins img = (case map_of pins img of Some p \<Rightarrow> p | None \<Rightarrow> img)"

lemma container_image_pin: "container_image (pin_container pins c) = map_option (pinned pins) (container_image c)"
proof (cases "container_image c")
  case (Some img)
  then have "nested [''image''] c \<noteq> None" by (auto simp: container_image_def split: option.splits)
  note nested_set_nested [OF this]
  with Some show ?thesis by (auto simp: pin_container_def pinned_def container_image_def split: option.splits)
qed (simp add: pin_container_def)

lemma map_filter_pin:
  "List.map_filter container_image (map (pin_container pins) l) = map (pinned pins) (List.map_filter container_image l)"
  by (induction l) (simp_all add: List.map_filter_simps container_image_pin split: option.splits)

lemma field_images_pin: "field_images base (pin_field pins base f obj) g =
    (if g = f then map (pinned pins) (field_images base obj g) else field_images base obj g)"
proof (cases "nested_slice (base @ [f]) obj")
  case (Some l)
  let ?l = "map (pin_container pins) l"
  have same: "nested_slice (base @ [f]) (set_nested (base @ [f]) (JList ?l) obj) = Some ?l"
    by (rule nested_slice_set) (simp add: Some)
  have other: "g \<noteq> f \<Longrightarrow> nested_slice (base @ [g]) (set_nested (base @ [f]) (JList ?l) obj) = nested_slice (base @ [g]) obj"
    by (rule nested_slice_set_other) simp
  have "?l = l \<Longrightarrow> map (pinned pins) (List.map_filter container_image l) = List.map_filter container_image l"
    using map_filter_pin [of pins l] by simp
  with Some same other show ?thesis by (auto simp: field_images_def pin_field_def map_filter_pin)
qed (simp add: field_images_def pin_field_def)

lemma GetKind_pin_field: "hd base \<noteq> ''kind'' \<Longrightarrow> base \<noteq> [] \<Longrightarrow> GetKind (pin_field pins base f obj) = GetKind obj"
  by (cases base) (auto simp: pin_field_def GetKind_set split: option.splits)

lemma podSpecPath_spec: "podSpecPath kind = Some base \<Longrightarrow> base \<noteq> [] \<and> hd base = ''spec''"
  by (auto simp: podSpecPath_def split: if_splits)

lemma imagesInObject_pin: "imagesInObject (pin_object pins obj) = map (pinned pins) (imagesInObject obj)"
proof (cases "podSpecPath (GetKind obj)")
  case (Some base)
  note spec = podSpecPath_spec [OF Some]
  have kind: "GetKind (pin_object pins obj) = GetKind obj"
    using spec Some by (simp add: pin_object_def image_fields_def GetKind_pin_field)
  show ?thesis
    using Some unfolding imagesInObject_def kind by (simp add: pin_object_def image_fields_def field_images_pin)
qed (simp add: imagesInObject_def pin_object_def)

definition all_images :: "json list \<Rightarrow> string list" where
  "all_images objects = concat (map imagesInObject objects)"

lemma all_images_pin: "all_images (PinImages objects pins) = map (pinned pins) (all_images objects)"
proof (cases "pins = []")
  case True
  then have "pinned pins = (\<lambda>img. img)" by (auto simp: pinned_def)
  with True show ?thesis by (simp add: PinImages_def)
next
  case False
  then show ?thesis by (simp add: PinImages_def all_images_def imagesInObject_pin map_concat comp_def)
qed

lemma set_ExtractImages: "set (ExtractImages objects) = {img \<in> set (all_images objects). img \<noteq> []}"
  by (auto simp: ExtractImages_def all_images_def)

section \<open>What the verifier accepts\<close>

text \<open>An authority vouches for a digest when it verifies one of the bundles attached to it.\<close>

definition vouches :: "'e sigstore \<Rightarrow> 'e list \<Rightarrow> string \<Rightarrow> string \<Rightarrow> VerificationAuthority \<Rightarrow> bool" where
  "vouches sg entities algo hex a \<longleftrightarrow>
     (\<exists>k. va_Keyless a = Some k \<and> verifyKeyless sg k entities algo hex) \<or>
     (\<exists>k. va_Keyless a = None \<and> va_Key a = Some k \<and> verifyKey sg k entities algo hex)"

definition accepts :: "'e sigstore \<Rightarrow> registry \<Rightarrow> ImageVerificationPolicy \<Rightarrow> string \<Rightarrow> string \<Rightarrow> bool" where
  "accepts sg rg p ref img \<longleftrightarrow>
     (\<exists>algo hex entities. rg_resolve rg ref = Some (img, algo, hex) \<and> fetchBundles sg rg img = Some entities \<and>
        (\<exists>a\<in>set (ivp_Authorities p). vouches sg entities algo hex a))"

lemma verify_authorities_ok:
  "verify_authorities sg loads once entities algo hex as = (once', None) \<Longrightarrow> \<exists>a\<in>set as. vouches sg entities algo hex a"
  by (induction as arbitrary: once) (auto simp: vouches_def split: option.splits prod.splits bool.splits if_splits)

lemma Verify_ok:
  assumes "Verify env st ref p = (st', Inr img)"
  shows "fst st' = Suc (fst st)" "accepts (vf_sigstore env) (vf_registry env (fst st)) p ref img"
proof -
  obtain n once where st: "st = (n, once)" by fastforce
  with assms show "fst st' = Suc (fst st)"
    by (auto simp: Let_def split: if_splits option.splits prod.splits)
  obtain algo hex entities once' where "rg_resolve (vf_registry env n) ref = Some (img, algo, hex)"
    "fetchBundles (vf_sigstore env) (vf_registry env n) img = Some entities"
    "verify_authorities (vf_sigstore env) (vf_rootLoads env n) once entities algo hex (ivp_Authorities p) = (once', None)"
    using assms st by (auto simp: Let_def split: if_splits option.splits prod.splits)
  with verify_authorities_ok [OF this(3)] show "accepts (vf_sigstore env) (vf_registry env (fst st)) p ref img"
    by (auto simp: accepts_def st)
qed

lemma accepts_unique: "accepts sg rg p ref img \<Longrightarrow> accepts sg rg q ref img' \<Longrightarrow> img' = img"
  by (auto simp: accepts_def)

lemma verify_policies_ok:
  assumes "\<forall>n. vf_registry env n = rg" "verify_policies env st ref ps digest = (st', Inr img)"
  shows "(ps = [] \<and> img = digest) \<or> (\<forall>p\<in>set ps. accepts (vf_sigstore env) rg p ref img)"
  using assms(2)
proof (induction ps arbitrary: st digest)
  case (Cons p ps)
  then obtain st1 d where v: "Verify env st ref p = (st1, Inr d)" "verify_policies env st1 ref ps d = (st', Inr img)"
    by (auto split: prod.splits sum.splits)
  have acc: "accepts (vf_sigstore env) rg p ref d" using Verify_ok(2) [OF v(1)] assms(1) by simp
  show ?case
  proof (cases ps)
    case Nil
    with v(2) acc show ?thesis by simp
  next
    case (Cons q qs)
    with Cons.IH [OF v(2)] have all: "\<forall>p\<in>set ps. accepts (vf_sigstore env) rg p ref img" by auto
    moreover from this Cons have "img = d" using accepts_unique [OF acc] by auto
    ultimately show ?thesis using acc by simp
  qed
qed simp

text \<open>The pins: each rewrites a governed reference to the image its policies accepted.\<close>

definition governed :: "'e sigstore \<Rightarrow> registry \<Rightarrow> bool \<Rightarrow> ImageVerificationPolicy list \<Rightarrow> string \<Rightarrow> string \<Rightarrow> bool" where
  "governed sg rg reqd policies ref img \<longleftrightarrow>
     (if fst (Match policies ref) = [] then img = ref \<and> (snd (Match policies ref) \<or> \<not> reqd)
      else \<forall>p\<in>set (fst (Match policies ref)). accepts sg rg p ref img)"

lemma gate_refs_ok:
  assumes "\<forall>n. vf_registry env n = rg" "\<forall>ref algo hex. rg_resolve rg ref \<noteq> Some ([], algo, hex)"
    and "gate_refs env reqd policies st pins refs = (st', Inr pins')" "distinct refs" "\<forall>ref\<in>set refs. map_of pins ref = None"
  shows "(\<forall>ref\<in>set refs. governed (vf_sigstore env) rg reqd policies ref (pinned pins' ref)) \<and>
    (\<forall>ref. ref \<notin> set refs \<longrightarrow> map_of pins' ref = map_of pins ref)"
  using assms(3-5)
proof (induction refs arbitrary: st pins)
  case (Cons ref refs)
  obtain matched skipped where m: "Match policies ref = (matched, skipped)" by fastforce
  obtain st1 pins1 where rest: "gate_refs env reqd policies st1 pins1 refs = (st', Inr pins')"
    and here: "governed (vf_sigstore env) rg reqd policies ref (pinned pins1 ref)"
    and frame: "\<forall>r. r \<noteq> ref \<longrightarrow> map_of pins1 r = map_of pins r"
  proof (cases "matched = []")
    case True
    have "gate_refs env reqd policies st pins refs = (st', Inr pins')" "skipped \<or> \<not> reqd"
      using Cons.prems(1) True m by (auto split: if_splits)
    moreover have "pinned pins ref = ref" using Cons.prems(3) by (simp add: pinned_def)
    ultimately show ?thesis using True m by (intro that) (auto simp: governed_def)
  next
    case False
    obtain st2 digest where v: "verify_policies env st ref matched [] = (st2, Inr digest)"
      and g: "gate_refs env reqd policies st2 (if digest \<noteq> [] \<and> digest \<noteq> ref then (ref, digest) # pins else pins) refs = (st', Inr pins')"
      using Cons.prems(1) False m by (auto split: prod.splits sum.splits)
    have acc: "\<forall>p\<in>set matched. accepts (vf_sigstore env) rg p ref digest"
      using verify_policies_ok [OF assms(1) v] False by blast
    then have "digest \<noteq> []" using assms(2) False by (cases matched) (auto simp: accepts_def)
    then have "pinned (if digest \<noteq> [] \<and> digest \<noteq> ref then (ref, digest) # pins else pins) ref = digest"
      using Cons.prems(3) by (simp add: pinned_def)
    then show ?thesis using g acc m False by (intro that [OF g]) (auto simp: governed_def)
  qed
  have fresh: "\<forall>r\<in>set refs. map_of pins1 r = None" "ref \<notin> set refs"
    using frame Cons.prems(2,3) by auto
  from Cons.IH [OF rest _ fresh(1)] Cons.prems(2) here frame fresh(2) show ?case by (auto simp: pinned_def)
qed simp

section \<open>Properties\<close>


text \<open>What a glob matches. A pattern matches a name exactly when the name splits into one part per
  element: a literal itself, \<open>?\<close> a character other than a slash, \<open>*\<close> a run without slashes, \<open>**\<close> any run
  (of one line). So without \<open>**\<close> a pattern only matches names with as many slashes as itself, and a
  pattern without wildcards matches only itself.\<close>

theorem glob_exact:
  "(globMatch pattern s \<longleftrightarrow> (\<exists>ts. s = concat ts \<and> list_all2 part_matches (globToRegexp pattern) ts)) \<and>
   (AnyRun \<notin> set (globToRegexp pattern) \<and> globMatch pattern s \<longrightarrow>
      count_list s (CHR ''/'') = count_list pattern (CHR ''/'')) \<and>
   (CHR ''*'' \<notin> set pattern \<and> CHR ''?'' \<notin> set pattern \<longrightarrow> globMatch pattern s = (s = pattern))"
proof (intro conjI impI)
  show iff: "globMatch pattern s \<longleftrightarrow> (\<exists>ts. s = concat ts \<and> list_all2 part_matches (globToRegexp pattern) ts)"
    by (simp add: globMatch_def regexp_match_iff)
  show "count_list s (CHR ''/'') = count_list pattern (CHR ''/'')"
    if "AnyRun \<notin> set (globToRegexp pattern) \<and> globMatch pattern s"
    using that iff slashes_parts slashes_pattern by metis
  have "CHR ''*'' \<notin> set p \<Longrightarrow> CHR ''?'' \<notin> set p \<Longrightarrow> regexp_match (globToRegexp p) s = (s = p)" for p
    by (induction p arbitrary: s) (auto split: list.splits)
  then show "globMatch pattern s = (s = pattern)" if "CHR ''*'' \<notin> set pattern \<and> CHR ''?'' \<notin> set pattern"
    using that by (simp add: globMatch_def)
qed

theorem glob_exact_witness:
  "globMatch ''reg/*/app'' ''reg/team/app'' \<and> \<not> globMatch ''reg/*/app'' ''reg/a/b/app'' \<and> globMatch ''reg/**'' ''reg/a/b'' \<and>
   \<not> globMatch ''reg/app'' ''reg/app2''"
proof -
  have "AnyRun \<notin> set (globToRegexp ''reg/*/app'')" by code_simp
  then have "\<not> globMatch ''reg/*/app'' ''reg/a/b/app''" using glob_exact [of "''reg/*/app''" "''reg/a/b/app''"] by auto
  moreover have "\<not> globMatch ''reg/app'' ''reg/app2''" using glob_exact [of "''reg/app''" "''reg/app2''"] by auto
  ultimately show ?thesis by (intro conjI) code_simp+
qed

text \<open>A pod whose tag is governed by two policies, each trusting its own key.\<close>

definition demo_pod :: json where
  "demo_pod = JMap [(''kind'', JString ''Pod''), (''spec'', JMap [(''containers'',
     JList [JMap [(''name'', JString ''web''), (''image'', JString ''reg/app:1'')]])])]"

definition demo_policy :: "string \<Rightarrow> string \<Rightarrow> ImageVerificationPolicy" where
  "demo_policy name key = \<lparr>ivp_Name = name, ivp_Images = [''reg/*''], ivp_Authorities = [\<lparr>va_Keyless = None,
     va_Key = Some \<lparr>ka_PublicKey = key\<rparr>\<rparr>], ivp_RequireAttestations = [], ivp_Skip = []\<rparr>"

text \<open>A bundle is the text of the key that signed it.\<close>

definition demo_sigstore :: "string sigstore" where
  "demo_sigstore = \<lparr>sg_parse = Some, sg_identity = (\<lambda>_. False), sg_keyless = (\<lambda>_ _ _ _. False), sg_keyLoads = (\<lambda>_. True),
     sg_key = (\<lambda>k e _ _. e = ka_PublicKey k)\<rparr>"

definition demo_registry :: "string \<Rightarrow> string list \<Rightarrow> registry" where
  "demo_registry digest keys = \<lparr>rg_resolve = (\<lambda>ref. Some (''reg/app@'' @ digest, ''sha256'', digest)),
     rg_referrers = (\<lambda>_. Some [\<lparr>rf_ArtifactType = bundleArtifactPrefix, rf_layers = Some (map Some keys)\<rparr>])\<rparr>"

definition demo_gate :: "(nat \<Rightarrow> registry) \<Rightarrow> string gate_env" where
  "demo_gate rgs = \<lparr>ge_verifier = Some \<lparr>vf_sigstore = demo_sigstore, vf_registry = rgs, vf_rootLoads = (\<lambda>_. True)\<rparr>,
     ge_policies = Some [demo_policy ''a'' ''k1'', demo_policy ''b'' ''k2''], ge_require = True\<rparr>"


text \<open>
  The registry must not change: between the calls for two policies the tag may move, and the digest that
  is pinned is the one the last policy saw. Here the first policy's key never signed it.
\<close>

lemma moved_tag_example:
  "\<exists>objects'. verifyStageImages (demo_gate (\<lambda>n. if n = 0 then demo_registry ''d1'' [''k1''] else demo_registry ''d2'' [''k2'']))
      (plain_set []) (0, None) [demo_pod] = ((2, None), Inr objects') \<and> all_images objects' = [''reg/app@d2''] \<and>
    \<not> accepts demo_sigstore (demo_registry ''d2'' [''k2'']) (demo_policy ''a'' ''k1'') ''reg/app:1'' ''reg/app@d2''"
proof -
  have "verifyStageImages (demo_gate (\<lambda>n. if n = 0 then demo_registry ''d1'' [''k1''] else demo_registry ''d2'' [''k2'']))
      (plain_set []) (0, None) [demo_pod] = ((2, None), Inr (PinImages [demo_pod] [(''reg/app:1'', ''reg/app@d2'')]))" by code_simp
  moreover have "all_images (PinImages [demo_pod] [(''reg/app:1'', ''reg/app@d2'')]) = [''reg/app@d2'']" by code_simp
  moreover have "fetchBundles demo_sigstore (demo_registry ''d2'' [''k2'']) ''reg/app@d2'' = Some [''k2'']" by code_simp
  then have "\<not> accepts demo_sigstore (demo_registry ''d2'' [''k2'']) (demo_policy ''a'' ''k1'') ''reg/app:1'' ''reg/app@d2''"
    by (auto simp: accepts_def vouches_def demo_policy_def demo_registry_def demo_sigstore_def verifyKey_def)
  ultimately show ?thesis by blast
qed

text \<open>
  A trusted root that could not be loaded once is never loaded again: every later verification of a
  policy with keyless authorities is refused, whatever a load would give by then.
\<close>

lemma lost_root_refuses:
  assumes "\<forall>a\<in>set (ivp_Authorities p). va_Keyless a \<noteq> None" "snd st = Some False"
  shows "isl (snd (Verify env st ref p)) \<and> snd (fst (Verify env st ref p)) = Some False"
proof -
  obtain n where st: "st = (n, Some False)" using assms(2) by (cases st) simp
  have refused: "once' = Some False \<and> r \<noteq> None"
    if "verify_authorities sg loads (Some False) entities algo hex (ivp_Authorities p) = (once', r)"
    for sg :: "'a sigstore" and loads entities algo hex once' r
    using assms(1) that by (cases "ivp_Authorities p") (auto simp: trustedVerifier_def split: option.splits)
  then show ?thesis unfolding st by (auto simp: Let_def split: option.splits prod.splits dest!: refused)
qed

end
