(* ===== verification/Apply.thy ===== *)
theory Apply
  imports Json StageControl "HOL-Library.AList"
begin

text \<open>
  What happens to a stage's objects before the server-side apply (\<open>internal/apply\<close>): the stage label
  (\<open>memberlabels.go\<close>) and the treatment of immutable-field conflicts (\<open>conflict.go\<close>), with the markers the
  apply library matches against. The library's match of a selector, against the rendered and the live
  object, is written out as \<open>marked\<close>.
\<close>

section \<open>String maps of the metadata\<close>

text \<open>\<open>GetLabels\<close>, \<open>GetAnnotations\<close>: none when the field is no map or a value is not a string.\<close>

definition metadata_map :: "string \<Rightarrow> json \<Rightarrow> (string \<times> json) list" where
  "metadata_map field obj =
     (case nested [''metadata'', field] obj of
        Some (JMap m) \<Rightarrow> if list_all (\<lambda>kv. case snd kv of JString _ \<Rightarrow> True | _ \<Rightarrow> False) m then m else []
      | _ \<Rightarrow> [])"

text \<open>\<open>SetNestedField\<close> creating what is missing; a field that is no map stops it.\<close>

fun put_nested :: "string list \<Rightarrow> json \<Rightarrow> json \<Rightarrow> json" where
  "put_nested [] x v = x"
| "put_nested (k # ks) x (JMap m) =
     JMap (AList.update k (put_nested ks x (case map_of m k of Some v \<Rightarrow> v | None \<Rightarrow> JMap [])) m)"
| "put_nested (k # ks) x v = v"

definition put_entry :: "string \<Rightarrow> string \<Rightarrow> string \<Rightarrow> json \<Rightarrow> json" where
  "put_entry field key v obj =
     put_nested [''metadata'', field] (JMap (AList.update key (JString v) (metadata_map field obj))) obj"

definition annotation_of :: "string \<Rightarrow> json \<Rightarrow> string" where
  "annotation_of key obj = (case map_of (metadata_map ''annotations'' obj) key of Some (JString v) \<Rightarrow> v | _ \<Rightarrow> [])"

section \<open>The stage label (memberlabels.go)\<close>

definition StageLabel :: string where
  "StageLabel = ''stages.metio.wtf/stage''"

definition StampStageLabel :: "json list \<Rightarrow> string \<Rightarrow> json list" where
  "StampStageLabel objects stage = map (put_entry ''labels'' StageLabel stage) objects"

section \<open>Immutable-field conflicts (conflict.go)\<close>

definition forceAnnotation :: string where
  "forceAnnotation = ''stages.metio.wtf/force''"

definition keepExistingAnnotation :: string where
  "keepExistingAnnotation = ''stages.metio.wtf/keep-existing''"

definition keepExistingValue :: string where
  "keepExistingValue = ''true''"

record ConflictHandling =
  ch_ForceSelector :: "(string \<times> string) option"
  ch_IfNotPresentSelector :: "(string \<times> string) option"

definition setAnnotation :: "json \<Rightarrow> string \<Rightarrow> string \<Rightarrow> json" where
  "setAnnotation obj key v = put_entry ''annotations'' key v obj"

definition isStatefulData :: "json \<Rightarrow> bool" where
  "isStatefulData obj \<longleftrightarrow>
     nested_string [''apiVersion''] obj = ''v1'' \<and>
     (GetKind obj = ''PersistentVolumeClaim'' \<or> GetKind obj = ''PersistentVolume'')"

definition matchesConflictTarget :: "json \<Rightarrow> ConflictTarget \<Rightarrow> bool" where
  "matchesConflictTarget obj t \<longleftrightarrow>
     (ct_APIVersion t = [] \<or> ct_APIVersion t = nested_string [''apiVersion''] obj) \<and>
     (ct_Kind t = [] \<or> ct_Kind t = GetKind obj) \<and>
     (ct_Name t = [] \<or> ct_Name t = nested_string [''metadata'', ''name''] obj) \<and>
     (ct_Namespace t = [] \<or> ct_Namespace t = nested_string [''metadata'', ''namespace''] obj)"

text \<open>The action, whether data loss is allowed, and whether a rule decided.\<close>

definition conflictActionFor :: "json \<Rightarrow> ConflictPolicy option \<Rightarrow> string \<Rightarrow> string \<times> bool \<times> bool" where
  "conflictActionFor obj policy fallback =
     (if annotation_of forceAnnotation obj \<noteq> [] then (''Recreate'', False, False)
      else case (case policy of None \<Rightarrow> None
          | Some p \<Rightarrow> find (\<lambda>r. matchesConflictTarget obj (cr_Target r)) (cp_Rules p)) of
        Some r \<Rightarrow> (cr_Action r, cr_AllowDataLoss r, True)
      | None \<Rightarrow> (fallback, False, False))"

definition effective_default :: "Stage \<Rightarrow> string" where
  "effective_default stage =
     (case stg_ConflictPolicy stage of
        Some p \<Rightarrow> if cp_Default p \<noteq> [] then cp_Default p else if stg_Force stage then ''Recreate'' else ''Fail''
      | None \<Rightarrow> if stg_Force stage then ''Recreate'' else ''Fail'')"

text \<open>What the loop does with one object, and with the selectors.\<close>

definition mark_object :: "string \<Rightarrow> string \<Rightarrow> json \<Rightarrow> json" where
  "mark_object token action obj =
     (if action = ''Recreate'' then setAnnotation obj forceAnnotation token
      else if action = ''KeepExisting'' then setAnnotation obj keepExistingAnnotation keepExistingValue
      else obj)"

definition note_action :: "string \<Rightarrow> string \<Rightarrow> ConflictHandling \<Rightarrow> ConflictHandling" where
  "note_action token action ch =
     (if action = ''Recreate'' then ch\<lparr>ch_ForceSelector := Some (forceAnnotation, token)\<rparr>
      else if action = ''KeepExisting'' then ch\<lparr>ch_IfNotPresentSelector := Some (keepExistingAnnotation, keepExistingValue)\<rparr>
      else ch)"

text \<open>\<open>None\<close> is the refusal to recreate a volume or a claim by a rule.\<close>

fun resolve_conflicts ::
  "ConflictPolicy option \<Rightarrow> string \<Rightarrow> string \<Rightarrow> json list \<Rightarrow> ConflictHandling \<Rightarrow> (json list \<times> ConflictHandling) option" where
  "resolve_conflicts policy fallback token [] ch = Some ([], ch)"
| "resolve_conflicts policy fallback token (obj # objs) ch =
     (case conflictActionFor obj policy fallback of
        (action, allowDataLoss, fromRule) \<Rightarrow>
          if action = ''Recreate'' \<and> fromRule \<and> \<not> allowDataLoss \<and> isStatefulData obj then None
          else map_option (\<lambda>(rest, ch'). (mark_object token action obj # rest, ch'))
                 (resolve_conflicts policy fallback token objs (note_action token action ch)))"

definition ResolveConflictHandling :: "json list \<Rightarrow> Stage \<Rightarrow> string \<Rightarrow> (json list \<times> ConflictHandling) option" where
  "ResolveConflictHandling objects stage token =
     resolve_conflicts (stg_ConflictPolicy stage) (effective_default stage) token objects
       \<lparr>ch_ForceSelector = None, ch_IfNotPresentSelector = None\<rparr>"

section \<open>Reading what was written\<close>

text \<open>A rendered object is a map whose metadata, if any, is a map.\<close>

definition shaped :: "json \<Rightarrow> bool" where
  "shaped obj \<longleftrightarrow> (\<exists>m. obj = JMap m \<and> (case map_of m ''metadata'' of None \<Rightarrow> True | Some v \<Rightarrow> \<exists>m'. v = JMap m'))"

abbreviation string_values :: "(string \<times> json) list \<Rightarrow> bool" where
  "string_values \<equiv> list_all (\<lambda>kv. case snd kv of JString _ \<Rightarrow> True | _ \<Rightarrow> False)"

lemma string_values_update: "string_values m \<Longrightarrow> string_values (AList.update k (JString v) m)"
  by (induction m) auto

lemma metadata_map_strings: "string_values (metadata_map field obj)"
  by (auto simp: metadata_map_def split: option.splits json.splits)

lemma nested_put_metadata:
  assumes "shaped obj"
  shows "nested [''metadata'', f] (put_nested [''metadata'', g] x obj) =
    (if f = g then Some x else nested [''metadata'', f] obj)"
proof -
  from assms obtain m where m: "obj = JMap m" by (auto simp: shaped_def)
  show ?thesis
  proof (cases "map_of m ''metadata''")
    case None
    then show ?thesis by (simp add: m update_conv')
  next
    case (Some v)
    with assms m obtain m' where "v = JMap m'" by (auto simp: shaped_def)
    with Some show ?thesis by (simp add: m update_conv')
  qed
qed

lemma metadata_map_put:
  assumes "shaped obj"
  shows "metadata_map f (put_entry g k v obj) =
    (if f = g then AList.update k (JString v) (metadata_map g obj) else metadata_map f obj)"
  using string_values_update [OF metadata_map_strings, of k v g obj]
  by (simp add: metadata_map_def [of f] put_entry_def nested_put_metadata [OF assms])

lemma annotation_of_set:
  assumes "shaped obj"
  shows "annotation_of k' (setAnnotation obj k v) = (if k' = k then v else annotation_of k' obj)"
  by (simp add: annotation_of_def setAnnotation_def metadata_map_put [OF assms] update_conv')

definition label_of :: "string \<Rightarrow> json \<Rightarrow> string" where
  "label_of key obj = (case map_of (metadata_map ''labels'' obj) key of Some (JString v) \<Rightarrow> v | _ \<Rightarrow> [])"

lemma label_of_set: "shaped obj \<Longrightarrow> label_of k' (setAnnotation obj k v) = label_of k' obj"
  by (simp add: label_of_def setAnnotation_def metadata_map_put)

section \<open>What is recreated\<close>

text \<open>The apply library recreates an object on an immutable-field conflict when the rendered or the live
  object matches the force selector by a label or an annotation.\<close>

definition selects :: "(string \<times> string) option \<Rightarrow> json \<Rightarrow> bool" where
  "selects sel obj = (case sel of None \<Rightarrow> False | Some (k, v) \<Rightarrow> annotation_of k obj = v \<or> label_of k obj = v)"

definition recreated :: "ConflictHandling \<Rightarrow> json \<Rightarrow> json option \<Rightarrow> bool" where
  "recreated ch obj alive \<longleftrightarrow>
     selects (ch_ForceSelector ch) obj \<or> (case alive of None \<Rightarrow> False | Some l \<Rightarrow> selects (ch_ForceSelector ch) l)"

lemma resolve_conflicts_Cons:
  assumes "resolve_conflicts policy fallback token (obj # objs) ch = Some (objs', ch')"
    and "conflictActionFor obj policy fallback = (action, loss, rule)"
  obtains rest where "resolve_conflicts policy fallback token objs (note_action token action ch) = Some (rest, ch')"
    "objs' = mark_object token action obj # rest" "action = ''Recreate'' \<Longrightarrow> rule \<Longrightarrow> loss \<or> \<not> isStatefulData obj"
  using assms by (auto split: if_splits)

lemma note_action_selector:
  "ch_ForceSelector (note_action token action ch) =
    (if action = ''Recreate'' then Some (forceAnnotation, token) else ch_ForceSelector ch)"
  by (simp add: note_action_def)

text \<open>The selector is set exactly when it was, or some object is to be recreated.\<close>

lemma resolve_conflicts_selector:
  "resolve_conflicts policy fallback token objs ch = Some (objs', ch') \<Longrightarrow>
    ch_ForceSelector ch' = (if \<exists>obj\<in>set objs. fst (conflictActionFor obj policy fallback) = ''Recreate''
      then Some (forceAnnotation, token) else ch_ForceSelector ch)"
proof (induction objs arbitrary: ch objs')
  case (Cons obj objs)
  obtain action loss rule where act: "conflictActionFor obj policy fallback = (action, loss, rule)" by (metis prod_cases3)
  from resolve_conflicts_Cons [OF Cons.prems act] obtain rest where
    "resolve_conflicts policy fallback token objs (note_action token action ch) = Some (rest, ch')" .
  from Cons.IH [OF this] act show ?case by (simp add: note_action_selector)
qed simp

lemma resolve_conflicts_objects:
  "resolve_conflicts policy fallback token objs ch = Some (objs', ch') \<Longrightarrow>
    objs' = map (\<lambda>obj. mark_object token (fst (conflictActionFor obj policy fallback)) obj) objs \<and>
    (\<forall>obj\<in>set objs. case conflictActionFor obj policy fallback of (action, loss, rule) \<Rightarrow>
       action = ''Recreate'' \<longrightarrow> rule \<longrightarrow> loss \<or> \<not> isStatefulData obj)"
proof (induction objs arbitrary: ch objs')
  case (Cons obj objs)
  obtain action loss rule where act: "conflictActionFor obj policy fallback = (action, loss, rule)" by (metis prod_cases3)
  from resolve_conflicts_Cons [OF Cons.prems act] obtain rest where
    rest: "resolve_conflicts policy fallback token objs (note_action token action ch) = Some (rest, ch')"
    and "objs' = mark_object token action obj # rest" "action = ''Recreate'' \<Longrightarrow> rule \<Longrightarrow> loss \<or> \<not> isStatefulData obj" by blast
  with Cons.IH [OF rest] act show ?case by simp
qed simp

lemma selects_mark:
  assumes "shaped obj" "\<not> selects (Some (forceAnnotation, token)) obj"
  shows "selects (Some (forceAnnotation, token)) (mark_object token action obj) \<longleftrightarrow> action = ''Recreate''"
proof -
  have "forceAnnotation \<noteq> keepExistingAnnotation" by code_simp
  then show ?thesis using assms
    by (simp add: selects_def mark_object_def annotation_of_set label_of_set)
qed

text \<open>C33: What a conflict may destroy: with a token no object carries, an object is recreated on an
  immutable-field conflict exactly when its own annotation, the first rule that matches it, or (no rule
  matching) the stage's default says Recreate, whatever markers earlier applies left on the live objects.
  For a persistent volume or a claim, a rule must also allow the data loss, or the whole stage is refused.\<close>

theorem recreate_guard:
  assumes "ResolveConflictHandling objects stage token = Some (objs, ch)"
    and "\<forall>obj\<in>set objects. shaped obj \<and> \<not> selects (Some (forceAnnotation, token)) obj"
    and "\<forall>l\<in>set_option alive. \<not> selects (Some (forceAnnotation, token)) l"
    and "i < length objects"
  shows "length objs = length objects \<and>
    (recreated ch (objs ! i) alive \<longleftrightarrow>
       annotation_of forceAnnotation (objects ! i) \<noteq> [] \<or>
       (case Option.bind (stg_ConflictPolicy stage) (\<lambda>p. find (\<lambda>r. matchesConflictTarget (objects ! i) (cr_Target r)) (cp_Rules p)) of
          Some r \<Rightarrow> cr_Action r = ''Recreate'' \<and> (cr_AllowDataLoss r \<or> \<not> isStatefulData (objects ! i))
        | None \<Rightarrow> effective_default stage = ''Recreate''))"
proof -
  let ?policy = "stg_ConflictPolicy stage" let ?obj = "objects ! i"
  let ?rule = "Option.bind ?policy (\<lambda>p. find (\<lambda>r. matchesConflictTarget ?obj (cr_Target r)) (cp_Rules p))"
  have mem: "?obj \<in> set objects" using assms(4) by simp
  note res = assms(1) [unfolded ResolveConflictHandling_def]
  note sel = resolve_conflicts_selector [OF res] note obs = resolve_conflicts_objects [OF res]
  obtain action loss rule where act: "conflictActionFor ?obj ?policy (effective_default stage) = (action, loss, rule)"
    by (metis prod_cases3)
  have marked: "objs ! i = mark_object token action ?obj" "length objs = length objects"
    using obs assms(4) act by auto
  have guard: "action = ''Recreate'' \<longrightarrow> rule \<longrightarrow> loss \<or> \<not> isStatefulData ?obj"
    using obs mem act by fastforce
  have "recreated ch (objs ! i) alive \<longleftrightarrow> action = ''Recreate''"
  proof (cases "action = ''Recreate''")
    case True
    then have "ch_ForceSelector ch = Some (forceAnnotation, token)" using sel mem act by force
    then show ?thesis using selects_mark assms(2) mem True by (auto simp: recreated_def marked)
  next
    case False
    have "ch_ForceSelector ch \<in> {None, Some (forceAnnotation, token)}" using sel by simp
    then show ?thesis using selects_mark assms(2,3) mem False
      by (auto simp: recreated_def marked selects_def [of None] split: option.splits)
  qed
  moreover have "action = ''Recreate'' \<longleftrightarrow> annotation_of forceAnnotation ?obj \<noteq> [] \<or>
      (case ?rule of Some r \<Rightarrow> cr_Action r = ''Recreate'' \<and> (cr_AllowDataLoss r \<or> \<not> isStatefulData ?obj)
        | None \<Rightarrow> effective_default stage = ''Recreate'')"
    using act guard by (auto simp: conflictActionFor_def split: if_splits option.splits)
  ultimately show ?thesis using marked(2) by simp
qed

definition demo_claim :: json where
  "demo_claim = JMap [(''apiVersion'', JString ''v1''), (''kind'', JString ''PersistentVolumeClaim''),
     (''metadata'', JMap [(''name'', JString ''data'')])]"

definition demo_conflict_stage :: Stage where
  "demo_conflict_stage = (plain_stage ''db'')\<lparr>stg_ConflictPolicy := Some \<lparr>cp_Default = ''Recreate'',
     cp_Rules = [\<lparr>cr_Target = \<lparr>ct_APIVersion = [], ct_Kind = ''PersistentVolumeClaim'', ct_Name = [], ct_Namespace = []\<rparr>,
       cr_Action = ''KeepExisting'', cr_AllowDataLoss = False\<rparr>]\<rparr>\<rparr>"

text \<open>A claim a rule keeps, although an old token is left on the live object and the default recreates.\<close>

lemma recreate_guard_witness:
  "\<exists>objs ch. ResolveConflictHandling [demo_claim] demo_conflict_stage ''t2'' = Some (objs, ch) \<and>
    \<not> recreated ch (objs ! 0) (Some (setAnnotation demo_claim forceAnnotation ''t1''))"
proof -
  obtain objs ch where res: "ResolveConflictHandling [demo_claim] demo_conflict_stage ''t2'' = Some (objs, ch)"
    by (cases "ResolveConflictHandling [demo_claim] demo_conflict_stage ''t2''") (simp, code_simp, auto)
  have "shaped demo_claim" by (simp add: shaped_def demo_claim_def)
  moreover have "\<not> selects (Some (forceAnnotation, ''t2'')) demo_claim" by code_simp
  moreover have "\<not> selects (Some (forceAnnotation, ''t2'')) (setAnnotation demo_claim forceAnnotation ''t1'')" by code_simp
  moreover have "annotation_of forceAnnotation demo_claim = []" by code_simp
  moreover have "Option.bind (stg_ConflictPolicy demo_conflict_stage) (\<lambda>p. find (\<lambda>r. matchesConflictTarget demo_claim (cr_Target r)) (cp_Rules p)) =
      Some \<lparr>cr_Target = \<lparr>ct_APIVersion = [], ct_Kind = ''PersistentVolumeClaim'', ct_Name = [], ct_Namespace = []\<rparr>,
       cr_Action = ''KeepExisting'', cr_AllowDataLoss = False\<rparr>"
    by code_simp
  ultimately have "\<not> recreated ch (objs ! 0) (Some (setAnnotation demo_claim forceAnnotation ''t1''))"
    using recreate_guard [OF res, of "Some (setAnnotation demo_claim forceAnnotation ''t1'')" 0] by simp
  with res show ?thesis by blast
qed

end
