(* ===== verification/RollbackStore.thy ===== *)
theory RollbackStore
  imports Prelude
begin

text \<open>
  The store of rendered output (\<open>internal/rollbackstore\<close>): keys and digests (\<open>key.go\<close>), the file
  backend with its atomic write (\<open>file.go\<close>), and the object names of the S3 backend (\<open>s3.go\<close>). The
  file system is a map from names to contents; a write passes through the states a crash can leave.
\<close>

section \<open>Keys and digests (key.go)\<close>

definition MaxObjectBytes :: int where
  "MaxObjectBytes = 67108864"

text \<open>\<open>None\<close> is the error of an object over the cap.\<close>

definition readCapped :: "string \<Rightarrow> string option" where
  "readCapped data = (if int (length data) > MaxObjectBytes then None else Some data)"

definition replace_char :: "char \<Rightarrow> char \<Rightarrow> string \<Rightarrow> string" where
  "replace_char a b s = map (\<lambda>c. if c = a then b else c) s"

definition Key :: "string \<Rightarrow> string \<Rightarrow> string \<Rightarrow> string \<Rightarrow> string" where
  "Key namespace name stage digest =
     namespace @ ''/'' @ name @ ''/'' @ stage @ ''/'' @ replace_char (CHR '':'') (CHR ''-'') digest"

definition is_lower_alnum :: "char \<Rightarrow> bool" where
  "is_lower_alnum c \<longleftrightarrow> byte_in (CHR ''a'') (CHR ''z'') c \<or> byte_in (CHR ''0'') (CHR ''9'') c"

definition is_hex_char :: "char \<Rightarrow> bool" where
  "is_hex_char c \<longleftrightarrow>
     byte_in (CHR ''0'') (CHR ''9'') c \<or> byte_in (CHR ''a'') (CHR ''f'') c \<or> byte_in (CHR ''A'') (CHR ''F'') c"

definition ValidDigest :: "string \<Rightarrow> bool" where
  "ValidDigest digest \<longleftrightarrow>
     (case cut (CHR '':'') digest of
        (algo, hex, found) \<Rightarrow> found \<and> algo \<noteq> [] \<and> hex \<noteq> [] \<and> list_all is_lower_alnum algo \<and> list_all is_hex_char hex)"

section \<open>The file backend (file.go)\<close>

type_synonym file_system = "string \<rightharpoonup> string"

definition flatName :: "string \<Rightarrow> string" where
  "flatName key = replace_char (CHR ''/'') (CHR ''_'') key"

definition temp_name :: "string \<Rightarrow> string" where
  "temp_name key = flatName key @ ''.tmp''"

text \<open>The steps of \<open>Put\<close> that can fail; a failing write has written some bytes.\<close>

datatype put_fault = CreateFails | PartialWrite nat | SyncFails | CloseFails | RenameFails

text \<open>On a failure the temporary file is removed; the boolean is success.\<close>

definition Put :: "put_fault option \<Rightarrow> string \<Rightarrow> string \<Rightarrow> file_system \<Rightarrow> file_system \<times> bool" where
  "Put fault key data fs =
     (case fault of
        None \<Rightarrow> (fs(temp_name key := None, flatName key := Some data), True)
      | Some _ \<Rightarrow> (fs(temp_name key := None), False))"

text \<open>Every state of the directory during a write, in order, up to and with the rename.\<close>

definition put_states :: "string \<Rightarrow> string \<Rightarrow> file_system \<Rightarrow> file_system list" where
  "put_states key data fs =
     [fs, fs(temp_name key := None)] @
     map (\<lambda>n. fs(temp_name key := Some (take n data))) [0 ..< Suc (length data)] @
     [fs(temp_name key := None, flatName key := Some data)]"

datatype get_result = GetError | GetMiss | GetFound string

definition Get :: "string \<Rightarrow> file_system \<Rightarrow> get_result" where
  "Get key fs =
     (case fs (flatName key) of
        None \<Rightarrow> GetMiss
      | Some data \<Rightarrow> (case readCapped data of None \<Rightarrow> GetError | Some d \<Rightarrow> GetFound d))"

section \<open>The S3 backend's object names (s3.go)\<close>

definition objectName :: "string \<Rightarrow> string \<Rightarrow> string" where
  "objectName prefix key = (if prefix = [] then key else trim_right (\<lambda>c. c = CHR ''/'') prefix @ ''/'' @ key)"

section \<open>Keys identify\<close>

text \<open>Kubernetes names, and stage names, have neither a slash nor an underscore.\<close>

definition plain_name :: "string \<Rightarrow> bool" where
  "plain_name s \<longleftrightarrow> CHR ''/'' \<notin> set s \<and> CHR ''_'' \<notin> set s"

definition well_keyed :: "string \<times> string \<times> string \<times> string \<Rightarrow> bool" where
  "well_keyed k = (case k of (ns, name, stage, digest) \<Rightarrow> plain_name ns \<and> plain_name name \<and> plain_name stage \<and> ValidDigest digest)"

definition key_of :: "string \<times> string \<times> string \<times> string \<Rightarrow> string" where
  "key_of k = (case k of (ns, name, stage, digest) \<Rightarrow> Key ns name stage digest)"

lemma append_sep_eq:
  assumes "x \<notin> set a" "x \<notin> set b"
  shows "a @ x # r = b @ x # s \<longleftrightarrow> a = b \<and> r = s"
proof
  assume eq: "a @ x # r = b @ x # s"
  have "(a, r, True) = (b, s, True)"
    unfolding cut_append [OF assms(1), symmetric] cut_append [OF assms(2), symmetric] eq ..
  then show "a = b \<and> r = s" by simp
qed simp

lemma byte_simps: "byte (CHR ''_'') = 95" "byte (CHR ''/'') = 47" "byte (CHR '':'') = 58" "byte (CHR ''-'') = 45" "byte (CHR ''p'') = 112"
  "byte (CHR ''a'') = 97" "byte (CHR ''z'') = 122" "byte (CHR ''0'') = 48" "byte (CHR ''9'') = 57" "byte (CHR ''f'') = 102"
  "byte (CHR ''A'') = 65" "byte (CHR ''F'') = 70"
  by (simp_all add: byte_def)

lemma replace_char_id: "a \<notin> set s \<Longrightarrow> replace_char a b s = s"
  by (auto simp: replace_char_def intro!: map_idI)

lemma replace_char_append [simp]: "replace_char a b (s @ t) = replace_char a b s @ replace_char a b t"
  by (simp add: replace_char_def)

lemma replace_char_Cons [simp]: "replace_char a b (c # t) = (if c = a then b else c) # replace_char a b t"
  by (simp add: replace_char_def)

lemma replace_char_Nil [simp]: "replace_char a b [] = []"
  by (simp add: replace_char_def)

text \<open>A valid digest in a key is the algorithm, a dash and the value, without separators.\<close>

lemma ValidDigest_parts:
  assumes "ValidDigest d"
  obtains algo hex where "d = algo @ CHR '':'' # hex" "replace_char (CHR '':'') (CHR ''-'') d = algo @ CHR ''-'' # hex"
    "CHR ''-'' \<notin> set algo" "plain_name (algo @ CHR ''-'' # hex)" "hex \<noteq> []" "\<forall>c\<in>set hex. is_hex_char c"
proof -
  obtain algo hex where c: "cut (CHR '':'') d = (algo, hex, True)" "hex \<noteq> []"
    "\<forall>c\<in>set algo. is_lower_alnum c" "\<forall>c\<in>set hex. is_hex_char c"
    using assms by (auto simp: ValidDigest_def list_all_iff split: prod.splits)
  have d: "d = algo @ CHR '':'' # hex" using cut_found [OF c(1)] by blast
  have no: "x \<notin> set algo" "x \<notin> set hex" if "x \<in> {CHR ''_'', CHR ''/'', CHR '':'', CHR ''-''}" for x
    using c(3,4) that by (auto simp: is_lower_alnum_def is_hex_char_def byte_in_def byte_simps)
  have "replace_char (CHR '':'') (CHR ''-'') d = algo @ CHR ''-'' # hex" using no d by (simp add: replace_char_id)
  then show thesis using that [OF d] no c by (auto simp: plain_name_def)
qed

lemma flatName_key:
  assumes "plain_name ns" "plain_name name" "plain_name stage" "plain_name d" "replace_char (CHR '':'') (CHR ''-'') digest = d"
  shows "flatName (Key ns name stage digest) = ns @ CHR ''_'' # name @ CHR ''_'' # stage @ CHR ''_'' # d"
  using assms by (simp add: flatName_def Key_def plain_name_def replace_char_id)

lemma flatName_parts:
  assumes "well_keyed (ns, name, stage, digest)"
  obtains algo hex where "digest = algo @ CHR '':'' # hex" "CHR ''-'' \<notin> set algo" "hex \<noteq> []" "\<forall>c\<in>set hex. is_hex_char c"
    "flatName (key_of (ns, name, stage, digest)) = ns @ CHR ''_'' # name @ CHR ''_'' # stage @ CHR ''_'' # algo @ CHR ''-'' # hex"
proof -
  have valid: "ValidDigest digest" "plain_name ns" "plain_name name" "plain_name stage" using assms by (simp_all add: well_keyed_def)
  from ValidDigest_parts [OF valid(1)] obtain algo hex where p: "digest = algo @ CHR '':'' # hex"
    "replace_char (CHR '':'') (CHR ''-'') digest = algo @ CHR ''-'' # hex"
    "CHR ''-'' \<notin> set algo" "plain_name (algo @ CHR ''-'' # hex)" "hex \<noteq> []" "\<forall>c\<in>set hex. is_hex_char c" by metis
  with flatName_key [OF valid(2-4) p(4,2)] show thesis by (intro that [of algo hex]) (simp_all add: key_of_def)
qed

lemma flatName_inj:
  assumes "well_keyed k" "well_keyed k'" "flatName (key_of k) = flatName (key_of k')"
  shows "k = k'"
proof -
  obtain ns name stage digest ns' name' stage' digest' where k: "k = (ns, name, stage, digest)" "k' = (ns', name', stage', digest')"
    by (metis prod_cases4)
  obtain algo hex where p: "digest = algo @ CHR '':'' # hex" "CHR ''-'' \<notin> set algo"
    "flatName (key_of k) = ns @ CHR ''_'' # name @ CHR ''_'' # stage @ CHR ''_'' # algo @ CHR ''-'' # hex"
    using flatName_parts assms(1) k by metis
  obtain algo' hex' where p': "digest' = algo' @ CHR '':'' # hex'" "CHR ''-'' \<notin> set algo'"
    "flatName (key_of k') = ns' @ CHR ''_'' # name' @ CHR ''_'' # stage' @ CHR ''_'' # algo' @ CHR ''-'' # hex'"
    using flatName_parts assms(2) k by metis
  have no: "CHR ''_'' \<notin> set ns" "CHR ''_'' \<notin> set ns'" "CHR ''_'' \<notin> set name" "CHR ''_'' \<notin> set name'"
    "CHR ''_'' \<notin> set stage" "CHR ''_'' \<notin> set stage'"
    using assms(1,2) k by (auto simp: well_keyed_def plain_name_def)
  from assms(3) p(3) p'(3) show ?thesis
    unfolding k by (simp add: append_sep_eq no p p')
qed

text \<open>A temporary file is no other key's file: its name ends in no hexadecimal digit.\<close>

lemma flatName_not_temp:
  assumes "well_keyed k"
  shows "flatName (key_of k) \<noteq> temp_name key"
proof
  assume eq: "flatName (key_of k) = temp_name key"
  obtain algo hex where "hex \<noteq> []" "\<forall>c\<in>set hex. is_hex_char c" "last (flatName (key_of k)) = last hex"
  proof -
    obtain ns name stage digest where k: "k = (ns, name, stage, digest)" by (metis prod_cases4)
    from assms flatName_parts [of ns name stage digest] k obtain algo hex where
      "hex \<noteq> []" "\<forall>c\<in>set hex. is_hex_char c" "flatName (key_of k) = (ns @ CHR ''_'' # name @ CHR ''_'' # stage @ CHR ''_'' # algo @ [CHR ''-'']) @ hex"
      by (metis append.assoc append_Cons append_Nil)
    then show thesis using that by simp
  qed
  moreover have "last (temp_name key) = CHR ''p''" by (simp add: temp_name_def)
  ultimately have "is_hex_char (CHR ''p'')" using eq by (metis last_in_set)
  then show False by (simp add: is_hex_char_def byte_in_def byte_simps)
qed

section \<open>Properties\<close>

text \<open>C31: a snapshot reads back as it was written, whatever happens during the write. For keys of Kubernetes
  names and canonical digests: a successful write is read back under its own key (when it is within
  the read cap) and changes no other key; a failed write changes no key; and if the process dies at
  any point of the write, every key still reads as before, its own possibly as after.\<close>

theorem store_roundtrip:
  assumes "well_keyed k" "well_keyed k'"
  shows "Get (key_of k') (fst (Put fault (key_of k) data fs)) =
      (if fault = None \<and> k' = k then (if int (length data) > MaxObjectBytes then GetError else GetFound data)
       else Get (key_of k') fs) \<and>
    (\<forall>disk\<in>set (put_states (key_of k) data fs). Get (key_of k') disk = Get (key_of k') fs \<or>
       k' = k \<and> disk = fst (Put None (key_of k) data fs))"
proof -
  have temp: "flatName (key_of k') \<noteq> temp_name (key_of k)" "flatName (key_of k) \<noteq> temp_name (key_of k)"
    using flatName_not_temp assms by blast+
  have names: "flatName (key_of k') = flatName (key_of k) \<longleftrightarrow> k' = k" using flatName_inj [OF assms(2,1)] by blast
  have "Get (key_of k') (fst (Put fault (key_of k) data fs)) =
      (if fault = None \<and> k' = k then (if int (length data) > MaxObjectBytes then GetError else GetFound data)
       else Get (key_of k') fs)"
    using temp names by (cases fault) (auto simp: Get_def Put_def readCapped_def)
  moreover have "Get (key_of k') disk = Get (key_of k') fs \<or> k' = k \<and> disk = fst (Put None (key_of k) data fs)"
    if "disk \<in> set (put_states (key_of k) data fs)" for disk
    using that temp names by (auto simp: put_states_def Get_def Put_def simp del: upt_Suc)
  ultimately show ?thesis by blast
qed

definition demo_key :: "string \<times> string \<times> string \<times> string" where
  "demo_key = (''prod'', ''web'', ''db'', ''sha256:00ff'')"

theorem store_roundtrip_witness:
  "Get (key_of demo_key) (fst (Put None (key_of demo_key) ''[]'' Map.empty)) = GetFound ''[]'' \<and>
   Get (key_of demo_key) (fst (Put (Some (PartialWrite 1)) (key_of demo_key) ''[]'' Map.empty)) = GetMiss"
proof -
  have k: "well_keyed demo_key" by code_simp
  have "Get (key_of demo_key) Map.empty = GetMiss" by (simp add: Get_def)
  then show ?thesis
    using store_roundtrip [OF k k, of None "''[]''" Map.empty] store_roundtrip [OF k k, of "Some (PartialWrite 1)" "''[]''" Map.empty]
    by (simp add: MaxObjectBytes_def)
qed

end
