(* ===== verification/Rollback.thy ===== *)
theory Rollback
  imports Apply Decimal StageControl Artifact RollbackStore
begin

text \<open>
  Rolling a failed run back (\<open>internal/controller/rollback.go\<close>, \<open>rollbackStageToSnapshot\<close> of
  \<open>analysis.go\<close>): the substitution fingerprint, the snapshot of a successful run, where the objects of a
  revision come from (the store or a faithful re-render), and the two reverts, of all stages and of one.
  What a revert does to the cluster is recorded as a list of effects. Fetching, decrypting, building,
  applying, the store and the image gate are parameters.
\<close>

section \<open>Substitution variables\<close>

type_synonym vars = "(string \<times> string) list"

text \<open>\<open>maps.Copy\<close>.\<close>

definition copy_vars :: "vars \<Rightarrow> vars \<Rightarrow> vars" where
  "copy_vars dst src = fold (\<lambda>(k, v). AList.update k v) src dst"

datatype read_result = ReadNotFound | ReadFailed | ReadData vars

record tenant_reader =
  tr_connects :: bool
  tr_ConfigMap :: "string \<Rightarrow> read_result"
  tr_Secret :: "string \<Rightarrow> read_result"

text \<open>The references of \<open>substituteFrom\<close> in order; \<open>None\<close> is an error. An unknown kind is passed over.\<close>

fun substitute_from :: "tenant_reader \<Rightarrow> SubstituteReference list \<Rightarrow> vars \<Rightarrow> vars option" where
  "substitute_from tr [] vs = Some vs"
| "substitute_from tr (ref # refs) vs =
     (if sub_Kind ref = ''ConfigMap'' \<or> sub_Kind ref = ''Secret'' then
        (case (if sub_Kind ref = ''ConfigMap'' then tr_ConfigMap tr (sub_Name ref) else tr_Secret tr (sub_Name ref)) of
           ReadNotFound \<Rightarrow> if sub_Optional ref then substitute_from tr refs vs else None
         | ReadFailed \<Rightarrow> None
         | ReadData data \<Rightarrow> substitute_from tr refs (copy_vars vs data))
      else substitute_from tr refs vs)"

definition resolvePostBuildVars :: "tenant_reader \<Rightarrow> PostBuild option \<Rightarrow> vars option" where
  "resolvePostBuildVars tr pb =
     (case pb of
        None \<Rightarrow> Some []
      | Some p \<Rightarrow>
          (case (if pb_SubstituteFrom p = [] then Some []
                 else if \<not> tr_connects tr then None
                 else substitute_from tr (pb_SubstituteFrom p) []) of
             None \<Rightarrow> None
           | Some vs \<Rightarrow> Some (copy_vars vs (pb_Substitute p))))"

text \<open>The text that is hashed: every pair with the lengths of both sides, keys sorted.\<close>

definition entry_text :: "string \<times> string \<Rightarrow> string" where
  "entry_text kv = dec_nat (length (fst kv)) @ CHR '':'' # fst kv @ CHR ''='' # dec_nat (length (snd kv)) @ CHR '':'' # snd kv @ [CHR 0x0A]"

definition substitution_text :: "vars \<Rightarrow> string" where
  "substitution_text vs = concat (map entry_text (sort_key fst vs))"

definition substitutionDigest :: "(string \<Rightarrow> string) \<Rightarrow> vars \<Rightarrow> string" where
  "substitutionDigest sha256_hex vs = (if vs = [] then [] else sha256_hex (substitution_text vs))"

section \<open>Transient decryption failures (errors.go)\<close>

fun contains_str :: "string \<Rightarrow> string \<Rightarrow> bool" where
  "contains_str [] sub = (sub = [])"
| "contains_str (c # cs) sub = (has_prefix (c # cs) sub \<or> contains_str cs sub)"

definition transientDecryptSignatures :: "string list" where
  "transientDecryptSignatures = [''throttl'', ''rate exceeded'', ''too many requests'', ''resourceexhausted'',
     ''resource_exhausted'', ''quota'', ''serviceunavailable'', ''service unavailable'', ''requesttimeout'',
     ''request timeout'', ''slowdown'', ''temporarily'', ''try again'']"

definition isTransientDecryptError :: "string \<Rightarrow> bool" where
  "isTransientDecryptError msg = list_ex (contains_str (to_lower msg)) transientDecryptSignatures"

section \<open>Where the objects of a revision come from\<close>

type_synonym files = "(string \<times> string) list"

datatype rollback_reason = PreviousRevisionUnavailable | PreviousImageUnverified

text \<open>A revert ends done, terminally with a reason, or with a transient error that is retried.\<close>

datatype rollback_end = RollbackDone | RollbackTerminal rollback_reason | RollbackTransient string

record rollback_env =
  rb_Store :: "(string \<Rightarrow> string + string option) option"
  rb_key :: "string \<Rightarrow> string \<Rightarrow> string"
  rb_decode :: "string \<Rightarrow> json list option"
  rb_Fetch :: "string \<Rightarrow> string \<Rightarrow> fetch_error + files"
  rb_decryptor :: "string + (files \<Rightarrow> string + files) option"
  rb_tenant :: tenant_reader
  rb_Build :: "files \<Rightarrow> string \<Rightarrow> kustomize_patch list \<Rightarrow> vars \<Rightarrow> json list option"
  rb_verifyImages :: "json list \<Rightarrow> json list option"
  rb_connects :: "string \<Rightarrow> bool"
  rb_Apply :: "string \<Rightarrow> json list \<Rightarrow> bool"
  rb_Write :: "string \<Rightarrow> nat \<Rightarrow> json list \<Rightarrow> bool"
  rb_sha256 :: "string \<Rightarrow> string"

definition effectiveServiceAccount :: "StageSet \<Rightarrow> Stage \<Rightarrow> string" where
  "effectiveServiceAccount ss stage =
     (if stg_ServiceAccountName stage \<noteq> [] then stg_ServiceAccountName stage else spec_ServiceAccountName (set_Spec ss))"

definition decryptFiles :: "(files \<Rightarrow> string + files) option \<Rightarrow> files \<Rightarrow> string + files" where
  "decryptFiles dec fs = (case dec of None \<Rightarrow> Inr fs | Some d \<Rightarrow> d fs)"

definition verifiedRollbackObjects :: "rollback_env \<Rightarrow> json list \<Rightarrow> rollback_end + json list" where
  "verifiedRollbackObjects env objects =
     (case rb_verifyImages env objects of
        None \<Rightarrow> Inl (RollbackTerminal PreviousImageUnverified)
      | Some objects' \<Rightarrow> Inr objects')"

text \<open>The re-fetch path: the recorded artifact, rendered under the current spec.\<close>

definition refetch_objects ::
  "rollback_env \<Rightarrow> Stage \<Rightarrow> StageArtifactRef \<Rightarrow> (files \<Rightarrow> string + files) option \<Rightarrow> rollback_end + json list" where
  "refetch_objects env stage ref dec =
     (let unavailable = Inl (RollbackTerminal PreviousRevisionUnavailable) in
      case rb_Fetch env (sar_URL ref) (sar_Digest ref) of
        Inl _ \<Rightarrow> unavailable
      | Inr fs0 \<Rightarrow>
          (case decryptFiles dec fs0 of
             Inl msg \<Rightarrow> if isTransientDecryptError msg then Inl (RollbackTransient msg) else unavailable
           | Inr fs \<Rightarrow>
               (case resolvePostBuildVars (rb_tenant env) (stg_PostBuild stage) of
                  None \<Rightarrow> unavailable
                | Some vs \<Rightarrow>
                    if sar_SubstitutionDigest ref \<noteq> [] \<and> substitutionDigest (rb_sha256 env) vs \<noteq> sar_SubstitutionDigest ref
                    then unavailable
                    else (case rb_Build env fs (stg_Path stage) (stg_Patches stage) vs of
                        None \<Rightarrow> unavailable
                      | Some objects \<Rightarrow> verifiedRollbackObjects env objects))))"

definition rollbackStageObjects ::
  "rollback_env \<Rightarrow> Stage \<Rightarrow> StageArtifactRef \<Rightarrow> (files \<Rightarrow> string + files) option \<Rightarrow> rollback_end + json list" where
  "rollbackStageObjects env stage ref dec =
     (case rb_Store env of
        None \<Rightarrow> refetch_objects env stage ref dec
      | Some get \<Rightarrow>
          (case get (rb_key env (sar_Stage ref) (sar_Digest ref)) of
             Inl msg \<Rightarrow> Inl (RollbackTransient msg)
           | Inr None \<Rightarrow> refetch_objects env stage ref dec
           | Inr (Some data) \<Rightarrow>
               (case rb_decode env data of
                  None \<Rightarrow> refetch_objects env stage ref dec
                | Some objects \<Rightarrow> verifiedRollbackObjects env objects)))"

section \<open>Reverting\<close>

datatype rollback_effect = Reapplied string string "json list" | Recorded string nat "json list"

text \<open>One stage of a revert: apply its objects under its ServiceAccount, then record them.\<close>

definition revert_stage ::
  "rollback_env \<Rightarrow> StageSet \<Rightarrow> Stage \<Rightarrow> nat \<Rightarrow> StageArtifactRef \<Rightarrow> (files \<Rightarrow> string + files) option
   \<Rightarrow> rollback_effect list \<times> rollback_end option" where
  "revert_stage env ss stage position ref dec =
     (case rollbackStageObjects env stage ref dec of
        Inl fin \<Rightarrow> ([], Some fin)
      | Inr objects0 \<Rightarrow>
          (let objects = StampStageLabel objects0 (sar_Stage ref); sa = effectiveServiceAccount ss stage in
           if \<not> rb_connects env sa then ([], Some (RollbackTransient ''connect to target cluster''))
           else if \<not> rb_Apply env sa objects
           then ([Reapplied (sar_Stage ref) sa objects], Some (RollbackTerminal PreviousRevisionUnavailable))
           else if \<not> rb_Write env (sar_Stage ref) position objects
           then ([Reapplied (sar_Stage ref) sa objects], Some (RollbackTransient ''record restored inventory''))
           else ([Reapplied (sar_Stage ref) sa objects, Recorded (sar_Stage ref) position objects], None)))"

text \<open>The stage of a name and its position; of two stages with one name the last.\<close>

fun stage_at :: "string \<Rightarrow> nat \<Rightarrow> Stage list \<Rightarrow> (nat \<times> Stage) option" where
  "stage_at name i [] = None"
| "stage_at name i (st # stages) =
     (case stage_at name (Suc i) stages of
        Some r \<Rightarrow> Some r
      | None \<Rightarrow> if stg_Name st = name then Some (i, st) else None)"

fun revert_stages ::
  "rollback_env \<Rightarrow> StageSet \<Rightarrow> (files \<Rightarrow> string + files) option \<Rightarrow> StageArtifactRef list
   \<Rightarrow> rollback_effect list \<times> rollback_end" where
  "revert_stages env ss dec [] = ([], RollbackDone)"
| "revert_stages env ss dec (ref # snap) =
     (case stage_at (sar_Stage ref) 0 (spec_Stages (set_Spec ss)) of
        None \<Rightarrow> revert_stages env ss dec snap
      | Some (i, stage) \<Rightarrow>
          (case revert_stage env ss stage i ref dec of
             (effs, Some fin) \<Rightarrow> (effs, fin)
           | (effs, None) \<Rightarrow> (case revert_stages env ss dec snap of (rest, fin) \<Rightarrow> (effs @ rest, fin))))"

definition attemptRollback ::
  "rollback_env \<Rightarrow> StageSet \<Rightarrow> StageArtifactRef list \<Rightarrow> rollback_effect list \<times> rollback_end" where
  "attemptRollback env ss snap =
     (if snap = [] then ([], RollbackDone)
      else case rb_decryptor env of
        Inl msg \<Rightarrow> ([], if isTransientDecryptError msg then RollbackTransient msg
            else RollbackTerminal PreviousRevisionUnavailable)
      | Inr dec \<Rightarrow> revert_stages env ss dec snap)"

text \<open>The revert of one stage by a promotion gate: it lands with a revision, cannot land, or errs.\<close>

datatype stage_revert = Reverted string | CannotRevert | RevertError

definition rollbackStageToSnapshot ::
  "rollback_env \<Rightarrow> StageSet \<Rightarrow> Stage \<Rightarrow> nat \<Rightarrow> StageArtifactRef list \<Rightarrow> rollback_effect list \<times> stage_revert" where
  "rollbackStageToSnapshot env ss stage position snap =
     (case find (\<lambda>ref. sar_Stage ref = stg_Name stage) snap of
        None \<Rightarrow> ([], CannotRevert)
      | Some ref \<Rightarrow>
          (case rb_decryptor env of
             Inl _ \<Rightarrow> ([], RevertError)
           | Inr dec \<Rightarrow>
               (case rollbackStageObjects env stage ref dec of
                  Inl (RollbackTransient _) \<Rightarrow> ([], RevertError)
                | Inl _ \<Rightarrow> ([], CannotRevert)
                | Inr objects0 \<Rightarrow>
                    (let objects = StampStageLabel objects0 (stg_Name stage); sa = effectiveServiceAccount ss stage in
                     if \<not> rb_Apply env sa objects then ([Reapplied (stg_Name stage) sa objects], RevertError)
                     else if \<not> rb_Write env (stg_Name stage) position objects
                     then ([Reapplied (stg_Name stage) sa objects], RevertError)
                     else ([Reapplied (stg_Name stage) sa objects, Recorded (stg_Name stage) position objects],
                       Reverted (sar_Revision ref))))))"

section \<open>The snapshot of a successful run\<close>

definition snapshotStages :: "StageSet \<Rightarrow> ResolvedArtifact list \<Rightarrow> string list \<Rightarrow> StageArtifactRef list" where
  "snapshotStages ss resolved subDigests =
     map (\<lambda>i. \<lparr>sar_Stage = stg_Name (spec_Stages (set_Spec ss) ! i), sar_URL = ra_URL (resolved ! i),
       sar_Digest = ra_Digest (resolved ! i), sar_Revision = ra_Revision (resolved ! i),
       sar_SubstitutionDigest = subDigests ! i\<rparr>) [0 ..< length (spec_Stages (set_Spec ss))]"

text \<open>A failing store is only reported.\<close>

definition storeRendered :: "(string \<Rightarrow> string \<Rightarrow> bool) \<Rightarrow> (json list \<Rightarrow> string option) \<Rightarrow> string \<Rightarrow> json list \<Rightarrow> bool" where
  "storeRendered put encode key objects = (case encode objects of None \<Rightarrow> False | Some data \<Rightarrow> put key data)"

section \<open>The fingerprint identifies the variables\<close>

lemma dec_colon: "CHR '':'' \<notin> set (dec_nat n)"
  using dec_nat_digits by (force simp: is_digit_def byte_def)

lemma length_prefixed_eq:
  assumes "dec_nat (length a) @ CHR '':'' # a @ r = dec_nat (length b) @ CHR '':'' # b @ s"
  shows "a = b \<and> r = s"
proof -
  from iffD1 [OF append_sep_eq [OF dec_colon dec_colon] assms]
  have "dec_nat (length a) = dec_nat (length b)" "a @ r = b @ s" by simp_all
  then show ?thesis using dec_nat_inj by (metis append_eq_append_conv)
qed

lemma entry_text_eq: "entry_text kv @ r = entry_text kv' @ s \<Longrightarrow> kv = kv' \<and> r = s"
  by (auto simp: entry_text_def prod_eq_iff dest!: length_prefixed_eq)

lemma entry_text_nonempty: "entry_text kv \<noteq> []"
  by (simp add: entry_text_def)

lemma entries_text_eq: "concat (map entry_text xs) = concat (map entry_text ys) \<Longrightarrow> xs = ys"
proof (induction xs arbitrary: ys)
  case Nil
  then show ?case by (cases ys) (auto simp: entry_text_nonempty)
next
  case (Cons x xs)
  then obtain y ys' where ys: "ys = y # ys'" by (cases ys) (auto simp: entry_text_nonempty)
  with Cons.prems have "entry_text x @ concat (map entry_text xs) = entry_text y @ concat (map entry_text ys')" by simp
  from entry_text_eq [OF this] Cons.IH ys show ?case by blast
qed

lemma map_of_sort_key:
  assumes "distinct (map fst vs)"
  shows "map_of (sort_key fst vs) = map_of vs"
proof -
  have "distinct vs" "inj_on fst (set vs)" using assms by (auto simp: distinct_map)
  then have "distinct (map fst (sort_key fst vs))" by (simp add: distinct_map)
  then show ?thesis using map_of_inject_set [OF _ assms] by (metis set_sort)
qed

lemma substitution_text_eq:
  assumes "substitution_text vs = substitution_text ws" "distinct (map fst vs)" "distinct (map fst ws)"
  shows "map_of vs = map_of ws"
proof -
  have "sort_key fst vs = sort_key fst ws" using assms(1) entries_text_eq by (auto simp: substitution_text_def)
  then show ?thesis using map_of_sort_key assms(2,3) by metis
qed

lemma sort_key_unique:
  assumes "map_of vs = map_of ws" "distinct (map fst vs)" "distinct (map fst ws)"
  shows "sort_key fst vs = sort_key fst (ws :: vars)"
proof (rule map_sorted_distinct_set_unique [of fst])
  have "set vs = set ws" using assms map_of_inject_set by blast
  then show "set (sort_key fst vs) = set (sort_key fst ws)" by simp
  show "inj_on fst (set (sort_key fst vs) \<union> set (sort_key fst ws))"
    using assms \<open>set vs = set ws\<close> by (simp add: distinct_map)
qed (use assms in \<open>simp_all add: distinct_map\<close>)

text \<open>The substitution fingerprint of a snapshot stands for the variables: maps with the same entries have
  one fingerprint, in whatever order they are listed, and two maps with one fingerprint are the same map or
  exhibit two different texts that SHA-256 sends to one value. A key or a value that contains the separators
  cannot blur the borders of the entries.\<close>

theorem substitution_digest_exact:
  assumes "distinct (map fst vs)" "distinct (map fst ws)" "\<And>t. sha t \<noteq> []"
  shows "(map_of vs = map_of ws \<longrightarrow> substitutionDigest sha vs = substitutionDigest sha ws) \<and>
    (substitutionDigest sha vs = substitutionDigest sha ws \<longrightarrow>
       map_of vs = map_of ws \<or>
       substitution_text vs \<noteq> substitution_text ws \<and> sha (substitution_text vs) = sha (substitution_text ws))"
proof (intro conjI impI)
  assume eq: "map_of vs = map_of ws"
  have "substitution_text vs = substitution_text ws"
    unfolding substitution_text_def sort_key_unique [OF eq assms(1,2)] ..
  moreover have "vs = [] \<longleftrightarrow> ws = []" using eq by (metis map_of_eq_empty_iff)
  ultimately show "substitutionDigest sha vs = substitutionDigest sha ws" by (simp add: substitutionDigest_def)
next
  assume eq: "substitutionDigest sha vs = substitutionDigest sha ws"
  show "map_of vs = map_of ws \<or>
       substitution_text vs \<noteq> substitution_text ws \<and> sha (substitution_text vs) = sha (substitution_text ws)"
  proof (cases "vs = [] \<or> ws = []")
    case True
    with eq show ?thesis by (auto simp: substitutionDigest_def assms(3) not_sym [OF assms(3)] split: if_splits)
  next
    case False
    with eq have "sha (substitution_text vs) = sha (substitution_text ws)" by (simp add: substitutionDigest_def)
    then show ?thesis using substitution_text_eq assms(1,2) by blast
  qed
qed

lemma substitution_digest_exact_witness:
  "substitutionDigest (\<lambda>t. ''h'' @ t) [(''b'', ''2''), (''a'', ''1'')] = substitutionDigest (\<lambda>t. ''h'' @ t) [(''a'', ''1''), (''b'', ''2'')]"
proof -
  have "map_of [(''b'', ''2''), (''a'', ''1'')] = map_of [(''a'', ''1''), (''b'', ''2'')]"
    by (rule ext) simp
  with substitution_digest_exact [of "[(''b'', ''2''), (''a'', ''1'')]" "[(''a'', ''1''), (''b'', ''2'')]" "\<lambda>t. ''h'' @ t"]
  show ?thesis by simp
qed

section \<open>What a revert may apply\<close>

text \<open>The objects of a snapshot entry before the image gate: the decoded copy of the store under the key of
  the entry, or a render of the fetched artifact whose variables have the recorded fingerprint.\<close>

definition stored_copy :: "rollback_env \<Rightarrow> StageArtifactRef \<Rightarrow> json list \<Rightarrow> bool" where
  "stored_copy env ref raw =
     (\<exists>get data. rb_Store env = Some get \<and> get (rb_key env (sar_Stage ref) (sar_Digest ref)) = Inr (Some data) \<and>
       rb_decode env data = Some raw)"

definition faithful_render ::
  "rollback_env \<Rightarrow> Stage \<Rightarrow> StageArtifactRef \<Rightarrow> (files \<Rightarrow> string + files) option \<Rightarrow> json list \<Rightarrow> bool" where
  "faithful_render env stage ref dec raw =
     (\<exists>fs0 fs vs. rb_Fetch env (sar_URL ref) (sar_Digest ref) = Inr fs0 \<and> decryptFiles dec fs0 = Inr fs \<and>
       resolvePostBuildVars (rb_tenant env) (stg_PostBuild stage) = Some vs \<and>
       (sar_SubstitutionDigest ref = [] \<or> substitutionDigest (rb_sha256 env) vs = sar_SubstitutionDigest ref) \<and>
       rb_Build env fs (stg_Path stage) (stg_Patches stage) vs = Some raw)"

definition previous_objects ::
  "rollback_env \<Rightarrow> Stage \<Rightarrow> StageArtifactRef \<Rightarrow> (files \<Rightarrow> string + files) option \<Rightarrow> json list \<Rightarrow> bool" where
  "previous_objects env stage ref dec objects =
     (\<exists>raw. rb_verifyImages env raw = Some objects \<and> (stored_copy env ref raw \<or> faithful_render env stage ref dec raw))"

lemma verifiedRollbackObjects_Inr [simp]: "verifiedRollbackObjects env raw = Inr objects \<longleftrightarrow> rb_verifyImages env raw = Some objects"
  by (simp add: verifiedRollbackObjects_def split: option.splits)

lemma refetch_objects_Inr:
  assumes "refetch_objects env stage ref dec = Inr objects"
  shows "\<exists>raw. rb_verifyImages env raw = Some objects \<and> faithful_render env stage ref dec raw"
  using assms by (auto simp: refetch_objects_def Let_def faithful_render_def split: sum.splits option.splits if_splits)

lemma rollbackStageObjects_not_done: "rollbackStageObjects env stage ref dec = Inl fin \<Longrightarrow> fin \<noteq> RollbackDone"
  by (auto simp: rollbackStageObjects_def refetch_objects_def verifiedRollbackObjects_def Let_def
      split: option.splits sum.splits if_splits)

lemma rollbackStageObjects_Inr:
  assumes "rollbackStageObjects env stage ref dec = Inr objects"
  shows "previous_objects env stage ref dec objects"
  using assms refetch_objects_Inr [of env stage ref dec objects]
  by (auto simp: rollbackStageObjects_def previous_objects_def stored_copy_def split: option.splits sum.splits)

lemma revert_stage_effects:
  assumes "revert_stage env ss stage i ref dec = (effs, fin)" "e \<in> set effs"
  shows "\<exists>objects. previous_objects env stage ref dec objects \<and>
    (e = Reapplied (sar_Stage ref) (effectiveServiceAccount ss stage) (StampStageLabel objects (sar_Stage ref)) \<or>
     e = Recorded (sar_Stage ref) i (StampStageLabel objects (sar_Stage ref)))"
  using assms
  by (auto simp: revert_stage_def Let_def dest!: rollbackStageObjects_Inr split: sum.splits if_splits)

lemma revert_stage_complete:
  assumes "revert_stage env ss stage i ref dec = (effs, None)"
  shows "\<exists>objects sa. effs = [Reapplied (sar_Stage ref) sa objects, Recorded (sar_Stage ref) i objects]"
  using assms by (auto simp: revert_stage_def Let_def split: sum.splits if_splits)

lemma revert_stages_effects:
  "revert_stages env ss dec snap = (effs, fin) \<Longrightarrow> e \<in> set effs \<Longrightarrow>
    \<exists>ref \<in> set snap. \<exists>i stage objects. stage_at (sar_Stage ref) 0 (spec_Stages (set_Spec ss)) = Some (i, stage) \<and>
      previous_objects env stage ref dec objects \<and>
      (e = Reapplied (sar_Stage ref) (effectiveServiceAccount ss stage) (StampStageLabel objects (sar_Stage ref)) \<or>
       e = Recorded (sar_Stage ref) i (StampStageLabel objects (sar_Stage ref)))"
proof (induction snap arbitrary: effs fin)
  case (Cons ref snap)
  show ?case
  proof (cases "stage_at (sar_Stage ref) 0 (spec_Stages (set_Spec ss))")
    case None
    with Cons show ?thesis by fastforce
  next
    case (Some r)
    obtain i stage where r: "r = (i, stage)" by fastforce
    obtain effs1 fin1 where one: "revert_stage env ss stage i ref dec = (effs1, fin1)" by fastforce
    obtain effs2 fin2 where rest: "revert_stages env ss dec snap = (effs2, fin2)" by fastforce
    from Cons.prems have "e \<in> set effs1 \<or> e \<in> set effs2"
      by (cases fin1) (auto simp: Some r one rest)
    then show ?thesis
    proof
      assume "e \<in> set effs1"
      from revert_stage_effects [OF one this] Some r show ?thesis by auto
    next
      assume "e \<in> set effs2"
      from Cons.IH [OF rest this] show ?thesis by auto
    qed
  qed
qed simp

text \<open>C10: A rollback puts nothing on the cluster, and records nothing in an inventory, but the previous revision
  of a stage of the snapshot that the spec still has: the objects passed the image gate now, carry the stage
  label, are applied under the ServiceAccount the forward path uses for that stage, and come from the store
  under the key of the recorded digest or from a render of the recorded artifact whose substitution variables
  have the recorded fingerprint (no fingerprint recorded: no such check).\<close>

theorem rollback_sound:
  assumes "attemptRollback env ss snap = (effs, fin)" "e \<in> set effs"
  shows "\<exists>ref dec i stage objects. ref \<in> set snap \<and> rb_decryptor env = Inr dec \<and>
    stage_at (sar_Stage ref) 0 (spec_Stages (set_Spec ss)) = Some (i, stage) \<and>
    previous_objects env stage ref dec objects \<and>
    (e = Reapplied (sar_Stage ref) (effectiveServiceAccount ss stage) (StampStageLabel objects (sar_Stage ref)) \<or>
     e = Recorded (sar_Stage ref) i (StampStageLabel objects (sar_Stage ref)))"
proof -
  obtain dec where dec: "rb_decryptor env = Inr dec" "revert_stages env ss dec snap = (effs, fin)"
    using assms by (auto simp: attemptRollback_def split: if_splits sum.splits)
  from revert_stages_effects [OF dec(2) assms(2)] dec(1) show ?thesis by blast
qed

definition restores :: "StageArtifactRef list \<Rightarrow> StageSet \<Rightarrow> StageArtifactRef list" where
  "restores snap ss = filter (\<lambda>ref. stage_at (sar_Stage ref) 0 (spec_Stages (set_Spec ss)) \<noteq> None) snap"

definition restoration :: "StageArtifactRef \<Rightarrow> rollback_effect list \<Rightarrow> bool" where
  "restoration ref part = (\<exists>sa i objects. part = [Reapplied (sar_Stage ref) sa objects, Recorded (sar_Stage ref) i objects])"

lemma revert_stages_complete:
  "revert_stages env ss dec snap = (effs, RollbackDone) \<Longrightarrow>
    \<exists>parts. effs = concat parts \<and> list_all2 restoration (restores snap ss) parts"
proof (induction snap arbitrary: effs)
  case Nil
  then show ?case by (auto simp: restores_def intro!: exI [of _ "[]"])
next
  case (Cons ref snap)
  show ?case
  proof (cases "stage_at (sar_Stage ref) 0 (spec_Stages (set_Spec ss))")
    case None
    with Cons show ?thesis by (simp add: restores_def)
  next
    case (Some r)
    obtain i stage where r: "r = (i, stage)" by fastforce
    obtain part fin where one: "revert_stage env ss stage i ref dec = (part, fin)" by fastforce
    obtain rest fin2 where two: "revert_stages env ss dec snap = (rest, fin2)" by fastforce
    show ?thesis
    proof (cases fin)
      case None
      with Cons.prems have effs: "effs = part @ rest" "fin2 = RollbackDone" by (simp_all add: Some r one two)
      have "restoration ref part" using revert_stage_complete one None by (fastforce simp: restoration_def)
      moreover obtain parts where "rest = concat parts" "list_all2 restoration (restores snap ss) parts"
        using Cons.IH two effs(2) by blast
      ultimately show ?thesis by (intro exI [of _ "part # parts"]) (simp add: effs restores_def Some)
    next
      case (Some fin1)
      with Cons.prems have "fin1 = RollbackDone" by (simp add: \<open>stage_at _ _ _ = _\<close> r one)
      with one Some show ?thesis by (auto simp: revert_stage_def Let_def dest!: rollbackStageObjects_not_done split: sum.splits if_splits)
    qed
  qed
qed

text \<open>A rollback that reports success has restored every stage of the snapshot that is still in the spec, in
  the order of the snapshot, each by one apply followed by the record of the very objects applied, and has done
  nothing else; a stage removed from the spec is left to the prune.\<close>

theorem rollback_complete:
  assumes "attemptRollback env ss snap = (effs, RollbackDone)"
  shows "\<exists>parts. effs = concat parts \<and> list_all2 restoration (restores snap ss) parts"
proof (cases "snap = []")
  case True
  with assms show ?thesis by (auto simp: attemptRollback_def restores_def)
next
  case False
  with assms obtain dec where "revert_stages env ss dec snap = (effs, RollbackDone)"
    by (auto simp: attemptRollback_def split: sum.splits if_splits)
  then show ?thesis by (rule revert_stages_complete)
qed

text \<open>A promotion gate that reverts its stage applies the previous objects of that stage and of no other.\<close>

lemma gate_revert_sound:
  assumes "rollbackStageToSnapshot env ss stage i snap = (effs, res)" "e \<in> set effs"
  shows "\<exists>ref dec objects. ref \<in> set snap \<and> sar_Stage ref = stg_Name stage \<and> previous_objects env stage ref dec objects \<and>
    (e = Reapplied (stg_Name stage) (effectiveServiceAccount ss stage) (StampStageLabel objects (stg_Name stage)) \<or>
     e = Recorded (stg_Name stage) i (StampStageLabel objects (stg_Name stage)))"
proof -
  from assms obtain ref dec objects where ref: "find (\<lambda>ref. sar_Stage ref = stg_Name stage) snap = Some ref"
    and objects: "rollbackStageObjects env stage ref dec = Inr objects"
    and e: "e = Reapplied (stg_Name stage) (effectiveServiceAccount ss stage) (StampStageLabel objects (stg_Name stage)) \<or>
     e = Recorded (stg_Name stage) i (StampStageLabel objects (stg_Name stage))"
    by (auto simp: rollbackStageToSnapshot_def Let_def split: option.splits sum.splits rollback_end.splits if_splits)
  from ref have "ref \<in> set snap" "sar_Stage ref = stg_Name stage" by (auto simp: find_Some_iff)
  with rollbackStageObjects_Inr [OF objects] e show ?thesis by blast
qed

text \<open>A re-apply that fails is reported as an unavailable revision, whatever made it fail.\<close>

lemma failed_reapply_is_terminal:
  assumes "rollbackStageObjects env stage ref dec = Inr objects" "rb_connects env (effectiveServiceAccount ss stage)"
    and "\<not> rb_Apply env (effectiveServiceAccount ss stage) (StampStageLabel objects (sar_Stage ref))"
  shows "snd (revert_stage env ss stage i ref dec) = Some (RollbackTerminal PreviousRevisionUnavailable)"
  using assms by (simp add: revert_stage_def Let_def)

text \<open>Two stages recorded, one of them since removed: the store serves the other.\<close>

definition demo_rollback :: rollback_env where
  "demo_rollback = \<lparr>rb_Store = Some (\<lambda>k. if k = ''web/d1'' then Inr (Some ''copy'') else Inr None),
     rb_key = (\<lambda>stage digest. stage @ ''/'' @ digest), rb_decode = (\<lambda>d. Some [JMap [(''kind'', JString d)]]),
     rb_Fetch = (\<lambda>u d. Inr []), rb_decryptor = Inr None,
     rb_tenant = \<lparr>tr_connects = True, tr_ConfigMap = (\<lambda>n. ReadNotFound), tr_Secret = (\<lambda>n. ReadNotFound)\<rparr>,
     rb_Build = (\<lambda>fs p ps vs. Some []), rb_verifyImages = Some, rb_connects = (\<lambda>sa. True),
     rb_Apply = (\<lambda>sa objs. True), rb_Write = (\<lambda>s i objs. True), rb_sha256 = (\<lambda>s. s)\<rparr>"

definition demo_snapshot :: "StageArtifactRef list" where
  "demo_snapshot = map (\<lambda>n. \<lparr>sar_Stage = n, sar_URL = ''u'', sar_Digest = ''d1'', sar_Revision = ''r1'', sar_SubstitutionDigest = []\<rparr>)
     [''gone'', ''web'']"

definition demo_restored :: "json list" where
  "demo_restored = [JMap [(''kind'', JString ''copy''),
     (''metadata'', JMap [(''labels'', JMap [(StageLabel, JString ''web'')])])]]"

lemma demo_rollback_run:
  "attemptRollback demo_rollback (plain_set [plain_stage ''db'', plain_stage ''web'']) demo_snapshot =
    ([Reapplied ''web'' [] demo_restored, Recorded ''web'' 1 demo_restored], RollbackDone)"
  by code_simp

lemma rollback_sound_witness:
  "\<exists>ref objects. ref \<in> set demo_snapshot \<and> demo_restored = StampStageLabel objects (sar_Stage ref)"
  using rollback_sound [OF demo_rollback_run, of "Recorded ''web'' 1 demo_restored"] by auto

lemma rollback_complete_witness:
  "\<exists>parts. [Reapplied ''web'' [] demo_restored, Recorded ''web'' 1 demo_restored] = concat parts \<and>
    list_all2 restoration (restores demo_snapshot (plain_set [plain_stage ''db'', plain_stage ''web''])) parts"
  by (rule rollback_complete [OF demo_rollback_run])

end
