(* ===== verification/Credentials.thy ===== *)
theory Credentials
  imports Rollback "HOL-Library.Word"
begin

text \<open>
  Tenant credentials: the token cache of \<open>internal/controller/token.go\<close>, the client of \<open>authretry.go\<close> that
  answers a refused credential with one retry, and the cached connections of \<open>tenant.go\<close>. The cache is
  shared by concurrent reconciles, so it is a labelled transition system: a step is a section of the code
  that runs under the cache's mutex or inside \<open>singleflight\<close>, and a schedule is a list of labels. Minting a
  token, dialing and reading objects are inputs.
\<close>

section \<open>The token cache\<close>

definition defaultTokenTTL :: duration where
  "defaultTokenTTL = 60 * Minute"

definition defaultTokenMargin :: duration where
  "defaultTokenMargin = 5 * Minute"

definition token_key :: "string \<Rightarrow> string \<Rightarrow> string" where
  "token_key namespace serviceAccount = namespace @ ''/'' @ serviceAccount"

text \<open>How far the function of a flight has come; what it returns is a token or an error.\<close>

datatype flight_phase = Started | Checked | Minting "64 word" | Finished "string option"

text \<open>What happened, newest first: no code reads it.\<close>

datatype token_event =
    MintBegan string
  | MintEnded string string instant
  | Forgot string
  | Handed string string string

record token_cache =
  tk_tokens :: "string \<rightharpoonup> string \<times> instant"
  tk_epochs :: "string \<Rightarrow> 64 word"
  tk_flights :: "string \<rightharpoonup> flight_phase \<times> string list"
  tk_callers :: "(string \<times> string) list"
  tk_log :: "token_event list"

definition newTokenCache :: token_cache where
  "newTokenCache = \<lparr>tk_tokens = Map.empty, tk_epochs = (\<lambda>_. 0), tk_flights = Map.empty, tk_callers = [], tk_log = []\<rparr>"

definition lookup :: "instant \<Rightarrow> string \<Rightarrow> token_cache \<Rightarrow> string option" where
  "lookup now k s =
     (case tk_tokens s k of
        None \<Rightarrow> None
      | Some (token, expires) \<Rightarrow> if expires - now \<le> defaultTokenMargin then None else Some token)"

definition Forget :: "string \<Rightarrow> token_cache \<Rightarrow> token_cache" where
  "Forget k s =
     s\<lparr>tk_tokens := (tk_tokens s)(k := None), tk_epochs := (tk_epochs s)(k := tk_epochs s k + 1),
       tk_log := Forgot k # tk_log s\<rparr>"

definition hand_out :: "string \<Rightarrow> string option \<Rightarrow> string list \<Rightarrow> token_cache \<Rightarrow> token_cache" where
  "hand_out k res callers s =
     (case res of None \<Rightarrow> s | Some token \<Rightarrow> s\<lparr>tk_log := map (\<lambda>c. Handed c k token) callers @ tk_log s\<rparr>)"

text \<open>
  The labels: a caller looks the key up (\<open>Ask\<close>), enters \<open>singleflight\<close> where it starts a flight or joins the one
  in the air, the flight checks again, reads the epoch and calls the minter, which answers with a token and
  its expiry or not at all, and returns to everyone who waits; and anyone may forget the key.
\<close>

datatype token_label =
    Ask string string instant
  | Enter string string
  | Recheck string instant
  | BeginMint string
  | EndMint string "(string \<times> instant) option"
  | Return string
  | Evict string

fun token_step :: "token_label \<Rightarrow> token_cache \<Rightarrow> token_cache option" where
  "token_step (Ask c k now) s =
     (case lookup now k s of
        Some token \<Rightarrow> Some (hand_out k (Some token) [c] s)
      | None \<Rightarrow> Some (s\<lparr>tk_callers := (c, k) # tk_callers s\<rparr>))"
| "token_step (Enter c k) s =
     (if (c, k) \<notin> set (tk_callers s) then None
      else let s1 = s\<lparr>tk_callers := remove1 (c, k) (tk_callers s)\<rparr> in
        (case tk_flights s k of
           None \<Rightarrow> Some (s1\<lparr>tk_flights := (tk_flights s)(k \<mapsto> (Started, [c]))\<rparr>)
         | Some (phase, cs) \<Rightarrow> Some (s1\<lparr>tk_flights := (tk_flights s)(k \<mapsto> (phase, cs @ [c]))\<rparr>)))"
| "token_step (Recheck k now) s =
     (case tk_flights s k of
        Some (Started, cs) \<Rightarrow>
          (case lookup now k s of
             Some token \<Rightarrow> Some (s\<lparr>tk_flights := (tk_flights s)(k \<mapsto> (Finished (Some token), cs))\<rparr>)
           | None \<Rightarrow> Some (s\<lparr>tk_flights := (tk_flights s)(k \<mapsto> (Checked, cs))\<rparr>))
      | _ \<Rightarrow> None)"
| "token_step (BeginMint k) s =
     (case tk_flights s k of
        Some (Checked, cs) \<Rightarrow>
          Some (s\<lparr>tk_flights := (tk_flights s)(k \<mapsto> (Minting (tk_epochs s k), cs)), tk_log := MintBegan k # tk_log s\<rparr>)
      | _ \<Rightarrow> None)"
| "token_step (EndMint k answer) s =
     (case tk_flights s k of
        Some (Minting epoch, cs) \<Rightarrow>
          (case answer of
             None \<Rightarrow> Some (s\<lparr>tk_flights := (tk_flights s)(k \<mapsto> (Finished None, cs))\<rparr>)
           | Some (token, expires) \<Rightarrow>
               Some (s\<lparr>tk_tokens := (if tk_epochs s k = epoch then (tk_tokens s)(k \<mapsto> (token, expires)) else tk_tokens s),
                       tk_flights := (tk_flights s)(k \<mapsto> (Finished (Some token), cs)),
                       tk_log := MintEnded k token expires # tk_log s\<rparr>))
      | _ \<Rightarrow> None)"
| "token_step (Return k) s =
     (case tk_flights s k of
        Some (Finished res, cs) \<Rightarrow> Some (hand_out k res cs (s\<lparr>tk_flights := (tk_flights s)(k := None)\<rparr>))
      | _ \<Rightarrow> None)"
| "token_step (Evict k) s = Some (Forget k s)"

text \<open>A schedule runs from a state; a label that does not apply there ends it.\<close>

fun token_run :: "token_label list \<Rightarrow> token_cache \<Rightarrow> token_cache option" where
  "token_run [] s = Some s"
| "token_run (l # ls) s = (case token_step l s of None \<Rightarrow> None | Some s1 \<Rightarrow> token_run ls s1)"

inductive token_reach :: "token_cache \<Rightarrow> bool" where
  start: "token_reach newTokenCache"
| step: "token_reach s \<Longrightarrow> token_step l s = Some s' \<Longrightarrow> token_reach s'"

lemma token_run_reach: "token_run ls s = Some s' \<Longrightarrow> token_reach s \<Longrightarrow> token_reach s'"
  by (induction ls arbitrary: s) (auto split: option.splits intro: token_reach.step)

section \<open>What the cache holds\<close>

text \<open>How often \<open>k\<close> was forgotten, and whether the last mint of \<open>k\<close> began after the last of these (a log is
  newest first).\<close>

fun forgets :: "string \<Rightarrow> token_event list \<Rightarrow> nat" where
  "forgets k [] = 0"
| "forgets k (e # es) = (if e = Forgot k then Suc (forgets k es) else forgets k es)"

fun mint_current :: "string \<Rightarrow> token_event list \<Rightarrow> bool" where
  "mint_current k [] = False"
| "mint_current k (e # es) = (if e = MintBegan k then True else if e = Forgot k then False else mint_current k es)"

definition minted_current :: "string \<Rightarrow> string \<Rightarrow> instant \<Rightarrow> token_event list \<Rightarrow> bool" where
  "minted_current k token expires es \<longleftrightarrow>
     (\<exists>a b. es = a @ MintEnded k token expires # b \<and> Forgot k \<notin> set a \<and> mint_current k b)"

definition was_minted :: "string \<Rightarrow> string \<Rightarrow> token_event list \<Rightarrow> bool" where
  "was_minted k token es \<longleftrightarrow> (\<exists>expires. MintEnded k token expires \<in> set es)"

lemma forgets_append: "forgets k (xs @ ys) = forgets k xs + forgets k ys"
  by (induction xs) auto

lemma forgets_0: "forgets k xs = 0 \<longleftrightarrow> Forgot k \<notin> set xs"
  by (induction xs) auto

lemma forgets_handed [simp]: "forgets k (map (\<lambda>c. Handed c k' token) cs) = 0"
  by (induction cs) auto

lemma mint_current_append: "Forgot k \<notin> set xs \<Longrightarrow> mint_current k ys \<Longrightarrow> mint_current k (xs @ ys)"
  by (induction xs) auto

lemma minted_current_append: "Forgot k \<notin> set xs \<Longrightarrow> minted_current k t x es \<Longrightarrow> minted_current k t x (xs @ es)"
  unfolding minted_current_def by (metis Un_iff append_assoc set_append)

lemma minted_current_Cons: "e \<noteq> Forgot k \<Longrightarrow> minted_current k t x es \<Longrightarrow> minted_current k t x (e # es)"
  using minted_current_append [of k "[e]"] by simp

lemma minted_now:
  assumes "mint_current k es"
  shows "minted_current k t x (MintEnded k t x # es)"
proof -
  have "MintEnded k t x # es = [] @ MintEnded k t x # es \<and> Forgot k \<notin> set [] \<and> mint_current k es" using assms by simp
  then show ?thesis unfolding minted_current_def by blast
qed

definition began :: "string \<Rightarrow> 64 word \<Rightarrow> token_event list \<Rightarrow> bool" where
  "began k epoch es \<longleftrightarrow> (\<exists>a b. es = a @ MintBegan k # b \<and> epoch = of_nat (forgets k b))"

lemma began_append: "began k e es \<Longrightarrow> began k e (xs @ es)"
  unfolding began_def by (metis append_assoc)

lemma began_Cons: "began k e es \<Longrightarrow> began k e (x # es)"
  using began_append [of k e es "[x]"] by simp

lemma began_now: "began k (of_nat (forgets k es)) (MintBegan k # es)"
  unfolding began_def by (intro exI [of _ "[]"] exI [of _ es]) simp

text \<open>An epoch that has not moved since the mint began: nothing was forgotten in between, unless the
  64-bit counter went round.\<close>

lemma began_current:
  assumes "began k (of_nat (forgets k es)) es" "forgets k es < 2 ^ 64"
  shows "mint_current k es"
proof -
  obtain a b where ab: "es = a @ MintBegan k # b" "(of_nat (forgets k es) :: 64 word) = of_nat (forgets k b)"
    using assms(1) by (auto simp: began_def)
  have le: "forgets k es = forgets k a + forgets k b" using ab(1) by (simp add: forgets_append)
  have "unat (of_nat (forgets k es) :: 64 word) = unat (of_nat (forgets k b) :: 64 word)" using ab(2) by simp
  then have "forgets k es mod 2 ^ 64 = forgets k b mod 2 ^ 64" by (simp add: unat_of_nat)
  with assms(2) le have "forgets k a = 0" by simp
  then show ?thesis using ab(1) by (simp add: forgets_0 mint_current_append)
qed

definition cache_inv :: "token_cache \<Rightarrow> bool" where
  "cache_inv s \<longleftrightarrow>
     (\<forall>k. tk_epochs s k = of_nat (forgets k (tk_log s))) \<and>
     (\<forall>k e cs. tk_flights s k = Some (Minting e, cs) \<longrightarrow> began k e (tk_log s)) \<and>
     (\<forall>k t x. tk_tokens s k = Some (t, x) \<longrightarrow>
        was_minted k t (tk_log s) \<and> (forgets k (tk_log s) < 2 ^ 64 \<longrightarrow> minted_current k t x (tk_log s))) \<and>
     (\<forall>k t cs. tk_flights s k = Some (Finished (Some t), cs) \<longrightarrow> was_minted k t (tk_log s)) \<and>
     (\<forall>c k t. Handed c k t \<in> set (tk_log s) \<longrightarrow> was_minted k t (tk_log s))"

lemma was_minted_Cons: "was_minted k t es \<Longrightarrow> was_minted k t (e # es)"
  by (auto simp: was_minted_def)

lemma was_minted_append: "was_minted k t es \<Longrightarrow> was_minted k t (xs @ es)"
  by (auto simp: was_minted_def)

lemma lookup_Some: "lookup now k s = Some t \<Longrightarrow> \<exists>x. tk_tokens s k = Some (t, x) \<and> defaultTokenMargin < x - now"
  by (auto simp: lookup_def split: option.splits if_splits)

lemma cache_inv_hand_out:
  assumes "cache_inv s" "\<And>t. res = Some t \<Longrightarrow> was_minted k t (tk_log s)"
  shows "cache_inv (hand_out k res cs s)"
proof (cases res)
  case (Some t)
  have "Forgot j \<notin> set (map (\<lambda>c. Handed c k t) cs)" for j by auto
  with assms Some show ?thesis
    by (auto simp: cache_inv_def hand_out_def forgets_append began_append was_minted_append
        forgets_0 [THEN iffD2] intro!: minted_current_append)
qed (use assms in \<open>simp add: hand_out_def\<close>)

lemma cache_inv_step: "token_step l s = Some s' \<Longrightarrow> cache_inv s \<Longrightarrow> cache_inv s'"
proof (induction l s rule: token_step.induct)
  case (1 c k now s)
  then show ?case
    by (auto intro!: cache_inv_hand_out split: option.splits dest!: lookup_Some)
      (auto simp: cache_inv_def)
next
  case (4 k s)
  then obtain cs where f: "tk_flights s k = Some (Checked, cs)"
    and s': "s' = s\<lparr>tk_flights := (tk_flights s)(k \<mapsto> (Minting (tk_epochs s k), cs)), tk_log := MintBegan k # tk_log s\<rparr>"
    by (auto split: option.splits prod.splits flight_phase.splits)
  have "began k (tk_epochs s k) (MintBegan k # tk_log s)"
    using 4(2) by (simp add: cache_inv_def began_now)
  with 4(2) s' show ?case
    by (auto simp: cache_inv_def began_Cons was_minted_Cons minted_current_Cons)
next
  case (5 k answer s)
  then obtain epoch cs where f: "tk_flights s k = Some (Minting epoch, cs)"
    by (auto split: option.splits prod.splits flight_phase.splits)
  show ?case
  proof (cases answer)
    case None
    with 5 f show ?thesis by (auto simp: cache_inv_def split: if_splits)
  next
    case (Some x)
    obtain t e where x: "x = (t, e)" by fastforce
    with 5(1) f Some have s': "s' = s\<lparr>tk_tokens := (if tk_epochs s k = epoch then (tk_tokens s)(k \<mapsto> (t, e)) else tk_tokens s),
        tk_flights := (tk_flights s)(k \<mapsto> (Finished (Some t), cs)), tk_log := MintEnded k t e # tk_log s\<rparr>" by simp
    have new: "was_minted k t (MintEnded k t e # tk_log s)" by (auto simp: was_minted_def)
    have "minted_current k t e (MintEnded k t e # tk_log s)" if "tk_epochs s k = epoch" "forgets k (tk_log s) < 2 ^ 64"
    proof -
      have "began k (of_nat (forgets k (tk_log s))) (tk_log s)" using 5(2) f that(1) by (auto simp: cache_inv_def)
      from began_current [OF this that(2)] show ?thesis by (rule minted_now)
    qed
    with 5(2) s' new show ?thesis
      by (auto simp: cache_inv_def began_Cons was_minted_Cons minted_current_Cons split: if_splits)
  qed
next
  case (7 k s)
  then show ?case by (auto simp: cache_inv_def Forget_def began_Cons was_minted_Cons minted_current_Cons split: if_splits)
next
  case (6 k s)
  then obtain res cs where f: "tk_flights s k = Some (Finished res, cs)"
    and s': "s' = hand_out k res cs (s\<lparr>tk_flights := (tk_flights s)(k := None)\<rparr>)"
    by (auto split: option.splits prod.splits flight_phase.splits)
  with 6(2) show ?case unfolding s' by (intro cache_inv_hand_out) (auto simp: cache_inv_def split: if_splits)
qed (auto simp: cache_inv_def Let_def split: if_splits option.splits prod.splits flight_phase.splits dest!: lookup_Some)

lemma cache_inv_reach: "token_reach s \<Longrightarrow> cache_inv s"
proof (induction rule: token_reach.induct)
  case start
  show ?case by (simp add: cache_inv_def newTokenCache_def)
next
  case (step s l s')
  from cache_inv_step [OF step(2) step.IH] show ?case .
qed

text \<open>C12: Whatever the interleaving of callers, flights and evictions, a token that was evicted does not come
  back: the cached token of a key was minted by a call that began after the key was last forgotten
  (unless the 64-bit epoch went round in the meantime). And nobody is handed a token that was not
  minted for the ServiceAccount he asked for.\<close>

theorem evicted_token_stays_gone:
  assumes "token_reach s"
  shows "(tk_tokens s k = Some (token, expires) \<and> forgets k (tk_log s) < 2 ^ 64 \<longrightarrow>
      (\<exists>a b. tk_log s = a @ MintEnded k token expires # b \<and> Forgot k \<notin> set a \<and> mint_current k b)) \<and>
    (Handed c k token \<in> set (tk_log s) \<longrightarrow> (\<exists>x. MintEnded k token x \<in> set (tk_log s)))"
  using cache_inv_reach [OF assms] by (auto simp: cache_inv_def minted_current_def was_minted_def)

text \<open>A reconcile that evicts a refused token while another one's mint is in the air joins that flight, so
  what it retries with was minted before the eviction.\<close>

definition joined_schedule :: "token_label list" where
  "joined_schedule = [Ask ''a'' ''ns/sa'' 0, Enter ''a'' ''ns/sa'', Recheck ''ns/sa'' 0, BeginMint ''ns/sa'',
     Evict ''ns/sa'', Ask ''b'' ''ns/sa'' 0, Enter ''b'' ''ns/sa'', EndMint ''ns/sa'' (Some (''old'', 4000000000000)),
     Return ''ns/sa'']"

lemma refresh_joins_stale_mint:
  "map_option tk_log (token_run joined_schedule newTokenCache) =
     Some [Handed ''a'' ''ns/sa'' ''old'', Handed ''b'' ''ns/sa'' ''old'', MintEnded ''ns/sa'' ''old'' 4000000000000,
       Forgot ''ns/sa'', MintBegan ''ns/sa'']"
  by (simp add: joined_schedule_def newTokenCache_def lookup_def Forget_def hand_out_def)

definition quiet_schedule :: "token_label list" where
  "quiet_schedule = [Evict ''ns/sa'', Ask ''a'' ''ns/sa'' 0, Enter ''a'' ''ns/sa'', Recheck ''ns/sa'' 0, BeginMint ''ns/sa'',
     EndMint ''ns/sa'' (Some (''new'', 4000000000000)), Return ''ns/sa'', Ask ''b'' ''ns/sa'' 5]"

lemma evicted_token_stays_gone_witness:
  "\<exists>s a b. token_run quiet_schedule newTokenCache = Some s \<and>
     tk_log s = a @ MintEnded ''ns/sa'' ''new'' 4000000000000 # b \<and> Forgot ''ns/sa'' \<notin> set a \<and> mint_current ''ns/sa'' b"
proof -
  obtain s where s: "token_run quiet_schedule newTokenCache = Some s"
    "tk_tokens s ''ns/sa'' = Some (''new'', 4000000000000)" "forgets ''ns/sa'' (tk_log s) = 1"
    by (simp add: quiet_schedule_def newTokenCache_def lookup_def Forget_def hand_out_def defaultTokenMargin_def Minute_def Second_def)
  from token_run_reach [OF s(1) token_reach.start] have "token_reach s" .
  from evicted_token_stays_gone [OF this] s show ?thesis by auto
qed

section \<open>One retry on a refused credential (authretry.go)\<close>

datatype call_error = Unauthorized | CallFailed string

text \<open>The error as the caller sees it; the two explanations keep the 401 at the head of the chain.\<close>

datatype explained = Unexplained call_error | RemintFailed string | RefusedAgain

definition IsUnauthorized :: "explained \<Rightarrow> bool" where
  "IsUnauthorized e \<longleftrightarrow> (case e of Unexplained c \<Rightarrow> c = Unauthorized | _ \<Rightarrow> True)"

definition explain :: "call_error option \<Rightarrow> explained option" where
  "explain e = (case e of None \<Rightarrow> None | Some Unauthorized \<Rightarrow> Some RefusedAgain | Some err \<Rightarrow> Some (Unexplained err))"

text \<open>\<open>op\<close> acts on the cluster \<open>'k\<close> through a client \<open>'c\<close>, \<open>refresh\<close> on the credentials \<open>'r\<close>.\<close>

definition do_call ::
  "('c \<Rightarrow> 'k \<Rightarrow> 'k \<times> call_error option) \<Rightarrow> ('r \<Rightarrow> 'r \<times> (string + 'c)) \<Rightarrow> 'c \<Rightarrow> 'r \<Rightarrow> 'k
   \<Rightarrow> 'k \<times> 'r \<times> 'c \<times> explained option" where
  "do_call op refresh c r k =
     (case op c k of
        (k1, Some Unauthorized) \<Rightarrow>
          (case refresh r of
             (r1, Inl msg) \<Rightarrow> (k1, r1, c, Some (RemintFailed msg))
           | (r1, Inr fresh) \<Rightarrow> (case op fresh k1 of (k2, err) \<Rightarrow> (k2, r1, fresh, explain err)))
      | (k1, err) \<Rightarrow> (k1, r, c, map_option Unexplained err))"

text \<open>The retry cannot duplicate a mutation: if the API server refuses a call before it has any effect, the
  cluster after a call is what one call alone left, made through the client that is current afterwards,
  or it is untouched and the caller is told of a 401. The credential is refreshed exactly when the first
  client was refused.\<close>

theorem retried_call_acts_once:
  assumes law: "\<forall>c k k1. op c k = (k1, Some Unauthorized) \<longrightarrow> k1 = k"
    and call: "do_call op refresh c r k = (k', r', c', res)"
  shows "((\<exists>err. op c' k = (k', err) \<and> (err \<noteq> Some Unauthorized \<longrightarrow> res = map_option Unexplained err)) \<and>
      (snd (op c k) \<noteq> Some Unauthorized \<longrightarrow> c' = c \<and> r' = r) \<or>
      k' = k \<and> (\<exists>e. res = Some e \<and> IsUnauthorized e)) \<and>
    (snd (op c k) = Some Unauthorized \<longrightarrow> r' = fst (refresh r) \<and> (\<forall>fresh. snd (refresh r) = Inr fresh \<longrightarrow> c' = fresh))"
proof (cases "op c k")
  case (Pair k1 e)
  show ?thesis
  proof (cases "e = Some Unauthorized")
    case True
    with law Pair have k1: "k1 = k" by blast
    obtain r1 a where r1: "refresh r = (r1, a)" by fastforce
    show ?thesis
    proof (cases a)
      case (Inr fresh)
      with call Pair True k1 r1 have "op fresh k = (k', snd (op fresh k))" "r' = r1" "c' = fresh"
        "res = explain (snd (op fresh k))" by (auto simp: do_call_def split: prod.splits)
      then show ?thesis using Pair True r1 Inr
        by (auto simp: explain_def IsUnauthorized_def split: option.splits call_error.splits)
    qed (use call Pair True k1 r1 in \<open>auto simp: do_call_def IsUnauthorized_def\<close>)
  next
    case False
    with call Pair have "k' = k1" "r' = r" "c' = c" "res = map_option Unexplained e"
      by (auto simp: do_call_def split: option.splits call_error.splits)
    with Pair False show ?thesis by auto
  qed
qed

text \<open>A client whose token was minted for a ServiceAccount that has been recreated since.\<close>

definition demo_create :: "nat \<Rightarrow> nat \<Rightarrow> nat \<times> call_error option" where
  "demo_create c k = (if c = 0 then (k, Some Unauthorized) else (Suc k, None))"

lemma retried_call_acts_once_witness:
  "do_call demo_create (\<lambda>r. (Suc r, Inr (1 :: nat))) 0 (0 :: nat) 5 = (6, 1, 1, None) \<and> demo_create 1 5 = (6, None)"
proof -
  have run: "do_call demo_create (\<lambda>r. (Suc r, Inr (1 :: nat))) 0 (0 :: nat) 5 = (6, 1, 1, None)"
    by (simp add: do_call_def demo_create_def explain_def)
  have "\<forall>c k k1. demo_create c k = (k1, Some Unauthorized) \<longrightarrow> k1 = k" by (auto simp: demo_create_def split: if_splits)
  from retried_call_acts_once [OF this run] run show ?thesis by (auto simp: demo_create_def IsUnauthorized_def split: if_splits)
qed

section \<open>Connections (tenant.go)\<close>

text \<open>A REST configuration; \<open>rcf_Static\<close> stands for the username, password, client certificate and auth
  provider of the controller's own.\<close>

record rest_config =
  rcf_Host :: string
  rcf_BearerToken :: string
  rcf_BearerTokenFile :: string
  rcf_Impersonate :: string
  rcf_Static :: "string option"
  rcf_CAData :: string
  rcf_CAFile :: string
  rcf_ServerName :: string
  rcf_Insecure :: bool

text \<open>\<open>anonymous\<close> is the client library's \<open>AnonymousClientConfig\<close>.\<close>

definition tenantRestConfig :: "(rest_config \<Rightarrow> rest_config) \<Rightarrow> rest_config \<Rightarrow> string \<Rightarrow> rest_config" where
  "tenantRestConfig anonymous base token =
     (anonymous base)\<lparr>rcf_BearerToken := token, rcf_BearerTokenFile := [], rcf_Impersonate := [],
        rcf_CAData := rcf_CAData base, rcf_CAFile := rcf_CAFile base, rcf_ServerName := rcf_ServerName base,
        rcf_Insecure := False\<rparr>"

record ('c, 'm) clusterTarget =
  ct_client :: 'c
  ct_mapper :: 'm
  ct_token :: string

datatype 'v object_read = Object 'v string | ObjectError

text \<open>The reconciler's fields, and what it calls: \<open>tn_Token\<close> is the token cache, \<open>tn_secret\<close> and \<open>tn_configMap\<close>
  read through the tenant's client with the data and resource version of the object.\<close>

record ('c, 'm) tenant_env =
  tn_Client :: 'c
  tn_RESTMapper :: 'm
  tn_SkipImpersonation :: bool
  tn_Config :: "rest_config option"
  tn_Token :: "string \<Rightarrow> string \<Rightarrow> (string + string) option"
  tn_anonymous :: "rest_config \<Rightarrow> rest_config"
  tn_discover :: "rest_config \<Rightarrow> string + 'm"
  tn_dial :: "rest_config \<Rightarrow> 'm \<Rightarrow> string + 'c"
  tn_secret :: "'c \<Rightarrow> string \<Rightarrow> string \<Rightarrow> (string \<rightharpoonup> string) object_read"
  tn_configMap :: "'c \<Rightarrow> string \<Rightarrow> string \<Rightarrow> unit object_read"
  tn_parse :: "string \<Rightarrow> rest_config option"
  tn_cloud :: "'c \<Rightarrow> string \<Rightarrow> string \<Rightarrow> rest_config option"

datatype target_error = NoRestConfig | NoTokens | MintFailed string | DialFailed string | TenantFailed
  | KubeConfigUnread | KubeConfigUnparsed | InvalidKubeConfigSpec

type_synonym ('c, 'm) targets = "string \<rightharpoonup> ('c, 'm) clusterTarget"

definition mintsTokenFor :: "('c, 'm) tenant_env \<Rightarrow> string \<Rightarrow> KubeConfigReference option \<Rightarrow> bool" where
  "mintsTokenFor env sa kc \<longleftrightarrow> kc = None \<and> sa \<noteq> [] \<and> \<not> tn_SkipImpersonation env"

definition localTargetKey :: "string \<Rightarrow> string \<Rightarrow> string" where
  "localTargetKey ns sa = ''local/'' @ ns @ ''/'' @ sa"

definition forgetTenant :: "string \<Rightarrow> string \<Rightarrow> token_cache \<times> ('c, 'm) targets \<Rightarrow> token_cache \<times> ('c, 'm) targets" where
  "forgetTenant ns sa st = (Forget (token_key ns sa) (fst st), (snd st)(localTargetKey ns sa := None))"

text \<open>The cached connection when it was built with this token, a new one otherwise; without a mapper the
  API surface is discovered first.\<close>

definition build_connection ::
  "('c, 'm) tenant_env \<Rightarrow> rest_config \<Rightarrow> 'm option \<Rightarrow> target_error + 'c \<times> 'm" where
  "build_connection env cfg baseMapper =
     (case (case baseMapper of Some m \<Rightarrow> Inr m | None \<Rightarrow> tn_discover env cfg) of
        Inl e \<Rightarrow> Inl (DialFailed e)
      | Inr m \<Rightarrow> (case tn_dial env cfg m of Inl e \<Rightarrow> Inl (DialFailed e) | Inr c \<Rightarrow> Inr (c, m)))"

definition reusable :: "('c, 'm) targets \<Rightarrow> string \<Rightarrow> string \<Rightarrow> ('c, 'm) clusterTarget option" where
  "reusable targets key token =
     (case targets key of None \<Rightarrow> None | Some t \<Rightarrow> if ct_token t = token then Some t else None)"

definition connection ::
  "('c, 'm) tenant_env \<Rightarrow> string \<Rightarrow> string \<Rightarrow> rest_config \<Rightarrow> 'm option \<Rightarrow> ('c, 'm) targets
   \<Rightarrow> ('c, 'm) targets \<times> (target_error + 'c \<times> 'm)" where
  "connection env key token cfg baseMapper targets =
     (case reusable targets key token of
        Some t \<Rightarrow> (targets, Inr (ct_client t, ct_mapper t))
      | None \<Rightarrow>
          (case build_connection env cfg baseMapper of
             Inl e \<Rightarrow> (targets, Inl e)
           | Inr (c, m) \<Rightarrow> (targets(key \<mapsto> \<lparr>ct_client = c, ct_mapper = m, ct_token = token\<rparr>), Inr (c, m))))"

definition local_target ::
  "('c, 'm) tenant_env \<Rightarrow> string \<Rightarrow> string \<Rightarrow> ('c, 'm) targets \<Rightarrow> ('c, 'm) targets \<times> (target_error + 'c \<times> 'm)" where
  "local_target env ns sa targets =
     (if sa = [] \<or> tn_SkipImpersonation env then (targets, Inr (tn_Client env, tn_RESTMapper env))
      else (case tn_Config env of
        None \<Rightarrow> (targets, Inl NoRestConfig)
      | Some base \<Rightarrow> (case tn_Token env ns sa of
          None \<Rightarrow> (targets, Inl NoTokens)
        | Some (Inl e) \<Rightarrow> (targets, Inl (MintFailed e))
        | Some (Inr token) \<Rightarrow>
            connection env (localTargetKey ns sa) token (tenantRestConfig (tn_anonymous env) base token)
              (Some (tn_RESTMapper env)) targets)))"

definition kubeconfigBytes ::
  "('c, 'm) tenant_env \<Rightarrow> 'c \<Rightarrow> string \<Rightarrow> string \<times> string \<Rightarrow> (string \<times> string) option" where
  "kubeconfigBytes env reader ns ref =
     (case tn_secret env reader ns (fst ref) of
        ObjectError \<Rightarrow> None
      | Object data version \<Rightarrow>
          (case data (if snd ref = [] then ''value'' else snd ref) of
             None \<Rightarrow> None
           | Some raw \<Rightarrow> if raw = [] then None else Some (raw, version)))"

text \<open>\<open>RESTConfig\<close> with the key of the cached connection: everything it reads, it reads as the tenant.\<close>

definition RESTConfig ::
  "('c, 'm) tenant_env \<Rightarrow> KubeConfigReference \<Rightarrow> string \<Rightarrow> 'c \<Rightarrow> target_error + rest_config \<times> string" where
  "RESTConfig env kc ns tenant =
     (case (kc_SecretRef kc, kc_ConfigMapRef kc) of
        (Some ref, _) \<Rightarrow>
          (case kubeconfigBytes env tenant ns ref of
             None \<Rightarrow> Inl KubeConfigUnread
           | Some (raw, version) \<Rightarrow>
               (case tn_parse env raw of
                  None \<Rightarrow> Inl KubeConfigUnparsed
                | Some cfg \<Rightarrow> Inr (cfg, ''secret/'' @ ns @ ''/'' @ fst ref @ ''/'' @ version)))
      | (None, Some name) \<Rightarrow>
          (case tn_configMap env tenant ns name of
             ObjectError \<Rightarrow> Inl InvalidKubeConfigSpec
           | Object _ version \<Rightarrow>
               (case tn_cloud env tenant ns name of
                  None \<Rightarrow> Inl InvalidKubeConfigSpec
                | Some cfg \<Rightarrow> Inr (cfg, ''configmap/'' @ ns @ ''/'' @ name @ ''/'' @ version)))
      | (None, None) \<Rightarrow> Inl InvalidKubeConfigSpec)"

definition serviceAccountUser :: "string \<Rightarrow> string \<Rightarrow> string" where
  "serviceAccountUser ns sa = ''system:serviceaccount:'' @ ns @ '':'' @ sa"

definition resolveTarget ::
  "('c, 'm) tenant_env \<Rightarrow> string \<Rightarrow> string \<Rightarrow> KubeConfigReference option \<Rightarrow> ('c, 'm) targets
   \<Rightarrow> ('c, 'm) targets \<times> (target_error + 'c \<times> 'm)" where
  "resolveTarget env ns sa kubeConfig targets =
     (case kubeConfig of
        None \<Rightarrow> local_target env ns sa targets
      | Some kc \<Rightarrow>
          (case local_target env ns sa targets of
             (targets1, Inl e) \<Rightarrow> (targets1, Inl e)
           | (targets1, Inr (tenant, _)) \<Rightarrow>
               (case RESTConfig env kc ns tenant of
                  Inl e \<Rightarrow> (targets1, Inl e)
                | Inr (cfg, ckey) \<Rightarrow>
                    connection env (''remote/'' @ ns @ ''/'' @ ckey @ ''/'' @ sa) []
                      (if sa = [] then cfg else cfg\<lparr>rcf_Impersonate := serviceAccountUser ns sa\<rparr>) None targets1)))"

text \<open>What a StageSet on its way out was the last user of.\<close>

definition used_accounts :: "StageSet \<Rightarrow> string list" where
  "used_accounts ss =
     filter (\<lambda>sa. sa \<noteq> []) (spec_ServiceAccountName (set_Spec ss) # map (effectiveServiceAccount ss) (spec_Stages (set_Spec ss)))"

definition drop_used :: "StageSet \<Rightarrow> StageSet \<Rightarrow> string list \<Rightarrow> string list" where
  "drop_used ss other used =
     (if set_Name other = set_Name ss \<or> set_DeletionTimestamp other \<noteq> None then used
      else filter (\<lambda>sa. sa \<noteq> spec_ServiceAccountName (set_Spec other) \<and>
        sa \<notin> effectiveServiceAccount other ` set (spec_Stages (set_Spec other))) used)"

definition deleted_tenants :: "StageSet \<Rightarrow> StageSet list option \<Rightarrow> string list" where
  "deleted_tenants ss others =
     (case others of None \<Rightarrow> [] | Some os \<Rightarrow> fold (drop_used ss) os (remdups (used_accounts ss)))"

definition forgetDeletedTenants ::
  "StageSet \<Rightarrow> StageSet list option \<Rightarrow> token_cache \<times> ('c, 'm) targets \<Rightarrow> token_cache \<times> ('c, 'm) targets" where
  "forgetDeletedTenants ss others st = fold (forgetTenant (set_Namespace ss)) (deleted_tenants ss others) st"

section \<open>Whose credentials a connection carries\<close>

definition remoteTargetKey :: "string \<Rightarrow> string \<Rightarrow> string \<Rightarrow> string" where
  "remoteTargetKey ns ckey sa = ''remote/'' @ ns @ ''/'' @ ckey @ ''/'' @ sa"

text \<open>A client dialed with nothing but a token of the controller's cluster, and one that impersonates.\<close>

definition local_client :: "('c, 'm) tenant_env \<Rightarrow> string \<Rightarrow> 'c \<Rightarrow> bool" where
  "local_client env token c \<longleftrightarrow>
     (\<exists>base m. tn_Config env = Some base \<and> tn_dial env (tenantRestConfig (tn_anonymous env) base token) m = Inr c)"

definition remote_client :: "('c, 'm) tenant_env \<Rightarrow> string \<Rightarrow> string \<Rightarrow> 'c \<Rightarrow> bool" where
  "remote_client env ns sa c \<longleftrightarrow>
     (\<exists>cfg m. tn_dial env (if sa = [] then cfg else cfg\<lparr>rcf_Impersonate := serviceAccountUser ns sa\<rparr>) m = Inr c)"

text \<open>Names of namespaces and ServiceAccounts have no slash, so a key tells whose connection it is.\<close>

definition targets_ok :: "('c, 'm) tenant_env \<Rightarrow> ('c, 'm) targets \<Rightarrow> bool" where
  "targets_ok env targets \<longleftrightarrow>
     (\<forall>key t. targets key = Some t \<longrightarrow>
        (\<forall>ns sa. key = localTargetKey ns sa \<longrightarrow> local_client env (ct_token t) (ct_client t)) \<and>
        (\<forall>ns ckey sa. key = remoteTargetKey ns ckey sa \<and> CHR ''/'' \<notin> set ns \<and> CHR ''/'' \<notin> set sa \<longrightarrow>
           remote_client env ns sa (ct_client t)))"

lemma local_remote: "localTargetKey ns sa \<noteq> remoteTargetKey ns' ckey sa'"
  by (simp add: localTargetKey_def remoteTargetKey_def)

lemma last_segment: "CHR ''/'' \<notin> set a \<Longrightarrow> CHR ''/'' \<notin> set b \<Longrightarrow> xs @ CHR ''/'' # a = ys @ CHR ''/'' # b \<Longrightarrow> xs = ys \<and> a = b"
proof (induction xs arbitrary: ys)
  case Nil
  then show ?case by (cases ys) auto
next
  case (Cons x xs)
  then show ?case by (cases ys) auto
qed

lemma first_segment: "CHR ''/'' \<notin> set a \<Longrightarrow> CHR ''/'' \<notin> set b \<Longrightarrow> a @ CHR ''/'' # xs = b @ CHR ''/'' # ys \<Longrightarrow> a = b \<and> xs = ys"
proof (induction a arbitrary: b)
  case Nil
  then show ?case by (cases b) auto
next
  case (Cons x a)
  then show ?case by (cases b) auto
qed

lemma remote_key_inj:
  assumes "remoteTargetKey ns ckey sa = remoteTargetKey ns' ckey' sa'"
    and "CHR ''/'' \<notin> set ns" "CHR ''/'' \<notin> set ns'" "CHR ''/'' \<notin> set sa" "CHR ''/'' \<notin> set sa'"
  shows "ns = ns' \<and> ckey = ckey' \<and> sa = sa'"
proof -
  have "ns @ CHR ''/'' # (ckey @ CHR ''/'' # sa) = ns' @ CHR ''/'' # (ckey' @ CHR ''/'' # sa')"
    using assms(1) by (simp add: remoteTargetKey_def)
  from first_segment [OF assms(2,3) this] have "ns = ns'" "ckey @ CHR ''/'' # sa = ckey' @ CHR ''/'' # sa'" by auto
  with last_segment [OF assms(4,5)] show ?thesis by blast
qed

lemma build_connection_dialed: "build_connection env cfg bm = Inr (c, m) \<Longrightarrow> tn_dial env cfg m = Inr c"
  by (auto simp: build_connection_def split: sum.splits option.splits)

lemma connection_cases:
  assumes "connection env key token cfg bm targets = (targets', res)"
  obtains (reused) t where "targets key = Some t" "ct_token t = token" "targets' = targets" "res = Inr (ct_client t, ct_mapper t)"
  | (built) c m where "tn_dial env cfg m = Inr c" "res = Inr (c, m)"
      "targets' = targets(key \<mapsto> \<lparr>ct_client = c, ct_mapper = m, ct_token = token\<rparr>)"
  | (none) e where "targets' = targets" "res = Inl e"
proof (cases "reusable targets key token")
  case (Some t)
  then have "targets key = Some t" "ct_token t = token" by (auto simp: reusable_def split: option.splits if_splits)
  with assms Some show ?thesis by (intro reused) (auto simp: connection_def)
next
  case None
  show ?thesis
  proof (cases "build_connection env cfg bm")
    case (Inl e)
    with assms None show ?thesis by (intro none [of e]) (auto simp: connection_def)
  next
    case (Inr x)
    obtain c m where x: "x = (c, m)" by fastforce
    with Inr have "tn_dial env cfg m = Inr c" by (simp add: build_connection_dialed)
    with assms None Inr x show ?thesis by (intro built) (auto simp: connection_def)
  qed
qed

lemma local_target_ok:
  assumes "local_target env ns sa targets = (targets', res)" "targets_ok env targets"
  shows "targets_ok env targets' \<and>
    (\<forall>c m. res = Inr (c, m) \<longrightarrow>
       (if sa = [] \<or> tn_SkipImpersonation env then c = tn_Client env
        else \<exists>token. tn_Token env ns sa = Some (Inr token) \<and> local_client env token c))"
proof (cases "sa = [] \<or> tn_SkipImpersonation env \<or> tn_Config env = None \<or> (\<forall>token. tn_Token env ns sa \<noteq> Some (Inr token))")
  case True
  with assms show ?thesis by (auto simp: local_target_def split: if_splits option.splits sum.splits)
next
  case False
  then obtain base token where b: "tn_Config env = Some base" and t: "tn_Token env ns sa = Some (Inr token)"
    and sa: "\<not> (sa = [] \<or> tn_SkipImpersonation env)" by auto
  with assms(1) have "connection env (localTargetKey ns sa) token (tenantRestConfig (tn_anonymous env) base token)
      (Some (tn_RESTMapper env)) targets = (targets', res)" by (simp add: local_target_def)
  then show ?thesis
  proof (cases rule: connection_cases)
    case (reused x)
    with assms(2) t sa show ?thesis by (auto simp: targets_ok_def)
  next
    case (built c m)
    then have "local_client env token c" using b by (auto simp: local_client_def)
    with built assms(2) t sa show ?thesis by (auto simp: targets_ok_def local_remote)
  qed (use assms(2) in auto)
qed


text \<open>A token that was rotated: the cached connection is replaced by one with the new token.\<close>

definition plain_config :: rest_config where
  "plain_config = \<lparr>rcf_Host = ''https://api'', rcf_BearerToken = ''controller'', rcf_BearerTokenFile = ''/token'',
     rcf_Impersonate = [], rcf_Static = Some ''cert'', rcf_CAData = ''ca'', rcf_CAFile = [], rcf_ServerName = [], rcf_Insecure = True\<rparr>"

definition demo_tenant :: "string \<Rightarrow> (rest_config, nat) tenant_env" where
  "demo_tenant token =
     \<lparr>tn_Client = plain_config, tn_RESTMapper = 0, tn_SkipImpersonation = False, tn_Config = Some plain_config,
      tn_Token = (\<lambda>_ _. Some (Inr token)), tn_anonymous = (\<lambda>b. b\<lparr>rcf_Static := None\<rparr>), tn_discover = (\<lambda>_. Inr 1),
      tn_dial = (\<lambda>cfg _. Inr cfg), tn_secret = (\<lambda>_ _ _. ObjectError), tn_configMap = (\<lambda>_ _ _. ObjectError),
      tn_parse = (\<lambda>_. None), tn_cloud = (\<lambda>_ _ _. None)\<rparr>"

definition demo_targets :: "(rest_config, nat) targets" where
  "demo_targets = [''local/prod/deployer'' \<mapsto>
     \<lparr>ct_client = tenantRestConfig (\<lambda>b. b\<lparr>rcf_Static := None\<rparr>) plain_config ''old'', ct_mapper = 0, ct_token = ''old''\<rparr>]"


text \<open>What is forgotten with a StageSet: the ServiceAccounts no other live StageSet of the namespace uses.\<close>

lemma fold_drop_used:
  "set (fold (drop_used ss) os used) = {sa \<in> set used. \<forall>other\<in>set os. set_Name other \<noteq> set_Name ss \<and> set_DeletionTimestamp other = None \<longrightarrow>
     sa \<noteq> spec_ServiceAccountName (set_Spec other) \<and> sa \<notin> effectiveServiceAccount other ` set (spec_Stages (set_Spec other))}"
  by (induction os arbitrary: used) (auto simp: drop_used_def)

lemma deleted_tenants_exact:
  "set (deleted_tenants ss (Some others)) = {sa \<in> set (used_accounts ss). \<forall>other\<in>set others.
     set_Name other \<noteq> set_Name ss \<and> set_DeletionTimestamp other = None \<longrightarrow> sa \<notin> set (used_accounts other)}"
  by (auto simp: deleted_tenants_def fold_drop_used used_accounts_def)

lemma forgets_only_deleted:
  "set_Namespace ss = ns \<Longrightarrow> sa \<notin> set (deleted_tenants ss others) \<Longrightarrow>
    snd (forgetDeletedTenants ss others st) (localTargetKey ns sa) = snd st (localTargetKey ns sa)"
proof -
  have "sa \<notin> set accounts \<Longrightarrow> snd (fold (forgetTenant ns) accounts st) (localTargetKey ns sa) = snd st (localTargetKey ns sa)"
    for accounts by (induction accounts arbitrary: st) (auto simp: forgetTenant_def localTargetKey_def)
  then show "set_Namespace ss = ns \<Longrightarrow> sa \<notin> set (deleted_tenants ss others) \<Longrightarrow>
      snd (forgetDeletedTenants ss others st) (localTargetKey ns sa) = snd st (localTargetKey ns sa)"
    by (simp add: forgetDeletedTenants_def)
qed

text \<open>A connection to a remote cluster is never dropped: every version of a rotated kubeconfig leaves one behind.\<close>

lemma remote_connections_stay:
  "snd (forgetDeletedTenants ss others st) (remoteTargetKey ns ckey sa) = snd st (remoteTargetKey ns ckey sa)"
proof -
  have "snd (fold (forgetTenant ns') accounts st) (remoteTargetKey ns ckey sa) = snd st (remoteTargetKey ns ckey sa)"
    for accounts ns' by (induction accounts arbitrary: st) (auto simp: forgetTenant_def local_remote [symmetric])
  then show ?thesis by (simp add: forgetDeletedTenants_def)
qed

end
