(* ===== verification/StageLoop.thy ===== *)
theory StageLoop
  imports MigrationRun Preflight ReadyChecks ImageGate Rollback StageInv
begin

text \<open>
  The stage loop of \<open>Reconcile\<close> (\<open>internal/controller/stageset_controller.go\<close>): what one pass does with each
  stage, from the error budget to the promotion gate, in the order of the code, and how it leaves the
  loop. The steps are the definitions of the other theories; what they call outside the process (the
  cluster, the metrics, the registry, the build) is \<open>loop_env\<close>. Every step that reaches the cluster leaves
  an event in a trace, which no code reads.
\<close>

section \<open>State\<close>

datatype loop_event =
    Migrated string
  | PreActed string
  | Applying string string "json list" ConflictHandling
  | Recorded_inventory string nat "ObjectRef list"
  | OnFailed string
  | Verified string
  | PostActed string
  | Gated string
  | Reverting rollback_effect
  | OnRolledBack

text \<open>What is the same for all stages of a pass.\<close>

record ('e, 'w) loop_env =
  le_interval :: duration
  le_now :: instant
  le_connect :: "string \<Rightarrow> cause option"
  le_budget :: "ErrorBudget \<Rightarrow> BudgetFreeze option \<Rightarrow> budget_verdict"
  le_exec :: "string \<Rightarrow> Action \<Rightarrow> 'w \<Rightarrow> 'w \<times> exec_error option"
  le_anchors :: "string \<Rightarrow> anchor_reader"
  le_drop_fails :: "string \<Rightarrow> bool"
  le_update_fails :: "string \<Rightarrow> string \<Rightarrow> bool"
  le_digest :: "Migration \<Rightarrow> string"
  le_action_cause :: "ledger_error run_error \<Rightarrow> cause"
  le_migration_cause :: "unit run_error \<Rightarrow> cause"
  le_fetch :: "string \<Rightarrow> string \<Rightarrow> fetch_error + files"
  le_decrypt :: "(files \<Rightarrow> string + files) option"
  le_tenant :: tenant_reader
  le_vars_cause :: cause
  le_sha256 :: "string \<Rightarrow> string"
  le_build :: "files \<Rightarrow> string \<Rightarrow> kustomize_patch list \<Rightarrow> vars \<Rightarrow> cause + json list"
  le_images :: "'e gate_env"
  le_image_cause :: "gate_error \<Rightarrow> cause"
  le_token :: "string \<Rightarrow> string"
  le_apply :: "string \<Rightarrow> json list \<Rightarrow> ConflictHandling \<Rightarrow> cause option"
  le_gv :: group_version_parser
  le_recover :: "string \<Rightarrow> json list \<Rightarrow> ObjectRef list"
  le_write :: "string \<Rightarrow> nat \<Rightarrow> ObjectRef list \<Rightarrow> cause option"
  le_verify :: "Stage \<Rightarrow> json list \<Rightarrow> verifyOutcome \<times> cause"
  le_promo :: "Stage \<Rightarrow> promo_env"
  le_rollback :: rollback_env
  le_revert_cause :: cause

text \<open>What is fixed for one stage.\<close>

record stage_ctx =
  cx_Stage :: Stage
  cx_Position :: nat
  cx_Resolved :: ResolvedArtifact
  cx_Prior :: "StageStatus option"
  cx_Plan :: migrationPlan
  cx_Override :: bool
  cx_LastHandled :: string
  cx_Reconstruct :: bool
  cx_Snapshot :: "StageArtifactRef list"

text \<open>The variables of the pass, and below them those of the current stage.\<close>

record 'w loop_state =
  lp_Set :: StageSet
  lp_Versions :: version_status
  lp_Actions :: "'w action_state"
  lp_migRuns :: "string \<Rightarrow> nat"
  lp_Verifier :: verifier_state
  lp_stageStatuses :: "StageStatus list"
  lp_desiredRecords :: "StageRecord list"
  lp_reconstructed :: "string list"
  lp_applied :: "(string \<times> string) list"
  lp_subDigests :: "string list"
  lp_trace :: "loop_event list"
  lp_freeze :: "BudgetFreeze option"
  lp_files :: files
  lp_vars :: vars
  lp_objects :: "json list"
  lp_conflicts :: ConflictHandling
  lp_refs :: "ObjectRef list"

text \<open>How a stage leaves the loop.\<close>

datatype stage_end =
    Failed string cause
  | DeletedMidway
  | StillProgressing
  | HeldForPromotion "PromotionState option" duration
  | HeldForBudget duration
  | BudgetMalformed budget_error
  | GateReadDenied
  | GateInterrupted

abbreviation cx_name :: "stage_ctx \<Rightarrow> string" where
  "cx_name cx \<equiv> stg_Name (cx_Stage cx)"

abbreviation cx_revision :: "stage_ctx \<Rightarrow> string" where
  "cx_revision cx \<equiv> ra_Revision (cx_Resolved cx)"

definition trace_event :: "loop_event \<Rightarrow> 'w loop_state \<Rightarrow> 'w loop_state" where
  "trace_event e s = s\<lparr>lp_trace := lp_trace s @ [e]\<rparr>"

definition stage_sa :: "stage_ctx \<Rightarrow> 'w loop_state \<Rightarrow> string" where
  "stage_sa cx s = effectiveServiceAccount (lp_Set s) (cx_Stage cx)"

text \<open>The inputs of the actions of the stage, as \<open>ActionRunner\<close> takes them; what lies between pre- and
  post-actions is here, not in it.\<close>

definition actions_pass :: "('e, 'w) loop_env \<Rightarrow> stage_ctx \<Rightarrow> 'w loop_state \<Rightarrow> 'w stage_pass" where
  "actions_pass env cx s =
     \<lparr>sp_revision = cx_revision cx,
      sp_desired = (if mp_versionSet (cx_Plan cx) then Some (mp_desired (cx_Plan cx)) else None),
      sp_baseline = mp_baseline (cx_Plan cx), sp_act = le_exec env (stage_sa cx s),
      sp_reader = le_anchors env (stage_sa cx s), sp_now = le_now env,
      sp_drop_fails = le_drop_fails env (cx_name cx), sp_update_fails = le_update_fails env (cx_name cx),
      sp_mid = (\<lambda>w. (w, MidOk)), sp_persisted = True\<rparr>"

section \<open>Before the stage's content\<close>

definition enter_phase :: "('e, 'w) loop_env \<Rightarrow> stage_ctx \<Rightarrow> 'w loop_state \<Rightarrow> 'w loop_state \<times> stage_end option" where
  "enter_phase env cx s =
     (let p = actions_pass env cx s;
          led = stage_ledger (sp_revision p) (sp_desired p) (sp_baseline p) (cx_Stage cx) (cx_Prior cx);
          s1 = s\<lparr>lp_Actions := (lp_Actions s)\<lparr>as_led := led\<rparr>\<rparr>
      in case enter_stage (le_interval env) (le_budget env) (lp_Set s) (cx_Stage cx) (cx_Override cx) (cx_revision cx) (cx_Prior cx) of
           EnterStage freeze \<Rightarrow> (s1\<lparr>lp_freeze := freeze\<rparr>, None)
         | HoldAtStage held requeue \<Rightarrow> (s1\<lparr>lp_stageStatuses := lp_stageStatuses s @ [held]\<rparr>, Some (HeldForBudget requeue))
         | StageBudgetInvalid e \<Rightarrow> (s1, Some (BudgetMalformed e)))"

definition connect_phase :: "('e, 'w) loop_env \<Rightarrow> stage_ctx \<Rightarrow> 'w loop_state \<Rightarrow> 'w loop_state \<times> stage_end option" where
  "connect_phase env cx s = (s, map_option (Failed ''connect to target cluster'') (le_connect env (stage_sa cx s)))"

text \<open>The lifetime gate; a failing drop of invalidated completions is a ledger error.\<close>

definition lifetime_phase :: "('e, 'w) loop_env \<Rightarrow> stage_ctx \<Rightarrow> 'w loop_state \<Rightarrow> 'w loop_state \<times> stage_end option" where
  "lifetime_phase env cx s =
     (case open_ledgers (actions_pass env cx s) (cx_Stage cx) (cx_Prior cx) (lp_Actions s) of
        (st, ok) \<Rightarrow> (s\<lparr>lp_Actions := st\<rparr>,
          if ok then None
          else Some (Failed ''invalidate lifetime completion'' (le_action_cause env (RecordFailed LedgerUpdateFailed)))))"

definition migrate_phase :: "('e, 'w) loop_env \<Rightarrow> stage_ctx \<Rightarrow> 'w loop_state \<Rightarrow> 'w loop_state \<times> stage_end option" where
  "migrate_phase env cx s =
     (let keep = (\<lambda>st. s\<lparr>lp_Versions := mgs_status st, lp_migRuns := mgs_runs st,
            lp_Actions := (lp_Actions s)\<lparr>as_world := mgs_world st\<rparr>\<rparr>)
      in case runStageMigrations (le_digest env) (le_exec env (stage_sa cx s)) (cx_Plan cx) (cx_name cx)
            \<lparr>mgs_world = as_world (lp_Actions s), mgs_status = lp_Versions s, mgs_runs = lp_migRuns s\<rparr> of
           (st, None) \<Rightarrow> (trace_event (Migrated (cx_name cx)) (keep st), None)
         | (st, Some e) \<Rightarrow>
             (let v = (mgs_status st)\<lparr>vst_MigrationFailureCount := vst_MigrationFailureCount (mgs_status st) + 1\<rparr>
              in ((keep st)\<lparr>lp_Versions := v\<rparr>, Some (Failed (migration_fail_op v) (le_migration_cause env e)))))"

text \<open>A failing action of a stage with an open Lifetime action is counted.\<close>

definition action_failure :: "('e, 'w) loop_env \<Rightarrow> stage_ctx \<Rightarrow> string \<Rightarrow> ledger_error run_error \<Rightarrow> 'w loop_state \<Rightarrow> 'w loop_state \<times> stage_end option" where
  "action_failure env cx phase e s =
     (case actionFailureOp (lp_Set s) (cx_Stage cx) (al_lifetimeDone (as_led (lp_Actions s))) phase of
        (ss, op) \<Rightarrow> (s\<lparr>lp_Set := ss\<rparr>, Some (Failed op (le_action_cause env e))))"

definition pre_phase :: "('e, 'w) loop_env \<Rightarrow> stage_ctx \<Rightarrow> 'w loop_state \<Rightarrow> 'w loop_state \<times> stage_end option" where
  "pre_phase env cx s =
     (case run_actions (actions_pass env cx s) (cx_Stage cx) sact_Pre (lp_Actions s) of
        (st, None) \<Rightarrow> (trace_event (PreActed (cx_name cx)) (s\<lparr>lp_Actions := st\<rparr>), None)
      | (st, Some e) \<Rightarrow> action_failure env cx ''pre-action'' e (s\<lparr>lp_Actions := st\<rparr>))"

section \<open>From the artifact to the objects\<close>

definition fetch_cause :: "fetch_error \<Rightarrow> cause" where
  "fetch_cause e = \<lparr>cause_permanent = False, cause_unauthorized = False, cause_terminal_fetch = terminalFetchError e, cause_text = []\<rparr>"

definition plain_cause :: "string \<Rightarrow> cause" where
  "plain_cause msg = \<lparr>cause_permanent = False, cause_unauthorized = False, cause_terminal_fetch = False, cause_text = msg\<rparr>"

definition fetch_phase :: "('e, 'w) loop_env \<Rightarrow> stage_ctx \<Rightarrow> 'w loop_state \<Rightarrow> 'w loop_state \<times> stage_end option" where
  "fetch_phase env cx s =
     (case le_fetch env (ra_URL (cx_Resolved cx)) (ra_Digest (cx_Resolved cx)) of
        Inl e \<Rightarrow> (s, Some (Failed ''fetch artifact'' (fetch_cause e)))
      | Inr fs \<Rightarrow> (s\<lparr>lp_files := fs\<rparr>, None))"

definition decrypt_phase :: "('e, 'w) loop_env \<Rightarrow> stage_ctx \<Rightarrow> 'w loop_state \<Rightarrow> 'w loop_state \<times> stage_end option" where
  "decrypt_phase env cx s =
     (case decryptFiles (le_decrypt env) (lp_files s) of
        Inl msg \<Rightarrow> (s, Some (Failed ''decrypt'' (plain_cause msg)))
      | Inr fs \<Rightarrow> (s\<lparr>lp_files := fs\<rparr>, None))"

definition vars_phase :: "('e, 'w) loop_env \<Rightarrow> stage_ctx \<Rightarrow> 'w loop_state \<Rightarrow> 'w loop_state \<times> stage_end option" where
  "vars_phase env cx s =
     (case resolvePostBuildVars (le_tenant env) (stg_PostBuild (cx_Stage cx)) of
        None \<Rightarrow> (s, Some (Failed ''resolve postBuild variables'' (le_vars_cause env)))
      | Some vs \<Rightarrow> (s\<lparr>lp_vars := vs, lp_subDigests := lp_subDigests s @ [substitutionDigest (le_sha256 env) vs]\<rparr>, None))"

text \<open>The build and the stage label on every object.\<close>

definition build_phase :: "('e, 'w) loop_env \<Rightarrow> stage_ctx \<Rightarrow> 'w loop_state \<Rightarrow> 'w loop_state \<times> stage_end option" where
  "build_phase env cx s =
     (case le_build env (lp_files s) (stg_Path (cx_Stage cx)) (stg_Patches (cx_Stage cx)) (lp_vars s) of
        Inl c \<Rightarrow> (s, Some (Failed ''build'' c))
      | Inr objects \<Rightarrow> (s\<lparr>lp_objects := StampStageLabel objects (cx_name cx)\<rparr>, None))"

definition images_phase :: "('e, 'w) loop_env \<Rightarrow> stage_ctx \<Rightarrow> 'w loop_state \<Rightarrow> 'w loop_state \<times> stage_end option" where
  "images_phase env cx s =
     (case verifyStageImages (le_images env) (lp_Set s) (lp_Verifier s) (lp_objects s) of
        (vs, Inl e) \<Rightarrow> (s\<lparr>lp_Verifier := vs\<rparr>, Some (Failed opImageVerification (le_image_cause env e)))
      | (vs, Inr objects) \<Rightarrow> (s\<lparr>lp_Verifier := vs, lp_objects := objects\<rparr>, None))"

definition conflict_phase :: "('e, 'w) loop_env \<Rightarrow> stage_ctx \<Rightarrow> 'w loop_state \<Rightarrow> 'w loop_state \<times> stage_end option" where
  "conflict_phase env cx s =
     (case ResolveConflictHandling (lp_objects s) (cx_Stage cx) (le_token env (cx_name cx)) of
        None \<Rightarrow> (s, Some (Failed ''conflict policy'' (plain_cause ''refuses to recreate'')))
      | Some (objects, ch) \<Rightarrow> (s\<lparr>lp_objects := objects, lp_conflicts := ch\<rparr>, None))"

section \<open>Applying\<close>

text \<open>A failure from the apply on runs the onFailure actions first.\<close>

definition fail_applied :: "('e, 'w) loop_env \<Rightarrow> stage_ctx \<Rightarrow> stage_end \<Rightarrow> 'w loop_state \<Rightarrow> 'w loop_state \<times> stage_end option" where
  "fail_applied env cx fin s =
     (trace_event (OnFailed (cx_name cx)) (s\<lparr>lp_Actions := runOnFailure (actions_pass env cx s) (cx_Stage cx) (lp_Actions s)\<rparr>), Some fin)"

definition apply_phase :: "('e, 'w) loop_env \<Rightarrow> stage_ctx \<Rightarrow> 'w loop_state \<Rightarrow> 'w loop_state \<times> stage_end option" where
  "apply_phase env cx s =
     (let s1 = trace_event (Applying (cx_name cx) (stage_sa cx s) (lp_objects s) (lp_conflicts s)) s
      in case le_apply env (stage_sa cx s) (lp_objects s) (lp_conflicts s) of
           Some c \<Rightarrow> fail_applied env cx (Failed ''apply'' c) s1
         | None \<Rightarrow> (s1, None))"

definition object_ref :: "group_version_parser \<Rightarrow> json \<Rightarrow> ObjectRef" where
  "object_ref gv obj =
     (case (case gv (nested_string [''apiVersion''] obj) of Some g \<Rightarrow> g | None \<Rightarrow> ([], [])) of
        (grp, version) \<Rightarrow> RefOf \<lparr>lo_Group = grp, lo_Version = version, lo_Kind = GetKind obj,
          lo_Namespace = nested_string [''metadata'', ''namespace''] obj,
          lo_Name = nested_string [''metadata'', ''name''] obj, lo_Labels = Map.empty\<rparr>)"

text \<open>The inventory is written before the readiness is known; a lost one takes in what the cluster has.\<close>

definition record_phase :: "('e, 'w) loop_env \<Rightarrow> stage_ctx \<Rightarrow> 'w loop_state \<Rightarrow> 'w loop_state \<times> stage_end option" where
  "record_phase env cx s =
     (let newRefs = map (object_ref (le_gv env)) (lp_objects s);
          writeRefs = (if cx_Reconstruct cx then unionRefs newRefs (le_recover env (cx_name cx) (lp_objects s)) else newRefs);
          s1 = trace_event (Recorded_inventory (cx_name cx) (cx_Position cx) writeRefs)
            (s\<lparr>lp_refs := newRefs,
               lp_desiredRecords := lp_desiredRecords s @
                 [\<lparr>rec_Name = cx_name cx, rec_Position = int (cx_Position cx), rec_Entries = newRefs\<rparr>],
               lp_reconstructed := lp_reconstructed s @ (if cx_Reconstruct cx then [cx_name cx] else [])\<rparr>)
      in case le_write env (cx_name cx) (cx_Position cx) writeRefs of
           Some c \<Rightarrow> fail_applied env cx (Failed ''record inventory'' c) s1
         | None \<Rightarrow> (s1, None))"

definition applied_of :: "stage_ctx \<Rightarrow> 'w loop_state \<Rightarrow> applied_stage" where
  "applied_of cx s =
     \<lparr>ap_revision = cx_revision cx, ap_entries = int (length (lp_refs s)), ap_led = as_led (lp_Actions s),
      ap_lastHandled = cx_LastHandled cx, ap_freeze = lp_freeze s\<rparr>"

definition verify_phase :: "('e, 'w) loop_env \<Rightarrow> stage_ctx \<Rightarrow> 'w loop_state \<Rightarrow> 'w loop_state \<times> stage_end option" where
  "verify_phase env cx s =
     (case le_verify env (cx_Stage cx) (lp_objects s) of
        (vo, c) \<Rightarrow>
          if vo_deleted vo then (s, Some DeletedMidway)
          else if vo_failed vo \<and> vo_progressing vo \<and> stageOnTimeout (lp_Set s) (cx_Stage cx) \<noteq> ''Rollback''
          then (s\<lparr>lp_stageStatuses := lp_stageStatuses s @
                  [held_for_progress (cx_Stage cx) (applied_of cx s) (''verify: '' @ cause_text c)]\<rparr>, Some StillProgressing)
          else if vo_failed vo then fail_applied env cx (Failed ''verify'' c) s
          else (trace_event (Verified (cx_name cx)) s, None))"

definition post_phase :: "('e, 'w) loop_env \<Rightarrow> stage_ctx \<Rightarrow> 'w loop_state \<Rightarrow> 'w loop_state \<times> stage_end option" where
  "post_phase env cx s =
     (case run_actions (actions_pass env cx s) (cx_Stage cx) sact_Post (lp_Actions s) of
        (st, None) \<Rightarrow> (trace_event (PostActed (cx_name cx)) (s\<lparr>lp_Actions := st\<rparr>), None)
      | (st, Some e) \<Rightarrow>
          (let s1 = s\<lparr>lp_Actions := st\<rparr>;
               s2 = trace_event (OnFailed (cx_name cx)) (s1\<lparr>lp_Actions := runOnFailure (actions_pass env cx s1) (cx_Stage cx) st\<rparr>)
           in action_failure env cx ''post-action'' e s2))"

section \<open>The promotion gate\<close>

text \<open>Whether the verdict asks for a revert; only then is the snapshot touched.\<close>

definition gate_reverts :: "('e, 'w) loop_env \<Rightarrow> stage_ctx \<Rightarrow> 'w loop_state \<Rightarrow> bool" where
  "gate_reverts env cx s =
     (let prior = prior_or_zero (cx_Prior cx); penv = le_promo env (cx_Stage cx) in
      case read_gates penv (cx_Stage cx) prior of
        Inl _ \<Rightarrow> False
      | Inr (obs, event) \<Rightarrow>
          go_rollback (judge (le_interval env) (lp_Set s) (cx_Stage cx) prior (applied_of cx s) penv obs event))"

text \<open>The actions after a rollback run under the default identity, best effort, without a ledger.\<close>

definition runOnRollback :: "('e, 'w) loop_env \<Rightarrow> 'w loop_state \<Rightarrow> 'w loop_state" where
  "runOnRollback env s =
     (let spec = set_Spec (lp_Set s); sa = spec_ServiceAccountName spec in
      if spec_OnRollback spec = [] \<or> le_connect env sa \<noteq> None then s
      else trace_event OnRolledBack (s\<lparr>lp_Actions :=
        fst (Run (counted (le_exec env sa)) (None :: (string \<Rightarrow> 'w action_state \<Rightarrow> 'w action_state \<times> unit option) option)
          {} (spec_OnRollback spec) (lp_Actions s))\<rparr>))"

definition revert_answer :: "cause \<Rightarrow> stage_revert \<Rightarrow> cause + string option" where
  "revert_answer c r = (case r of Reverted revision \<Rightarrow> Inr (Some revision) | CannotRevert \<Rightarrow> Inr None | RevertError \<Rightarrow> Inl c)"

definition gate_phase :: "('e, 'w) loop_env \<Rightarrow> stage_ctx \<Rightarrow> 'w loop_state \<Rightarrow> 'w loop_state \<times> stage_end option" where
  "gate_phase env cx s =
     (let reverts = gate_reverts env cx s;
          (effs, answer) = (if reverts
             then rollbackStageToSnapshot (le_rollback env) (lp_Set s) (cx_Stage cx) (cx_Position cx) (cx_Snapshot cx)
             else ([], CannotRevert));
          s1 = s\<lparr>lp_trace := lp_trace s @ map Reverting effs\<rparr>;
          s2 = (case answer of Reverted _ \<Rightarrow> runOnRollback env s1 | _ \<Rightarrow> s1);
          note_applied = (\<lambda>e. s2\<lparr>lp_stageStatuses := lp_stageStatuses s2 @ [e],
             lp_applied := lp_applied s2 @ [(Artifact.Key (cx_Resolved cx), cx_revision cx)]\<rparr>)
      in case promotion_step (le_interval env) (lp_Set s) (cx_Stage cx) (prior_or_zero (cx_Prior cx)) (applied_of cx s)
             ((le_promo env (cx_Stage cx))\<lparr>pe_revert := revert_answer (le_revert_cause env) answer\<rparr>) of
           GateDenied e \<Rightarrow> (s2\<lparr>lp_stageStatuses := lp_stageStatuses s2 @ [e]\<rparr>, Some GateReadDenied)
         | GateUnevaluable e \<Rightarrow> (s2\<lparr>lp_stageStatuses := lp_stageStatuses s2 @ [e]\<rparr>, Some GateInterrupted)
         | Held e st requeue \<Rightarrow> (note_applied e, Some (HeldForPromotion st requeue))
         | Advanced e \<Rightarrow> (trace_event (Gated (cx_name cx)) (note_applied e), None))"

section \<open>The loop\<close>

text \<open>One step after the other, up to the first that leaves the loop.\<close>

fun run_phases :: "('s \<Rightarrow> 's \<times> 'a option) list \<Rightarrow> 's \<Rightarrow> 's \<times> 'a option" where
  "run_phases [] s = (s, None)"
| "run_phases (f # fs) s =
     (case f s of
        (s1, Some e) \<Rightarrow> (s1, Some e)
      | (s1, None) \<Rightarrow> run_phases fs s1)"

definition before_apply :: "('e, 'w) loop_env \<Rightarrow> stage_ctx \<Rightarrow> ('w loop_state \<Rightarrow> 'w loop_state \<times> stage_end option) list" where
  "before_apply env cx =
     [enter_phase env cx, connect_phase env cx, lifetime_phase env cx, migrate_phase env cx, pre_phase env cx,
      fetch_phase env cx, decrypt_phase env cx, vars_phase env cx, build_phase env cx, images_phase env cx,
      conflict_phase env cx]"

definition from_apply :: "('e, 'w) loop_env \<Rightarrow> stage_ctx \<Rightarrow> ('w loop_state \<Rightarrow> 'w loop_state \<times> stage_end option) list" where
  "from_apply env cx =
     [apply_phase env cx, record_phase env cx, verify_phase env cx, post_phase env cx, gate_phase env cx]"

text \<open>A stage whose revision was reverted before is parked; otherwise its steps run.\<close>

definition parked :: "stage_ctx \<Rightarrow> 'w loop_state \<Rightarrow> bool" where
  "parked cx s =
     (case cx_Prior cx of None \<Rightarrow> False | Some p \<Rightarrow> rollbackAborted (lp_Set s) (cx_Stage cx) p (cx_revision cx))"

definition run_stage :: "('e, 'w) loop_env \<Rightarrow> stage_ctx \<Rightarrow> 'w loop_state \<Rightarrow> 'w loop_state \<times> stage_end option" where
  "run_stage env cx s =
     (if parked cx s then
        (s\<lparr>lp_stageStatuses := lp_stageStatuses s @ [prior_or_zero (cx_Prior cx)]\<rparr>,
         Some (HeldForPromotion (ss_PromotionState (prior_or_zero (cx_Prior cx))) (retryInterval (le_interval env) (lp_Set s))))
      else run_phases (before_apply env cx @ from_apply env cx) s)"

fun run_stages ::
  "('e, 'w) loop_env \<Rightarrow> stage_ctx list \<Rightarrow> 'w loop_state \<Rightarrow> 'w loop_state \<times> (stage_ctx \<times> stage_end) option" where
  "run_stages env [] s = (s, None)"
| "run_stages env (cx # cxs) s =
     (case run_stage env cx s of
        (s1, None) \<Rightarrow> run_stages env cxs s1
      | (s1, Some e) \<Rightarrow> (s1, Some (cx, e)))"

section \<open>Steps that succeed\<close>

lemma run_phases_Cons_None [simp]:
  "run_phases (f # fs) s = (s', None) \<longleftrightarrow> (\<exists>s1. f s = (s1, None) \<and> run_phases fs s1 = (s', None))"
  by (cases "f s") (auto split: option.splits)

lemma run_phases_append:
  "run_phases (fs @ gs) s = (case run_phases fs s of (s1, Some e) \<Rightarrow> (s1, Some e) | (s1, None) \<Rightarrow> run_phases gs s1)"
  by (induction fs arbitrary: s) (auto split: prod.splits option.splits)

lemma enter_phase_None:
  "enter_phase env cx s = (s1, None) \<Longrightarrow> \<exists>led freeze. s1 = s\<lparr>lp_Actions := (lp_Actions s)\<lparr>as_led := led\<rparr>, lp_freeze := freeze\<rparr>"
  by (auto simp: enter_phase_def Let_def split: stage_entry.splits)

lemma connect_phase_None [simp]:
  "connect_phase env cx s = (s1, None) \<longleftrightarrow> s1 = s \<and> le_connect env (stage_sa cx s) = None"
  by (auto simp: connect_phase_def)

lemma lifetime_phase_None: "lifetime_phase env cx s = (s1, None) \<Longrightarrow> \<exists>st. s1 = s\<lparr>lp_Actions := st\<rparr>"
  by (auto simp: lifetime_phase_def split: prod.splits if_splits)

lemma migrate_phase_None:
  "migrate_phase env cx s = (s1, None) \<Longrightarrow>
    \<exists>v r st. s1 = trace_event (Migrated (cx_name cx)) (s\<lparr>lp_Versions := v, lp_migRuns := r, lp_Actions := st\<rparr>)"
  by (auto simp: migrate_phase_def Let_def split: prod.splits option.splits)

lemma action_failure_not_None [simp]: "action_failure env cx phase e s \<noteq> (s1, None)"
  by (simp add: action_failure_def split: prod.splits)

lemma pre_phase_None:
  "pre_phase env cx s = (s1, None) \<Longrightarrow> \<exists>st. s1 = trace_event (PreActed (cx_name cx)) (s\<lparr>lp_Actions := st\<rparr>)"
  by (auto simp: pre_phase_def split: prod.splits option.splits)

lemma fetch_phase_None [simp]:
  "fetch_phase env cx s = (s1, None) \<longleftrightarrow>
    (\<exists>fs. le_fetch env (ra_URL (cx_Resolved cx)) (ra_Digest (cx_Resolved cx)) = Inr fs \<and> s1 = s\<lparr>lp_files := fs\<rparr>)"
  by (auto simp: fetch_phase_def split: sum.splits)

lemma decrypt_phase_None [simp]:
  "decrypt_phase env cx s = (s1, None) \<longleftrightarrow> (\<exists>fs. decryptFiles (le_decrypt env) (lp_files s) = Inr fs \<and> s1 = s\<lparr>lp_files := fs\<rparr>)"
  by (auto simp: decrypt_phase_def split: sum.splits)

lemma vars_phase_None [simp]:
  "vars_phase env cx s = (s1, None) \<longleftrightarrow>
    (\<exists>vs. resolvePostBuildVars (le_tenant env) (stg_PostBuild (cx_Stage cx)) = Some vs \<and>
      s1 = s\<lparr>lp_vars := vs, lp_subDigests := lp_subDigests s @ [substitutionDigest (le_sha256 env) vs]\<rparr>)"
  by (auto simp: vars_phase_def split: option.splits)

lemma build_phase_None [simp]:
  "build_phase env cx s = (s1, None) \<longleftrightarrow>
    (\<exists>raw. le_build env (lp_files s) (stg_Path (cx_Stage cx)) (stg_Patches (cx_Stage cx)) (lp_vars s) = Inr raw \<and>
      s1 = s\<lparr>lp_objects := StampStageLabel raw (cx_name cx)\<rparr>)"
  by (auto simp: build_phase_def split: sum.splits)

lemma images_phase_None [simp]:
  "images_phase env cx s = (s1, None) \<longleftrightarrow>
    (\<exists>vs objects. verifyStageImages (le_images env) (lp_Set s) (lp_Verifier s) (lp_objects s) = (vs, Inr objects) \<and>
      s1 = s\<lparr>lp_Verifier := vs, lp_objects := objects\<rparr>)"
  by (auto simp: images_phase_def split: prod.splits sum.splits)

lemma conflict_phase_None [simp]:
  "conflict_phase env cx s = (s1, None) \<longleftrightarrow>
    (\<exists>objects ch. ResolveConflictHandling (lp_objects s) (cx_Stage cx) (le_token env (cx_name cx)) = Some (objects, ch) \<and>
      s1 = s\<lparr>lp_objects := objects, lp_conflicts := ch\<rparr>)"
  by (auto simp: conflict_phase_def split: option.splits)

lemma fail_applied_not_None [simp]: "fail_applied env cx fin s \<noteq> (s1, None)"
  by (simp add: fail_applied_def)

lemma apply_phase_None [simp]:
  "apply_phase env cx s = (s1, None) \<longleftrightarrow>
    le_apply env (stage_sa cx s) (lp_objects s) (lp_conflicts s) = None \<and>
    s1 = trace_event (Applying (cx_name cx) (stage_sa cx s) (lp_objects s) (lp_conflicts s)) s"
  by (auto simp: apply_phase_def Let_def split: option.splits)

lemma record_phase_None:
  "record_phase env cx s = (s1, None) \<Longrightarrow>
    \<exists>refs recon. let newRefs = map (object_ref (le_gv env)) (lp_objects s) in
      s1 = trace_event (Recorded_inventory (cx_name cx) (cx_Position cx) refs)
        (s\<lparr>lp_refs := newRefs, lp_desiredRecords := lp_desiredRecords s @
           [\<lparr>rec_Name = cx_name cx, rec_Position = int (cx_Position cx), rec_Entries = newRefs\<rparr>],
           lp_reconstructed := recon\<rparr>)"
  by (auto simp: record_phase_def Let_def split: option.splits)

lemma verify_phase_None:
  "verify_phase env cx s = (s1, None) \<Longrightarrow> s1 = trace_event (Verified (cx_name cx)) s"
  by (auto simp: verify_phase_def split: prod.splits if_splits)

lemma post_phase_None:
  "post_phase env cx s = (s1, None) \<Longrightarrow> \<exists>st. s1 = trace_event (PostActed (cx_name cx)) (s\<lparr>lp_Actions := st\<rparr>)"
  by (auto simp: post_phase_def Let_def split: prod.splits option.splits)

lemma gate_phase_None:
  assumes "gate_phase env cx s = (s1, None)"
  shows "\<exists>e. promotion_step (le_interval env) (lp_Set s) (cx_Stage cx) (prior_or_zero (cx_Prior cx)) (applied_of cx s)
      ((le_promo env (cx_Stage cx))\<lparr>pe_revert := Inr None\<rparr>) = Advanced e \<and>
    s1 = trace_event (Gated (cx_name cx)) (s\<lparr>lp_stageStatuses := lp_stageStatuses s @ [e],
      lp_applied := lp_applied s @ [(Artifact.Key (cx_Resolved cx), cx_revision cx)]\<rparr>)"
proof -
  let ?penv = "le_promo env (cx_Stage cx)" let ?prior = "prior_or_zero (cx_Prior cx)"
  have reads: "read_gates (?penv\<lparr>pe_revert := r\<rparr>) (cx_Stage cx) ?prior = read_gates ?penv (cx_Stage cx) ?prior" for r
    by (simp add: read_gates_def split: option.split)
  have judged: "judge iv ss st p ap (?penv\<lparr>pe_revert := r\<rparr>) obs ev = judge iv ss st p ap ?penv obs ev" for iv ss st p ap r obs ev
    by (simp add: judge_def split: option.split)
  have "\<not> gate_reverts env cx s"
  proof
    assume "gate_reverts env cx s"
    then obtain obs event where r: "read_gates ?penv (cx_Stage cx) ?prior = Inr (obs, event)"
      and rb: "go_rollback (judge (le_interval env) (lp_Set s) (cx_Stage cx) ?prior (applied_of cx s) ?penv obs event)"
      by (auto simp: gate_reverts_def Let_def split: sum.splits)
    have "\<not> go_promoted (judge (le_interval env) (lp_Set s) (cx_Stage cx) ?prior (applied_of cx s) ?penv obs event)"
      using rb by (auto simp: judge_def elim: gatePromotion_rollback)
    then have "promotion_step (le_interval env) (lp_Set s) (cx_Stage cx) ?prior (applied_of cx s) (?penv\<lparr>pe_revert := x\<rparr>) \<noteq> Advanced e" for x e
      using rb by (auto simp: promotion_step_def reads judged r finish_stage_def Let_def split: sum.splits option.splits)
    with assms show False by (auto simp: gate_phase_def Let_def split: prod.splits promo_result.splits)
  qed
  with assms show ?thesis
    by (auto simp: gate_phase_def Let_def revert_answer_def split: promo_result.splits)
qed

section \<open>What a step leaves alone\<close>

definition phase_keeps :: "('s \<Rightarrow> 'b) \<Rightarrow> ('s \<Rightarrow> 's \<times> 'a option) \<Rightarrow> bool" where
  "phase_keeps g f \<longleftrightarrow> (\<forall>s s1 r. f s = (s1, r) \<longrightarrow> g s1 = g s)"

lemma run_phases_keeps:
  "list_all (phase_keeps g) fs \<Longrightarrow> run_phases fs s = (s1, r) \<Longrightarrow> g s1 = g s"
  by (induction fs arbitrary: s) (auto simp: phase_keeps_def split: prod.splits option.splits)

lemma run_phases_next:
  "f s = (s1, None) \<Longrightarrow> run_phases (f # fs) s = run_phases fs s1"
  "f s = (s1, Some e) \<Longrightarrow> run_phases (f # fs) s = (s1, Some e)"
  by simp_all

declare run_phases.simps(2) [simp del]

text \<open>Everything of the StageSet but the count of failed actions.\<close>

definition spec_of :: "'w loop_state \<Rightarrow> StageSet" where
  "spec_of s = (lp_Set s)\<lparr>set_ActionFailureCount := 0\<rparr>"

lemma spec_of_fields:
  "set_Spec (spec_of s) = set_Spec (lp_Set s)" "set_Stages (spec_of s) = set_Stages (lp_Set s)"
  "set_Annotations (spec_of s) = set_Annotations (lp_Set s)"
  by (simp_all add: spec_of_def)

lemmas phase_defs = enter_phase_def connect_phase_def lifetime_phase_def migrate_phase_def pre_phase_def
  fetch_phase_def decrypt_phase_def vars_phase_def build_phase_def images_phase_def conflict_phase_def
  apply_phase_def record_phase_def verify_phase_def post_phase_def

lemma action_failure_keeps:
  "action_failure env cx phase e s = (s1, r) \<Longrightarrow> spec_of s1 = spec_of s \<and> lp_trace s1 = lp_trace s \<and>
    lp_stageStatuses s1 = lp_stageStatuses s \<and> (\<exists>op c. r = Some (Failed op c))"
  by (auto simp: action_failure_def actionFailureOp_def spec_of_def Let_def split: prod.splits if_splits)

lemma fail_applied_keeps:
  "fail_applied env cx fin s = (s1, r) \<Longrightarrow> spec_of s1 = spec_of s \<and>
    lp_trace s1 = lp_trace s @ [OnFailed (cx_name cx)] \<and> lp_stageStatuses s1 = lp_stageStatuses s \<and> r = Some fin"
  by (auto simp: fail_applied_def spec_of_def trace_event_def)

text \<open>A step that adds these events when it succeeds and none when it does not.\<close>

definition emits :: "loop_event list \<Rightarrow> ('w loop_state \<Rightarrow> 'w loop_state \<times> stage_end option) \<Rightarrow> bool" where
  "emits es f \<longleftrightarrow> (\<forall>s s1 r. f s = (s1, r) \<longrightarrow> lp_trace s1 = lp_trace s @ (if r = None then es else []))"

lemma run_phases_emits:
  "list_all2 emits ess fs \<Longrightarrow> run_phases fs s = (s1, r) \<Longrightarrow>
    \<exists>k. lp_trace s1 = lp_trace s @ take k (concat ess) \<and> (r = None \<longrightarrow> length (concat ess) \<le> k)"
proof (induction ess fs arbitrary: s rule: list_all2_induct)
  case (Cons es ess f fs)
  obtain s0 r0 where f: "f s = (s0, r0)" by fastforce
  with Cons.hyps(1) have t: "lp_trace s0 = lp_trace s @ (if r0 = None then es else [])" by (auto simp: emits_def)
  show ?case
  proof (cases r0)
    case None
    with f Cons.prems have "run_phases fs s0 = (s1, r)" by (simp add: run_phases_next)
    from Cons.IH [OF this] obtain k where "lp_trace s1 = lp_trace s0 @ take k (concat ess)" "r = None \<longrightarrow> length (concat ess) \<le> k"
      by blast
    with t None show ?thesis by (intro exI [of _ "length es + k"]) simp
  next
    case (Some e)
    with f Cons.prems t show ?thesis by (intro exI [of _ 0]) (auto simp: run_phases_next)
  qed
qed simp

lemma emits_phases:
  "emits [] (enter_phase env cx)" "emits [] (connect_phase env cx)" "emits [] (lifetime_phase env cx)"
  "emits [] (fetch_phase env cx)" "emits [] (decrypt_phase env cx)" "emits [] (vars_phase env cx)"
  "emits [] (build_phase env cx)" "emits [] (images_phase env cx)" "emits [] (conflict_phase env cx)"
  by (auto simp: emits_def phase_defs Let_def split: stage_entry.splits prod.splits sum.splits option.splits)

lemma emits_migrate: "emits [Migrated (cx_name cx)] (migrate_phase env cx)"
  by (auto simp: emits_def migrate_phase_def trace_event_def Let_def split: prod.splits option.splits)

lemma emits_pre: "emits [PreActed (cx_name cx)] (pre_phase env cx)"
  by (auto simp: emits_def pre_phase_def trace_event_def split: prod.splits option.splits dest: action_failure_keeps)

text \<open>What a stage has done when it leaves before the apply.\<close>

lemma before_apply_trace:
  assumes "run_phases (before_apply env cx) s = (s1, r)"
  shows "\<exists>k. lp_trace s1 = lp_trace s @ take k [Migrated (cx_name cx), PreActed (cx_name cx)] \<and> (r = None \<longrightarrow> 2 \<le> k)"
proof -
  let ?ess = "[[], [], [], [Migrated (cx_name cx)], [PreActed (cx_name cx)], [], [], [], [], [], []]"
  have "list_all2 emits ?ess (before_apply env cx)"
    by (simp add: before_apply_def emits_phases emits_migrate emits_pre)
  from run_phases_emits [OF this assms] show ?thesis by (simp add: numeral_2_eq_2)
qed

section \<open>What leaving after the apply leaves behind\<close>

lemma apply_phase_Some:
  "apply_phase env cx s = (s1, Some e) \<Longrightarrow>
    lp_trace s1 = lp_trace s @ [Applying (cx_name cx) (stage_sa cx s) (lp_objects s) (lp_conflicts s), OnFailed (cx_name cx)]"
  by (auto simp: apply_phase_def Let_def trace_event_def split: option.splits dest: fail_applied_keeps)

lemma record_phase_Some:
  "record_phase env cx s = (s1, Some e) \<Longrightarrow>
    \<exists>refs. lp_trace s1 = lp_trace s @ [Recorded_inventory (cx_name cx) (cx_Position cx) refs, OnFailed (cx_name cx)]"
  by (auto simp: record_phase_def Let_def trace_event_def split: option.splits dest!: fail_applied_keeps)

lemma verify_phase_Some:
  "verify_phase env cx s = (s1, Some e) \<Longrightarrow> lp_trace s1 = lp_trace s \<or> lp_trace s1 = lp_trace s @ [OnFailed (cx_name cx)]"
  by (auto simp: verify_phase_def split: prod.splits if_splits dest: fail_applied_keeps)

lemma post_phase_Some:
  "post_phase env cx s = (s1, Some e) \<Longrightarrow> lp_trace s1 = lp_trace s @ [OnFailed (cx_name cx)]"
  by (auto simp: post_phase_def Let_def trace_event_def split: prod.splits option.splits dest!: action_failure_keeps)

abbreviation revert_event :: "loop_event \<Rightarrow> bool" where
  "revert_event e \<equiv> e = OnRolledBack \<or> (\<exists>x. e = Reverting x)"

lemma runOnRollback_trace: "\<exists>tail. lp_trace (runOnRollback env s) = lp_trace s @ tail \<and> list_all revert_event tail"
  by (simp add: runOnRollback_def trace_event_def Let_def)

lemma gate_phase_Some:
  assumes "gate_phase env cx s = (s1, Some e)"
  shows "\<exists>tail. lp_trace s1 = lp_trace s @ tail \<and> list_all revert_event tail"
proof -
  obtain effs answer where ea: "(if gate_reverts env cx s
      then rollbackStageToSnapshot (le_rollback env) (lp_Set s) (cx_Stage cx) (cx_Position cx) (cx_Snapshot cx)
      else ([], CannotRevert)) = (effs, answer)" by fastforce
  let ?s1 = "s\<lparr>lp_trace := lp_trace s @ map Reverting effs\<rparr>"
  have "lp_trace s1 = lp_trace (case answer of Reverted _ \<Rightarrow> runOnRollback env ?s1 | _ \<Rightarrow> ?s1)"
    using assms by (auto simp: gate_phase_def ea Let_def split: promo_result.splits)
  moreover obtain tail where
    "lp_trace (case answer of Reverted _ \<Rightarrow> runOnRollback env ?s1 | _ \<Rightarrow> ?s1) = (lp_trace s @ map Reverting effs) @ tail"
    "list_all revert_event tail"
  proof (cases answer)
    case (Reverted x)
    with runOnRollback_trace [of env ?s1] that show ?thesis by auto
  qed (use that [of "[]"] in simp_all)
  moreover have "list_all revert_event (map Reverting effs)" by (simp add: list_all_iff)
  ultimately show ?thesis by (intro exI [of _ "map Reverting effs @ tail"]) simp
qed

text \<open>The events of a stage that the rollout may advance past, in their order.\<close>

definition stage_events :: "stage_ctx \<Rightarrow> string \<Rightarrow> json list \<Rightarrow> ConflictHandling \<Rightarrow> ObjectRef list \<Rightarrow> loop_event list" where
  "stage_events cx sa objects ch refs =
     [Migrated (cx_name cx), PreActed (cx_name cx), Applying (cx_name cx) sa objects ch,
      Recorded_inventory (cx_name cx) (cx_Position cx) refs, Verified (cx_name cx), PostActed (cx_name cx), Gated (cx_name cx)]"

text \<open>What may follow the steps a stopped stage has done: nothing; the onFailure actions, once the apply was
  tried; a revert, after everything else succeeded.\<close>

definition stop_tail :: "string \<Rightarrow> nat \<Rightarrow> loop_event list \<Rightarrow> bool" where
  "stop_tail name k tail \<longleftrightarrow> tail = [] \<or> tail = [OnFailed name] \<and> 3 \<le> k \<and> k \<le> 5 \<or> k = 6 \<and> list_all revert_event tail"

lemma stop_tails: "stop_tail n k []" "stop_tail n 3 [OnFailed n]" "stop_tail n 4 [OnFailed n]" "stop_tail n 5 [OnFailed n]"
  "list_all revert_event tail \<Longrightarrow> stop_tail n 6 tail"
  by (simp_all add: stop_tail_def)

lemma trace_event_simps [simp]:
  "lp_trace (trace_event e s) = lp_trace s @ [e]" "lp_Set (trace_event e s) = lp_Set s"
  "lp_objects (trace_event e s) = lp_objects s" "lp_stageStatuses (trace_event e s) = lp_stageStatuses s"
  "lp_Actions (trace_event e s) = lp_Actions s" "lp_refs (trace_event e s) = lp_refs s"
  "lp_desiredRecords (trace_event e s) = lp_desiredRecords s" "lp_applied (trace_event e s) = lp_applied s"
  "lp_conflicts (trace_event e s) = lp_conflicts s" "lp_Versions (trace_event e s) = lp_Versions s"
  by (simp_all add: trace_event_def)

definition complete_events :: "stage_ctx \<Rightarrow> loop_event list \<Rightarrow> bool" where
  "complete_events cx es \<longleftrightarrow> (\<exists>sa os ch refs. es = stage_events cx sa os ch refs)"

definition stopped_events :: "stage_ctx \<Rightarrow> loop_event list \<Rightarrow> bool" where
  "stopped_events cx es \<longleftrightarrow> (\<exists>sa os ch refs k tail. es = take k (stage_events cx sa os ch refs) @ tail \<and> k \<le> 6 \<and> stop_tail (cx_name cx) k tail)"

definition stage_trace :: "stage_ctx \<Rightarrow> loop_event list \<Rightarrow> 'w loop_state \<Rightarrow> stage_end option \<Rightarrow> bool" where
  "stage_trace cx t s1 r \<longleftrightarrow> (\<exists>es. lp_trace s1 = t @ es \<and> (if r = None then complete_events cx es else stopped_events cx es))"

lemma stage_trace_stop:
  assumes "lp_trace s1 = t @ take k (stage_events cx sa os ch refs) @ tail" "k \<le> 6" "stop_tail (cx_name cx) k tail"
  shows "stage_trace cx t s1 (Some e)"
proof -
  have "stopped_events cx (take k (stage_events cx sa os ch refs) @ tail)"
    unfolding stopped_events_def
    by (rule exI [of _ sa], rule exI [of _ os], rule exI [of _ ch], rule exI [of _ refs], rule exI [of _ k], rule exI [of _ tail])
      (simp add: assms)
  with assms(1) show ?thesis by (auto simp: stage_trace_def)
qed

lemma stage_trace_complete:
  assumes "lp_trace s1 = t @ stage_events cx sa os ch refs"
  shows "stage_trace cx t s1 None"
proof -
  have "complete_events cx (stage_events cx sa os ch refs)" unfolding complete_events_def by blast
  with assms show ?thesis by (auto simp: stage_trace_def)
qed

lemma take_stage_events:
  "take 2 (stage_events cx sa os ch refs) = [Migrated (cx_name cx), PreActed (cx_name cx)]"
  "take 3 (stage_events cx sa os ch refs) = [Migrated (cx_name cx), PreActed (cx_name cx), Applying (cx_name cx) sa os ch]"
  "take 4 (stage_events cx sa os ch refs) = take 3 (stage_events cx sa os ch refs) @ [Recorded_inventory (cx_name cx) (cx_Position cx) refs]"
  "take 5 (stage_events cx sa os ch refs) = take 4 (stage_events cx sa os ch refs) @ [Verified (cx_name cx)]"
  "take 6 (stage_events cx sa os ch refs) = take 5 (stage_events cx sa os ch refs) @ [PostActed (cx_name cx)]"
  "take 7 (stage_events cx sa os ch refs) = take 6 (stage_events cx sa os ch refs) @ [Gated (cx_name cx)]"
  by (simp_all add: stage_events_def)

lemma gate_trace:
  assumes "run_phases [gate_phase env cx] s = (s1, r)" "lp_trace s = t @ take 6 (stage_events cx sa os ch refs)"
  shows "stage_trace cx t s1 r"
proof (cases r)
  case None
  with assms obtain e where "lp_trace s1 = t @ take 7 (stage_events cx sa os ch refs)"
    by (auto simp: take_stage_events(6) run_phases.simps split: prod.splits option.splits dest!: gate_phase_None)
  moreover have "take 7 (stage_events cx sa os ch refs) = stage_events cx sa os ch refs" by (simp add: stage_events_def)
  ultimately show ?thesis unfolding None by (intro stage_trace_complete) simp
next
  case (Some e)
  with assms(1) have "gate_phase env cx s = (s1, Some e)" by (auto simp: run_phases.simps split: prod.splits option.splits)
  from gate_phase_Some [OF this] obtain tail where "lp_trace s1 = lp_trace s @ tail" "list_all revert_event tail" by blast
  with assms(2) stop_tails(5) show ?thesis unfolding Some by (intro stage_trace_stop [where k = 6]) auto
qed

lemma post_trace:
  assumes "run_phases [post_phase env cx, gate_phase env cx] s = (s1, r)" "lp_trace s = t @ take 5 (stage_events cx sa os ch refs)"
  shows "stage_trace cx t s1 r"
proof (cases "post_phase env cx s")
  case (Pair s2 r2)
  show ?thesis
  proof (cases r2)
    case None
    with Pair post_phase_None [of env cx s s2] have "lp_trace s2 = t @ take 6 (stage_events cx sa os ch refs)"
      by (auto simp: assms(2) take_stage_events(5))
    moreover have "run_phases [gate_phase env cx] s2 = (s1, r)" using assms(1) Pair None by (simp add: run_phases_next)
    ultimately show ?thesis using gate_trace by blast
  next
    case (Some e)
    with Pair post_phase_Some [of env cx s s2 e] have "lp_trace s2 = lp_trace s @ [OnFailed (cx_name cx)]" by simp
    moreover have "s1 = s2" "r = Some e" using assms(1) Pair Some by (simp_all add: run_phases_next)
    ultimately show ?thesis using assms(2) stop_tails(4) by (auto intro!: stage_trace_stop [where k = 5])
  qed
qed

lemma verify_trace:
  assumes "run_phases [verify_phase env cx, post_phase env cx, gate_phase env cx] s = (s1, r)"
    and "lp_trace s = t @ take 4 (stage_events cx sa os ch refs)"
  shows "stage_trace cx t s1 r"
proof (cases "verify_phase env cx s")
  case (Pair s2 r2)
  show ?thesis
  proof (cases r2)
    case None
    with Pair verify_phase_None [of env cx s s2] have "lp_trace s2 = t @ take 5 (stage_events cx sa os ch refs)"
      by (auto simp: assms(2) take_stage_events(4))
    moreover have "run_phases [post_phase env cx, gate_phase env cx] s2 = (s1, r)" using assms(1) Pair None by (simp add: run_phases_next)
    ultimately show ?thesis using post_trace by blast
  next
    case (Some e)
    with assms(1) Pair have "s1 = s2" "r = Some e" by (simp_all add: run_phases_next)
    moreover obtain tail where "lp_trace s2 = lp_trace s @ tail" "stop_tail (cx_name cx) 4 tail"
      using verify_phase_Some [of env cx s s2 e] Pair Some stop_tails by fastforce
    ultimately show ?thesis using assms(2) by (auto intro!: stage_trace_stop [where k = 4])
  qed
qed

lemma record_trace:
  assumes "run_phases [record_phase env cx, verify_phase env cx, post_phase env cx, gate_phase env cx] s = (s1, r)"
    and "lp_trace s = t @ take 3 (stage_events cx sa os ch [])"
  shows "stage_trace cx t s1 r"
proof (cases "record_phase env cx s")
  case (Pair s2 r2)
  have same: "take 3 (stage_events cx sa os ch []) = take 3 (stage_events cx sa os ch refs)" for refs
    by (simp add: take_stage_events)
  show ?thesis
  proof (cases r2)
    case None
    with Pair record_phase_None [of env cx s s2] obtain refs where "lp_trace s2 = lp_trace s @ [Recorded_inventory (cx_name cx) (cx_Position cx) refs]"
      by (auto simp: Let_def)
    then have "lp_trace s2 = t @ take 4 (stage_events cx sa os ch refs)"
      by (simp add: assms(2) take_stage_events(3) same [of refs] del: take_stage_events(2))
    moreover have "run_phases [verify_phase env cx, post_phase env cx, gate_phase env cx] s2 = (s1, r)"
      using assms(1) Pair None by (simp add: run_phases_next)
    ultimately show ?thesis using verify_trace by blast
  next
    case (Some e)
    with assms(1) Pair have "s1 = s2" "r = Some e" by (simp_all add: run_phases_next)
    moreover obtain refs where "lp_trace s2 = lp_trace s @ [Recorded_inventory (cx_name cx) (cx_Position cx) refs, OnFailed (cx_name cx)]"
      using record_phase_Some [of env cx s s2 e] Pair Some by auto
    ultimately have "lp_trace s1 = t @ take 4 (stage_events cx sa os ch refs) @ [OnFailed (cx_name cx)]"
      by (simp add: assms(2) take_stage_events(3) same [of refs] del: take_stage_events(2))
    then show ?thesis unfolding \<open>r = Some e\<close> using stop_tails(3) by (intro stage_trace_stop [where k = 4]) auto
  qed
qed

lemma from_apply_trace:
  assumes "run_phases (from_apply env cx) s = (s1, r)" and pre: "lp_trace s = t @ take 2 (stage_events cx sa os ch refs)"
  shows "stage_trace cx t s1 r"
proof (cases "apply_phase env cx s")
  case (Pair s2 r2)
  let ?ev = "stage_events cx (stage_sa cx s) (lp_objects s) (lp_conflicts s) []"
  show ?thesis
  proof (cases r2)
    case None
    with Pair have "lp_trace s2 = t @ take 3 ?ev" by (simp add: pre take_stage_events)
    moreover have "run_phases [record_phase env cx, verify_phase env cx, post_phase env cx, gate_phase env cx] s2 = (s1, r)"
      using assms(1) Pair None by (simp add: from_apply_def run_phases_next)
    ultimately show ?thesis using record_trace by blast
  next
    case (Some e)
    with assms(1) Pair have "s1 = s2" "r = Some e" by (simp_all add: from_apply_def run_phases_next)
    moreover have "lp_trace s2 = t @ take 3 ?ev @ [OnFailed (cx_name cx)]"
      using apply_phase_Some [of env cx s s2 e] Pair Some by (simp add: pre take_stage_events)
    ultimately show ?thesis using stop_tails(2) by (auto intro!: stage_trace_stop [where k = 3])
  qed
qed

lemma run_stage_trace:
  assumes "run_stage env cx s = (s1, r)"
  shows "stage_trace cx (lp_trace s) s1 r"
proof (cases "parked cx s")
  case True
  with assms show ?thesis by (auto simp: run_stage_def stop_tail_def intro!: stage_trace_stop [where k = 0 and tail = "[]"])
next
  case False
  obtain s2 r2 where b: "run_phases (before_apply env cx) s = (s2, r2)" by fastforce
  from before_apply_trace [OF b] obtain k where k: "lp_trace s2 = lp_trace s @ take k [Migrated (cx_name cx), PreActed (cx_name cx)]"
    "r2 = None \<longrightarrow> 2 \<le> k" by blast
  show ?thesis
  proof (cases r2)
    case None
    with k have "lp_trace s2 = lp_trace s @ take 2 (stage_events cx [] [] ch [])" for ch by (simp add: take_stage_events)
    moreover have "run_phases (from_apply env cx) s2 = (s1, r)"
      using assms False b None by (simp add: run_stage_def run_phases_append)
    ultimately show ?thesis using from_apply_trace by blast
  next
    case (Some e)
    with assms False b have "s1 = s2" "r = Some e" by (simp_all add: run_stage_def run_phases_append)
    moreover have "take k [Migrated (cx_name cx), PreActed (cx_name cx)] = take (min k 2) (stage_events cx [] [] ch [])" for ch
      by (simp add: stage_events_def take_Cons' min_def)
    ultimately show ?thesis using k(1) by (auto simp: stop_tail_def intro!: stage_trace_stop [where k = "min k 2" and tail = "[]"])
  qed
qed

section \<open>Order\<close>

lemma run_stages_order:
  "run_stages env cxs s = (s1, r) \<Longrightarrow>
    \<exists>front rest es part. cxs = front @ rest \<and> lp_trace s1 = lp_trace s @ concat es @ part \<and> list_all2 complete_events front es \<and>
      (case r of None \<Rightarrow> rest = [] \<and> part = [] | Some (cx, e) \<Rightarrow> (\<exists>later. rest = cx # later) \<and> stopped_events cx part)"
proof (induction cxs arbitrary: s)
  case Nil
  then show ?case by (auto intro!: exI [of _ "[]"])
next
  case (Cons cx cxs)
  obtain s2 r2 where one: "run_stage env cx s = (s2, r2)" by fastforce
  show ?case
  proof (cases r2)
    case None
    with one run_stage_trace [OF one] obtain es1 where es1: "lp_trace s2 = lp_trace s @ es1" "complete_events cx es1"
      by (auto simp: stage_trace_def)
    from Cons.prems one None have "run_stages env cxs s2 = (s1, r)" by simp
    from Cons.IH [OF this] obtain front rest es part where
      ih: "cxs = front @ rest" "lp_trace s1 = lp_trace s2 @ concat es @ part" "list_all2 complete_events front es"
        "case r of None \<Rightarrow> rest = [] \<and> part = [] | Some (cx, e) \<Rightarrow> (\<exists>later. rest = cx # later) \<and> stopped_events cx part"
      by blast
    show ?thesis
      by (rule exI [of _ "cx # front"], rule exI [of _ rest], rule exI [of _ "es1 # es"], rule exI [of _ part])
        (use ih es1 in simp)
  next
    case (Some e)
    with one run_stage_trace [OF one] obtain part where part: "lp_trace s2 = lp_trace s @ part" "stopped_events cx part"
      by (auto simp: stage_trace_def)
    from Cons.prems one Some have "s1 = s2" "r = Some (cx, e)" by simp_all
    with part show ?thesis
      by (intro exI [of _ "[]"] exI [of _ "cx # cxs"] exI [of _ part]) simp
  qed
qed

text \<open>C3: The stages of a pass run one after the other, and each stage runs its steps in order: migrations,
  pre-actions, apply, inventory record, readiness, post-actions, promotion gate. A later stage is not
  touched before every step of all earlier stages succeeded and their gates advanced. A stage that leaves
  the loop has done a first part of its steps; its onFailure actions ran only if its objects were (at least
  partly) applied, and a revert only once its post-actions had succeeded.\<close>

theorem stages_in_order:
  assumes "run_stages env cxs s = (s1, r)"
  shows "\<exists>front rest es part. cxs = front @ rest \<and> lp_trace s1 = lp_trace s @ concat es @ part \<and>
    list_all2 complete_events front es \<and>
    (case r of None \<Rightarrow> rest = [] \<and> part = [] | Some (cx, e) \<Rightarrow> (\<exists>later. rest = cx # later) \<and> stopped_events cx part)"
  using assms by (rule run_stages_order)

section \<open>What is applied\<close>

text \<open>Where the objects of an apply come from.\<close>

definition prepared :: "('e, 'w) loop_env \<Rightarrow> StageSet \<Rightarrow> stage_ctx \<Rightarrow> json list \<Rightarrow> ConflictHandling \<Rightarrow> bool" where
  "prepared env ss cx objects ch \<longleftrightarrow>
     (\<exists>fs0 fs vs raw v v' pins.
        le_fetch env (ra_URL (cx_Resolved cx)) (ra_Digest (cx_Resolved cx)) = Inr fs0 \<and>
        decryptFiles (le_decrypt env) fs0 = Inr fs \<and>
        resolvePostBuildVars (le_tenant env) (stg_PostBuild (cx_Stage cx)) = Some vs \<and>
        le_build env fs (stg_Path (cx_Stage cx)) (stg_Patches (cx_Stage cx)) vs = Inr raw \<and>
        verifyStageImages (le_images env) ss v (StampStageLabel raw (cx_name cx)) = (v', Inr pins) \<and>
        ResolveConflictHandling pins (cx_Stage cx) (le_token env (cx_name cx)) = Some (objects, ch))"

lemma preparedI:
  assumes "le_fetch env (ra_URL (cx_Resolved cx)) (ra_Digest (cx_Resolved cx)) = Inr fs0"
    "decryptFiles (le_decrypt env) fs0 = Inr fs"
    "resolvePostBuildVars (le_tenant env) (stg_PostBuild (cx_Stage cx)) = Some vs"
    "le_build env fs (stg_Path (cx_Stage cx)) (stg_Patches (cx_Stage cx)) vs = Inr raw"
    "verifyStageImages (le_images env) ss v (StampStageLabel raw (cx_name cx)) = (v', Inr pins)"
    "ResolveConflictHandling pins (cx_Stage cx) (le_token env (cx_name cx)) = Some (objects, ch)"
  shows "prepared env ss cx objects ch"
  unfolding prepared_def by (intro exI conjI) (rule assms)+

lemma before_apply_None:
  assumes "run_phases (before_apply env cx) s = (s1, None)"
  shows "lp_Set s1 = lp_Set s" "lp_stageStatuses s1 = lp_stageStatuses s" "lp_desiredRecords s1 = lp_desiredRecords s"
    "lp_applied s1 = lp_applied s" "prepared env (lp_Set s) cx (lp_objects s1) (lp_conflicts s1)"
proof -
  from assms obtain a b c d where
    a: "enter_phase env cx s = (a, None)" and b: "lifetime_phase env cx a = (b, None)" and
    c: "migrate_phase env cx b = (c, None)" and d: "pre_phase env cx c = (d, None)" and
    rest: "run_phases [fetch_phase env cx, decrypt_phase env cx, vars_phase env cx, build_phase env cx, images_phase env cx,
      conflict_phase env cx] d = (s1, None)"
    by (auto simp: before_apply_def simp del: fetch_phase_None)
  have "lp_Set d = lp_Set s \<and> lp_stageStatuses d = lp_stageStatuses s \<and> lp_desiredRecords d = lp_desiredRecords s \<and> lp_applied d = lp_applied s"
    using enter_phase_None [OF a] lifetime_phase_None [OF b] migrate_phase_None [OF c] pre_phase_None [OF d] by auto
  with rest show "lp_Set s1 = lp_Set s" "lp_stageStatuses s1 = lp_stageStatuses s" "lp_desiredRecords s1 = lp_desiredRecords s"
    "lp_applied s1 = lp_applied s" "prepared env (lp_Set s) cx (lp_objects s1) (lp_conflicts s1)"
    by (auto intro: preparedI)
qed

definition is_apply :: "loop_event \<Rightarrow> bool" where
  "is_apply e = (case e of Applying _ _ _ _ \<Rightarrow> True | _ \<Rightarrow> False)"

lemma is_apply_iff: "is_apply e \<longleftrightarrow> (\<exists>name sa os ch. e = Applying name sa os ch)"
  by (cases e) (simp_all add: is_apply_def)

definition applies :: "'w loop_state \<Rightarrow> loop_event list" where
  "applies s = filter is_apply (lp_trace s)"

lemma applies_trace [simp]: "lp_trace s1 = lp_trace s @ es \<Longrightarrow> list_all (\<lambda>e. \<not> is_apply e) es \<Longrightarrow> applies s1 = applies s"
  by (simp add: applies_def list_all_iff filter_False)

lemma revert_no_apply: "list_all revert_event es \<Longrightarrow> list_all (\<lambda>e. \<not> is_apply e) es"
  by (auto simp: list_all_iff is_apply_def)

lemma later_phases_keep_applies:
  "phase_keeps applies (record_phase env cx)" "phase_keeps applies (verify_phase env cx)"
  "phase_keeps applies (post_phase env cx)" "phase_keeps applies (gate_phase env cx)"
proof -
  have "applies s1 = applies s" if "record_phase env cx s = (s1, r)" for s s1 r
    using that record_phase_None [of env cx s s1] record_phase_Some [of env cx s s1]
    by (cases r) (auto simp: Let_def applies_def is_apply_def)
  then show "phase_keeps applies (record_phase env cx)" by (simp add: phase_keeps_def)
  have "applies s1 = applies s" if "verify_phase env cx s = (s1, r)" for s s1 r
    using that verify_phase_None [of env cx s s1] verify_phase_Some [of env cx s s1]
    by (cases r) (auto simp: applies_def is_apply_def)
  then show "phase_keeps applies (verify_phase env cx)" by (simp add: phase_keeps_def)
  have "applies s1 = applies s" if "post_phase env cx s = (s1, r)" for s s1 r
    using that post_phase_None [of env cx s s1] post_phase_Some [of env cx s s1]
    by (cases r) (auto simp: applies_def is_apply_def)
  then show "phase_keeps applies (post_phase env cx)" by (simp add: phase_keeps_def)
  have "applies s1 = applies s" if "gate_phase env cx s = (s1, r)" for s s1 r
  proof (cases r)
    case None
    with that gate_phase_None [of env cx s s1] show ?thesis by (auto simp: applies_def is_apply_def)
  next
    case (Some e)
    with that gate_phase_Some [of env cx s s1 e] obtain es where "lp_trace s1 = lp_trace s @ es" "list_all revert_event es" by auto
    then show ?thesis using revert_no_apply by simp
  qed
  then show "phase_keeps applies (gate_phase env cx)" by (simp add: phase_keeps_def)
qed

lemma apply_phase_applies:
  "apply_phase env cx s = (s1, r) \<Longrightarrow>
    applies s1 = applies s @ [Applying (cx_name cx) (stage_sa cx s) (lp_objects s) (lp_conflicts s)]"
  using apply_phase_Some [of env cx s s1] by (cases r) (auto simp: applies_def is_apply_def)

definition good_apply :: "('e, 'w) loop_env \<Rightarrow> StageSet \<Rightarrow> stage_ctx \<Rightarrow> loop_event \<Rightarrow> bool" where
  "good_apply env ss cx e \<longleftrightarrow>
     (\<exists>os ch. e = Applying (cx_name cx) (effectiveServiceAccount ss (cx_Stage cx)) os ch \<and> prepared env ss cx os ch)"

lemma run_stage_applies:
  assumes "run_stage env cx s = (s1, r)"
  shows "\<exists>es. applies s1 = applies s @ es \<and> list_all (good_apply env (lp_Set s) cx) es"
proof (cases "parked cx s")
  case True
  with assms show ?thesis by (intro exI [of _ "[]"]) (auto simp: run_stage_def applies_def)
next
  case False
  obtain s2 r2 where b: "run_phases (before_apply env cx) s = (s2, r2)" by fastforce
  from before_apply_trace [OF b] obtain k where "lp_trace s2 = lp_trace s @ take k [Migrated (cx_name cx), PreActed (cx_name cx)]"
    by blast
  then have same: "applies s2 = applies s" by (rule applies_trace) (simp add: take_Cons' is_apply_def)
  show ?thesis
  proof (cases r2)
    case (Some e)
    with assms False b have "s1 = s2" by (simp add: run_stage_def run_phases_append)
    with same show ?thesis by (intro exI [of _ "[]"]) simp
  next
    case None
    note prep = before_apply_None [OF b [unfolded None]]
    from assms False b None have f: "run_phases (from_apply env cx) s2 = (s1, r)" by (simp add: run_stage_def run_phases_append)
    obtain s3 r3 where a: "apply_phase env cx s2 = (s3, r3)" by fastforce
    have "applies s1 = applies s3"
    proof (cases r3)
      case None
      with f a have "run_phases [record_phase env cx, verify_phase env cx, post_phase env cx, gate_phase env cx] s3 = (s1, r)"
        by (simp add: from_apply_def run_phases_next)
      from run_phases_keeps [of applies, OF _ this] show ?thesis by (simp add: later_phases_keep_applies)
    next
      case (Some e)
      with f a show ?thesis by (simp add: from_apply_def run_phases_next)
    qed
    with apply_phase_applies [OF a] same have "applies s1 = applies s @ [Applying (cx_name cx) (stage_sa cx s2) (lp_objects s2) (lp_conflicts s2)]"
      by simp
    moreover have "good_apply env (lp_Set s) cx (Applying (cx_name cx) (stage_sa cx s2) (lp_objects s2) (lp_conflicts s2))"
      unfolding good_apply_def stage_sa_def prep(1) using prep(5) by blast
    ultimately show ?thesis by (intro exI [of _ "[Applying (cx_name cx) (stage_sa cx s2) (lp_objects s2) (lp_conflicts s2)]"]) simp
  qed
qed

section \<open>What a stage that passes leaves in the status\<close>

lemma Advanced_entry:
  assumes "promotion_step iv ss stage prior ap env = Advanced e" "pe_revert env = Inr None"
  shows "ss_Name e = stg_Name stage \<and> ss_Phase e = StageReady \<and> ss_AppliedRevision e = ap_revision ap"
  using assms
  by (auto simp: promotion_step_def finish_stage_def interrupted_def applied_entry_def stamp_def stage_status_def Let_def
      split: sum.splits if_splits)

lemma from_apply_None:
  assumes "run_phases (from_apply env cx) s = (s1, None)"
  shows "\<exists>e. lp_Set s1 = lp_Set s \<and> lp_stageStatuses s1 = lp_stageStatuses s @ [e] \<and>
    lp_applied s1 = lp_applied s @ [(Artifact.Key (cx_Resolved cx), cx_revision cx)] \<and>
    lp_desiredRecords s1 = lp_desiredRecords s @
      [\<lparr>rec_Name = cx_name cx, rec_Position = int (cx_Position cx), rec_Entries = map (object_ref (le_gv env)) (lp_objects s)\<rparr>] \<and>
    ss_Name e = cx_name cx \<and> ss_Phase e = StageReady \<and> ss_AppliedRevision e = cx_revision cx"
proof -
  from assms obtain b c d where
    b: "record_phase env cx (trace_event (Applying (cx_name cx) (stage_sa cx s) (lp_objects s) (lp_conflicts s)) s) = (b, None)" and
    c: "verify_phase env cx b = (c, None)" and d: "post_phase env cx c = (d, None)" and g: "gate_phase env cx d = (s1, None)"
    by (auto simp: from_apply_def)
  have pre: "lp_Set d = lp_Set s" "lp_stageStatuses d = lp_stageStatuses s" "lp_applied d = lp_applied s"
    "lp_desiredRecords d = lp_desiredRecords s @
      [\<lparr>rec_Name = cx_name cx, rec_Position = int (cx_Position cx), rec_Entries = map (object_ref (le_gv env)) (lp_objects s)\<rparr>]"
    using record_phase_None [OF b] verify_phase_None [OF c] post_phase_None [OF d] by (auto simp: Let_def)
  obtain e where step: "promotion_step (le_interval env) (lp_Set d) (cx_Stage cx) (prior_or_zero (cx_Prior cx)) (applied_of cx d)
      ((le_promo env (cx_Stage cx))\<lparr>pe_revert := Inr None\<rparr>) = Advanced e"
    and s1: "s1 = trace_event (Gated (cx_name cx)) (d\<lparr>lp_stageStatuses := lp_stageStatuses d @ [e],
      lp_applied := lp_applied d @ [(Artifact.Key (cx_Resolved cx), cx_revision cx)]\<rparr>)"
    using gate_phase_None [OF g] by blast
  have "ss_Name e = cx_name cx \<and> ss_Phase e = StageReady \<and> ss_AppliedRevision e = cx_revision cx"
    using Advanced_entry [OF step] by (simp add: applied_of_def)
  with s1 pre show ?thesis by simp
qed

lemma run_stage_None:
  assumes "run_stage env cx s = (s1, None)"
  obtains e os where "lp_Set s1 = lp_Set s" "lp_stageStatuses s1 = lp_stageStatuses s @ [e]"
    "lp_applied s1 = lp_applied s @ [(Artifact.Key (cx_Resolved cx), cx_revision cx)]"
    "lp_desiredRecords s1 = lp_desiredRecords s @
      [\<lparr>rec_Name = cx_name cx, rec_Position = int (cx_Position cx), rec_Entries = map (object_ref (le_gv env)) os\<rparr>]"
    "ss_Name e = cx_name cx" "ss_Phase e = StageReady" "ss_AppliedRevision e = cx_revision cx"
proof -
  from assms have "\<not> parked cx s" by (auto simp: run_stage_def split: if_splits)
  with assms obtain s2 where b: "run_phases (before_apply env cx) s = (s2, None)" and f: "run_phases (from_apply env cx) s2 = (s1, None)"
    by (auto simp: run_stage_def run_phases_append split: prod.splits option.splits)
  from from_apply_None [OF f] before_apply_None [OF b] that show ?thesis by auto
qed

text \<open>The status fields of a stage the rollout advanced past.\<close>

definition status_of :: "StageStatus \<Rightarrow> string \<times> StagePhase \<times> string" where
  "status_of e = (ss_Name e, ss_Phase e, ss_AppliedRevision e)"

definition ready_status :: "stage_ctx \<Rightarrow> string \<times> StagePhase \<times> string" where
  "ready_status cx = (cx_name cx, StageReady, cx_revision cx)"

lemma run_stages_None:
  "run_stages env cxs s = (s1, None) \<Longrightarrow>
    lp_Set s1 = lp_Set s \<and>
    map status_of (lp_stageStatuses s1) = map status_of (lp_stageStatuses s) @ map ready_status cxs \<and>
    lp_applied s1 = lp_applied s @ map (\<lambda>cx. (Artifact.Key (cx_Resolved cx), cx_revision cx)) cxs \<and>
    map rec_Name (lp_desiredRecords s1) = map rec_Name (lp_desiredRecords s) @ map cx_name cxs"
proof (induction cxs arbitrary: s)
  case (Cons cx cxs)
  then obtain s2 where one: "run_stage env cx s = (s2, None)" and rest: "run_stages env cxs s2 = (s1, None)"
    by (auto split: prod.splits option.splits)
  from run_stage_None [OF one] show ?case
  proof cases
    case (1 e os)
    with Cons.IH [OF rest] show ?thesis by (simp add: status_of_def ready_status_def)
  qed
qed simp

lemma run_stages_applies:
  "run_stages env cxs s = (s1, r) \<Longrightarrow>
    \<exists>es. applies s1 = applies s @ es \<and> list_all (\<lambda>e. \<exists>cx\<in>set cxs. good_apply env (lp_Set s) cx e) es"
proof (induction cxs arbitrary: s)
  case Nil
  then show ?case by (intro exI [of _ "[]"]) simp
next
  case (Cons cx cxs)
  obtain s2 r2 where one: "run_stage env cx s = (s2, r2)" by fastforce
  from run_stage_applies [OF one] obtain es where es: "applies s2 = applies s @ es" "list_all (good_apply env (lp_Set s) cx) es" by blast
  show ?case
  proof (cases r2)
    case None
    with one Cons.prems have "run_stages env cxs s2 = (s1, r)" by simp
    from Cons.IH [OF this] obtain es' where es': "applies s1 = applies s2 @ es'"
      "list_all (\<lambda>e. \<exists>cx\<in>set cxs. good_apply env (lp_Set s2) cx e) es'" by blast
    have "lp_Set s2 = lp_Set s" using one None by (auto elim: run_stage_None)
    with es es' show ?thesis by (intro exI [of _ "es @ es'"]) (auto simp: list_all_iff)
  next
    case (Some e)
    with one Cons.prems es show ?thesis by (intro exI [of _ es]) (auto simp: list_all_iff)
  qed
qed


section \<open>An example\<close>

definition demo_loop :: "verifyOutcome \<Rightarrow> (string, nat) loop_env" where
  "demo_loop outcome =
     \<lparr>le_interval = 10 * Minute, le_now = 1000, le_connect = (\<lambda>_. None), le_budget = (\<lambda>_ _. BudgetOpen),
      le_exec = (\<lambda>sa a w. (Suc w, None)), le_anchors = (\<lambda>_ _ _ _. Inr ''u''), le_drop_fails = (\<lambda>_. False),
      le_update_fails = (\<lambda>_ _. False), le_digest = mig_Name, le_action_cause = (\<lambda>_. plain_cause ''action''),
      le_migration_cause = (\<lambda>_. plain_cause ''migration''), le_fetch = (\<lambda>u d. Inr []), le_decrypt = None,
      le_tenant = \<lparr>tr_connects = True, tr_ConfigMap = (\<lambda>n. Rollback.ReadNotFound), tr_Secret = (\<lambda>n. Rollback.ReadNotFound)\<rparr>,
      le_vars_cause = plain_cause ''vars'', le_sha256 = (\<lambda>s. s),
      le_build = (\<lambda>_ _ _ _. Inr [JMap [(''apiVersion'', JString ''v1''), (''kind'', JString ''ConfigMap''),
        (''metadata'', JMap [(''name'', JString ''new''), (''namespace'', JString ''prod'')])]]),
      le_images = \<lparr>ge_verifier = None, ge_policies = None, ge_require = False\<rparr>, le_image_cause = (\<lambda>_. plain_cause ''image''),
      le_token = (\<lambda>_. ''t''), le_apply = (\<lambda>_ _ _. None), le_gv = (\<lambda>v. Some ([], v)), le_recover = (\<lambda>_ _. []),
      le_write = (\<lambda>_ _ _. None), le_verify = (\<lambda>_ _. (outcome, plain_cause ''not ready'')),
      le_promo = (\<lambda>_. Promotion.demo_env (demo_cluster 5) 1000), le_rollback = demo_rollback, le_revert_cause = plain_cause ''revert''\<rparr>"

definition demo_plan :: migrationPlan where
  "demo_plan = zero_plan\<lparr>mp_versionSet := True, mp_desired := ''2'',
     mp_byStage := (\<lambda>n. if n = ''web'' then [plain_migration ''rename'' ''2''] else [])\<rparr>"

definition demo_context :: stage_ctx where
  "demo_context =
     \<lparr>cx_Stage = plain_stage ''web'', cx_Position = 0,
      cx_Resolved = \<lparr>ra_Namespace = ''prod'', ra_Name = ''web-x'', ra_URL = ''http://s/x'', ra_Revision = ''r1'',
        ra_Digest = ''sha256:aa'', ra_Verified = None, ra_Pinned = None\<rparr>,
      cx_Prior = None, cx_Plan = demo_plan, cx_Override = False, cx_LastHandled = [], cx_Reconstruct = False, cx_Snapshot = []\<rparr>"

definition demo_loop_state :: "nat loop_state" where
  "demo_loop_state =
     \<lparr>lp_Set = plain_set [plain_stage ''web''],
      lp_Versions = \<lparr>vst_Version = ''1'', vst_ExecutedMigrations = [], vst_ExecutedMigrationActions = [],
        vst_PendingMigrations = [], vst_PendingVersion = [], vst_MigrationFailureCount = 0\<rparr>,
      lp_Actions = \<lparr>as_world = 0, as_led = empty_ledger, as_completed = None, as_runs = (\<lambda>_. 0)\<rparr>,
      lp_migRuns = (\<lambda>_. 0), lp_Verifier = (0, None), lp_stageStatuses = [], lp_desiredRecords = [], lp_reconstructed = [],
      lp_applied = [], lp_subDigests = [], lp_trace = [], lp_freeze = None, lp_files = [], lp_vars = [], lp_objects = [],
      lp_conflicts = \<lparr>ch_ForceSelector = None, ch_IfNotPresentSelector = None\<rparr>, lp_refs = []\<rparr>"

text \<open>A stage whose readiness check fails for good: its onFailure actions run and the next stage is not reached.\<close>

definition demo_failing_run :: "nat loop_state \<times> (stage_ctx \<times> stage_end) option" where
  "demo_failing_run = run_stages (demo_loop (not_ready False)) [demo_context, demo_context] demo_loop_state"

lemma stages_in_order_witness:
  "\<exists>front rest es part. [demo_context, demo_context] = front @ rest \<and> rest \<noteq> [] \<and>
    lp_trace (fst demo_failing_run) = concat es @ part \<and> list_all2 complete_events front es \<and> length (lp_trace (fst demo_failing_run)) = 5"
proof -
  have stops: "snd demo_failing_run \<noteq> None" and len: "length (lp_trace (fst demo_failing_run)) = 5" by code_simp+
  have "lp_trace demo_loop_state = []" by (simp add: demo_loop_state_def)
  with stages_in_order [of "demo_loop (not_ready False)" "[demo_context, demo_context]" demo_loop_state "fst demo_failing_run" "snd demo_failing_run"]
    stops len
  show ?thesis by (auto simp: demo_failing_run_def [symmetric] simp del: run_stages.simps split: option.splits)
qed


end
