(* ===== verification/Reconcile.thy ===== *)
theory Reconcile
  imports StageLoop Dependencies PruneCycle
begin

text \<open>
  One whole pass of \<open>Reconcile\<close> (\<open>internal/controller/stageset_controller.go\<close>): the guards before the stage
  loop, the loop (\<open>StageLoop\<close>), what each way out of the loop writes and whether it rolls back, the
  cross-stage prune and the completion. The status a pass works on is in memory; it reaches the API server
  with the status patches, which may fail. Messages, events and metrics are left out; jitter is a
  parameter.
\<close>

section \<open>State\<close>

datatype ready_reason =
    ReadyOk | Suspended | InvalidSpec | Stalled | NotReadyDependency | SourceNotReady | ArtifactNotFound
  | ResolveFailed | RBACDenied | UpdateDeferred | BudgetHeld | PlanRefused plan_reason | ApprovalAwaited
  | StageFailure fail_reason | PromotionHeld hold_reason | StageProgressing | RollbackRefused rollback_reason

record reconcile_status =
  rst_Ready :: "(bool \<times> ready_reason) option"
  rst_ObservedGeneration :: int
  rst_LastHandledReconcileAt :: string
  rst_LastAttemptedRevisions :: "(string \<times> string) list"
  rst_LastAppliedRevisions :: "(string \<times> string) list"
  rst_Window :: window_status
  rst_LastHandledBudgetOverride :: string
  rst_BudgetFreeze :: "BudgetFreeze option"
  rst_LastHandledResetScope :: string
  rst_LastAppliedSnapshot :: "StageArtifactRef list"

text \<open>The events of a pass: those of the stage loop, of a rollback, and the deletions of the prune.\<close>

datatype pass_event =
    InLoop loop_event
  | RollingBack rollback_effect
  | Pruning string "ObjectRef list"
  | TearingDown string "ObjectRef list"
  | DroppingShards string

record 'w pass_state =
  pz_Set :: StageSet
  pz_Finalizer :: bool
  pz_Status :: reconcile_status
  pz_Versions :: version_status
  pz_Actions :: "'w action_state"
  pz_migRuns :: "string \<Rightarrow> nat"
  pz_Verifier :: verifier_state
  pz_trace :: "pass_event list"
  pz_resolved :: "ResolvedArtifact list"
  pz_override :: bool
  pz_plan :: migrationPlan
  pz_previous :: "StageRecord list"
  pz_prior :: "(string \<times> StageStatus) list"

text \<open>The controller-runtime result: wait for an event, come back after a time, or back off on an error.\<close>

datatype requeue = Await | After duration | Backoff

text \<open>A way out before the loop: with the status patched, or without writing it.\<close>

datatype pass_exit = Patched requeue | Unpatched requeue

record ('e, 'w) reconcile_env =
  re_loop :: "('e, 'w) loop_env"
  re_patch :: bool
  re_update :: bool
  re_jitter :: "duration \<Rightarrow> duration"
  re_ValidateSpec :: "StageSet \<Rightarrow> bool"
  re_dependencies :: "string + dep_why option"
  re_reader :: api_reader
  re_noCross :: bool
  re_windows :: "string + bool \<times> instant option"
  re_plan :: "StageSet \<Rightarrow> string \<Rightarrow> ResolvedArtifact list \<Rightarrow> plan_error + migrationPlan"
  re_badKubeConfig :: bool
  re_decryptor :: "cause option"
  re_ledger :: "(LedgerCompletion list option \<times> LedgerRef list \<times> bool) option"
  re_ledgerUpdate :: bool
  re_previous :: "StageRecord list option"
  re_prune_fails :: "string \<Rightarrow> bool"
  re_drop_fails :: "string \<Rightarrow> bool"

definition permanentRetryInterval :: duration where
  "permanentRetryInterval = Minute"

definition set_ready :: "bool \<Rightarrow> ready_reason \<Rightarrow> 'w pass_state \<Rightarrow> 'w pass_state" where
  "set_ready ok reason s = s\<lparr>pz_Status := (pz_Status s)\<lparr>rst_Ready := Some (ok, reason)\<rparr>\<rparr>"

definition observe :: "'w pass_state \<Rightarrow> 'w pass_state" where
  "observe s = s\<lparr>pz_Status := (pz_Status s)\<lparr>rst_ObservedGeneration := set_Generation (pz_Set s)\<rparr>\<rparr>"

text \<open>What an unwritten status loses: the status goes back to what it was; the cluster does not.\<close>

definition lose_status :: "'w pass_state \<Rightarrow> 'w pass_state \<Rightarrow> 'w pass_state" where
  "lose_status s0 s =
     s\<lparr>pz_Set := (pz_Set s)\<lparr>set_Stages := set_Stages (pz_Set s0), set_ActionFailureCount := set_ActionFailureCount (pz_Set s0)\<rparr>,
       pz_Status := pz_Status s0, pz_Versions := pz_Versions s0\<rparr>"

definition patch_or :: "('e, 'w) reconcile_env \<Rightarrow> 'w pass_state \<Rightarrow> 'w pass_state \<Rightarrow> requeue \<Rightarrow> 'w pass_state \<times> requeue" where
  "patch_or env s0 s rq = (if re_patch env then (s, rq) else (lose_status s0 s, Backoff))"

abbreviation pz_stages :: "'w pass_state \<Rightarrow> Stage list" where
  "pz_stages s \<equiv> spec_Stages (set_Spec (pz_Set s))"

section \<open>Guards before the loop\<close>

definition finalizer_phase :: "('e, 'w) reconcile_env \<Rightarrow> 'w pass_state \<Rightarrow> 'w pass_state \<times> pass_exit option" where
  "finalizer_phase env s =
     (if pz_Finalizer s then (s, None)
      else if re_update env then (s\<lparr>pz_Finalizer := True\<rparr>, Some (Unpatched (After 1000000)))
      else (s, Some (Unpatched Backoff)))"

definition suspend_phase :: "'w pass_state \<Rightarrow> 'w pass_state \<times> pass_exit option" where
  "suspend_phase s = (if spec_Suspend (set_Spec (pz_Set s)) then (set_ready False Suspended s, Some (Patched Await)) else (s, None))"

definition reconcileRequestAnnotation :: string where
  "reconcileRequestAnnotation = ''reconcile.fluxcd.io/requestedAt''"

text \<open>A fresh reconcile request clears the failure counts.\<close>

definition request_phase :: "'w pass_state \<Rightarrow> 'w pass_state \<times> pass_exit option" where
  "request_phase s =
     (let req = annotation (pz_Set s) reconcileRequestAnnotation;
          s1 = (if req \<noteq> [] \<and> req \<noteq> rst_LastHandledReconcileAt (pz_Status s)
            then s\<lparr>pz_Versions := (pz_Versions s)\<lparr>vst_MigrationFailureCount := 0\<rparr>,
                   pz_Set := (pz_Set s)\<lparr>set_ActionFailureCount := 0\<rparr>\<rparr>
            else s)
      in (s1\<lparr>pz_Status := (pz_Status s1)\<lparr>rst_LastHandledReconcileAt := req\<rparr>\<rparr>, None))"

definition validate_phase :: "('e, 'w) reconcile_env \<Rightarrow> 'w pass_state \<Rightarrow> 'w pass_state \<times> pass_exit option" where
  "validate_phase env s =
     (if re_ValidateSpec env (pz_Set s) then (s, None)
      else (observe (set_ready False InvalidSpec s), Some (Patched (After permanentRetryInterval))))"

definition retry_after :: "('e, 'w) reconcile_env \<Rightarrow> 'w pass_state \<Rightarrow> requeue" where
  "retry_after env s = After (re_jitter env (retryInterval (le_interval (re_loop env)) (pz_Set s)))"

definition dependency_phase :: "('e, 'w) reconcile_env \<Rightarrow> 'w pass_state \<Rightarrow> 'w pass_state \<times> pass_exit option" where
  "dependency_phase env s =
     (case re_dependencies env of
        Inl _ \<Rightarrow> (s, Some (Unpatched Backoff))
      | Inr None \<Rightarrow> (s, None)
      | Inr (Some DependencyCycle) \<Rightarrow> (observe (set_ready False Stalled s), Some (Patched (After permanentRetryInterval)))
      | Inr (Some _) \<Rightarrow> (observe (set_ready False NotReadyDependency s), Some (Patched (retry_after env s))))"

text \<open>\<open>failResolution\<close>: the reason, and whether to come back soon, after the permanent interval or to back off.\<close>

definition failResolution :: "('e, 'w) reconcile_env \<Rightarrow> 'w pass_state \<Rightarrow> resolve_error \<Rightarrow> ready_reason \<times> requeue" where
  "failResolution env s e =
     (case e of
        ErrSourceAPI True \<Rightarrow> (RBACDenied, After permanentRetryInterval)
      | ErrSourceNotReady \<Rightarrow> (SourceNotReady, retry_after env s)
      | ErrArtifactNotFound \<Rightarrow> (ArtifactNotFound, retry_after env s)
      | ErrArtifactMissing \<Rightarrow> (ArtifactNotFound, retry_after env s)
      | ErrProducerAPIVersionRequired \<Rightarrow> (InvalidSpec, After permanentRetryInterval)
      | ErrAmbiguousProducer \<Rightarrow> (ResolveFailed, After permanentRetryInterval)
      | ErrCrossNamespaceForbidden \<Rightarrow> (ResolveFailed, After permanentRetryInterval)
      | _ \<Rightarrow> (ResolveFailed, Backoff))"

fun resolve_stages :: "('e, 'w) reconcile_env \<Rightarrow> string \<Rightarrow> Stage list \<Rightarrow> resolve_error + ResolvedArtifact list" where
  "resolve_stages env namespace [] = Inr []"
| "resolve_stages env namespace (st # stages) =
     bind_result (Resolve (re_reader env) (re_noCross env) (stg_SourceRef st) namespace)
       (\<lambda>ra. bind_result (resolve_stages env namespace stages) (\<lambda>rest. Inr (ra # rest)))"

definition revisions :: "ResolvedArtifact list \<Rightarrow> (string \<times> string) list" where
  "revisions resolved = map (\<lambda>ra. (Artifact.Key ra, ra_Revision ra)) resolved"

definition resolve_phase :: "('e, 'w) reconcile_env \<Rightarrow> 'w pass_state \<Rightarrow> 'w pass_state \<times> pass_exit option" where
  "resolve_phase env s =
     (case resolve_stages env (set_Namespace (pz_Set s)) (pz_stages s) of
        Inl e \<Rightarrow> (case failResolution env s e of
          (reason, rq) \<Rightarrow> (observe (set_ready False reason s), Some (Patched rq)))
      | Inr resolved \<Rightarrow>
          (s\<lparr>pz_resolved := resolved, pz_Status := (pz_Status s)\<lparr>rst_LastAttemptedRevisions := revisions resolved\<rparr>\<rparr>, None))"

text \<open>Update windows: a deferred rollout of something deployed stays Ready.\<close>

definition deployed :: "'w pass_state \<Rightarrow> bool" where
  "deployed s \<longleftrightarrow> rst_LastAppliedRevisions (pz_Status s) \<noteq> []"

definition held :: "ready_reason \<Rightarrow> bool \<Rightarrow> 'w pass_state \<Rightarrow> 'w pass_state" where
  "held reason stays_ready s = (if stays_ready then set_ready True ReadyOk s else set_ready False reason s)"

definition windows_phase :: "('e, 'w) reconcile_env \<Rightarrow> 'w pass_state \<Rightarrow> 'w pass_state \<times> pass_exit option" where
  "windows_phase env s =
     (case gateUpdateWindows (le_interval (re_loop env)) (le_now (re_loop env)) (re_windows env) (pz_Set s)
         (rst_LastAppliedRevisions (pz_Status s)) (revisions (pz_resolved s)) (rst_Window (pz_Status s)) of
        (gate, ws) \<Rightarrow>
          (let s1 = s\<lparr>pz_Status := (pz_Status s)\<lparr>rst_Window := ws\<rparr>\<rparr> in
           case gate of
             WindowProceeds \<Rightarrow> (s1, None)
           | WindowInvalid \<Rightarrow> (observe (set_ready False InvalidSpec s1), Some (Patched Await))
           | WindowDeferred stays d \<Rightarrow> (observe (held UpdateDeferred stays s1), Some (Patched (After d)))))"

text \<open>The one-shot override is consumed before both budget gates.\<close>

definition override_phase :: "'w pass_state \<Rightarrow> 'w pass_state \<times> pass_exit option" where
  "override_phase s =
     (case freshBudgetOverride (pz_Set s) (rst_LastHandledBudgetOverride (pz_Status s)) of
        (token, fresh) \<Rightarrow>
          (if fresh then s\<lparr>pz_Status := (pz_Status s)\<lparr>rst_LastHandledBudgetOverride := token\<rparr>, pz_override := True\<rparr>
           else s\<lparr>pz_override := False\<rparr>, None))"

definition budget_phase :: "('e, 'w) reconcile_env \<Rightarrow> 'w pass_state \<Rightarrow> 'w pass_state \<times> pass_exit option" where
  "budget_phase env s =
     (case gateErrorBudget (le_interval (re_loop env)) (le_budget (re_loop env)) (pz_Set s)
         (rst_LastAppliedRevisions (pz_Status s)) (revisions (pz_resolved s)) (pz_override s)
         (rst_BudgetFreeze (pz_Status s)) of
        (gate, freeze) \<Rightarrow>
          (let s1 = s\<lparr>pz_Status := (pz_Status s)\<lparr>rst_BudgetFreeze := freeze\<rparr>\<rparr> in
           case gate of
             BudgetProceeds \<Rightarrow> (s1, None)
           | BudgetInvalid \<Rightarrow> (observe (set_ready False InvalidSpec s1), Some (Patched (After permanentRetryInterval)))
           | BudgetDeferred stays d \<Rightarrow> (observe (held BudgetHeld stays s1), Some (Patched (After d)))))"

text \<open>
  A failure reported on the first stage before the loop. Unlike in the loop, the error of \<open>failStage\<close> is
  handed to controller-runtime as it is, terminal or not.
\<close>

definition fail_first :: "string \<Rightarrow> cause \<Rightarrow> 'w pass_state \<Rightarrow> 'w pass_state \<times> pass_exit option" where
  "fail_first op c s =
     (case fail_preflight (pz_Set s) op c of
        (ss, reason, _) \<Rightarrow> (observe (set_ready False (StageFailure reason) (s\<lparr>pz_Set := ss\<rparr>)), Some (Patched Backoff)))"

definition connect_default :: "('e, 'w) reconcile_env \<Rightarrow> 'w pass_state \<Rightarrow> 'w pass_state \<times> pass_exit option" where
  "connect_default env s =
     (case le_connect (re_loop env) (spec_ServiceAccountName (set_Spec (pz_Set s))) of
        None \<Rightarrow> (s, None)
      | Some c \<Rightarrow>
          if re_badKubeConfig env then (observe (set_ready False InvalidSpec s), Some (Patched (After permanentRetryInterval)))
          else fail_first ''connect to target cluster'' c s)"

definition plan_phase :: "('e, 'w) reconcile_env \<Rightarrow> 'w pass_state \<Rightarrow> 'w pass_state \<times> pass_exit option" where
  "plan_phase env s =
     (case re_plan env (pz_Set s) (vst_Version (pz_Versions s)) (pz_resolved s) of
        Inl Transient \<Rightarrow> (s, Some (Unpatched Backoff))
      | Inl (Terminal reason) \<Rightarrow> (observe (set_ready False (PlanRefused reason) s), Some (Patched (After permanentRetryInterval)))
      | Inr plan \<Rightarrow>
          (s\<lparr>pz_plan := plan, pz_Versions := (pz_Versions s)\<lparr>vst_PendingMigrations :=
              pendingDetails (le_digest (re_loop env)) (pz_Set s) plan\<rparr>\<rparr>, None))"

definition approval_phase :: "'w pass_state \<Rightarrow> 'w pass_state \<times> pass_exit option" where
  "approval_phase s =
     (if awaits_approval (pz_Set s) (pz_plan s) (vst_Version (pz_Versions s))
      then (observe (set_ready False ApprovalAwaited
              (s\<lparr>pz_Versions := (pz_Versions s)\<lparr>vst_PendingVersion := mp_desired (pz_plan s)\<rparr>\<rparr>)),
            Some (Patched (After permanentRetryInterval)))
      else (s\<lparr>pz_Versions := (pz_Versions s)\<lparr>vst_PendingVersion := []\<rparr>\<rparr>, None))"

definition decryptor_phase :: "('e, 'w) reconcile_env \<Rightarrow> 'w pass_state \<Rightarrow> 'w pass_state \<times> pass_exit option" where
  "decryptor_phase env s =
     (case re_decryptor env of None \<Rightarrow> (s, None) | Some c \<Rightarrow> fail_first ''configure decryption'' c s)"

text \<open>The prior statuses of the pass, after a forced stage and a scope reset; the reset token is consumed.\<close>

definition prior_map :: "'w pass_state \<Rightarrow> string \<rightharpoonup> StageStatus" where
  "prior_map s = apply_reset_scope (pz_Set s) (rst_LastHandledResetScope (pz_Status s))
     (apply_force (pz_Set s) (indexStageStatuses (set_Stages (pz_Set s))))"

definition prior_phase :: "'w pass_state \<Rightarrow> 'w pass_state \<times> pass_exit option" where
  "prior_phase s =
     (let token = annotation (pz_Set s) resetScopeAnnotation in
      (s\<lparr>pz_prior := List.map_filter (\<lambda>n. map_option (Pair n) (prior_map s n))
           (map ss_Name (set_Stages (pz_Set s))),
         pz_Status := (pz_Status s)\<lparr>rst_LastHandledResetScope :=
           (if token \<noteq> [] then token else rst_LastHandledResetScope (pz_Status s))\<rparr>\<rparr>, None))"

text \<open>The lifetime ledger with its baseline, written when a completion or its condition changed; that
  completions were adopted changes no later step.\<close>

definition ledger_phase :: "('e, 'w) reconcile_env \<Rightarrow> 'w pass_state \<Rightarrow> 'w pass_state \<times> pass_exit option" where
  "ledger_phase env s =
     (case re_ledger env of
        None \<Rightarrow> (s, Some (Unpatched Backoff))
      | Some (None, _) \<Rightarrow> (s\<lparr>pz_Actions := (pz_Actions s)\<lparr>as_completed := None\<rparr>\<rparr>, None)
      | Some (Some cs, baseline, condition_changed) \<Rightarrow>
          (case promoteBaseline (pz_stages s) (le_now (re_loop env)) baseline cs of
             (cs', _, changed) \<Rightarrow>
               if (changed \<or> condition_changed) \<and> \<not> re_ledgerUpdate env then (s, Some (Unpatched Backoff))
               else (s\<lparr>pz_Actions := (pz_Actions s)\<lparr>as_completed := Some cs'\<rparr>\<rparr>, None)))"

definition inventory_phase :: "('e, 'w) reconcile_env \<Rightarrow> 'w pass_state \<Rightarrow> 'w pass_state \<times> pass_exit option" where
  "inventory_phase env s =
     (case re_previous env of None \<Rightarrow> (s, Some (Unpatched Backoff)) | Some rs \<Rightarrow> (s\<lparr>pz_previous := rs\<rparr>, None))"

definition guards :: "('e, 'w) reconcile_env \<Rightarrow> ('w pass_state \<Rightarrow> 'w pass_state \<times> pass_exit option) list" where
  "guards env =
     [finalizer_phase env, suspend_phase, request_phase, validate_phase env, dependency_phase env, resolve_phase env,
      windows_phase env, override_phase, budget_phase env, connect_default env, plan_phase env, approval_phase,
      decryptor_phase env, prior_phase, ledger_phase env, inventory_phase env]"

section \<open>The stage loop in the pass\<close>

definition no_conflicts :: ConflictHandling where
  "no_conflicts = \<lparr>ch_ForceSelector = None, ch_IfNotPresentSelector = None\<rparr>"

definition enter_loop :: "'w pass_state \<Rightarrow> 'w loop_state" where
  "enter_loop s =
     \<lparr>lp_Set = pz_Set s, lp_Versions = pz_Versions s, lp_Actions = pz_Actions s, lp_migRuns = pz_migRuns s,
      lp_Verifier = pz_Verifier s, lp_stageStatuses = [], lp_desiredRecords = [], lp_reconstructed = [], lp_applied = [],
      lp_subDigests = [], lp_trace = [], lp_freeze = None, lp_files = [], lp_vars = [], lp_objects = [],
      lp_conflicts = no_conflicts, lp_refs = []\<rparr>"

definition leave_loop :: "'w loop_state \<Rightarrow> 'w pass_state \<Rightarrow> 'w pass_state" where
  "leave_loop l s =
     s\<lparr>pz_Set := lp_Set l, pz_Versions := lp_Versions l, pz_Actions := lp_Actions l, pz_migRuns := lp_migRuns l,
       pz_Verifier := lp_Verifier l, pz_trace := pz_trace s @ map InLoop (lp_trace l)\<rparr>"

text \<open>A stage without a stored inventory that was applied before has lost it.\<close>

definition stage_context :: "'w pass_state \<Rightarrow> nat \<Rightarrow> stage_ctx" where
  "stage_context s i =
     (let stage = pz_stages s ! i; prior = map_of (pz_prior s) (stg_Name stage) in
      \<lparr>cx_Stage = stage, cx_Position = i, cx_Resolved = pz_resolved s ! i, cx_Prior = prior, cx_Plan = pz_plan s,
       cx_Override = pz_override s,
       cx_LastHandled = lastHandledFor (pz_Set s) (indexStageStatuses (set_Stages (pz_Set s))) (stg_Name stage),
       cx_Reconstruct = (stg_Name stage \<notin> rec_Name ` set (pz_previous s) \<and> ss_AppliedRevision (prior_or_zero prior) \<noteq> []),
       cx_Snapshot = rst_LastAppliedSnapshot (pz_Status s)\<rparr>)"

definition contexts :: "'w pass_state \<Rightarrow> stage_ctx list" where
  "contexts s = map (stage_context s) [0 ..< length (pz_stages s)]"

section \<open>The ways out of the loop\<close>

definition merge_statuses :: "'w loop_state \<Rightarrow> 'w pass_state \<Rightarrow> 'w pass_state" where
  "merge_statuses l s = s\<lparr>pz_Set := (pz_Set s)\<lparr>set_Stages := mergeStageStatuses (pz_Set s) (lp_stageStatuses l)\<rparr>\<rparr>"

definition onRollback :: "('e, 'w) reconcile_env \<Rightarrow> 'w pass_state \<Rightarrow> 'w pass_state" where
  "onRollback env s = leave_loop (runOnRollback (re_loop env) (enter_loop s)) s"

text \<open>After a failed stage: \<open>s\<close> holds the failure status in memory, which the patch may not have written.\<close>

definition after_failure ::
  "('e, 'w) reconcile_env \<Rightarrow> 'w pass_state \<Rightarrow> bool \<Rightarrow> 'w pass_state \<Rightarrow> 'w pass_state \<times> requeue" where
  "after_failure env s0 final s =
     (let written = (\<lambda>s. if re_patch env then s else lose_status s0 s);
          stop = (if final \<and> re_patch env then Await else Backoff)
      in if \<not> spec_RollbackOnFailure (set_Spec (pz_Set s)) then (written s, stop)
         else (case attemptRollback (le_rollback (re_loop env)) (pz_Set s) (rst_LastAppliedSnapshot (pz_Status s)) of
           (effs, fin) \<Rightarrow>
             (let s1 = s\<lparr>pz_trace := pz_trace s @ map RollingBack effs\<rparr> in
              case fin of
                RollbackTransient _ \<Rightarrow> (written s1, Backoff)
              | RollbackTerminal reason \<Rightarrow> patch_or env s0 (observe (set_ready False (RollbackRefused reason) s1)) Await
              | RollbackDone \<Rightarrow>
                  (written (if rst_LastAppliedSnapshot (pz_Status s1) \<noteq> [] then onRollback env s1 else s1), stop))))"

section \<open>Prune and completion\<close>

text \<open>The prune of each stage's dropped objects and the teardown of removed stages; a failing deletion stops
  the pass. The order of the prune sets is that of Go's map.\<close>

fun prune_all :: "('e, 'w) reconcile_env \<Rightarrow> (string \<rightharpoonup> bool) \<Rightarrow> (string \<times> ObjectRef list) list \<Rightarrow> pass_event list \<Rightarrow> pass_event list \<times> bool" where
  "prune_all env prunes [] t = (t, True)"
| "prune_all env prunes ((name, refs) # rest) t =
     (if prunes name = Some False \<or> refs = [] then prune_all env prunes rest t
      else if re_prune_fails env name then (t, False)
      else prune_all env prunes rest (t @ [Pruning name refs]))"

fun teardown_all :: "('e, 'w) reconcile_env \<Rightarrow> StageRecord list \<Rightarrow> pass_event list \<Rightarrow> pass_event list \<times> bool" where
  "teardown_all env [] t = (t, True)"
| "teardown_all env (r # rest) t =
     (if rec_Entries r \<noteq> [] \<and> re_prune_fails env (rec_Name r) then (t, False)
      else let t1 = (if rec_Entries r \<noteq> [] then t @ [TearingDown (rec_Name r) (rec_Entries r)] else t)
      in if re_drop_fails env (rec_Name r) then (t1, False)
      else teardown_all env rest (t1 @ [DroppingShards (rec_Name r)]))"

definition prune_flags :: "Stage list \<Rightarrow> (string \<rightharpoonup> bool)" where
  "prune_flags stages = map_of_last (map (\<lambda>st. (stg_Name st, stagePrune (stg_Prune st))) stages)"

definition prune_pass :: "('e, 'w) reconcile_env \<Rightarrow> 'w loop_state \<Rightarrow> 'w pass_state \<Rightarrow> pass_event list \<times> bool" where
  "prune_pass env l s =
     (if lp_reconstructed l \<noteq> [] then ([], True)
      else let plan = ComputePlan (pz_previous s) (lp_desiredRecords l) in
        case prune_all env (prune_flags (pz_stages s)) (prune_sets (pz_previous s) plan) [] of
          (t, False) \<Rightarrow> (t, False)
        | (t, True) \<Rightarrow> teardown_all env (RemovedStages plan) t)"

text \<open>What a synced pass records.\<close>

definition record_success :: "'w loop_state \<Rightarrow> 'w pass_state \<Rightarrow> 'w pass_state" where
  "record_success l s =
     (let ss = (pz_Set s)\<lparr>set_Stages := lp_stageStatuses l, set_ActionFailureCount := 0\<rparr> in
      set_ready True ReadyOk (observe
        (s\<lparr>pz_Set := ss, pz_Versions := advance_version (pz_plan s) (pz_Versions s),
           pz_Status := (pz_Status s)\<lparr>rst_LastAppliedRevisions := lp_applied l,
             rst_LastAppliedSnapshot :=
               (if spec_RollbackOnFailure (set_Spec ss) then snapshotStages ss (pz_resolved s)
                  (lp_subDigests l @ replicate (length (pz_stages s) - length (lp_subDigests l)) [])
                else rst_LastAppliedSnapshot (pz_Status s))\<rparr>\<rparr>)))"

definition complete_pass ::
  "('e, 'w) reconcile_env \<Rightarrow> 'w pass_state \<Rightarrow> 'w loop_state \<Rightarrow> 'w pass_state \<Rightarrow> 'w pass_state \<times> requeue" where
  "complete_pass env s0 l s =
     (if \<exists>i\<in>claimed_ids (lp_desiredRecords l). DuplicateClaims (lp_desiredRecords l) i \<noteq> None
      then patch_or env s0 (observe (set_ready False InvalidSpec s)) Await
      else case prune_pass env l s of
        (t, ok) \<Rightarrow>
          (let s1 = s\<lparr>pz_trace := pz_trace s @ t\<rparr> in
           if \<not> ok then (lose_status s0 s1, Backoff)
           else patch_or env s0 (record_success l s1)
             (After (re_jitter env (steadyInterval (le_interval (re_loop env)) (pz_Set s1))))))"

definition after_loop ::
  "('e, 'w) reconcile_env \<Rightarrow> 'w pass_state \<Rightarrow> 'w loop_state \<Rightarrow> (stage_ctx \<times> stage_end) option \<Rightarrow> 'w pass_state
   \<Rightarrow> 'w pass_state \<times> requeue" where
  "after_loop env s0 l r s =
     (let hold = (\<lambda>ready reason rq. patch_or env s0 (set_ready ready reason (observe (merge_statuses l s))) rq);
          retry = After (retryInterval (le_interval (re_loop env)) (pz_Set s))
      in case r of
        None \<Rightarrow> complete_pass env s0 l s
      | Some (cx, fin) \<Rightarrow>
          (case fin of
             DeletedMidway \<Rightarrow> (lose_status s0 s, After 1000000)
           | HeldForPromotion st d \<Rightarrow> hold False (PromotionHeld (promotionHoldCondition st)) (After d)
           | HeldForBudget d \<Rightarrow> hold (deployed s) (if deployed s then ReadyOk else BudgetHeld) (After d)
           | GateInterrupted \<Rightarrow> patch_or env s0 (merge_statuses l s) Backoff
           | StillProgressing \<Rightarrow> hold False StageProgressing retry
           | GateReadDenied \<Rightarrow> hold False RBACDenied (After permanentRetryInterval)
           | BudgetMalformed e \<Rightarrow>
               (let s1 = observe (set_ready False InvalidSpec s) in
                if re_patch env then complete_pass env s1 l s1 else after_failure env s0 False s1)
           | Failed op c \<Rightarrow>
               (case failStage (pz_Set s) (cx_name cx) op c (lp_stageStatuses l) (as_led (lp_Actions l)) of
                  (ss, reason, final) \<Rightarrow>
                    after_failure env s0 final (set_ready False (StageFailure reason) (observe (s\<lparr>pz_Set := ss\<rparr>))))))"

text \<open>A whole pass; a StageSet that is being deleted is torn down instead (\<open>Teardown\<close>).\<close>

definition reconcile :: "('e, 'w) reconcile_env \<Rightarrow> 'w pass_state \<Rightarrow> ('w pass_state \<times> requeue) option" where
  "reconcile env s0 =
     (if set_DeletionTimestamp (pz_Set s0) \<noteq> None then None
      else Some (case run_phases (guards env) s0 of
          (s1, Some (Patched rq)) \<Rightarrow> patch_or env s0 s1 rq
        | (s1, Some (Unpatched rq)) \<Rightarrow> (lose_status s0 s1, rq)
        | (s1, None) \<Rightarrow>
            (case run_stages (re_loop env) (contexts s1) (enter_loop s1) of
               (l, r) \<Rightarrow> after_loop env s0 l r (leave_loop l s1))))"

section \<open>What the guards leave alone\<close>

text \<open>What only a synced pass may change, and what only the loop and what follows it may touch.\<close>

definition core :: "'w pass_state \<Rightarrow> (pass_event list \<times> 'w \<times> StageSetSpec) \<times> string \<times> (string \<times> string) list \<times> StageArtifactRef list" where
  "core s = ((pz_trace s, as_world (pz_Actions s), set_Spec (pz_Set s)), vst_Version (pz_Versions s),
     rst_LastAppliedRevisions (pz_Status s), rst_LastAppliedSnapshot (pz_Status s))"

lemma core_simps [simp]:
  "core (set_ready ok reason s) = core s" "core (observe s) = core s" "core (held reason stays s) = core s"
  by (simp_all add: core_def set_ready_def observe_def held_def)

lemma fail_preflight_spec: "fail_preflight ss op c = (ss', reason, final) \<Longrightarrow> set_Spec ss' = set_Spec ss"
  by (auto simp: fail_preflight_def failStage_def Let_def split: prod.splits)

lemma fail_first_core: "fail_first op c s = (s1, r) \<Longrightarrow> core s1 = core s"
  by (auto simp: fail_first_def core_def set_ready_def observe_def split: prod.splits dest: fail_preflight_spec)

lemma guards_keep_core:
  "phase_keeps core (finalizer_phase env)" "phase_keeps core suspend_phase" "phase_keeps core request_phase"
  "phase_keeps core (validate_phase env)" "phase_keeps core (dependency_phase env)" "phase_keeps core (resolve_phase env)"
  "phase_keeps core (windows_phase env)" "phase_keeps core override_phase" "phase_keeps core (budget_phase env)"
  "phase_keeps core (plan_phase env)" "phase_keeps core approval_phase" "phase_keeps core prior_phase"
  "phase_keeps core (ledger_phase env)" "phase_keeps core (inventory_phase env)"
  by (auto simp: phase_keeps_def finalizer_phase_def suspend_phase_def request_phase_def validate_phase_def
      dependency_phase_def resolve_phase_def windows_phase_def override_phase_def budget_phase_def plan_phase_def
      approval_phase_def prior_phase_def ledger_phase_def inventory_phase_def core_def set_ready_def observe_def held_def Let_def
      split: if_splits sum.splits option.splits prod.splits dep_why.splits window_gate.splits budget_gate.splits plan_error.splits)

lemma fail_guards_keep_core: "phase_keeps core (connect_default env)" "phase_keeps core (decryptor_phase env)"
  by (auto simp: phase_keeps_def connect_default_def decryptor_phase_def split: option.splits if_splits dest: fail_first_core)

lemma guards_core: "run_phases (guards env) s = (s1, r) \<Longrightarrow> core s1 = core s"
  by (rule run_phases_keeps [of core "guards env"]) (simp_all add: guards_def guards_keep_core fail_guards_keep_core)

section \<open>What the rest of the pass leaves alone\<close>

lemma set_Spec_failStage: "failStage ss stage op c prior led = (ss', reason, final) \<Longrightarrow> set_Spec ss' = set_Spec ss"
  by (auto simp: failStage_def Let_def split: prod.splits)

lemma run_keyed_version:
  assumes "run_keyed act key acts st = (st', err)"
  shows "vst_Version (mgs_status st') = vst_Version (mgs_status st)"
proof -
  let ?P = "\<lambda>x. vst_Version (mgs_status x) = vst_Version (mgs_status st)"
  have "\<forall>a s. ?P s \<longrightarrow> ?P (fst (counted_mig act key a s))"
    by (auto simp: counted_mig_def split: prod.splits option.splits)
  moreover have "\<forall>n s. ?P s \<longrightarrow> ?P (fst (record_mig key n s :: 'a mig_state \<times> unit option))"
    by (simp add: record_mig_def)
  ultimately show ?thesis using Run_preserves [of ?P, OF _ _ assms [unfolded run_keyed_def]] by blast
qed

lemma run_up_version:
  "run_up digest act ex ms st = (st', err) \<Longrightarrow> vst_Version (mgs_status st') = vst_Version (mgs_status st)"
proof (induction ms arbitrary: ex st)
  case (Cons m ms)
  obtain st1 r where k: "run_keyed act (migrationKey digest m) (mig_Actions m) st = (st1, r)" by fastforce
  from Cons.prems Cons.IH run_keyed_version [OF k] show ?case
    by (auto simp: Let_def k prune_state_def mark_executed_def pruneSupersededLedger_def split: if_splits option.splits)
qed simp

lemma run_down_version:
  "run_down digest act ex ms st = (st', err) \<Longrightarrow> vst_Version (mgs_status st') = vst_Version (mgs_status st)"
proof (induction ms arbitrary: ex st)
  case (Cons m ms)
  obtain st1 r where k: "run_keyed act (entry (migrationKey digest m) ''down'') (mig_Down m) st = (st1, r)" by fastforce
  from Cons.prems Cons.IH run_keyed_version [OF k] show ?case
    by (auto simp: Let_def k mark_executed_def split: if_splits option.splits)
qed simp

lemma runStageMigrations_version:
  "runStageMigrations digest act plan stage st = (st', err) \<Longrightarrow> vst_Version (mgs_status st') = vst_Version (mgs_status st)"
  by (auto simp: runStageMigrations_def runStageDowngrades_def dest: run_up_version run_down_version split: if_splits)

text \<open>The stage loop does not change the deployed version or the spec.\<close>

definition loop_core :: "'w loop_state \<Rightarrow> string \<times> StageSetSpec" where
  "loop_core s = (vst_Version (lp_Versions s), set_Spec (lp_Set s))"

lemma loop_core_failure:
  "action_failure env cx phase e s = (s1, r) \<Longrightarrow> loop_core s1 = loop_core s"
  "fail_applied env cx fin s = (s1, r) \<Longrightarrow> loop_core s1 = loop_core s"
  by (auto simp: action_failure_def actionFailureOp_def fail_applied_def loop_core_def trace_event_def Let_def
      split: prod.splits if_splits)

lemma runOnRollback_core [simp]: "loop_core (runOnRollback env s) = loop_core s"
  by (simp add: runOnRollback_def loop_core_def trace_event_def Let_def)

lemma phases_keep_core:
  "phase_keeps loop_core (enter_phase env cx)" "phase_keeps loop_core (connect_phase env cx)"
  "phase_keeps loop_core (lifetime_phase env cx)" "phase_keeps loop_core (fetch_phase env cx)"
  "phase_keeps loop_core (decrypt_phase env cx)" "phase_keeps loop_core (vars_phase env cx)"
  "phase_keeps loop_core (build_phase env cx)" "phase_keeps loop_core (images_phase env cx)"
  "phase_keeps loop_core (conflict_phase env cx)"
  by (auto simp: phase_keeps_def phase_defs loop_core_def Let_def split: stage_entry.splits prod.splits sum.splits option.splits)

lemma migrate_keeps_core: "phase_keeps loop_core (migrate_phase env cx)"
  by (auto simp: phase_keeps_def migrate_phase_def loop_core_def trace_event_def Let_def split: prod.splits option.splits
      dest!: runStageMigrations_version)

lemma acting_phases_keep_core:
  "phase_keeps loop_core (pre_phase env cx)" "phase_keeps loop_core (post_phase env cx)"
  "phase_keeps loop_core (apply_phase env cx)" "phase_keeps loop_core (record_phase env cx)"
  "phase_keeps loop_core (verify_phase env cx)"
  by (auto simp: phase_keeps_def pre_phase_def post_phase_def apply_phase_def record_phase_def verify_phase_def trace_event_def Let_def
      split: prod.splits option.splits if_splits dest!: loop_core_failure) (simp_all add: loop_core_def)

lemma gate_keeps_core: "phase_keeps loop_core (gate_phase env cx)"
proof -
  have "loop_core s1 = loop_core s" if g: "gate_phase env cx s = (s1, r)" for s s1 r
  proof -
    obtain effs answer where ea: "(if gate_reverts env cx s
        then rollbackStageToSnapshot (le_rollback env) (lp_Set s) (cx_Stage cx) (cx_Position cx) (cx_Snapshot cx)
        else ([], CannotRevert)) = (effs, answer)" by fastforce
    let ?s1 = "s\<lparr>lp_trace := lp_trace s @ map Reverting effs\<rparr>"
    let ?s2 = "case answer of Reverted _ \<Rightarrow> runOnRollback env ?s1 | _ \<Rightarrow> ?s1"
    have "loop_core s1 = loop_core ?s2"
      using g by (auto simp: gate_phase_def ea loop_core_def trace_event_def Let_def split: promo_result.splits)
    also have "\<dots> = loop_core s" by (cases answer) (simp_all, simp_all add: loop_core_def)
    finally show ?thesis .
  qed
  then show ?thesis by (simp add: phase_keeps_def)
qed

lemma run_stage_core: "run_stage env cx s = (s1, r) \<Longrightarrow> loop_core s1 = loop_core s"
proof (cases "parked cx s")
  case True
  then show "run_stage env cx s = (s1, r) \<Longrightarrow> ?thesis" by (auto simp: run_stage_def loop_core_def)
next
  case False
  assume "run_stage env cx s = (s1, r)"
  with False have "run_phases (before_apply env cx @ from_apply env cx) s = (s1, r)" by (simp add: run_stage_def)
  then show ?thesis
    by (rule run_phases_keeps [rotated])
      (simp add: before_apply_def from_apply_def phases_keep_core migrate_keeps_core acting_phases_keep_core gate_keeps_core)
qed

lemma run_stages_core: "run_stages env cxs s = (s1, r) \<Longrightarrow> loop_core s1 = loop_core s"
proof (induction cxs arbitrary: s)
  case (Cons cx cxs)
  obtain s2 r2 where one: "run_stage env cx s = (s2, r2)" by fastforce
  from Cons.prems Cons.IH run_stage_core [OF one] one show ?case by (auto split: option.splits)
qed simp

text \<open>What says which release is deployed.\<close>

definition release :: "'w pass_state \<Rightarrow> string \<times> (string \<times> string) list \<times> StageArtifactRef list" where
  "release s = snd (core s)"

lemma release_def': "release s = (vst_Version (pz_Versions s), rst_LastAppliedRevisions (pz_Status s), rst_LastAppliedSnapshot (pz_Status s))"
  by (simp add: release_def core_def)

lemma release_simps [simp]:
  "release (set_ready ok reason s) = release s" "release (observe s) = release s" "release (held reason stays s) = release s"
  "release (lose_status s0 s) = release s0" "release (merge_statuses l s) = release s"
  "release (s\<lparr>pz_trace := t\<rparr>) = release s" "release (s\<lparr>pz_Set := ss\<rparr>) = release s"
  by (simp_all add: release_def' set_ready_def observe_def held_def lose_status_def merge_statuses_def)

lemma release_patch_or: "patch_or env s0 s rq = (s1, rq') \<Longrightarrow> release s = release s0 \<Longrightarrow> release s1 = release s0"
  by (auto simp: patch_or_def split: if_splits)

lemma release_leave_loop: "loop_core l = loop_core (enter_loop s) \<Longrightarrow> release (leave_loop l s) = release s"
  by (simp add: release_def' leave_loop_def loop_core_def enter_loop_def)

lemma release_onRollback [simp]: "release (onRollback env s) = release s"
  unfolding onRollback_def by (rule release_leave_loop) simp

lemma release_after_failure: "after_failure env s0 final s = (s1, rq) \<Longrightarrow> release s = release s0 \<Longrightarrow> release s1 = release s0"
  by (auto simp: after_failure_def Let_def split: if_splits prod.splits rollback_end.splits dest: release_patch_or)

section \<open>What a new release rests on\<close>

lemma run_phases_stopper: "run_phases fs s = (s1, Some e) \<Longrightarrow> \<exists>f\<in>set fs. \<exists>s'. f s' = (s1, Some e)"
proof (induction fs arbitrary: s)
  case (Cons f fs)
  obtain s2 r2 where f: "f s = (s2, r2)" by fastforce
  show ?case
  proof (cases r2)
    case None
    with Cons f show ?thesis by (auto simp: run_phases_next)
  next
    case (Some e2)
    with Cons.prems f show ?thesis by (auto simp: run_phases_next)
  qed
qed simp

definition budgets_parse :: "('e, 'w) loop_env \<Rightarrow> Stage list \<Rightarrow> bool" where
  "budgets_parse env stages \<longleftrightarrow>
     (\<forall>st\<in>set stages. \<forall>eb f e. stg_ErrorBudget st = Some eb \<longrightarrow> le_budget env eb f \<noteq> BudgetSpecError e)"

lemma enter_phase_parses:
  assumes "stg_ErrorBudget (cx_Stage cx) = None \<or> (\<forall>eb f e. stg_ErrorBudget (cx_Stage cx) = Some eb \<longrightarrow> le_budget env eb f \<noteq> BudgetSpecError e)"
  shows "enter_phase env cx s \<noteq> (s1, Some (BudgetMalformed e))"
  using assms
  by (auto simp: enter_phase_def enter_stage_def gateStageBudget_def no_stage_gate_def Let_def
      split: stage_entry.splits option.splits budget_verdict.splits if_splits)

lemma other_phases_parse:
  "connect_phase env cx s \<noteq> (s1, Some (BudgetMalformed e))" "lifetime_phase env cx s \<noteq> (s1, Some (BudgetMalformed e))"
  "migrate_phase env cx s \<noteq> (s1, Some (BudgetMalformed e))" "pre_phase env cx s \<noteq> (s1, Some (BudgetMalformed e))"
  "fetch_phase env cx s \<noteq> (s1, Some (BudgetMalformed e))" "decrypt_phase env cx s \<noteq> (s1, Some (BudgetMalformed e))"
  "vars_phase env cx s \<noteq> (s1, Some (BudgetMalformed e))" "build_phase env cx s \<noteq> (s1, Some (BudgetMalformed e))"
  "images_phase env cx s \<noteq> (s1, Some (BudgetMalformed e))" "conflict_phase env cx s \<noteq> (s1, Some (BudgetMalformed e))"
  "apply_phase env cx s \<noteq> (s1, Some (BudgetMalformed e))" "record_phase env cx s \<noteq> (s1, Some (BudgetMalformed e))"
  "verify_phase env cx s \<noteq> (s1, Some (BudgetMalformed e))" "post_phase env cx s \<noteq> (s1, Some (BudgetMalformed e))"
  "gate_phase env cx s \<noteq> (s1, Some (BudgetMalformed e))"
  by (auto simp: phase_defs gate_phase_def action_failure_def fail_applied_def Let_def
      split: prod.splits option.splits sum.splits if_splits promo_result.splits)

lemma run_stages_parse:
  "run_stages env cxs s = (s1, Some (cx, BudgetMalformed e)) \<Longrightarrow> budgets_parse env (map cx_Stage cxs) \<Longrightarrow> False"
proof (induction cxs arbitrary: s)
  case (Cons c cxs)
  obtain s2 r2 where one: "run_stage env c s = (s2, r2)" by fastforce
  have "r2 \<noteq> Some (BudgetMalformed e)"
  proof
    assume "r2 = Some (BudgetMalformed e)"
    with one have "run_phases (before_apply env c @ from_apply env c) s = (s2, Some (BudgetMalformed e))"
      by (auto simp: run_stage_def split: if_splits)
    from run_phases_stopper [OF this] Cons.prems(2) show False
      by (auto simp: before_apply_def from_apply_def other_phases_parse budgets_parse_def
          dest: enter_phase_parses [THEN notE, rotated])
  qed
  with Cons one show ?case by (auto simp: budgets_parse_def split: option.splits)
qed simp

lemma resolve_stages_length: "resolve_stages env ns stages = Inr resolved \<Longrightarrow> length resolved = length stages"
  by (induction stages arbitrary: resolved) (auto simp: bind_result_eq_Inr)

lemma run_phases_through:
  "run_phases (fs @ f # gs) s = (s', None) \<Longrightarrow> \<exists>a b. f a = (b, None) \<and> run_phases gs b = (s', None)"
  by (induction fs arbitrary: s) auto

definition pinned_run :: "'w pass_state \<Rightarrow> ResolvedArtifact list \<times> StageSetSpec" where
  "pinned_run s = (pz_resolved s, set_Spec (pz_Set s))"

lemma guards_keep_pins:
  "phase_keeps pinned_run (finalizer_phase env)" "phase_keeps pinned_run suspend_phase" "phase_keeps pinned_run request_phase"
  "phase_keeps pinned_run (validate_phase env)" "phase_keeps pinned_run (dependency_phase env)"
  "phase_keeps pinned_run (windows_phase env)" "phase_keeps pinned_run override_phase" "phase_keeps pinned_run (budget_phase env)"
  "phase_keeps pinned_run (plan_phase env)" "phase_keeps pinned_run approval_phase" "phase_keeps pinned_run prior_phase"
  "phase_keeps pinned_run (ledger_phase env)" "phase_keeps pinned_run (inventory_phase env)"
  by (auto simp: phase_keeps_def finalizer_phase_def suspend_phase_def request_phase_def validate_phase_def
      dependency_phase_def windows_phase_def override_phase_def budget_phase_def plan_phase_def
      approval_phase_def prior_phase_def ledger_phase_def inventory_phase_def pinned_run_def set_ready_def observe_def held_def Let_def
      split: if_splits sum.splits option.splits prod.splits dep_why.splits window_gate.splits budget_gate.splits plan_error.splits)

lemma fail_guards_keep_pins: "phase_keeps pinned_run (connect_default env)" "phase_keeps pinned_run (decryptor_phase env)"
  by (auto simp: phase_keeps_def connect_default_def decryptor_phase_def fail_first_def pinned_run_def set_ready_def observe_def
      split: option.splits if_splits prod.splits dest: fail_preflight_spec)

lemma guards_resolved:
  assumes "run_phases (guards env) s0 = (s, None)"
  shows "length (pz_resolved s) = length (pz_stages s)"
proof -
  let ?a = "[finalizer_phase env, suspend_phase, request_phase, validate_phase env, dependency_phase env]"
  let ?b = "[windows_phase env, override_phase, budget_phase env, connect_default env, plan_phase env, approval_phase,
      decryptor_phase env, prior_phase, ledger_phase env, inventory_phase env]"
  have "guards env = ?a @ resolve_phase env # ?b" by (simp add: guards_def)
  with assms obtain a b where r: "resolve_phase env a = (b, None)" and rest: "run_phases ?b b = (s, None)"
    using run_phases_through [of ?a "resolve_phase env" ?b s0 s] by auto
  have "length (pz_resolved b) = length (pz_stages b)"
    using r resolve_stages_length by (auto simp: resolve_phase_def split: sum.splits prod.splits)
  moreover have "pinned_run s = pinned_run b"
    by (rule run_phases_keeps [OF _ rest]) (simp add: guards_keep_pins fail_guards_keep_pins)
  ultimately show ?thesis by (simp add: pinned_run_def)
qed

lemma contexts_pins:
  assumes "length (pz_resolved s) = length (pz_stages s)"
  shows "map (\<lambda>cx. (Artifact.Key (cx_Resolved cx), cx_revision cx)) (contexts s) = revisions (pz_resolved s)"
    "map cx_Stage (contexts s) = pz_stages s"
    "map ready_status (contexts s) =
      map2 (\<lambda>st ra. (stg_Name st, StageReady, ra_Revision ra)) (pz_stages s) (pz_resolved s)"
  using assms
  by (auto simp: contexts_def stage_context_def revisions_def ready_status_def Let_def intro!: nth_equalityI)

abbreviation prune_event :: "pass_event \<Rightarrow> bool" where
  "prune_event e \<equiv> (\<exists>n refs. e = Pruning n refs \<or> e = TearingDown n refs \<or> e = DroppingShards n)"

lemma prune_all_events: "prune_all env prunes sets t = (t', ok) \<Longrightarrow> list_all prune_event t \<Longrightarrow> list_all prune_event t'"
  by (induction env prunes sets t rule: prune_all.induct) (auto split: if_splits)

lemma teardown_all_events: "teardown_all env rs t = (t', ok) \<Longrightarrow> list_all prune_event t \<Longrightarrow> list_all prune_event t'"
  by (induction env rs t rule: teardown_all.induct) (auto simp: Let_def split: if_splits)

lemma prune_pass_events: "prune_pass env l s = (t, ok) \<Longrightarrow> list_all prune_event t"
  by (auto simp: prune_pass_def Let_def split: if_splits prod.splits bool.splits
      dest!: prune_all_events teardown_all_events)

text \<open>The whole prune: what each stage dropped and no stage claims, unless the stage opted out, then the
  removed stages.\<close>

definition whole_prune :: "Stage list \<Rightarrow> StageRecord list \<Rightarrow> StageRecord list \<Rightarrow> pass_event list" where
  "whole_prune stages previous desired =
     (let plan = ComputePlan previous desired in
      map (\<lambda>(name, refs). Pruning name refs)
        (filter (\<lambda>(name, refs). prune_flags stages name \<noteq> Some False \<and> refs \<noteq> []) (prune_sets previous plan)) @
      concat (map (\<lambda>r. (if rec_Entries r = [] then [] else [TearingDown (rec_Name r) (rec_Entries r)]) @
        [DroppingShards (rec_Name r)]) (RemovedStages plan)))"

lemma prune_all_complete:
  "prune_all env flags sets t = (t', True) \<Longrightarrow>
    t' = t @ map (\<lambda>(name, refs). Pruning name refs) (filter (\<lambda>(name, refs). flags name \<noteq> Some False \<and> refs \<noteq> []) sets)"
  by (induction env flags sets t rule: prune_all.induct) (auto split: if_splits)

lemma teardown_all_complete:
  "teardown_all env rs t = (t', True) \<Longrightarrow>
    t' = t @ concat (map (\<lambda>r. (if rec_Entries r = [] then [] else [TearingDown (rec_Name r) (rec_Entries r)]) @
      [DroppingShards (rec_Name r)]) rs)"
  by (induction env rs t rule: teardown_all.induct) (auto simp: Let_def split: if_splits)

lemma prune_pass_complete:
  "prune_pass env l s = (t, True) \<Longrightarrow>
    t = (if lp_reconstructed l = [] then whole_prune (pz_stages s) (pz_previous s) (lp_desiredRecords l) else [])"
  by (auto simp: prune_pass_def whole_prune_def Let_def split: if_splits prod.splits bool.splits
      dest!: prune_all_complete teardown_all_complete)

lemma complete_pass_release:
  assumes "complete_pass env s0 l s = (s1, rq)" "release s1 \<noteq> release s0" "release s = release s0"
  shows "\<exists>t. t = (if lp_reconstructed l = [] then whole_prune (pz_stages s) (pz_previous s) (lp_desiredRecords l) else []) \<and> s1 = record_success l (s\<lparr>pz_trace := pz_trace s @ t\<rparr>) \<and>
    rq = After (re_jitter env (steadyInterval (le_interval (re_loop env)) (pz_Set s))) \<and>
    (\<forall>i\<in>claimed_ids (lp_desiredRecords l). DuplicateClaims (lp_desiredRecords l) i = None)"
proof -
  obtain t ok where t: "prune_pass env l s = (t, ok)" by fastforce
  from assms t have ok: "ok" "re_patch env" "\<forall>i\<in>claimed_ids (lp_desiredRecords l). DuplicateClaims (lp_desiredRecords l) i = None"
    by (auto simp: complete_pass_def patch_or_def Let_def split: if_splits)
  with assms(1) t have "s1 = record_success l (s\<lparr>pz_trace := pz_trace s @ t\<rparr>)"
    "rq = After (re_jitter env (steadyInterval (le_interval (re_loop env)) (pz_Set s)))"
    by (auto simp: complete_pass_def patch_or_def Let_def split: if_splits)
  with ok prune_pass_complete [OF t [unfolded eq_True [THEN iffD2, OF ok(1)]]] show ?thesis by blast
qed

lemma after_loop_release:
  assumes "after_loop env s0 l (Some (cx, fin)) s = (s1, rq)" "\<forall>e. fin \<noteq> BudgetMalformed e" "release s = release s0"
  shows "release s1 = release s0"
proof (cases fin)
  case (Failed op c)
  obtain ss reason final where f: "failStage (pz_Set s) (cx_name cx) op c (lp_stageStatuses l) (as_led (lp_Actions l)) = (ss, reason, final)"
    by (metis prod_cases3)
  have "release (set_ready False (StageFailure reason) (observe (s\<lparr>pz_Set := ss\<rparr>))) = release s0" using assms(3) by simp
  moreover have "after_failure env s0 final (set_ready False (StageFailure reason) (observe (s\<lparr>pz_Set := ss\<rparr>))) = (s1, rq)"
    using assms(1) Failed f by (simp add: after_loop_def Let_def)
  ultimately show ?thesis using release_after_failure by blast
next
  case DeletedMidway
  with assms(1) have "s1 = lose_status s0 s" by (simp add: after_loop_def)
  then show ?thesis by simp
qed (use assms in \<open>auto simp: after_loop_def Let_def dest!: release_patch_or\<close>)

text \<open>C1: The recorded release (version, applied revisions, rollback snapshot) changes in no other way than by
  a pass that got past every guard, ran every stage of the spec completely and in order, found no object
  claimed twice and pruned all that no stage records any more (unless an inventory had to be rebuilt, which
  leaves the prune to the next pass): then every stage is Ready at its pinned revision, the applied
  revisions are the pinned ones, the version is the planned one and the StageSet is Ready. A pass that is
  held, fails, is interrupted or cannot write its status leaves the recorded release as it was.\<close>

theorem release_only_when_complete:
  assumes pass: "reconcile env s0 = Some (s1, rq)" and changed: "release s1 \<noteq> release s0"
    and budgets: "budgets_parse (re_loop env) (pz_stages s0)"
  shows "\<exists>s l es. run_phases (guards env) s0 = (s, None) \<and> map cx_Stage (contexts s) = pz_stages s0 \<and>
    run_stages (re_loop env) (contexts s) (enter_loop s) = (l, None) \<and> list_all2 complete_events (contexts s) es \<and>
    (\<forall>i\<in>claimed_ids (lp_desiredRecords l). DuplicateClaims (lp_desiredRecords l) i = None) \<and>
    pz_trace s1 = pz_trace s0 @ map InLoop (concat es) @
      (if lp_reconstructed l = [] then whole_prune (pz_stages s0) (pz_previous s) (lp_desiredRecords l) else []) \<and>
    map status_of (set_Stages (pz_Set s1)) =
      map2 (\<lambda>st ra. (stg_Name st, StageReady, ra_Revision ra)) (pz_stages s0) (pz_resolved s) \<and>
    rst_LastAppliedRevisions (pz_Status s1) = revisions (pz_resolved s) \<and>
    vst_Version (pz_Versions s1) = (if mp_versionSet (pz_plan s) then mp_desired (pz_plan s) else vst_Version (pz_Versions s0)) \<and>
    rst_Ready (pz_Status s1) = Some (True, ReadyOk)"
proof -
  obtain s r where g: "run_phases (guards env) s0 = (s, r)" by fastforce
  note core = guards_core [OF g]
  have "set_DeletionTimestamp (pz_Set s0) = None" using pass by (auto simp: reconcile_def split: if_splits)
  with pass g have eq: "(s1, rq) = (case r of
      Some (Patched q) \<Rightarrow> patch_or env s0 s q
    | Some (Unpatched q) \<Rightarrow> (lose_status s0 s, q)
    | None \<Rightarrow> (case run_stages (re_loop env) (contexts s) (enter_loop s) of (l, e) \<Rightarrow> after_loop env s0 l e (leave_loop l s)))"
    by (auto simp: reconcile_def split: option.splits pass_exit.splits)
  have rel: "release s = release s0" using core by (simp add: release_def)
  have spec: "pz_stages s = pz_stages s0" and trace: "pz_trace s = pz_trace s0" using core by (simp_all add: core_def)
  show ?thesis
  proof (cases r)
    case (Some x)
    with eq rel changed show ?thesis by (cases x) (auto dest: release_patch_or [OF sym])
  next
    case None
    note pins = contexts_pins [OF guards_resolved [OF g [unfolded None]]]
    obtain l e where l: "run_stages (re_loop env) (contexts s) (enter_loop s) = (l, e)" by fastforce
    let ?s = "leave_loop l s"
    have rel': "release ?s = release s0" using release_leave_loop [OF run_stages_core [OF l]] rel by simp
    from eq None l have after: "after_loop env s0 l e ?s = (s1, rq)" by simp
    have "e = None"
    proof (rule ccontr)
      assume "e \<noteq> None"
      then obtain cx fin where e: "e = Some (cx, fin)" by (cases e) auto
      have "fin \<noteq> BudgetMalformed x" for x
        using run_stages_parse [of "re_loop env" "contexts s" "enter_loop s" l cx x] l e budgets pins(2) spec by auto
      with after_loop_release [OF after [unfolded e]] rel' changed show False by blast
    qed
    with after have "complete_pass env s0 l ?s = (s1, rq)" by (simp add: after_loop_def)
    let ?t = "if lp_reconstructed l = [] then whole_prune (pz_stages s0) (pz_previous s) (lp_desiredRecords l) else []"
    note lcore = run_stages_core [OF l]
    have same: "pz_stages ?s = pz_stages s0" "pz_previous ?s = pz_previous s"
      using lcore spec by (simp_all add: leave_loop_def loop_core_def enter_loop_def)
    from complete_pass_release [OF \<open>complete_pass env s0 l ?s = (s1, rq)\<close> changed rel', unfolded same]
    have s1: "s1 = record_success l (?s\<lparr>pz_trace := pz_trace ?s @ ?t\<rparr>)"
      and claims: "\<forall>i\<in>claimed_ids (lp_desiredRecords l). DuplicateClaims (lp_desiredRecords l) i = None" by blast+
    from run_stages_None [OF l [unfolded \<open>e = None\<close>]]
    have st: "map status_of (lp_stageStatuses l) = map ready_status (contexts s)"
      and ap: "lp_applied l = map (\<lambda>cx. (Artifact.Key (cx_Resolved cx), cx_revision cx)) (contexts s)"
      by (simp_all add: enter_loop_def)
    from run_stages_order [OF l] \<open>e = None\<close> obtain es where
      es: "lp_trace l = concat es" "list_all2 complete_events (contexts s) es"
      by (auto simp: enter_loop_def)
    have "pz_trace s1 = pz_trace s0 @ map InLoop (concat es) @ ?t"
      by (simp add: s1 record_success_def set_ready_def observe_def leave_loop_def es(1) trace Let_def)
    moreover have "set_Stages (pz_Set s1) = lp_stageStatuses l" "rst_LastAppliedRevisions (pz_Status s1) = lp_applied l"
      "rst_Ready (pz_Status s1) = Some (True, ReadyOk)"
      by (simp_all add: s1 record_success_def set_ready_def observe_def Let_def)
    moreover have "vst_Version (pz_Versions s1) = (if mp_versionSet (pz_plan s) then mp_desired (pz_plan s) else vst_Version (pz_Versions s0))"
      using rel' by (simp add: s1 record_success_def set_ready_def observe_def Let_def leave_loop_def advance_version_def release_def')
    ultimately show ?thesis using g None l \<open>e = None\<close> claims pins st ap es(2) spec by (intro exI [of _ s] exI [of _ l] exI [of _ es]) simp
  qed
qed

section \<open>What a pass may do to the cluster\<close>

lemma trace_simps [simp]:
  "pz_trace (set_ready ok reason s) = pz_trace s" "pz_trace (observe s) = pz_trace s"
  "pz_trace (lose_status s0 s) = pz_trace s" "pz_trace (merge_statuses l s) = pz_trace s"
  "pz_trace (record_success l s) = pz_trace s"
  by (simp_all add: set_ready_def observe_def lose_status_def merge_statuses_def record_success_def Let_def)

lemma trace_patch_or: "patch_or env s0 s rq = (s1, rq') \<Longrightarrow> pz_trace s1 = pz_trace s"
  by (auto simp: patch_or_def split: if_splits)

lemma trace_onRollback: "\<exists>es. pz_trace (onRollback env s) = pz_trace s @ map InLoop es"
  unfolding onRollback_def leave_loop_def by auto

lemma trace_complete_pass:
  assumes "complete_pass env s0 l s = (s1, rq)"
  shows "\<exists>t. pz_trace s1 = pz_trace s @ t \<and> list_all prune_event t \<and>
    (t \<noteq> [] \<longrightarrow> lp_reconstructed l = [] \<and> (\<forall>i\<in>claimed_ids (lp_desiredRecords l). DuplicateClaims (lp_desiredRecords l) i = None))"
proof (cases "\<exists>i\<in>claimed_ids (lp_desiredRecords l). DuplicateClaims (lp_desiredRecords l) i \<noteq> None")
  case True
  with assms have "pz_trace s1 = pz_trace s" by (auto simp: complete_pass_def dest: trace_patch_or)
  then show ?thesis by (intro exI [of _ "[]"]) simp
next
  case False
  obtain t ok where t: "prune_pass env l s = (t, ok)" by fastforce
  with assms False have "pz_trace s1 = pz_trace s @ t"
    by (auto simp: complete_pass_def Let_def split: if_splits dest!: trace_patch_or)
  moreover have "t \<noteq> [] \<longrightarrow> lp_reconstructed l = []" using t by (auto simp: prune_pass_def split: if_splits)
  ultimately show ?thesis using False prune_pass_events [OF t] by (intro exI [of _ t]) auto
qed

lemma trace_after_failure:
  assumes "after_failure env s0 final s = (s1, rq)"
  shows "\<exists>t. pz_trace s1 = pz_trace s @ t \<and> list_all (\<lambda>e. \<not> prune_event e) t \<and>
    (t \<noteq> [] \<longrightarrow> spec_RollbackOnFailure (set_Spec (pz_Set s)))"
proof (cases "spec_RollbackOnFailure (set_Spec (pz_Set s))")
  case False
  with assms have "pz_trace s1 = pz_trace s" by (auto simp: after_failure_def Let_def split: if_splits)
  then show ?thesis by (intro exI [of _ "[]"]) simp
next
  case True
  obtain effs fin where a: "attemptRollback (le_rollback (re_loop env)) (pz_Set s) (rst_LastAppliedSnapshot (pz_Status s)) = (effs, fin)"
    by fastforce
  let ?s = "s\<lparr>pz_trace := pz_trace s @ map RollingBack effs\<rparr>"
  obtain es where es: "pz_trace (onRollback env ?s) = pz_trace ?s @ map InLoop es" using trace_onRollback by blast
  have "pz_trace s1 = pz_trace ?s \<or> pz_trace s1 = pz_trace (onRollback env ?s)"
    using assms True a by (auto simp: after_failure_def Let_def split: if_splits rollback_end.splits dest: trace_patch_or)
  then obtain es' where "pz_trace s1 = pz_trace s @ map RollingBack effs @ map InLoop es'"
  proof
    assume "pz_trace s1 = pz_trace ?s"
    then show ?thesis using that [of "[]"] by simp
  next
    assume "pz_trace s1 = pz_trace (onRollback env ?s)"
    then show ?thesis using that [of es] es by simp
  qed
  with True show ?thesis by (intro exI [of _ "map RollingBack effs @ map InLoop es'"]) (auto simp: list_all_iff)
qed

lemma trace_after_loop:
  assumes "after_loop env s0 l r s = (s1, rq)" "\<forall>cx e. r \<noteq> Some (cx, BudgetMalformed e)"
  shows "\<exists>t. pz_trace s1 = pz_trace s @ t \<and>
    (t = [] \<or> r = None \<and> list_all prune_event t \<and> lp_reconstructed l = [] \<and>
         (\<forall>i\<in>claimed_ids (lp_desiredRecords l). DuplicateClaims (lp_desiredRecords l) i = None) \<or>
       (\<exists>cx op c. r = Some (cx, Failed op c)) \<and> list_all (\<lambda>e. \<not> prune_event e) t \<and> spec_RollbackOnFailure (set_Spec (pz_Set s)))"
proof (cases r)
  case None
  with assms(1) have "complete_pass env s0 l s = (s1, rq)" by (simp add: after_loop_def)
  from trace_complete_pass [OF this] None show ?thesis by blast
next
  case (Some x)
  obtain cx fin where x: "x = (cx, fin)" by fastforce
  show ?thesis
  proof (cases "\<exists>op c. fin = Failed op c")
    case True
    then obtain op c where f: "fin = Failed op c" by blast
    obtain ss reason final where st: "failStage (pz_Set s) (cx_name cx) op c (lp_stageStatuses l) (as_led (lp_Actions l)) = (ss, reason, final)"
      by (metis prod_cases3)
    let ?s = "set_ready False (StageFailure reason) (observe (s\<lparr>pz_Set := ss\<rparr>))"
    from assms(1) Some x f st have "after_failure env s0 final ?s = (s1, rq)" by (simp add: after_loop_def Let_def)
    from trace_after_failure [OF this] obtain t where t: "pz_trace s1 = pz_trace s @ t" "list_all (\<lambda>e. \<not> prune_event e) t"
      "t \<noteq> [] \<longrightarrow> spec_RollbackOnFailure (set_Spec ss)"
      by (auto simp: set_ready_def observe_def)
    then show ?thesis using set_Spec_failStage [OF st] Some x f by auto
  next
    case False
    with assms Some x have "pz_trace s1 = pz_trace s"
      by (cases fin) (auto simp: after_loop_def Let_def dest!: trace_patch_or)
    then show ?thesis by (intro exI [of _ "[]"]) simp
  qed
qed


section \<open>Progress that is lost\<close>

text \<open>C35: A failed deletion in the prune ends the pass without writing its status: the stage ledgers, the
  migration ledgers, the failure counts and the version stay as they were before the pass, although the
  migrations and actions of every stage have run, so the retry runs them again.\<close>

theorem failed_prune_forgets:
  assumes pass: "reconcile env s0 = Some (s1, rq)" and guards: "run_phases (guards env) s0 = (s, None)"
    and stages: "run_stages (re_loop env) (contexts s) (enter_loop s) = (l, None)"
    and claims: "\<forall>i\<in>claimed_ids (lp_desiredRecords l). DuplicateClaims (lp_desiredRecords l) i = None"
    and prune: "prune_pass env l (leave_loop l s) = (t, False)"
  shows "rq = Backoff \<and> pz_Versions s1 = pz_Versions s0 \<and> pz_Status s1 = pz_Status s0 \<and>
    set_Stages (pz_Set s1) = set_Stages (pz_Set s0) \<and> pz_migRuns s1 = lp_migRuns l \<and> pz_Actions s1 = lp_Actions l \<and>
    (\<exists>es. list_all2 complete_events (contexts s) es \<and> pz_trace s1 = pz_trace s0 @ map InLoop (concat es) @ t)"
proof -
  have alive: "set_DeletionTimestamp (pz_Set s0) = None" using pass by (auto simp: reconcile_def split: if_splits)
  have "complete_pass env s0 l (leave_loop l s) = (s1, rq)"
    using pass alive guards stages by (simp add: reconcile_def after_loop_def)
  with claims prune have s1: "s1 = lose_status s0 ((leave_loop l s)\<lparr>pz_trace := pz_trace (leave_loop l s) @ t\<rparr>)" "rq = Backoff"
    by (auto simp: complete_pass_def Let_def split: if_splits)
  from run_stages_order [OF stages] obtain es where
    "lp_trace l = concat es" "list_all2 complete_events (contexts s) es" by (auto simp: enter_loop_def)
  then show ?thesis using s1 guards_core [OF guards] by (auto simp: lose_status_def leave_loop_def core_def)
qed

text \<open>A terminal failure before the loop is handed to controller-runtime as an error, which retries it.\<close>

lemma preflight_failure_backs_off:
  assumes "le_connect (re_loop env) (spec_ServiceAccountName (set_Spec (pz_Set s))) = Some c" "\<not> re_badKubeConfig env"
  shows "\<exists>s1. connect_default env s = (s1, Some (Patched Backoff))"
  using assms by (simp add: connect_default_def fail_first_def split: prod.splits)

text \<open>Were a malformed stage budget to get past validation, the pass would count as complete: no error leaves
  the loop, so the stages not reached are taken for removed.\<close>

lemma malformed_budget_completes:
  "re_patch env \<Longrightarrow> \<exists>s2. after_loop env s0 l (Some (cx, BudgetMalformed e)) s = complete_pass env s2 l s2 \<and> pz_trace s2 = pz_trace s"
  by (auto simp: after_loop_def Let_def intro!: exI [of _ "observe (set_ready False InvalidSpec s)"])

section \<open>An example\<close>

text \<open>One stage with a migration anchored to it; an object of the previous revision is to be pruned.\<close>

definition demo_reconcile :: "bool \<Rightarrow> verifyOutcome \<Rightarrow> (string, nat) reconcile_env" where
  "demo_reconcile prune_fails outcome =
     \<lparr>re_loop = demo_loop outcome, re_patch = True, re_update = True, re_jitter = (\<lambda>d. d), re_ValidateSpec = (\<lambda>_. True),
      re_dependencies = Inr None, re_reader = \<lparr>rd_get = (\<lambda>_ _ _ _. Inr (Some demo_object)), rd_list = (\<lambda>_. Inr [])\<rparr>,
      re_noCross = True, re_windows = Inr (True, None), re_plan = (\<lambda>_ _ _. Inr demo_plan), re_badKubeConfig = False,
      re_decryptor = None, re_ledger = Some (None, [], False), re_ledgerUpdate = True,
      re_previous = Some [\<lparr>rec_Name = ''web'', rec_Position = 0, rec_Entries = [demo_ref ''old'' ''v1'']\<rparr>],
      re_prune_fails = (\<lambda>_. prune_fails), re_drop_fails = (\<lambda>_. False)\<rparr>"

definition demo_pass_state :: "nat pass_state" where
  "demo_pass_state =
     \<lparr>pz_Set = plain_set [plain_stage ''web''], pz_Finalizer = True,
      pz_Status = \<lparr>rst_Ready = None, rst_ObservedGeneration = 0, rst_LastHandledReconcileAt = [], rst_LastAttemptedRevisions = [],
        rst_LastAppliedRevisions = [], rst_Window = \<lparr>ws_lastHandled = [], ws_pending = None\<rparr>, rst_LastHandledBudgetOverride = [],
        rst_BudgetFreeze = None, rst_LastHandledResetScope = [], rst_LastAppliedSnapshot = []\<rparr>,
      pz_Versions = \<lparr>vst_Version = ''1'', vst_ExecutedMigrations = [], vst_ExecutedMigrationActions = [],
        vst_PendingMigrations = [], vst_PendingVersion = [], vst_MigrationFailureCount = 0\<rparr>,
      pz_Actions = \<lparr>as_world = 0, as_led = empty_ledger, as_completed = None, as_runs = (\<lambda>_. 0)\<rparr>,
      pz_migRuns = (\<lambda>_. 0), pz_Verifier = (0, None), pz_trace = [], pz_resolved = [], pz_override = False, pz_plan = zero_plan,
      pz_previous = [], pz_prior = []\<rparr>"

definition demo_state_after :: "bool \<Rightarrow> verifyOutcome \<Rightarrow> nat pass_state \<Rightarrow> nat pass_state" where
  "demo_state_after prune_fails outcome s = (case reconcile (demo_reconcile prune_fails outcome) s of Some (s1, _) \<Rightarrow> s1 | None \<Rightarrow> s)"

lemma demo_synced: "vst_Version (pz_Versions (demo_state_after False verified demo_pass_state)) = ''2''"
  by code_simp

text \<open>Two passes whose prune fails run the migration twice.\<close>

lemma demo_migration_twice:
  "pz_migRuns (demo_state_after True verified (demo_state_after True verified demo_pass_state)) ''rename@rename/up'' = 2"
  by code_simp

lemma demo_returns: "\<exists>rq. reconcile (demo_reconcile fails outcome) demo_pass_state = Some (demo_state_after fails outcome demo_pass_state, rq)"
proof -
  have "set_DeletionTimestamp (pz_Set demo_pass_state) = None" by code_simp
  then show ?thesis by (auto simp: demo_state_after_def reconcile_def split: prod.split option.split pass_exit.split)
qed

lemma demo_budgets: "budgets_parse (re_loop (demo_reconcile fails outcome)) (pz_stages demo_pass_state)"
  by (simp add: budgets_parse_def demo_reconcile_def demo_loop_def)

definition demo_guards :: "bool \<Rightarrow> verifyOutcome \<Rightarrow> nat pass_state \<times> pass_exit option" where
  "demo_guards fails outcome = run_phases (guards (demo_reconcile fails outcome)) demo_pass_state"

definition demo_stages :: "bool \<Rightarrow> verifyOutcome \<Rightarrow> nat loop_state \<times> (stage_ctx \<times> stage_end) option" where
  "demo_stages fails outcome = (let s = fst (demo_guards fails outcome) in
     run_stages (re_loop (demo_reconcile fails outcome)) (contexts s) (enter_loop s))"

lemma demo_guards_run: "run_phases (guards (demo_reconcile fails outcome)) demo_pass_state =
    (fst (demo_guards fails outcome), snd (demo_guards fails outcome))"
  unfolding demo_guards_def by (rule prod.collapse [symmetric])

lemma demo_stages_run: "run_stages (re_loop (demo_reconcile fails outcome)) (contexts (fst (demo_guards fails outcome)))
    (enter_loop (fst (demo_guards fails outcome))) = (fst (demo_stages fails outcome), snd (demo_stages fails outcome))"
  unfolding demo_stages_def Let_def by (rule prod.collapse [symmetric])

lemma release_only_when_complete_witness:
  "\<exists>cxs es prunes. map cx_Stage cxs = [plain_stage ''web''] \<and> list_all2 complete_events cxs es \<and>
    pz_trace (demo_state_after False verified demo_pass_state) = map InLoop (concat es) @ prunes \<and>
    list_ex (\<lambda>e. case e of Pruning name refs \<Rightarrow> name = ''web'' \<and> refs = [demo_ref ''old'' ''v1''] | _ \<Rightarrow> False)
      (pz_trace (demo_state_after False verified demo_pass_state)) \<and>
    rst_Ready (pz_Status (demo_state_after False verified demo_pass_state)) = Some (True, ReadyOk)"
proof -
  let ?s1 = "demo_state_after False verified demo_pass_state"
  obtain rq where pass: "reconcile (demo_reconcile False verified) demo_pass_state = Some (?s1, rq)" using demo_returns by blast
  have "vst_Version (pz_Versions ?s1) = ''2''" "vst_Version (pz_Versions demo_pass_state) = ''1''" by code_simp+
  then have "release ?s1 \<noteq> release demo_pass_state" by (auto simp: release_def core_def)
  note here = release_only_when_complete [OF pass this demo_budgets]
  have start: "pz_stages demo_pass_state = [plain_stage ''web'']" "pz_trace demo_pass_state = []"
    by (simp_all add: demo_pass_state_def plain_set_def plain_spec_def)
  have prune: "list_ex (\<lambda>e. case e of Pruning name refs \<Rightarrow> name = ''web'' \<and> refs = [demo_ref ''old'' ''v1''] | _ \<Rightarrow> False) (pz_trace ?s1)"
    by code_simp
  from here [unfolded start append_Nil] prune show ?thesis
    by (elim exE conjE) (intro exI conjI)
qed


lemma failed_prune_forgets_witness:
  "vst_Version (pz_Versions (demo_state_after True verified demo_pass_state)) = ''1'' \<and>
   pz_migRuns (demo_state_after True verified demo_pass_state) ''rename@rename/up'' = 1"
proof -
  let ?s1 = "demo_state_after True verified demo_pass_state"
  let ?l = "fst (demo_stages True verified)" and ?s = "fst (demo_guards True verified)"
  obtain rq where pass: "reconcile (demo_reconcile True verified) demo_pass_state = Some (?s1, rq)" using demo_returns by blast
  have guards: "run_phases (guards (demo_reconcile True verified)) demo_pass_state = (?s, None)"
  proof -
    have "case snd (demo_guards True verified) of None \<Rightarrow> True | Some x \<Rightarrow> False" by code_simp
    then have "snd (demo_guards True verified) = None" by (simp split: option.splits)
    from demo_guards_run [of True verified, unfolded this] show ?thesis .
  qed
  have stages: "run_stages (re_loop (demo_reconcile True verified)) (contexts ?s) (enter_loop ?s) = (?l, None)"
  proof -
    have "case snd (demo_stages True verified) of None \<Rightarrow> True | Some x \<Rightarrow> False" by code_simp
    then have "snd (demo_stages True verified) = None" by (simp split: option.splits)
    from demo_stages_run [of True verified, unfolded this] show ?thesis .
  qed
  have claims: "\<forall>i\<in>claimed_ids (lp_desiredRecords ?l). DuplicateClaims (lp_desiredRecords ?l) i = None" by code_simp
  have "snd (prune_pass (demo_reconcile True verified) ?l (leave_loop ?l ?s)) = False" by code_simp
  then have "prune_pass (demo_reconcile True verified) ?l (leave_loop ?l ?s) =
      (fst (prune_pass (demo_reconcile True verified) ?l (leave_loop ?l ?s)), False)" by (metis prod.collapse)
  note here = failed_prune_forgets [OF pass guards stages claims this]
  have "lp_migRuns ?l ''rename@rename/up'' = 1" "vst_Version (pz_Versions demo_pass_state) = ''1''" by code_simp+
  with here show ?thesis by auto
qed

end
