(* ===== verification/Preview.thy ===== *)
theory Preview
  imports Reconcile
begin

text \<open>
  The read-only previews: what the next reconcile would do with a stage's actions
  (\<open>internal/actionplan/verdict.go\<close>) and what it would delete (\<open>internal/preview\<close>), and the masking of
  Secret values in what they print (\<open>internal/diffrender/mask.go\<close>, \<open>render.go\<close>). The predictions are compared
  with the definitions of the pass itself.
\<close>

section \<open>Action verdicts (verdict.go)\<close>

datatype RunState = WillRun | Skip | ReRun

datatype verdict_reason =
    WitnessGone | CompletedOnce | NotYetRecorded
  | HeldAtVersion string | BaselinedAt string | NewEpisode string string | AtVersion string
  | AlreadyRan | LocalRender | NewRevision

record Verdict =
  vd_Stage :: string
  vd_Phase :: string
  vd_Name :: string
  vd_Scope :: ActionScope
  vd_State :: RunState
  vd_Reason :: verdict_reason

record VerdictInputs =
  vi_Revision :: string
  vi_Versioned :: bool
  vi_DesiredVersion :: string
  vi_CurrentVersion :: string
  vi_Prior :: StageStatus
  vi_Lifetime :: "LedgerCompletion list option"

definition revDone :: "VerdictInputs \<Rightarrow> string list" where
  "revDone i =
     (if vi_Revision i \<noteq> [] \<and> ss_LedgerRevision (vi_Prior i) = vi_Revision i then ss_ExecutedActions (vi_Prior i) else [])"

definition verDone :: "VerdictInputs \<Rightarrow> string list" where
  "verDone i =
     (if vi_Versioned i \<and> ss_LedgerVersion (vi_Prior i) = vi_DesiredVersion i then ss_ExecutedVersionActions (vi_Prior i) else [])"

definition classify :: "VerdictInputs \<Rightarrow> LifetimeGate \<Rightarrow> ActionScope \<Rightarrow> string \<Rightarrow> RunState \<times> verdict_reason" where
  "classify i gate sc name =
     (case sc of
        ScopeLifetime \<Rightarrow>
          (if name \<in> set (lg_Invalidated gate) then (ReRun, WitnessGone)
           else if name \<in> set (lg_Done gate) then (Skip, CompletedOnce)
           else (WillRun, NotYetRecorded))
      | ScopeVersion \<Rightarrow>
          (if name \<in> set (verDone i) then (Skip, HeldAtVersion (vi_DesiredVersion i))
           else if vi_Versioned i \<and> vi_CurrentVersion i = [] then (Skip, BaselinedAt (vi_DesiredVersion i))
           else if vi_CurrentVersion i \<noteq> [] \<and> vi_CurrentVersion i \<noteq> vi_DesiredVersion i
           then (WillRun, NewEpisode (vi_CurrentVersion i) (vi_DesiredVersion i))
           else (WillRun, AtVersion (vi_DesiredVersion i)))
      | _ \<Rightarrow>
          (if name \<in> set (revDone i) then (Skip, AlreadyRan)
           else if vi_Revision i = [] then (WillRun, LocalRender)
           else (WillRun, NewRevision)))"

definition verdict :: "VerdictInputs \<Rightarrow> LifetimeGate \<Rightarrow> Stage \<Rightarrow> string \<Rightarrow> string \<Rightarrow> Verdict" where
  "verdict i gate stage phase name =
     (let sc = (case ActionScopes stage name of Some sc \<Rightarrow> sc | None \<Rightarrow> ScopeUnset) in
      case classify i gate sc name of
        (state, reason) \<Rightarrow>
          \<lparr>vd_Stage = stg_Name stage, vd_Phase = phase, vd_Name = name, vd_Scope = sc, vd_State = state, vd_Reason = reason\<rparr>)"

definition ActionVerdicts :: "anchor_reader \<Rightarrow> Stage \<Rightarrow> VerdictInputs \<Rightarrow> Verdict list" where
  "ActionVerdicts reader stage i =
     (case stg_Actions stage of
        None \<Rightarrow> []
      | Some acts \<Rightarrow>
          (let gate = EvaluateLifetimeGate reader (vi_Lifetime i) (stg_Name stage) in
           map (\<lambda>a. verdict i gate stage ''pre'' (act_Name a)) (sact_Pre acts) @
           map (\<lambda>a. verdict i gate stage ''post'' (act_Name a)) (sact_Post acts)))"

subsection \<open>The verdict and the gate of the pass\<close>

text \<open>Each ledger holds names of its own scope only, as far as the stage declares them: no action changed its
  scope since it was recorded.\<close>

definition scoped_names :: "Stage \<Rightarrow> string list" where
  "scoped_names stage = map act_Name (actions_of sact_Pre stage @ actions_of sact_Post stage)"

definition own_scopes :: "Stage \<Rightarrow> actionLedger \<Rightarrow> bool" where
  "own_scopes stage led \<longleftrightarrow> list_all (\<lambda>n.
     (n \<in> set (al_executed led) \<longrightarrow> ActionScopes stage n = Some ScopeRevision) \<and>
     (n \<in> set (al_versioned led) \<longrightarrow> ActionScopes stage n = Some ScopeVersion) \<and>
     (n \<in> set (al_lifetimeDone led) \<longrightarrow> ActionScopes stage n = Some ScopeLifetime)) (scoped_names stage)"

lemma ActionScopes_scoped:
  assumes "n \<in> set (scoped_names stage)"
  obtains sc where "ActionScopes stage n = Some sc" "sc \<noteq> ScopeUnset" "sc = ScopeVersion \<longrightarrow> n \<in> set (versionScopedActionNames stage)"
proof -
  obtain a where a: "stg_Actions stage = Some a"
    using assms by (cases "stg_Actions stage") (auto simp: scoped_names_def actions_of_def)
  let ?kvs = "map (\<lambda>x. (act_Name x, EffectiveScope x)) (sact_Pre a @ sact_Post a)"
  have "n \<in> dom (map_of_last ?kvs)" using assms a by (simp add: dom_map_of_last scoped_names_def actions_of_def image_Un image_image)
  then obtain sc where sc: "map_of_last ?kvs n = Some sc" by blast
  from map_of_last_mem [OF sc] obtain x where x: "x \<in> set (sact_Pre a @ sact_Post a)" "n = act_Name x" "sc = EffectiveScope x"
    unfolding set_map by blast
  have "n \<in> set (scoped_action_names sc stage)" using x a by (auto simp: scoped_action_names_def)
  moreover have "sc \<noteq> ScopeUnset" using x by (auto simp: EffectiveScope_def split: if_splits)
  ultimately show thesis using that [of sc] sc a by (auto simp: ActionScopes_def versionScopedActionNames_def)
qed

text \<open>The inputs a preview gathers for a stage, given what the pass works with.\<close>

definition preview_inputs :: "StageSet \<Rightarrow> string \<Rightarrow> stage_ctx \<Rightarrow> 'w loop_state \<Rightarrow> VerdictInputs" where
  "preview_inputs ss current cx s =
     \<lparr>vi_Revision = cx_revision cx, vi_Versioned = (spec_Version (set_Spec ss) \<noteq> None), vi_DesiredVersion = mp_desired (cx_Plan cx),
      vi_CurrentVersion = current, vi_Prior = prior_or_zero (cx_Prior cx), vi_Lifetime = as_completed (lp_Actions s)\<rparr>"

lemma plan_facts:
  assumes "planVersionMigrations penv ss current resolved = Inr plan"
  shows "mp_versionSet plan \<longleftrightarrow> spec_Version (set_Spec ss) \<noteq> None"
    and "mp_baseline plan \<longleftrightarrow> spec_Version (set_Spec ss) \<noteq> None \<and> current = []"
  using assms
  by (cases rule: plan_cases; auto simp: zero_plan_def dest: planUpgrade_ok planDowngrade_ok)+

lemma verdict_agrees:
  assumes plan: "planVersionMigrations penv ss current resolved = Inr (cx_Plan cx)"
    and rev: "cx_revision cx \<noteq> []"
    and keys: "\<forall>cs. as_completed (lp_Actions s) = Some cs \<longrightarrow> distinct (ledger_keys cs)"
    and own: "own_scopes (cx_Stage cx) led"
    and led: "led = as_led (fst (open_ledgers (actions_pass env cx s) (cx_Stage cx) (cx_Prior cx) (lp_Actions s)))"
    and n: "n \<in> set (scoped_names (cx_Stage cx))"
    and gate: "gate = EvaluateLifetimeGate (le_anchors env (stage_sa cx s)) (as_completed (lp_Actions s)) (cx_name cx)"
  shows "vd_State (verdict (preview_inputs ss current cx s) gate (cx_Stage cx) phase n) = Skip \<longleftrightarrow> n \<in> doneSet led"
proof -
  let ?i = "preview_inputs ss current cx s" and ?stage = "cx_Stage cx"
  note facts = plan_facts [OF plan]
  have led': "led = (stage_ledger (cx_revision cx) (if mp_versionSet (cx_Plan cx) then Some (mp_desired (cx_Plan cx)) else None)
      (mp_baseline (cx_Plan cx)) ?stage (cx_Prior cx))\<lparr>al_lifetimeDone := lg_Done gate\<rparr>"
    using open_ledgers_led [OF prod.collapse [symmetric], THEN conjunct1, of "actions_pass env cx s" ?stage "cx_Prior cx" "lp_Actions s"]
    by (simp add: led gate actions_pass_def)
  have executed: "al_executed led = revDone ?i"
    using rev by (auto simp: led' stage_ledger_def revDone_def preview_inputs_def prior_or_zero_def zero_status_def stage_status_def
        split: option.split)
  have versioned: "set (al_versioned led) = set (verDone ?i) \<union>
      (if vi_Versioned ?i \<and> vi_CurrentVersion ?i = [] then set (versionScopedActionNames ?stage) else {})"
    using facts by (auto simp: led' stage_ledger_def verDone_def preview_inputs_def prior_or_zero_def zero_status_def stage_status_def
        split: option.splits)
  have lifetime: "al_lifetimeDone led = lg_Done gate" by (simp add: led')
  have apart: "lg_Done gate = [] \<or> set (lg_Done gate) \<inter> set (lg_Invalidated gate) = {}"
  proof (cases "as_completed (lp_Actions s)")
    case None
    then show ?thesis by (simp add: gate EvaluateLifetimeGate_def)
  next
    case (Some cs)
    with keys have "inj_on (\<lambda>c. (lc_Stage c, lc_Action c)) (set cs)" by (simp add: ledger_keys_def distinct_map)
    then have same: "c = d" if "c \<in> set cs" "d \<in> set cs" "lc_Stage c = lc_Stage d" "lc_Action c = lc_Action d" for c d
      using that by (auto dest: inj_onD)
    have False if here: "a \<in> set (lg_Done gate)" and gone: "a \<in> set (lg_Invalidated gate)" for a
    proof -
      obtain c where c: "c \<in> set cs" "lc_Stage c = cx_name cx" "\<not> completion_gone (le_anchors env (stage_sa cx s)) c" "a = lc_Action c"
        using here unfolding gate Some gate_lists set_map set_filter by blast
      obtain d where d: "d \<in> set cs" "lc_Stage d = cx_name cx" "completion_gone (le_anchors env (stage_sa cx s)) d" "a = lc_Action d"
        using gone unfolding gate Some gate_lists set_map set_filter by blast
      have "c = d" using same [of c d] c(1,2,4) d(1,2,4) by simp
      with c(3) d(3) show False by blast
    qed
    then show ?thesis by blast
  qed
  obtain sc where sc: "ActionScopes ?stage n = Some sc" "sc \<noteq> ScopeUnset" "sc = ScopeVersion \<longrightarrow> n \<in> set (versionScopedActionNames ?stage)"
    using ActionScopes_scoped [OF n] .
  have mine: "(n \<in> set (al_executed led) \<longrightarrow> sc = ScopeRevision) \<and> (n \<in> set (al_versioned led) \<longrightarrow> sc = ScopeVersion) \<and>
      (n \<in> set (al_lifetimeDone led) \<longrightarrow> sc = ScopeLifetime)"
    using own n sc(1) unfolding own_scopes_def list_all_iff by force
  have "vd_State (verdict ?i gate ?stage phase n) = fst (classify ?i gate sc n)" by (simp add: verdict_def sc(1) split: prod.split)
  also have "\<dots> = Skip \<longleftrightarrow> n \<in> doneSet led"
    using sc mine apart
    by (cases sc) (auto simp: classify_def doneSet_def executed versioned lifetime)
  finally show ?thesis by simp
qed


subsection \<open>An example\<close>

text \<open>A stage with an action that told at the pinned revision, one that is done for the lifetime of the set, and
  one the controller has not run yet.\<close>

definition demo_preview_stage :: Stage where
  "demo_preview_stage = (plain_stage ''web'')\<lparr>stg_Actions := Some
     \<lparr>sact_Pre = [plain_action ''backup'', (plain_action ''seed'')\<lparr>act_Scope := ScopeLifetime\<rparr>],
      sact_Post = [plain_action ''smoke''], sact_OnFailure = []\<rparr>\<rparr>"

definition demo_preview_context :: "string list \<Rightarrow> stage_ctx" where
  "demo_preview_context told = demo_context\<lparr>cx_Stage := demo_preview_stage, cx_Plan := zero_plan,
     cx_Prior := Some ((stage_status ''web'' StageReady ''r1'')\<lparr>ss_ExecutedActions := told, ss_LedgerRevision := ''r1''\<rparr>)\<rparr>"

definition demo_preview_state :: "LedgerCompletion list \<Rightarrow> nat loop_state" where
  "demo_preview_state cs = demo_loop_state\<lparr>lp_Actions := (lp_Actions demo_loop_state)\<lparr>as_completed := Some cs\<rparr>\<rparr>"

definition seeded :: LedgerCompletion where
  "seeded = \<lparr>lc_Stage = ''web'', lc_Action = ''seed'', lc_Origin = OriginExecuted, lc_Digest = [], lc_Anchor = None, lc_CompletedAt = 5\<rparr>"

abbreviation demo_verdicts :: "string list \<Rightarrow> LedgerCompletion list \<Rightarrow> Verdict list" where
  "demo_verdicts told cs \<equiv>
     ActionVerdicts (\<lambda>_ _ _. Inr ''u'') demo_preview_stage
       (preview_inputs (plain_set [demo_preview_stage]) [] (demo_preview_context told) (demo_preview_state cs))"


text \<open>After a change of scope the preview and the controller part ways: an action that told at this revision
  and has become once per lifetime since is announced as one that will run, and the pass skips it, for its
  executor looks a name up in the ledgers of all scopes.\<close>

lemma preview_misses_scope_change:
  "let s = demo_preview_state []; cx = demo_preview_context [''seed''] in
   map (\<lambda>v. (vd_Name v, vd_State v)) (demo_verdicts [''seed''] []) =
     [(''backup'', WillRun), (''seed'', WillRun), (''smoke'', WillRun)] \<and>
   ''seed'' \<in> doneSet (as_led (lp_Actions (fst (lifetime_phase (demo_loop (not_ready False)) cx s))))"
  by code_simp

section \<open>Deletions to expect (prune.go)\<close>

text \<open>\<open>strings.EqualFold\<close> against lower-case ASCII. Besides the ASCII letters, the long s (\<open>U+017F\<close>) and the
  Kelvin sign (\<open>U+212A\<close>) fold to ASCII letters.\<close>

fun fold_runes :: "string \<Rightarrow> string" where
  "fold_runes [] = []"
| "fold_runes (a # cs) =
     (if a = CHR 0xC5 \<and> take 1 cs = [CHR 0xBF] then CHR ''s'' # fold_runes (drop 1 cs)
      else if a = CHR 0xE2 \<and> take 2 cs = [CHR 0x84, CHR 0xAA] then CHR ''k'' # fold_runes (drop 2 cs)
      else lower_byte a # fold_runes cs)"

datatype live_read = LiveNotFound | LiveUnreadable | LiveObject json

record PruneItem =
  pi_Stage :: string
  pi_Ref :: ObjectRef
  pi_Object :: "json option"

definition ownerLabels :: "StageSet \<Rightarrow> (string \<times> string) list" where
  "ownerLabels ss = [(''stages.metio.wtf/name'', set_Name ss), (''stages.metio.wtf/namespace'', set_Namespace ss)]"

definition hasOwnerLabels :: "json \<Rightarrow> (string \<times> string) list \<Rightarrow> bool" where
  "hasOwnerLabels obj owner = list_all (\<lambda>(k, v). label_of k obj = v) owner"

definition pruneOptOut :: "json \<Rightarrow> bool" where
  "pruneOptOut obj \<longleftrightarrow> fold_runes (annotation_of ''stages.metio.wtf/prune'' obj) = ''disabled''"

definition fetch_item :: "(ObjectRef \<Rightarrow> live_read) \<Rightarrow> string \<Rightarrow> (string \<times> string) list \<Rightarrow> ObjectRef \<Rightarrow> PruneItem option" where
  "fetch_item get stage owner ref =
     (case get ref of
        LiveNotFound \<Rightarrow> None
      | LiveUnreadable \<Rightarrow> Some \<lparr>pi_Stage = stage, pi_Ref = ref, pi_Object = None\<rparr>
      | LiveObject obj \<Rightarrow>
          if \<not> hasOwnerLabels obj owner then None
          else if pruneOptOut obj then None
          else Some \<lparr>pi_Stage = stage, pi_Ref = ref, pi_Object = Some obj\<rparr>)"

definition fetchPruneItems :: "(ObjectRef \<Rightarrow> live_read) \<Rightarrow> string \<Rightarrow> ObjectRef list \<Rightarrow> (string \<times> string) list \<Rightarrow> PruneItem list" where
  "fetchPruneItems get stage refs owner = List.map_filter (fetch_item get stage owner) refs"

definition hasStage :: "StageRecord list \<Rightarrow> string \<Rightarrow> bool" where
  "hasStage stored name \<longleftrightarrow> list_ex (\<lambda>r. rec_Name r = name) stored"

fun pruneEnabled :: "Stage list \<Rightarrow> string \<Rightarrow> bool" where
  "pruneEnabled [] stage = True"
| "pruneEnabled (st # sts) stage = (if stg_Name st = stage then (case stg_Prune st of None \<Rightarrow> True | Some b \<Rightarrow> b) else pruneEnabled sts stage)"

text \<open>A stage that was not rendered keeps what is stored for it.\<close>

definition desired_preview ::
  "Stage list \<Rightarrow> (string \<rightharpoonup> ObjectRef list) \<Rightarrow> StageRecord list \<Rightarrow> StageRecord list" where
  "desired_preview stages rendered stored =
     List.map_filter (\<lambda>(i, st).
       case rendered (stg_Name st) of
         Some refs \<Rightarrow> Some \<lparr>rec_Name = stg_Name st, rec_Position = int i, rec_Entries = refs\<rparr>
       | None \<Rightarrow>
           if hasStage stored (stg_Name st)
           then map_option (\<lambda>r. \<lparr>rec_Name = stg_Name st, rec_Position = int i, rec_Entries = rec_Entries r\<rparr>)
                  (find (\<lambda>r. rec_Name r = stg_Name st) stored)
           else None) (List.enumerate 0 stages)"

definition sort_items :: "PruneItem list \<Rightarrow> PruneItem list" where
  "sort_items = sort_key (\<lambda>it. (pi_Stage it, ID (pi_Ref it)))"

text \<open>The stored records, or nothing when they could not be listed; Go ranges over the stored stages and over
  the per-stage prune sets in any order, here the one of \<open>stored\<close>.\<close>

definition PrunePlan ::
  "(ObjectRef \<Rightarrow> live_read) \<Rightarrow> StageSet \<Rightarrow> (string \<rightharpoonup> ObjectRef list) \<Rightarrow> StageRecord list option \<Rightarrow> PruneItem list option" where
  "PrunePlan get ss rendered listed =
     (case listed of
        None \<Rightarrow> None
      | Some stored \<Rightarrow>
          (let stages = spec_Stages (set_Spec ss);
               plan = ComputePlan stored (desired_preview stages rendered stored);
               owner = ownerLabels ss
           in Some (sort_items
                (concat (map (\<lambda>(stage, refs). if pruneEnabled stages stage then fetchPruneItems get stage refs owner else [])
                   (prune_sets stored plan)) @
                 concat (map (\<lambda>r. fetchPruneItems get (rec_Name r) (rec_Entries r) owner) (RemovedStages plan))))))"

subsection \<open>The preview and the prune of the pass\<close>

definition live_info :: "StageSet \<Rightarrow> json \<Rightarrow> LiveInfo" where
  "live_info ss obj = \<lparr>li_Owned = hasOwnerLabels obj (ownerLabels ss), li_PruneDisabled = pruneOptOut obj\<rparr>"

text \<open>What the deletion of the pass would not decline: an object that is there, owned and not opted out, or
  one that could not be read.\<close>

definition previewable :: "(ObjectRef \<Rightarrow> live_read) \<Rightarrow> StageSet \<Rightarrow> ObjectRef \<Rightarrow> bool" where
  "previewable get ss r \<longleftrightarrow>
     (case get r of
        LiveNotFound \<Rightarrow> False
      | LiveUnreadable \<Rightarrow> True
      | LiveObject obj \<Rightarrow> li_Owned (live_info ss obj) \<and> \<not> li_PruneDisabled (live_info ss obj))"

lemma fetch_item_key:
  "map_option (\<lambda>it. (pi_Stage it, pi_Ref it)) (fetch_item get stage (ownerLabels ss) r) = (if previewable get ss r then Some (stage, r) else None)"
  by (simp add: fetch_item_def previewable_def live_info_def split: live_read.split)

lemma fetchPruneItems_refs:
  "(\<lambda>it. (pi_Stage it, pi_Ref it)) ` set (fetchPruneItems get stage refs (ownerLabels ss)) =
     {(n, r). n = stage \<and> r \<in> set refs \<and> previewable get ss r}"
proof (induction refs)
  case (Cons r refs)
  then show ?case using fetch_item_key [of get stage ss r]
    by (cases "fetch_item get stage (ownerLabels ss) r") (auto simp: fetchPruneItems_def split: if_splits)
qed (simp add: fetchPruneItems_def)

lemma pruneEnabled_flags:
  assumes "distinct (map stg_Name stages)"
  shows "pruneEnabled stages n \<longleftrightarrow> prune_flags stages n \<noteq> Some False"
proof -
  have "prune_flags stages n = (case find (\<lambda>st. stg_Name st = n) stages of None \<Rightarrow> None | Some st \<Rightarrow> Some (stagePrune (stg_Prune st)))"
    if "distinct (map stg_Name stages)" for stages
    using that
  proof (induction stages)
    case (Cons st sts)
    then have "st' \<in> set sts \<Longrightarrow> stg_Name st' \<noteq> stg_Name st" for st' by (metis distinct.simps(2) image_eqI list.set_map list.simps(9))
    with Cons show ?case
      by (auto simp: prune_flags_def map_of_last_def map_add_Some_iff split: option.splits dest: find_Some_mem dest!: map_of_SomeD)
  qed (simp add: prune_flags_def map_of_last_def)
  moreover have "pruneEnabled stages n = (case find (\<lambda>st. stg_Name st = n) stages of None \<Rightarrow> True | Some st \<Rightarrow> stagePrune (stg_Prune st))"
    by (induction stages) (auto simp: stagePrune_def)
  ultimately show ?thesis using assms by (simp split: option.splits)
qed

lemma map_filter_map: "\<forall>x\<in>set xs. f x = Some (g x) \<Longrightarrow> List.map_filter f xs = map g xs"
  by (induction xs) auto

lemma desired_preview_rendered:
  assumes "\<forall>st\<in>set stages. rendered (stg_Name st) = Some (refs st)"
  shows "desired_preview stages rendered stored =
    map (\<lambda>(i, st). \<lparr>rec_Name = stg_Name st, rec_Position = int i, rec_Entries = refs st\<rparr>) (List.enumerate 0 stages)"
  unfolding desired_preview_def
proof (rule map_filter_map, clarify)
  fix i st assume "(i, st) \<in> set (List.enumerate 0 stages)"
  then have "st \<in> set stages" by (auto simp: in_set_enumerate_eq)
  then show "(case rendered (stg_Name st) of
         Some refs \<Rightarrow> Some \<lparr>rec_Name = stg_Name st, rec_Position = int i, rec_Entries = refs\<rparr>
       | None \<Rightarrow>
           if hasStage stored (stg_Name st)
           then map_option (\<lambda>r. \<lparr>rec_Name = stg_Name st, rec_Position = int i, rec_Entries = rec_Entries r\<rparr>)
                  (find (\<lambda>r. rec_Name r = stg_Name st) stored)
           else None) = Some \<lparr>rec_Name = stg_Name st, rec_Position = int i, rec_Entries = refs st\<rparr>"
    using assms by simp
qed

lemma whole_prune_refs:
  "(\<exists>rs. (Pruning n rs \<in> set (whole_prune stages stored desired) \<or> TearingDown n rs \<in> set (whole_prune stages stored desired)) \<and> r \<in> set rs) \<longleftrightarrow>
   (\<exists>rs. (n, rs) \<in> set (prune_sets stored (ComputePlan stored desired)) \<and> prune_flags stages n \<noteq> Some False \<and> r \<in> set rs) \<or>
   (\<exists>rec\<in>set (RemovedStages (ComputePlan stored desired)). rec_Name rec = n \<and> r \<in> set (rec_Entries rec))"
  by (force simp: whole_prune_def Let_def split: if_splits)


text \<open>The stage \<open>one\<close> no longer renders \<open>a\<close>, which is still owned; \<open>two\<close> left the spec, but another manager
  has taken its object over.\<close>

definition labelled_object :: "string \<Rightarrow> json" where
  "labelled_object owner = JMap [(''kind'', JString ''Pod''), (''metadata'', JMap [(''labels'',
     JMap [(''stages.metio.wtf/name'', JString owner), (''stages.metio.wtf/namespace'', JString ''prod'')])])]"

definition demo_get :: "ObjectRef \<Rightarrow> live_read" where
  "demo_get r = LiveObject (labelled_object (if r = demo_ref ''c'' ''v1'' then ''other'' else ''web''))"

definition demo_items :: "PruneItem list" where
  "demo_items = the (PrunePlan demo_get (plain_set [plain_stage ''one'']) (\<lambda>_. Some [demo_ref ''b'' ''v1'']) (Some demo_previous))"


section \<open>Rendering a stage (preview.go)\<close>

text \<open>What the engine works with: the resolver and the fetcher, the local directories with the files a walk of
  one gives (none when it fails), the decryptor, the reads for the substitutions and the build.\<close>

record preview_engine =
  en_Resolve :: "SourceReference \<Rightarrow> string \<Rightarrow> resolve_error + ResolvedArtifact"
  en_Fetch :: "string \<Rightarrow> string \<Rightarrow> fetch_error + files"
  en_SourceDirs :: "(string \<rightharpoonup> string) option"
  en_Walk :: "string \<Rightarrow> files option"
  en_Decryptor :: "(files \<Rightarrow> string + files) option"
  en_Reads :: tenant_reader
  en_Build :: "files \<Rightarrow> string \<Rightarrow> kustomize_patch list \<Rightarrow> vars \<Rightarrow> cause + json list"

datatype render_error =
    SourceDirUnreadable string | SourceDirEmpty string | SourceUnresolved resolve_error | SourceUnfetched fetch_error
  | StageUndecrypted string | VarsUnread | BuildFailed cause

record StageRender =
  sr_Stage :: string
  sr_Objects :: "json list"
  sr_Revision :: string
  sr_Local :: bool
  sr_Files :: files

definition sourceDir :: "preview_engine \<Rightarrow> string \<Rightarrow> string option" where
  "sourceDir e stage =
     (case en_SourceDirs e of
        None \<Rightarrow> None
      | Some dirs \<Rightarrow> (case dirs stage of Some dir \<Rightarrow> Some dir | None \<Rightarrow> dirs []))"

definition readDirFiles :: "preview_engine \<Rightarrow> string \<Rightarrow> render_error + files" where
  "readDirFiles e dir =
     (case en_Walk e dir of
        None \<Rightarrow> Inl (SourceDirUnreadable dir)
      | Some fs \<Rightarrow> if fs = [] then Inl (SourceDirEmpty dir) else Inr fs)"

definition sourceFiles :: "preview_engine \<Rightarrow> StageSet \<Rightarrow> Stage \<Rightarrow> render_error + files \<times> string \<times> bool" where
  "sourceFiles e ss stage =
     (case sourceDir e (stg_Name stage) of
        Some dir \<Rightarrow> bind_result (readDirFiles e dir) (\<lambda>fs. Inr (fs, [], True))
      | None \<Rightarrow>
          (case en_Resolve e (stg_SourceRef stage) (set_Namespace ss) of
             Inl err \<Rightarrow> Inl (SourceUnresolved err)
           | Inr ra \<Rightarrow>
               (case en_Fetch e (ra_URL ra) (ra_Digest ra) of
                  Inl err \<Rightarrow> Inl (SourceUnfetched err)
                | Inr fs \<Rightarrow> Inr (fs, ra_Revision ra, False))))"

text \<open>The substitutions of the preview: read with the one client of the command.\<close>

definition previewVars :: "tenant_reader \<Rightarrow> PostBuild option \<Rightarrow> vars option" where
  "previewVars tr pb =
     (case pb of
        None \<Rightarrow> Some []
      | Some p \<Rightarrow> map_option (\<lambda>vs. copy_vars vs (pb_Substitute p)) (substitute_from tr (pb_SubstituteFrom p) []))"

definition RenderStage :: "preview_engine \<Rightarrow> StageSet \<Rightarrow> Stage \<Rightarrow> render_error + StageRender" where
  "RenderStage e ss stage =
     bind_result (sourceFiles e ss stage) (\<lambda>(raw, revision, local).
       case decryptFiles (en_Decryptor e) raw of
         Inl msg \<Rightarrow> Inl (StageUndecrypted msg)
       | Inr fs \<Rightarrow>
           (case previewVars (en_Reads e) (stg_PostBuild stage) of
              None \<Rightarrow> Inl VarsUnread
            | Some vs \<Rightarrow>
                (case en_Build e fs (stg_Path stage) (stg_Patches stage) vs of
                   Inl c \<Rightarrow> Inl (BuildFailed c)
                 | Inr objs \<Rightarrow> Inr \<lparr>sr_Stage = stg_Name stage, sr_Objects = objs, sr_Revision = revision, sr_Local = local, sr_Files = raw\<rparr>)))"

text \<open>The stages to render. A name listed for two stages selects the first.\<close>

fun select_stages :: "Stage list \<Rightarrow> string list \<Rightarrow> Stage list \<times> string list" where
  "select_stages [] want = ([], want)"
| "select_stages (st # sts) want =
     (if stg_Name st \<in> set want
      then (case select_stages sts (removeAll (stg_Name st) want) of (out, left) \<Rightarrow> (st # out, left))
      else select_stages sts want)"

definition SelectStages :: "StageSet \<Rightarrow> string list \<Rightarrow> string + Stage list" where
  "SelectStages ss names =
     (if names = [] then Inr (spec_Stages (set_Spec ss))
      else case select_stages (spec_Stages (set_Spec ss)) names of
        (out, left) \<Rightarrow> (case find (\<lambda>n. n \<in> set left) names of Some n \<Rightarrow> Inl n | None \<Rightarrow> Inr out))"

lemma select_stages_left: "select_stages sts want = (out, left) \<Longrightarrow> set left = set want - stg_Name ` set sts"
proof (induction sts want arbitrary: out left rule: select_stages.induct)
  case (2 st sts want)
  show ?case
  proof (cases "stg_Name st \<in> set want")
    case True
    obtain out' where "select_stages sts (removeAll (stg_Name st) want) = (out', left)" using 2(3) True by (auto split: prod.splits)
    from 2(1) [OF True this] show ?thesis by auto
  next
    case False
    with 2(2) [OF False] 2(3) show ?thesis by auto
  qed
qed simp

lemma select_stages_out:
  "select_stages sts want = (out, left) \<Longrightarrow> distinct (map stg_Name sts) \<Longrightarrow> out = filter (\<lambda>st. stg_Name st \<in> set want) sts"
proof (induction sts want arbitrary: out left rule: select_stages.induct)
  case (2 st sts want)
  have "filter (\<lambda>s. stg_Name s \<in> set (removeAll (stg_Name st) want)) sts = filter (\<lambda>s. stg_Name s \<in> set want) sts"
  proof (rule filter_cong [OF refl])
    fix s assume "s \<in> set sts"
    then have "stg_Name s \<noteq> stg_Name st" using 2(4) by (metis distinct.simps(2) image_eqI list.set_map list.simps(9))
    then show "(stg_Name s \<in> set (removeAll (stg_Name st) want)) = (stg_Name s \<in> set want)" by simp
  qed
  with 2 show ?case by (auto split: if_splits prod.splits)
qed simp

text \<open>A selection is the named stages in spec order; an unknown name is an error.\<close>

lemma SelectStages_exact:
  assumes "distinct (map stg_Name (spec_Stages (set_Spec ss)))" "names \<noteq> []"
  shows "SelectStages ss names =
    (case find (\<lambda>n. n \<notin> stg_Name ` set (spec_Stages (set_Spec ss))) names of
       Some n \<Rightarrow> Inl n
     | None \<Rightarrow> Inr (filter (\<lambda>st. stg_Name st \<in> set names) (spec_Stages (set_Spec ss))))"
proof -
  obtain out left where r: "select_stages (spec_Stages (set_Spec ss)) names = (out, left)" by fastforce
  have "find (\<lambda>n. n \<in> set left) names = find (\<lambda>n. n \<notin> stg_Name ` set (spec_Stages (set_Spec ss))) names"
    using select_stages_left [OF r] by (intro find_cong) auto
  with select_stages_out [OF r assms(1)] assms(2) show ?thesis by (simp add: SelectStages_def r)
qed

lemma previewVars_resolve: "resolvePostBuildVars tr pb = Some vs \<Longrightarrow> previewVars tr pb = Some vs"
  by (auto simp: resolvePostBuildVars_def previewVars_def split: option.splits if_splits)

text \<open>An engine that looks at the cluster the pass looks at.\<close>

definition same_sources :: "preview_engine \<Rightarrow> StageSet \<Rightarrow> ('e, 'w) loop_env \<Rightarrow> stage_ctx \<Rightarrow> bool" where
  "same_sources e ss env cx \<longleftrightarrow>
     sourceDir e (cx_name cx) = None \<and> en_Resolve e (stg_SourceRef (cx_Stage cx)) (set_Namespace ss) = Inr (cx_Resolved cx) \<and>
     en_Fetch e = le_fetch env \<and> en_Decryptor e = le_decrypt env \<and> en_Reads e = le_tenant env \<and> en_Build e = le_build env"

text \<open>The preview renders what the pass applies. Whatever a pass prepares for the apply of a stage, an engine that
  reads the same sources renders the same built objects, at the revision the pass records, and the apply
  differs from them only by the stage label, the image gate's pins and the conflict annotations.\<close>

theorem preview_renders:
  assumes same: "same_sources e ss env cx" and prep: "prepared env ss cx objects ch"
  shows "\<exists>r v v' pins. RenderStage e ss (cx_Stage cx) = Inr r \<and> sr_Stage r = cx_name cx \<and> sr_Revision r = cx_revision cx \<and> \<not> sr_Local r \<and>
    verifyStageImages (le_images env) ss v (StampStageLabel (sr_Objects r) (cx_name cx)) = (v', Inr pins) \<and>
    ResolveConflictHandling pins (cx_Stage cx) (le_token env (cx_name cx)) = Some (objects, ch)"
proof -
  from prep obtain fs0 fs vs raw v v' pins where
    p: "le_fetch env (ra_URL (cx_Resolved cx)) (ra_Digest (cx_Resolved cx)) = Inr fs0" "decryptFiles (le_decrypt env) fs0 = Inr fs"
      "resolvePostBuildVars (le_tenant env) (stg_PostBuild (cx_Stage cx)) = Some vs"
      "le_build env fs (stg_Path (cx_Stage cx)) (stg_Patches (cx_Stage cx)) vs = Inr raw"
      "verifyStageImages (le_images env) ss v (StampStageLabel raw (cx_name cx)) = (v', Inr pins)"
      "ResolveConflictHandling pins (cx_Stage cx) (le_token env (cx_name cx)) = Some (objects, ch)"
    unfolding prepared_def by blast
  have "RenderStage e ss (cx_Stage cx) =
      Inr \<lparr>sr_Stage = cx_name cx, sr_Objects = raw, sr_Revision = cx_revision cx, sr_Local = False, sr_Files = fs0\<rparr>"
    using same p by (simp add: RenderStage_def sourceFiles_def same_sources_def previewVars_resolve)
  with p(5,6) show ?thesis by (intro exI conjI) (auto)
qed

definition demo_built :: json where
  "demo_built = JMap [(''apiVersion'', JString ''v1''), (''kind'', JString ''ConfigMap''),
     (''metadata'', JMap [(''name'', JString ''new''), (''namespace'', JString ''prod'')])]"

definition demo_engine :: preview_engine where
  "demo_engine = \<lparr>en_Resolve = (\<lambda>_ _. Inr (cx_Resolved demo_context)), en_Fetch = (\<lambda>u d. Inr []), en_SourceDirs = None,
     en_Walk = (\<lambda>_. None), en_Decryptor = None, en_Reads = le_tenant (demo_loop (not_ready False)), en_Build = (\<lambda>_ _ _ _. Inr [demo_built])\<rparr>"

lemma preview_renders_witness:
  "\<exists>r. RenderStage demo_engine (plain_set [plain_stage ''web'']) (plain_stage ''web'') = Inr r \<and> sr_Stage r = ''web'' \<and>
    sr_Revision r = ''r1'' \<and> \<not> sr_Local r"
proof -
  let ?env = "demo_loop (not_ready False)" and ?ss = "plain_set [plain_stage ''web'']"
  have stage: "cx_Stage demo_context = plain_stage ''web''" "stg_Name (plain_stage ''web'') = ''web''" "cx_revision demo_context = ''r1''"
      "stg_PostBuild (plain_stage ''web'') = None"
    by (simp_all add: demo_context_def plain_stage_def)
  have same: "same_sources demo_engine ?ss ?env demo_context"
    by (simp add: same_sources_def demo_engine_def sourceDir_def demo_loop_def demo_built_def)
  have "ResolveConflictHandling (StampStageLabel [demo_built] ''web'') (plain_stage ''web'') ''t'' \<noteq> None" by code_simp
  then obtain os ch where marked: "ResolveConflictHandling (StampStageLabel [demo_built] ''web'') (plain_stage ''web'') ''t'' = Some (os, ch)"
    by auto
  have prep: "prepared ?env ?ss demo_context os ch"
    by (rule preparedI [where ?fs0.0 = "[]" and fs = "[]" and vs = "[]" and raw = "[demo_built]" and v = "(0, None)" and v' = "(0, None)"
          and pins = "StampStageLabel [demo_built] ''web''"])
      (simp_all add: demo_loop_def demo_built_def stage marked [unfolded demo_built_def] decryptFiles_def resolvePostBuildVars_def
        verifyStageImages_def)
  from preview_renders [OF same prep] show ?thesis unfolding stage by blast
qed

end
