(* ===== verification/DiffRender.thy ===== *)
theory DiffRender
  imports Json Decimal
begin

text \<open>
  Rendering objects for people (\<open>internal/diffrender\<close>): the masking of Secret values (\<open>mask.go\<close>), the
  stripping of server noise and the manifest stream (\<open>render.go\<close>), and the text of a diff with its summary
  (\<open>diff.go\<close>). The YAML encoder and the unified-diff library are arguments. The main result is that a
  rendered diff does not depend on the Secret values, but for which of them are equal.
\<close>

section \<open>Masking (mask.go)\<close>

fun join_text :: "string \<Rightarrow> string list \<Rightarrow> string" where
  "join_text sep [] = []"
| "join_text sep [p] = p"
| "join_text sep (p # q # ps) = p @ sep @ join_text sep (q # ps)"

text \<open>Go's \<open>%v\<close>: strings as they are, numbers, booleans and \<open>nil\<close> as their text, composite values in brackets,
  a map by its sorted keys.\<close>

fun fmt_value :: "json \<Rightarrow> string" where
  "fmt_value (JString s) = s"
| "fmt_value (JOther t) = (if t = ''null'' then ''<nil>'' else t)"
| "fmt_value (JList vs) = ''['' @ join_text '' '' (map fmt_value vs) @ '']''"
| "fmt_value (JMap m) = ''map['' @ join_text '' '' (map (\<lambda>(k, t). k @ '':'' @ t) (sort_key fst (map (\<lambda>(k, v). (k, fmt_value v)) m))) @ '']''"

definition maskPlaceholder :: "nat \<Rightarrow> string" where
  "maskPlaceholder index = ''<-- value not shown (#'' @ dec_nat index @ '')''"

record SecretMasker =
  sm_reveal :: bool
  sm_seen :: "string \<rightharpoonup> nat"
  sm_next :: nat

definition NewSecretMasker :: "bool \<Rightarrow> SecretMasker" where
  "NewSecretMasker reveal = \<lparr>sm_reveal = reveal, sm_seen = Map.empty, sm_next = 0\<rparr>"

definition indexFor :: "SecretMasker \<Rightarrow> string \<Rightarrow> nat \<times> SecretMasker" where
  "indexFor m raw =
     (case sm_seen m raw of
        Some idx \<Rightarrow> (idx, m)
      | None \<Rightarrow> (let n = sm_next m + 1 in (n, m\<lparr>sm_seen := (sm_seen m)(raw \<mapsto> n), sm_next := n\<rparr>)))"

definition isSecret :: "json \<Rightarrow> bool" where
  "isSecret obj \<longleftrightarrow> GetKind obj = ''Secret'' \<and> nested_string [''apiVersion''] obj \<in> {''v1'', []}"

text \<open>Go ranges over the values of a field in any order: here the one of the association list.\<close>

fun mask_values :: "(string \<times> json) list \<Rightarrow> SecretMasker \<Rightarrow> (string \<times> json) list \<times> SecretMasker" where
  "mask_values [] m = ([], m)"
| "mask_values ((k, v) # kvs) m =
     (case indexFor m (fmt_value v) of
        (i, m1) \<Rightarrow> (case mask_values kvs m1 of (kvs', m2) \<Rightarrow> ((k, JString (maskPlaceholder i)) # kvs', m2)))"

definition mask_field :: "string \<Rightarrow> json \<times> SecretMasker \<Rightarrow> json \<times> SecretMasker" where
  "mask_field fld = (\<lambda>(obj, m).
     (case nested [fld] obj of
        Some (JMap vals) \<Rightarrow> (case mask_values vals m of (vals', m') \<Rightarrow> (set_nested [fld] (JMap vals') obj, m'))
      | _ \<Rightarrow> (obj, m)))"

definition Mask :: "SecretMasker \<Rightarrow> json \<Rightarrow> json \<times> SecretMasker" where
  "Mask m obj =
     (if sm_reveal m \<or> \<not> isSecret obj then (obj, m) else mask_field ''stringData'' (mask_field ''data'' (obj, m)))"

section \<open>Server noise and manifests (render.go)\<close>

definition noiseMetadataFields :: "string list" where
  "noiseMetadataFields = [''managedFields'', ''resourceVersion'', ''uid'', ''generation'', ''creationTimestamp'', ''selfLink'']"

text \<open>\<open>RemoveNestedField\<close>.\<close>

fun remove_nested :: "string list \<Rightarrow> json \<Rightarrow> json" where
  "remove_nested [] v = v"
| "remove_nested (k # ks) (JMap m) =
     (if ks = [] then JMap (filter (\<lambda>(k', v). k' \<noteq> k) m)
      else JMap (map (\<lambda>(k', v). (k', if k' = k then remove_nested ks v else v)) m))"
| "remove_nested (k # ks) v = v"

definition StripNoise :: "json \<Rightarrow> json" where
  "StripNoise obj =
     (let o1 = fold (\<lambda>f. remove_nested [''metadata'', f]) noiseMetadataFields obj;
          o2 = remove_nested [''metadata'', ''annotations'', ''kubectl.kubernetes.io/last-applied-configuration''] o1;
          o3 = remove_nested [''status''] o2
      in if nested [''metadata'', ''annotations''] o3 = Some (JMap []) then remove_nested [''metadata'', ''annotations''] o3 else o3)"

text \<open>The encoder gives the document, or none when it fails.\<close>

type_synonym encoder = "json \<Rightarrow> string option"

definition newline :: char where
  "newline = CHR 0x0A"

fun render_manifests :: "encoder \<Rightarrow> bool \<Rightarrow> json list \<Rightarrow> SecretMasker \<Rightarrow> string option \<times> SecretMasker" where
  "render_manifests toYAML later [] m = (Some [], m)"
| "render_manifests toYAML later (obj # objs) m =
     (case Mask m obj of
        (c, m1) \<Rightarrow>
          (case toYAML c of
             None \<Rightarrow> (None, m1)
           | Some out \<Rightarrow>
               (case render_manifests toYAML True objs m1 of
                  (rest, m2) \<Rightarrow> (map_option (\<lambda>r. (if later then ''---'' @ [newline] else []) @ out @ r) rest, m2))))"

definition RenderManifests :: "encoder \<Rightarrow> json list \<Rightarrow> SecretMasker \<Rightarrow> string option \<times> SecretMasker" where
  "RenderManifests toYAML objs m = render_manifests toYAML False objs m"

section \<open>Diffs (diff.go)\<close>

datatype ChangeKind = ChangeCreate | ChangeConfigure | ChangeDelete | ChangeUnchanged | ChangeSkip

definition kind_text :: "ChangeKind \<Rightarrow> string" where
  "kind_text k =
     (case k of
        ChangeCreate \<Rightarrow> ''create'' | ChangeConfigure \<Rightarrow> ''configure'' | ChangeDelete \<Rightarrow> ''delete''
      | ChangeUnchanged \<Rightarrow> ''unchanged'' | ChangeSkip \<Rightarrow> ''skip'')"

record Change =
  ch_Stage :: string
  ch_Kind :: ChangeKind
  ch_GVK :: "string \<times> string \<times> string"
  ch_Namespace :: string
  ch_Name :: string
  ch_Before :: "json option"
  ch_After :: "json option"

record Summary =
  sum_Create :: nat
  sum_Configure :: nat
  sum_Delete :: nat
  sum_Unchanged :: nat
  sum_Skip :: nat

definition Changed :: "Summary \<Rightarrow> bool" where
  "Changed s \<longleftrightarrow> sum_Create s + sum_Configure s + sum_Delete s > 0"

record RenderOptions =
  ro_ShowUnchanged :: bool
  ro_Color :: bool
  ro_Masker :: "SecretMasker option"

definition esc :: "string \<Rightarrow> string" where
  "esc code = CHR 0x1B # ''['' @ code @ ''m''"

definition ansiReset :: string where "ansiReset = esc ''0''"
definition ansiRed :: string where "ansiRed = esc ''31''"
definition ansiGreen :: string where "ansiGreen = esc ''32''"
definition ansiCyan :: string where "ansiCyan = esc ''36''"

definition colorFor :: "ChangeKind \<Rightarrow> string" where
  "colorFor k =
     (case k of ChangeCreate \<Rightarrow> ansiGreen | ChangeDelete \<Rightarrow> ansiRed | ChangeConfigure \<Rightarrow> ansiCyan | _ \<Rightarrow> [])"

text \<open>\<open>strings.SplitAfter\<close> on line ends.\<close>

fun split_after :: "string \<Rightarrow> string list" where
  "split_after [] = [[]]"
| "split_after (c # cs) =
     (if c = newline then [c] # split_after cs
      else (case split_after cs of [] \<Rightarrow> [[c]] | l # ls \<Rightarrow> (c # l) # ls))"

definition tint :: "string \<Rightarrow> string \<Rightarrow> string" where
  "tint color line = color @ trim_suffix line [newline] @ ansiReset @ (if has_suffix line [newline] then [newline] else [])"

definition color_line :: "string \<Rightarrow> string" where
  "color_line line =
     (if has_prefix line ''+++'' \<or> has_prefix line ''---'' then line
      else if has_prefix line ''+'' then tint ansiGreen line
      else if has_prefix line ''-'' then tint ansiRed line
      else if has_prefix line ''@@'' then tint ansiCyan line
      else line)"

definition colorize :: "string \<Rightarrow> bool \<Rightarrow> string" where
  "colorize body color = (if \<not> color then body else concat (map color_line (split_after body)))"

definition header :: "Change \<Rightarrow> bool \<Rightarrow> string" where
  "header ch color =
     (let kind = snd (snd (ch_GVK ch));
          id0 = kind @ ''/'' @ ch_Name ch;
          id1 = (if ch_Namespace ch \<noteq> [] then id0 @ '' ['' @ ch_Namespace ch @ '']'' else id0);
          label0 = kind_text (ch_Kind ch) @ '' '' @ id1;
          label = (if ch_Stage ch \<noteq> [] then label0 @ ''  (stage: '' @ ch_Stage ch @ '')'' else label0)
      in if \<not> color then label else colorFor (ch_Kind ch) @ label @ ansiReset)"

text \<open>The diff library gives the unified diff of the two sides (with three lines of context), or fails.\<close>

type_synonym differ = "string \<Rightarrow> string \<Rightarrow> string option"

definition unifiedBody :: "differ \<Rightarrow> string \<Rightarrow> string \<Rightarrow> string option" where
  "unifiedBody unified before after = (if before = after then Some [] else unified before after)"

definition renderSide :: "encoder \<Rightarrow> json option \<Rightarrow> SecretMasker \<Rightarrow> string option \<times> SecretMasker" where
  "renderSide toYAML side m =
     (case side of
        None \<Rightarrow> (Some [], m)
      | Some obj \<Rightarrow> (case Mask m (StripNoise obj) of (c, m') \<Rightarrow> (toYAML c, m')))"

definition count_change :: "ChangeKind \<Rightarrow> Summary \<Rightarrow> Summary" where
  "count_change k s =
     (case k of
        ChangeCreate \<Rightarrow> s\<lparr>sum_Create := sum_Create s + 1\<rparr>
      | ChangeConfigure \<Rightarrow> s\<lparr>sum_Configure := sum_Configure s + 1\<rparr>
      | ChangeDelete \<Rightarrow> s\<lparr>sum_Delete := sum_Delete s + 1\<rparr>
      | ChangeUnchanged \<Rightarrow> s\<lparr>sum_Unchanged := sum_Unchanged s + 1\<rparr>
      | ChangeSkip \<Rightarrow> s\<lparr>sum_Skip := sum_Skip s + 1\<rparr>)"

text \<open>The loop of \<open>RenderDiff\<close>: what was written, the summary, whether it went through, and the masker.\<close>

fun render_changes ::
  "encoder \<Rightarrow> differ \<Rightarrow> RenderOptions \<Rightarrow> Change list \<Rightarrow> string \<Rightarrow> Summary \<Rightarrow> SecretMasker \<Rightarrow> string \<times> Summary \<times> bool" where
  "render_changes toYAML unified opts [] w s m = (w, s, True)"
| "render_changes toYAML unified opts (ch # chs) w s m =
     (let s1 = count_change (ch_Kind ch) s in
      if ch_Kind ch \<in> {ChangeUnchanged, ChangeSkip} \<and> \<not> ro_ShowUnchanged opts
      then render_changes toYAML unified opts chs w s1 m
      else case renderSide toYAML (ch_Before ch) m of
        (None, _) \<Rightarrow> (w, s1, False)
      | (Some before, m1) \<Rightarrow>
          (case renderSide toYAML (ch_After ch) m1 of
             (None, _) \<Rightarrow> (w, s1, False)
           | (Some after, m2) \<Rightarrow>
               (let w1 = w @ header ch (ro_Color opts) @ [newline] in
                case unifiedBody unified before after of
                  None \<Rightarrow> (w1, s1, False)
                | Some body \<Rightarrow> render_changes toYAML unified opts chs
                    (w1 @ (if body \<noteq> [] then colorize body (ro_Color opts) else [])) s1 m2)))"

definition no_changes :: Summary where
  "no_changes = \<lparr>sum_Create = 0, sum_Configure = 0, sum_Delete = 0, sum_Unchanged = 0, sum_Skip = 0\<rparr>"

definition RenderDiff :: "encoder \<Rightarrow> differ \<Rightarrow> Change list \<Rightarrow> RenderOptions \<Rightarrow> string \<times> Summary \<times> bool" where
  "RenderDiff toYAML unified changes opts =
     render_changes toYAML unified opts changes [] no_changes
       (case ro_Masker opts of None \<Rightarrow> NewSecretMasker False | Some m \<Rightarrow> m)"

definition summaryLine :: "Summary \<Rightarrow> string" where
  "summaryLine s =
     (let part = (\<lambda>n text. if n > 0 then [dec_nat n @ '' '' @ text] else []);
          parts = part (sum_Create s) ''to create'' @ part (sum_Configure s) ''to configure'' @
            part (sum_Delete s) ''to delete'' @ part (sum_Unchanged s) ''unchanged'' @ part (sum_Skip s) ''skipped''
      in if parts = [] then ''Summary: no changes'' else ''Summary: '' @ join_text '', '' parts)"

section \<open>Nothing but the equality of Secret values shows\<close>

text \<open>The values of a field of a Secret, and an object without its Secret values.\<close>

definition secret_values :: "string \<Rightarrow> json \<Rightarrow> (string \<times> json) list option" where
  "secret_values fld obj = (case nested [fld] obj of Some (JMap vals) \<Rightarrow> Some vals | _ \<Rightarrow> None)"

definition fill :: "string \<Rightarrow> (string \<times> json) list option \<Rightarrow> json \<Rightarrow> json" where
  "fill fld vals obj = (case vals of None \<Rightarrow> obj | Some vs \<Rightarrow> set_nested [fld] (JMap vs) obj)"

definition skeleton :: "json \<Rightarrow> json" where
  "skeleton obj = fill ''stringData'' (map_option (\<lambda>_. []) (secret_values ''stringData'' obj))
     (fill ''data'' (map_option (\<lambda>_. []) (secret_values ''data'' obj)) obj)"

definition relabelled :: "(string \<Rightarrow> string) \<Rightarrow> (string \<times> json) list option \<Rightarrow> (string \<times> string) list option" where
  "relabelled f vals = map_option (map (\<lambda>(k, v). (k, f (fmt_value v)))) vals"

text \<open>Two objects that only differ in the Secret values, which correspond to each other under \<open>f\<close> and \<open>g\<close>.\<close>

definition alike :: "(string \<Rightarrow> string) \<Rightarrow> (string \<Rightarrow> string) \<Rightarrow> json \<Rightarrow> json \<Rightarrow> bool" where
  "alike f g o1 o2 \<longleftrightarrow>
     (if isSecret o1
      then skeleton o1 = skeleton o2 \<and>
        (\<forall>fld\<in>{''data'', ''stringData''}. relabelled f (secret_values fld o1) = relabelled g (secret_values fld o2))
      else o1 = o2)"

definition masked_values :: "(string \<times> json) list option \<Rightarrow> SecretMasker \<Rightarrow> (string \<times> json) list option \<times> SecretMasker" where
  "masked_values vals m = (case vals of None \<Rightarrow> (None, m) | Some vs \<Rightarrow> (case mask_values vs m of (vs', m') \<Rightarrow> (Some vs', m')))"

lemma mask_field_fill:
  "mask_field fld (obj, m) = (case masked_values (secret_values fld obj) m of (vs, m') \<Rightarrow> (fill fld vs obj, m'))"
  by (simp add: mask_field_def masked_values_def secret_values_def fill_def split: option.split json.split prod.split)

lemma secret_values_fill_other: "fld \<noteq> fld' \<Longrightarrow> secret_values fld (fill fld' vs obj) = secret_values fld obj"
  using nested_set_other [of fld' fld "[]" "[]" "[]"] by (simp add: secret_values_def fill_def split: option.split)

lemma GetKind_fill: "fld \<noteq> ''kind'' \<Longrightarrow> GetKind (fill fld vs obj) = GetKind obj"
  by (simp add: fill_def GetKind_set split: option.split)

lemma isSecret_fill: "fld \<in> {''data'', ''stringData''} \<Longrightarrow> isSecret (fill fld vs obj) = isSecret obj"
proof -
  assume fld: "fld \<in> {''data'', ''stringData''}"
  then have "nested [''apiVersion''] (fill fld vs obj) = nested [''apiVersion''] obj"
    using nested_set_other [of fld "''apiVersion''" "[]" "[]" "[]"] by (auto simp: fill_def split: option.split)
  moreover have "GetKind (fill fld vs obj) = GetKind obj" using fld by (intro GetKind_fill) auto
  ultimately show ?thesis by (simp add: isSecret_def nested_string_def)
qed

lemma isSecret_skeleton: "isSecret (skeleton obj) = isSecret obj"
  by (simp add: skeleton_def isSecret_fill)

lemma fill_twice: "x = None \<longleftrightarrow> y = None \<Longrightarrow> fill k x (fill k y obj) = fill k x obj"
  by (cases obj) (auto simp: fill_def split: option.splits)

lemma fill_commute: "k \<noteq> k' \<Longrightarrow> fill k x (fill k' y obj) = fill k' y (fill k x obj)"
  by (cases obj) (auto simp: fill_def split: option.splits)

lemma Mask_fill:
  assumes "\<not> sm_reveal m" "isSecret obj"
  shows "Mask m obj =
    (case masked_values (secret_values ''data'' obj) m of
       (vd, m1) \<Rightarrow> (case masked_values (secret_values ''stringData'' obj) m1 of
          (vs, m2) \<Rightarrow> (fill ''stringData'' vs (fill ''data'' vd (skeleton obj)), m2)))"
proof -
  obtain vd m1 where d: "masked_values (secret_values ''data'' obj) m = (vd, m1)" by fastforce
  obtain vs m2 where s: "masked_values (secret_values ''stringData'' obj) m1 = (vs, m2)" by fastforce
  have there: "vd = None \<longleftrightarrow> secret_values ''data'' obj = None" "vs = None \<longleftrightarrow> secret_values ''stringData'' obj = None"
    using d s by (auto simp: masked_values_def split: option.splits prod.splits)
  have "Mask m obj = (fill ''stringData'' vs (fill ''data'' vd obj), m2)"
    using assms d s by (simp add: Mask_def mask_field_fill secret_values_fill_other)
  also have "fill ''stringData'' vs (fill ''data'' vd obj) = fill ''stringData'' vs (fill ''data'' vd (skeleton obj))"
    unfolding skeleton_def
    by (simp add: fill_commute [of "''data''" "''stringData''"] fill_twice there)
  finally show ?thesis by (simp add: d s)
qed

text \<open>The maskers of the two renders gave corresponding values the same number.\<close>

definition in_step :: "(string \<Rightarrow> string) \<Rightarrow> (string \<Rightarrow> string) \<Rightarrow> SecretMasker \<Rightarrow> SecretMasker \<Rightarrow> bool" where
  "in_step f g m1 m2 \<longleftrightarrow> \<not> sm_reveal m1 \<and> \<not> sm_reveal m2 \<and> sm_next m1 = sm_next m2 \<and>
     (\<forall>x y. f x = g y \<longrightarrow> sm_seen m1 x = sm_seen m2 y)"

lemma indexFor_in_step:
  assumes "in_step f g m1 m2" "f x = g y" "inj f" "inj g"
  shows "fst (indexFor m1 x) = fst (indexFor m2 y) \<and> in_step f g (snd (indexFor m1 x)) (snd (indexFor m2 y))"
proof -
  have seen: "sm_seen m1 x = sm_seen m2 y" using assms by (simp add: in_step_def)
  have same: "x' = x \<longleftrightarrow> y' = y" if "f x' = g y'" for x' y' using that assms by (metis injD)
  show ?thesis using assms seen same by (auto simp: indexFor_def Let_def in_step_def split: option.split)
qed

lemma mask_values_in_step:
  assumes "inj f" "inj g"
  shows "in_step f g m1 m2 \<Longrightarrow> map (\<lambda>(k, v). (k, f (fmt_value v))) xs = map (\<lambda>(k, v). (k, g (fmt_value v))) ys \<Longrightarrow>
    fst (mask_values xs m1) = fst (mask_values ys m2) \<and> in_step f g (snd (mask_values xs m1)) (snd (mask_values ys m2))"
proof (induction xs arbitrary: ys m1 m2)
  case (Cons x xs)
  obtain k v where x: "x = (k, v)" by fastforce
  obtain w ys' where ys: "ys = (k, w) # ys'" "f (fmt_value v) = g (fmt_value w)"
      "map (\<lambda>(k, v). (k, f (fmt_value v))) xs = map (\<lambda>(k, v). (k, g (fmt_value v))) ys'"
    using Cons.prems(2) x by (cases ys) auto
  from indexFor_in_step [OF Cons.prems(1) ys(2) assms]
  have ix: "fst (indexFor m1 (fmt_value v)) = fst (indexFor m2 (fmt_value w))"
    and step: "in_step f g (snd (indexFor m1 (fmt_value v))) (snd (indexFor m2 (fmt_value w)))" by blast+
  from Cons.IH [OF step ys(3)] ix show ?case by (simp add: x ys(1) case_prod_beta)
qed simp

lemma masked_values_in_step:
  assumes "inj f" "inj g" "in_step f g m1 m2" "relabelled f v1 = relabelled g v2"
  shows "fst (masked_values v1 m1) = fst (masked_values v2 m2) \<and> in_step f g (snd (masked_values v1 m1)) (snd (masked_values v2 m2))"
proof (cases v1)
  case None
  then show ?thesis using assms by (simp add: masked_values_def relabelled_def)
next
  case (Some xs)
  then obtain ys where "v2 = Some ys" "map (\<lambda>(k, v). (k, f (fmt_value v))) xs = map (\<lambda>(k, v). (k, g (fmt_value v))) ys"
    using assms(4) by (auto simp: relabelled_def map_option_case split: option.splits)
  with mask_values_in_step [OF assms(1,2,3)] Some show ?thesis by (simp add: masked_values_def split: prod.split) (metis prod.sel)
qed

lemma Mask_in_step:
  assumes inj: "inj f" "inj g" and step: "in_step f g m1 m2" and objs: "alike f g o1 o2"
  shows "fst (Mask m1 o1) = fst (Mask m2 o2) \<and> in_step f g (snd (Mask m1 o1)) (snd (Mask m2 o2))"
proof (cases "isSecret o1")
  case False
  with objs step show ?thesis by (simp add: alike_def Mask_def)
next
  case True
  with objs have skel: "skeleton o1 = skeleton o2"
    and vals: "relabelled f (secret_values ''data'' o1) = relabelled g (secret_values ''data'' o2)"
      "relabelled f (secret_values ''stringData'' o1) = relabelled g (secret_values ''stringData'' o2)"
    by (simp_all add: alike_def)
  have two: "isSecret o2" using True skel isSecret_skeleton by metis
  have plain: "\<not> sm_reveal m1" "\<not> sm_reveal m2" using step by (simp_all add: in_step_def)
  note a = masked_values_in_step [OF inj step vals(1)]
  note b = masked_values_in_step [OF inj a [THEN conjunct2] vals(2)]
  show ?thesis using a b by (simp add: Mask_fill [OF plain(1) True] Mask_fill [OF plain(2) two] skel case_prod_beta)
qed

definition alike_sides :: "(string \<Rightarrow> string) \<Rightarrow> (string \<Rightarrow> string) \<Rightarrow> json option \<Rightarrow> json option \<Rightarrow> bool" where
  "alike_sides f g = rel_option (\<lambda>o1 o2. alike f g (StripNoise o1) (StripNoise o2))"

lemma renderSide_in_step:
  assumes "inj f" "inj g" "in_step f g m1 m2" "alike_sides f g s1 s2"
  shows "fst (renderSide toYAML s1 m1) = fst (renderSide toYAML s2 m2) \<and>
    in_step f g (snd (renderSide toYAML s1 m1)) (snd (renderSide toYAML s2 m2))"
proof (cases s1)
  case None
  then show ?thesis using assms(3,4) by (auto simp: alike_sides_def renderSide_def split: option.split)
next
  case (Some o1)
  then obtain o2 where "s2 = Some o2" "alike f g (StripNoise o1) (StripNoise o2)"
    using assms(4) by (auto simp: alike_sides_def option_rel_Some1)
  with Mask_in_step [OF assms(1,2,3)] Some show ?thesis by (simp add: renderSide_def case_prod_beta)
qed

definition alike_change :: "(string \<Rightarrow> string) \<Rightarrow> (string \<Rightarrow> string) \<Rightarrow> Change \<Rightarrow> Change \<Rightarrow> bool" where
  "alike_change f g c1 c2 \<longleftrightarrow>
     c1\<lparr>ch_Before := None, ch_After := None\<rparr> = c2\<lparr>ch_Before := None, ch_After := None\<rparr> \<and>
     alike_sides f g (ch_Before c1) (ch_Before c2) \<and> alike_sides f g (ch_After c1) (ch_After c2)"

lemma render_changes_in_step:
  assumes "inj f" "inj g"
  shows "in_step f g m1 m2 \<Longrightarrow> list_all2 (alike_change f g) cs ds \<Longrightarrow>
    render_changes toYAML unified opts cs w s m1 = render_changes toYAML unified opts ds w s m2"
proof (induction cs arbitrary: ds w s m1 m2)
  case (Cons c cs)
  then obtain d ds' where d: "ds = d # ds'" "alike_change f g c d" "list_all2 (alike_change f g) cs ds'" by (auto simp: list_all2_Cons1)
  then have sides: "alike_sides f g (ch_Before c) (ch_Before d)" "alike_sides f g (ch_After c) (ch_After d)"
    and eq: "c\<lparr>ch_Before := None, ch_After := None\<rparr> = d\<lparr>ch_Before := None, ch_After := None\<rparr>"
    by (simp_all add: alike_change_def)
  have kind: "ch_Kind c = ch_Kind d" using arg_cong [OF eq, of ch_Kind] by simp
  have head: "header c = header d"
    using kind arg_cong [OF eq, of ch_Stage] arg_cong [OF eq, of ch_GVK] arg_cong [OF eq, of ch_Namespace] arg_cong [OF eq, of ch_Name]
    by (simp add: header_def fun_eq_iff cong: if_cong)
  obtain r1 n1 where r1: "renderSide toYAML (ch_Before c) m1 = (r1, n1)" by fastforce
  obtain n2 where r2: "renderSide toYAML (ch_Before d) m2 = (r1, n2)" "in_step f g n1 n2"
    using renderSide_in_step [OF assms Cons.prems(1) sides(1), of toYAML] r1 by (metis fst_conv snd_conv prod.collapse)
  obtain q1 k1 where q1: "renderSide toYAML (ch_After c) n1 = (q1, k1)" by fastforce
  obtain k2 where q2: "renderSide toYAML (ch_After d) n2 = (q1, k2)" "in_step f g k1 k2"
    using renderSide_in_step [OF assms r2(2) sides(2), of toYAML] q1 by (metis fst_conv snd_conv prod.collapse)
  have later: "render_changes toYAML unified opts cs w s m1 = render_changes toYAML unified opts ds' w s m2"
      "render_changes toYAML unified opts cs w s k1 = render_changes toYAML unified opts ds' w s k2" for w s
    using Cons.IH [OF Cons.prems(1) d(3)] Cons.IH [OF q2(2) d(3)] by blast+
  show ?case by (simp add: d(1) kind head r1 r2(1) q1 q2(1) later Let_def split: option.split)
qed simp


text \<open>A Secret with two keys of one value and a third of its own, and one with other values in the same
  arrangement: the renaming exchanges the values.\<close>

definition demo_secret :: "string \<Rightarrow> string \<Rightarrow> json" where
  "demo_secret x y = JMap [(''apiVersion'', JString ''v1''), (''kind'', JString ''Secret''),
     (''metadata'', JMap [(''name'', JString ''db''), (''uid'', JString x)]),
     (''data'', JMap [(''a'', JString x), (''b'', JString y), (''c'', JString x)])]"

definition demo_change :: "string \<Rightarrow> string \<Rightarrow> Change" where
  "demo_change x y = \<lparr>ch_Stage = ''web'', ch_Kind = ChangeConfigure, ch_GVK = ([], ''v1'', ''Secret''), ch_Namespace = ''prod'',
     ch_Name = ''db'', ch_Before = Some (demo_secret x y), ch_After = Some (demo_secret y y)\<rparr>"

definition plain_options :: RenderOptions where
  "plain_options = \<lparr>ro_ShowUnchanged = False, ro_Color = True, ro_Masker = None\<rparr>"

definition exchanged :: "string \<Rightarrow> string \<Rightarrow> string \<Rightarrow> string" where
  "exchanged x y s = (if s = x then y else if s = y then x else s)"

definition plain_encoder :: encoder where
  "plain_encoder obj = Some (fmt_value obj)"

definition plain_differ :: differ where
  "plain_differ before after = Some (CHR ''-'' # before @ newline # CHR ''+'' # after @ [newline])"


end
