(* ===== verification/Verbs.thy ===== *)
theory Verbs
  imports StageLoop
begin

text \<open>
  The verbs of the action executor (\<open>internal/actions/actions.go\<close>): patch, http, wait, job, delete and
  apply against the API of the cluster, an HTTP transport and the artifact path, as the record of verbs the
  executor of \<open>ActionRunner\<close> dispatches to. What was asked of the outside is kept in a trace. A deadline is
  the number of two-second polls that fit before it.
\<close>

section \<open>The outside\<close>

datatype api_result = ApiOk | ApiNotFound | ApiExists | ApiFailed

record http_request =
  rq_Method :: string
  rq_URL :: string
  rq_Headers :: "(string \<times> string) list"
  rq_Body :: string

text \<open>The answer of a server: a redirect to a location or a final status.\<close>

datatype http_answer = Redirected int string | Answered int

datatype verb_event =
    SentRequest http_request
  | SentPatch ObjectRef bool string
  | SentDelete ObjectRef string
  | SentCreate ObjectRef json
  | SentApply "json list" bool duration

record 'w verb_state =
  vs_world :: 'w
  vs_trace :: "verb_event list"

text \<open>A URL as \<open>url.Parse\<close> reads it: scheme, host name, and host with the port.\<close>

record ('ast, 'p, 'w) verb_env =
  ve_ns :: string
  ve_gv :: group_version_parser
  ve_sha256 :: "string \<Rightarrow> string"
  ve_deadline :: "nat option"
  ve_cel :: "('ast, 'p) cel_lib"
  ve_selector :: "label_selector \<Rightarrow> bool option"
  ve_list :: "ObjectRef \<Rightarrow> label_selector \<Rightarrow> 'w \<Rightarrow> ObjectRef list option"
  ve_patch :: "ObjectRef \<Rightarrow> bool \<Rightarrow> string \<Rightarrow> 'w \<Rightarrow> 'w \<times> bool"
  ve_delete :: "ObjectRef \<Rightarrow> string \<Rightarrow> 'w \<Rightarrow> 'w \<times> api_result"
  ve_create :: "json \<Rightarrow> 'w \<Rightarrow> 'w \<times> api_result"
  ve_get :: "ObjectRef \<Rightarrow> 'w \<Rightarrow> json option"
  ve_tick :: "'w \<Rightarrow> 'w"
  ve_secret :: "string \<Rightarrow> (string \<rightharpoonup> string) option"
  ve_url :: "string \<Rightarrow> (string \<times> string \<times> string) option"
  ve_reference :: "string \<Rightarrow> string \<Rightarrow> string option"
  ve_glob :: "string \<Rightarrow> string \<Rightarrow> bool"
  ve_forbidden :: "string \<Rightarrow> bool"
  ve_AllowedHosts :: "string list"
  ve_transport :: "http_request \<Rightarrow> 'w \<Rightarrow> 'w \<times> (exec_error + http_answer)"
  ve_Resolve :: "(SourceReference \<Rightarrow> string \<Rightarrow> resolve_error + ResolvedArtifact) option"
  ve_Fetch :: "(string \<Rightarrow> string \<Rightarrow> fetch_error + files) option"
  ve_Build :: "files \<Rightarrow> string \<Rightarrow> json list option"
  ve_Applier :: "(json list \<Rightarrow> bool \<Rightarrow> duration \<Rightarrow> 'w \<Rightarrow> 'w \<times> exec_error option) option"

definition noted :: "verb_event \<Rightarrow> 'w \<Rightarrow> 'w verb_state \<Rightarrow> 'w verb_state" where
  "noted e w s = s\<lparr>vs_world := w, vs_trace := vs_trace s @ [e]\<rparr>"

text \<open>The reference of a target, in the run's namespace unless it names one.\<close>

definition target_ref :: "('ast, 'p, 'w) verb_env \<Rightarrow> string \<Rightarrow> string \<Rightarrow> string \<Rightarrow> string \<Rightarrow> ObjectRef option" where
  "target_ref env apiVersion kind namespace name =
     (case ve_gv env apiVersion of
        None \<Rightarrow> None
      | Some (grp, version) \<Rightarrow>
          Some \<lparr>ref_Group = grp, ref_Kind = kind, ref_Namespace = (if namespace = [] then ve_ns env else namespace),
            ref_Name = name, ref_Version = version\<rparr>)"

section \<open>delete and patch\<close>

definition deleteObject :: "('ast, 'p, 'w) verb_env \<Rightarrow> DeleteAction \<Rightarrow> 'w verb_state \<Rightarrow> 'w verb_state \<times> exec_error option" where
  "deleteObject env d s =
     (let t = da_Target d in
      case target_ref env (okr_APIVersion t) (okr_Kind t) (okr_Namespace t) (okr_Name t) of
        None \<Rightarrow> (s, Some (ErrOther ''target apiVersion''))
      | Some ref \<Rightarrow>
          (let policy = (if da_Cascade d \<in> {''Foreground'', ''Orphan''} then da_Cascade d else []) in
           case ve_delete env ref policy (vs_world s) of
             (w, r) \<Rightarrow> (noted (SentDelete ref policy) w s,
               if r \<noteq> ApiOk \<and> r \<noteq> ApiNotFound then Some (ErrOther ''delete'') else None)))"

fun patch_all :: "('ast, 'p, 'w) verb_env \<Rightarrow> bool \<Rightarrow> string \<Rightarrow> ObjectRef list \<Rightarrow> 'w verb_state \<Rightarrow> 'w verb_state \<times> exec_error option" where
  "patch_all env json6902 body [] s = (s, None)"
| "patch_all env json6902 body (ref # refs) s =
     (case ve_patch env ref json6902 body (vs_world s) of
        (w, ok) \<Rightarrow>
          (let s1 = noted (SentPatch ref json6902 body) w s in
           if ok then patch_all env json6902 body refs s1 else (s1, Some (ErrOther ''patch''))))"

definition patch :: "('ast, 'p, 'w) verb_env \<Rightarrow> PatchAction \<Rightarrow> 'w verb_state \<Rightarrow> 'w verb_state \<times> exec_error option" where
  "patch env p s =
     (let t = pa_Target p; json6902 = (pa_Type p = ''json6902'') in
      case patch_target_error t of
        Some e \<Rightarrow> (s, Some (ErrOther e))
      | None \<Rightarrow>
          (case target_ref env (pt_APIVersion t) (pt_Kind t) (pt_Namespace t) (pt_Name t) of
             None \<Rightarrow> (s, Some (ErrOther ''target apiVersion''))
           | Some ref \<Rightarrow>
               (case pt_Selector t of
                  None \<Rightarrow> patch_all env json6902 (pa_Patch p) [ref] s
                | Some sel \<Rightarrow>
                    (case ve_selector env sel of
                       None \<Rightarrow> (s, Some (ErrOther ''patch selector''))
                     | Some True \<Rightarrow> (s, Some (ErrOther ''patch selector must match at least one label''))
                     | Some False \<Rightarrow>
                         (case ve_list env (ref\<lparr>ref_Kind := ref_Kind ref @ ''List''\<rparr>) sel (vs_world s) of
                            None \<Rightarrow> (s, Some (ErrOther ''list for patch''))
                          | Some refs \<Rightarrow> patch_all env json6902 (pa_Patch p) refs s)))))"

section \<open>http\<close>

definition allowed :: "('ast, 'p, 'w) verb_env \<Rightarrow> string \<Rightarrow> exec_error option" where
  "allowed env url =
     allowedURL (ve_glob env) (ve_forbidden env) (ve_AllowedHosts env)
       (map_option (\<lambda>(scheme, hostname, host). (scheme, hostname)) (ve_url env url))"

definition url_host :: "('ast, 'p, 'w) verb_env \<Rightarrow> string \<Rightarrow> string" where
  "url_host env url = (case ve_url env url of Some (scheme, hostname, host) \<Rightarrow> host | None \<Rightarrow> [])"

definition secretValue :: "('ast, 'p, 'w) verb_env \<Rightarrow> SecretKeyReference \<Rightarrow> exec_error + string" where
  "secretValue env ref =
     (case ve_secret env (skr_Name ref) of
        None \<Rightarrow> Inl (ErrOther ''read Secret'')
      | Some data \<Rightarrow> (case data (skr_Key ref) of None \<Rightarrow> Inl (ErrOther ''secret has no key'') | Some v \<Rightarrow> Inr v))"

text \<open>\<open>http.Header.Set\<close>, for keys in canonical form.\<close>

fun secret_headers :: "('ast, 'p, 'w) verb_env \<Rightarrow> SecretKeyReference list \<Rightarrow> (string \<times> string) list \<Rightarrow> exec_error + (string \<times> string) list" where
  "secret_headers env [] hs = Inr hs"
| "secret_headers env (ref # refs) hs =
     bind_result (secretValue env ref) (\<lambda>v. secret_headers env refs (AList.update (skr_Key ref) v hs))"

text \<open>The redirected request: 301, 302 and 303 turn it into a GET (a HEAD stays one) without body, 307 and 308 keep
  it. The explicitly set headers go along.\<close>

definition redirected :: "int \<Rightarrow> string \<Rightarrow> http_request \<Rightarrow> http_request" where
  "redirected code url rq =
     (if code \<in> {301, 302, 303} then rq\<lparr>rq_Method := (if rq_Method rq \<in> {''GET'', ''HEAD''} then rq_Method rq else ''GET''), rq_URL := url, rq_Body := []\<rparr>
      else rq\<lparr>rq_URL := url\<rparr>)"

text \<open>\<open>Client.Do\<close> with the redirect policy of the guarded client. \<open>via\<close> counts the requests already made.\<close>

function follow_redirects ::
  "('ast, 'p, 'w) verb_env \<Rightarrow> bool \<Rightarrow> string \<Rightarrow> nat \<Rightarrow> http_request \<Rightarrow> 'w verb_state \<Rightarrow> 'w verb_state \<times> (exec_error + int)" where
  "follow_redirects env hasSecrets origHost via rq s =
     (case ve_transport env rq (vs_world s) of
        (w, r) \<Rightarrow>
          (let s1 = noted (SentRequest rq) w s in
           case r of
             Inl e \<Rightarrow> (s1, Inl e)
           | Inr (Answered code) \<Rightarrow> (s1, Inr code)
           | Inr (Redirected code loc) \<Rightarrow>
               (case ve_reference env (rq_URL rq) loc of
                  None \<Rightarrow> (s1, Inl (ErrOther ''failed to parse Location header''))
                | Some url \<Rightarrow>
                    (case CheckRedirect hasSecrets origHost (allowed env url) (via + 1) (url_host env url) of
                       StopRedirects \<Rightarrow> (s1, Inl (ErrOther ''stopped after 10 redirects''))
                     | RefuseCrossHost \<Rightarrow> (s1, Inl (ErrOther ''refusing cross-host redirect''))
                     | RedirectForbidden e \<Rightarrow> (s1, Inl e)
                     | Follow \<Rightarrow> follow_redirects env hasSecrets origHost (via + 1) (redirected code url rq) s1))))"
  by pat_completeness auto
termination
  by (relation "measure (\<lambda>(env, hasSecrets, origHost, via, rq, s). 10 - via)") (auto simp: CheckRedirect_def split: if_splits option.splits)

declare follow_redirects.simps [simp del]

definition has_secrets :: "HTTPAction \<Rightarrow> bool" where
  "has_secrets h \<longleftrightarrow> ha_BodyFrom h \<noteq> None \<or> ha_HeadersFrom h \<noteq> []"

definition httpCall :: "('ast, 'p, 'w) verb_env \<Rightarrow> HTTPAction \<Rightarrow> 'w verb_state \<Rightarrow> 'w verb_state \<times> exec_error option" where
  "httpCall env h s =
     (case allowed env (ha_URL h) of
        Some e \<Rightarrow> (s, Some e)
      | None \<Rightarrow>
          (case (case ha_BodyFrom h of None \<Rightarrow> Inr (ha_Body h) | Some ref \<Rightarrow> secretValue env ref) of
             Inl e \<Rightarrow> (s, Some e)
           | Inr body \<Rightarrow>
               (case secret_headers env (ha_HeadersFrom h) [] of
                  Inl e \<Rightarrow> (s, Some e)
                | Inr headers \<Rightarrow>
                    (case follow_redirects env (has_secrets h) (url_host env (ha_URL h)) 0
                       \<lparr>rq_Method = (if ha_Method h = [] then ''POST'' else ha_Method h), rq_URL = ha_URL h, rq_Headers = headers, rq_Body = body\<rparr> s of
                       (s1, Inl e) \<Rightarrow> (s1, Some e)
                     | (s1, Inr code) \<Rightarrow> (s1, response_error code (ha_ExpectedStatus h))))))"

section \<open>wait\<close>

definition poll_interval :: duration where
  "poll_interval = 2 * Second"

text \<open>The polls after the first that fit before the deadline of the context and a limit of its own.\<close>

definition polls_within :: "('ast, 'p, 'w) verb_env \<Rightarrow> duration \<Rightarrow> nat" where
  "polls_within env limit =
     (let own = nat (limit div poll_interval) in case ve_deadline env of None \<Rightarrow> own | Some d \<Rightarrow> min d own)"

definition object_content :: "json \<Rightarrow> content" where
  "object_content obj = (case obj of JMap m \<Rightarrow> map_of m | _ \<Rightarrow> Map.empty)"

datatype poll_error = GetFailed | EvalFailed

fun poll_loop ::
  "('ast, 'p, 'w) verb_env \<Rightarrow> 'p \<Rightarrow> ObjectRef \<Rightarrow> nat \<Rightarrow> 'w \<Rightarrow> 'w \<times> poll_error option option" where
  "poll_loop env prog ref n w =
     (let r = (case ve_get env ref w of
                 None \<Rightarrow> Some (Some GetFailed)
               | Some obj \<Rightarrow>
                   (case EvalBool (ve_cel env) prog (object_content obj) of
                      None \<Rightarrow> Some (Some EvalFailed)
                    | Some True \<Rightarrow> None
                    | Some False \<Rightarrow> Some None))
      in case r of
           None \<Rightarrow> (w, None)
         | Some lastErr \<Rightarrow> (case n of 0 \<Rightarrow> (w, Some lastErr) | Suc m \<Rightarrow> poll_loop env prog ref m (ve_tick env w)))"

declare poll_loop.simps [simp del]

definition foldLastErr :: "poll_error option \<Rightarrow> exec_error" where
  "foldLastErr lastErr =
     ErrOther (case lastErr of
       None \<Rightarrow> ''context deadline exceeded''
     | Some GetFailed \<Rightarrow> ''context deadline exceeded (last error: get target)''
     | Some EvalFailed \<Rightarrow> ''context deadline exceeded (last error: evaluate expression)'')"

definition pollExpr ::
  "('ast, 'p, 'w) verb_env \<Rightarrow> ObjectKindReference \<Rightarrow> string \<Rightarrow> duration option \<Rightarrow> 'w verb_state \<Rightarrow> 'w verb_state \<times> exec_error option" where
  "pollExpr env t expr timeout s =
     (case Compile (ve_cel env) expr of
        None \<Rightarrow> (s, Some (ErrOther ''compile''))
      | Some prog \<Rightarrow>
          (case target_ref env (okr_APIVersion t) (okr_Kind t) (okr_Namespace t) (okr_Name t) of
             None \<Rightarrow> (s, Some (ErrOther ''target apiVersion''))
           | Some ref \<Rightarrow>
               (let limit = (case timeout of None \<Rightarrow> 5 * Minute | Some d \<Rightarrow> d) in
                case poll_loop env prog ref (polls_within env limit) (vs_world s) of
                  (w, r) \<Rightarrow> (s\<lparr>vs_world := w\<rparr>, map_option foldLastErr r))))"

text \<open>A fixed wait ends with its duration, or with the context when that ends first.\<close>

definition wait :: "('ast, 'p, 'w) verb_env \<Rightarrow> WaitAction \<Rightarrow> 'w verb_state \<Rightarrow> 'w verb_state \<times> exec_error option" where
  "wait env w s =
     (case wa_Duration w of
        Some d \<Rightarrow>
          (let full = nat (d div poll_interval); n = polls_within env d in
           (s\<lparr>vs_world := (ve_tick env ^^ n) (vs_world s)\<rparr>, if n < full then Some (ErrOther ''context deadline exceeded'') else None))
      | None \<Rightarrow>
          if wa_Expr w \<noteq> [] then
            (case wa_Target w of
               None \<Rightarrow> (s, Some (ErrOther ''wait with an expr requires a target''))
             | Some t \<Rightarrow> pollExpr env t (wa_Expr w) (wa_Timeout w) s)
          else (s, None))"

section \<open>job and apply\<close>

text \<open>The rendered objects of an artifact and its revision. Without a resolver and a fetcher the verb is not
  supported.\<close>

definition render_artifact ::
  "('ast, 'p, 'w) verb_env \<Rightarrow> SourceReference \<Rightarrow> string \<Rightarrow> exec_error + string \<times> json list" where
  "render_artifact env ref path =
     (case ve_Resolve env of
        None \<Rightarrow> Inl ErrActionUnsupported
      | Some resolve \<Rightarrow>
          (case ve_Fetch env of
             None \<Rightarrow> Inl ErrActionUnsupported
           | Some fetch \<Rightarrow>
               (case resolve ref (ve_ns env) of
                  Inl e \<Rightarrow> Inl (ErrOther ''resolve'')
                | Inr ra \<Rightarrow>
                    (case fetch (ra_URL ra) (ra_Digest ra) of
                       Inl e \<Rightarrow> Inl (ErrOther ''fetch'')
                     | Inr fs \<Rightarrow>
                         (case ve_Build env fs path of
                            None \<Rightarrow> Inl (ErrOther ''build'')
                          | Some objects \<Rightarrow> Inr (ra_Revision ra, objects))))))"

definition shortHash :: "(string \<Rightarrow> string) \<Rightarrow> string \<Rightarrow> string" where
  "shortHash sha256 text = take 8 (sha256 text)"

text \<open>A job object with its run-scoped name, in the run's namespace unless it has one.\<close>

definition run_object :: "('ast, 'p, 'w) verb_env \<Rightarrow> string \<Rightarrow> json \<Rightarrow> json" where
  "run_object env suffix obj =
     (let named = put_nested [''metadata'', ''name'']
            (JString (suffixName (nested_string [''metadata'', ''name''] obj) suffix)) obj
      in if nested_string [''metadata'', ''namespace''] named = []
         then put_nested [''metadata'', ''namespace''] (JString (ve_ns env)) named else named)"

text \<open>An object that exists already counts as created: an earlier run of the same revision made it.\<close>

fun create_all ::
  "('ast, 'p, 'w) verb_env \<Rightarrow> json list \<Rightarrow> ObjectRef list \<Rightarrow> 'w verb_state \<Rightarrow> 'w verb_state \<times> ObjectRef list \<times> exec_error option" where
  "create_all env [] created s = (s, created, None)"
| "create_all env (obj # objs) created s =
     (case ve_create env obj (vs_world s) of
        (w, r) \<Rightarrow>
          (let ref = object_ref (ve_gv env) obj; s1 = noted (SentCreate ref obj) w s in
           if r \<noteq> ApiOk \<and> r \<noteq> ApiExists then (s1, created, Some (ErrOther ''create job''))
           else create_all env objs (created @ [ref]) s1))"

definition cleanup_step :: "('ast, 'p, 'w) verb_env \<Rightarrow> ObjectRef \<Rightarrow> 'w verb_state \<Rightarrow> 'w verb_state" where
  "cleanup_step env ref s =
     (case ve_delete env ref ''Background'' (vs_world s) of (w, r) \<Rightarrow> noted (SentDelete ref ''Background'') w s)"

definition cleanupObjects :: "('ast, 'p, 'w) verb_env \<Rightarrow> ObjectRef list \<Rightarrow> 'w verb_state \<Rightarrow> 'w verb_state" where
  "cleanupObjects env refs s = fold (cleanup_step env) refs s"

fun job_conditions :: "json list \<Rightarrow> bool option" where
  "job_conditions [] = None"
| "job_conditions (JMap m # conds) =
     (let t = asString (map_of m ''type''); st = asString (map_of m ''status'') in
      if t = ''Complete'' \<and> st = ''True'' then Some True
      else if t = ''Failed'' \<and> st = ''True'' then Some False
      else job_conditions conds)"
| "job_conditions (c # conds) = job_conditions conds"

definition job_state :: "json \<Rightarrow> bool option" where
  "job_state obj = (case nested_slice [''status'', ''conditions''] obj of None \<Rightarrow> None | Some conds \<Rightarrow> job_conditions conds)"

text \<open>Poll one job; the polls left go to the next.\<close>

fun awaitJob :: "('ast, 'p, 'w) verb_env \<Rightarrow> ObjectRef \<Rightarrow> nat \<Rightarrow> 'w \<Rightarrow> 'w \<times> nat \<times> exec_error option" where
  "awaitJob env ref n w =
     (case (case ve_get env ref w of None \<Rightarrow> None | Some obj \<Rightarrow> job_state obj) of
        Some True \<Rightarrow> (w, n, None)
      | Some False \<Rightarrow> (w, n, Some (ErrOther ''job failed''))
      | None \<Rightarrow>
          (case n of
             0 \<Rightarrow> (w, 0, Some (ErrOther ''job did not complete''))
           | Suc m \<Rightarrow> awaitJob env ref m (ve_tick env w)))"

declare awaitJob.simps [simp del]

fun await_all :: "('ast, 'p, 'w) verb_env \<Rightarrow> ObjectRef list \<Rightarrow> nat \<Rightarrow> 'w \<Rightarrow> 'w \<times> exec_error option" where
  "await_all env [] n w = (w, None)"
| "await_all env (ref # refs) n w =
     (case awaitJob env ref n w of
        (w1, n1, Some e) \<Rightarrow> (w1, Some e)
      | (w1, n1, None) \<Rightarrow> await_all env refs n1 w1)"

definition job_polls :: "('ast, 'p, 'w) verb_env \<Rightarrow> nat" where
  "job_polls env = (case ve_deadline env of Some d \<Rightarrow> d | None \<Rightarrow> nat (10 * Minute div poll_interval))"

definition job :: "('ast, 'p, 'w) verb_env \<Rightarrow> JobAction \<Rightarrow> 'w verb_state \<Rightarrow> 'w verb_state \<times> exec_error option" where
  "job env j s =
     (case render_artifact env (ja_SourceRef j) (ja_Path j) of
        Inl e \<Rightarrow> (s, Some e)
      | Inr (revision, objects) \<Rightarrow>
          (let suffix = CHR ''-'' # shortHash (ve_sha256 env) revision in
           case create_all env (map (run_object env suffix) objects) [] s of
             (s1, created, Some e) \<Rightarrow> (cleanupObjects env created s1, Some e)
           | (s1, created, None) \<Rightarrow>
               (case await_all env created (job_polls env) (vs_world s1) of
                  (w, r) \<Rightarrow> (cleanupObjects env created (s1\<lparr>vs_world := w\<rparr>), r))))"

definition applyManifests :: "('ast, 'p, 'w) verb_env \<Rightarrow> Action \<Rightarrow> 'w verb_state \<Rightarrow> 'w verb_state \<times> exec_error option" where
  "applyManifests env a s =
     (case act_Apply a of
        None \<Rightarrow> (s, None)
      | Some ap \<Rightarrow>
          (case ve_Applier env of
             None \<Rightarrow> (s, Some ErrActionUnsupported)
           | Some applier \<Rightarrow>
               (case render_artifact env (aa_SourceRef ap) (aa_Path ap) of
                  Inl e \<Rightarrow> (s, Some e)
                | Inr (revision, objects) \<Rightarrow>
                    (let timeout = (case act_Timeout a of None \<Rightarrow> 5 * Minute | Some d \<Rightarrow> d) in
                     case applier objects (aa_Wait ap) timeout (vs_world s) of
                       (w, r) \<Rightarrow> (noted (SentApply objects (aa_Wait ap) timeout) w s, r)))))"

section \<open>The executor\<close>

definition executor_verbs :: "('ast, 'p, 'w) verb_env \<Rightarrow> 'w verb_state verbs" where
  "executor_verbs env =
     \<lparr>vb_patch = patch env, vb_http = httpCall env, vb_wait = wait env, vb_job = job env, vb_delete = deleteObject env,
      vb_apply = applyManifests env\<rparr>"

section \<open>Traces\<close>

text \<open>What a step adds to the trace.\<close>

definition adds :: "(verb_event list \<Rightarrow> bool) \<Rightarrow> 'w verb_state \<Rightarrow> 'w verb_state \<Rightarrow> bool" where
  "adds P s s' \<longleftrightarrow> (\<exists>es. vs_trace s' = vs_trace s @ es \<and> P es)"

lemma adds_nil [intro]: "P [] \<Longrightarrow> adds P s s" by (simp add: adds_def)

lemma vs_noted [simp]: "vs_trace (noted e w s) = vs_trace s @ [e]" "vs_world (noted e w s) = w" by (simp_all add: noted_def)

lemma cleanup_trace: "vs_trace (cleanupObjects env refs s) = vs_trace s @ map (\<lambda>ref. SentDelete ref ''Background'') refs"
  by (induction refs arbitrary: s) (simp_all add: cleanupObjects_def cleanup_step_def split: prod.split)

lemma create_all_trace:
  "create_all env objs created s = (s', created', r) \<Longrightarrow>
    \<exists>made failed rest. objs = made @ failed @ rest \<and> created' = created @ map (object_ref (ve_gv env)) made \<and>
      vs_trace s' = vs_trace s @ map (\<lambda>obj. SentCreate (object_ref (ve_gv env) obj) obj) (made @ failed) \<and>
      (if r = None then failed = [] \<and> rest = [] else length failed = 1)"
proof (induction objs arbitrary: created s)
  case (Cons obj objs)
  let ?ref = "object_ref (ve_gv env) obj"
  obtain w a where a: "ve_create env obj (vs_world s) = (w, a)" by fastforce
  show ?case
  proof (cases "a \<noteq> ApiOk \<and> a \<noteq> ApiExists")
    case True
    with Cons.prems a show ?thesis
      by (intro exI [of _ "[]"] exI [of _ "[obj]"] exI [of _ objs]) auto
  next
    case False
    with Cons.prems a have "create_all env objs (created @ [?ref]) (noted (SentCreate ?ref obj) w s) = (s', created', r)"
      by (auto simp: Let_def)
    from Cons.IH [OF this] obtain made failed rest where
      "objs = made @ failed @ rest" "created' = (created @ [?ref]) @ map (object_ref (ve_gv env)) made"
      "vs_trace s' = (vs_trace s @ [SentCreate ?ref obj]) @ map (\<lambda>obj. SentCreate (object_ref (ve_gv env) obj) obj) (made @ failed)"
      "if r = None then failed = [] \<and> rest = [] else length failed = 1" by auto
    then show ?thesis by (intro exI [of _ "obj # made"] exI [of _ failed] exI [of _ rest]) auto
  qed
qed simp

text \<open>C21: A job action leaves nothing behind. Whatever way it ends once the artifact is rendered, it has sent creations for
  its objects in order, stopping at the first that fails, and after them, as its last act, a background deletion of every
  object that was created or found, in the same order. Only when no creation failed can it succeed, and then all objects of
  the artifact were created. If the artifact cannot be rendered nothing is sent.\<close>

theorem job_cleans_up:
  assumes "job env j s = (s', r)"
  shows "case render_artifact env (ja_SourceRef j) (ja_Path j) of
     Inl e \<Rightarrow> s' = s \<and> r = Some e
   | Inr (revision, objects) \<Rightarrow>
       (\<exists>made failed rest.
          map (run_object env (CHR ''-'' # shortHash (ve_sha256 env) revision)) objects = made @ failed @ rest \<and>
          vs_trace s' = vs_trace s @ map (\<lambda>obj. SentCreate (object_ref (ve_gv env) obj) obj) (made @ failed) @
            map (\<lambda>obj. SentDelete (object_ref (ve_gv env) obj) ''Background'') made \<and>
          length failed \<le> 1 \<and> (r = None \<longrightarrow> failed = [] \<and> rest = []))"
proof (cases "render_artifact env (ja_SourceRef j) (ja_Path j)")
  case (Inl e)
  with assms show ?thesis by (simp add: job_def)
next
  case (Inr out)
  obtain revision objects where out: "out = (revision, objects)" by fastforce
  let ?objs = "map (run_object env (CHR ''-'' # shortHash (ve_sha256 env) revision)) objects"
  obtain s1 created c where c: "create_all env ?objs [] s = (s1, created, c)" by (metis prod_cases3)
  from create_all_trace [OF c] obtain made failed rest where
    d: "?objs = made @ failed @ rest" "created = map (object_ref (ve_gv env)) made"
      "vs_trace s1 = vs_trace s @ map (\<lambda>obj. SentCreate (object_ref (ve_gv env) obj) obj) (made @ failed)"
      "if c = None then failed = [] \<and> rest = [] else length failed = 1" by auto
  have trace: "vs_trace s' = vs_trace s1 @ map (\<lambda>ref. SentDelete ref ''Background'') created" and ok: "r = None \<Longrightarrow> c = None"
    using assms c by (auto simp: job_def Inr out Let_def cleanup_trace split: option.splits prod.splits)
  have all: "vs_trace s' = vs_trace s @ map (\<lambda>obj. SentCreate (object_ref (ve_gv env) obj) obj) (made @ failed) @
      map (\<lambda>obj. SentDelete (object_ref (ve_gv env) obj) ''Background'') made"
    unfolding trace d(2,3) by simp
  have few: "length failed \<le> 1" using d(4) by (auto split: if_splits)
  have full: "r = None \<longrightarrow> failed = [] \<and> rest = []" using d(4) ok by auto
  show ?thesis unfolding Inr out sum.case prod.case by (intro exI conjI) (fact d(1) all few full)+
qed

section \<open>Guarded requests\<close>

definition guarded :: "('ast, 'p, 'w) verb_env \<Rightarrow> bool \<Rightarrow> string \<Rightarrow> verb_event \<Rightarrow> bool" where
  "guarded env secrets orig e \<longleftrightarrow>
     (case e of
        SentRequest rq \<Rightarrow> allowed env (rq_URL rq) = None \<and> (secrets \<longrightarrow> url_host env (rq_URL rq) = orig)
      | _ \<Rightarrow> False)"

abbreviation at_most :: "(verb_event \<Rightarrow> bool) \<Rightarrow> nat \<Rightarrow> verb_event list \<Rightarrow> bool" where
  "at_most Q n es \<equiv> list_all Q es \<and> length es \<le> n"

lemma adds_trans:
  "adds (at_most Q m) s s1 \<Longrightarrow> adds (at_most Q n) s1 s2 \<Longrightarrow> adds (at_most Q (m + n)) s s2"
  by (fastforce simp: adds_def)

lemma adds_weaken: "adds (at_most Q m) s s' \<Longrightarrow> m \<le> n \<Longrightarrow> adds (at_most Q n) s s'"
  by (fastforce simp: adds_def)

lemma follow_redirects_guarded:
  "follow_redirects env hs orig via rq s = (s', r) \<Longrightarrow> allowed env (rq_URL rq) = None \<Longrightarrow>
   (hs \<Longrightarrow> url_host env (rq_URL rq) = orig) \<Longrightarrow> via < 10 \<Longrightarrow> adds (at_most (guarded env hs orig) (10 - via)) s s'"
proof (induction env hs orig via rq s arbitrary: s' r rule: follow_redirects.induct)
  case (1 env hs orig via rq s)
  obtain w a where a: "ve_transport env rq (vs_world s) = (w, a)" by fastforce
  let ?s1 = "noted (SentRequest rq) w s"
  have first: "adds (at_most (guarded env hs orig) 1) s ?s1" using 1(3,4) by (simp add: adds_def guarded_def)
  have stop: "s' = ?s1 \<or> (\<exists>code loc url. a = Inr (Redirected code loc) \<and> ve_reference env (rq_URL rq) loc = Some url \<and>
      CheckRedirect hs orig (allowed env url) (via + 1) (url_host env url) = Follow \<and>
      follow_redirects env hs orig (via + 1) (redirected code url rq) ?s1 = (s', r))"
    using 1(2) a by (subst (asm) follow_redirects.simps) (auto simp: Let_def split: sum.splits http_answer.splits option.splits redirect.splits)
  then show ?case
  proof (elim disjE exE conjE)
    assume "s' = ?s1"
    then show ?thesis using first 1(5) by (simp add: adds_weaken)
  next
    fix code loc url
    assume h: "a = Inr (Redirected code loc)" "ve_reference env (rq_URL rq) loc = Some url"
      "CheckRedirect hs orig (allowed env url) (via + 1) (url_host env url) = Follow"
      "follow_redirects env hs orig (via + 1) (redirected code url rq) ?s1 = (s', r)"
    from h(3) have ok: "allowed env url = None" "hs \<longrightarrow> url_host env url = orig" "via + 1 < 10"
      by (auto simp: CheckRedirect_def split: if_splits option.splits)
    have url: "rq_URL (redirected code url rq) = url" by (simp add: redirected_def)
    have "adds (at_most (guarded env hs orig) (10 - (via + 1))) ?s1 s'"
      using "1.IH" [OF a [symmetric] refl h(1) refl h(2,3,4)] ok url by simp
    from adds_trans [OF first this] show ?thesis
      by (rule adds_weaken) (use ok(3) in simp)
  qed
qed

lemma httpCall_guarded:
  assumes "httpCall env h s = (s', r)"
  shows "adds (at_most (guarded env (has_secrets h) (url_host env (ha_URL h))) 10) s s'"
proof (cases "s' = s")
  case True
  then show ?thesis by (simp add: adds_nil)
next
  case False
  then obtain body hs r' where ok: "allowed env (ha_URL h) = None"
    and f: "follow_redirects env (has_secrets h) (url_host env (ha_URL h)) 0
       \<lparr>rq_Method = (if ha_Method h = [] then ''POST'' else ha_Method h), rq_URL = ha_URL h, rq_Headers = hs, rq_Body = body\<rparr> s = (s', r')"
    using assms unfolding httpCall_def by (auto split: option.splits sum.splits prod.splits simp del: not_None_eq)
  from follow_redirects_guarded [OF f] ok show ?thesis by simp
qed

lemma attempts_adds:
  assumes "\<And>s. adds (at_most Q k) s (fst (act s))"
  shows "adds (at_most Q (k * n)) s (after_attempts act n s)"
proof (induction n)
  case 0
  then show ?case by (simp add: after_attempts_def adds_def)
next
  case (Suc n)
  from adds_trans [OF Suc assms] show ?case by (simp add: after_attempts_def add.commute)
qed

lemma exec_adds:
  assumes act: "\<And>s. adds (at_most Q k) s (fst (dispatch vb a s))"
  shows "adds (at_most Q (k * Suc (retries_of a))) s (fst (exec vb c a s))"
proof -
  obtain n where n: "n \<le> retries_of a" "exec vb c a s = dispatch vb a (after_attempts (dispatch vb a) n s)"
    using exec_loop_attempts [of 0 "retries_of a" "dispatch vb a" "c a" s] by (auto simp: exec_def)
  have "k * n + k \<le> k * Suc (retries_of a)" using n(1) by simp
  from adds_weaken [OF adds_trans [OF attempts_adds [OF act] act] this] show ?thesis unfolding n(2) .
qed

text \<open>C20: What an http action sends. Whatever the servers answer, an http action with its retries sends requests and nothing
  else, at most ten in each of its attempts; every one of them, redirected ones included, goes to a URL the guard allows,
  and when the action carries material from Secrets each goes to the host the action names.\<close>

theorem http_action_guarded:
  assumes "act_Patch a = None" "act_HTTP a = Some h" "exec (executor_verbs env) cancelled a s = (s', r)"
  shows "\<exists>es. vs_trace s' = vs_trace s @ es \<and> length es \<le> 10 * Suc (retries_of a) \<and>
    (\<forall>e\<in>set es. \<exists>rq. e = SentRequest rq \<and> allowed env (rq_URL rq) = None \<and>
      (has_secrets h \<longrightarrow> url_host env (rq_URL rq) = url_host env (ha_URL h)))"
proof -
  have "adds (at_most (guarded env (has_secrets h) (url_host env (ha_URL h))) 10) s (fst (dispatch (executor_verbs env) a s))" for s
    using httpCall_guarded [of env h s] assms(1,2) by (simp add: dispatch_def executor_verbs_def) (metis prod.collapse)
  from exec_adds [OF this, of s cancelled] assms(3) obtain es where
    es: "vs_trace s' = vs_trace s @ es" "list_all (guarded env (has_secrets h) (url_host env (ha_URL h))) es"
      "length es \<le> 10 * Suc (retries_of a)"
    by (auto simp: adds_def)
  have "\<exists>rq. e = SentRequest rq \<and> allowed env (rq_URL rq) = None \<and> (has_secrets h \<longrightarrow> url_host env (rq_URL rq) = url_host env (ha_URL h))"
    if "e \<in> set es" for e
  proof -
    have "guarded env (has_secrets h) (url_host env (ha_URL h)) e" using es(2) that by (simp add: list_all_iff)
    then show ?thesis unfolding guarded_def by (cases e) simp_all
  qed
  with es(1,3) show ?thesis by blast
qed

section \<open>Polling\<close>

text \<open>A poll for an expression succeeds exactly when one of its polls finds it to hold, at the first such; the number of
  polls is fixed beforehand.\<close>

definition satisfied :: "('ast, 'p, 'w) verb_env \<Rightarrow> 'p \<Rightarrow> ObjectRef \<Rightarrow> 'w \<Rightarrow> bool" where
  "satisfied env prog ref w \<longleftrightarrow> (\<exists>obj. ve_get env ref w = Some obj \<and> EvalBool (ve_cel env) prog (object_content obj) = Some True)"

lemma poll_loop_exact:
  "(snd (poll_loop env prog ref n w) = None \<longleftrightarrow> (\<exists>k\<le>n. satisfied env prog ref ((ve_tick env ^^ k) w))) \<and>
   (\<exists>k\<le>n. fst (poll_loop env prog ref n w) = (ve_tick env ^^ k) w \<and> (\<forall>i<k. \<not> satisfied env prog ref ((ve_tick env ^^ i) w)))"
proof (induction n arbitrary: w)
  case 0
  show ?case
    by (subst (1 2) poll_loop.simps) (auto simp: satisfied_def split: option.splits bool.splits)
next
  case (Suc n)
  show ?case
  proof (cases "satisfied env prog ref w")
    case True
    then have "poll_loop env prog ref (Suc n) w = (w, None)" by (subst poll_loop.simps) (auto simp: satisfied_def)
    then show ?thesis using True by (auto intro!: exI [of _ 0])
  next
    case False
    then have step: "poll_loop env prog ref (Suc n) w = poll_loop env prog ref n (ve_tick env w)"
      by (subst poll_loop.simps) (auto simp: satisfied_def split: option.split bool.split)
    have shift: "(ve_tick env ^^ Suc k) w = (ve_tick env ^^ k) (ve_tick env w)" for k
      by (simp add: funpow_Suc_right del: funpow.simps)
    have "(\<exists>k\<le>Suc n. satisfied env prog ref ((ve_tick env ^^ k) w)) \<longleftrightarrow>
        (\<exists>k\<le>n. satisfied env prog ref ((ve_tick env ^^ k) (ve_tick env w)))"
      using False shift by (metis Suc_le_mono funpow_0 not0_implies_Suc)
    moreover obtain k where k: "k \<le> n" "fst (poll_loop env prog ref n (ve_tick env w)) = (ve_tick env ^^ k) (ve_tick env w)"
        "\<forall>i<k. \<not> satisfied env prog ref ((ve_tick env ^^ i) (ve_tick env w))"
      using Suc.IH by blast
    moreover have "\<forall>i<Suc k. \<not> satisfied env prog ref ((ve_tick env ^^ i) w)"
      using k(3) False shift by (metis funpow_0 less_Suc_eq_0_disj)
    ultimately show ?thesis using Suc.IH [of "ve_tick env w"] shift
      by (simp add: step) (metis Suc_le_mono shift)
  qed
qed

section \<open>Names of job objects\<close>

text \<open>Two jobs of an artifact whose names agree as far as the suffix leaves room get one name: the second creation finds the
  first and counts as made.\<close>

lemma suffixName_collides:
  assumes "take (63 - length suffix) n1 = take (63 - length suffix) n2"
    and "63 - length suffix \<le> length n1" "63 - length suffix \<le> length n2"
  shows "suffixName n1 suffix = suffixName n2 suffix"
  using assms by (auto simp: suffixName_def Let_def)

section \<open>An example\<close>

text \<open>Two hosts, one of which redirects to the other; jobs that are there at once and complete after one poll.\<close>

definition demo_objects :: "json list" where
  "demo_objects = map (\<lambda>n. JMap [(''apiVersion'', JString ''batch/v1''), (''kind'', JString ''Job''),
     (''metadata'', JMap [(''name'', JString n)])]) [''one'', ''two'']"

definition demo_outside :: "(unit, unit, nat) verb_env" where
  "demo_outside =
     \<lparr>ve_ns = ''prod'', ve_gv = (\<lambda>v. Some ([], v)), ve_sha256 = (\<lambda>s. s), ve_deadline = Some 5,
      ve_cel = \<lparr>cel_compile = (\<lambda>_. None), cel_type = (\<lambda>_. []), cel_program = (\<lambda>_ _. None), cel_eval = (\<lambda>_ _. None)\<rparr>,
      ve_selector = (\<lambda>_. Some False), ve_list = (\<lambda>_ _ _. Some []), ve_patch = (\<lambda>_ _ _ w. (w, True)),
      ve_delete = (\<lambda>_ _ w. (w, ApiOk)), ve_create = (\<lambda>_ w. (w, ApiOk)),
      ve_get = (\<lambda>_ w. Some (JMap (if w = 0 then [] else [(''status'', JMap [(''conditions'',
        JList [JMap [(''type'', JString ''Complete''), (''status'', JString ''True'')]])])]))),
      ve_tick = Suc, ve_secret = (\<lambda>_. Some [''Token'' \<mapsto> ''hunter2'']),
      ve_url = (\<lambda>u. Some (''https'', u, u)), ve_reference = (\<lambda>_ loc. Some loc), ve_glob = (\<lambda>_ _. False),
      ve_forbidden = (\<lambda>_. False), ve_AllowedHosts = [],
      ve_transport = (\<lambda>rq w. (w, Inr (if rq_URL rq = ''a.example'' then Redirected 307 ''b.example'' else Answered 200))),
      ve_Resolve = Some (\<lambda>_ _. Inr \<lparr>ra_Namespace = ''prod'', ra_Name = ''jobs'', ra_URL = ''u'', ra_Revision = ''abcdefghij'',
        ra_Digest = [], ra_Verified = None, ra_Pinned = None\<rparr>),
      ve_Fetch = Some (\<lambda>_ _. Inr []), ve_Build = (\<lambda>_ _. Some demo_objects), ve_Applier = None\<rparr>"

definition demo_start :: "nat verb_state" where
  "demo_start = \<lparr>vs_world = 0, vs_trace = []\<rparr>"

definition demo_http :: "SecretKeyReference list \<Rightarrow> HTTPAction" where
  "demo_http refs = \<lparr>ha_URL = ''a.example'', ha_Method = [], ha_Body = [], ha_BodyFrom = None, ha_HeadersFrom = refs, ha_ExpectedStatus = []\<rparr>"

definition demo_notify :: "SecretKeyReference list \<Rightarrow> Action" where
  "demo_notify refs = (demo_action ''notify'')\<lparr>act_HTTP := Some (demo_http refs), act_Patch := None, act_Retries := None\<rparr>"

definition demo_sent :: "SecretKeyReference list \<Rightarrow> nat verb_state \<times> exec_error option" where
  "demo_sent refs = exec (executor_verbs demo_outside) (\<lambda>_ _. False) (demo_notify refs) demo_start"

lemma http_action_guarded_witness:
  "length (vs_trace (fst (demo_sent []))) = 2 \<and> snd (demo_sent []) = None \<and>
   (let refs = [\<lparr>skr_Name = ''s'', skr_Key = ''Token''\<rparr>] in
    length (vs_trace (fst (demo_sent refs))) = 1 \<and> snd (demo_sent refs) \<noteq> None \<and>
    (\<exists>es. vs_trace (fst (demo_sent refs)) = vs_trace demo_start @ es \<and> length es \<le> 10))"
proof -
  let ?refs = "[\<lparr>skr_Name = ''s'', skr_Key = ''Token''\<rparr>]"
  have plain: "length (vs_trace (fst (demo_sent []))) = 2 \<and> snd (demo_sent []) = None" by code_simp
  have refused: "length (vs_trace (fst (demo_sent ?refs))) = 1 \<and> snd (demo_sent ?refs) \<noteq> None" by code_simp
  have run: "exec (executor_verbs demo_outside) (\<lambda>_ _. False) (demo_notify ?refs) demo_start = (fst (demo_sent ?refs), snd (demo_sent ?refs))"
    by (simp add: demo_sent_def)
  have fields: "act_Patch (demo_notify ?refs) = None" "act_HTTP (demo_notify ?refs) = Some (demo_http ?refs)" "retries_of (demo_notify ?refs) = 0"
    by (simp_all add: demo_notify_def retries_of_def)
  from http_action_guarded [OF fields(1,2) run] have
    "\<exists>es. vs_trace (fst (demo_sent ?refs)) = vs_trace demo_start @ es \<and> length es \<le> 10" unfolding fields(3) by (elim exE conjE) (intro exI conjI, assumption, simp)
  with plain refused show ?thesis by simp
qed

definition demo_job :: JobAction where
  "demo_job = \<lparr>ja_SourceRef = \<lparr>src_APIVersion = [], src_Kind = [], src_Name = ''jobs'', src_Namespace = []\<rparr>, ja_Path = []\<rparr>"

lemma job_cleans_up_witness:
  "snd (job demo_outside demo_job demo_start) = None \<and> length (vs_trace (fst (job demo_outside demo_job demo_start))) = 4 \<and>
   (\<exists>made. vs_trace (fst (job demo_outside demo_job demo_start)) =
      map (\<lambda>obj. SentCreate (object_ref (ve_gv demo_outside) obj) obj) made @
      map (\<lambda>obj. SentDelete (object_ref (ve_gv demo_outside) obj) ''Background'') made)"
proof -
  let ?finish = "job demo_outside demo_job demo_start"
  have ok: "snd ?finish = None" and len: "length (vs_trace (fst ?finish)) = 4" by code_simp+
  have run: "job demo_outside demo_job demo_start = (fst ?finish, None)" using ok by (metis prod.collapse)
  have rendered: "render_artifact demo_outside (ja_SourceRef demo_job) (ja_Path demo_job) = Inr (''abcdefghij'', demo_objects)"
    by (simp add: render_artifact_def demo_outside_def)
  have start: "vs_trace demo_start = []" by (simp add: demo_start_def)
  from job_cleans_up [OF run] obtain made failed rest where
    "vs_trace (fst ?finish) = [] @ map (\<lambda>obj. SentCreate (object_ref (ve_gv demo_outside) obj) obj) (made @ failed) @
       map (\<lambda>obj. SentDelete (object_ref (ve_gv demo_outside) obj) ''Background'') made" "failed = []"
    unfolding rendered sum.case prod.case start by blast
  then have "vs_trace (fst ?finish) = map (\<lambda>obj. SentCreate (object_ref (ve_gv demo_outside) obj) obj) made @
      map (\<lambda>obj. SentDelete (object_ref (ve_gv demo_outside) obj) ''Background'') made" by simp
  with ok len show ?thesis by blast
qed

end
