(* ===== verification/CertRotation.thy ===== *)
theory CertRotation
  imports Types
begin

text \<open>
  The self-signed serving certificates of the webhook (\<open>internal/webhook/selfsigned\<close>): every replica makes a CA
  of its own, all replicas share one caBundle, and each rotates its certificate in place. A bundle is the
  list of its certificate blocks in canonical form; decoding PEM and reading a block's expiry are arguments.
  The replicas' steps interleave in a step relation; its invariant is that the API server trusts what each of
  them serves.
\<close>

section \<open>Bundles (renewer.go)\<close>

text \<open>When a block expires; none for a block that does not parse.\<close>

type_synonym 'c expiry = "'c \<Rightarrow> instant option"

definition certExpired :: "'c expiry \<Rightarrow> 'c \<Rightarrow> instant \<Rightarrow> bool" where
  "certExpired notAfter c now = (case notAfter c of None \<Rightarrow> False | Some t \<Rightarrow> \<not> now < t)"

fun keep_blocks :: "('c \<Rightarrow> bool) \<Rightarrow> 'c list \<Rightarrow> 'c list \<Rightarrow> 'c list" where
  "keep_blocks wanted [] out = out"
| "keep_blocks wanted (c # cs) out =
     (if c \<in> set out \<or> \<not> wanted c then keep_blocks wanted cs out else keep_blocks wanted cs (out @ [c]))"

definition mergeCABundle :: "'c expiry \<Rightarrow> 'c list \<Rightarrow> 'c list \<Rightarrow> 'c list \<Rightarrow> instant \<Rightarrow> 'c list" where
  "mergeCABundle notAfter current add remove now =
     keep_blocks (\<lambda>_. True) add (keep_blocks (\<lambda>c. c \<notin> set remove \<and> \<not> certExpired notAfter c now) current [])"

definition CombineCABundles :: "'c expiry \<Rightarrow> 'c list \<Rightarrow> 'c list \<Rightarrow> instant \<Rightarrow> 'c list" where
  "CombineCABundles notAfter oldCA newCA now = mergeCABundle notAfter oldCA newCA [] now"

lemma keep_blocks_set: "set (keep_blocks wanted cs out) = set out \<union> {c \<in> set cs. wanted c}"
  by (induction cs arbitrary: out) auto

lemma keep_blocks_distinct: "distinct out \<Longrightarrow> distinct (keep_blocks wanted cs out)"
  by (induction cs arbitrary: out) auto

text \<open>As a set operation: expired and superseded blocks go, the new ones are there, everything else stays. Two
  merges whose additions the other does not remove commute.\<close>

lemma mergeCABundle_set:
  "set (mergeCABundle notAfter current add remove now) =
     {c \<in> set current. c \<notin> set remove \<and> \<not> certExpired notAfter c now} \<union> set add"
  by (auto simp: mergeCABundle_def keep_blocks_set)

lemma mergeCABundle_distinct: "distinct (mergeCABundle notAfter current add remove now)"
  by (simp add: mergeCABundle_def keep_blocks_distinct)

lemma mergeCABundle_commutes:
  assumes "set a1 \<inter> set r2 = {}" "set a2 \<inter> set r1 = {}" "\<forall>c\<in>set a1 \<union> set a2. \<not> certExpired notAfter c now"
  shows "set (mergeCABundle notAfter (mergeCABundle notAfter b a1 r1 now) a2 r2 now) =
    set (mergeCABundle notAfter (mergeCABundle notAfter b a2 r2 now) a1 r1 now)"
  using assms unfolding mergeCABundle_set by blast

section \<open>Writing the bundle (patcher.go)\<close>

datatype update_error = UpdateNoEntries | UpdateEmptyBundle | UpdateRefused

text \<open>The entries of a configuration after a mutation of the first entry's bundle: \<open>None\<close> when nothing
  changes.\<close>

definition stamp_entries :: "('c list \<Rightarrow> 'c list) \<Rightarrow> 'c list list \<Rightarrow> update_error + 'c list list option" where
  "stamp_entries mutate entries =
     (if entries = [] then Inl UpdateNoEntries
      else let new = mutate (hd entries) in
        if new = [] then Inl UpdateEmptyBundle
        else if list_all (\<lambda>b. b = new) entries then Inr None
        else Inr (Some (map (\<lambda>_. new) entries)))"

datatype write_outcome = Landed | Conflicted | Throttled | Refused

definition isRetriableVWCError :: "write_outcome \<Rightarrow> bool" where
  "isRetriableVWCError r \<longleftrightarrow> r = Conflicted \<or> r = Throttled"

text \<open>The attempts of \<open>retry.OnError\<close>: what each reads (none when the read fails for good) and how its write ends.\<close>

fun UpdateVWCCABundle ::
  "('c list \<Rightarrow> 'c list) \<Rightarrow> ('c list list option \<times> write_outcome) list \<Rightarrow> update_error + 'c list list option" where
  "UpdateVWCCABundle mutate [] = Inl UpdateRefused"
| "UpdateVWCCABundle mutate ((got, outcome) # attempts) =
     (case got of
        None \<Rightarrow> Inl UpdateRefused
      | Some entries \<Rightarrow>
          (case stamp_entries mutate entries of
             Inl e \<Rightarrow> Inl e
           | Inr None \<Rightarrow> Inr None
           | Inr (Some entries') \<Rightarrow>
               if outcome = Landed then Inr (Some entries')
               else if isRetriableVWCError outcome then UpdateVWCCABundle mutate attempts
               else Inl UpdateRefused))"

text \<open>A write that landed is the mutation of what its own attempt had read, on every entry: with the conflict
  check of the API server, an atomic step.\<close>

lemma UpdateVWCCABundle_atomic:
  "UpdateVWCCABundle mutate attempts = Inr (Some entries') \<Longrightarrow>
    \<exists>entries. (Some entries, Landed) \<in> set attempts \<and> entries \<noteq> [] \<and> entries' = map (\<lambda>_. mutate (hd entries)) entries"
  by (induction mutate attempts rule: UpdateVWCCABundle.induct)
    (fastforce simp: stamp_entries_def Let_def split: option.splits sum.splits if_splits)+

section \<open>Replicas\<close>

text \<open>The certificate a pod serves is the one it loaded from its file. Between the union and the trim of a
  rotation it holds the new CA.\<close>

datatype 'c phase = Resting | Unioned 'c | Written 'c

record 'c pod =
  pd_served :: 'c
  pd_file :: 'c
  pd_CurrentCA :: 'c
  pd_stamped :: bool
  pd_phase :: "'c phase"

record 'c rotation =
  ro_bundle :: "'c list"
  ro_pods :: "string \<rightharpoonup> 'c pod"
  ro_used :: "'c set"
  ro_now :: instant

definition set_pod :: "string \<Rightarrow> 'c pod \<Rightarrow> 'c rotation \<Rightarrow> 'c rotation" where
  "set_pod p pod s = s\<lparr>ro_pods := (ro_pods s)(p \<mapsto> pod)\<rparr>"

text \<open>\<open>Generate\<close> makes a certificate no one has. A pod starts with its files written and stamps the bundle later, as
  often as it takes; only then does the renewer run. A rotation unions the new CA into the bundle, writes the
  files, waits while the server reloads them, and trims the CA it believes to be its old one; a failed write or trim
  ends it (\<open>abandon\<close>), and so does a failed union, which leaves no trace.\<close>

inductive rotation_step :: "'c expiry \<Rightarrow> 'c rotation \<Rightarrow> 'c rotation \<Rightarrow> bool" for notAfter where
  boot: "ro_pods s p = None \<Longrightarrow> c \<notin> ro_used s \<Longrightarrow>
    rotation_step notAfter s (set_pod p \<lparr>pd_served = c, pd_file = c, pd_CurrentCA = c, pd_stamped = False, pd_phase = Resting\<rparr>
      (s\<lparr>ro_used := insert c (ro_used s)\<rparr>))"
| stamp_bundle: "ro_pods s p = Some pod \<Longrightarrow> \<not> pd_stamped pod \<Longrightarrow>
    rotation_step notAfter s (set_pod p (pod\<lparr>pd_stamped := True\<rparr>)
      (s\<lparr>ro_bundle := CombineCABundles notAfter (ro_bundle s) [pd_CurrentCA pod] (ro_now s)\<rparr>))"
| union: "ro_pods s p = Some pod \<Longrightarrow> pd_stamped pod \<Longrightarrow> pd_phase pod = Resting \<Longrightarrow> c \<notin> ro_used s \<Longrightarrow>
    rotation_step notAfter s (set_pod p (pod\<lparr>pd_phase := Unioned c\<rparr>)
      (s\<lparr>ro_bundle := mergeCABundle notAfter (ro_bundle s) [c] [] (ro_now s), ro_used := insert c (ro_used s)\<rparr>))"
| write_files: "ro_pods s p = Some pod \<Longrightarrow> pd_phase pod = Unioned c \<Longrightarrow>
    rotation_step notAfter s (set_pod p (pod\<lparr>pd_file := c, pd_phase := Written c\<rparr>) s)"
| reload: "ro_pods s p = Some pod \<Longrightarrow>
    rotation_step notAfter s (set_pod p (pod\<lparr>pd_served := pd_file pod\<rparr>) s)"
| trim: "ro_pods s p = Some pod \<Longrightarrow> pd_phase pod = Written c \<Longrightarrow> pd_served pod = c \<Longrightarrow>
    rotation_step notAfter s (set_pod p (pod\<lparr>pd_CurrentCA := c, pd_phase := Resting\<rparr>)
      (s\<lparr>ro_bundle := mergeCABundle notAfter (ro_bundle s) [c] [pd_CurrentCA pod] (ro_now s)\<rparr>))"
| abandon: "ro_pods s p = Some pod \<Longrightarrow> rotation_step notAfter s (set_pod p (pod\<lparr>pd_phase := Resting\<rparr>) s)"
| stop: "rotation_step notAfter s (s\<lparr>ro_pods := (ro_pods s)(p := None)\<rparr>)"
| pass_time: "ro_now s \<le> t \<Longrightarrow> rotation_step notAfter s (s\<lparr>ro_now := t\<rparr>)"

inductive rotates :: "'c expiry \<Rightarrow> 'c rotation \<Rightarrow> 'c rotation \<Rightarrow> bool" for notAfter where
  rotates_refl: "rotates notAfter s s"
| rotates_step: "rotates notAfter s s' \<Longrightarrow> rotation_step notAfter s' s'' \<Longrightarrow> rotates notAfter s s''"

definition no_pods :: "'c list \<Rightarrow> instant \<Rightarrow> 'c rotation" where
  "no_pods bundle now = \<lparr>ro_bundle = bundle, ro_pods = Map.empty, ro_used = set bundle, ro_now = now\<rparr>"

section \<open>What is served is trusted\<close>

text \<open>The CAs a pod has a hand in.\<close>

definition owned :: "'c pod \<Rightarrow> 'c set" where
  "owned pod = {pd_served pod, pd_file pod, pd_CurrentCA pod} \<union>
     (case pd_phase pod of Resting \<Rightarrow> {} | Unioned c \<Rightarrow> {c} | Written c \<Rightarrow> {c})"

definition trusted :: "'c expiry \<Rightarrow> 'c rotation \<Rightarrow> 'c \<Rightarrow> bool" where
  "trusted notAfter s c \<longleftrightarrow> c \<in> set (ro_bundle s) \<or> certExpired notAfter c (ro_now s)"

definition pod_ok :: "'c expiry \<Rightarrow> 'c rotation \<Rightarrow> 'c pod \<Rightarrow> bool" where
  "pod_ok notAfter s pod \<longleftrightarrow>
     owned pod \<subseteq> ro_used s \<and>
     (if pd_stamped pod
      then trusted notAfter s (pd_served pod) \<and> trusted notAfter s (pd_file pod)
      else pd_phase pod = Resting \<and> pd_served pod = pd_CurrentCA pod \<and> pd_file pod = pd_CurrentCA pod) \<and>
     (case pd_phase pod of
        Resting \<Rightarrow> True
      | Unioned c \<Rightarrow> trusted notAfter s c \<and> c \<noteq> pd_CurrentCA pod
      | Written c \<Rightarrow> pd_file pod = c \<and> c \<noteq> pd_CurrentCA pod)"

definition rotation_ok :: "'c expiry \<Rightarrow> 'c rotation \<Rightarrow> bool" where
  "rotation_ok notAfter s \<longleftrightarrow>
     (\<forall>p pod. ro_pods s p = Some pod \<longrightarrow> pod_ok notAfter s pod) \<and>
     (\<forall>p q pod pod'. p \<noteq> q \<longrightarrow> ro_pods s p = Some pod \<longrightarrow> ro_pods s q = Some pod' \<longrightarrow> owned pod \<inter> owned pod' = {})"

lemma set_pod_simps [simp]:
  "trusted notAfter (set_pod p pod s) c = trusted notAfter s c" "ro_used (set_pod p pod s) = ro_used s"
  by (simp_all add: trusted_def set_pod_def)

lemma rotation_okI:
  assumes "\<And>p pod. ro_pods s p = Some pod \<Longrightarrow> pod_ok notAfter s pod"
    and "\<And>p q pod pod'. p \<noteq> q \<Longrightarrow> ro_pods s p = Some pod \<Longrightarrow> ro_pods s q = Some pod' \<Longrightarrow> owned pod \<inter> owned pod' = {}"
  shows "rotation_ok notAfter s"
  using assms unfolding rotation_ok_def by blast

text \<open>A step that changes one pod and the bundle: the pod itself is shown to be well, the others keep what they own.\<close>

lemma rotation_ok_set_pod:
  assumes ok: "rotation_ok notAfter s"
    and pods: "ro_pods s' = ro_pods s"
    and used: "ro_used s \<subseteq> ro_used s'"
    and mine: "pod_ok notAfter s' pod'" "owned pod' \<subseteq> (case ro_pods s p of None \<Rightarrow> {} | Some pod \<Rightarrow> owned pod) \<union> (- ro_used s)"
    and others: "\<And>q pod c. q \<noteq> p \<Longrightarrow> ro_pods s q = Some pod \<Longrightarrow> c \<in> owned pod \<Longrightarrow> trusted notAfter s c \<Longrightarrow> trusted notAfter s' c"
  shows "rotation_ok notAfter (set_pod p pod' s')"
proof (rule rotation_okI)
  have same: "pod_ok notAfter (set_pod p pod' s') x = pod_ok notAfter s' x" for x
    by (cases "pd_phase x") (simp_all add: pod_ok_def)
  have owned_used: "owned x \<subseteq> ro_used s" if "ro_pods s q = Some x" for q x
    using ok that by (auto simp: rotation_ok_def pod_ok_def)
  fix q x assume "ro_pods (set_pod p pod' s') q = Some x"
  then have q: "if q = p then x = pod' else ro_pods s q = Some x" by (auto simp: set_pod_def pods split: if_splits)
  show "pod_ok notAfter (set_pod p pod' s') x"
  proof (cases "q = p")
    case True
    with q mine(1) show ?thesis by (simp add: same)
  next
    case False
    with q have x: "ro_pods s q = Some x" by simp
    with ok have "pod_ok notAfter s x" by (auto simp: rotation_ok_def)
    then show ?thesis using used others [OF False x]
      by (cases "pd_phase x") (auto simp: same pod_ok_def owned_def split: if_splits)
  qed
next
  have owned_used: "owned x \<subseteq> ro_used s" if "ro_pods s q = Some x" for q x
    using ok that by (auto simp: rotation_ok_def pod_ok_def)
  have apart: "owned pod' \<inter> owned x = {}" if "q \<noteq> p" "ro_pods s q = Some x" for q x
    using that mine(2) ok owned_used [OF that(2)] by (fastforce simp: rotation_ok_def split: option.splits)
  fix q r x y
  assume "q \<noteq> r" "ro_pods (set_pod p pod' s') q = Some x" "ro_pods (set_pod p pod' s') r = Some y"
  then consider "q = p" "r \<noteq> p" "x = pod'" "ro_pods s r = Some y" | "r = p" "q \<noteq> p" "y = pod'" "ro_pods s q = Some x"
    | "q \<noteq> p" "r \<noteq> p" "ro_pods s q = Some x" "ro_pods s r = Some y"
    by (auto simp: set_pod_def pods split: if_splits)
  then show "owned x \<inter> owned y = {}"
  proof cases
    case 3
    with \<open>q \<noteq> r\<close> ok show ?thesis by (auto simp: rotation_ok_def)
  qed (use apart in blast)+
qed

lemma trusted_merge:
  "trusted notAfter s c \<Longrightarrow> c \<notin> set remove \<Longrightarrow>
    trusted notAfter (s\<lparr>ro_bundle := mergeCABundle notAfter (ro_bundle s) add remove (ro_now s)\<rparr>) c"
  by (auto simp: trusted_def mergeCABundle_set)

lemma trusted_added:
  "c \<in> set add \<Longrightarrow> trusted notAfter (s\<lparr>ro_bundle := mergeCABundle notAfter (ro_bundle s) add remove (ro_now s)\<rparr>) c"
  by (simp add: trusted_def mergeCABundle_set)

lemma trusted_used [simp]: "trusted notAfter (s\<lparr>ro_used := u\<rparr>) c = trusted notAfter s c"
  by (simp add: trusted_def)

lemma rotation_step_ok:
  assumes "rotation_step notAfter s s'" "rotation_ok notAfter s"
  shows "rotation_ok notAfter s'"
  using assms
proof (induction rule: rotation_step.induct)
  case (boot s p c)
  show ?case
    by (rule rotation_ok_set_pod [OF boot(3)]) (use boot in \<open>auto simp: pod_ok_def owned_def\<close>)
next
  case (stamp_bundle s p pod)
  then have pod: "pod_ok notAfter s pod" by (auto simp: rotation_ok_def)
  show ?case
    by (rule rotation_ok_set_pod [OF stamp_bundle(3)])
      (use stamp_bundle(1,2) pod in \<open>auto simp: pod_ok_def owned_def CombineCABundles_def trusted_added intro: trusted_merge\<close>)
next
  case (union s p pod c)
  then have pod: "pod_ok notAfter s pod" by (auto simp: rotation_ok_def)
  let ?s = "s\<lparr>ro_bundle := mergeCABundle notAfter (ro_bundle s) [c] [] (ro_now s), ro_used := insert c (ro_used s)\<rparr>"
  have merged: "trusted notAfter s x \<Longrightarrow> trusted notAfter ?s x" "trusted notAfter ?s c" for x
    by (auto simp: trusted_def mergeCABundle_set)
  show ?case
    by (rule rotation_ok_set_pod [OF union(5)]) (use union(1-4) pod merged in \<open>auto simp: pod_ok_def owned_def\<close>)
next
  case (write_files s p pod c)
  then have pod: "pod_ok notAfter s pod" by (auto simp: rotation_ok_def)
  show ?case
    by (rule rotation_ok_set_pod [OF write_files(3)]) (use write_files(1,2) pod in \<open>auto simp: pod_ok_def owned_def split: if_splits\<close>)
next
  case (reload s p pod)
  then have pod: "pod_ok notAfter s pod" by (auto simp: rotation_ok_def)
  show ?case
    by (rule rotation_ok_set_pod [OF reload(2)])
      (use reload(1) pod in \<open>auto simp: pod_ok_def owned_def split: if_splits phase.splits\<close>)
next
  case (trim s p pod c)
  then have pod: "pod_ok notAfter s pod" by (auto simp: rotation_ok_def)
  have others: "c' \<noteq> pd_CurrentCA pod" if "q \<noteq> p" "ro_pods s q = Some x" "c' \<in> owned x" for q x c'
  proof -
    have "owned pod \<inter> owned x = {}" using that(1,2) trim(1,4) unfolding rotation_ok_def by blast
    moreover have "pd_CurrentCA pod \<in> owned pod" by (simp add: owned_def)
    ultimately show ?thesis using that(3) by blast
  qed
  show ?case
    by (rule rotation_ok_set_pod [OF trim(4)])
      (use trim(1-3) pod others in \<open>auto simp: pod_ok_def owned_def trusted_added intro!: trusted_merge\<close>)
next
  case (abandon s p pod)
  then have pod: "pod_ok notAfter s pod" by (auto simp: rotation_ok_def)
  show ?case
    by (rule rotation_ok_set_pod [OF abandon(2)])
      (use abandon(1) pod in \<open>auto simp: pod_ok_def owned_def split: if_splits phase.splits\<close>)
next
  case (stop s p)
  have "pod_ok notAfter (s\<lparr>ro_pods := (ro_pods s)(p := None)\<rparr>) x = pod_ok notAfter s x" for x
    by (simp add: pod_ok_def trusted_def split: phase.split)
  with stop show ?case by (auto simp: rotation_ok_def split: if_splits)
next
  case (pass_time s t)
  have later: "trusted notAfter (s\<lparr>ro_now := t\<rparr>) c" if "trusted notAfter s c" for c
    using that pass_time(1) by (auto simp: trusted_def certExpired_def split: option.splits)
  show ?case using pass_time(2) later
    by (auto simp: rotation_ok_def pod_ok_def split: phase.splits if_splits)
qed

lemma rotates_ok: "rotates notAfter s s' \<Longrightarrow> rotation_ok notAfter s \<Longrightarrow> rotation_ok notAfter s'"
  by (induction rule: rotates.induct) (auto intro: rotation_step_ok)

text \<open>C24: The API server trusts every replica. Whatever order the replicas boot, stamp, rotate, fail and stop in, from
  any bundle and with certificates that are never made twice, a pod whose CA has been stamped serves a certificate whose CA is
  in the shared bundle or has expired; so do the files it will load next. A rotation of one replica never takes the trust
  of another, provided the server has reloaded its files before the trim, as the guard delay is to ensure.\<close>

theorem rotation_keeps_trust:
  assumes "rotates notAfter (no_pods bundle start) s" "ro_pods s p = Some pod" "pd_stamped pod"
  shows "(pd_served pod \<in> set (ro_bundle s) \<or> certExpired notAfter (pd_served pod) (ro_now s)) \<and>
    (pd_file pod \<in> set (ro_bundle s) \<or> certExpired notAfter (pd_file pod) (ro_now s))"
proof -
  have "rotation_ok notAfter (no_pods bundle start)" by (simp add: rotation_ok_def no_pods_def)
  with assms(1) have "rotation_ok notAfter s" by (rule rotates_ok)
  with assms(2) have "pod_ok notAfter s pod" by (auto simp: rotation_ok_def)
  with assms(3) show ?thesis by (simp add: pod_ok_def trusted_def)
qed

text \<open>One replica rotates twice, and the trim of the first rotation fails: its second certificate is superseded but stays in
  the bundle, for the trim removes the CA before it.\<close>

definition demo_pod :: "nat \<Rightarrow> nat \<Rightarrow> nat \<Rightarrow> bool \<Rightarrow> nat phase \<Rightarrow> nat pod" where
  "demo_pod served file current stamped ph =
     \<lparr>pd_served = served, pd_file = file, pd_CurrentCA = current, pd_stamped = stamped, pd_phase = ph\<rparr>"

definition demo_rotation :: "nat list \<Rightarrow> nat pod \<Rightarrow> nat set \<Rightarrow> nat rotation" where
  "demo_rotation bundle pod used = \<lparr>ro_bundle = bundle, ro_pods = [''a'' \<mapsto> pod], ro_used = used, ro_now = 0\<rparr>"

lemma demo_steps:
  fixes notAfter :: "nat expiry"
  assumes "notAfter = (\<lambda>_. None)"
  shows "rotates notAfter (no_pods [] 0) (demo_rotation [1, 2] (demo_pod 2 2 2 True Resting) {0, 1, 2})"
proof -
  let ?p = "\<lambda>x y z. demo_pod x y z True"
  have merge: "mergeCABundle notAfter b a r now = keep_blocks (\<lambda>_. True) a (keep_blocks (\<lambda>c. c \<notin> set r) b [])" for b a r now
    by (simp add: mergeCABundle_def certExpired_def assms)
  note eval = demo_rotation_def demo_pod_def set_pod_def no_pods_def merge CombineCABundles_def insert_commute
  have steps:
    "rotation_step notAfter (no_pods [] 0) (demo_rotation [] (demo_pod 0 0 0 False Resting) {0})"
    "rotation_step notAfter (demo_rotation [] (demo_pod 0 0 0 False Resting) {0}) (demo_rotation [0] (?p 0 0 0 Resting) {0})"
    "rotation_step notAfter (demo_rotation [0] (?p 0 0 0 Resting) {0}) (demo_rotation [0, 1] (?p 0 0 0 (Unioned 1)) {0, 1})"
    "rotation_step notAfter (demo_rotation [0, 1] (?p 0 0 0 (Unioned 1)) {0, 1}) (demo_rotation [0, 1] (?p 0 1 0 (Written 1)) {0, 1})"
    "rotation_step notAfter (demo_rotation [0, 1] (?p 0 1 0 (Written 1)) {0, 1}) (demo_rotation [0, 1] (?p 1 1 0 (Written 1)) {0, 1})"
    "rotation_step notAfter (demo_rotation [0, 1] (?p 1 1 0 (Written 1)) {0, 1}) (demo_rotation [0, 1] (?p 1 1 0 Resting) {0, 1})"
    "rotation_step notAfter (demo_rotation [0, 1] (?p 1 1 0 Resting) {0, 1}) (demo_rotation [0, 1, 2] (?p 1 1 0 (Unioned 2)) {0, 1, 2})"
    "rotation_step notAfter (demo_rotation [0, 1, 2] (?p 1 1 0 (Unioned 2)) {0, 1, 2}) (demo_rotation [0, 1, 2] (?p 1 2 0 (Written 2)) {0, 1, 2})"
    "rotation_step notAfter (demo_rotation [0, 1, 2] (?p 1 2 0 (Written 2)) {0, 1, 2}) (demo_rotation [0, 1, 2] (?p 2 2 0 (Written 2)) {0, 1, 2})"
    "rotation_step notAfter (demo_rotation [0, 1, 2] (?p 2 2 0 (Written 2)) {0, 1, 2}) (demo_rotation [1, 2] (?p 2 2 2 Resting) {0, 1, 2})"
    using boot [of "no_pods [] 0" "''a''" 0 notAfter]
      stamp_bundle [of "demo_rotation [] (demo_pod 0 0 0 False Resting) {0}" "''a''" "demo_pod 0 0 0 False Resting" notAfter]
      union [of "demo_rotation [0] (?p 0 0 0 Resting) {0}" "''a''" "?p 0 0 0 Resting" 1 notAfter]
      write_files [of "demo_rotation [0, 1] (?p 0 0 0 (Unioned 1)) {0, 1}" "''a''" "?p 0 0 0 (Unioned 1)" 1 notAfter]
      reload [of "demo_rotation [0, 1] (?p 0 1 0 (Written 1)) {0, 1}" "''a''" "?p 0 1 0 (Written 1)" notAfter]
      abandon [of "demo_rotation [0, 1] (?p 1 1 0 (Written 1)) {0, 1}" "''a''" "?p 1 1 0 (Written 1)" notAfter]
      union [of "demo_rotation [0, 1] (?p 1 1 0 Resting) {0, 1}" "''a''" "?p 1 1 0 Resting" 2 notAfter]
      write_files [of "demo_rotation [0, 1, 2] (?p 1 1 0 (Unioned 2)) {0, 1, 2}" "''a''" "?p 1 1 0 (Unioned 2)" 2 notAfter]
      reload [of "demo_rotation [0, 1, 2] (?p 1 2 0 (Written 2)) {0, 1, 2}" "''a''" "?p 1 2 0 (Written 2)" notAfter]
      trim [of "demo_rotation [0, 1, 2] (?p 2 2 0 (Written 2)) {0, 1, 2}" "''a''" "?p 2 2 0 (Written 2)" 2 notAfter]
    by (simp_all add: eval)
  show ?thesis by (rule rotates_refl [THEN rotates_step, OF steps(1), THEN rotates_step, OF steps(2), THEN rotates_step, OF steps(3),
      THEN rotates_step, OF steps(4), THEN rotates_step, OF steps(5), THEN rotates_step, OF steps(6), THEN rotates_step, OF steps(7),
      THEN rotates_step, OF steps(8), THEN rotates_step, OF steps(9), THEN rotates_step, OF steps(10)])
qed

lemma rotation_keeps_trust_witness:
  "\<exists>s :: nat rotation. rotates (\<lambda>_. None) (no_pods [] 0) s \<and> ro_pods s ''a'' = Some (demo_pod 2 2 2 True Resting) \<and>
     2 \<in> set (ro_bundle s) \<and> 1 \<in> set (ro_bundle s)"
proof -
  let ?s = "demo_rotation [1, 2] (demo_pod 2 2 2 True Resting) {0, 1, 2}"
  have run: "rotates (\<lambda>_. None) (no_pods [] 0) ?s" by (rule demo_steps [OF refl])
  have pod: "ro_pods ?s ''a'' = Some (demo_pod 2 2 2 True Resting)" by (simp add: demo_rotation_def)
  have stamped: "pd_stamped (demo_pod 2 2 2 True Resting)" by (simp add: demo_pod_def)
  from rotation_keeps_trust [OF run pod stamped] have "2 \<in> set (ro_bundle ?s)" by (simp add: demo_pod_def certExpired_def)
  moreover have "1 \<in> set (ro_bundle ?s)" by (simp add: demo_rotation_def)
  ultimately show ?thesis using run pod by blast
qed

end
