(* ===== verification/MetricQuery.thy ===== *)
theory MetricQuery
  imports Promotion Json
begin

text \<open>
  Reading one number from a metric source (\<open>internal/metricsource/metricsource.go\<close>): the Prometheus and webhook
  queries with their host allow list, bearer token and redirect policy, the reduction of the answer to a scalar,
  and the comparison with a threshold on floating-point values with NaN and infinities. URL parsing, the HTTP
  transport (which dials through the address check), JSON, JSONPath and \<open>ParseFloat\<close> are arguments.
\<close>

section \<open>Floating-point values\<close>

datatype 'v float64 = NaN | MinusInf | PlusInf | Finite 'v

text \<open>The order of IEEE comparisons: nothing holds of NaN.\<close>

fun float_less :: "'v :: linorder float64 \<Rightarrow> 'v float64 \<Rightarrow> bool" where
  "float_less (Finite a) (Finite b) = (a < b)"
| "float_less MinusInf PlusInf = True"
| "float_less MinusInf (Finite b) = True"
| "float_less (Finite a) PlusInf = True"
| "float_less _ _ = False"

definition float_threshold :: "(string \<Rightarrow> 'v :: linorder float64 option) \<Rightarrow> Threshold \<Rightarrow> 'v float64 \<Rightarrow> string + bool" where
  "float_threshold parse th value =
     (let below = (case thr_Min th of None \<Rightarrow> Inr False
            | Some s \<Rightarrow> (case parse s of None \<Rightarrow> Inl (''threshold min is not a number'') | Some m \<Rightarrow> Inr (float_less value m)));
          above = (case thr_Max th of None \<Rightarrow> Inr False
            | Some s \<Rightarrow> (case parse s of None \<Rightarrow> Inl (''threshold max is not a number'') | Some m \<Rightarrow> Inr (float_less m value)))
      in bind_result below (\<lambda>b. if b then Inr False else bind_result above (\<lambda>a. Inr (\<not> a))))"

text \<open>On finite values and bounds this is the comparison the promotion gate is modelled with.\<close>

lemma float_threshold_finite:
  assumes "\<And>s. parse s = map_option Finite (parse' s)"
  shows "float_threshold parse th (Finite v) = ThresholdSatisfied parse' th v"
  by (cases "thr_Min th"; cases "thr_Max th") (auto simp: float_threshold_def ThresholdSatisfied_def assms split: option.splits)

text \<open>A bound that parses to NaN bounds nothing.\<close>

lemma nan_bound_is_none:
  assumes "parse s = Some NaN"
  shows "float_threshold parse \<lparr>thr_Min = Some s, thr_Max = None\<rparr> x = Inr True"
    and "float_threshold parse \<lparr>thr_Min = None, thr_Max = Some s\<rparr> x = Inr True"
proof -
  have "\<not> float_less x NaN" "\<not> float_less NaN x" by (cases x; simp)+
  then show "float_threshold parse \<lparr>thr_Min = Some s, thr_Max = None\<rparr> x = Inr True"
    "float_threshold parse \<lparr>thr_Min = None, thr_Max = Some s\<rparr> x = Inr True"
    using assms by (simp_all add: float_threshold_def)
qed

section \<open>The query\<close>

record url =
  url_Scheme :: string
  url_Host :: string
  url_Hostname :: string
  url_Path :: string
  url_RawQuery :: string

record metric_request =
  mr_URL :: url
  mr_Authorization :: "string option"

datatype metric_answer = MovedTo url | Replied int string

datatype query_error = SourceUnavailable | NoSource

record promResponse =
  pr_Status :: string
  pr_ResultType :: string
  pr_Result :: json

record ('w, 'v) querier =
  mq_url :: "string \<Rightarrow> url option"
  mq_escape :: "string \<Rightarrow> string"
  mq_glob :: "string \<Rightarrow> string \<Rightarrow> bool"
  mq_AllowedHosts :: "string list"
  mq_Secrets :: "(string \<Rightarrow> string \<Rightarrow> string \<Rightarrow> (string \<rightharpoonup> string) option) option"
  mq_transport :: "metric_request \<Rightarrow> 'w \<Rightarrow> 'w \<times> metric_answer option"
  mq_prometheus :: "string \<Rightarrow> promResponse option"
  mq_json :: "string \<Rightarrow> json option"
  mq_jsonpath :: "string \<Rightarrow> json \<Rightarrow> json list option"
  mq_ParseFloat :: "string \<Rightarrow> 'v float64 option"
  mq_trim :: "string \<Rightarrow> string"

definition allowedHost :: "('w, 'v) querier \<Rightarrow> string \<Rightarrow> bool" where
  "allowedHost q host \<longleftrightarrow> mq_AllowedHosts q = [] \<or> list_ex (\<lambda>pattern. mq_glob q pattern (trim_suffix host ''.'')) (mq_AllowedHosts q)"

definition maxRedirects :: nat where
  "maxRedirects = 10"

text \<open>\<open>orig\<close> is the first request of the chain, \<open>via\<close> the number of requests made.\<close>

definition checkRedirect :: "('w, 'v) querier \<Rightarrow> metric_request \<Rightarrow> nat \<Rightarrow> url \<Rightarrow> bool" where
  "checkRedirect q orig via url \<longleftrightarrow>
     via < maxRedirects \<and> allowedHost q (url_Hostname url) \<and>
     (mr_Authorization orig \<noteq> None \<longrightarrow> url_Host url = url_Host (mr_URL orig))"

definition maxBodyBytes :: int where
  "maxBodyBytes = 1048576"

text \<open>\<open>fetch\<close>: the requests it made, in order, and the body. The header stays on the redirects that are followed, for
  they keep the host.\<close>

function fetch_loop ::
  "('w, 'v) querier \<Rightarrow> metric_request \<Rightarrow> nat \<Rightarrow> metric_request \<Rightarrow> 'w \<Rightarrow> 'w \<times> metric_request list \<times> string option" where
  "fetch_loop q orig via rq w =
     (case mq_transport q rq w of
        (w1, None) \<Rightarrow> (w1, [rq], None)
      | (w1, Some (Replied code body)) \<Rightarrow>
          (w1, [rq], if code < 200 \<or> 300 \<le> code then None else if int (length body) > maxBodyBytes then None else Some body)
      | (w1, Some (MovedTo url)) \<Rightarrow>
          if \<not> checkRedirect q orig (Suc via) url then (w1, [rq], None)
          else (case fetch_loop q orig (Suc via) (rq\<lparr>mr_URL := url\<rparr>) w1 of (w2, rqs, r) \<Rightarrow> (w2, rq # rqs, r)))"
  by pat_completeness auto
termination
  by (relation "measure (\<lambda>(q, orig, via, rq, w). maxRedirects - via)") (auto simp: checkRedirect_def)

declare fetch_loop.simps [simp del]

definition applyBearer :: "('w, 'v) querier \<Rightarrow> string \<Rightarrow> string \<Rightarrow> string option \<Rightarrow> string option option" where
  "applyBearer q namespace serviceAccount ref =
     (case ref of
        None \<Rightarrow> Some None
      | Some name \<Rightarrow>
          if name = [] then Some None
          else (case mq_Secrets q of
             None \<Rightarrow> None
           | Some read \<Rightarrow>
               (case read namespace serviceAccount name of
                  None \<Rightarrow> None
                | Some data \<Rightarrow>
                    (case data ''token'' of
                       None \<Rightarrow> None
                     | Some token \<Rightarrow> if token = [] then None else Some (Some (''Bearer '' @ token))))))"

definition finite_value :: "'v float64 option \<Rightarrow> 'v option" where
  "finite_value r = (case r of Some (Finite v) \<Rightarrow> Some v | _ \<Rightarrow> None)"

text \<open>A sample is a pair of a time and a string; a longer list is cut, a shorter one has no value.\<close>

definition sampleValue :: "('w, 'v) querier \<Rightarrow> json \<Rightarrow> 'v option" where
  "sampleValue q v =
     (case v of JList (t # JString s # rest) \<Rightarrow> finite_value (mq_ParseFloat q s) | _ \<Rightarrow> None)"

definition scalarFromResult :: "('w, 'v) querier \<Rightarrow> promResponse \<Rightarrow> 'v option" where
  "scalarFromResult q pr =
     (if pr_ResultType pr = ''scalar'' then sampleValue q (pr_Result pr)
      else if pr_ResultType pr = ''vector'' then
        (case pr_Result pr of
           JList [JMap m] \<Rightarrow> (case map_of m ''value'' of None \<Rightarrow> None | Some v \<Rightarrow> sampleValue q v)
         | _ \<Rightarrow> None)
      else None)"

definition toScalar :: "('w, 'v) querier \<Rightarrow> json \<Rightarrow> 'v option" where
  "toScalar q v =
     (case v of
        JOther t \<Rightarrow> finite_value (mq_ParseFloat q t)
      | JString s \<Rightarrow> finite_value (mq_ParseFloat q (mq_trim q s))
      | _ \<Rightarrow> None)"

definition scalarFromJSONPath :: "('w, 'v) querier \<Rightarrow> json \<Rightarrow> string \<Rightarrow> 'v option" where
  "scalarFromJSONPath q doc expr =
     (case mq_jsonpath q expr doc of Some [v] \<Rightarrow> toScalar q v | _ \<Rightarrow> None)"

definition endpoint_ok :: "('w, 'v) querier \<Rightarrow> string \<Rightarrow> url option" where
  "endpoint_ok q address =
     (case mq_url q address of
        None \<Rightarrow> None
      | Some url \<Rightarrow>
          if url_Host url = [] \<or> url_Scheme url \<notin> {''http'', ''https''} then None
          else if \<not> allowedHost q (url_Hostname url) then None else Some url)"

definition run_query ::
  "('w, 'v) querier \<Rightarrow> string \<Rightarrow> string \<Rightarrow> string option \<Rightarrow> url option \<Rightarrow> (string \<Rightarrow> 'v option) \<Rightarrow> 'w
   \<Rightarrow> 'w \<times> metric_request list \<times> (query_error + 'v)" where
  "run_query q namespace serviceAccount ref endpoint read w =
     (case endpoint of
        None \<Rightarrow> (w, [], Inl SourceUnavailable)
      | Some url \<Rightarrow>
          (case applyBearer q namespace serviceAccount ref of
             None \<Rightarrow> (w, [], Inl SourceUnavailable)
           | Some auth \<Rightarrow>
               (let rq = \<lparr>mr_URL = url, mr_Authorization = auth\<rparr> in
                case fetch_loop q rq 0 rq w of
                  (w1, rqs, body) \<Rightarrow>
                    (w1, rqs, case body of None \<Rightarrow> Inl SourceUnavailable
                       | Some b \<Rightarrow> (case read b of None \<Rightarrow> Inl SourceUnavailable | Some v \<Rightarrow> Inr v)))))"

definition queryPrometheus :: "('w, 'v) querier \<Rightarrow> string \<Rightarrow> string \<Rightarrow> PrometheusSource \<Rightarrow> 'w \<Rightarrow> 'w \<times> metric_request list \<times> (query_error + 'v)" where
  "queryPrometheus q namespace serviceAccount p =
     run_query q namespace serviceAccount (prs_SecretRef p)
       (map_option (\<lambda>u. u\<lparr>url_Path := url_Path u @ ''/api/v1/query'', url_RawQuery := ''query='' @ mq_escape q (prs_Query p)\<rparr>)
         (endpoint_ok q (prs_Address p)))
       (\<lambda>body. case mq_prometheus q body of
          None \<Rightarrow> None
        | Some pr \<Rightarrow> if pr_Status pr \<noteq> ''success'' then None else scalarFromResult q pr)"

definition queryWebhook :: "('w, 'v) querier \<Rightarrow> string \<Rightarrow> string \<Rightarrow> WebhookSource \<Rightarrow> 'w \<Rightarrow> 'w \<times> metric_request list \<times> (query_error + 'v)" where
  "queryWebhook q namespace serviceAccount h =
     run_query q namespace serviceAccount (whs_SecretRef h) (endpoint_ok q (whs_URL h))
       (\<lambda>body. case mq_json q body of None \<Rightarrow> None | Some doc \<Rightarrow> scalarFromJSONPath q doc (whs_JSONPath h))"

definition Query :: "('w, 'v) querier \<Rightarrow> string \<Rightarrow> string \<Rightarrow> MetricSource \<Rightarrow> 'w \<Rightarrow> 'w \<times> metric_request list \<times> (query_error + 'v)" where
  "Query q namespace serviceAccount src w =
     (case ms_Prometheus src of
        Some p \<Rightarrow> queryPrometheus q namespace serviceAccount p w
      | None \<Rightarrow>
          (case ms_Webhook src of
             Some h \<Rightarrow> queryWebhook q namespace serviceAccount h w
           | None \<Rightarrow> (w, [], Inl NoSource)))"

section \<open>Where the queries go\<close>

lemma fetch_loop_guarded:
  "fetch_loop q orig via rq w = (w', rqs, r) \<Longrightarrow> via < maxRedirects \<Longrightarrow> mr_Authorization rq = mr_Authorization orig \<Longrightarrow>
   allowedHost q (url_Hostname (mr_URL rq)) \<Longrightarrow> (mr_Authorization orig \<noteq> None \<longrightarrow> url_Host (mr_URL rq) = url_Host (mr_URL orig)) \<Longrightarrow>
   length rqs \<le> maxRedirects - via \<and>
   (\<forall>x\<in>set rqs. mr_Authorization x = mr_Authorization orig \<and> allowedHost q (url_Hostname (mr_URL x)) \<and>
      (mr_Authorization orig \<noteq> None \<longrightarrow> url_Host (mr_URL x) = url_Host (mr_URL orig)))"
proof (induction q orig via rq w arbitrary: w' rqs r rule: fetch_loop.induct)
  case (1 q orig via rq w)
  obtain w1 a where a: "mq_transport q rq w = (w1, a)" by fastforce
  show ?case
  proof (cases "\<exists>url. a = Some (MovedTo url) \<and> checkRedirect q orig (Suc via) url")
    case False
    then have "rqs = [rq]" using 1(2) a
      by (subst (asm) fetch_loop.simps) (auto split: option.splits metric_answer.splits)
    then show ?thesis using 1(3-6) by auto
  next
    case True
    then obtain url where u: "a = Some (MovedTo url)" "checkRedirect q orig (Suc via) url" by blast
    obtain w2 rqs' r' where f: "fetch_loop q orig (Suc via) (rq\<lparr>mr_URL := url\<rparr>) w1 = (w2, rqs', r')" by (metis prod_cases3)
    have rqs: "rqs = rq # rqs'" using 1(2) a u f by (subst (asm) fetch_loop.simps) simp
    have ok: "Suc via < maxRedirects" "allowedHost q (url_Hostname url)" "mr_Authorization orig \<noteq> None \<longrightarrow> url_Host url = url_Host (mr_URL orig)"
      using u(2) by (simp_all add: checkRedirect_def)
    have "length rqs' \<le> maxRedirects - Suc via \<and>
        (\<forall>x\<in>set rqs'. mr_Authorization x = mr_Authorization orig \<and> allowedHost q (url_Hostname (mr_URL x)) \<and>
          (mr_Authorization orig \<noteq> None \<longrightarrow> url_Host (mr_URL x) = url_Host (mr_URL orig)))"
      using "1.IH" [OF a [symmetric] u(1) refl _ f] u(2) ok 1(4) by simp
    then show ?thesis using rqs 1(3-6) by auto
  qed
qed

lemma run_query_guarded:
  assumes "run_query q ns sa ref endpoint read w = (w', rqs, r)"
    and "\<And>u. endpoint = Some u \<Longrightarrow> allowedHost q (url_Hostname u)"
  shows "length rqs \<le> maxRedirects \<and>
    (\<forall>x\<in>set rqs. allowedHost q (url_Hostname (mr_URL x)) \<and> mr_Authorization x = mr_Authorization (hd rqs) \<and>
      (mr_Authorization x \<noteq> None \<longrightarrow> url_Host (mr_URL x) = url_Host (mr_URL (hd rqs)))) \<and>
    (rqs \<noteq> [] \<longrightarrow> endpoint = Some (mr_URL (hd rqs)) \<and> applyBearer q ns sa ref = Some (mr_Authorization (hd rqs)))"
proof (cases "rqs = []")
  case False
  then obtain u auth w1 body where u: "endpoint = Some u" "applyBearer q ns sa ref = Some auth"
    "fetch_loop q \<lparr>mr_URL = u, mr_Authorization = auth\<rparr> 0 \<lparr>mr_URL = u, mr_Authorization = auth\<rparr> w = (w1, rqs, body)"
    using assms(1) by (auto simp: run_query_def Let_def split: option.splits prod.splits)
  have head: "hd rqs = \<lparr>mr_URL = u, mr_Authorization = auth\<rparr>"
    using u(3) False by (subst (asm) fetch_loop.simps) (auto split: prod.splits option.splits metric_answer.splits if_splits)
  from fetch_loop_guarded [OF u(3)] assms(2) [OF u(1)] show ?thesis
    by (auto simp: head u maxRedirects_def)
qed simp

text \<open>C23: Where a metric query goes and what it yields. Whatever the servers answer, a query makes at most ten requests,
  each to a host the allow list admits; all carry the same credential or none, read under the given ServiceAccount, and with
  one all go to the host of the first. What the query returns as a value is the finite number some string of the
  answer stands for: NaN and infinities are an unavailable source.\<close>

theorem metric_query_guarded:
  assumes "Query q ns sa src w = (w', rqs, r)"
  shows "length rqs \<le> maxRedirects \<and>
    (\<forall>x\<in>set rqs. allowedHost q (url_Hostname (mr_URL x)) \<and> mr_Authorization x = mr_Authorization (hd rqs) \<and>
      (mr_Authorization x \<noteq> None \<longrightarrow> url_Host (mr_URL x) = url_Host (mr_URL (hd rqs)))) \<and>
    (rqs \<noteq> [] \<longrightarrow> url_Scheme (mr_URL (hd rqs)) \<in> {''http'', ''https''} \<and>
      (\<exists>ref. applyBearer q ns sa ref = Some (mr_Authorization (hd rqs)))) \<and>
    (\<forall>v. r = Inr v \<longrightarrow> rqs \<noteq> [] \<and> (\<exists>s. mq_ParseFloat q s = Some (Finite v)))"
proof -
  have endpoint: "allowedHost q (url_Hostname u) \<and> url_Scheme u \<in> {''http'', ''https''}" if "endpoint_ok q a = Some u" for a u
    using that by (auto simp: endpoint_ok_def split: option.splits if_splits)
  have finite: "\<exists>s. mq_ParseFloat q s = Some (Finite v)" if "finite_value (mq_ParseFloat q s) = Some v" for s v
    using that by (auto simp: finite_value_def split: option.splits float64.splits)
  have sample: "\<exists>s. mq_ParseFloat q s = Some (Finite v)" if "sampleValue q j = Some v" for j v
    using that finite by (auto simp: sampleValue_def split: json.splits list.splits)
  have result: "\<exists>s. mq_ParseFloat q s = Some (Finite v)" if "scalarFromResult q pr = Some v" for pr v
    using that sample by (auto simp: scalarFromResult_def split: json.splits list.splits option.splits if_splits)
  have path: "\<exists>s. mq_ParseFloat q s = Some (Finite v)" if "scalarFromJSONPath q doc e = Some v" for doc e v
    using that finite by (auto simp: scalarFromJSONPath_def toScalar_def split: json.splits list.splits option.splits)
  have yields: "rqs \<noteq> [] \<and> (\<exists>b. read b = Some v)" if "run_query q ns sa ref e read w = (w', rqs, Inr v)" for ref e read v
  proof -
    from that obtain u auth w1 b where f: "fetch_loop q \<lparr>mr_URL = u, mr_Authorization = auth\<rparr> 0 \<lparr>mr_URL = u, mr_Authorization = auth\<rparr> w = (w1, rqs, Some b)"
      and b: "read b = Some v"
      by (auto simp: run_query_def Let_def split: option.splits prod.splits)
    have "rqs \<noteq> []" using f by (subst (asm) fetch_loop.simps) (auto split: prod.splits option.splits metric_answer.splits if_splits)
    with b show ?thesis by blast
  qed
  have shape: ?thesis if run: "run_query q ns sa ref e read w = (w', rqs, r)"
    and e: "\<And>u. e = Some u \<Longrightarrow> allowedHost q (url_Hostname u) \<and> url_Scheme u \<in> {''http'', ''https''}"
    and read: "\<And>b v. read b = Some v \<Longrightarrow> \<exists>s. mq_ParseFloat q s = Some (Finite v)" for ref e read
  proof -
    have "\<forall>v. r = Inr v \<longrightarrow> rqs \<noteq> [] \<and> (\<exists>s. mq_ParseFloat q s = Some (Finite v))" using yields run read by blast
    with run_query_guarded [OF run] e show ?thesis by blast
  qed
  show ?thesis
  proof (cases "ms_Prometheus src")
    case (Some p)
    with assms have run: "run_query q ns sa (prs_SecretRef p)
       (map_option (\<lambda>u. u\<lparr>url_Path := url_Path u @ ''/api/v1/query'', url_RawQuery := ''query='' @ mq_escape q (prs_Query p)\<rparr>)
         (endpoint_ok q (prs_Address p)))
       (\<lambda>body. case mq_prometheus q body of
          None \<Rightarrow> None
        | Some pr \<Rightarrow> if pr_Status pr \<noteq> ''success'' then None else scalarFromResult q pr) w = (w', rqs, r)"
      by (simp add: Query_def queryPrometheus_def)
    show ?thesis by (rule shape [OF run]) (auto dest: endpoint result split: option.splits if_splits)
  next
    case None
    show ?thesis
    proof (cases "ms_Webhook src")
      case (Some h)
      with assms None have run: "run_query q ns sa (whs_SecretRef h) (endpoint_ok q (whs_URL h))
         (\<lambda>body. case mq_json q body of None \<Rightarrow> None | Some doc \<Rightarrow> scalarFromJSONPath q doc (whs_JSONPath h)) w = (w', rqs, r)"
        by (simp add: Query_def queryWebhook_def)
      show ?thesis by (rule shape [OF run]) (auto dest: endpoint path split: option.splits)
    next
      case none: None
      with assms None show ?thesis by (auto simp: Query_def maxRedirects_def)
    qed
  qed
qed

text \<open>The redirect policy looks at hosts only: a query that carries a credential follows its source from https down to http.\<close>

lemma downgrade_followed:
  assumes "mq_AllowedHosts q = []" "url_Scheme (mr_URL orig) = ''https''" "url_Host url = url_Host (mr_URL orig)" "url_Scheme url = ''http''"
  shows "checkRedirect q orig 1 url"
  using assms by (simp add: checkRedirect_def allowedHost_def maxRedirects_def)

text \<open>A Prometheus that redirects once on its own host and answers with one sample.\<close>

definition demo_url :: "string \<Rightarrow> string \<Rightarrow> url" where
  "demo_url host path = \<lparr>url_Scheme = ''https'', url_Host = host, url_Hostname = host, url_Path = path, url_RawQuery = []\<rparr>"

definition demo_querier :: "(nat, nat) querier" where
  "demo_querier =
     \<lparr>mq_url = (\<lambda>a. Some (demo_url a [])), mq_escape = (\<lambda>s. s), mq_glob = (\<lambda>p h. p = h), mq_AllowedHosts = [''prom.example''],
      mq_Secrets = Some (\<lambda>_ _ _. Some [''token'' \<mapsto> ''t'']),
      mq_transport = (\<lambda>rq w. (Suc w, Some (if w = 0 then MovedTo (demo_url ''prom.example'' ''/moved'') else Replied 200 ''body''))),
      mq_prometheus = (\<lambda>_. Some \<lparr>pr_Status = ''success'', pr_ResultType = ''vector'',
        pr_Result = JList [JMap [(''value'', JList [JOther ''1'', JString ''7''])]]\<rparr>),
      mq_json = (\<lambda>_. None), mq_jsonpath = (\<lambda>_ _. None), mq_ParseFloat = (\<lambda>s. if s = ''7'' then Some (Finite 7) else Some NaN), mq_trim = (\<lambda>s. s)\<rparr>"

definition demo_source :: MetricSource where
  "demo_source = \<lparr>ms_Prometheus = Some \<lparr>prs_Address = ''prom.example'', prs_Query = ''up'', prs_SecretRef = Some ''s''\<rparr>, ms_Webhook = None\<rparr>"

definition demo_query :: "nat \<times> metric_request list \<times> (query_error + nat)" where
  "demo_query = Query demo_querier ''prod'' ''sa'' demo_source 0"

lemma metric_query_guarded_witness:
  "snd (snd demo_query) = Inr 7 \<and> length (fst (snd demo_query)) = 2 \<and>
   (\<exists>s. mq_ParseFloat demo_querier s = Some (Finite 7)) \<and>
   url_Scheme (mr_URL (hd (fst (snd demo_query)))) \<in> {''http'', ''https''}"
proof -
  have r: "snd (snd demo_query) = Inr 7" and len: "length (fst (snd demo_query)) = 2" by code_simp+
  have run: "Query demo_querier ''prod'' ''sa'' demo_source 0 = (fst demo_query, fst (snd demo_query), Inr 7)"
    using r by (simp add: demo_query_def prod_eq_iff)
  note guarded = metric_query_guarded [OF run]
  have "fst (snd demo_query) \<noteq> []" using len by auto
  with guarded have "url_Scheme (mr_URL (hd (fst (snd demo_query)))) \<in> {''http'', ''https''}" by blast
  moreover from guarded have "\<exists>s. mq_ParseFloat demo_querier s = Some (Finite 7)" by blast
  ultimately show ?thesis using r len by blast
qed

end
