(* ===== verification/Watches.thy ===== *)
theory Watches
  imports Reconcile
begin

text \<open>
  What wakes a StageSet (\<open>internal/controller/stageset_controller.go\<close>, \<open>crdwatcher.go\<close>): the filter on its own
  updates, the mapping of a changed source object to the StageSets that read it, and the watches on producer
  kinds, which are engaged while the controller runs, by a pass that finds the kind installed or by the stream
  of custom resource definitions. \<open>schema.ParseGroupVersion\<close>, the REST mapper and the watch call are arguments.
\<close>

section \<open>Updates of a StageSet\<close>

definition annotation_changed :: "string \<Rightarrow> StageSet \<Rightarrow> StageSet \<Rightarrow> bool" where
  "annotation_changed k old new \<longleftrightarrow> annotation old k \<noteq> annotation new k"

definition reconcileStageRequestedPredicate :: "StageSet \<Rightarrow> StageSet \<Rightarrow> bool" where
  "reconcileStageRequestedPredicate = annotation_changed reconcileStageAnnotation"

definition migrationApprovalPredicate :: "StageSet \<Rightarrow> StageSet \<Rightarrow> bool" where
  "migrationApprovalPredicate old new \<longleftrightarrow>
     annotation_changed approvedVersionAnnotation old new \<or> annotation_changed rollbackToAnnotation old new"

definition promoteRequestedPredicate :: "StageSet \<Rightarrow> StageSet \<Rightarrow> bool" where
  "promoteRequestedPredicate = annotation_changed promoteAnnotation"

text \<open>The first two terms are library predicates: a changed generation, and a changed request token.\<close>

definition stageSetWatchPredicate ::
  "(StageSet \<Rightarrow> StageSet \<Rightarrow> bool) \<Rightarrow> (StageSet \<Rightarrow> StageSet \<Rightarrow> bool) \<Rightarrow> StageSet \<Rightarrow> StageSet \<Rightarrow> bool" where
  "stageSetWatchPredicate generationChanged reconcileRequested old new \<longleftrightarrow>
     generationChanged old new \<or> reconcileRequested old new \<or> reconcileStageRequestedPredicate old new \<or>
     migrationApprovalPredicate old new \<or> promoteRequestedPredicate old new"

text \<open>The break-glass annotations that a pass reads besides are not among them: setting one alone is not delivered.\<close>

definition unwatched_annotations :: "string set" where
  "unwatched_annotations = {updateNowAnnotation, budgetOverrideAnnotation, resetScopeAnnotation, skipImageVerificationAnnotation}"

lemma override_alone_not_delivered:
  assumes "k \<in> unwatched_annotations"
    and "\<And>old new. generationChanged old new \<longleftrightarrow> set_Generation old \<noteq> set_Generation new"
    and "\<And>old new. reconcileRequested old new \<longleftrightarrow> annotation_changed reconcileRequestAnnotation old new"
  shows "\<not> stageSetWatchPredicate generationChanged reconcileRequested ss
    (ss\<lparr>set_Annotations := (set_Annotations ss)(k \<mapsto> v)\<rparr>)"
  using assms(1)
  by (auto simp: unwatched_annotations_def stageSetWatchPredicate_def assms(2,3) annotation_changed_def annotation_def
      reconcileStageRequestedPredicate_def migrationApprovalPredicate_def promoteRequestedPredicate_def
      reconcileRequestAnnotation_def reconcileStageAnnotation_def approvedVersionAnnotation_def rollbackToAnnotation_def
      promoteAnnotation_def updateNowAnnotation_def budgetOverrideAnnotation_def resetScopeAnnotation_def
      skipImageVerificationAnnotation_def)

section \<open>From a changed object to the StageSets that read it\<close>

definition ExternalArtifactGVK :: gvk where
  "ExternalArtifactGVK = (externalArtifactGroup, ''v1'', externalArtifactKind)"

record watched_object =
  wo_GVK :: gvk
  wo_Object :: source_object

definition sourceRefMatchesEA :: "SourceReference \<Rightarrow> source_object \<Rightarrow> bool" where
  "sourceRefMatchesEA ref ea \<longleftrightarrow>
     (let kind = (if src_Kind ref = [] then externalArtifactKind else src_Kind ref) in
      if kind = externalArtifactKind then src_Name ref = xo_Name ea else back_references ref ea)"

definition producerGVK :: "(string \<Rightarrow> (string \<times> string) option) \<Rightarrow> SourceReference \<Rightarrow> gvk" where
  "producerGVK gv ref =
     (let apiVersion = (if src_APIVersion ref = [] then externalArtifactGroup @ ''/v1'' else src_APIVersion ref) in
      case gv apiVersion of None \<Rightarrow> ([], [], []) | Some (grp, version) \<Rightarrow> (grp, version, src_Kind ref))"

definition isProducerRef :: "SourceReference \<Rightarrow> bool" where
  "isProducerRef ref \<longleftrightarrow> src_Kind ref \<noteq> [] \<and> src_Kind ref \<noteq> externalArtifactKind"

definition requests_of :: "(SourceReference \<Rightarrow> bool) \<Rightarrow> StageSet list option \<Rightarrow> (string \<times> string) list" where
  "requests_of wanted found =
     (case found of
        None \<Rightarrow> []
      | Some sets \<Rightarrow> map (\<lambda>ss. (set_Namespace ss, set_Name ss))
          (filter (\<lambda>ss. list_ex (\<lambda>st. wanted (stg_SourceRef st)) (spec_Stages (set_Spec ss))) sets))"

text \<open>\<open>listing\<close> lists the StageSets of a namespace, none when the list fails.\<close>

definition mapExternalArtifact :: "(string \<Rightarrow> StageSet list option) \<Rightarrow> source_object \<Rightarrow> (string \<times> string) list" where
  "mapExternalArtifact listing ea = requests_of (\<lambda>ref. sourceRefMatchesEA ref ea) (listing (xo_Namespace ea))"

definition mapProducer ::
  "(string \<Rightarrow> (string \<times> string) option) \<Rightarrow> (string \<Rightarrow> StageSet list option) \<Rightarrow> watched_object \<Rightarrow> (string \<times> string) list" where
  "mapProducer gv listing obj =
     requests_of (\<lambda>ref. isProducerRef ref \<and> src_Name ref = xo_Name (wo_Object obj) \<and> producerGVK gv ref = wo_GVK obj)
       (listing (xo_Namespace (wo_Object obj)))"

lemma requests_of_iff:
  "p \<in> set (requests_of wanted found) \<longleftrightarrow>
    (\<exists>sets ss st. found = Some sets \<and> ss \<in> set sets \<and> st \<in> set (spec_Stages (set_Spec ss)) \<and>
      wanted (stg_SourceRef st) \<and> p = (set_Namespace ss, set_Name ss))"
  by (auto simp: requests_of_def list_ex_iff split: option.splits)

section \<open>Watches on producer kinds\<close>

text \<open>The two maps of the reconciler, behind its lock. Their order does not matter.\<close>

record watch_state =
  ws_watchedProducers :: "gvk list"
  ws_missingProducers :: "gvk list"

definition watchProducerLocked :: "(gvk \<Rightarrow> bool) \<Rightarrow> gvk \<Rightarrow> watch_state \<Rightarrow> watch_state \<times> bool" where
  "watchProducerLocked watch_ok gvk s =
     (if watch_ok gvk
      then (s\<lparr>ws_watchedProducers := List.insert gvk (ws_watchedProducers s),
             ws_missingProducers := removeAll gvk (ws_missingProducers s)\<rparr>, True)
      else (s, False))"

definition engageProducerWatch :: "(gvk \<Rightarrow> bool) \<Rightarrow> (gvk \<Rightarrow> bool) \<Rightarrow> gvk \<Rightarrow> watch_state \<Rightarrow> watch_state" where
  "engageProducerWatch installed watch_ok gvk s =
     (if gvk = ([], [], []) \<or> gvk = ExternalArtifactGVK then s
      else if gvk \<in> set (ws_watchedProducers s) then s
      else if \<not> installed gvk then s\<lparr>ws_missingProducers := List.insert gvk (ws_missingProducers s)\<rparr>
      else fst (watchProducerLocked watch_ok gvk s))"

definition MissingProducerKinds :: "watch_state \<Rightarrow> gvk list" where
  "MissingProducerKinds s = ws_missingProducers s"

definition EngageProducerWatch :: "(gvk \<Rightarrow> bool) \<Rightarrow> gvk \<Rightarrow> watch_state \<Rightarrow> watch_state \<times> bool" where
  "EngageProducerWatch watch_ok gvk s =
     (if gvk \<in> set (ws_watchedProducers s) then (s, True) else watchProducerLocked watch_ok gvk s)"

record CustomResourceDefinition =
  crd_Group :: string
  crd_Kind :: string
  crd_Versions :: "(string \<times> bool) list"
  crd_Conditions :: "(string \<times> string) list"

definition isCRDEstablished :: "CustomResourceDefinition \<Rightarrow> bool" where
  "isCRDEstablished crd \<longleftrightarrow> list_ex (\<lambda>(ty, status). ty = ''Established'' \<and> status = ''True'') (crd_Conditions crd)"

definition crdServesGVK :: "CustomResourceDefinition \<Rightarrow> gvk \<Rightarrow> bool" where
  "crdServesGVK crd gvk =
     (case gvk of (grp, version, kind) \<Rightarrow>
        crd_Group crd = grp \<and> crd_Kind crd = kind \<and> isCRDEstablished crd \<and>
        list_ex (\<lambda>(v, served). served \<and> v = version) (crd_Versions crd))"

definition handleCRD :: "(gvk \<Rightarrow> bool) \<Rightarrow> CustomResourceDefinition \<Rightarrow> watch_state \<Rightarrow> watch_state" where
  "handleCRD watch_ok crd s =
     (if \<not> isCRDEstablished crd then s
      else fold (\<lambda>gvk s. if crdServesGVK crd gvk then fst (EngageProducerWatch watch_ok gvk s) else s) (MissingProducerKinds s) s)"

text \<open>A pass engages the watch of a reference before it resolves it, and stops at the first that does not
  resolve.\<close>

fun engaged_refs :: "api_reader \<Rightarrow> bool \<Rightarrow> string \<Rightarrow> Stage list \<Rightarrow> SourceReference list" where
  "engaged_refs reader noCross namespace [] = []"
| "engaged_refs reader noCross namespace (st # stages) =
     stg_SourceRef st # (case Resolve reader noCross (stg_SourceRef st) namespace of
       Inl _ \<Rightarrow> [] | Inr _ \<Rightarrow> engaged_refs reader noCross namespace stages)"

definition engage_ref ::
  "(string \<Rightarrow> (string \<times> string) option) \<Rightarrow> (gvk \<Rightarrow> bool) \<Rightarrow> (gvk \<Rightarrow> bool) \<Rightarrow> SourceReference \<Rightarrow> watch_state \<Rightarrow> watch_state" where
  "engage_ref gv installed watch_ok ref s =
     (if isProducerRef ref then engageProducerWatch installed watch_ok (producerGVK gv ref) s else s)"

datatype watch_event =
    PassResolves "SourceReference list" "gvk \<Rightarrow> bool" "gvk \<Rightarrow> bool"
  | DefinitionChanged CustomResourceDefinition "gvk \<Rightarrow> bool"

fun watch_step :: "(string \<Rightarrow> (string \<times> string) option) \<Rightarrow> watch_event \<Rightarrow> watch_state \<Rightarrow> watch_state" where
  "watch_step gv (PassResolves refs installed watch_ok) s = fold (engage_ref gv installed watch_ok) refs s"
| "watch_step gv (DefinitionChanged crd watch_ok) s = handleCRD watch_ok crd s"

definition watch_events :: "(string \<Rightarrow> (string \<times> string) option) \<Rightarrow> watch_event list \<Rightarrow> watch_state" where
  "watch_events gv events = fold (watch_step gv) events \<lparr>ws_watchedProducers = [], ws_missingProducers = []\<rparr>"

text \<open>What a change of an object enqueues. The watch on artifacts is set up at the start if their kind is installed
  then; a producer's, once engaged.\<close>

definition enqueued ::
  "(string \<Rightarrow> (string \<times> string) option) \<Rightarrow> (string \<Rightarrow> StageSet list option) \<Rightarrow> bool \<Rightarrow> watch_state \<Rightarrow> watched_object \<Rightarrow> (string \<times> string) list" where
  "enqueued gv listing eaInstalled s obj =
     (if eaInstalled \<and> wo_GVK obj = ExternalArtifactGVK then mapExternalArtifact listing (wo_Object obj) else []) @
     (if wo_GVK obj \<in> set (ws_watchedProducers s) then mapProducer gv listing obj else [])"

section \<open>Once engaged, always watched\<close>

definition watch_ok_state :: "watch_state \<Rightarrow> bool" where
  "watch_ok_state s \<longleftrightarrow> set (ws_watchedProducers s) \<inter> set (ws_missingProducers s) = {} \<and>
     ExternalArtifactGVK \<notin> set (ws_watchedProducers s) \<union> set (ws_missingProducers s)"

lemma engage_mono:
  "set (ws_watchedProducers s) \<subseteq> set (ws_watchedProducers (engageProducerWatch installed ok g s))"
  "set (ws_watchedProducers s) \<subseteq> set (ws_watchedProducers (fst (EngageProducerWatch ok g s)))"
  by (auto simp: engageProducerWatch_def EngageProducerWatch_def watchProducerLocked_def)

lemma fold_mono_set:
  assumes "\<And>x s. A s \<subseteq> A (f x s)"
  shows "A s \<subseteq> A (fold f xs s)"
  by (induction xs arbitrary: s) (use assms in fastforce)+

lemma watch_step_mono: "set (ws_watchedProducers s) \<subseteq> set (ws_watchedProducers (watch_step gv e s))"
proof (cases e)
  case (PassResolves refs installed ok)
  have "set (ws_watchedProducers x) \<subseteq> set (ws_watchedProducers (engage_ref gv installed ok r x))" for r x
    using engage_mono(1) by (simp add: engage_ref_def)
  from fold_mono_set [where A = "\<lambda>s. set (ws_watchedProducers s)", OF this] show ?thesis by (simp add: PassResolves)
next
  case (DefinitionChanged crd ok)
  have "set (ws_watchedProducers x) \<subseteq>
      set (ws_watchedProducers (fold (\<lambda>g s. if crdServesGVK crd g then fst (EngageProducerWatch ok g s) else s) gs x))" for gs x
    by (rule fold_mono_set [where A = "\<lambda>s. set (ws_watchedProducers s)"]) (use engage_mono(2) in auto)
  then show ?thesis by (simp add: DefinitionChanged handleCRD_def)
qed

lemma watch_fold_mono: "set (ws_watchedProducers s) \<subseteq> set (ws_watchedProducers (fold (watch_step gv) events s))"
  by (rule fold_mono_set [where A = "\<lambda>s. set (ws_watchedProducers s)"]) (rule watch_step_mono)

text \<open>The two maps stay apart, and a kind that was missing once is never forgotten: it stays missing until it is watched.\<close>

definition known :: "watch_state \<Rightarrow> gvk set" where
  "known s = set (ws_watchedProducers s) \<union> set (ws_missingProducers s)"

lemma watchProducerLocked_known: "known s \<subseteq> known (fst (watchProducerLocked ok g s))"
  by (auto simp: known_def watchProducerLocked_def)

lemma known_mono:
  "known s \<subseteq> known (engageProducerWatch installed ok g s)" "known s \<subseteq> known (fst (EngageProducerWatch ok g s))"
  using watchProducerLocked_known by (auto simp: engageProducerWatch_def EngageProducerWatch_def known_def)

lemma fold_if_mono:
  assumes "\<And>x s. A s \<subseteq> A (f x s)"
  shows "A s \<subseteq> A (fold (\<lambda>x s. if P x then f x s else s) xs s)"
  by (rule fold_mono_set) (use assms in auto)

lemma watch_step_known: "known s \<subseteq> known (watch_step gv e s)"
proof (cases e)
  case (PassResolves refs installed ok)
  have "known s \<subseteq> known (fold (engage_ref gv installed ok) refs s)"
    unfolding engage_ref_def by (rule fold_if_mono [where A = known]) (rule known_mono)
  then show ?thesis by (simp add: PassResolves)
next
  case (DefinitionChanged crd ok)
  have "known s \<subseteq> known (fold (\<lambda>g s. if crdServesGVK crd g then fst (EngageProducerWatch ok g s) else s) gs s)" for gs
    by (rule fold_if_mono [where A = known]) (rule known_mono)
  then show ?thesis by (simp add: DefinitionChanged handleCRD_def)
qed

lemma watch_fold_known: "known s \<subseteq> known (fold (watch_step gv) events s)"
  by (rule fold_mono_set [where A = known]) (rule watch_step_known)

lemma watch_ok_step: "watch_ok_state s \<Longrightarrow> watch_ok_state (watch_step gv e s)"
proof -
  assume s: "watch_ok_state s"
  have engage: "watch_ok_state (engageProducerWatch installed ok g x)" if "watch_ok_state x" for installed ok g x
    using that by (auto simp: engageProducerWatch_def watchProducerLocked_def watch_ok_state_def)
  have engaged: "watch_ok_state (fst (EngageProducerWatch ok g x))" if "watch_ok_state x" "g \<noteq> ExternalArtifactGVK" for ok g x
    using that by (auto simp: EngageProducerWatch_def watchProducerLocked_def watch_ok_state_def)
  show ?thesis
  proof (cases e)
    case (PassResolves refs installed ok)
    have "watch_ok_state (fold (engage_ref gv installed ok) rs x)" if "watch_ok_state x" for rs x
      using that by (induction rs arbitrary: x) (simp_all add: engage_ref_def engage)
    with s show ?thesis by (simp add: PassResolves)
  next
    case (DefinitionChanged crd ok)
    have "watch_ok_state (fold (\<lambda>g s. if crdServesGVK crd g then fst (EngageProducerWatch ok g s) else s) gs x)"
      if "watch_ok_state x" "ExternalArtifactGVK \<notin> set gs" for gs x
      using that
    proof (induction gs arbitrary: x)
      case (Cons g gs)
      have "watch_ok_state (if crdServesGVK crd g then fst (EngageProducerWatch ok g x) else x)"
      proof (cases "crdServesGVK crd g")
        case True
        have "g \<noteq> ExternalArtifactGVK" using Cons.prems(2) by (metis list.set_intros(1))
        with engaged [OF Cons.prems(1)] True show ?thesis by simp
      qed (simp add: Cons.prems(1))
      with Cons show ?case by simp
    qed simp
    moreover have "ExternalArtifactGVK \<notin> set (MissingProducerKinds s)"
      using s by (simp add: watch_ok_state_def MissingProducerKinds_def)
    ultimately show ?thesis using s by (simp add: DefinitionChanged handleCRD_def)
  qed
qed

lemma watch_events_ok: "watch_ok_state (watch_events gv events)"
proof -
  have "watch_ok_state s \<Longrightarrow> watch_ok_state (fold (watch_step gv) events s)" for s
    by (induction events arbitrary: s) (simp_all add: watch_ok_step)
  then show ?thesis by (simp add: watch_events_def watch_ok_state_def)
qed

text \<open>One engagement: the kind is watched afterwards if it was installed and the call went through, and known in any
  case but a failed call.\<close>

lemma engaged_once:
  assumes "ref \<in> set refs" "isProducerRef ref" "gv (if src_APIVersion ref = [] then externalArtifactGroup @ ''/v1'' else src_APIVersion ref) = Some p"
  shows "installed (producerGVK gv ref) \<Longrightarrow> ok (producerGVK gv ref) \<Longrightarrow>
      producerGVK gv ref \<in> set (ws_watchedProducers (fold (engage_ref gv installed ok) refs s))"
    and "\<not> installed (producerGVK gv ref) \<Longrightarrow> producerGVK gv ref \<in> known (fold (engage_ref gv installed ok) refs s)"
proof -
  let ?g = "producerGVK gv ref"
  have g: "?g \<noteq> ([], [], [])" "?g \<noteq> ExternalArtifactGVK"
    using assms(2,3) by (auto simp: producerGVK_def isProducerRef_def ExternalArtifactGVK_def Let_def split: option.splits prod.splits)
  obtain before after where refs: "refs = before @ ref # after" using assms(1) by (meson split_list)
  let ?s = "fold (engage_ref gv installed ok) before s"
  let ?s' = "engageProducerWatch installed ok ?g ?s"
  have step: "fold (engage_ref gv installed ok) refs s = fold (engage_ref gv installed ok) after ?s'"
    by (simp add: refs engage_ref_def assms(2))
  have later: "set (ws_watchedProducers ?s') \<subseteq> set (ws_watchedProducers (fold (engage_ref gv installed ok) after ?s'))"
    "known ?s' \<subseteq> known (fold (engage_ref gv installed ok) after ?s')"
    using watch_step_mono [of ?s' gv "PassResolves after installed ok"] watch_step_known [of ?s' gv "PassResolves after installed ok"] by simp_all
  show "?g \<in> set (ws_watchedProducers (fold (engage_ref gv installed ok) refs s))" if "installed ?g" "ok ?g"
  proof -
    have "?g \<in> set (ws_watchedProducers ?s')" using g that by (simp add: engageProducerWatch_def watchProducerLocked_def)
    with later(1) step show ?thesis by auto
  qed
  show "?g \<in> known (fold (engage_ref gv installed ok) refs s)" if "\<not> installed ?g"
  proof -
    have "?g \<in> known ?s'" using g that by (simp add: engageProducerWatch_def known_def)
    with later(2) step show ?thesis by auto
  qed
qed

lemma definition_engages:
  assumes "g \<in> known s" "crdServesGVK crd g" "ok g"
  shows "g \<in> set (ws_watchedProducers (handleCRD ok crd s))"
proof (cases "g \<in> set (ws_watchedProducers s)")
  case True
  with watch_step_mono [of s undefined "DefinitionChanged crd ok"] show ?thesis by auto
next
  case False
  with assms(1) have "g \<in> set (ws_missingProducers s)" by (simp add: known_def)
  then obtain before after where gs: "ws_missingProducers s = before @ g # after" by (meson split_list)
  let ?f = "\<lambda>g s. if crdServesGVK crd g then fst (EngageProducerWatch ok g s) else s"
  have "g \<in> set (ws_watchedProducers (?f g (fold ?f before s)))"
    using assms by (simp add: EngageProducerWatch_def watchProducerLocked_def)
  moreover have "set (ws_watchedProducers x) \<subseteq> set (ws_watchedProducers (fold ?f after x))" for x
    by (rule fold_if_mono [where A = "\<lambda>s. set (ws_watchedProducers s)"]) (rule engage_mono(2))
  ultimately have "g \<in> set (ws_watchedProducers (fold ?f after (?f g (fold ?f before s))))" by (rule rev_subsetD)
  then have "g \<in> set (ws_watchedProducers (fold ?f (ws_missingProducers s) s))" by (simp add: gs)
  moreover have "isCRDEstablished crd" using assms(2) by (simp add: crdServesGVK_def split: prod.splits)
  ultimately show ?thesis by (simp add: handleCRD_def MissingProducerKinds_def)
qed

section \<open>Properties\<close>

text \<open>When the watch on a kind is up: a pass engaged the reference while the kind was installed, or before, and a
  definition that serves it came later; the watch call of that moment went through.\<close>

definition engaged_by :: "(string \<Rightarrow> (string \<times> string) option) \<Rightarrow> SourceReference \<Rightarrow> watch_event list \<Rightarrow> bool" where
  "engaged_by gv ref events \<longleftrightarrow>
     (\<exists>before refs installed ok after. events = before @ PassResolves refs installed ok # after \<and> ref \<in> set refs \<and>
        (if installed (producerGVK gv ref) then ok (producerGVK gv ref)
         else \<exists>crd ok'. DefinitionChanged crd ok' \<in> set after \<and> crdServesGVK crd (producerGVK gv ref) \<and> ok' (producerGVK gv ref)))"

lemma engaged_byI:
  assumes "events = before @ PassResolves refs installed ok # after" "ref \<in> set refs"
    and "if installed (producerGVK gv ref) then ok (producerGVK gv ref)
      else \<exists>crd ok'. DefinitionChanged crd ok' \<in> set after \<and> crdServesGVK crd (producerGVK gv ref) \<and> ok' (producerGVK gv ref)"
  shows "engaged_by gv ref events"
  using assms unfolding engaged_by_def by blast

lemma engaged_by_watched:
  assumes "engaged_by gv ref events" "isProducerRef ref"
    and "gv (if src_APIVersion ref = [] then externalArtifactGroup @ ''/v1'' else src_APIVersion ref) = Some p"
  shows "producerGVK gv ref \<in> set (ws_watchedProducers (watch_events gv events))"
proof -
  let ?g = "producerGVK gv ref"
  obtain before refs installed ok after where e: "events = before @ PassResolves refs installed ok # after" "ref \<in> set refs"
    and how: "if installed ?g then ok ?g else \<exists>crd ok'. DefinitionChanged crd ok' \<in> set after \<and> crdServesGVK crd ?g \<and> ok' ?g"
    using assms(1) by (auto simp: engaged_by_def)
  let ?s = "fold (engage_ref gv installed ok) refs (watch_events gv before)"
  have run: "watch_events gv events = fold (watch_step gv) after ?s" by (simp add: watch_events_def e(1))
  note once = engaged_once [where gv = gv and ref = ref and refs = refs and s = "watch_events gv before", OF e(2) assms(2,3)]
  show ?thesis
  proof (cases "installed ?g")
    case True
    with once(1) how have "?g \<in> set (ws_watchedProducers ?s)" by simp
    with watch_fold_mono run show ?thesis by (metis subsetD)
  next
    case False
    then obtain crd ok' where d: "DefinitionChanged crd ok' \<in> set after" "crdServesGVK crd ?g" "ok' ?g" using how by auto
    then obtain a b where after: "after = a @ DefinitionChanged crd ok' # b" by (meson split_list)
    have "?g \<in> known (fold (watch_step gv) a ?s)" using once(2) False watch_fold_known by (metis subsetD)
    then have "?g \<in> set (ws_watchedProducers (handleCRD ok' crd (fold (watch_step gv) a ?s)))"
      by (rule definition_engages) (use d in auto)
    then have "?g \<in> set (ws_watchedProducers (fold (watch_step gv) b (handleCRD ok' crd (fold (watch_step gv) a ?s))))"
      using watch_fold_mono by (rule subsetD [rotated])
    then show ?thesis by (simp add: run after)
  qed
qed


text \<open>What does not wake it. A reference into another namespace is not found by the mappings, and the watch on artifacts,
  when their kind is installed after the start, is not made up for: the stream of definitions engages producers only.\<close>

lemma enqueued_same_namespace:
  assumes "\<And>n sets ss. listing n = Some sets \<Longrightarrow> ss \<in> set sets \<Longrightarrow> set_Namespace ss = n"
    and "(ns, name) \<in> set (enqueued gv listing eaInstalled s obj)"
  shows "ns = xo_Namespace (wo_Object obj)"
  using assms by (auto simp: enqueued_def mapExternalArtifact_def mapProducer_def requests_of_iff split: if_splits)

lemma late_artifact_kind_unwatched:
  "enqueued gv listing False (watch_events gv events) \<lparr>wo_GVK = ExternalArtifactGVK, wo_Object = ea\<rparr> = []"
  using watch_events_ok [of gv events] by (simp add: enqueued_def watch_ok_state_def)

text \<open>A repository whose kind is installed after the first pass.\<close>

definition demo_gv :: "string \<Rightarrow> (string \<times> string) option" where
  "demo_gv v = (case cut (CHR ''/'') v of (g, ver, found) \<Rightarrow> if found then Some (g, ver) else Some ([], v))"

definition repo_ref :: SourceReference where
  "repo_ref = \<lparr>src_APIVersion = [], src_Kind = ''GitRepository'', src_Name = ''web'', src_Namespace = []\<rparr>"

definition repo_object :: source_object where
  "repo_object = \<lparr>xo_Kind = ''GitRepository'', xo_Namespace = ''prod'', xo_Name = ''web'', xo_RefDigest = [],
     xo_RefCommit = [], xo_Conditions = Some [Some \<lparr>sc_type = ''Ready'', sc_status = ''True'', sc_reason = []\<rparr>],
     xo_Artifact = Inr (Some \<lparr>af_url = ''http://s/x'', af_digest = ''sha256:aa'', af_revision = ''r1''\<rparr>), xo_SourceRef = None\<rparr>"

definition repo_reader :: api_reader where
  "repo_reader = \<lparr>rd_get = (\<lambda>v k n m. Inr (if (k, n, m) = (''GitRepository'', ''prod'', ''web'') then Some repo_object else None)),
     rd_list = (\<lambda>_. Inr [])\<rparr>"

definition repo_set :: StageSet where
  "repo_set = plain_set [(plain_stage ''app'')\<lparr>stg_SourceRef := repo_ref\<rparr>]"

definition repo_events :: "watch_event list" where
  "repo_events = [PassResolves [repo_ref] (\<lambda>_. False) (\<lambda>_. True),
     DefinitionChanged \<lparr>crd_Group = externalArtifactGroup, crd_Kind = ''GitRepository'', crd_Versions = [(''v1'', True)],
       crd_Conditions = [(''Established'', ''True'')]\<rparr> (\<lambda>_. True)]"


end
