(* ===== verification/Build.thy ===== *)
theory Build
  imports Rollback
begin

text \<open>
  Building a stage (\<open>internal/build/build.go\<close>): the artifact's entries are written to a fresh directory, the build
  directory is checked, a rendered JSON manifest is offered under a name kustomize reads, and the rendered text is
  substituted and parsed. The directory is a list of files by their path below its root. The kustomize build, the substitution
  and the parser are arguments.
\<close>

section \<open>Files under a root\<close>

type_synonym tree = files

text \<open>A path is a directory when a file lies below it; the root always is one.\<close>

definition is_dir :: "tree \<Rightarrow> string \<Rightarrow> bool" where
  "is_dir t d \<longleftrightarrow> d = ''.'' \<or> list_ex (\<lambda>(p, _). has_prefix p (d @ ''/'')) t"

definition path_exists :: "tree \<Rightarrow> string \<Rightarrow> bool" where
  "path_exists t p \<longleftrightarrow> map_of t p \<noteq> None \<or> is_dir t p"

text \<open>\<open>MkdirAll\<close> and \<open>WriteFile\<close>: a file in the place of a directory or the other way round is an error.\<close>

definition write_file :: "string \<Rightarrow> string \<Rightarrow> tree \<Rightarrow> tree option" where
  "write_file dest content t =
     (if is_dir t dest \<or> list_ex (\<lambda>(p, _). has_prefix dest (p @ ''/'')) t then None
      else Some ((dest, content) # filter (\<lambda>(p, _). p \<noteq> dest) t))"

definition rename_file :: "string \<Rightarrow> string \<Rightarrow> tree \<Rightarrow> tree option" where
  "rename_file old new t =
     (case map_of t old of
        None \<Rightarrow> None
      | Some content \<Rightarrow> Some ((new, content) # filter (\<lambda>(p, _). p \<noteq> old \<and> p \<noteq> new) t))"

text \<open>\<open>filepath.Dir\<close>, \<open>filepath.Ext\<close> and \<open>filepath.Join\<close> on clean relative paths.\<close>

definition path_dir :: "string \<Rightarrow> string" where
  "path_dir p = (case cut (CHR ''/'') (rev p) of (_, rest, found) \<Rightarrow> if found then rev rest else ''.'')"

definition path_ext :: "string \<Rightarrow> string" where
  "path_ext p =
     (case cut (CHR ''.'') (fst (cut (CHR ''/'') (rev p))) of
        (suffix, _, found) \<Rightarrow> if found then CHR ''.'' # rev suffix else [])"

definition path_join :: "string \<Rightarrow> string \<Rightarrow> string" where
  "path_join d n = (if d = ''.'' then n else d @ ''/'' @ n)"

definition trim_slashes :: "string \<Rightarrow> string" where
  "trim_slashes s = trim_right (\<lambda>c. c = CHR ''/'') (trim_left (\<lambda>c. c = CHR ''/'') s)"

section \<open>Preparing the build\<close>

datatype build_error =
    UnsafeEntry string | EntryNotWritten string | PathEscapes | PathNotFound | ErrNoManifests
  | NormalizeFailed | KustomizeFailed string | SubstitutionFailed string | ParseFailed string

fun materialize :: "files \<Rightarrow> tree \<Rightarrow> build_error + tree" where
  "materialize [] t = Inr t"
| "materialize ((name, content) # fs) t =
     (let clean = path_clean name in
      if has_prefix clean ''/'' \<or> has_prefix clean ''..'' then Inl (UnsafeEntry name)
      else (case write_file clean content t of
          None \<Rightarrow> Inl (EntryNotWritten name)
        | Some t' \<Rightarrow> materialize fs t'))"

definition manifestExts :: "string set" where
  "manifestExts = {''.yaml'', ''.yml'', ''.json''}"

definition hasManifests :: "files \<Rightarrow> string \<Rightarrow> bool" where
  "hasManifests fs path =
     (let trimmed = trim_slashes path;
          prefix = (if trimmed = [] \<or> trimmed = ''.'' then [] else path_clean trimmed @ ''/'')
      in list_ex (\<lambda>(name, _).
           (prefix = [] \<or> has_prefix (path_clean name) prefix) \<and> to_lower (path_ext (path_clean name)) \<in> manifestExts) fs)"

definition hasKustomization :: "tree \<Rightarrow> string \<Rightarrow> bool" where
  "hasKustomization t d \<longleftrightarrow>
     list_ex (\<lambda>n. path_exists t (path_join d n)) [''kustomization.yaml'', ''kustomization.yml'', ''Kustomization'']"

fun normalizeJSONManifests :: "string \<Rightarrow> files \<Rightarrow> tree \<Rightarrow> tree option" where
  "normalizeJSONManifests buildDir [] t = Some t"
| "normalizeJSONManifests buildDir ((name, _) # fs) t =
     (let dest = path_clean name in
      if path_dir dest \<noteq> buildDir \<or> path_ext dest \<noteq> ''.json'' then normalizeJSONManifests buildDir fs t
      else let yamlPath = trim_suffix dest ''.json'' @ ''.yaml'' in
        if path_exists t yamlPath then normalizeJSONManifests buildDir fs t
        else (case rename_file dest yamlPath t of
            None \<Rightarrow> None
          | Some t' \<Rightarrow> normalizeJSONManifests buildDir fs t'))"

definition placeholderNamespace :: string where
  "placeholderNamespace = ''_placeholder''"

definition dropPlaceholder :: "json list \<Rightarrow> json list" where
  "dropPlaceholder = filter (\<lambda>ob. \<not> (GetKind ob = ''Namespace'' \<and> nested_string [''metadata'', ''name''] ob = placeholderNamespace))"

text \<open>The directory to build, below the root. The root's name is random, so that a path that leaves it does not come
  back.\<close>

definition build_dir :: "tree \<Rightarrow> string \<Rightarrow> build_error + string" where
  "build_dir t path =
     (let trimmed = trim_slashes path in
      if trimmed = [] \<or> trimmed = ''.'' then Inr ''.''
      else let d = path_clean trimmed in
        if d = ''.'' \<or> d = ''..'' \<or> has_prefix d ''../'' then Inl PathEscapes
        else if \<not> is_dir t d then Inl PathNotFound
        else Inr d)"

section \<open>The build\<close>

record kustomize_env =
  kz_Build :: "tree \<Rightarrow> string \<Rightarrow> kustomize_patch list \<Rightarrow> string + string"
  kz_Eval :: "string \<Rightarrow> vars \<Rightarrow> string + string"
  kz_Read :: "string \<Rightarrow> string + json list"

definition relabel :: "('a \<Rightarrow> 'b) \<Rightarrow> 'a + 'c \<Rightarrow> 'b + 'c" where
  "relabel f r = (case r of Inl e \<Rightarrow> Inl (f e) | Inr x \<Rightarrow> Inr x)"

definition Build :: "kustomize_env \<Rightarrow> files \<Rightarrow> string \<Rightarrow> kustomize_patch list \<Rightarrow> vars \<Rightarrow> build_error + json list" where
  "Build kz fs path patches vs =
     bind_result (materialize fs []) (\<lambda>root.
     bind_result (build_dir root path) (\<lambda>buildDir.
     if \<not> hasManifests fs path then Inl ErrNoManifests
     else bind_result
       (if hasKustomization root buildDir then Inr root
        else case normalizeJSONManifests buildDir fs root of None \<Rightarrow> Inl NormalizeFailed | Some t \<Rightarrow> Inr t) (\<lambda>tree.
     bind_result (relabel KustomizeFailed (kz_Build kz tree buildDir patches)) (\<lambda>yaml.
     bind_result (if vs = [] then Inr yaml else relabel SubstitutionFailed (kz_Eval kz yaml vs)) (\<lambda>yaml'.
     bind_result (relabel ParseFailed (kz_Read kz yaml')) (\<lambda>objects. Inr (dropPlaceholder objects)))))))"

section \<open>Clean paths\<close>

lemma clean_elems_dots:
  "(\<exists>k ps. rev out = replicate k ''..'' @ ps \<and> ''..'' \<notin> set ps) \<Longrightarrow>
   \<exists>k ps. clean_elems rooted out es = replicate k ''..'' @ ps \<and> ''..'' \<notin> set ps"
proof (induction rooted out es rule: clean_elems.induct)
  case (2 rooted out e es)
  obtain k ps where o: "rev out = replicate k ''..'' @ ps" "''..'' \<notin> set ps" using "2.prems" by blast
  consider "e = [] \<or> e = ''.''" | "e = ''..''" "out \<noteq> []" "hd out \<noteq> ''..''" | "e = ''..''" "\<not> (out \<noteq> [] \<and> hd out \<noteq> ''..'')"
    | "e \<notin> {[], ''.'', ''..''}" by blast
  then show ?case
  proof cases
    case 1
    then show ?thesis using "2.IH"(1) "2.prems" by simp
  next
    case 2
    have ps: "ps \<noteq> []" "rev (tl out) = replicate k ''..'' @ butlast ps"
    proof -
      have last: "last (rev out) = hd out" using 2(2) by (simp add: last_rev)
      show "ps \<noteq> []"
      proof
        assume "ps = []"
        with o(1) have r: "rev out = replicate k ''..''" by simp
        moreover have "k \<noteq> 0" using r 2(2) by (cases k) auto
        ultimately show False using last 2(3) by (simp add: last_replicate)
      qed
      then have "butlast (rev out) = replicate k ''..'' @ butlast ps" using o(1) by (simp add: butlast_append)
      then show "rev (tl out) = replicate k ''..'' @ butlast ps" using 2(2) by (metis butlast_rev)
    qed
    have "''..'' \<notin> set (butlast ps)" using o(2) by (meson in_set_butlastD)
    with ps(2) 2 "2.IH"(2) show ?thesis by auto
  next
    case 3
    have "\<exists>k ps. rev (''..'' # out) = replicate k ''..'' @ ps \<and> ''..'' \<notin> set ps"
    proof (cases "out = []")
      case True
      then have "rev (''..'' # out) = replicate 1 ''..'' @ []" by simp
      then show ?thesis by fastforce
    next
      case False
      have "ps = []"
      proof (rule ccontr)
        assume "ps \<noteq> []"
        then have "hd out = last ps" using o(1) False by (metis last_appendR last_rev)
        with \<open>ps \<noteq> []\<close> o(2) 3(2) False show False by (metis last_in_set)
      qed
      with o(1) have "rev (''..'' # out) = replicate (Suc k) ''..'' @ []" by (simp add: replicate_append_same)
      then show ?thesis by fastforce
    qed
    then show ?thesis using 3 "2.IH"(3,4) "2.prems" by (cases rooted) auto
  next
    case 4
    have "rev (e # out) = replicate k ''..'' @ (ps @ [e])" "''..'' \<notin> set (ps @ [e])" using o 4 by auto
    then have "\<exists>k ps. rev (e # out) = replicate k ''..'' @ ps \<and> ''..'' \<notin> set ps" by blast
    with 4 "2.IH"(5) show ?thesis by simp
  qed
qed simp

lemma has_prefix_shorter: "has_prefix s (p @ q) \<Longrightarrow> has_prefix s p"
  by (auto elim!: has_prefixE)

text \<open>A clean relative path has its parent elements in front.\<close>

lemma path_clean_dots:
  assumes "\<not> has_prefix (path_clean p) ''/''" "''..'' \<in> set (split_on (CHR ''/'') (path_clean p))"
  shows "path_clean p = ''..'' \<or> has_prefix (path_clean p) ''../''"
proof -
  let ?c = "clean_elems False [] (split_on (CHR ''/'') p)"
  have "p \<noteq> []" using assms(2) by (auto simp: path_clean_def str_simps)
  moreover from this have "\<not> has_prefix p ''/''"
    using assms(1) has_prefix_append [of "''/''"] by (simp add: path_clean_def Let_def split: if_splits)
  ultimately have rel: "p \<noteq> []" "\<not> has_prefix p ''/''" .
  obtain k ps where e: "?c = replicate k ''..'' @ ps" "''..'' \<notin> set ps"
    using clean_elems_dots [of "[]" False] by fastforce
  have parts: "\<forall>e\<in>set ?c. CHR ''/'' \<notin> set e"
    using clean_elems_parts [of "[]" "split_on (CHR ''/'') p" _ False] split_on_parts by fastforce
  have "?c \<noteq> []" using assms(2) rel by (auto simp: path_clean_def Let_def str_simps)
  then have clean: "path_clean p = join_with (CHR ''/'') ?c" using rel by (simp add: path_clean_def Let_def)
  with split_join [OF \<open>?c \<noteq> []\<close> parts] assms(2) have "''..'' \<in> set ?c" by simp
  with e have "k \<noteq> 0" by (cases k) auto
  then obtain k' where "k = Suc k'" by (cases k) auto
  with e(1) have "?c = ''..'' # (replicate k' ''..'' @ ps)" by simp
  with clean show ?thesis by (cases "replicate k' ''..'' @ ps") (auto simp: has_prefix_def)
qed

definition inside_root :: "string \<Rightarrow> bool" where
  "inside_root p \<longleftrightarrow> \<not> has_prefix p ''/'' \<and> ''..'' \<notin> set (split_on (CHR ''/'') p)"

section \<open>What is written\<close>

lemma map_of_filter_key: "map_of (filter (\<lambda>(p, _). P p) t) q = (if P q then map_of t q else None)"
  by (induction t) auto

lemma write_file_map: "write_file dest c t = Some t' \<Longrightarrow> map_of t' = (map_of t)(dest \<mapsto> c)"
  by (auto simp: write_file_def map_of_filter_key fun_eq_iff split: if_splits)

text \<open>The tree holds every entry below its clean path, the last of those that share one, and nothing else; no path leaves
  the root.\<close>

lemma materialize_map:
  "materialize fs t = Inr t' \<Longrightarrow>
    map_of t' = fold (\<lambda>(name, c) m. m(path_clean name \<mapsto> c)) fs (map_of t) \<and> (\<forall>(name, c)\<in>set fs. inside_root (path_clean name))"
proof (induction fs t rule: materialize.induct)
  case (2 name content fs t)
  obtain t1 where w: "\<not> has_prefix (path_clean name) ''/''" "\<not> has_prefix (path_clean name) ''..''"
    "write_file (path_clean name) content t = Some t1" "materialize fs t1 = Inr t'"
    using "2.prems" by (auto simp: Let_def split: if_splits option.splits)
  have "inside_root (path_clean name)"
    using path_clean_dots [OF w(1)] w(1,2) has_prefix_shorter [of "path_clean name" "''..''" "''/''"]
    by (auto simp: inside_root_def has_prefix_def)
  with "2.IH" [OF refl _ w(3,4)] w write_file_map [OF w(3)] show ?case by simp
qed simp

section \<open>JSON manifests\<close>

definition yaml_name :: "string \<Rightarrow> string" where
  "yaml_name j = trim_suffix j ''.json'' @ ''.yaml''"

definition renamed :: "tree \<Rightarrow> string \<Rightarrow> string \<Rightarrow> bool" where
  "renamed root d j \<longleftrightarrow> path_dir j = d \<and> path_ext j = ''.json'' \<and> \<not> path_exists root (yaml_name j)"

lemma path_dir_join: "CHR ''/'' \<notin> set b \<Longrightarrow> path_dir (a @ CHR ''/'' # b) = a"
  using cut_append [of "CHR ''/''" "rev b" "rev a"] by (simp add: path_dir_def)

lemma path_dir_split: "path_dir p = ''.'' \<or> length (path_dir p) < length p"
proof (cases "CHR ''/'' \<in> set p")
  case True
  then obtain a b where "p = a @ CHR ''/'' # b" "CHR ''/'' \<notin> set b" by (meson split_list_last)
  then show ?thesis by (simp add: path_dir_join)
qed (simp add: path_dir_def cut_none)

text \<open>A path that lies below another does not lie in the same directory.\<close>

lemma path_dir_below:
  assumes "has_prefix p (y @ ''/'')" "y \<noteq> []" "y \<noteq> ''.''"
  shows "path_dir p \<noteq> path_dir y"
proof -
  obtain rest where p: "p = y @ CHR ''/'' # rest" using assms(1) by (auto elim!: has_prefixE)
  have "path_dir p = y \<or> length y < length (path_dir p)"
  proof (cases "CHR ''/'' \<in> set rest")
    case True
    then obtain a b where "rest = a @ CHR ''/'' # b" "CHR ''/'' \<notin> set b" by (meson split_list_last)
    then have "path_dir p = y @ CHR ''/'' # a" using path_dir_join [of b "y @ CHR ''/'' # a"] p by simp
    then show ?thesis by simp
  qed (simp add: p path_dir_join)
  moreover have "length y > 0" using assms(2) by simp
  ultimately show ?thesis using path_dir_split [of y] assms(3) by (metis One_nat_def length_Cons less_irrefl less_one list.size(3) not_less_iff_gr_or_eq)
qed

lemma path_ext_json: "path_ext j = ''.json'' \<Longrightarrow> \<exists>base. j = base @ ''.json''"
proof -
  assume e: "path_ext j = ''.json''"
  let ?base = "fst (cut (CHR ''/'') (rev j))"
  obtain suffix rest where c: "cut (CHR ''.'') ?base = (suffix, rest, True)" "CHR ''.'' # rev suffix = ''.json''"
    using e by (auto simp: path_ext_def split: prod.splits if_splits)
  then have base: "?base = suffix @ CHR ''.'' # rest" using cut_found [OF c(1)] by blast
  have "\<exists>more. rev j = ?base @ more"
    by (cases "cut (CHR ''/'') (rev j)") (auto simp: cut_def split: list.splits intro: takeWhile_dropWhile_id [symmetric])
  then obtain more where "rev j = suffix @ CHR ''.'' # rest @ more" using base by auto
  then have "j = rev (rest @ more) @ CHR ''.'' # rev suffix" by (metis append_Cons append_assoc rev.simps(2) rev_append rev_rev_ident append_Nil)
  with c(2) show ?thesis by simp
qed

lemma yaml_name_json: "yaml_name (base @ ''.json'') = base @ ''.yaml''"
  by (simp add: yaml_name_def trim_suffix_def has_suffix_def has_prefix_def)

text \<open>The state of the renaming: the manifests in \<open>J\<close> have their new names, every other path is as it was.\<close>

definition renamed_so_far :: "tree \<Rightarrow> string set \<Rightarrow> tree \<Rightarrow> bool" where
  "renamed_so_far root J t \<longleftrightarrow>
     (\<forall>j\<in>J. map_of t j = None \<and> map_of t (yaml_name j) = map_of root j) \<and>
     (\<forall>p. p \<notin> J \<longrightarrow> p \<notin> yaml_name ` J \<longrightarrow> map_of t p = map_of root p)"

lemma is_dir_dom: "is_dir t d \<longleftrightarrow> d = ''.'' \<or> (\<exists>p\<in>dom (map_of t). has_prefix p (d @ ''/''))"
  unfolding is_dir_def list_ex_iff dom_map_of_conv_image_fst by (force simp: case_prod_beta)

definition json_at :: "string \<Rightarrow> string \<Rightarrow> bool" where
  "json_at d j \<longleftrightarrow> path_dir j = d \<and> path_ext j = ''.json''"

lemma json_at_names:
  assumes "json_at d j"
  shows "path_dir (yaml_name j) = d" "path_ext (yaml_name j) \<noteq> ''.json''" "yaml_name j \<noteq> []" "yaml_name j \<noteq> ''.''"
    "json_at d i \<Longrightarrow> yaml_name i = yaml_name j \<Longrightarrow> i = j"
proof -
  obtain base where j: "j = base @ ''.json''" using assms path_ext_json by (auto simp: json_at_def)
  have cutr: "cut (CHR ''/'') (rev (base @ ext)) = (rev ext @ fst (cut (CHR ''/'') (rev base)), snd (cut (CHR ''/'') (rev base)))"
    if "CHR ''/'' \<notin> set ext" for ext
  proof -
    have eqs: "takeWhile (\<lambda>x. x \<noteq> CHR ''/'') (rev ext @ rev base) = rev ext @ takeWhile (\<lambda>x. x \<noteq> CHR ''/'') (rev base)"
      "dropWhile (\<lambda>x. x \<noteq> CHR ''/'') (rev ext @ rev base) = dropWhile (\<lambda>x. x \<noteq> CHR ''/'') (rev base)"
      using that by (auto intro!: takeWhile_append2 dropWhile_append2)
    show ?thesis
    proof (cases "dropWhile (\<lambda>x. x \<noteq> CHR ''/'') (rev base)")
      case Nil
      have "cut (CHR ''/'') (rev (base @ ext)) = (rev (base @ ext), [], False)" "cut (CHR ''/'') (rev base) = (rev base, [], False)"
        unfolding cut_def rev_append eqs(2) Nil by simp_all
      then show ?thesis by simp
    next
      case (Cons x xs)
      have "cut (CHR ''/'') (rev (base @ ext)) = (rev ext @ takeWhile (\<lambda>x. x \<noteq> CHR ''/'') (rev base), xs, True)"
        "cut (CHR ''/'') (rev base) = (takeWhile (\<lambda>x. x \<noteq> CHR ''/'') (rev base), xs, True)"
        unfolding cut_def rev_append eqs Cons by simp_all
      then show ?thesis by simp
    qed
  qed
  have dirs: "path_dir (base @ ext) = path_dir base" if "CHR ''/'' \<notin> set ext" for ext
    using cutr [OF that] by (simp add: path_dir_def split: prod.splits)
  show "path_dir (yaml_name j) = d"
    using assms dirs [of "''.json''"] dirs [of "''.yaml''"] by (simp add: j yaml_name_json json_at_def)
  have "path_ext (base @ ''.yaml'') = ''.yaml''"
    using cutr [of "''.yaml''"] cut_append [of "CHR ''.''" "''lmay''" "fst (cut (CHR ''/'') (rev base))"] by (simp add: path_ext_def)
  then show "path_ext (yaml_name j) \<noteq> ''.json''" by (simp add: j yaml_name_json)
  show "yaml_name j \<noteq> []" by (simp add: yaml_name_def)
  have "length (yaml_name j) \<ge> 5" by (simp add: yaml_name_def)
  then show "yaml_name j \<noteq> ''.''" by auto
  show "i = j" if "json_at d i" "yaml_name i = yaml_name j"
    using that path_ext_json [of i] by (auto simp: json_at_def j yaml_name_json)
qed

lemma renamed_exists:
  assumes "renamed_so_far root J t" "\<forall>i\<in>J. json_at d i \<and> map_of root i \<noteq> None" "json_at d j"
  shows "path_exists t (yaml_name j) \<longleftrightarrow> path_exists root (yaml_name j) \<or> j \<in> J"
proof -
  note names = json_at_names [OF assms(3)]
  have same: "yaml_name j \<in> yaml_name ` J \<longleftrightarrow> j \<in> J"
  proof
    assume "yaml_name j \<in> yaml_name ` J"
    then obtain i where "i \<in> J" "yaml_name i = yaml_name j" by auto
    with assms(2) names(5) [of i] show "j \<in> J" by simp
  qed simp
  have other: "yaml_name j \<notin> J"
  proof
    assume "yaml_name j \<in> J"
    with assms(2) have "path_ext (yaml_name j) = ''.json''" by (simp add: json_at_def)
    with names(2) show False by simp
  qed
  have outside: "\<not> has_prefix p (yaml_name j @ ''/'')" if "p \<in> J \<union> yaml_name ` J" for p
  proof -
    from that obtain i where i: "i \<in> J" "p = i \<or> p = yaml_name i" by auto
    have home: "path_dir p = d"
    proof (cases "p = i")
      case True
      then show ?thesis using i assms(2) by (auto simp: json_at_def)
    next
      case False
      then show ?thesis using i assms(2) json_at_names(1) by metis
    qed
    show ?thesis
    proof
      assume "has_prefix p (yaml_name j @ ''/'')"
      from path_dir_below [OF this names(3,4)] home names(1) show False by simp
    qed
  qed
  have "is_dir t (yaml_name j) \<longleftrightarrow> is_dir root (yaml_name j)"
  proof -
    have "p \<in> dom (map_of t) \<longleftrightarrow> p \<in> dom (map_of root)" if "has_prefix p (yaml_name j @ ''/'')" for p
    proof -
      have "p \<notin> J" "p \<notin> yaml_name ` J" using outside that by blast+
      with assms(1) have "map_of t p = map_of root p" by (simp add: renamed_so_far_def)
      then show ?thesis by (simp add: domIff)
    qed
    then show ?thesis by (auto simp: is_dir_dom)
  qed
  moreover have "map_of t (yaml_name j) \<noteq> None \<longleftrightarrow> map_of root (yaml_name j) \<noteq> None \<or> j \<in> J"
  proof (cases "j \<in> J")
    case True
    then show ?thesis using assms(1,2) by (simp add: renamed_so_far_def)
  next
    case False
    then show ?thesis using assms(1) same other by (simp add: renamed_so_far_def)
  qed
  ultimately show ?thesis by (auto simp: path_exists_def)
qed

lemma normalize_renames:
  assumes "renamed_so_far root J t" "\<forall>i\<in>J. json_at d i \<and> map_of root i \<noteq> None" "\<forall>(name, _)\<in>set fs. map_of root (path_clean name) \<noteq> None"
  shows "\<exists>t'. normalizeJSONManifests d fs t = Some t' \<and>
    renamed_so_far root (J \<union> {j \<in> path_clean ` fst ` set fs. renamed root d j}) t'"
  using assms
proof (induction fs arbitrary: J t)
  case (Cons f fs)
  obtain name content where f: "f = (name, content)" by (cases f)
  let ?j = "path_clean name"
  have rest: "\<forall>(name, _)\<in>set fs. map_of root (path_clean name) \<noteq> None" using Cons.prems(3) by simp
  show ?case
  proof (cases "json_at d ?j \<and> \<not> path_exists t (yaml_name ?j)")
    case False
    have run: "normalizeJSONManifests d (f # fs) t = normalizeJSONManifests d fs t"
      using False by (auto simp: f json_at_def yaml_name_def Let_def)
    have "renamed root d ?j \<longrightarrow> ?j \<in> J"
      using False renamed_exists [OF Cons.prems(1,2)] by (auto simp: renamed_def json_at_def)
    then have "J \<union> {j \<in> path_clean ` fst ` set (f # fs). renamed root d j} = J \<union> {j \<in> path_clean ` fst ` set fs. renamed root d j}"
      by (auto simp: f)
    with Cons.IH [OF Cons.prems(1,2) rest] run show ?thesis by simp
  next
    case True
    have fresh: "?j \<notin> J" "\<not> path_exists root (yaml_name ?j)"
      using True renamed_exists [OF Cons.prems(1,2)] by auto
    have "?j \<notin> yaml_name ` J"
      using True Cons.prems(2) json_at_names(2) by (auto simp: json_at_def)
    with fresh Cons.prems(1) have same: "map_of t ?j = map_of root ?j" by (simp add: renamed_so_far_def)
    obtain c where c: "map_of root ?j = Some c" using Cons.prems(3) by (auto simp: f)
    define t1 where "t1 = (yaml_name ?j, c) # filter (\<lambda>(p, _). p \<noteq> ?j \<and> p \<noteq> yaml_name ?j) t"
    have run: "normalizeJSONManifests d (f # fs) t = normalizeJSONManifests d fs t1"
      using True same c by (auto simp: f json_at_def yaml_name_def t1_def rename_file_def Let_def)
    have differ: "yaml_name ?j \<noteq> ?j" using True json_at_names(2) [of d ?j] by (metis json_at_def)
    have t1: "map_of t1 p = (if p = yaml_name ?j then Some c else if p = ?j then None else map_of t p)" for p
      by (simp add: t1_def map_of_filter_key)
    have "renamed_so_far root (insert ?j J) t1"
    proof -
      have "yaml_name i \<noteq> ?j" "i \<noteq> yaml_name ?j" "yaml_name i \<noteq> yaml_name ?j" if "i \<in> J" for i
      proof -
        have i: "json_at d i" "json_at d ?j" "i \<noteq> ?j" using that Cons.prems(2) True fresh(1) by auto
        show "yaml_name i \<noteq> ?j" using json_at_names(2) [OF i(1)] i(2) by (metis json_at_def)
        show "i \<noteq> yaml_name ?j" using json_at_names(2) [OF i(2)] i(1) by (metis json_at_def)
        show "yaml_name i \<noteq> yaml_name ?j" using json_at_names(5) [OF i(2,1)] i(3) by blast
      qed
      then show ?thesis using Cons.prems(1) c differ fresh by (auto simp: renamed_so_far_def t1)
    qed
    moreover have "\<forall>i\<in>insert ?j J. json_at d i \<and> map_of root i \<noteq> None" using Cons.prems(2) True c by auto
    moreover have "insert ?j J \<union> {j \<in> path_clean ` fst ` set fs. renamed root d j} =
        J \<union> {j \<in> path_clean ` fst ` set (f # fs). renamed root d j}"
      using True fresh(2) by (auto simp: f renamed_def json_at_def)
    ultimately show ?thesis using Cons.IH [of "insert ?j J" t1] rest run by simp
  qed
qed simp

section \<open>Properties\<close>

lemma fold_writes_dom: "dom (fold (\<lambda>(name, c) m. m(path_clean name \<mapsto> c)) fs m) = path_clean ` fst ` set fs \<union> dom m"
  by (induction fs arbitrary: m) (auto simp: case_prod_beta)

lemma build_dir_inside:
  assumes "build_dir t path = Inr d" "\<forall>p\<in>dom (map_of t). inside_root p"
  shows "inside_root d \<and> is_dir t d"
proof (cases "d = ''.''")
  case True
  then show ?thesis by (simp add: inside_root_def is_dir_def has_prefix_def)
next
  case False
  then have d: "d = path_clean (trim_slashes path)" "d \<noteq> ''..''" "\<not> has_prefix d ''../''" "is_dir t d"
    using assms(1) by (auto simp: build_dir_def Let_def split: if_splits)
  then obtain p where p: "p \<in> dom (map_of t)" "has_prefix p (d @ ''/'')" using False by (auto simp: is_dir_dom)
  have "\<not> has_prefix d ''/''"
  proof
    assume "has_prefix d ''/''"
    with p(2) have "has_prefix p ''/''" by (auto elim!: has_prefixE) (simp add: has_prefix_def)
    with assms(2) p(1) show False by (simp add: inside_root_def)
  qed
  with path_clean_dots [of "trim_slashes path"] d show ?thesis by (auto simp: inside_root_def)
qed

lemma build_dir_manifests:
  assumes "build_dir t path = Inr d" "hasManifests fs path"
  shows "\<exists>name content. (name, content) \<in> set fs \<and> (d = ''.'' \<or> has_prefix (path_clean name) (d @ ''/'')) \<and>
    to_lower (path_ext (path_clean name)) \<in> manifestExts"
  using assms by (auto simp: build_dir_def hasManifests_def Let_def list_ex_iff split: if_splits)

text \<open>C27: What a build reads. A build that returns objects has written every entry of the artifact below its root, under its
  clean path, and none outside; it runs in a directory inside the root below which the artifact has at least one manifest; and
  kustomize sees there exactly the artifact's files, except that, without a kustomization of its own, a JSON manifest in the
  build directory is offered under its YAML name unless that name is taken. The objects are what is read from its text,
  substituted when there are variables, without the placeholder.\<close>

theorem build_contained:
  assumes "Build kz fs path patches vs = Inr objs"
  shows "\<exists>root d t. map_of root = fold (\<lambda>(name, c) m. m(path_clean name \<mapsto> c)) fs Map.empty \<and>
    (\<forall>(name, _)\<in>set fs. inside_root (path_clean name)) \<and> inside_root d \<and> is_dir root d \<and>
    (\<exists>name content. (name, content) \<in> set fs \<and> (d = ''.'' \<or> has_prefix (path_clean name) (d @ ''/'')) \<and>
      to_lower (path_ext (path_clean name)) \<in> manifestExts) \<and>
    renamed_so_far root (if hasKustomization root d then {} else {j \<in> dom (map_of root). renamed root d j}) t \<and>
    (\<exists>yaml out raw. kz_Build kz t d patches = Inr yaml \<and> (if vs = [] then out = yaml else kz_Eval kz yaml vs = Inr out) \<and>
      kz_Read kz out = Inr raw \<and> objs = dropPlaceholder raw)"
proof -
  have relabeled: "relabel f r = Inr x \<longleftrightarrow> r = Inr x" for f :: "string \<Rightarrow> build_error" and r :: "string + 'b" and x
    by (auto simp: relabel_def split: sum.splits)
  obtain root d t yaml out raw where b: "materialize fs [] = Inr root" "build_dir root path = Inr d" "hasManifests fs path"
    "if hasKustomization root d then t = root else normalizeJSONManifests d fs root = Some t"
    "kz_Build kz t d patches = Inr yaml" "if vs = [] then out = yaml else kz_Eval kz yaml vs = Inr out"
    "kz_Read kz out = Inr raw" "objs = dropPlaceholder raw"
    using assms by (cases "vs = []") (auto simp: Build_def bind_result_eq_Inr relabeled split: if_splits option.splits)
  note root = materialize_map [OF b(1)]
  have dom_root: "dom (map_of root) = path_clean ` fst ` set fs" using root fold_writes_dom [of fs] by simp
  then have "\<forall>p\<in>dom (map_of root). inside_root p" using root by auto
  with build_dir_inside [OF b(2)] have d: "inside_root d" "is_dir root d" by auto
  have "renamed_so_far root (if hasKustomization root d then {} else {j \<in> dom (map_of root). renamed root d j}) t"
  proof (cases "hasKustomization root d")
    case True
    with b(4) show ?thesis by (simp add: renamed_so_far_def)
  next
    case False
    have "renamed_so_far root {} root" by (simp add: renamed_so_far_def)
    moreover have "\<forall>(name, _)\<in>set fs. map_of root (path_clean name) \<noteq> None"
      using dom_root by (force simp: domIff)
    ultimately show ?thesis using normalize_renames [of root "{}" root d fs] b(4) False dom_root by auto
  qed
  moreover have "map_of root = fold (\<lambda>(name, c) m. m(path_clean name \<mapsto> c)) fs Map.empty" using root by simp
  ultimately show ?thesis using root d build_dir_manifests [OF b(2,3)] b(5-8) by blast
qed

text \<open>The check for manifests is about names in any case and at any depth, the renaming about the exact extension in the build
  directory: an artifact whose only manifest is JSON in a subdirectory passes the check and is offered to kustomize as it is.\<close>

lemma nested_json_not_offered:
  "hasManifests [(''sub/app.json'', c)] [] \<and> build_dir [(''sub/app.json'', c)] [] = Inr ''.'' \<and>
   materialize [(''sub/app.json'', c)] [] = Inr [(''sub/app.json'', c)] \<and> \<not> hasKustomization [(''sub/app.json'', c)] ''.'' \<and>
   normalizeJSONManifests ''.'' [(''sub/app.json'', c)] [(''sub/app.json'', c)] = Some [(''sub/app.json'', c)]"
proof -
  have "path_clean ''sub/app.json'' = ''sub/app.json''" "path_dir ''sub/app.json'' = ''sub''" "path_ext ''sub/app.json'' = ''.json''"
    "to_lower ''.json'' = ''.json''" "trim_slashes [] = []" by code_simp+
  then show ?thesis
    by (simp add: hasManifests_def build_dir_def manifestExts_def write_file_def is_dir_def hasKustomization_def path_exists_def
        path_join_def has_prefix_def)
qed

text \<open>A rendered manifest beside a YAML file, in a subdirectory of the artifact.\<close>

definition demo_kustomize :: kustomize_env where
  "demo_kustomize =
     \<lparr>kz_Build = (\<lambda>t d _. Inr (concat (map snd (filter (\<lambda>(p, _). path_ext p = ''.yaml'') t)))), kz_Eval = (\<lambda>text vs. Inr (text @ concat (map snd vs))),
      kz_Read = (\<lambda>text. Inr [JString text, JMap [(''kind'', JString ''Namespace''), (''metadata'', JMap [(''name'', JString placeholderNamespace)])]])\<rparr>"

lemma build_contained_witness:
  "Build demo_kustomize [(''app/rendered.json'', ''a''), (''app/cm.yaml'', ''b''), (''other.txt'', ''c'')] ''/app/'' [] [(''v'', ''1'')] = Inr [JString ''ab1''] \<and>
   (\<exists>d t. inside_root d \<and> kz_Build demo_kustomize t d [] = Inr ''ab'')"
proof -
  have run: "Build demo_kustomize [(''app/rendered.json'', ''a''), (''app/cm.yaml'', ''b''), (''other.txt'', ''c'')] ''/app/'' [] [(''v'', ''1'')] = Inr [JString ''ab1'']"
    by code_simp
  from build_contained [OF run] obtain d t yaml out raw where
    "inside_root d" "kz_Build demo_kustomize t d [] = Inr yaml" "kz_Eval demo_kustomize yaml [(''v'', ''1'')] = Inr out"
    "kz_Read demo_kustomize out = Inr raw" "[JString ''ab1''] = dropPlaceholder raw"
    by (auto split: if_splits)
  moreover from this have "yaml = ''ab''"
    by (auto simp: demo_kustomize_def dropPlaceholder_def GetKind_def nested_string_def placeholderNamespace_def split: if_splits)
  ultimately show ?thesis using run by blast
qed

end
