(* ===== verification/Decryption.thy ===== *)
theory Decryption
  imports Rollback
begin

text \<open>
  Decryption of a stage's files (\<open>internal/decryptor\<close>, \<open>internal/controller/decryption.go\<close>): the key material a
  Secret holds, the key services a decryptor is built from, and the decryption of the files of an artifact. Parsing
  keys, the ciphers, the cloud services and SOPS' file stores and tree decryption are arguments.
\<close>

section \<open>Key material (keys.go)\<close>

record Keys =
  ky_Age :: "string list"
  ky_PGP :: "string list"

definition AgeKeySuffix :: string where
  "AgeKeySuffix = ''.agekey''"

definition PGPKeySuffix :: string where
  "PGPKeySuffix = ''.asc''"

text \<open>The entries in the order a map iteration gives them.\<close>

definition KeysFromSecretData :: "vars \<Rightarrow> Keys" where
  "KeysFromSecretData data =
     \<lparr>ky_Age = map snd (filter (\<lambda>(k, v). has_suffix k AgeKeySuffix) data),
      ky_PGP = map snd (filter (\<lambda>(k, v). \<not> has_suffix k AgeKeySuffix \<and> has_suffix k PGPKeySuffix) data)\<rparr>"

section \<open>Key services (decryptor.go)\<close>

text \<open>A master key of an encrypted file, and the data key encrypted to it.\<close>

datatype key_type =
    AgeKey string | PgpKey string | KmsKey string "(string \<times> string) list" string | GcpKmsKey string
  | AzureKeyvaultKey string string string | OtherKey string

record decrypt_request =
  rq_Key :: key_type
  rq_Ciphertext :: string

type_synonym key_service = "decrypt_request \<Rightarrow> string option"

datatype file_format = Yaml | Json | Dotenv | Ini | Binary

datatype 't loaded = MetadataNotFound | LoadFailed string | Loaded 't

text \<open>The identities of a KMS call are a namespace and a ServiceAccount. \<open>sp_local\<close> is the stock key service, which
  resolves every key with what the controller's own environment holds.\<close>

record ('i, 'p, 't) sops =
  sp_ImportAge :: "string \<Rightarrow> 'i list option"
  sp_ReadKeyRing :: "string \<Rightarrow> 'p list option"
  sp_ageDecrypt :: "'i list \<Rightarrow> string \<Rightarrow> string \<Rightarrow> string option"
  sp_pgpDecrypt :: "'p list \<Rightarrow> string \<Rightarrow> string option"
  sp_awsDecrypt :: "string \<times> string \<Rightarrow> string \<Rightarrow> (string \<times> string) list option \<Rightarrow> string \<Rightarrow> string \<Rightarrow> string option"
  sp_gcpDecrypt :: "string \<times> string \<Rightarrow> string \<Rightarrow> string \<Rightarrow> string option"
  sp_azureDecrypt :: "string \<times> string \<Rightarrow> string \<Rightarrow> string \<Rightarrow> string \<Rightarrow> string \<Rightarrow> string option"
  sp_local :: key_service
  sp_FormatForPath :: "string \<Rightarrow> file_format"
  sp_Load :: "file_format \<Rightarrow> string \<Rightarrow> 't loaded"
  sp_DecryptTree :: "key_service list \<Rightarrow> 't \<Rightarrow> string + 't"
  sp_EmitPlain :: "file_format \<Rightarrow> 't \<Rightarrow> string + string"

definition ageKeyService :: "('i, 'p, 't) sops \<Rightarrow> 'i list \<Rightarrow> key_service" where
  "ageKeyService sp ids rq = (case rq_Key rq of AgeKey recipient \<Rightarrow> sp_ageDecrypt sp ids recipient (rq_Ciphertext rq) | _ \<Rightarrow> None)"

definition pgpKeyService :: "('i, 'p, 't) sops \<Rightarrow> 'p list \<Rightarrow> key_service" where
  "pgpKeyService sp entities rq = (case rq_Key rq of PgpKey _ \<Rightarrow> sp_pgpDecrypt sp entities (rq_Ciphertext rq) | _ \<Rightarrow> None)"

definition kmsContext :: "(string \<times> string) list \<Rightarrow> (string \<times> string) list option" where
  "kmsContext ctx = (if ctx = [] then None else Some ctx)"

definition kmsKeyService :: "('i, 'p, 't) sops \<Rightarrow> string \<times> string \<Rightarrow> key_service" where
  "kmsKeyService sp creds rq =
     (case rq_Key rq of
        KmsKey arn ctx role \<Rightarrow> sp_awsDecrypt sp creds arn (kmsContext ctx) role (rq_Ciphertext rq)
      | GcpKmsKey resource \<Rightarrow> sp_gcpDecrypt sp creds resource (rq_Ciphertext rq)
      | AzureKeyvaultKey vault name version \<Rightarrow> sp_azureDecrypt sp creds vault name version (rq_Ciphertext rq)
      | _ \<Rightarrow> None)"

text \<open>Keys that are not blank, parsed one after the other; the first that does not parse is an error.\<close>

fun import_keys :: "(string \<Rightarrow> 'k list option) \<Rightarrow> string list \<Rightarrow> 'k list option" where
  "import_keys parse [] = Some []"
| "import_keys parse (k # ks) =
     (if trim_space k = [] then import_keys parse ks
      else (case parse k of
          None \<Rightarrow> None
        | Some ids \<Rightarrow> map_option (\<lambda>rest. ids @ rest) (import_keys parse ks)))"

definition parsePGPKeys :: "('i, 'p, 't) sops \<Rightarrow> string list \<Rightarrow> 'p list option" where
  "parsePGPKeys sp keys = import_keys (sp_ReadKeyRing sp) keys"

definition New :: "('i, 'p, 't) sops \<Rightarrow> Keys \<Rightarrow> (string \<times> string) option \<Rightarrow> string + key_service list" where
  "New sp keys creds =
     (case import_keys (sp_ImportAge sp) (ky_Age keys) of
        None \<Rightarrow> Inl ''decryptor: parse age identity''
      | Some ids \<Rightarrow>
          (case parsePGPKeys sp (ky_PGP keys) of
             None \<Rightarrow> Inl ''decryptor: parse pgp key''
           | Some entities \<Rightarrow>
               Inr ((if ids \<noteq> [] then [ageKeyService sp ids] else []) @
                    (if entities \<noteq> [] then [pgpKeyService sp entities] else []) @
                    (case creds of Some c \<Rightarrow> [kmsKeyService sp c] | None \<Rightarrow> [sp_local sp]))))"

definition decryptFile :: "('i, 'p, 't) sops \<Rightarrow> key_service list \<Rightarrow> string \<Rightarrow> string \<Rightarrow> string + string" where
  "decryptFile sp services name data =
     (let format = sp_FormatForPath sp name in
      if format \<notin> {Yaml, Json, Dotenv, Ini} then Inr data
      else (case sp_Load sp format data of
          MetadataNotFound \<Rightarrow> Inr data
        | LoadFailed e \<Rightarrow> Inl e
        | Loaded t \<Rightarrow> bind_result (sp_DecryptTree sp services t) (sp_EmitPlain sp format)))"

definition DecryptFiles :: "('i, 'p, 't) sops \<Rightarrow> key_service list \<Rightarrow> files \<Rightarrow> string + files" where
  "DecryptFiles sp services = map_result (\<lambda>(name, content). bind_result (decryptFile sp services name content) (\<lambda>dec. Inr (name, dec)))"

section \<open>The decryptor of a StageSet (decryption.go)\<close>

text \<open>\<open>local\<close> reads as the StageSet's ServiceAccount, when it connects.\<close>

definition kms_identity :: "bool \<Rightarrow> StageSet \<Rightarrow> (string \<times> string) option" where
  "kms_identity objectLevelKMS ss =
     (let sa = spec_ServiceAccountName (set_Spec ss) in if objectLevelKMS \<and> sa \<noteq> [] then Some (set_Namespace ss, sa) else None)"

definition buildDecryptor ::
  "('i, 'p, 't) sops \<Rightarrow> bool \<Rightarrow> tenant_reader \<Rightarrow> StageSet \<Rightarrow> string + (files \<Rightarrow> string + files) option" where
  "buildDecryptor sp objectLevelKMS tenant ss =
     (case spec_Decryption (set_Spec ss) of
        None \<Rightarrow> Inr None
      | Some d \<Rightarrow>
          if dec_Provider d \<noteq> ''sops'' then Inl ''spec.decryption.provider is not supported (only sops)''
          else bind_result
            (case dec_SecretRef d of
               None \<Rightarrow> Inr \<lparr>ky_Age = [], ky_PGP = []\<rparr>
             | Some secret \<Rightarrow>
                 if \<not> tr_connects tenant then Inl ''decryption''
                 else (case tr_Secret tenant secret of
                     ReadData data \<Rightarrow> Inr (KeysFromSecretData data)
                   | _ \<Rightarrow> Inl ''decryption: read key secret''))
            (\<lambda>keys. bind_result (New sp keys (kms_identity objectLevelKMS ss)) (\<lambda>services. Inr (Some (DecryptFiles sp services)))))"

section \<open>Where the plain text comes from\<close>

lemma import_keys_mem:
  "import_keys parse ks = Some ids \<Longrightarrow> x \<in> set ids \<Longrightarrow> \<exists>k\<in>set ks. \<exists>ids'. parse k = Some ids' \<and> x \<in> set ids'"
  by (induction ks arbitrary: ids) (auto split: if_splits option.splits)

lemma New_services:
  assumes "New sp keys creds = Inr services" "s \<in> set services"
  shows "(\<exists>ids. import_keys (sp_ImportAge sp) (ky_Age keys) = Some ids \<and> s = ageKeyService sp ids) \<or>
    (\<exists>es. parsePGPKeys sp (ky_PGP keys) = Some es \<and> s = pgpKeyService sp es) \<or>
    (case creds of Some c \<Rightarrow> s = kmsKeyService sp c | None \<Rightarrow> s = sp_local sp)"
  using assms by (auto simp: New_def split: option.splits if_splits)

text \<open>The data key a request yields, by who may resolve it.\<close>

definition tenant_key :: "('i, 'p, 't) sops \<Rightarrow> Keys \<Rightarrow> (string \<times> string) option \<Rightarrow> decrypt_request \<Rightarrow> string \<Rightarrow> bool" where
  "tenant_key sp keys creds rq dk =
     (case rq_Key rq of
        AgeKey recipient \<Rightarrow> \<exists>ids. import_keys (sp_ImportAge sp) (ky_Age keys) = Some ids \<and>
          sp_ageDecrypt sp ids recipient (rq_Ciphertext rq) = Some dk
      | PgpKey _ \<Rightarrow> \<exists>es. parsePGPKeys sp (ky_PGP keys) = Some es \<and> sp_pgpDecrypt sp es (rq_Ciphertext rq) = Some dk
      | KmsKey _ _ _ \<Rightarrow> \<exists>c. creds = Some c \<and> kmsKeyService sp c rq = Some dk
      | GcpKmsKey _ \<Rightarrow> \<exists>c. creds = Some c \<and> kmsKeyService sp c rq = Some dk
      | AzureKeyvaultKey _ _ _ \<Rightarrow> \<exists>c. creds = Some c \<and> kmsKeyService sp c rq = Some dk
      | OtherKey _ \<Rightarrow> False)"

definition opened_by :: "('i, 'p, 't) sops \<Rightarrow> Keys \<Rightarrow> (string \<times> string) option \<Rightarrow> decrypt_request \<Rightarrow> string \<Rightarrow> bool" where
  "opened_by sp keys creds rq dk \<longleftrightarrow> tenant_key sp keys creds rq dk \<or> creds = None \<and> sp_local sp rq = Some dk"

lemma New_tenant_key:
  assumes "New sp keys creds = Inr services" "s \<in> set services" "s rq = Some dk"
  shows "opened_by sp keys creds rq dk"
  using New_services [OF assms(1,2)] assms(3)
  by (cases "rq_Key rq"; cases creds)
    (auto simp: opened_by_def tenant_key_def ageKeyService_def pgpKeyService_def kmsKeyService_def)

definition key_material :: "tenant_reader \<Rightarrow> Decryption \<Rightarrow> Keys \<Rightarrow> bool" where
  "key_material tenant d keys \<longleftrightarrow>
     (case dec_SecretRef d of
        None \<Rightarrow> keys = \<lparr>ky_Age = [], ky_PGP = []\<rparr>
      | Some secret \<Rightarrow> tr_connects tenant \<and> (\<exists>data. tr_Secret tenant secret = ReadData data \<and> keys = KeysFromSecretData data))"

lemma buildDecryptor_shape:
  assumes "buildDecryptor sp objectLevelKMS tenant ss = Inr (Some d)"
  shows "\<exists>dec keys services. spec_Decryption (set_Spec ss) = Some dec \<and> key_material tenant dec keys \<and>
    New sp keys (kms_identity objectLevelKMS ss) = Inr services \<and> d = DecryptFiles sp services"
proof -
  let ?creds = "kms_identity objectLevelKMS ss"
  obtain dec where dec: "spec_Decryption (set_Spec ss) = Some dec" "dec_Provider dec = ''sops''"
    using assms by (auto simp: buildDecryptor_def split: option.splits if_splits)
  define keys_of where "keys_of = (case dec_SecretRef dec of
      None \<Rightarrow> Inr \<lparr>ky_Age = [], ky_PGP = []\<rparr>
    | Some secret \<Rightarrow>
        if \<not> tr_connects tenant then Inl ''decryption''
        else (case tr_Secret tenant secret of
            ReadData data \<Rightarrow> Inr (KeysFromSecretData data)
          | _ \<Rightarrow> Inl ''decryption: read key secret''))"
  have "bind_result keys_of (\<lambda>keys. bind_result (New sp keys ?creds) (\<lambda>services. Inr (Some (DecryptFiles sp services)))) = Inr (Some d)"
    using assms dec unfolding buildDecryptor_def keys_of_def Let_def by simp
  then obtain keys services where k: "keys_of = Inr keys" "New sp keys ?creds = Inr services" "d = DecryptFiles sp services"
    by (auto simp: bind_result_eq_Inr)
  have "key_material tenant dec keys"
    using k(1) by (auto simp: keys_of_def key_material_def split: option.splits if_splits read_result.splits)
  with dec(1) k(2,3) show ?thesis by blast
qed

text \<open>C28: Who decrypts a file. With SOPS resolving a file's data key through one of the services it is given, every file a
  StageSet's decryptor returns is either one of the artifact's, as it was, or was deciphered with a data key that an age or
  PGP key of the Secret its ServiceAccount reads has opened, or a cloud key service called as that ServiceAccount; the
  controller's own environment opens a key only when keys are not bound to the tenant, by flag or for want of a
  ServiceAccount.\<close>

theorem decryption_provenance:
  assumes sops: "\<forall>services t t'. sp_DecryptTree sp services t = Inr t' \<longrightarrow>
      (\<exists>rq\<in>set (requests t). \<exists>s\<in>set services. \<exists>dk. s rq = Some dk \<and> t' = decipher dk t)"
    and run: "buildDecryptor sp objectLevelKMS tenant ss = Inr (Some d)" "d fs = Inr out"
  shows "\<exists>dec keys. spec_Decryption (set_Spec ss) = Some dec \<and> key_material tenant dec keys \<and>
    list_all2 (\<lambda>(name, content) (name', plain). name' = name \<and>
      (plain = content \<or>
       (\<exists>t rq dk. sp_Load sp (sp_FormatForPath sp name) content = Loaded t \<and> rq \<in> set (requests t) \<and>
          sp_EmitPlain sp (sp_FormatForPath sp name) (decipher dk t) = Inr plain \<and>
          opened_by sp keys (kms_identity objectLevelKMS ss) rq dk))) fs out"
proof -
  let ?creds = "kms_identity objectLevelKMS ss"
  obtain dec keys services where b: "spec_Decryption (set_Spec ss) = Some dec" "key_material tenant dec keys"
    "New sp keys ?creds = Inr services" "d = DecryptFiles sp services"
    using buildDecryptor_shape [OF run(1)] by blast
  have one: "plain = content \<or>
       (\<exists>t rq dk. sp_Load sp (sp_FormatForPath sp name) content = Loaded t \<and> rq \<in> set (requests t) \<and>
          sp_EmitPlain sp (sp_FormatForPath sp name) (decipher dk t) = Inr plain \<and>
          opened_by sp keys ?creds rq dk)"
    if dec: "decryptFile sp services name content = Inr plain" for name content plain
  proof (cases "plain = content")
    case False
    with dec obtain t t' where t: "sp_Load sp (sp_FormatForPath sp name) content = Loaded t"
      "sp_DecryptTree sp services t = Inr t'" "sp_EmitPlain sp (sp_FormatForPath sp name) t' = Inr plain"
      by (auto simp: decryptFile_def Let_def bind_result_eq_Inr split: loaded.splits if_splits)
    with sops obtain rq s dk where "rq \<in> set (requests t)" "s \<in> set services" "s rq = Some dk" "t' = decipher dk t" by blast
    with t New_tenant_key [OF b(3)] show ?thesis by blast
  qed simp
  have "map_result (\<lambda>(name, content). bind_result (decryptFile sp services name content) (\<lambda>dec. Inr (name, dec))) fs = Inr out"
    using run(2) by (simp add: b(4) DecryptFiles_def)
  then have "list_all2 (\<lambda>(name, content) (name', plain). name' = name \<and> decryptFile sp services name content = Inr plain) fs out"
    unfolding map_result_eq_Inr by (rule list.rel_mono_strong) (auto simp: bind_result_eq_Inr)
  then have "list_all2 (\<lambda>(name, content) (name', plain). name' = name \<and>
      (plain = content \<or>
       (\<exists>t rq dk. sp_Load sp (sp_FormatForPath sp name) content = Loaded t \<and> rq \<in> set (requests t) \<and>
          sp_EmitPlain sp (sp_FormatForPath sp name) (decipher dk t) = Inr plain \<and>
          opened_by sp keys (kms_identity objectLevelKMS ss) rq dk))) fs out"
    by (rule list.rel_mono_strong) (use one in blast)
  with b(1,2) show ?thesis by blast
qed

text \<open>With keys bound to the tenant the controller's environment has no say at all; without, it opens keys that no identity of
  the Secret opens.\<close>

lemma decryptFile_local: "decryptFile (sp\<lparr>sp_local := l\<rparr>) services = decryptFile sp services"
  by (intro ext) (simp add: decryptFile_def Let_def split: loaded.split)

lemma bound_decryptor_ignores_environment:
  assumes "spec_ServiceAccountName (set_Spec ss) \<noteq> []"
  shows "buildDecryptor (sp\<lparr>sp_local := l\<rparr>) True tenant ss = buildDecryptor sp True tenant ss"
proof -
  have "ageKeyService (sp\<lparr>sp_local := l\<rparr>) = ageKeyService sp" "pgpKeyService (sp\<lparr>sp_local := l\<rparr>) = pgpKeyService sp"
    "kmsKeyService (sp\<lparr>sp_local := l\<rparr>) = kmsKeyService sp"
    by (intro ext; simp add: ageKeyService_def pgpKeyService_def kmsKeyService_def split: key_type.split)+
  moreover have "DecryptFiles (sp\<lparr>sp_local := l\<rparr>) = DecryptFiles sp"
    by (intro ext) (simp add: DecryptFiles_def decryptFile_local)
  ultimately have "New (sp\<lparr>sp_local := l\<rparr>) keys (Some c) = New sp keys (Some c)" for keys c
    by (simp add: New_def parsePGPKeys_def split: option.split)
  then show ?thesis using assms \<open>DecryptFiles _ = _\<close> by (simp add: buildDecryptor_def kms_identity_def Let_def split: option.split)
qed

text \<open>A file encrypted to two age recipients. The tenant's Secret holds the second identity.\<close>

definition demo_sops :: "(string, string, string) sops" where
  "demo_sops =
     \<lparr>sp_ImportAge = (\<lambda>k. Some [k]), sp_ReadKeyRing = (\<lambda>k. Some [k]),
      sp_ageDecrypt = (\<lambda>ids recipient c. if recipient \<in> set ids then Some c else None),
      sp_pgpDecrypt = (\<lambda>_ _. None), sp_awsDecrypt = (\<lambda>_ _ _ _ _. None), sp_gcpDecrypt = (\<lambda>_ _ _. None), sp_azureDecrypt = (\<lambda>_ _ _ _ _. None),
      sp_local = (\<lambda>_. None), sp_FormatForPath = (\<lambda>name. if has_suffix name ''.yaml'' then Yaml else Binary),
      sp_Load = (\<lambda>_ c. if has_prefix c ''ENC:'' then Loaded (drop 4 c) else MetadataNotFound),
      sp_DecryptTree = (\<lambda>services t.
        case List.map_filter (\<lambda>s. s \<lparr>rq_Key = AgeKey ''two'', rq_Ciphertext = ''k''\<rparr>) services of
          [] \<Rightarrow> Inl ''no key'' | dk # _ \<Rightarrow> Inr (t @ dk)),
      sp_EmitPlain = (\<lambda>_ t. Inr t)\<rparr>"

definition demo_tenant :: "vars \<Rightarrow> tenant_reader" where
  "demo_tenant data = \<lparr>tr_connects = True, tr_ConfigMap = (\<lambda>_. ReadNotFound), tr_Secret = (\<lambda>_. ReadData data)\<rparr>"

definition demo_encrypted_set :: StageSet where
  "demo_encrypted_set = (plain_set [])\<lparr>set_Spec := (plain_spec [])\<lparr>spec_ServiceAccountName := ''deployer'',
     spec_Decryption := Some \<lparr>dec_Provider = ''sops'', dec_SecretRef = Some ''keys''\<rparr>\<rparr>\<rparr>"

definition demo_decrypted :: "string + files" where
  "demo_decrypted =
     bind_result (buildDecryptor demo_sops True (demo_tenant [(''a.agekey'', ''two''), (''b.txt'', ''x'')]) demo_encrypted_set)
       (\<lambda>d. case d of None \<Rightarrow> Inl [] | Some f \<Rightarrow> f [(''secret.yaml'', ''ENC:pw''), (''logo.png'', ''ENC:raw'')])"

lemma decryption_provenance_witness:
  "\<exists>d dec keys. buildDecryptor demo_sops True (demo_tenant [(''a.agekey'', ''two''), (''b.txt'', ''x'')]) demo_encrypted_set = Inr (Some d) \<and>
     d [(''secret.yaml'', ''ENC:pw''), (''logo.png'', ''ENC:raw'')] = Inr [(''secret.yaml'', ''pwk''), (''logo.png'', ''ENC:raw'')] \<and>
     key_material (demo_tenant [(''a.agekey'', ''two''), (''b.txt'', ''x'')]) dec keys \<and>
     (\<exists>rq dk. tenant_key demo_sops keys (Some (''prod'', ''deployer'')) rq dk \<and> ''pwk'' = ''pw'' @ dk)"
proof -
  let ?tenant = "demo_tenant [(''a.agekey'', ''two''), (''b.txt'', ''x'')]" and ?rq = "\<lparr>rq_Key = AgeKey ''two'', rq_Ciphertext = ''k''\<rparr>"
  let ?fs = "[(''secret.yaml'', ''ENC:pw''), (''logo.png'', ''ENC:raw'')]" and ?out = "[(''secret.yaml'', ''pwk''), (''logo.png'', ''ENC:raw'')]"
  have demo: "demo_decrypted = Inr ?out" by code_simp
  then obtain d where d: "buildDecryptor demo_sops True ?tenant demo_encrypted_set = Inr (Some d)" "d ?fs = Inr ?out"
    by (auto simp: demo_decrypted_def bind_result_eq_Inr split: option.splits)
  have first: "\<exists>s\<in>set services. s rq = Some dk" if "List.map_filter (\<lambda>s. s rq) services = dk # rest"
    for services :: "key_service list" and rq dk rest
  proof -
    have "dk \<in> set (List.map_filter (\<lambda>s. s rq) services)" using that by simp
    then show ?thesis by (auto simp: List.map_filter_def)
  qed
  have sops: "\<forall>services t t'. sp_DecryptTree demo_sops services t = Inr t' \<longrightarrow>
      (\<exists>rq\<in>set ((\<lambda>_. [?rq]) t). \<exists>s\<in>set services. \<exists>dk. s rq = Some dk \<and> t' = (\<lambda>dk t. t @ dk) dk t)"
    using first [of ?rq] by (auto simp: demo_sops_def split: list.splits)
  from decryption_provenance [OF sops d]
  obtain dec keys where p: "key_material ?tenant dec keys"
    and opened: "\<exists>rq dk. tenant_key demo_sops keys (Some (''prod'', ''deployer'')) rq dk \<and> ''pwk'' = ''pw'' @ dk"
    by (auto simp: demo_encrypted_set_def plain_set_def plain_spec_def demo_sops_def has_prefix_def opened_by_def kms_identity_def
        split: if_splits)
  show ?thesis using d p opened by blast
qed

end
