(* ===== verification/Operator.thy ===== *)
theory Operator
  imports Watches FleetRollout
begin

text \<open>
  The operator's commands (\<open>internal/cli\<close>): requests stamped on a StageSet for the controller to act on
  (\<open>reconcile.go\<close>, \<open>promote.go\<close>), the edits of a StageLedger (\<open>ledger.go\<close>) and the view of a fleet (\<open>fleet.go\<close>). A command is
  what it computes from the objects it reads and what it writes; flags, printing and the client are left out. The token is an
  argument, a time stamp no one has used before.
\<close>

section \<open>Requests (reconcile.go)\<close>

record reconcileOptions =
  rco_stage :: string
  rco_withSource :: bool
  rco_strict :: bool
  rco_updateNow :: bool
  rco_budgetOverride :: bool
  rco_resetScope :: string
  rco_force :: bool

definition specStage :: "StageSet \<Rightarrow> string \<Rightarrow> Stage option" where
  "specStage ss name = find (\<lambda>st. stg_Name st = name) (spec_Stages (set_Spec ss))"

definition hasSpecStage :: "StageSet \<Rightarrow> string \<Rightarrow> bool" where
  "hasSpecStage ss name \<longleftrightarrow> specStage ss name \<noteq> None"

definition put_annotation :: "string \<Rightarrow> string \<Rightarrow> StageSet \<Rightarrow> StageSet" where
  "put_annotation k v ss = ss\<lparr>set_Annotations := (set_Annotations ss)(k \<mapsto> v)\<rparr>"

definition put_when :: "bool \<Rightarrow> string \<Rightarrow> string \<Rightarrow> StageSet \<Rightarrow> StageSet" where
  "put_when b k v ss = (if b then put_annotation k v ss else ss)"

definition stamp_request :: "reconcileOptions \<Rightarrow> string \<Rightarrow> StageSet \<Rightarrow> StageSet" where
  "stamp_request opts token ss =
     put_when (rco_stage opts \<noteq> []) reconcileStageAnnotation (rco_stage opts @ ''@'' @ token)
       (put_when (rco_resetScope opts \<noteq> []) resetScopeAnnotation token
         (put_when (rco_budgetOverride opts) budgetOverrideAnnotation token
           (put_when (rco_updateNow opts) updateNowAnnotation token
             (put_annotation reconcileRequestAnnotation token ss))))"

datatype request_error = NotResettable | SuspendedSet | StageNotFound | SourcesFailed nat | NoPromotionGate | StageRequired

text \<open>\<open>failed\<close> is the number of sources that could not be requested.\<close>

definition runReconcile :: "reconcileOptions \<Rightarrow> string \<Rightarrow> nat \<Rightarrow> StageSet \<Rightarrow> request_error + StageSet" where
  "runReconcile opts token failed ss =
     (if rco_resetScope opts \<noteq> [] \<and> rco_resetScope opts \<noteq> ''Version'' then Inl NotResettable
      else if spec_Suspend (set_Spec ss) \<and> \<not> rco_force opts then Inl SuspendedSet
      else if rco_stage opts \<noteq> [] \<and> \<not> hasSpecStage ss (rco_stage opts) then Inl StageNotFound
      else if rco_withSource opts \<and> rco_strict opts \<and> 0 < failed then Inl (SourcesFailed failed)
      else Inr (stamp_request opts token ss))"

definition reconcileHandled :: "reconcileOptions \<Rightarrow> string \<Rightarrow> StageStatus list \<Rightarrow> reconcile_status \<Rightarrow> bool" where
  "reconcileHandled opts token stages st \<longleftrightarrow>
     (let held = (rco_updateNow opts \<and> ws_pending (rst_Window st) \<noteq> None) \<or> (rco_budgetOverride opts \<and> rst_BudgetFreeze st \<noteq> None) in
      if rco_stage opts \<noteq> []
      then (case find (\<lambda>s. ss_Name s = rco_stage opts) stages of
          None \<Rightarrow> False
        | Some s \<Rightarrow> ss_LastHandledReconcileAt s = token \<and> \<not> held)
      else rst_LastHandledReconcileAt st = token \<and> \<not> held)"

text \<open>The sources of the stages. \<open>get\<close> reads an object by kind, namespace and name, with its back pointer and the namespace
  that names; \<open>put\<close> tells whether the request could be written on it.\<close>

record source_client =
  sl_get :: "gvk \<Rightarrow> string \<Rightarrow> string \<Rightarrow> (back_pointer \<times> string) option option"
  sl_put :: "gvk \<Rightarrow> string \<Rightarrow> string \<Rightarrow> bool"

definition sourceGVK :: "(string \<Rightarrow> (string \<times> string) option) \<Rightarrow> SourceReference \<Rightarrow> gvk" where
  "sourceGVK gv ref =
     (if src_Kind ref = [] \<or> src_Kind ref = externalArtifactKind then ExternalArtifactGVK
      else (case gv (src_APIVersion ref) of
          None \<Rightarrow> ([], [], src_Kind ref)
        | Some (grp, version) \<Rightarrow> (grp, version, src_Kind ref)))"

definition producerFor ::
  "source_client \<Rightarrow> (string \<Rightarrow> (string \<times> string) option) \<Rightarrow> string \<Rightarrow> (back_pointer \<times> string) option
   \<Rightarrow> (gvk \<times> string \<times> string) option" where
  "producerFor c gv eaNamespace pointer =
     (case pointer of
        None \<Rightarrow> None
      | Some (bp, bpNamespace) \<Rightarrow>
          if bp_kind bp = [] \<or> bp_name bp = [] \<or> bp_apiVersion bp = [] then None
          else (case gv (bp_apiVersion bp) of
              None \<Rightarrow> None
            | Some (grp, version) \<Rightarrow>
                let ns = (if bpNamespace = [] then eaNamespace else bpNamespace); kind = (grp, version, bp_kind bp) in
                if sl_get c kind ns (bp_name bp) = None then None else Some (kind, ns, bp_name bp)))"

text \<open>The objects that were asked to publish anew, and how many references failed.\<close>

fun reconcileSources ::
  "source_client \<Rightarrow> (string \<Rightarrow> (string \<times> string) option) \<Rightarrow> string \<Rightarrow> SourceReference list \<Rightarrow> string list
   \<Rightarrow> (gvk \<times> string \<times> string) list \<times> nat" where
  "reconcileSources c gv ssNamespace [] seen = ([], 0)"
| "reconcileSources c gv ssNamespace (ref # refs) seen =
     (let ns = (if src_Namespace ref = [] then ssNamespace else src_Namespace ref);
          key = ns @ ''/'' @ src_Name ref
      in if key \<in> set seen then reconcileSources c gv ssNamespace refs seen
         else let target =
             (case sl_get c (sourceGVK gv ref) ns (src_Name ref) of
                None \<Rightarrow> None
              | Some pointer \<Rightarrow>
                  if sourceGVK gv ref = ExternalArtifactGVK then producerFor c gv ns pointer
                  else Some (sourceGVK gv ref, ns, src_Name ref));
             (requested, failed) = reconcileSources c gv ssNamespace refs (key # seen)
         in case target of
              None \<Rightarrow> (requested, Suc failed)
            | Some (kind, n, name) \<Rightarrow>
                if sl_put c kind n name then ((kind, n, name) # requested, failed) else (requested, Suc failed))"

section \<open>Promotion (promote.go)\<close>

definition runPromote :: "string \<Rightarrow> bool \<Rightarrow> string \<Rightarrow> StageSet \<Rightarrow> request_error + StageSet" where
  "runPromote stage force token ss =
     (if stage = [] then Inl StageRequired
      else case specStage ss stage of
        None \<Rightarrow> Inl StageNotFound
      | Some st \<Rightarrow>
          if stg_Promotion st = None then Inl NoPromotionGate
          else if spec_Suspend (set_Spec ss) \<and> \<not> force then Inl SuspendedSet
          else Inr (put_annotation promoteAnnotation (stage @ ''@'' @ token) ss))"

definition promoteHandled :: "string \<Rightarrow> string \<Rightarrow> StageStatus list \<Rightarrow> bool" where
  "promoteHandled stage token stages \<longleftrightarrow>
     (case find (\<lambda>s. ss_Name s = stage) stages of None \<Rightarrow> False | Some s \<Rightarrow> ss_LastHandledPromotion s = token)"

section \<open>The lifetime ledger (ledger.go)\<close>

datatype ledger_end = AlreadyBaselined | LedgerCreated "LedgerRef list" | LedgerUpdated "LedgerRef list"

definition isLifetimeActionInSpec :: "StageSet \<Rightarrow> string \<Rightarrow> string \<Rightarrow> bool" where
  "isLifetimeActionInSpec ss stage action \<longleftrightarrow>
     (case specStage ss stage of None \<Rightarrow> False | Some st \<Rightarrow> action \<in> set (stageLifetimeActionNames st))"

definition hasBaselineRef :: "LedgerRef list \<Rightarrow> LedgerRef \<Rightarrow> bool" where
  "hasBaselineRef baseline ref \<longleftrightarrow> ref \<in> set baseline"

text \<open>\<open>None\<close> is a refusal; a StageSet or a ledger may not be there yet.\<close>

definition runBaselineAdd :: "StageSet option \<Rightarrow> LedgerRef list option \<Rightarrow> string \<Rightarrow> string \<Rightarrow> ledger_end option" where
  "runBaselineAdd found ledger stage action =
     (if (case found of Some ss \<Rightarrow> \<not> isLifetimeActionInSpec ss stage action | None \<Rightarrow> False) then None
      else let ref = \<lparr>lr_Stage = stage, lr_Action = action\<rparr> in
        Some (case ledger of
            None \<Rightarrow> LedgerCreated [ref]
          | Some baseline \<Rightarrow> if hasBaselineRef baseline ref then AlreadyBaselined else LedgerUpdated (baseline @ [ref])))"

definition runBaselineExport :: "LedgerCompletion list \<Rightarrow> LedgerRef list" where
  "runBaselineExport completed = map (\<lambda>c. \<lparr>lr_Stage = lc_Stage c, lr_Action = lc_Action c\<rparr>) completed"

definition reset_match :: "(string \<times> string) option \<Rightarrow> string \<Rightarrow> string \<Rightarrow> bool" where
  "reset_match which stage action \<longleftrightarrow> (case which of None \<Rightarrow> True | Some (s, a) \<Rightarrow> stage = s \<and> action = a)"

text \<open>One completion, or all (\<open>None\<close>). The two writes, of the baseline and of the completions, are the two results.\<close>

definition runResetLedger ::
  "(string \<times> string) option \<Rightarrow> LedgerRef list \<Rightarrow> LedgerCompletion list \<Rightarrow> LedgerRef list \<times> LedgerCompletion list" where
  "runResetLedger which baseline completed =
     (filter (\<lambda>r. \<not> reset_match which (lr_Stage r) (lr_Action r)) baseline,
      filter (\<lambda>c. \<not> reset_match which (lc_Stage c) (lc_Action c)) completed)"

section \<open>The view of a fleet (fleet.go)\<close>

definition memberAdopted :: "FleetRolloutSpec \<Rightarrow> fleet_member \<Rightarrow> bool" where
  "memberAdopted spec m \<longleftrightarrow>
     (if fsp_TargetVersion spec \<noteq> [] then so_Version m = fsp_TargetVersion spec else fm_PendingVersion m = [])"

definition stageSetReady :: "fleet_member \<Rightarrow> bool" where
  "stageSetReady m \<longleftrightarrow> so_Ready m = Some ''True'' \<and> so_ObservedGeneration m = so_Generation m"

datatype member_mark = MarkReady | MarkRegressed | MarkHeld

definition memberMark :: "FleetRolloutSpec \<Rightarrow> fleet_member \<Rightarrow> member_mark" where
  "memberMark spec m =
     (if memberAdopted spec m \<and> stageSetReady m then MarkReady else if memberAdopted spec m then MarkRegressed else MarkHeld)"

definition fleetDisplayVersion :: "FleetRolloutSpec \<Rightarrow> fleet_member list \<Rightarrow> string" where
  "fleetDisplayVersion spec members =
     (if fsp_TargetVersion spec \<noteq> [] then ''version '' @ fsp_TargetVersion spec
      else case remdups (filter (\<lambda>v. v \<noteq> []) (map fm_PendingVersion members)) of
        [] \<Rightarrow> ''the current version''
      | [v] \<Rightarrow> ''version '' @ v
      | _ \<Rightarrow> ''mixed versions'')"

section \<open>Requests reach the pass\<close>

lemma annotation_put: "annotation (put_annotation k v ss) k' = (if k' = k then v else annotation ss k')"
  by (simp add: annotation_def put_annotation_def)

lemma annotation_put_when: "annotation (put_when b k v ss) k' = (if b \<and> k' = k then v else annotation ss k')"
  by (simp add: put_when_def annotation_put)

lemma put_frame [simp]:
  "set_Spec (put_annotation k v ss) = set_Spec ss" "set_Generation (put_annotation k v ss) = set_Generation ss"
  "set_Spec (put_when b k v ss) = set_Spec ss" "set_Generation (put_when b k v ss) = set_Generation ss"
  by (simp_all add: put_annotation_def put_when_def)

lemmas annotation_keys = reconcileRequestAnnotation_def reconcileStageAnnotation_def updateNowAnnotation_def
  budgetOverrideAnnotation_def resetScopeAnnotation_def promoteAnnotation_def

text \<open>What a stamped request holds.\<close>

lemma stamp_request_annotations:
  "annotation (stamp_request opts token ss) reconcileRequestAnnotation = token"
  "rco_stage opts \<noteq> [] \<Longrightarrow> annotation (stamp_request opts token ss) reconcileStageAnnotation = rco_stage opts @ ''@'' @ token"
  "rco_updateNow opts \<Longrightarrow> annotation (stamp_request opts token ss) updateNowAnnotation = token"
  "rco_budgetOverride opts \<Longrightarrow> annotation (stamp_request opts token ss) budgetOverrideAnnotation = token"
  "rco_resetScope opts \<noteq> [] \<Longrightarrow> annotation (stamp_request opts token ss) resetScopeAnnotation = token"
  by (simp_all add: stamp_request_def annotation_put_when annotation_put annotation_keys)

lemma runReconcile_stamps: "runReconcile opts token failed ss = Inr ss' \<Longrightarrow>
    ss' = stamp_request opts token ss \<and> (rco_stage opts \<noteq> [] \<longrightarrow> hasSpecStage ss (rco_stage opts)) \<and>
    (spec_Suspend (set_Spec ss) \<longrightarrow> rco_force opts)"
  by (auto simp: runReconcile_def split: if_splits)

lemma forced_stage:
  assumes "annotation ss reconcileStageAnnotation = name @ ''@'' @ token" "name \<noteq> []" "token \<noteq> []" "CHR ''@'' \<notin> set name"
  shows "prior name = Some p \<Longrightarrow> ss_LastHandledReconcileAt p \<noteq> token \<Longrightarrow>
      apply_force ss prior name = Some (p\<lparr>ss_ExecutedActions := [], ss_LedgerRevision := []\<rparr>) \<and> lastHandledFor ss prior name = token"
    and "prior name = None \<Longrightarrow> lastHandledFor ss prior name = []"
proof -
  have parse: "parseReconcileStage ss = (name, token)"
    using assms stage_at_token_Some by (simp add: parseReconcileStage_def)
  show "apply_force ss prior name = Some (p\<lparr>ss_ExecutedActions := [], ss_LedgerRevision := []\<rparr>) \<and> lastHandledFor ss prior name = token"
    if "prior name = Some p" "ss_LastHandledReconcileAt p \<noteq> token"
    using that assms(2) by (simp add: apply_force_def lastHandledFor_def force_target_def parse)
  show "lastHandledFor ss prior name = []" if "prior name = None"
    using that assms(2) by (simp add: lastHandledFor_def force_target_def parse)
qed

lemma gatePromotion_token:
  assumes "annotation ss promoteAnnotation = stg_Name stage @ ''@'' @ token" "stg_Name stage \<noteq> []" "token \<noteq> []" "CHR ''@'' \<notin> set (stg_Name stage)"
    and "stg_Promotion stage = Some p" "ss_LastHandledPromotion prior \<noteq> token"
  shows "go_promoted (gatePromotion d ss stage revision prior now verdict fast restart event) \<and>
    (already_promoted prior revision \<or> go_handled (gatePromotion d ss stage revision prior now verdict fast restart event) = token)"
proof -
  have token: "promoteTokenFor ss (stg_Name stage) = token"
    using assms(1-4) stage_at_token_Some by (simp add: promoteTokenFor_def parsePromote_def)
  then have "fresh_token ss stage prior" using assms(3,6) by (simp add: fresh_token_def)
  then show ?thesis using assms(5) token by (simp add: gatePromotion_def Let_def)
qed

lemma export_keys: "{(lr_Stage r, lr_Action r) | r. r \<in> set (runBaselineExport cs) \<and> P (lr_Stage r) (lr_Action r)} =
    {k \<in> set (ledger_keys cs). P (fst k) (snd k)}"
proof -
  have "\<exists>r. (lc_Stage c, lc_Action c) = (lr_Stage r, lr_Action r) \<and> r \<in> set (runBaselineExport cs) \<and> P (lr_Stage r) (lr_Action r)"
    if "c \<in> set cs" "P (lc_Stage c) (lc_Action c)" for c
    using that by (intro exI [of _ "\<lparr>lr_Stage = lc_Stage c, lr_Action = lc_Action c\<rparr>"]) (auto simp: runBaselineExport_def)
  then show ?thesis by (auto simp: ledger_keys_def runBaselineExport_def)
qed

text \<open>A baseline asserts no witness.\<close>

lemma baseline_unanchored: "c \<in> set (fst (fold (baseline_step stages now) refs acc)) \<Longrightarrow> c \<in> set (fst acc) \<or> lc_Anchor c = None"
proof (induction refs arbitrary: acc)
  case (Cons r refs)
  then have "c \<in> set (fst (baseline_step stages now r acc)) \<or> lc_Anchor c = None" by simp
  then show ?case by (auto simp: baseline_step_def split: prod.splits if_splits)
qed simp

text \<open>A completion without a witness is done.\<close>

lemma unanchored_done: "c \<in> set cs \<Longrightarrow> lc_Anchor c = None \<Longrightarrow>
    lc_Action c \<in> set (lg_Done (EvaluateLifetimeGate reader (Some cs) (lc_Stage c)))"
  by (auto simp: EvaluateLifetimeGate_def gate_fold)

section \<open>Properties\<close>


text \<open>A suspended StageSet with two stages, a prior status for the first and an update held by a window.\<close>

definition demo_request :: reconcileOptions where
  "demo_request = \<lparr>rco_stage = ''db'', rco_withSource = False, rco_strict = False, rco_updateNow = True,
     rco_budgetOverride = False, rco_resetScope = [], rco_force = True\<rparr>"

definition gated_db :: Stage where
  "gated_db = (plain_stage ''db'')\<lparr>stg_Promotion := Some demo_promotion\<rparr>"

definition requested_set :: StageSet where
  "requested_set = (plain_set [])\<lparr>set_Spec := (plain_spec [gated_db, plain_stage ''app''])\<lparr>spec_Suspend := True\<rparr>\<rparr>"


text \<open>C32: The ledger commands. A ledger that is exported and put in place of a lost one suppresses on the next pass every
  action it had completed, as long as the stages still declare it once per lifetime; a completion that is reset is
  forgotten and is not asserted anew by the baseline that the command leaves, while every other stays.\<close>

theorem ledger_commands_exact:
  assumes "distinct (ledger_keys cs)"
  shows "(\<forall>c\<in>set cs. isLifetimeAction stages (lc_Stage c) (lc_Action c) \<longrightarrow>
      lc_Action c \<in> set (lg_Done (EvaluateLifetimeGate reader (Some (fst (promoteBaseline stages now (runBaselineExport cs) []))) (lc_Stage c)))) \<and>
    (\<forall>stage action. (stage, action) \<in> set (ledger_keys (fst (promoteBaseline stages now (runBaselineExport cs) []))) \<longrightarrow>
      (stage, action) \<in> set (ledger_keys cs)) \<and>
    (\<forall>which baseline kept completed'. runResetLedger which baseline cs = (kept, completed') \<longrightarrow>
      set (ledger_keys (fst (promoteBaseline stages now kept completed'))) =
        {k \<in> set (ledger_keys cs) \<union> {(lr_Stage r, lr_Action r) | r. r \<in> set baseline \<and> isLifetimeAction stages (lr_Stage r) (lr_Action r)}.
          \<not> reset_match which (fst k) (snd k)})"
proof (intro conjI)
  let ?new = "fst (promoteBaseline stages now (runBaselineExport cs) [])"
  have "distinct (ledger_keys ([] :: LedgerCompletion list))" by (simp add: ledger_keys_def)
  note restored = baseline_fold [OF this, of stages now "runBaselineExport cs" "[]" False, folded promoteBaseline_def]
  have keys: "set (ledger_keys ?new) = {k \<in> set (ledger_keys cs). isLifetimeAction stages (fst k) (snd k)}"
    using restored export_keys [where P = "isLifetimeAction stages" and cs = cs] by (simp add: ledger_keys_def)
  then show "\<forall>stage action. (stage, action) \<in> set (ledger_keys ?new) \<longrightarrow> (stage, action) \<in> set (ledger_keys cs)" by blast
  have unanchored: "lc_Anchor c = None" if "c \<in> set ?new" for c
    using baseline_unanchored [of c stages now "runBaselineExport cs" "([], [], False)"] that by (simp add: promoteBaseline_def)
  have "lc_Action c \<in> set (lg_Done (EvaluateLifetimeGate reader (Some ?new) (lc_Stage c)))"
    if c: "c \<in> set cs" "isLifetimeAction stages (lc_Stage c) (lc_Action c)" for c
  proof -
    from c have "(lc_Stage c, lc_Action c) \<in> set (ledger_keys ?new)" unfolding keys by (auto simp: ledger_keys_def)
    then obtain n where n: "n \<in> set ?new" "lc_Stage n = lc_Stage c" "lc_Action n = lc_Action c" by (auto simp: ledger_keys_def)
    then show ?thesis using unanchored_done [OF n(1) unanchored [OF n(1)], of reader] by simp
  qed
  then show "\<forall>c\<in>set cs. isLifetimeAction stages (lc_Stage c) (lc_Action c) \<longrightarrow>
      lc_Action c \<in> set (lg_Done (EvaluateLifetimeGate reader (Some ?new) (lc_Stage c)))" by blast
  show "\<forall>which baseline kept completed'. runResetLedger which baseline cs = (kept, completed') \<longrightarrow>
      set (ledger_keys (fst (promoteBaseline stages now kept completed'))) =
        {k \<in> set (ledger_keys cs) \<union> {(lr_Stage r, lr_Action r) | r. r \<in> set baseline \<and> isLifetimeAction stages (lr_Stage r) (lr_Action r)}.
          \<not> reset_match which (fst k) (snd k)}"
  proof (intro allI impI)
    fix which baseline kept completed'
    assume r: "runResetLedger which baseline cs = (kept, completed')"
    then have c: "completed' = filter (\<lambda>c. \<not> reset_match which (lc_Stage c) (lc_Action c)) cs"
      and k: "kept = filter (\<lambda>r. \<not> reset_match which (lr_Stage r) (lr_Action r)) baseline" by (auto simp: runResetLedger_def)
    have "distinct (ledger_keys completed')" using assms by (simp add: c ledger_keys_def distinct_map inj_on_def)
    from baseline_fold [OF this, of stages now kept "[]" False, folded promoteBaseline_def]
    show "set (ledger_keys (fst (promoteBaseline stages now kept completed'))) =
        {k \<in> set (ledger_keys cs) \<union> {(lr_Stage r, lr_Action r) | r. r \<in> set baseline \<and> isLifetimeAction stages (lr_Stage r) (lr_Action r)}.
          \<not> reset_match which (fst k) (snd k)}"
      by (auto simp: c k ledger_keys_def)
  qed
qed

text \<open>A lost ledger is put back from its export: its witnessed completion counts as done although the witness is gone.\<close>

definition lost_ledger :: "LedgerCompletion list" where
  "lost_ledger = [demo_completion\<lparr>lc_Action := ''seed''\<rparr>, demo_completion\<lparr>lc_Stage := ''app''\<rparr>]"

lemma ledger_commands_exact_witness:
  "''seed'' \<in> set (lg_Done (EvaluateLifetimeGate (\<lambda>_ _ _. Inl read_error.ReadNotFound)
     (Some (fst (promoteBaseline [demo_lifetime_stage] 9 (runBaselineExport lost_ledger) []))) ''db''))"
proof -
  have "distinct (ledger_keys lost_ledger)" by (simp add: ledger_keys_def lost_ledger_def demo_completion_def)
  note exact = ledger_commands_exact [OF this, THEN conjunct1]
  have "demo_completion\<lparr>lc_Action := ''seed''\<rparr> \<in> set lost_ledger" by (simp add: lost_ledger_def)
  moreover have "isLifetimeAction [demo_lifetime_stage] ''db'' ''seed''" by code_simp
  ultimately show ?thesis using exact by (fastforce simp: demo_completion_def)
qed

text \<open>A source reference without an API version: the controller reads it in the group of the sources, the command does not
  find it.\<close>

lemma source_group_not_defaulted:
  assumes "\<And>ns n. sl_get c ([], [], ''GitRepository'') ns n = None" "gv [] = Some ([], [])"
  shows "reconcileSources c gv ns [repo_ref] [] = ([], 1)"
  using assms by (simp add: repo_ref_def sourceGVK_def externalArtifactKind_def)

text \<open>A second source with the name of a first one, of another kind, is not requested at all.\<close>

lemma source_of_another_kind_skipped:
  "src_Namespace r = src_Namespace r' \<Longrightarrow> src_Name r = src_Name r' \<Longrightarrow>
    reconcileSources c gv ns [r, r'] [] = reconcileSources c gv ns [r] []"
  by (simp add: Let_def)

text \<open>A member with a held update is shown as ready while the controller does not count it.\<close>

lemma held_member_shown_ready:
  "fsp_TargetVersion spec = so_Version m \<Longrightarrow> so_Version m \<noteq> [] \<Longrightarrow> stageSetReady m \<Longrightarrow> update_held (StageSetObj.truncate m) \<Longrightarrow>
    memberMark spec m = MarkReady \<and> \<not> snd (memberProgress spec m)"
  by (simp add: memberMark_def memberAdopted_def memberProgress_def)

end
