(* ===== verification/Spec2Isabelle.thy ===== *)
theory Spec2Isabelle
  imports Teardown Dependencies Guard FleetHalts FleetProgress Admission ImageGate Credentials Preview DiffRender Verbs CertRotation MetricQuery Watches Build Decryption Operator
begin

text \<open>
  Verification development for stageset-controller.
\<close>

end
